(* ===== verification/Fd_Prelude.thy ===== *)
theory Fd_Prelude
  imports Main "HOL-Library.Word" "HOL-Library.Signed_Division"
begin

text \<open>
  Shared vocabulary of the development: the C integer types as words, the saturating and rotating
  helpers of \<^verbatim>\<open>util/bits\<close>, and the generic facts about lists and words the
  components rest on.  The sources are built with \<^verbatim>\<open>-std=c17 -fwrapv\<close>
  (\<^verbatim>\<open>config/base.mk\<close>), so signed arithmetic wraps: a C \<open>long\<close> is a 64 bit word
  read by \<open>sint\<close>, a C \<open>ulong\<close> the same word read by \<open>unat\<close>.
\<close>

unbundle bit_operations_syntax

section \<open>Types\<close>

type_synonym u8 = "8 word"
type_synonym u16 = "16 word"
type_synonym u32 = "32 word"
type_synonym u64 = "64 word"
type_synonym u128 = "128 word"
type_synonym fd_hash = "256 word"
type_synonym fd_pubkey = "256 word"

section \<open>Collections\<close>

named_theorems feature_defs \<open>the version feature switches\<close>
named_theorems op_defs \<open>the definitions of the instruction handlers\<close>
named_theorems interp_defs \<open>the macros of the interpreter loop\<close>
named_theorems field_defs \<open>the accessors of packed words\<close>

section \<open>Saturating arithmetic (\<open>util/bits/fd_sat.h\<close>)\<close>

text \<open>
  The overflow builtins compute the carry on the mathematical result; the helpers replace the
  wrapped value by the nearest representable one.
\<close>

definition fd_ulong_sat_add :: "u64 \<Rightarrow> u64 \<Rightarrow> u64" where
  "fd_ulong_sat_add x y = (if 2 ^ 64 \<le> unat x + unat y then - 1 else x + y)"

definition fd_ulong_sat_mul :: "u64 \<Rightarrow> u64 \<Rightarrow> u64" where
  "fd_ulong_sat_mul x y = (if 2 ^ 64 \<le> unat x * unat y then - 1 else x * y)"

definition fd_ulong_sat_sub :: "u64 \<Rightarrow> u64 \<Rightarrow> u64" where
  "fd_ulong_sat_sub x y = (if unat x < unat y then 0 else x - y)"

definition long_min :: u64 where
  "long_min = 0x8000000000000000"

definition long_max :: u64 where
  "long_max = 0x7fffffffffffffff"

definition long_overflows :: "int \<Rightarrow> bool" where
  "long_overflows r \<longleftrightarrow> r < - (2 ^ 63) \<or> 2 ^ 63 \<le> r"

definition fd_long_sat_add :: "u64 \<Rightarrow> u64 \<Rightarrow> u64" where
  "fd_long_sat_add x y =
     (if long_overflows (sint x + sint y) then (if sint x < 0 then long_min else long_max)
      else x + y)"

definition fd_long_sat_sub :: "u64 \<Rightarrow> u64 \<Rightarrow> u64" where
  "fd_long_sat_sub x y =
     (if long_overflows (sint x - sint y) then (if sint x < 0 then long_min else long_max)
      else x - y)"

definition fd_long_sat_mul :: "u64 \<Rightarrow> u64 \<Rightarrow> u64" where
  "fd_long_sat_mul x y =
     (if long_overflows (sint x * sint y)
      then (if (sint x < 0) \<noteq> (sint y < 0) then long_min else long_max)
      else x * y)"

definition fd_uint_sat_add :: "u32 \<Rightarrow> u32 \<Rightarrow> u32" where
  "fd_uint_sat_add x y = (if 2 ^ 32 \<le> unat x + unat y then - 1 else x + y)"

definition fd_uint_sat_sub :: "u32 \<Rightarrow> u32 \<Rightarrow> u32" where
  "fd_uint_sat_sub x y = (if unat x < unat y then 0 else x - y)"

definition fd_uint_sat_mul :: "u32 \<Rightarrow> u32 \<Rightarrow> u32" where
  "fd_uint_sat_mul x y = (if 2 ^ 32 \<le> unat x * unat y then - 1 else x * y)"

text \<open>The 128 bit product has no overflow builtin: the source tests the wrapped result.\<close>

definition fd_uint128_sat_mul :: "u128 \<Rightarrow> u128 \<Rightarrow> u128" where
  "fd_uint128_sat_mul x y =
     (let res = x * y;
          overflow = (x \<noteq> 0 \<and> y \<noteq> 0 \<and> (res < x \<or> res < y \<or> res div x \<noteq> y))
      in if overflow then - 1 else res)"

definition fd_uint128_sat_add :: "u128 \<Rightarrow> u128 \<Rightarrow> u128" where
  "fd_uint128_sat_add x y = (let res = x + y in if res < x then - 1 else res)"

definition fd_uint128_sat_sub :: "u128 \<Rightarrow> u128 \<Rightarrow> u128" where
  "fd_uint128_sat_sub x y = (let res = x - y in if x < res then 0 else res)"

section \<open>Rotation (\<open>util/bits/fd_bits.h\<close>)\<close>

definition fd_uint_rotate_left :: "u32 \<Rightarrow> nat \<Rightarrow> u32" where
  "fd_uint_rotate_left x n =
     (push_bit (n mod 32) x OR drop_bit ((32 - n mod 32) mod 32) x)"

definition fd_uint_rotate_right :: "u32 \<Rightarrow> nat \<Rightarrow> u32" where
  "fd_uint_rotate_right x n =
     (drop_bit (n mod 32) x OR push_bit ((32 - n mod 32) mod 32) x)"

section \<open>Little endian bytes (\<open>FD_LOAD\<close>, \<open>FD_STORE\<close>, \<open>memcpy\<close> of an integer)\<close>

fun le_load :: "u8 list \<Rightarrow> 'a::len word" where
  "le_load [] = 0"
| "le_load (b # bs) = ucast b OR push_bit 8 (le_load bs)"

definition le_bytes :: "nat \<Rightarrow> 'a::len word \<Rightarrow> u8 list" where
  "le_bytes n w = map (\<lambda>i. ucast (drop_bit (8 * i) w)) [0 ..< n]"

section \<open>Tables\<close>

text \<open>A sequence of assignments \<open>t[i] = x\<close> to a table, in order.\<close>

definition override_table :: "(nat \<times> 'a) list \<Rightarrow> 'a list \<Rightarrow> 'a list" where
  "override_table us t = foldl (\<lambda>t (i, x). t[i := x]) t us"

section \<open>Generic lemmas\<close>

lemma override_table_simps [simp]:
  "override_table [] t = t"
  "override_table ((i, x) # us) t = override_table us (t[i := x])"
  by (simp_all add: override_table_def)

lemma length_override_table [simp]: "length (override_table us t) = length t"
  by (induction us arbitrary: t) auto

lemma nth_override_table:
  "i < length t \<Longrightarrow>
    override_table us t ! i = (case map_of (rev us) i of None \<Rightarrow> t ! i | Some x \<Rightarrow> x)"
proof (induction us arbitrary: t)
  case Nil
  then show ?case by simp
next
  case (Cons u us)
  then show ?case
    by (cases u) (auto simp: map_of_append map_add_def split: option.splits)
qed

lemma length_le_bytes [simp]: "length (le_bytes n w) = n"
  by (simp add: le_bytes_def)

lemma le_bytes_Suc: "le_bytes (Suc n) w = ucast w # le_bytes n (drop_bit 8 w)"
proof -
  have "[0 ..< Suc n] = 0 # map Suc [0 ..< n]"
    by (simp add: upt_conv_Cons map_Suc_upt del: upt_Suc)
  then show ?thesis
    by (simp add: le_bytes_def add.commute del: upt_Suc)
qed

lemma le_load_le_bytes: "le_load (le_bytes n w) = take_bit (8 * n) w"
proof (induction n arbitrary: w)
  case 0
  then show ?case by (simp add: le_bytes_def)
next
  case (Suc n)
  show ?case
    by (rule bit_word_eqI)
      (auto simp: le_bytes_Suc Suc bit_simps)
qed

lemma bit_le_load_high:
  "bit (le_load bs :: 'a::len word) n \<Longrightarrow> n < 8 * length bs"
proof (induction bs arbitrary: n)
  case (Cons b bs)
  show ?case
  proof (cases "n < 8")
    case False
    with Cons have "bit (le_load bs :: 'a word) (n - 8)"
      by (auto simp: bit_simps dest: bit_imp_le_length)
    thus ?thesis using Cons.IH False by fastforce
  qed simp
qed simp

lemma le_bytes_le_load:
  "8 * length bs \<le> LENGTH('a) \<Longrightarrow> le_bytes (length bs) (le_load bs :: 'a::len word) = bs"
proof (induction bs)
  case (Cons b bs)
  have "ucast (ucast b OR push_bit 8 (le_load bs :: 'a word)) = b"
    using Cons.prems by (intro bit_eqI) (auto simp: bit_simps)
  moreover have "drop_bit 8 (ucast b OR push_bit 8 (le_load bs :: 'a word)) = le_load bs"
    using Cons.prems
    by (intro bit_eqI) (auto simp: bit_simps dest: bit_imp_le_length bit_le_load_high)
  ultimately show ?case using Cons by (simp add: le_bytes_Suc)
qed (simp add: le_bytes_def)

lemma unat_lt64: "unat (x :: u64) < 2 ^ 64"
  using unsigned_less [of x] by simp

lemma unat_lt32: "unat (x :: u32) < 2 ^ 32"
  using unsigned_less [of x] by simp

lemma sint_bounds64: "- (2 ^ 63) \<le> sint (x :: u64) \<and> sint x < 2 ^ 63"
  using sint_lt [of x] sint_ge [of x] by simp

lemma sint_word_of_int64: "- (2 ^ 63) \<le> r \<Longrightarrow> r < 2 ^ 63 \<Longrightarrow> sint (word_of_int r :: u64) = r"
  by (simp add: signed_take_bit_int_eq_self sint_sbintrunc')

lemma unat_add64: "unat (x :: u64) + unat y < 2 ^ 64 \<Longrightarrow> unat (x + y) = unat x + unat y"
  by (simp add: unat_word_ariths)

lemma unat_sub64: "unat (y :: u64) \<le> unat x \<Longrightarrow> unat (x - y) = unat x - unat y"
  by (simp add: unat_sub word_le_nat_alt)

lemma unat_mul64: "unat (x :: u64) * unat y < 2 ^ 64 \<Longrightarrow> unat (x * y) = unat x * unat y"
  by (simp add: unat_word_ariths)

lemma unat_minus_one64: "unat (- 1 :: u64) = 2 ^ 64 - 1"
  by (simp add: unsigned_minus_1_eq_mask mask_eq_exp_minus_1)

section \<open>What the saturating helpers compute\<close>

lemma unat_fd_ulong_sat_add: "unat (fd_ulong_sat_add x y) = min (unat x + unat y) (2 ^ 64 - 1)"
  by (auto simp: fd_ulong_sat_add_def unat_add64 unat_minus_one64)

lemma unat_fd_ulong_sat_sub: "unat (fd_ulong_sat_sub x y) = unat x - unat y"
  by (auto simp: fd_ulong_sat_sub_def unat_sub64)

lemma unat_fd_ulong_sat_mul: "unat (fd_ulong_sat_mul x y) = min (unat x * unat y) (2 ^ 64 - 1)"
  by (auto simp: fd_ulong_sat_mul_def unat_mul64 unat_minus_one64)

section \<open>Machines that run with fuel\<close>

text \<open>
  A loop over a state, run with fuel: a step goes on with a new state or stops with a result.  The
  locale is the contract a loop body has to meet for the loop to be total and safe: an invariant it
  keeps, a rank it lowers, and a property of the results it stops with.
\<close>

fun fuel_run :: "nat \<Rightarrow> ('s \<Rightarrow> 's + 'r) \<Rightarrow> 's \<Rightarrow> 'r option" where
  "fuel_run 0 step s = None"
| "fuel_run (Suc n) step s =
     (case step s of Inl s' \<Rightarrow> fuel_run n step s' | Inr r \<Rightarrow> Some r)"

inductive reaches :: "('s \<Rightarrow> 's + 'r) \<Rightarrow> 's \<Rightarrow> 's \<Rightarrow> bool" for step s where
  reaches_refl: "reaches step s s"
| reaches_step: "reaches step s s' \<Longrightarrow> step s' = Inl s'' \<Longrightarrow> reaches step s s''"

lemma fuel_run_reaches:
  "fuel_run n step s' = Some r \<Longrightarrow> reaches step s s' \<Longrightarrow> \<exists>s''. reaches step s s'' \<and> step s'' = Inr r"
  by (induction n arbitrary: s') (auto split: sum.splits intro: reaches_step)

lemma fuel_run_mono: "fuel_run n step s = Some r \<Longrightarrow> n \<le> m \<Longrightarrow> fuel_run m step s = Some r"
proof (induction n arbitrary: m s)
  case (Suc n)
  then obtain k where "m = Suc k" by (cases m) auto
  with Suc show ?case by (auto split: sum.splits)
qed simp

locale fueled_machine =
  fixes step :: "'s \<Rightarrow> 's + 'r" and inv :: "'s \<Rightarrow> bool" and rank :: "'s \<Rightarrow> nat"
    and good :: "'r \<Rightarrow> bool"
  assumes step_inv: "inv s \<Longrightarrow> step s = Inl s' \<Longrightarrow> inv s'"
    and step_rank: "inv s \<Longrightarrow> step s = Inl s' \<Longrightarrow> rank s' < rank s"
    and step_good: "inv s \<Longrightarrow> step s = Inr r \<Longrightarrow> good r"
begin

lemma reaches_inv: "reaches step s s' \<Longrightarrow> inv s \<Longrightarrow> inv s'"
  by (induction rule: reaches.induct) (auto intro: step_inv)

lemma run_total: "inv s \<Longrightarrow> rank s < n \<Longrightarrow> \<exists>r. fuel_run n step s = Some r \<and> good r"
proof (induction n arbitrary: s)
  case (Suc n)
  show ?case
  proof (cases "step s")
    case (Inl s')
    have "rank s' < n" using step_rank[OF Suc.prems(1) Inl] Suc.prems(2) by simp
    thus ?thesis using Suc.IH[OF step_inv[OF Suc.prems(1) Inl]] Inl by simp
  qed (use step_good[OF Suc.prems(1)] in simp)
qed simp

lemma run_good: "inv s \<Longrightarrow> fuel_run n step s = Some r \<Longrightarrow> good r"
  by (induction n arbitrary: s) (auto split: sum.splits dest: step_inv step_good)

end

text \<open>Loops whose body looks at an option.\<close>

lemma case_option_mono [partial_function_mono]:
  assumes "monotone orda ordb A" "\<And>y. monotone orda ordb (\<lambda>f. B f y)"
  shows "monotone orda ordb (\<lambda>f. case x of None \<Rightarrow> A f | Some y \<Rightarrow> B f y)"
  using assms by (cases x) simp_all

end
