(* ===== verification/Vm_Instr.thy ===== *)
theory Vm_Instr
  imports Fd_Prelude
begin

text \<open>
  The sBPF instruction word and the version switches: \<^verbatim>\<open>fd_vm_instr*\<close> and the feature macros of
  \<^verbatim>\<open>flamenco/vm/fd_vm_private.h\<close>, and the packed struct \<^verbatim>\<open>fd_sbpf_instr_t\<close> of
  \<^verbatim>\<open>ballet/sbpf/fd_sbpf_instr.h\<close> the validator reads the same word through.
\<close>

section \<open>Versions and features\<close>

abbreviation (input) FD_SBPF_V0 :: u64 where "FD_SBPF_V0 \<equiv> 0"
abbreviation (input) FD_SBPF_V1 :: u64 where "FD_SBPF_V1 \<equiv> 1"
abbreviation (input) FD_SBPF_V2 :: u64 where "FD_SBPF_V2 \<equiv> 2"
abbreviation (input) FD_SBPF_V3 :: u64 where "FD_SBPF_V3 \<equiv> 3"
abbreviation (input) FD_SBPF_V4 :: u64 where "FD_SBPF_V4 \<equiv> 4"

definition manual_stack_frame_bump :: "u64 \<Rightarrow> bool" where
  [feature_defs]: "manual_stack_frame_bump v \<longleftrightarrow> v = FD_SBPF_V1 \<or> v = FD_SBPF_V2"

definition stack_frame_gaps :: "u64 \<Rightarrow> bool" where
  [feature_defs]: "stack_frame_gaps v \<longleftrightarrow> v = FD_SBPF_V0"

definition enable_pqr :: "u64 \<Rightarrow> bool" where
  [feature_defs]: "enable_pqr v \<longleftrightarrow> v = FD_SBPF_V2"

definition explicit_sign_extension_of_results :: "u64 \<Rightarrow> bool" where
  [feature_defs]: "explicit_sign_extension_of_results v \<longleftrightarrow> v = FD_SBPF_V2"

definition swap_sub_reg_imm_operands :: "u64 \<Rightarrow> bool" where
  [feature_defs]: "swap_sub_reg_imm_operands v \<longleftrightarrow> v = FD_SBPF_V2"

definition disable_neg :: "u64 \<Rightarrow> bool" where
  [feature_defs]: "disable_neg v \<longleftrightarrow> v = FD_SBPF_V2"

definition callx_uses_src_reg :: "u64 \<Rightarrow> bool" where
  [feature_defs]: "callx_uses_src_reg v \<longleftrightarrow> v = FD_SBPF_V2"

definition disable_lddw :: "u64 \<Rightarrow> bool" where
  [feature_defs]: "disable_lddw v \<longleftrightarrow> v = FD_SBPF_V2"

definition disable_le :: "u64 \<Rightarrow> bool" where
  [feature_defs]: "disable_le v \<longleftrightarrow> v = FD_SBPF_V2"

definition move_memory_ix_classes :: "u64 \<Rightarrow> bool" where
  [feature_defs]: "move_memory_ix_classes v \<longleftrightarrow> v = FD_SBPF_V2"

definition static_syscalls :: "u64 \<Rightarrow> bool" where
  [feature_defs]: "static_syscalls v \<longleftrightarrow> FD_SBPF_V3 \<le> v"

definition enable_stricter_elf_headers :: "u64 \<Rightarrow> bool" where
  [feature_defs]: "enable_stricter_elf_headers v \<longleftrightarrow> FD_SBPF_V3 \<le> v"

definition enable_lower_rodata_vaddr :: "u64 \<Rightarrow> bool" where
  [feature_defs]: "enable_lower_rodata_vaddr v \<longleftrightarrow> FD_SBPF_V3 \<le> v"

definition enable_jmp32 :: "u64 \<Rightarrow> bool" where
  [feature_defs]: "enable_jmp32 v \<longleftrightarrow> FD_SBPF_V3 \<le> v"

definition callx_uses_dst_reg :: "u64 \<Rightarrow> bool" where
  [feature_defs]: "callx_uses_dst_reg v \<longleftrightarrow> FD_SBPF_V3 \<le> v"

section \<open>The instruction word\<close>

definition fd_vm_instr :: "u64 \<Rightarrow> u64 \<Rightarrow> u64 \<Rightarrow> u16 \<Rightarrow> u32 \<Rightarrow> u64" where
  "fd_vm_instr opcode dst src offset imm =
     (opcode OR push_bit 8 dst OR push_bit 12 src OR push_bit 16 (ucast offset)
        OR push_bit 32 (ucast imm))"

definition fd_vm_instr_opcode :: "u64 \<Rightarrow> u64" where
  [field_defs]: "fd_vm_instr_opcode instr = instr AND 255"

definition fd_vm_instr_dst :: "u64 \<Rightarrow> u64" where
  [field_defs]: "fd_vm_instr_dst instr = drop_bit 8 instr AND 15"

definition fd_vm_instr_src :: "u64 \<Rightarrow> u64" where
  [field_defs]: "fd_vm_instr_src instr = drop_bit 12 instr AND 15"

definition fd_vm_instr_offset :: "u64 \<Rightarrow> u64" where
  [field_defs]: "fd_vm_instr_offset instr = scast (ucast (drop_bit 16 instr) :: u16)"

definition fd_vm_instr_imm :: "u64 \<Rightarrow> u32" where
  [field_defs]: "fd_vm_instr_imm instr = ucast (drop_bit 32 instr)"

text \<open>
  \<open>fd_sbpf_instr\<close> reinterprets the word as a struct: a byte, two four bit fields, a \<open>short\<close> and an
  \<open>int\<close>, in little endian order.
\<close>

record fd_sbpf_instr_t =
  opcode_raw :: u8
  dst_reg :: u8
  src_reg :: u8
  sbpf_offset :: u16
  sbpf_imm :: u32

definition fd_sbpf_instr :: "u64 \<Rightarrow> fd_sbpf_instr_t" where
  "fd_sbpf_instr u =
     \<lparr> opcode_raw = ucast u,
       dst_reg = take_bit 4 (ucast (drop_bit 8 u)),
       src_reg = drop_bit 4 (ucast (drop_bit 8 u)),
       sbpf_offset = ucast (drop_bit 16 u),
       sbpf_imm = ucast (drop_bit 32 u) \<rparr>"

section \<open>Bounds and agreement of the two readings\<close>

lemma and_mask_unat_less: "unat ((x :: u64) AND mask n) < 2 ^ n"
proof -
  have "unat (x AND mask n) = take_bit n (unat x)"
    by (metis take_bit_eq_mask unsigned_take_bit_eq)
  then show ?thesis by (simp add: take_bit_nat_less_exp)
qed

lemma unat_opcode_lt: "unat (fd_vm_instr_opcode i) < 256"
  using and_mask_unat_less [of i 8] by (simp add: fd_vm_instr_opcode_def mask_eq_exp_minus_1)

lemma unat_dst_lt: "unat (fd_vm_instr_dst i) < 16"
  using and_mask_unat_less [of "drop_bit 8 i" 4]
  by (simp add: fd_vm_instr_dst_def mask_eq_exp_minus_1)

lemma unat_src_lt: "unat (fd_vm_instr_src i) < 16"
  using and_mask_unat_less [of "drop_bit 12 i" 4]
  by (simp add: fd_vm_instr_src_def mask_eq_exp_minus_1)

lemma field_masks: "(255 :: u64) = mask 8" "(15 :: u64) = mask 4"
  by (simp_all add: mask_eq_exp_minus_1)

lemma ucast_opcode_raw: "ucast (opcode_raw (fd_sbpf_instr i)) = fd_vm_instr_opcode i"
  unfolding fd_sbpf_instr_def fd_vm_instr_opcode_def field_masks
  by (intro bit_word_eqI) (auto simp: bit_simps dest: bit_imp_le_length)

lemma ucast_dst_reg: "ucast (dst_reg (fd_sbpf_instr i)) = fd_vm_instr_dst i"
  unfolding fd_sbpf_instr_def fd_vm_instr_dst_def field_masks
  by (intro bit_word_eqI) (auto simp: bit_simps dest: bit_imp_le_length)

lemma ucast_src_reg: "ucast (src_reg (fd_sbpf_instr i)) = fd_vm_instr_src i"
  unfolding fd_sbpf_instr_def fd_vm_instr_src_def field_masks
  by (intro bit_word_eqI) (auto simp: bit_simps dest: bit_imp_le_length)

lemma scast_sbpf_offset: "scast (sbpf_offset (fd_sbpf_instr i)) = fd_vm_instr_offset i"
  by (simp add: fd_sbpf_instr_def fd_vm_instr_offset_def)

lemma sbpf_imm_eq: "sbpf_imm (fd_sbpf_instr i) = fd_vm_instr_imm i"
  by (simp add: fd_sbpf_instr_def fd_vm_instr_imm_def)

lemma unat_ucast8: "unat (ucast (x :: u8) :: u64) = unat x"
  by (simp add: unsigned_ucast_eq take_bit_nat_eq_self_iff less_trans [OF unsigned_less [of x]])

lemma ucast_ucast8: "ucast (ucast (x :: u8) :: u64) = x"
  by (intro bit_word_eqI) (auto simp: bit_simps)

lemma unat_opcode_raw: "unat (opcode_raw (fd_sbpf_instr i)) = unat (fd_vm_instr_opcode i)"
  by (metis ucast_opcode_raw unat_ucast8)

lemma unat_dst_reg: "unat (dst_reg (fd_sbpf_instr i)) = unat (fd_vm_instr_dst i)"
  by (metis ucast_dst_reg unat_ucast8)

lemma unat_src_reg: "unat (src_reg (fd_sbpf_instr i)) = unat (fd_vm_instr_src i)"
  by (metis ucast_src_reg unat_ucast8)

lemma bit_small:
  assumes "unat (x :: u64) < 2 ^ n" "bit x i"
  shows "i < n"
proof (rule ccontr)
  assume "\<not> i < n"
  then have "(2 :: nat) ^ n \<le> 2 ^ i" by simp
  with assms have "unat x < 2 ^ i" by (meson less_le_trans)
  then have "unat x div 2 ^ i = 0" by simp
  moreover have "bit (unat x) i"
    using assms(2) by (simp add: bit_unsigned_iff bit_imp_le_length)
  ultimately show False by (simp add: bit_iff_odd)
qed

text \<open>
  Packing fields into an instruction word and reading them back, through either view of the word,
  returns the fields; the 16 bit offset comes back sign extended.
\<close>
theorem instr_roundtrip:
  assumes "unat opc < 256" "unat dst < 16" "unat src < 16"
  shows "let w = fd_vm_instr opc dst src off imm in
      fd_vm_instr_opcode w = opc \<and> fd_vm_instr_dst w = dst \<and> fd_vm_instr_src w = src \<and>
      fd_vm_instr_offset w = scast off \<and> fd_vm_instr_imm w = imm \<and>
      fd_sbpf_instr w =
        \<lparr> opcode_raw = ucast opc, dst_reg = ucast dst, src_reg = ucast src, sbpf_offset = off,
          sbpf_imm = imm \<rparr>"
proof -
  have b [dest]: "\<And>i. bit opc i \<Longrightarrow> i < 8" "\<And>i. bit dst i \<Longrightarrow> i < 4" "\<And>i. bit src i \<Longrightarrow> i < 4"
    using assms bit_small [of opc 8] bit_small [of dst 4] bit_small [of src 4] by auto
  let ?w = "fd_vm_instr opc dst src off imm"
  have opc: "fd_vm_instr_opcode ?w = opc"
    unfolding fd_vm_instr_opcode_def fd_vm_instr_def field_masks
    by (intro bit_word_eqI) (auto simp: bit_simps)
  have dst: "fd_vm_instr_dst ?w = dst"
    unfolding fd_vm_instr_dst_def fd_vm_instr_def field_masks
    by (intro bit_word_eqI) (auto simp: bit_simps)
  have src: "fd_vm_instr_src ?w = src"
    unfolding fd_vm_instr_src_def fd_vm_instr_def field_masks
    by (intro bit_word_eqI) (auto simp: bit_simps)
  have off: "ucast (drop_bit 16 ?w) = off"
    unfolding fd_vm_instr_def
    by (intro bit_word_eqI) (auto simp: bit_simps dest: bit_imp_le_length)
  have imm: "ucast (drop_bit 32 ?w) = imm"
    unfolding fd_vm_instr_def
    by (intro bit_word_eqI) (auto simp: bit_simps dest: bit_imp_le_length)
  have fields: "opcode_raw (fd_sbpf_instr ?w) = ucast opc" "dst_reg (fd_sbpf_instr ?w) = ucast dst"
      "src_reg (fd_sbpf_instr ?w) = ucast src"
    using opc dst src ucast_opcode_raw [of ?w] ucast_dst_reg [of ?w] ucast_src_reg [of ?w]
    by (metis ucast_ucast8)+
  show ?thesis
    using opc dst src off imm fields
    by (simp add: fd_vm_instr_offset_def fd_vm_instr_imm_def fd_sbpf_instr_def)
qed

theorem instr_roundtrip_witness:
  "fd_vm_instr_offset (fd_vm_instr 0x55 1 0 0xfffd 0) = - 3
   \<and> fd_vm_instr_dst (fd_vm_instr 0x55 1 0 0xfffd 0) = 1"
  using instr_roundtrip[of "0x55" 1 0 "0xfffd" 0] by (simp add: Let_def)

end
