(* ===== verification/Vm_Ops.thy ===== *)
theory Vm_Ops
  imports Vm_Instr
begin

text \<open>
  The bodies of the sBPF instruction handlers of \<^verbatim>\<open>flamenco/vm/fd_vm_interp_core.c\<close> that work on
  registers only, one definition per label \<^verbatim>\<open>interp_*\<close>.  A handler reads \<open>reg[dst]\<close>, \<open>reg[src]\<close> and
  the immediate; the arithmetic ones give the value stored to \<open>reg[dst]\<close> or the signal they branch to,
  the conditional jumps give whether \<open>offset\<close> is added to the program counter.  \<open>Op_host\<close> marks a C
  division whose divisor is zero or whose quotient does not fit: C leaves it undefined and the machine
  traps, so it is an outcome of its own and never a value.
\<close>

section \<open>C casts and divisions\<close>

datatype op_result = Op_val u64 | Op_sigfpe | Op_sigfpeof | Op_siginv | Op_host

text \<open>\<open>(uint)x\<close>, \<open>(int)x\<close> of a \<open>ulong\<close>, and \<open>(ulong)(long)(int)imm\<close>.\<close>

abbreviation uint_of :: "u64 \<Rightarrow> u32" where
  "uint_of x \<equiv> ucast x"

abbreviation sx :: "u32 \<Rightarrow> u64" where
  "sx x \<equiv> scast x"

definition int_min :: u32 where
  "int_min = 0x80000000"

definition c_udiv :: "'a::len word \<Rightarrow> 'a word \<Rightarrow> 'a word option" where
  "c_udiv x y = (if y = 0 then None else Some (x div y))"

definition c_umod :: "'a::len word \<Rightarrow> 'a word \<Rightarrow> 'a word option" where
  "c_umod x y = (if y = 0 then None else Some (x mod y))"

definition sdiv_undefined :: "'a::len word \<Rightarrow> 'a word \<Rightarrow> bool" where
  "sdiv_undefined x y \<longleftrightarrow> y = 0 \<or> sint x = - (2 ^ (LENGTH('a) - 1)) \<and> y = - 1"

definition c_sdiv :: "'a::len word \<Rightarrow> 'a word \<Rightarrow> 'a word option" where
  "c_sdiv x y = (if sdiv_undefined x y then None else Some (word_of_int (sint x sdiv sint y)))"

definition c_smod :: "'a::len word \<Rightarrow> 'a word \<Rightarrow> 'a word option" where
  "c_smod x y = (if sdiv_undefined x y then None else Some (word_of_int (sint x smod sint y)))"

fun op_host :: "u64 option \<Rightarrow> op_result" where
  "op_host None = Op_host"
| "op_host (Some v) = Op_val v"

text \<open>\<open>(ulong)(((uint128)x * (uint128)y) >> 64)\<close>, and the same on \<open>int128\<close>.\<close>

definition uhmul :: "u64 \<Rightarrow> u64 \<Rightarrow> u64" where
  "uhmul x y = ucast (drop_bit 64 ((ucast x :: u128) * ucast y))"

definition shmul :: "u64 \<Rightarrow> u64 \<Rightarrow> u64" where
  "shmul x y = ucast (signed_drop_bit 64 ((scast x :: u128) * scast y))"

text \<open>\<open>fd_ushort_bswap\<close>, \<open>fd_uint_bswap\<close>, \<open>fd_ulong_bswap\<close>: the byte count is the width's.\<close>

definition bswap :: "nat \<Rightarrow> 'a::len word \<Rightarrow> 'a word" where
  "bswap n x = le_load (rev (le_bytes n x))"

section \<open>Arithmetic handlers\<close>

definition interp_0x04 :: "u64 \<Rightarrow> u64 \<Rightarrow> u32 \<Rightarrow> op_result" where
  [op_defs]: "interp_0x04 d s imm =
     (Op_val (ucast (uint_of d + imm)))"

definition interp_0x04depr :: "u64 \<Rightarrow> u64 \<Rightarrow> u32 \<Rightarrow> op_result" where
  [op_defs]: "interp_0x04depr d s imm =
     (Op_val (scast (uint_of d + imm)))"

definition interp_0x07 :: "u64 \<Rightarrow> u64 \<Rightarrow> u32 \<Rightarrow> op_result" where
  [op_defs]: "interp_0x07 d s imm =
     (Op_val (d + sx imm))"

definition interp_0x0c :: "u64 \<Rightarrow> u64 \<Rightarrow> u32 \<Rightarrow> op_result" where
  [op_defs]: "interp_0x0c d s imm =
     (Op_val (ucast (uint_of d + uint_of s)))"

definition interp_0x0cdepr :: "u64 \<Rightarrow> u64 \<Rightarrow> u32 \<Rightarrow> op_result" where
  [op_defs]: "interp_0x0cdepr d s imm =
     (Op_val (scast (uint_of d + uint_of s)))"

definition interp_0x0f :: "u64 \<Rightarrow> u64 \<Rightarrow> u32 \<Rightarrow> op_result" where
  [op_defs]: "interp_0x0f d s imm =
     (Op_val (d + s))"

definition interp_0x14 :: "u64 \<Rightarrow> u64 \<Rightarrow> u32 \<Rightarrow> op_result" where
  [op_defs]: "interp_0x14 d s imm =
     (Op_val (ucast (imm - uint_of d)))"

definition interp_0x14depr :: "u64 \<Rightarrow> u64 \<Rightarrow> u32 \<Rightarrow> op_result" where
  [op_defs]: "interp_0x14depr d s imm =
     (Op_val (scast (uint_of d - imm)))"

definition interp_0x17 :: "u64 \<Rightarrow> u64 \<Rightarrow> u32 \<Rightarrow> op_result" where
  [op_defs]: "interp_0x17 d s imm =
     (Op_val (sx imm - d))"

definition interp_0x17depr :: "u64 \<Rightarrow> u64 \<Rightarrow> u32 \<Rightarrow> op_result" where
  [op_defs]: "interp_0x17depr d s imm =
     (Op_val (d - sx imm))"

definition interp_0x1c :: "u64 \<Rightarrow> u64 \<Rightarrow> u32 \<Rightarrow> op_result" where
  [op_defs]: "interp_0x1c d s imm =
     (Op_val (ucast (uint_of d - uint_of s)))"

definition interp_0x1cdepr :: "u64 \<Rightarrow> u64 \<Rightarrow> u32 \<Rightarrow> op_result" where
  [op_defs]: "interp_0x1cdepr d s imm =
     (Op_val (scast (uint_of d - uint_of s)))"

definition interp_0x1f :: "u64 \<Rightarrow> u64 \<Rightarrow> u32 \<Rightarrow> op_result" where
  [op_defs]: "interp_0x1f d s imm =
     (Op_val (d - s))"

definition interp_0x24 :: "u64 \<Rightarrow> u64 \<Rightarrow> u32 \<Rightarrow> op_result" where
  [op_defs]: "interp_0x24 d s imm =
     (Op_val (scast (uint_of d * imm)))"

definition interp_0x27depr :: "u64 \<Rightarrow> u64 \<Rightarrow> u32 \<Rightarrow> op_result" where
  [op_defs]: "interp_0x27depr d s imm =
     (Op_val (d * sx imm))"

definition interp_0x2cdepr :: "u64 \<Rightarrow> u64 \<Rightarrow> u32 \<Rightarrow> op_result" where
  [op_defs]: "interp_0x2cdepr d s imm =
     (Op_val (scast (uint_of d * uint_of s)))"

definition interp_0x2fdepr :: "u64 \<Rightarrow> u64 \<Rightarrow> u32 \<Rightarrow> op_result" where
  [op_defs]: "interp_0x2fdepr d s imm =
     (Op_val (d * s))"

definition interp_0x34 :: "u64 \<Rightarrow> u64 \<Rightarrow> u32 \<Rightarrow> op_result" where
  [op_defs]: "interp_0x34 d s imm =
     (op_host (map_option ucast (c_udiv (uint_of d) imm)))"

definition interp_0x36 :: "u64 \<Rightarrow> u64 \<Rightarrow> u32 \<Rightarrow> op_result" where
  [op_defs]: "interp_0x36 d s imm =
     (Op_val (uhmul d (ucast imm)))"

definition interp_0x3e :: "u64 \<Rightarrow> u64 \<Rightarrow> u32 \<Rightarrow> op_result" where
  [op_defs]: "interp_0x3e d s imm =
     (Op_val (uhmul d s))"

definition interp_0x37depr :: "u64 \<Rightarrow> u64 \<Rightarrow> u32 \<Rightarrow> op_result" where
  [op_defs]: "interp_0x37depr d s imm =
     (op_host (c_udiv d (sx imm)))"

definition interp_0x3cdepr :: "u64 \<Rightarrow> u64 \<Rightarrow> u32 \<Rightarrow> op_result" where
  [op_defs]: "interp_0x3cdepr d s imm =
     (if uint_of s = 0 then Op_sigfpe else op_host (map_option ucast (c_udiv (uint_of d) (uint_of s))))"

definition interp_0x3fdepr :: "u64 \<Rightarrow> u64 \<Rightarrow> u32 \<Rightarrow> op_result" where
  [op_defs]: "interp_0x3fdepr d s imm =
     (if s = 0 then Op_sigfpe else op_host (c_udiv d s))"

definition interp_0x44 :: "u64 \<Rightarrow> u64 \<Rightarrow> u32 \<Rightarrow> op_result" where
  [op_defs]: "interp_0x44 d s imm =
     (Op_val (ucast (uint_of d OR imm)))"

definition interp_0x46 :: "u64 \<Rightarrow> u64 \<Rightarrow> u32 \<Rightarrow> op_result" where
  [op_defs]: "interp_0x46 d s imm =
     (op_host (map_option ucast (c_udiv (uint_of d) imm)))"

definition interp_0x47 :: "u64 \<Rightarrow> u64 \<Rightarrow> u32 \<Rightarrow> op_result" where
  [op_defs]: "interp_0x47 d s imm =
     (Op_val (d OR sx imm))"

definition interp_0x4c :: "u64 \<Rightarrow> u64 \<Rightarrow> u32 \<Rightarrow> op_result" where
  [op_defs]: "interp_0x4c d s imm =
     (Op_val (ucast (uint_of (d OR s))))"

definition interp_0x4e :: "u64 \<Rightarrow> u64 \<Rightarrow> u32 \<Rightarrow> op_result" where
  [op_defs]: "interp_0x4e d s imm =
     (if uint_of s = 0 then Op_sigfpe else op_host (map_option ucast (c_udiv (uint_of d) (uint_of s))))"

definition interp_0x4f :: "u64 \<Rightarrow> u64 \<Rightarrow> u32 \<Rightarrow> op_result" where
  [op_defs]: "interp_0x4f d s imm =
     (Op_val (d OR s))"

definition interp_0x54 :: "u64 \<Rightarrow> u64 \<Rightarrow> u32 \<Rightarrow> op_result" where
  [op_defs]: "interp_0x54 d s imm =
     (Op_val (ucast (uint_of d AND imm)))"

definition interp_0x56 :: "u64 \<Rightarrow> u64 \<Rightarrow> u32 \<Rightarrow> op_result" where
  [op_defs]: "interp_0x56 d s imm =
     (op_host (c_udiv d (ucast imm)))"

definition interp_0x57 :: "u64 \<Rightarrow> u64 \<Rightarrow> u32 \<Rightarrow> op_result" where
  [op_defs]: "interp_0x57 d s imm =
     (Op_val (d AND sx imm))"

definition interp_0x5c :: "u64 \<Rightarrow> u64 \<Rightarrow> u32 \<Rightarrow> op_result" where
  [op_defs]: "interp_0x5c d s imm =
     (Op_val (ucast (uint_of (d AND s))))"

definition interp_0x5e :: "u64 \<Rightarrow> u64 \<Rightarrow> u32 \<Rightarrow> op_result" where
  [op_defs]: "interp_0x5e d s imm =
     (if s = 0 then Op_sigfpe else op_host (c_udiv d s))"

definition interp_0x5f :: "u64 \<Rightarrow> u64 \<Rightarrow> u32 \<Rightarrow> op_result" where
  [op_defs]: "interp_0x5f d s imm =
     (Op_val (d AND s))"

definition interp_0x64 :: "u64 \<Rightarrow> u64 \<Rightarrow> u32 \<Rightarrow> op_result" where
  [op_defs]: "interp_0x64 d s imm =
     (Op_val (ucast (push_bit (unat (imm AND 31)) (uint_of d))))"

definition interp_0x66 :: "u64 \<Rightarrow> u64 \<Rightarrow> u32 \<Rightarrow> op_result" where
  [op_defs]: "interp_0x66 d s imm =
     (op_host (map_option ucast (c_umod (uint_of d) imm)))"

definition interp_0x67 :: "u64 \<Rightarrow> u64 \<Rightarrow> u32 \<Rightarrow> op_result" where
  [op_defs]: "interp_0x67 d s imm =
     (Op_val (push_bit (unat (imm AND 63)) d))"

definition interp_0x6c :: "u64 \<Rightarrow> u64 \<Rightarrow> u32 \<Rightarrow> op_result" where
  [op_defs]: "interp_0x6c d s imm =
     (Op_val (ucast (push_bit (unat (s AND 31)) (uint_of d))))"

definition interp_0x6e :: "u64 \<Rightarrow> u64 \<Rightarrow> u32 \<Rightarrow> op_result" where
  [op_defs]: "interp_0x6e d s imm =
     (if uint_of s = 0 then Op_sigfpe else op_host (map_option ucast (c_umod (uint_of d) (uint_of s))))"

definition interp_0x6f :: "u64 \<Rightarrow> u64 \<Rightarrow> u32 \<Rightarrow> op_result" where
  [op_defs]: "interp_0x6f d s imm =
     (Op_val (push_bit (unat (s AND 63)) d))"

definition interp_0x74 :: "u64 \<Rightarrow> u64 \<Rightarrow> u32 \<Rightarrow> op_result" where
  [op_defs]: "interp_0x74 d s imm =
     (Op_val (ucast (drop_bit (unat (imm AND 31)) (uint_of d))))"

definition interp_0x76 :: "u64 \<Rightarrow> u64 \<Rightarrow> u32 \<Rightarrow> op_result" where
  [op_defs]: "interp_0x76 d s imm =
     (op_host (c_umod d (ucast imm)))"

definition interp_0x77 :: "u64 \<Rightarrow> u64 \<Rightarrow> u32 \<Rightarrow> op_result" where
  [op_defs]: "interp_0x77 d s imm =
     (Op_val (drop_bit (unat (imm AND 63)) d))"

definition interp_0x7c :: "u64 \<Rightarrow> u64 \<Rightarrow> u32 \<Rightarrow> op_result" where
  [op_defs]: "interp_0x7c d s imm =
     (Op_val (ucast (drop_bit (unat (uint_of s AND 31)) (uint_of d))))"

definition interp_0x7e :: "u64 \<Rightarrow> u64 \<Rightarrow> u32 \<Rightarrow> op_result" where
  [op_defs]: "interp_0x7e d s imm =
     (if s = 0 then Op_sigfpe else op_host (c_umod d s))"

definition interp_0x7f :: "u64 \<Rightarrow> u64 \<Rightarrow> u32 \<Rightarrow> op_result" where
  [op_defs]: "interp_0x7f d s imm =
     (Op_val (drop_bit (unat (s AND 63)) d))"

definition interp_0x84 :: "u64 \<Rightarrow> u64 \<Rightarrow> u32 \<Rightarrow> op_result" where
  [op_defs]: "interp_0x84 d s imm =
     (Op_val (ucast (- uint_of d)))"

definition interp_0x86 :: "u64 \<Rightarrow> u64 \<Rightarrow> u32 \<Rightarrow> op_result" where
  [op_defs]: "interp_0x86 d s imm =
     (Op_val (ucast (uint_of d * imm)))"

definition interp_0x87depr :: "u64 \<Rightarrow> u64 \<Rightarrow> u32 \<Rightarrow> op_result" where
  [op_defs]: "interp_0x87depr d s imm =
     (Op_val (- d))"

definition interp_0x8e :: "u64 \<Rightarrow> u64 \<Rightarrow> u32 \<Rightarrow> op_result" where
  [op_defs]: "interp_0x8e d s imm =
     (Op_val (ucast (uint_of d * uint_of s)))"

definition interp_0x94 :: "u64 \<Rightarrow> u64 \<Rightarrow> u32 \<Rightarrow> op_result" where
  [op_defs]: "interp_0x94 d s imm =
     (op_host (map_option ucast (c_umod (uint_of d) imm)))"

definition interp_0x96 :: "u64 \<Rightarrow> u64 \<Rightarrow> u32 \<Rightarrow> op_result" where
  [op_defs]: "interp_0x96 d s imm =
     (Op_val (d * sx imm))"

definition interp_0x9e :: "u64 \<Rightarrow> u64 \<Rightarrow> u32 \<Rightarrow> op_result" where
  [op_defs]: "interp_0x9e d s imm =
     (Op_val (d * s))"

definition interp_0x97depr :: "u64 \<Rightarrow> u64 \<Rightarrow> u32 \<Rightarrow> op_result" where
  [op_defs]: "interp_0x97depr d s imm =
     (op_host (c_umod d (sx imm)))"

definition interp_0x9cdepr :: "u64 \<Rightarrow> u64 \<Rightarrow> u32 \<Rightarrow> op_result" where
  [op_defs]: "interp_0x9cdepr d s imm =
     (if uint_of s = 0 then Op_sigfpe else op_host (map_option ucast (c_umod (uint_of d) (uint_of s))))"

definition interp_0x9fdepr :: "u64 \<Rightarrow> u64 \<Rightarrow> u32 \<Rightarrow> op_result" where
  [op_defs]: "interp_0x9fdepr d s imm =
     (if s = 0 then Op_sigfpe else op_host (c_umod d s))"

definition interp_0xa4 :: "u64 \<Rightarrow> u64 \<Rightarrow> u32 \<Rightarrow> op_result" where
  [op_defs]: "interp_0xa4 d s imm =
     (Op_val (ucast (uint_of d XOR imm)))"

definition interp_0xa7 :: "u64 \<Rightarrow> u64 \<Rightarrow> u32 \<Rightarrow> op_result" where
  [op_defs]: "interp_0xa7 d s imm =
     (Op_val (d XOR sx imm))"

definition interp_0xac :: "u64 \<Rightarrow> u64 \<Rightarrow> u32 \<Rightarrow> op_result" where
  [op_defs]: "interp_0xac d s imm =
     (Op_val (ucast (uint_of (d XOR s))))"

definition interp_0xaf :: "u64 \<Rightarrow> u64 \<Rightarrow> u32 \<Rightarrow> op_result" where
  [op_defs]: "interp_0xaf d s imm =
     (Op_val (d XOR s))"

definition interp_0xb4 :: "u64 \<Rightarrow> u64 \<Rightarrow> u32 \<Rightarrow> op_result" where
  [op_defs]: "interp_0xb4 d s imm =
     (Op_val (ucast (imm)))"

definition interp_0xb6 :: "u64 \<Rightarrow> u64 \<Rightarrow> u32 \<Rightarrow> op_result" where
  [op_defs]: "interp_0xb6 d s imm =
     (Op_val (shmul d (sx imm)))"

definition interp_0xb7 :: "u64 \<Rightarrow> u64 \<Rightarrow> u32 \<Rightarrow> op_result" where
  [op_defs]: "interp_0xb7 d s imm =
     (Op_val (sx imm))"

definition interp_0xbc :: "u64 \<Rightarrow> u64 \<Rightarrow> u32 \<Rightarrow> op_result" where
  [op_defs]: "interp_0xbc d s imm =
     (Op_val (scast (uint_of s)))"

definition interp_0xbcdepr :: "u64 \<Rightarrow> u64 \<Rightarrow> u32 \<Rightarrow> op_result" where
  [op_defs]: "interp_0xbcdepr d s imm =
     (Op_val (ucast (uint_of s)))"

definition interp_0xbe :: "u64 \<Rightarrow> u64 \<Rightarrow> u32 \<Rightarrow> op_result" where
  [op_defs]: "interp_0xbe d s imm =
     (Op_val (shmul d s))"

definition interp_0xbf :: "u64 \<Rightarrow> u64 \<Rightarrow> u32 \<Rightarrow> op_result" where
  [op_defs]: "interp_0xbf d s imm =
     (Op_val (s))"

definition interp_0xc4 :: "u64 \<Rightarrow> u64 \<Rightarrow> u32 \<Rightarrow> op_result" where
  [op_defs]: "interp_0xc4 d s imm =
     (Op_val (ucast (signed_drop_bit (unat (imm AND 31)) (uint_of d))))"

definition interp_0xc6 :: "u64 \<Rightarrow> u64 \<Rightarrow> u32 \<Rightarrow> op_result" where
  [op_defs]: "interp_0xc6 d s imm =
     (if uint_of d = int_min \<and> imm = - 1 then Op_sigfpeof else op_host (map_option ucast (c_sdiv (uint_of d) imm)))"

definition interp_0xc7 :: "u64 \<Rightarrow> u64 \<Rightarrow> u32 \<Rightarrow> op_result" where
  [op_defs]: "interp_0xc7 d s imm =
     (Op_val (signed_drop_bit (unat (imm AND 63)) d))"

definition interp_0xcc :: "u64 \<Rightarrow> u64 \<Rightarrow> u32 \<Rightarrow> op_result" where
  [op_defs]: "interp_0xcc d s imm =
     (Op_val (ucast (signed_drop_bit (unat (uint_of s AND 31)) (uint_of d))))"

definition interp_0xce :: "u64 \<Rightarrow> u64 \<Rightarrow> u32 \<Rightarrow> op_result" where
  [op_defs]: "interp_0xce d s imm =
     (if uint_of s = 0 then Op_sigfpe
      else if uint_of d = int_min \<and> uint_of s = - 1 then Op_sigfpeof
      else op_host (map_option ucast (c_sdiv (uint_of d) (uint_of s))))"

definition interp_0xcf :: "u64 \<Rightarrow> u64 \<Rightarrow> u32 \<Rightarrow> op_result" where
  [op_defs]: "interp_0xcf d s imm =
     (Op_val (signed_drop_bit (unat (s AND 63)) d))"

definition interp_0xd4 :: "u64 \<Rightarrow> u64 \<Rightarrow> u32 \<Rightarrow> op_result" where
  [op_defs]: "interp_0xd4 d s imm =
     (if imm = 16 then Op_val (ucast (ucast d :: u16))
      else if imm = 32 then Op_val (ucast (uint_of d))
      else if imm = 64 then Op_val d
      else Op_siginv)"

definition interp_0xd6 :: "u64 \<Rightarrow> u64 \<Rightarrow> u32 \<Rightarrow> op_result" where
  [op_defs]: "interp_0xd6 d s imm =
     (if d = long_min \<and> (sx imm :: u64) = - 1 then Op_sigfpeof else op_host (c_sdiv d (sx imm)))"

definition interp_0xdc :: "u64 \<Rightarrow> u64 \<Rightarrow> u32 \<Rightarrow> op_result" where
  [op_defs]: "interp_0xdc d s imm =
     (if imm = 16 then Op_val (ucast (bswap 2 (ucast d :: u16)))
      else if imm = 32 then Op_val (ucast (bswap 4 (uint_of d)))
      else if imm = 64 then Op_val (bswap 8 d)
      else Op_siginv)"

definition interp_0xde :: "u64 \<Rightarrow> u64 \<Rightarrow> u32 \<Rightarrow> op_result" where
  [op_defs]: "interp_0xde d s imm =
     (if s = 0 then Op_sigfpe
      else if d = long_min \<and> s = - 1 then Op_sigfpeof
      else op_host (c_sdiv d s))"

definition interp_0xe6 :: "u64 \<Rightarrow> u64 \<Rightarrow> u32 \<Rightarrow> op_result" where
  [op_defs]: "interp_0xe6 d s imm =
     (if uint_of d = int_min \<and> imm = - 1 then Op_sigfpeof else op_host (map_option ucast (c_smod (uint_of d) imm)))"

definition interp_0xee :: "u64 \<Rightarrow> u64 \<Rightarrow> u32 \<Rightarrow> op_result" where
  [op_defs]: "interp_0xee d s imm =
     (if uint_of s = 0 then Op_sigfpe
      else if uint_of d = int_min \<and> uint_of s = - 1 then Op_sigfpeof
      else op_host (map_option ucast (c_smod (uint_of d) (uint_of s))))"

definition interp_0xf6 :: "u64 \<Rightarrow> u64 \<Rightarrow> u32 \<Rightarrow> op_result" where
  [op_defs]: "interp_0xf6 d s imm =
     (if d = long_min \<and> (sx imm :: u64) = - 1 then Op_sigfpeof else op_host (c_smod d (sx imm)))"

definition interp_0xf7 :: "u64 \<Rightarrow> u64 \<Rightarrow> u32 \<Rightarrow> op_result" where
  [op_defs]: "interp_0xf7 d s imm =
     (Op_val (d OR push_bit 32 (ucast imm)))"

definition interp_0xfe :: "u64 \<Rightarrow> u64 \<Rightarrow> u32 \<Rightarrow> op_result" where
  [op_defs]: "interp_0xfe d s imm =
     (if s = 0 then Op_sigfpe
      else if d = long_min \<and> s = - 1 then Op_sigfpeof
      else op_host (c_smod d s))"

section \<open>Conditional jumps\<close>

definition interp_0x05 :: "u64 \<Rightarrow> u64 \<Rightarrow> u32 \<Rightarrow> bool" where
  [op_defs]: "interp_0x05 d s imm \<longleftrightarrow> True"

definition interp_0x15 :: "u64 \<Rightarrow> u64 \<Rightarrow> u32 \<Rightarrow> bool" where
  [op_defs]: "interp_0x15 d s imm \<longleftrightarrow> d = sx imm"

definition interp_0x1d :: "u64 \<Rightarrow> u64 \<Rightarrow> u32 \<Rightarrow> bool" where
  [op_defs]: "interp_0x1d d s imm \<longleftrightarrow> d = s"

definition interp_0x25 :: "u64 \<Rightarrow> u64 \<Rightarrow> u32 \<Rightarrow> bool" where
  [op_defs]: "interp_0x25 d s imm \<longleftrightarrow> sx imm < d"

definition interp_0x2d :: "u64 \<Rightarrow> u64 \<Rightarrow> u32 \<Rightarrow> bool" where
  [op_defs]: "interp_0x2d d s imm \<longleftrightarrow> s < d"

definition interp_0x35 :: "u64 \<Rightarrow> u64 \<Rightarrow> u32 \<Rightarrow> bool" where
  [op_defs]: "interp_0x35 d s imm \<longleftrightarrow> sx imm \<le> d"

definition interp_0x3d :: "u64 \<Rightarrow> u64 \<Rightarrow> u32 \<Rightarrow> bool" where
  [op_defs]: "interp_0x3d d s imm \<longleftrightarrow> s \<le> d"

definition interp_0x45 :: "u64 \<Rightarrow> u64 \<Rightarrow> u32 \<Rightarrow> bool" where
  [op_defs]: "interp_0x45 d s imm \<longleftrightarrow> d AND sx imm \<noteq> 0"

definition interp_0x4d :: "u64 \<Rightarrow> u64 \<Rightarrow> u32 \<Rightarrow> bool" where
  [op_defs]: "interp_0x4d d s imm \<longleftrightarrow> d AND s \<noteq> 0"

definition interp_0x55 :: "u64 \<Rightarrow> u64 \<Rightarrow> u32 \<Rightarrow> bool" where
  [op_defs]: "interp_0x55 d s imm \<longleftrightarrow> d \<noteq> sx imm"

definition interp_0x5d :: "u64 \<Rightarrow> u64 \<Rightarrow> u32 \<Rightarrow> bool" where
  [op_defs]: "interp_0x5d d s imm \<longleftrightarrow> d \<noteq> s"

definition interp_0x65 :: "u64 \<Rightarrow> u64 \<Rightarrow> u32 \<Rightarrow> bool" where
  [op_defs]: "interp_0x65 d s imm \<longleftrightarrow> sint imm < sint d"

definition interp_0x6d :: "u64 \<Rightarrow> u64 \<Rightarrow> u32 \<Rightarrow> bool" where
  [op_defs]: "interp_0x6d d s imm \<longleftrightarrow> sint s < sint d"

definition interp_0x75 :: "u64 \<Rightarrow> u64 \<Rightarrow> u32 \<Rightarrow> bool" where
  [op_defs]: "interp_0x75 d s imm \<longleftrightarrow> sint imm \<le> sint d"

definition interp_0x7d :: "u64 \<Rightarrow> u64 \<Rightarrow> u32 \<Rightarrow> bool" where
  [op_defs]: "interp_0x7d d s imm \<longleftrightarrow> sint s \<le> sint d"

definition interp_0xa5 :: "u64 \<Rightarrow> u64 \<Rightarrow> u32 \<Rightarrow> bool" where
  [op_defs]: "interp_0xa5 d s imm \<longleftrightarrow> d < sx imm"

definition interp_0xad :: "u64 \<Rightarrow> u64 \<Rightarrow> u32 \<Rightarrow> bool" where
  [op_defs]: "interp_0xad d s imm \<longleftrightarrow> d < s"

definition interp_0xb5 :: "u64 \<Rightarrow> u64 \<Rightarrow> u32 \<Rightarrow> bool" where
  [op_defs]: "interp_0xb5 d s imm \<longleftrightarrow> d \<le> sx imm"

definition interp_0xbd :: "u64 \<Rightarrow> u64 \<Rightarrow> u32 \<Rightarrow> bool" where
  [op_defs]: "interp_0xbd d s imm \<longleftrightarrow> d \<le> s"

definition interp_0xc5 :: "u64 \<Rightarrow> u64 \<Rightarrow> u32 \<Rightarrow> bool" where
  [op_defs]: "interp_0xc5 d s imm \<longleftrightarrow> sint d < sint imm"

definition interp_0xcd :: "u64 \<Rightarrow> u64 \<Rightarrow> u32 \<Rightarrow> bool" where
  [op_defs]: "interp_0xcd d s imm \<longleftrightarrow> sint d < sint s"

definition interp_0xd5 :: "u64 \<Rightarrow> u64 \<Rightarrow> u32 \<Rightarrow> bool" where
  [op_defs]: "interp_0xd5 d s imm \<longleftrightarrow> sint d \<le> sint imm"

definition interp_0xdd :: "u64 \<Rightarrow> u64 \<Rightarrow> u32 \<Rightarrow> bool" where
  [op_defs]: "interp_0xdd d s imm \<longleftrightarrow> sint d \<le> sint s"

definition interp_0x16_jmp32 :: "u64 \<Rightarrow> u64 \<Rightarrow> u32 \<Rightarrow> bool" where
  [op_defs]: "interp_0x16_jmp32 d s imm \<longleftrightarrow> uint_of d = imm"

definition interp_0x1e_jmp32 :: "u64 \<Rightarrow> u64 \<Rightarrow> u32 \<Rightarrow> bool" where
  [op_defs]: "interp_0x1e_jmp32 d s imm \<longleftrightarrow> uint_of d = uint_of s"

definition interp_0x56_jmp32 :: "u64 \<Rightarrow> u64 \<Rightarrow> u32 \<Rightarrow> bool" where
  [op_defs]: "interp_0x56_jmp32 d s imm \<longleftrightarrow> uint_of d \<noteq> imm"

definition interp_0x5e_jmp32 :: "u64 \<Rightarrow> u64 \<Rightarrow> u32 \<Rightarrow> bool" where
  [op_defs]: "interp_0x5e_jmp32 d s imm \<longleftrightarrow> uint_of d \<noteq> uint_of s"

definition interp_0x26_jmp32 :: "u64 \<Rightarrow> u64 \<Rightarrow> u32 \<Rightarrow> bool" where
  [op_defs]: "interp_0x26_jmp32 d s imm \<longleftrightarrow> imm < uint_of d"

definition interp_0x2e_jmp32 :: "u64 \<Rightarrow> u64 \<Rightarrow> u32 \<Rightarrow> bool" where
  [op_defs]: "interp_0x2e_jmp32 d s imm \<longleftrightarrow> uint_of s < uint_of d"

definition interp_0x36_jmp32 :: "u64 \<Rightarrow> u64 \<Rightarrow> u32 \<Rightarrow> bool" where
  [op_defs]: "interp_0x36_jmp32 d s imm \<longleftrightarrow> imm \<le> uint_of d"

definition interp_0x3e_jmp32 :: "u64 \<Rightarrow> u64 \<Rightarrow> u32 \<Rightarrow> bool" where
  [op_defs]: "interp_0x3e_jmp32 d s imm \<longleftrightarrow> uint_of s \<le> uint_of d"

definition interp_0x46_jmp32 :: "u64 \<Rightarrow> u64 \<Rightarrow> u32 \<Rightarrow> bool" where
  [op_defs]: "interp_0x46_jmp32 d s imm \<longleftrightarrow> uint_of d AND imm \<noteq> 0"

definition interp_0x4e_jmp32 :: "u64 \<Rightarrow> u64 \<Rightarrow> u32 \<Rightarrow> bool" where
  [op_defs]: "interp_0x4e_jmp32 d s imm \<longleftrightarrow> uint_of d AND uint_of s \<noteq> 0"

definition interp_0x66_jmp32 :: "u64 \<Rightarrow> u64 \<Rightarrow> u32 \<Rightarrow> bool" where
  [op_defs]: "interp_0x66_jmp32 d s imm \<longleftrightarrow> sint imm < sint (uint_of d)"

definition interp_0x6e_jmp32 :: "u64 \<Rightarrow> u64 \<Rightarrow> u32 \<Rightarrow> bool" where
  [op_defs]: "interp_0x6e_jmp32 d s imm \<longleftrightarrow> sint (uint_of s) < sint (uint_of d)"

definition interp_0x76_jmp32 :: "u64 \<Rightarrow> u64 \<Rightarrow> u32 \<Rightarrow> bool" where
  [op_defs]: "interp_0x76_jmp32 d s imm \<longleftrightarrow> sint imm \<le> sint (uint_of d)"

definition interp_0x7e_jmp32 :: "u64 \<Rightarrow> u64 \<Rightarrow> u32 \<Rightarrow> bool" where
  [op_defs]: "interp_0x7e_jmp32 d s imm \<longleftrightarrow> sint (uint_of s) \<le> sint (uint_of d)"

definition interp_0xa6_jmp32 :: "u64 \<Rightarrow> u64 \<Rightarrow> u32 \<Rightarrow> bool" where
  [op_defs]: "interp_0xa6_jmp32 d s imm \<longleftrightarrow> uint_of d < imm"

definition interp_0xae_jmp32 :: "u64 \<Rightarrow> u64 \<Rightarrow> u32 \<Rightarrow> bool" where
  [op_defs]: "interp_0xae_jmp32 d s imm \<longleftrightarrow> uint_of d < uint_of s"

definition interp_0xb6_jmp32 :: "u64 \<Rightarrow> u64 \<Rightarrow> u32 \<Rightarrow> bool" where
  [op_defs]: "interp_0xb6_jmp32 d s imm \<longleftrightarrow> uint_of d \<le> imm"

definition interp_0xbe_jmp32 :: "u64 \<Rightarrow> u64 \<Rightarrow> u32 \<Rightarrow> bool" where
  [op_defs]: "interp_0xbe_jmp32 d s imm \<longleftrightarrow> uint_of d \<le> uint_of s"

definition interp_0xc6_jmp32 :: "u64 \<Rightarrow> u64 \<Rightarrow> u32 \<Rightarrow> bool" where
  [op_defs]: "interp_0xc6_jmp32 d s imm \<longleftrightarrow> sint (uint_of d) < sint imm"

definition interp_0xce_jmp32 :: "u64 \<Rightarrow> u64 \<Rightarrow> u32 \<Rightarrow> bool" where
  [op_defs]: "interp_0xce_jmp32 d s imm \<longleftrightarrow> sint (uint_of d) < sint (uint_of s)"

definition interp_0xd6_jmp32 :: "u64 \<Rightarrow> u64 \<Rightarrow> u32 \<Rightarrow> bool" where
  [op_defs]: "interp_0xd6_jmp32 d s imm \<longleftrightarrow> sint (uint_of d) \<le> sint imm"

definition interp_0xde_jmp32 :: "u64 \<Rightarrow> u64 \<Rightarrow> u32 \<Rightarrow> bool" where
  [op_defs]: "interp_0xde_jmp32 d s imm \<longleftrightarrow> sint (uint_of d) \<le> sint (uint_of s)"

end
