(* ===== verification/Vm_Jump_Table.thy ===== *)
theory Vm_Jump_Table
  imports Vm_Ops
begin

text \<open>
  The interpreter jump table of \<^verbatim>\<open>flamenco/vm/fd_vm_interp_jump_table.c\<close>: for each sBPF version the
  code label of each of the 256 opcodes.  A label is a code pointer, so an arithmetic or jump label
  carries its handler; \<open>V0_BASE\<close> is the initialiser list of version 0 and \<open>VERSION_OVERRIDES\<close> the
  designated initialisers the later versions append to it, the last one winning.
\<close>

section \<open>Labels\<close>

datatype mem_label =
  M_0x27 | M_0x2c | M_0x2f | M_0x37 | M_0x3c | M_0x3f
| M_0x87 | M_0x8c | M_0x8f | M_0x97 | M_0x9c | M_0x9f

datatype label =
  L_sigill
| L_alu "u64 \<Rightarrow> u64 \<Rightarrow> u32 \<Rightarrow> op_result"
| L_jmp "u64 \<Rightarrow> u64 \<Rightarrow> u32 \<Rightarrow> bool"
| L_ldq
| L_mem mem_label
| L_call_imm
| L_call_static
| L_call_reg
| L_exit

section \<open>The tables\<close>

definition V0_BASE :: "label list" where
  "V0_BASE =
     [
      L_sigill, L_sigill, L_sigill, L_sigill,
      L_alu interp_0x04depr, L_jmp interp_0x05, L_sigill, L_alu interp_0x07,
      L_sigill, L_sigill, L_sigill, L_sigill,
      L_alu interp_0x0cdepr, L_sigill, L_sigill, L_alu interp_0x0f,
      L_sigill, L_sigill, L_sigill, L_sigill,
      L_alu interp_0x14depr, L_jmp interp_0x15, L_sigill, L_alu interp_0x17depr,
      L_ldq, L_sigill, L_sigill, L_sigill,
      L_alu interp_0x1cdepr, L_jmp interp_0x1d, L_sigill, L_alu interp_0x1f,
      L_sigill, L_sigill, L_sigill, L_sigill,
      L_alu interp_0x24, L_jmp interp_0x25, L_sigill, L_alu interp_0x27depr,
      L_sigill, L_sigill, L_sigill, L_sigill,
      L_alu interp_0x2cdepr, L_jmp interp_0x2d, L_sigill, L_alu interp_0x2fdepr,
      L_sigill, L_sigill, L_sigill, L_sigill,
      L_alu interp_0x34, L_jmp interp_0x35, L_sigill, L_alu interp_0x37depr,
      L_sigill, L_sigill, L_sigill, L_sigill,
      L_alu interp_0x3cdepr, L_jmp interp_0x3d, L_sigill, L_alu interp_0x3fdepr,
      L_sigill, L_sigill, L_sigill, L_sigill,
      L_alu interp_0x44, L_jmp interp_0x45, L_sigill, L_alu interp_0x47,
      L_sigill, L_sigill, L_sigill, L_sigill,
      L_alu interp_0x4c, L_jmp interp_0x4d, L_sigill, L_alu interp_0x4f,
      L_sigill, L_sigill, L_sigill, L_sigill,
      L_alu interp_0x54, L_jmp interp_0x55, L_sigill, L_alu interp_0x57,
      L_sigill, L_sigill, L_sigill, L_sigill,
      L_alu interp_0x5c, L_jmp interp_0x5d, L_sigill, L_alu interp_0x5f,
      L_sigill, L_mem M_0x8c, L_mem M_0x87, L_mem M_0x8f,
      L_alu interp_0x64, L_jmp interp_0x65, L_sigill, L_alu interp_0x67,
      L_sigill, L_mem M_0x3c, L_mem M_0x37, L_mem M_0x3f,
      L_alu interp_0x6c, L_jmp interp_0x6d, L_sigill, L_alu interp_0x6f,
      L_sigill, L_mem M_0x2c, L_mem M_0x27, L_mem M_0x2f,
      L_alu interp_0x74, L_jmp interp_0x75, L_sigill, L_alu interp_0x77,
      L_sigill, L_mem M_0x9c, L_mem M_0x97, L_mem M_0x9f,
      L_alu interp_0x7c, L_jmp interp_0x7d, L_sigill, L_alu interp_0x7f,
      L_sigill, L_sigill, L_sigill, L_sigill,
      L_alu interp_0x84, L_call_imm, L_sigill, L_alu interp_0x87depr,
      L_sigill, L_sigill, L_sigill, L_sigill,
      L_sigill, L_call_reg, L_sigill, L_sigill,
      L_sigill, L_sigill, L_sigill, L_sigill,
      L_alu interp_0x94, L_exit, L_sigill, L_alu interp_0x97depr,
      L_sigill, L_sigill, L_sigill, L_sigill,
      L_alu interp_0x9cdepr, L_sigill, L_sigill, L_alu interp_0x9fdepr,
      L_sigill, L_sigill, L_sigill, L_sigill,
      L_alu interp_0xa4, L_jmp interp_0xa5, L_sigill, L_alu interp_0xa7,
      L_sigill, L_sigill, L_sigill, L_sigill,
      L_alu interp_0xac, L_jmp interp_0xad, L_sigill, L_alu interp_0xaf,
      L_sigill, L_sigill, L_sigill, L_sigill,
      L_alu interp_0xb4, L_jmp interp_0xb5, L_sigill, L_alu interp_0xb7,
      L_sigill, L_sigill, L_sigill, L_sigill,
      L_alu interp_0xbcdepr, L_jmp interp_0xbd, L_sigill, L_alu interp_0xbf,
      L_sigill, L_sigill, L_sigill, L_sigill,
      L_alu interp_0xc4, L_jmp interp_0xc5, L_sigill, L_alu interp_0xc7,
      L_sigill, L_sigill, L_sigill, L_sigill,
      L_alu interp_0xcc, L_jmp interp_0xcd, L_sigill, L_alu interp_0xcf,
      L_sigill, L_sigill, L_sigill, L_sigill,
      L_alu interp_0xd4, L_jmp interp_0xd5, L_sigill, L_sigill,
      L_sigill, L_sigill, L_sigill, L_sigill,
      L_alu interp_0xdc, L_jmp interp_0xdd, L_sigill, L_sigill,
      L_sigill, L_sigill, L_sigill, L_sigill,
      L_sigill, L_sigill, L_sigill, L_sigill,
      L_sigill, L_sigill, L_sigill, L_sigill,
      L_sigill, L_sigill, L_sigill, L_sigill,
      L_sigill, L_sigill, L_sigill, L_sigill,
      L_sigill, L_sigill, L_sigill, L_sigill,
      L_sigill, L_sigill, L_sigill, L_sigill,
      L_sigill, L_sigill, L_sigill, L_sigill]"

definition VERSION_OVERRIDES :: "u64 \<Rightarrow> (nat \<times> label) list" where
  "VERSION_OVERRIDES v =
     [
      (0x18, if disable_lddw v then L_sigill else L_ldq),
      (0xf7, if disable_lddw v then L_alu interp_0xf7 else L_sigill),
      (0xd4, if disable_le v then L_sigill else L_alu interp_0xd4),
      (0x61, if move_memory_ix_classes v then L_sigill else L_mem M_0x8c),
      (0x62, if move_memory_ix_classes v then L_sigill else L_mem M_0x87),
      (0x63, if move_memory_ix_classes v then L_sigill else L_mem M_0x8f),
      (0x8c, if move_memory_ix_classes v then L_mem M_0x8c else L_sigill),
      (0x87, if move_memory_ix_classes v then L_mem M_0x87 else L_alu interp_0x87depr),
      (0x8f, if move_memory_ix_classes v then L_mem M_0x8f else L_sigill),
      (0x69, if move_memory_ix_classes v then L_sigill else L_mem M_0x3c),
      (0x6a, if move_memory_ix_classes v then L_sigill else L_mem M_0x37),
      (0x6b, if move_memory_ix_classes v then L_sigill else L_mem M_0x3f),
      (0x3c, if move_memory_ix_classes v then L_mem M_0x3c else L_alu interp_0x3cdepr),
      (0x37, if move_memory_ix_classes v then L_mem M_0x37 else L_alu interp_0x37depr),
      (0x3f, if move_memory_ix_classes v then L_mem M_0x3f else L_alu interp_0x3fdepr),
      (0x71, if move_memory_ix_classes v then L_sigill else L_mem M_0x2c),
      (0x72, if move_memory_ix_classes v then L_sigill else L_mem M_0x27),
      (0x73, if move_memory_ix_classes v then L_sigill else L_mem M_0x2f),
      (0x2c, if move_memory_ix_classes v then L_mem M_0x2c else L_alu interp_0x2cdepr),
      (0x27, if move_memory_ix_classes v then L_mem M_0x27 else L_alu interp_0x27depr),
      (0x2f, if move_memory_ix_classes v then L_mem M_0x2f else L_alu interp_0x2fdepr),
      (0x79, if move_memory_ix_classes v then L_sigill else L_mem M_0x9c),
      (0x7a, if move_memory_ix_classes v then L_sigill else L_mem M_0x97),
      (0x7b, if move_memory_ix_classes v then L_sigill else L_mem M_0x9f),
      (0x9c, if move_memory_ix_classes v then L_mem M_0x9c else L_alu interp_0x9cdepr),
      (0x97, if move_memory_ix_classes v then L_mem M_0x97 else L_alu interp_0x97depr),
      (0x9f, if move_memory_ix_classes v then L_mem M_0x9f else L_alu interp_0x9fdepr),
      (0x86, if enable_pqr v then L_alu interp_0x86 else L_sigill),
      (0x8e, if enable_pqr v then L_alu interp_0x8e else L_sigill),
      (0x96, if enable_pqr v then L_alu interp_0x96 else L_sigill),
      (0x9e, if enable_pqr v then L_alu interp_0x9e else L_sigill),
      (0xe6, if enable_pqr v then L_alu interp_0xe6 else L_sigill),
      (0xee, if enable_pqr v then L_alu interp_0xee else L_sigill),
      (0xf6, if enable_pqr v then L_alu interp_0xf6 else L_sigill),
      (0xfe, if enable_pqr v then L_alu interp_0xfe else L_sigill),
      (0x24, if enable_pqr v then L_sigill else L_alu interp_0x24),
      (0x34, if enable_pqr v then L_sigill else L_alu interp_0x34),
      (0x94, if enable_pqr v then L_sigill else L_alu interp_0x94),
      (0x84, if disable_neg v then L_sigill else L_alu interp_0x84),
      (0x04, if explicit_sign_extension_of_results v then L_alu interp_0x04 else L_alu interp_0x04depr),
      (0x0c, if explicit_sign_extension_of_results v then L_alu interp_0x0c else L_alu interp_0x0cdepr),
      (0x1c, if explicit_sign_extension_of_results v then L_alu interp_0x1c else L_alu interp_0x1cdepr),
      (0xbc, if explicit_sign_extension_of_results v then L_alu interp_0xbc else L_alu interp_0xbcdepr),
      (0x14, if swap_sub_reg_imm_operands v then L_alu interp_0x14 else L_alu interp_0x14depr),
      (0x17, if swap_sub_reg_imm_operands v then L_alu interp_0x17 else L_alu interp_0x17depr),
      (0x85, if static_syscalls v then L_call_static else L_call_imm),
      (0x36, if enable_jmp32 v then L_jmp interp_0x36_jmp32 else if enable_pqr v then L_alu interp_0x36 else L_sigill),
      (0x3e, if enable_jmp32 v then L_jmp interp_0x3e_jmp32 else if enable_pqr v then L_alu interp_0x3e else L_sigill),
      (0x46, if enable_jmp32 v then L_jmp interp_0x46_jmp32 else if enable_pqr v then L_alu interp_0x46 else L_sigill),
      (0x4e, if enable_jmp32 v then L_jmp interp_0x4e_jmp32 else if enable_pqr v then L_alu interp_0x4e else L_sigill),
      (0x56, if enable_jmp32 v then L_jmp interp_0x56_jmp32 else if enable_pqr v then L_alu interp_0x56 else L_sigill),
      (0x5e, if enable_jmp32 v then L_jmp interp_0x5e_jmp32 else if enable_pqr v then L_alu interp_0x5e else L_sigill),
      (0x66, if enable_jmp32 v then L_jmp interp_0x66_jmp32 else if enable_pqr v then L_alu interp_0x66 else L_sigill),
      (0x6e, if enable_jmp32 v then L_jmp interp_0x6e_jmp32 else if enable_pqr v then L_alu interp_0x6e else L_sigill),
      (0x76, if enable_jmp32 v then L_jmp interp_0x76_jmp32 else if enable_pqr v then L_alu interp_0x76 else L_sigill),
      (0x7e, if enable_jmp32 v then L_jmp interp_0x7e_jmp32 else if enable_pqr v then L_alu interp_0x7e else L_sigill),
      (0xb6, if enable_jmp32 v then L_jmp interp_0xb6_jmp32 else if enable_pqr v then L_alu interp_0xb6 else L_sigill),
      (0xbe, if enable_jmp32 v then L_jmp interp_0xbe_jmp32 else if enable_pqr v then L_alu interp_0xbe else L_sigill),
      (0xc6, if enable_jmp32 v then L_jmp interp_0xc6_jmp32 else if enable_pqr v then L_alu interp_0xc6 else L_sigill),
      (0xce, if enable_jmp32 v then L_jmp interp_0xce_jmp32 else if enable_pqr v then L_alu interp_0xce else L_sigill),
      (0xd6, if enable_jmp32 v then L_jmp interp_0xd6_jmp32 else if enable_pqr v then L_alu interp_0xd6 else L_sigill),
      (0xde, if enable_jmp32 v then L_jmp interp_0xde_jmp32 else if enable_pqr v then L_alu interp_0xde else L_sigill),
      (0x16, if enable_jmp32 v then L_jmp interp_0x16_jmp32 else L_sigill),
      (0x1e, if enable_jmp32 v then L_jmp interp_0x1e_jmp32 else L_sigill),
      (0x26, if enable_jmp32 v then L_jmp interp_0x26_jmp32 else L_sigill),
      (0x2e, if enable_jmp32 v then L_jmp interp_0x2e_jmp32 else L_sigill),
      (0xa6, if enable_jmp32 v then L_jmp interp_0xa6_jmp32 else L_sigill),
      (0xae, if enable_jmp32 v then L_jmp interp_0xae_jmp32 else L_sigill)]"

definition FD_SBPF_VERSION_COUNT :: u64 where
  "FD_SBPF_VERSION_COUNT = 5"

definition interp_jump_table :: "u64 \<Rightarrow> label list" where
  "interp_jump_table v =
     (if v = FD_SBPF_V0 then V0_BASE else override_table (VERSION_OVERRIDES v) V0_BASE)"

end
