(* ===== verification/Vm_State.thy ===== *)
theory Vm_State
  imports Vm_Instr
begin

text \<open>
  The virtual machine object \<^verbatim>\<open>fd_vm_t\<close> of \<^verbatim>\<open>flamenco/vm/fd_vm.h\<close>.  Pointers are 64 bit host
  addresses; host memory is a total map from addresses to bytes, so that the software address
  translation and the loads and stores behind it are modelled down to the byte.  The program text is
  read through a \<^verbatim>\<open>const * FD_RESTRICT\<close> pointer and is an immutable list of words.
\<close>

section \<open>Constants (\<open>fd_vm_base.h\<close>)\<close>

abbreviation (input) FD_VM_REG_MAX :: nat where "FD_VM_REG_MAX \<equiv> 16"
abbreviation (input) FD_VM_STACK_FRAME_MAX :: u64 where "FD_VM_STACK_FRAME_MAX \<equiv> 64"
abbreviation (input) FD_VM_STACK_FRAME_SZ :: u64 where "FD_VM_STACK_FRAME_SZ \<equiv> 4096"
abbreviation (input) FD_VM_STACK_MAX :: u64 where "FD_VM_STACK_MAX \<equiv> 262144"
abbreviation (input) FD_VM_HEAP_MAX :: u64 where "FD_VM_HEAP_MAX \<equiv> 262144"
abbreviation (input) FD_VM_MAX_CALL_DEPTH :: int where "FD_VM_MAX_CALL_DEPTH \<equiv> 64"
abbreviation (input) FD_VM_MAGIC :: u64 where "FD_VM_MAGIC \<equiv> 0xF17EDA2CEF0"

abbreviation (input) FD_VM_PROG_REGION :: u64 where "FD_VM_PROG_REGION \<equiv> 1"
abbreviation (input) FD_VM_STACK_REGION :: u64 where "FD_VM_STACK_REGION \<equiv> 2"
abbreviation (input) FD_VM_HEAP_REGION :: u64 where "FD_VM_HEAP_REGION \<equiv> 3"
abbreviation (input) FD_VM_INPUT_REGION :: u64 where "FD_VM_INPUT_REGION \<equiv> 4"
abbreviation (input) FD_VM_HIGH_REGION :: u64 where "FD_VM_HIGH_REGION \<equiv> 5"

abbreviation (input) FD_VM_MEM_MAP_STACK_REGION_START :: u64 where
  "FD_VM_MEM_MAP_STACK_REGION_START \<equiv> 0x200000000"
abbreviation (input) FD_VM_MEM_MAP_INPUT_REGION_START :: u64 where
  "FD_VM_MEM_MAP_INPUT_REGION_START \<equiv> 0x400000000"
abbreviation (input) FD_VM_OFFSET_MASK :: u64 where "FD_VM_OFFSET_MASK \<equiv> 0xffffffff"

abbreviation (input) FD_RUNTIME_ACC_SZ_MAX :: u64 where "FD_RUNTIME_ACC_SZ_MAX \<equiv> 10485760"
abbreviation (input) FD_MAX_ACCOUNT_DATA_GROWTH_PER_TRANSACTION :: u64 where
  "FD_MAX_ACCOUNT_DATA_GROWTH_PER_TRANSACTION \<equiv> 20971520"

section \<open>Structures\<close>

record fd_vm_shadow =
  sh_r6 :: u64
  sh_r7 :: u64
  sh_r8 :: u64
  sh_r9 :: u64
  sh_r10 :: u64
  sh_pc :: u64

record fd_vm_input_region =
  vaddr_offset :: u64
  ir_haddr :: u64
  region_sz :: u32
  address_space_reserved :: u64
  is_writable :: u8
  acc_region_meta_idx :: u64

text \<open>
  The transaction account a region belongs to: the address of its data and the current length.  A
  meta holds a pointer to an account; several may point to the same one, so it is an index.
\<close>

record fd_acc =
  acc_data :: u64
  acc_data_len :: u64

record fd_vm_acc_region_meta =
  meta_acc :: nat

record fd_vm =
  vm_heap_max :: u64
  vm_entry_cu :: u64
  vm_rodata :: u64
  vm_rodata_sz :: u64
  vm_text_addr :: u64
  vm_text :: "u64 list"
  vm_text_cnt :: u64
  vm_text_off :: u64
  vm_text_sz :: u64
  vm_entry_pc :: u64
  vm_calldests :: "bool list option"
  vm_pc :: u64
  vm_ic :: u64
  vm_cu :: u64
  vm_frame_cnt :: u64
  vm_heap_sz :: u64
  vm_region_haddr :: "u64 list"
  vm_region_ld_sz :: "u32 list"
  vm_region_st_sz :: "u32 list"
  vm_input_mem_regions :: "fd_vm_input_region list"
  vm_input_mem_regions_cnt :: u32
  vm_acc_region_metas :: "fd_vm_acc_region_meta list"
  vm_is_deprecated :: u8
  vm_reg :: "u64 list"
  vm_shadow :: "fd_vm_shadow list"
  vm_stack :: u64
  vm_heap :: u64
  vm_magic :: u64
  vm_direct_mapping :: bool
  vm_syscall_parameter_address_restrictions :: bool
  vm_virtual_address_space_adjustments :: bool
  vm_stack_frame_sz :: u64
  vm_stack_push_frame_count :: u64
  vm_segv_vaddr :: u64
  vm_segv_access_len :: u64
  vm_segv_access_type :: u8
  vm_sbpf_version :: u64
  vm_accs :: "fd_acc list"
  vm_accounts_resize_delta :: u64
  vm_mem :: "u64 \<Rightarrow> u8"

section \<open>Host memory\<close>

definition mem_ld :: "nat \<Rightarrow> (u64 \<Rightarrow> u8) \<Rightarrow> u64 \<Rightarrow> u64" where
  "mem_ld n m haddr = le_load (map (\<lambda>i. m (haddr + of_nat i)) [0 ..< n])"

definition mem_st :: "(u64 \<Rightarrow> u8) \<Rightarrow> u64 \<Rightarrow> u8 list \<Rightarrow> u64 \<Rightarrow> u8" where
  "mem_st m haddr bs = (\<lambda>a. if unat (a - haddr) < length bs then bs ! unat (a - haddr) else m a)"

definition mem_set :: "(u64 \<Rightarrow> u8) \<Rightarrow> u64 \<Rightarrow> u8 \<Rightarrow> u64 \<Rightarrow> u64 \<Rightarrow> u8" where
  "mem_set m haddr c sz = (\<lambda>a. if a - haddr < sz then c else m a)"

end
