(* ===== verification/Vm_Mem.thy ===== *)
theory Vm_Mem
  imports Vm_State
begin

text \<open>
  Virtual address translation of \<^verbatim>\<open>flamenco/vm/fd_vm_private.h\<close>: the software TLB set up by
  \<open>fd_vm_mem_cfg\<close>, the fragmented input region with its binary search and its resize handler, and
  \<open>fd_vm_mem_haddr\<close>.  Translation can grow an account's region, so it returns the machine too.
\<close>

section \<open>Configuration\<close>

definition set_region :: "u64 \<Rightarrow> u64 \<Rightarrow> u32 \<Rightarrow> u32 \<Rightarrow> fd_vm \<Rightarrow> fd_vm" where
  "set_region r h ld st vm = vm
     \<lparr> vm_region_haddr := (vm_region_haddr vm)[unat r := h],
       vm_region_ld_sz := (vm_region_ld_sz vm)[unat r := ld],
       vm_region_st_sz := (vm_region_st_sz vm)[unat r := st] \<rparr>"

definition fd_vm_mem_cfg :: "fd_vm \<Rightarrow> fd_vm" where
  "fd_vm_mem_cfg vm =
     (let vm = (if enable_lower_rodata_vaddr (vm_sbpf_version vm)
                then set_region FD_VM_PROG_REGION 0 0 0
                       (set_region 0 (vm_rodata vm) (ucast (vm_rodata_sz vm)) 0 vm)
                else set_region FD_VM_PROG_REGION (vm_rodata vm) (ucast (vm_rodata_sz vm)) 0
                       (set_region 0 0 0 0 vm));
          vm = set_region FD_VM_STACK_REGION (vm_stack vm) (ucast FD_VM_STACK_MAX)
                 (ucast FD_VM_STACK_MAX) vm;
          vm = set_region FD_VM_HEAP_REGION (vm_heap vm) (ucast (vm_heap_max vm))
                 (ucast (vm_heap_max vm)) vm;
          vm = set_region 5 0 0 0 vm
      in if vm_direct_mapping vm \<or> vm_input_mem_regions_cnt vm = 0
         then set_region FD_VM_INPUT_REGION 0 0 0 vm
         else (let r = vm_input_mem_regions vm ! 0
               in set_region FD_VM_INPUT_REGION (ir_haddr r) (region_sz r) (region_sz r) vm))"

section \<open>Access violation codes\<close>

abbreviation (input) FD_VM_ERR_EBPF_ACCESS_VIOLATION :: int where
  "FD_VM_ERR_EBPF_ACCESS_VIOLATION \<equiv> - 12"
abbreviation (input) FD_VM_ERR_EBPF_STACK_ACCESS_VIOLATION :: int where
  "FD_VM_ERR_EBPF_STACK_ACCESS_VIOLATION \<equiv> - 13"

text \<open>C's \<open>/\<close> on \<open>long\<close> truncates towards zero.\<close>

definition fd_vm_generate_access_violation :: "u64 \<Rightarrow> u64 \<Rightarrow> int" where
  "fd_vm_generate_access_violation vaddr sbpf_version =
     (let rel_offset = fd_long_sat_sub vaddr FD_VM_MEM_MAP_STACK_REGION_START;
          stack_frame = sint rel_offset sdiv sint FD_VM_STACK_FRAME_SZ
      in if \<not> manual_stack_frame_bump sbpf_version \<and> - 1 \<le> stack_frame
            \<and> stack_frame \<le> FD_VM_MAX_CALL_DEPTH
         then FD_VM_ERR_EBPF_STACK_ACCESS_VIOLATION
         else FD_VM_ERR_EBPF_ACCESS_VIOLATION)"

section \<open>The input region\<close>

text \<open>
  The binary search of \<open>fd_vm_get_input_mem_region_idx\<close>.  The indices are \<open>uint\<close> in the source; the
  region array is far shorter than \<open>2^31\<close>, so \<open>left+right\<close> does not wrap and natural numbers stand
  for them.
\<close>

function region_search :: "fd_vm_input_region list \<Rightarrow> u64 \<Rightarrow> nat \<Rightarrow> nat \<Rightarrow> nat" where
  "region_search rs offset left right =
     (if left < right then
        (let mid = (left + right) div 2 in
         if vaddr_offset (rs ! mid) + address_space_reserved (rs ! mid) \<le> offset
         then region_search rs offset (mid + 1) right
         else region_search rs offset left mid)
      else left)"
  by pat_completeness auto
termination
  by (relation "measure (\<lambda>(rs, offset, left, right). right - left)") auto

declare region_search.simps [simp del]

definition fd_vm_get_input_mem_region_idx :: "fd_vm \<Rightarrow> u64 \<Rightarrow> nat" where
  "fd_vm_get_input_mem_region_idx vm offset =
     region_search (vm_input_mem_regions vm) offset 0
       (unat (vm_input_mem_regions_cnt vm - 1))"

definition new_region_sz :: "fd_vm \<Rightarrow> fd_vm_input_region \<Rightarrow> u64" where
  "new_region_sz vm region =
     (let remaining_growth_signed =
            fd_long_sat_sub FD_MAX_ACCOUNT_DATA_GROWTH_PER_TRANSACTION
              (vm_accounts_resize_delta vm);
          remaining_allowed_growth =
            (if 0 < sint remaining_growth_signed then remaining_growth_signed else 0)
      in min (min (address_space_reserved region) FD_RUNTIME_ACC_SZ_MAX)
           (fd_ulong_sat_add (ucast (region_sz region)) remaining_allowed_growth))"

definition resize_region :: "fd_vm \<Rightarrow> nat \<Rightarrow> u64 \<Rightarrow> fd_vm" where
  "resize_region vm region_idx new_sz =
     (let region = vm_input_mem_regions vm ! region_idx;
          growth = new_sz - ucast (region_sz region);
          ai = meta_acc (vm_acc_region_metas vm ! unat (acc_region_meta_idx region));
          acc = vm_accs vm ! ai;
          memset_sz = fd_ulong_sat_sub new_sz (acc_data_len acc)
      in vm
         \<lparr> vm_accounts_resize_delta := fd_long_sat_add (vm_accounts_resize_delta vm) growth,
           vm_mem := mem_set (vm_mem vm) (acc_data acc + acc_data_len acc) 0 memset_sz,
           vm_accs := (vm_accs vm)[ai := acc \<lparr> acc_data_len := new_sz \<rparr>],
           vm_input_mem_regions :=
             (vm_input_mem_regions vm)[region_idx := region \<lparr> region_sz := ucast new_sz \<rparr>] \<rparr>)"

definition fd_vm_handle_input_mem_region_oob ::
    "fd_vm \<Rightarrow> u64 \<Rightarrow> u64 \<Rightarrow> nat \<Rightarrow> bool \<Rightarrow> fd_vm" where
  "fd_vm_handle_input_mem_region_oob vm offset sz region_idx write =
     (let region = vm_input_mem_regions vm ! region_idx;
          requested_len = fd_ulong_sat_sub (fd_ulong_sat_add offset sz) (vaddr_offset region)
      in if \<not> vm_virtual_address_space_adjustments vm then vm
         else if \<not> write then vm
         else if is_writable region = 0 then vm
         else if address_space_reserved region < requested_len then vm
         else if ucast (region_sz region) < requested_len
                 \<and> ucast (region_sz region) < new_region_sz vm region
         then resize_region vm region_idx (new_region_sz vm region)
         else vm)"

definition bytes_in_region :: "fd_vm_input_region \<Rightarrow> u64 \<Rightarrow> u64" where
  "bytes_in_region r offset =
     fd_ulong_sat_sub (ucast (region_sz r)) (fd_ulong_sat_sub offset (vaddr_offset r))"

definition fd_vm_find_input_mem_region ::
    "fd_vm \<Rightarrow> u64 \<Rightarrow> u64 \<Rightarrow> bool \<Rightarrow> u64 \<Rightarrow> u64 \<times> fd_vm" where
  "fd_vm_find_input_mem_region vm offset sz write sentinel =
     (if vm_input_mem_regions_cnt vm = 0 then (sentinel, vm)
      else (let region_idx = fd_vm_get_input_mem_region_idx vm offset in
        if unat (vm_input_mem_regions_cnt vm) \<le> region_idx then (sentinel, vm)
        else (let vm =
                (if bytes_in_region (vm_input_mem_regions vm ! region_idx) offset < sz
                 then fd_vm_handle_input_mem_region_oob vm offset sz region_idx write
                 else vm);
                  r = vm_input_mem_regions vm ! region_idx in
          if bytes_in_region r offset < sz then (sentinel, vm)
          else if write \<and> is_writable r = 0 then (sentinel, vm)
          else (ir_haddr r + offset - vaddr_offset r, vm))))"

section \<open>Translation\<close>

definition FD_VADDR_TO_REGION :: "u64 \<Rightarrow> u64" where
  "FD_VADDR_TO_REGION vaddr = min (drop_bit 32 vaddr) FD_VM_HIGH_REGION"

text \<open>
  Squeezing the unmapped gap frames out of a stack offset:
  \<open>((offset & gap_mask) >> 1) | (offset & ~gap_mask)\<close>.
\<close>

definition gap_mask :: u64 where
  "gap_mask = 0xFFFFFFFFFFFFF000"

definition squeeze_gaps :: "u64 \<Rightarrow> u64" where
  "squeeze_gaps offset = drop_bit 1 (offset AND gap_mask) OR (offset AND NOT gap_mask)"

definition fd_vm_mem_haddr ::
    "fd_vm \<Rightarrow> u64 \<Rightarrow> u64 \<Rightarrow> u64 list \<Rightarrow> u32 list \<Rightarrow> bool \<Rightarrow> u64 \<Rightarrow> u64 \<times> fd_vm" where
  "fd_vm_mem_haddr vm vaddr sz haddrs szs write sentinel =
     (let region = FD_VADDR_TO_REGION vaddr;
          offset = vaddr AND FD_VM_OFFSET_MASK;
          stack_frame_gaps_enabled = (1 < vm_stack_push_frame_count vm);
          gaps = (region = FD_VM_STACK_REGION \<and> stack_frame_gaps_enabled)
      in if gaps \<and> vaddr AND 0x1000 \<noteq> 0 then (sentinel, vm)
         else (let offset = (if gaps then squeeze_gaps offset else offset);
                   rsz = ucast (szs ! unat region);
                   sz_max = rsz - min offset rsz
               in if region = FD_VM_INPUT_REGION
                  then fd_vm_find_input_mem_region vm offset sz write sentinel
                  else if sz \<le> sz_max then (haddrs ! unat region + offset, vm)
                  else (sentinel, vm)))"

definition fd_vm_mem_haddr_fast :: "fd_vm \<Rightarrow> u64 \<Rightarrow> u64 list \<Rightarrow> u64 \<times> fd_vm" where
  "fd_vm_mem_haddr_fast vm vaddr haddrs =
     (let region = FD_VADDR_TO_REGION vaddr;
          offset = vaddr AND FD_VM_OFFSET_MASK
      in if region = FD_VM_INPUT_REGION then fd_vm_find_input_mem_region vm offset 1 False 0
         else (haddrs ! unat region + offset, vm))"

section \<open>What translation leaves alone\<close>

text \<open>
  Translation changes the input regions, the accounts, the resize counter and host memory, and
  nothing else of the machine.
\<close>

lemma oob_frame [simp]:
  "vm_reg (fd_vm_handle_input_mem_region_oob vm off sz idx w) = vm_reg vm"
  "vm_shadow (fd_vm_handle_input_mem_region_oob vm off sz idx w) = vm_shadow vm"
  "vm_sbpf_version (fd_vm_handle_input_mem_region_oob vm off sz idx w) = vm_sbpf_version vm"
  "vm_input_mem_regions_cnt (fd_vm_handle_input_mem_region_oob vm off sz idx w)
     = vm_input_mem_regions_cnt vm"
  "vm_region_haddr (fd_vm_handle_input_mem_region_oob vm off sz idx w) = vm_region_haddr vm"
  "vm_region_ld_sz (fd_vm_handle_input_mem_region_oob vm off sz idx w) = vm_region_ld_sz vm"
  "vm_region_st_sz (fd_vm_handle_input_mem_region_oob vm off sz idx w) = vm_region_st_sz vm"
  "length (vm_input_mem_regions (fd_vm_handle_input_mem_region_oob vm off sz idx w))
     = length (vm_input_mem_regions vm)"
  by (simp_all add: fd_vm_handle_input_mem_region_oob_def resize_region_def Let_def)

lemma find_region_vm:
  assumes "fd_vm_find_input_mem_region vm off sz w s = (h, vm')"
  shows "vm' = vm
    \<or> vm' = fd_vm_handle_input_mem_region_oob vm off sz (fd_vm_get_input_mem_region_idx vm off) w"
  using assms unfolding fd_vm_find_input_mem_region_def Let_def
  by (auto split: if_splits)

lemma mem_haddr_vm:
  assumes "fd_vm_mem_haddr vm va sz hs szs w s = (h, vm')"
  shows "vm' = vm \<or> (\<exists>off idx. vm' = fd_vm_handle_input_mem_region_oob vm off sz idx w)"
  using assms unfolding fd_vm_mem_haddr_def Let_def
  by (auto split: if_splits dest!: find_region_vm)

lemma mem_haddr_frame:
  assumes "fd_vm_mem_haddr vm va sz hs szs w s = (h, vm')"
  shows "vm_reg vm' = vm_reg vm" "vm_shadow vm' = vm_shadow vm"
    "vm_sbpf_version vm' = vm_sbpf_version vm"
    "vm_region_haddr vm' = vm_region_haddr vm" "vm_region_ld_sz vm' = vm_region_ld_sz vm"
    "vm_region_st_sz vm' = vm_region_st_sz vm"
  using mem_haddr_vm[OF assms] by auto

end
