(* ===== verification/Fd_Murmur3.thy ===== *)
theory Fd_Murmur3
  imports Fd_Prelude
begin

text \<open>
  The Murmur3 hash of \<^verbatim>\<open>ballet/murmur3\<close>.  The sBPF toolchain calls an internal function by the
  hash of its program counter; \<open>fd_pchash\<close> is that hash with its loop unrolled and
  \<open>fd_pchash_inverse\<close> lets the interpreter recover the program counter from a call immediate
  without a table.
\<close>

section \<open>The general hash (\<open>fd_murmur3.c\<close>)\<close>

definition murmur3_scramble :: "u32 \<Rightarrow> u32" where
  "murmur3_scramble k = fd_uint_rotate_left (k * 0xcc9e2d51) 15 * 0x1b873593"

text \<open>The loop \<open>while( sz>=4 )\<close>: the hash so far and the unread bytes.\<close>

fun murmur3_blocks :: "u32 \<Rightarrow> u8 list \<Rightarrow> u32 \<times> u8 list" where
  "murmur3_blocks hash (b0 # b1 # b2 # b3 # data) =
     murmur3_blocks
       (fd_uint_rotate_left (hash XOR murmur3_scramble (le_load [b0, b1, b2, b3])) 13 * 5
          + 0xe6546b64)
       data"
| "murmur3_blocks hash data = (hash, data)"

text \<open>The switch on the remaining byte count, its cases falling through.\<close>

definition murmur3_tail :: "u32 \<Rightarrow> u8 list \<Rightarrow> u32" where
  "murmur3_tail hash data =
     (case data of
        [] \<Rightarrow> hash
      | [d0] \<Rightarrow> hash XOR murmur3_scramble (ucast d0)
      | [d0, d1] \<Rightarrow> hash XOR murmur3_scramble (push_bit 8 (ucast d1) XOR ucast d0)
      | (d0 # d1 # d2 # _) \<Rightarrow>
          hash XOR murmur3_scramble
            ((push_bit 16 (ucast d2) XOR push_bit 8 (ucast d1)) XOR ucast d0))"

definition murmur3_final :: "u32 \<Rightarrow> u32" where
  "murmur3_final h =
     (let h = h XOR drop_bit 16 h;
          h = h * 0x85ebca6b;
          h = h XOR drop_bit 13 h;
          h = h * 0xc2b2ae35
      in h XOR drop_bit 16 h)"

definition fd_murmur3_32 :: "u8 list \<Rightarrow> u32 \<Rightarrow> u32" where
  "fd_murmur3_32 data seed =
     (let (hash, rest) = murmur3_blocks seed data
      in murmur3_final (murmur3_tail hash rest XOR of_nat (length data)))"

section \<open>The program counter hash and its inverse (\<open>fd_murmur3.h\<close>)\<close>

definition fd_pchash :: "u32 \<Rightarrow> u32" where
  "fd_pchash pc =
     (let x = pc;
          x = x * 0xcc9e2d51;
          x = fd_uint_rotate_left x 15;
          x = x * 0x1b873593;
          x = fd_uint_rotate_left x 13;
          x = x * 5;
          x = x + 0xe6546b64;
          x = fd_uint_rotate_left x 13;
          x = x * 5;
          x = x + 0xe6546b64;
          x = x XOR 8;
          x = x XOR drop_bit 16 x;
          x = x * 0x85ebca6b;
          x = x XOR drop_bit 13 x;
          x = x * 0xc2b2ae35
      in x XOR drop_bit 16 x)"

definition fd_pchash_inverse :: "u32 \<Rightarrow> u32" where
  "fd_pchash_inverse hash =
     (let x = hash;
          x = x XOR drop_bit 16 x;
          x = x * 0x7ed1b41d;
          x = x XOR (drop_bit 13 x XOR drop_bit 26 x);
          x = x * 0xa5cb9243;
          x = x XOR drop_bit 16 x;
          x = x XOR 8;
          x = x - 0xe6546b64;
          x = x * 0xcccccccd;
          x = fd_uint_rotate_right x 13;
          x = x - 0xe6546b64;
          x = x * 0xcccccccd;
          x = fd_uint_rotate_right x 13;
          x = x * 0x56ed309b;
          x = fd_uint_rotate_right x 15
      in x * 0xdee13bb1)"

section \<open>Every step of the mix is invertible\<close>

lemma rotate_right_left:
  assumes "0 < n" "n < 32"
  shows "fd_uint_rotate_right (fd_uint_rotate_left x n) n = x"
proof (rule bit_word_eqI)
  fix i assume i: "i < LENGTH(32)"
  show "bit (fd_uint_rotate_right (fd_uint_rotate_left x n) n) i = bit x i"
  proof (cases "n + i < 32")
    case True
    with i assms show ?thesis
      by (auto simp: fd_uint_rotate_left_def fd_uint_rotate_right_def bit_simps)
  next
    case False
    then have "32 + (i + n - 32) - n = i" using assms by arith
    with i assms False show ?thesis
      by (auto simp: fd_uint_rotate_left_def fd_uint_rotate_right_def bit_simps)
  qed
qed

lemma rotate_left_right:
  assumes "0 < n" "n < 32"
  shows "fd_uint_rotate_left (fd_uint_rotate_right x n) n = x"
proof (rule bit_word_eqI)
  fix i assume i: "i < LENGTH(32)"
  show "bit (fd_uint_rotate_left (fd_uint_rotate_right x n) n) i = bit x i"
  proof (cases "i < n")
    case True
    with i assms show ?thesis
      by (auto simp: fd_uint_rotate_left_def fd_uint_rotate_right_def bit_simps)
  next
    case False
    with i assms show ?thesis
      by (auto simp: fd_uint_rotate_left_def fd_uint_rotate_right_def bit_simps)
  qed
qed

lemma xorshift16_inverse:
  "(x XOR drop_bit 16 x) XOR drop_bit 16 (x XOR drop_bit 16 x) = (x :: u32)"
  by (rule bit_word_eqI) (auto simp: bit_simps)

lemma xorshift13_inverse:
  "(x XOR drop_bit 13 x) XOR
     (drop_bit 13 (x XOR drop_bit 13 x) XOR drop_bit 26 (x XOR drop_bit 13 x)) = (x :: u32)"
  "(x XOR (drop_bit 13 x XOR drop_bit 26 x)) XOR
     drop_bit 13 (x XOR (drop_bit 13 x XOR drop_bit 26 x)) = (x :: u32)"
  by (rule bit_word_eqI, auto simp: bit_simps)+

lemma mult_inverse: "a * b = 1 \<Longrightarrow> (x :: u32) * a * b = x"
  by (metis mult.assoc mult.right_neutral)

lemma mix_steps:
  "(x :: u32) * 0xcc9e2d51 * 0xdee13bb1 = x" "(x :: u32) * 0xdee13bb1 * 0xcc9e2d51 = x"
  "(x :: u32) * 0x1b873593 * 0x56ed309b = x" "(x :: u32) * 0x56ed309b * 0x1b873593 = x"
  "(x :: u32) * 5 * 0xcccccccd = x" "(x :: u32) * 0xcccccccd * 5 = x"
  "(x :: u32) * 0x85ebca6b * 0xa5cb9243 = x" "(x :: u32) * 0xa5cb9243 * 0x85ebca6b = x"
  "(x :: u32) * 0xc2b2ae35 * 0x7ed1b41d = x" "(x :: u32) * 0x7ed1b41d * 0xc2b2ae35 = x"
  "((x :: u32) XOR 8) XOR 8 = x"
  by (simp_all add: mult_inverse xor.assoc)

text \<open>
  \<open>fd_pchash_inverse\<close> is a two-sided inverse of \<open>fd_pchash\<close> on all 32 bit values, as the header
  documents.
\<close>
theorem pchash_roundtrip:
  "fd_pchash_inverse (fd_pchash x) = x \<and> fd_pchash (fd_pchash_inverse x) = x"
  unfolding fd_pchash_def fd_pchash_inverse_def Let_def
  by (simp only: mix_steps xorshift16_inverse xorshift13_inverse rotate_right_left rotate_left_right
      add_diff_cancel_right' diff_add_cancel zero_less_numeral numeral_less_iff
      less_num_simps)

lemma le_bytes_8_split:
  "le_bytes 8 (ucast pc :: u64) = le_bytes 4 (pc :: u32) @ [0, 0, 0, 0]"
proof -
  have z: "(ucast (drop_bit n (ucast pc :: u64)) :: u8) = 0" if "32 \<le> n" for n
    using that by (intro bit_word_eqI) (auto simp: bit_simps dest: bit_imp_le_length)
  have lo: "(ucast (drop_bit n (ucast pc :: u64)) :: u8) = ucast (drop_bit n pc)" for n
    by (intro bit_word_eqI) (auto simp: bit_simps dest: bit_imp_le_length)
  show ?thesis
    by (simp add: le_bytes_def upt_rec z lo)
qed

lemma le_load_le_bytes4: "le_load (le_bytes 4 (x :: u32)) = x"
  by (simp add: le_load_le_bytes take_bit_word_eq_self)

lemma fd_murmur3_32_two_words:
  "fd_murmur3_32 (le_bytes 4 (x :: u32) @ [0, 0, 0, 0]) seed =
     murmur3_final
       ((fd_uint_rotate_left
          (fd_uint_rotate_left (seed XOR murmur3_scramble x) 13 * 5 + 0xe6546b64) 13 * 5
            + 0xe6546b64) XOR 8)"
proof -
  obtain b0 b1 b2 b3 where b: "le_bytes 4 x = [b0, b1, b2, b3]"
    by (simp add: le_bytes_def upt_rec)
  have x: "le_load [b0, b1, b2, b3] = x"
    using le_load_le_bytes4 [of x] by (simp only: b)
  have z: "murmur3_scramble (le_load [0, 0, 0, 0]) = 0"
    by (simp add: murmur3_scramble_def fd_uint_rotate_left_def)
  have "murmur3_blocks seed (le_bytes 4 x @ [0, 0, 0, 0]) =
     (fd_uint_rotate_left
        ((fd_uint_rotate_left (seed XOR murmur3_scramble x) 13 * 5 + 0xe6546b64)) 13 * 5
          + 0xe6546b64, [])"
    unfolding b by (simp only: append_Cons append_Nil murmur3_blocks.simps x z xor.right_neutral)
  then show ?thesis
    by (simp add: fd_murmur3_32_def murmur3_tail_def)
qed

text \<open>
  C37: the unrolled \<open>fd_pchash\<close> agrees with the general \<open>fd_murmur3_32\<close> with seed zero on the eight
  little endian bytes of the program counter, as the header documents.
\<close>
theorem pchash_is_murmur3: "fd_pchash pc = fd_murmur3_32 (le_bytes 8 (ucast pc :: u64)) 0"
  unfolding le_bytes_8_split fd_murmur3_32_two_words
  by (simp add: fd_pchash_def murmur3_final_def murmur3_scramble_def Let_def)

end
