(* ===== verification/Vm_Interp.thy ===== *)
theory Vm_Interp
  imports Vm_Jump_Table Vm_Mem Fd_Murmur3 "HOL-Library.Monad_Syntax"
begin

text \<open>
  The interpreter loop of \<^verbatim>\<open>flamenco/vm/fd_vm_interp_core.c\<close> and its caller \<open>fd_vm_exec_notrace\<close> of
  \<^verbatim>\<open>fd_vm_interp.c\<close>.  The locals of the C function that never change are the environment, those that
  do are the state; one \<open>interp_exec\<close> is the execution of one instruction, from the macro
  \<open>FD_VM_INTERP_INSTR_EXEC\<close> to the next, and ends in the next state, in a halt with an error code, or
  stuck where the C code would do something undefined (a read outside the text, a trapping division,
  an access outside the register file, the shadow stack or the call destination set).  System calls are reached through
  a table of function pointers and are parameters of the model.
\<close>

section \<open>Error codes\<close>

abbreviation (input) FD_VM_ERR_EBPF_CALL_DEPTH_EXCEEDED :: int where
  "FD_VM_ERR_EBPF_CALL_DEPTH_EXCEEDED \<equiv> - 3"
abbreviation (input) FD_VM_ERR_EBPF_DIVIDE_BY_ZERO :: int where
  "FD_VM_ERR_EBPF_DIVIDE_BY_ZERO \<equiv> - 5"
abbreviation (input) FD_VM_ERR_EBPF_DIVIDE_OVERFLOW :: int where
  "FD_VM_ERR_EBPF_DIVIDE_OVERFLOW \<equiv> - 6"
abbreviation (input) FD_VM_ERR_EBPF_EXECUTION_OVERRUN :: int where
  "FD_VM_ERR_EBPF_EXECUTION_OVERRUN \<equiv> - 7"
abbreviation (input) FD_VM_ERR_EBPF_CALL_OUTSIDE_TEXT_SEGMENT :: int where
  "FD_VM_ERR_EBPF_CALL_OUTSIDE_TEXT_SEGMENT \<equiv> - 8"
abbreviation (input) FD_VM_ERR_EBPF_EXCEEDED_MAX_INSTRUCTIONS :: int where
  "FD_VM_ERR_EBPF_EXCEEDED_MAX_INSTRUCTIONS \<equiv> - 9"
abbreviation (input) FD_VM_ERR_EBPF_INVALID_INSTRUCTION :: int where
  "FD_VM_ERR_EBPF_INVALID_INSTRUCTION \<equiv> - 14"
abbreviation (input) FD_VM_ERR_EBPF_UNSUPPORTED_INSTRUCTION :: int where
  "FD_VM_ERR_EBPF_UNSUPPORTED_INSTRUCTION \<equiv> - 15"
abbreviation (input) FD_VM_ERR_EBPF_SYSCALL_ERROR :: int where
  "FD_VM_ERR_EBPF_SYSCALL_ERROR \<equiv> - 19"
abbreviation (input) FD_VM_SYSCALL_ERR_COMPUTE_BUDGET_EXCEEDED :: int where
  "FD_VM_SYSCALL_ERR_COMPUTE_BUDGET_EXCEEDED \<equiv> - 24"

section \<open>Environment, state, outcome\<close>

type_synonym syscall =
  "fd_vm \<Rightarrow> u64 \<Rightarrow> u64 \<Rightarrow> u64 \<Rightarrow> u64 \<Rightarrow> u64 \<Rightarrow> int \<times> u64 \<times> fd_vm"

record ienv =
  e_text :: "u64 list"
  e_text_cnt :: u64
  e_entry_pc :: u64
  e_calldests :: "bool list option"
  e_sbpf_version :: u64
  e_frame_max :: u64
  e_syscalls :: "u64 \<Rightarrow> syscall option"

record istate =
  i_vm :: fd_vm
  i_pc :: u64
  i_ic :: u64
  i_cu :: u64
  i_frame_cnt :: u64
  i_pc0 :: u64
  i_ic_correction :: u64
  i_block_text_limit :: u64

datatype undefined_behaviour =
  UB_text | UB_version | UB_division | UB_shadow | UB_calldests | UB_register

datatype outcome = Next istate | Halt int istate | Stuck undefined_behaviour

abbreviation i_reg :: "istate \<Rightarrow> u64 list" where
  "i_reg st \<equiv> vm_reg (i_vm st)"

definition reg_set :: "nat \<Rightarrow> u64 \<Rightarrow> istate \<Rightarrow> istate" where
  "reg_set i v st = st\<lparr>i_vm := (i_vm st)\<lparr>vm_reg := (i_reg st)[i := v]\<rparr>\<rparr>"

text \<open>
  Every access \<open>reg[i]\<close> of a handler goes through one of these: a read or a write past the end of
  the register file is an outcome.
\<close>

definition reg_read :: "u64 list \<Rightarrow> nat \<Rightarrow> u64 option" where
  "reg_read reg i = (if i < length reg then Some (reg ! i) else None)"

definition reg_get :: "nat \<Rightarrow> (u64 \<Rightarrow> istate \<Rightarrow> outcome) \<Rightarrow> istate \<Rightarrow> outcome" where
  "reg_get i k st =
     (case reg_read (i_reg st) i of None \<Rightarrow> Stuck UB_register | Some v \<Rightarrow> k v st)"

definition reg_put :: "nat \<Rightarrow> u64 \<Rightarrow> (istate \<Rightarrow> outcome) \<Rightarrow> istate \<Rightarrow> outcome" where
  "reg_put i v k st =
     (if i < length (i_reg st) then k (reg_set i v st) else Stuck UB_register)"

section \<open>Halting\<close>

text \<open>The label \<open>interp_halt\<close>: the unpacked execution state goes back into the machine.\<close>

definition interp_halt :: "int \<Rightarrow> istate \<Rightarrow> outcome" where
  [interp_defs]: "interp_halt err st =
     Halt err (st\<lparr>i_vm := (i_vm st)
       \<lparr> vm_pc := i_pc st, vm_ic := i_ic st, vm_cu := i_cu st, vm_frame_cnt := i_frame_cnt st \<rparr>\<rparr>)"

text \<open>\<open>FD_VM_INTERP_FAULT\<close>: bill the unbilled linear segment, the faulting instruction included.\<close>

definition interp_fault :: "int \<Rightarrow> istate \<Rightarrow> outcome" where
  [interp_defs]: "interp_fault err st =
     (let n = i_pc st - i_pc0 st + 1 - i_ic_correction st
      in interp_halt (if i_cu st < n then FD_VM_ERR_EBPF_EXCEEDED_MAX_INSTRUCTIONS else err)
           (st\<lparr> i_ic_correction := n, i_ic := i_ic st + n, i_cu := i_cu st - min n (i_cu st) \<rparr>))"

definition sigtext :: "istate \<Rightarrow> outcome" where
  [interp_defs]: "sigtext = interp_fault FD_VM_ERR_EBPF_EXECUTION_OVERRUN"

definition sigtextbr :: "istate \<Rightarrow> outcome" where
  [interp_defs]: "sigtextbr = interp_halt FD_VM_ERR_EBPF_CALL_OUTSIDE_TEXT_SEGMENT"

definition sigstack :: "istate \<Rightarrow> outcome" where
  [interp_defs]: "sigstack = interp_halt FD_VM_ERR_EBPF_CALL_DEPTH_EXCEEDED"

definition sigill :: "istate \<Rightarrow> outcome" where
  [interp_defs]: "sigill = interp_fault FD_VM_ERR_EBPF_UNSUPPORTED_INSTRUCTION"

definition sigillbr :: "istate \<Rightarrow> outcome" where
  [interp_defs]: "sigillbr = interp_halt FD_VM_ERR_EBPF_UNSUPPORTED_INSTRUCTION"

definition siginv :: "istate \<Rightarrow> outcome" where
  [interp_defs]: "siginv = interp_halt FD_VM_ERR_EBPF_INVALID_INSTRUCTION"

definition sigsegv :: "istate \<Rightarrow> outcome" where
  [interp_defs]: "sigsegv st =
     interp_fault
       (fd_vm_generate_access_violation (vm_segv_vaddr (i_vm st)) (vm_sbpf_version (i_vm st))) st"

definition sigcost :: "istate \<Rightarrow> outcome" where
  [interp_defs]: "sigcost st =
     interp_halt FD_VM_ERR_EBPF_EXCEEDED_MAX_INSTRUCTIONS (st\<lparr>i_cu := 0\<rparr>)"

definition sigsyscall :: "istate \<Rightarrow> outcome" where
  [interp_defs]: "sigsyscall = interp_halt FD_VM_ERR_EBPF_SYSCALL_ERROR"

definition sigfpe :: "istate \<Rightarrow> outcome" where
  [interp_defs]: "sigfpe = interp_fault FD_VM_ERR_EBPF_DIVIDE_BY_ZERO"

definition sigfpeof :: "istate \<Rightarrow> outcome" where
  [interp_defs]: "sigfpeof = interp_fault FD_VM_ERR_EBPF_DIVIDE_OVERFLOW"

definition sigexit :: "istate \<Rightarrow> outcome" where
  [interp_defs]: "sigexit = interp_halt 0"

definition sigtext_or_sigcost :: "ienv \<Rightarrow> istate \<Rightarrow> outcome" where
  [interp_defs]: "sigtext_or_sigcost env st =
     (if i_pc st < e_text_cnt env then sigcost st else sigtext st)"

section \<open>Instruction and branch brackets\<close>

definition instr_end :: "istate \<Rightarrow> outcome" where
  [interp_defs]: "instr_end st = Next (st\<lparr>i_pc := i_pc st + 1\<rparr>)"

definition block_text_limit :: "u64 \<Rightarrow> u64 \<Rightarrow> u64 \<Rightarrow> u64" where
  [interp_defs]: "block_text_limit text_cnt pc0 cu = min text_cnt (pc0 + cu + cu + 1)"

text \<open>
  \<open>FD_VM_INTERP_BRANCH_BEGIN\<close> bills the linear segment that ends at a branch and then lets the branch
  run; \<open>FD_VM_INTERP_BRANCH_END\<close> opens the next segment.
\<close>

definition branch_begin :: "(istate \<Rightarrow> outcome) \<Rightarrow> istate \<Rightarrow> outcome" where
  [interp_defs]: "branch_begin body st =
     (let n = i_pc st - i_pc0 st + 1 - i_ic_correction st;
          st = st\<lparr> i_ic_correction := n, i_ic := i_ic st + n \<rparr>
      in if i_cu st < n then sigcost st
         else body (st\<lparr> i_cu := i_cu st - n, i_ic_correction := 0 \<rparr>))"

definition branch_end :: "ienv \<Rightarrow> istate \<Rightarrow> outcome" where
  [interp_defs]: "branch_end env st =
     Next (st\<lparr> i_pc := i_pc st + 1, i_pc0 := i_pc st + 1,
              i_block_text_limit := block_text_limit (e_text_cnt env) (i_pc st + 1) (i_cu st) \<rparr>)"

definition shadow_frame :: "u64 list \<Rightarrow> u64 \<Rightarrow> fd_vm_shadow option" where
  "shadow_frame reg pc =
     do { r6 \<leftarrow> reg_read reg 6; r7 \<leftarrow> reg_read reg 7; r8 \<leftarrow> reg_read reg 8;
          r9 \<leftarrow> reg_read reg 9; r10 \<leftarrow> reg_read reg 10;
          Some \<lparr> sh_r6 = r6, sh_r7 = r7, sh_r8 = r8, sh_r9 = r9, sh_r10 = r10, sh_pc = pc \<rparr> }"

definition stack_push :: "ienv \<Rightarrow> (istate \<Rightarrow> outcome) \<Rightarrow> istate \<Rightarrow> outcome" where
  [interp_defs]: "stack_push env body st =
     (let vm = i_vm st; f = unat (i_frame_cnt st) in
      if length (vm_shadow vm) \<le> f then Stuck UB_shadow
      else case shadow_frame (vm_reg vm) (i_pc st) of
             None \<Rightarrow> Stuck UB_register
           | Some frame \<Rightarrow>
               (let st = st\<lparr> i_vm := vm\<lparr> vm_shadow := (vm_shadow vm)[f := frame] \<rparr>,
                             i_frame_cnt := i_frame_cnt st + 1 \<rparr>
                in if e_frame_max env \<le> i_frame_cnt st then sigstack st
                   else reg_get 10 (\<lambda>r10. reg_put 10
                          (r10 + vm_stack_frame_sz vm * vm_stack_push_frame_count vm) body) st))"

section \<open>Memory handlers\<close>

definition segv_at :: "u64 \<Rightarrow> u8 \<Rightarrow> u64 \<Rightarrow> fd_vm \<Rightarrow> fd_vm" where
  [interp_defs]: "segv_at vaddr access len vm = vm
     \<lparr> vm_segv_vaddr := vaddr, vm_segv_access_type := access, vm_segv_access_len := len \<rparr>"

definition mem_store :: "nat \<Rightarrow> u64 \<Rightarrow> u8 list \<Rightarrow> istate \<Rightarrow> outcome" where
  "mem_store sz vaddr bytes st =
     (let vm = i_vm st;
          (haddr, vm) = fd_vm_mem_haddr vm vaddr (of_nat sz) (vm_region_haddr vm)
                          (vm_region_st_sz vm) True 0
      in if haddr = 0
         then sigsegv (st\<lparr>i_vm := segv_at vaddr 2 (of_nat sz) vm\<rparr>)
         else instr_end (st\<lparr>i_vm := vm\<lparr>vm_mem := mem_st (vm_mem vm) haddr bytes\<rparr>\<rparr>))"

definition mem_load :: "nat \<Rightarrow> u64 \<Rightarrow> nat \<Rightarrow> istate \<Rightarrow> outcome" where
  "mem_load sz vaddr dst st =
     (let vm = i_vm st;
          (haddr, vm) = fd_vm_mem_haddr vm vaddr (of_nat sz) (vm_region_haddr vm)
                          (vm_region_ld_sz vm) False 0
      in if haddr = 0
         then sigsegv (st\<lparr>i_vm := segv_at vaddr 1 (of_nat sz) vm\<rparr>)
         else reg_put dst (mem_ld sz (vm_mem vm) haddr) instr_end (st\<lparr>i_vm := vm\<rparr>))"

text \<open>The decoded instruction the handlers read: the registers are prefetched.\<close>

record decoded =
  d_dst :: nat
  d_src :: nat
  d_offset :: u64
  d_imm :: u32
  d_reg_dst :: u64
  d_reg_src :: u64

definition decode :: "u64 \<Rightarrow> u64 list \<Rightarrow> decoded option" where
  "decode instr reg =
     (let dst = unat (fd_vm_instr_dst instr); src = unat (fd_vm_instr_src instr)
      in do { reg_dst \<leftarrow> reg_read reg dst; reg_src \<leftarrow> reg_read reg src;
              Some \<lparr> d_dst = dst, d_src = src, d_offset = fd_vm_instr_offset instr,
                     d_imm = fd_vm_instr_imm instr, d_reg_dst = reg_dst, d_reg_src = reg_src \<rparr> })"

definition interp_0x27 :: "decoded \<Rightarrow> istate \<Rightarrow> outcome" where
  [interp_defs]: "interp_0x27 i = mem_store 1 (d_reg_dst i + d_offset i) (le_bytes 1 (d_imm i))"

definition interp_0x2c :: "decoded \<Rightarrow> istate \<Rightarrow> outcome" where
  [interp_defs]: "interp_0x2c i = mem_load 1 (d_reg_src i + d_offset i) (d_dst i)"

definition interp_0x2f :: "decoded \<Rightarrow> istate \<Rightarrow> outcome" where
  [interp_defs]: "interp_0x2f i = mem_store 1 (d_reg_dst i + d_offset i) (le_bytes 1 (d_reg_src i))"

definition interp_0x37 :: "decoded \<Rightarrow> istate \<Rightarrow> outcome" where
  [interp_defs]: "interp_0x37 i = mem_store 2 (d_reg_dst i + d_offset i) (le_bytes 2 (d_imm i))"

definition interp_0x3c :: "decoded \<Rightarrow> istate \<Rightarrow> outcome" where
  [interp_defs]: "interp_0x3c i = mem_load 2 (d_reg_src i + d_offset i) (d_dst i)"

definition interp_0x3f :: "decoded \<Rightarrow> istate \<Rightarrow> outcome" where
  [interp_defs]: "interp_0x3f i = mem_store 2 (d_reg_dst i + d_offset i) (le_bytes 2 (d_reg_src i))"

definition interp_0x87 :: "decoded \<Rightarrow> istate \<Rightarrow> outcome" where
  [interp_defs]: "interp_0x87 i = mem_store 4 (d_reg_dst i + d_offset i) (le_bytes 4 (d_imm i))"

definition interp_0x8c :: "decoded \<Rightarrow> istate \<Rightarrow> outcome" where
  [interp_defs]: "interp_0x8c i = mem_load 4 (d_reg_src i + d_offset i) (d_dst i)"

definition interp_0x8f :: "decoded \<Rightarrow> istate \<Rightarrow> outcome" where
  [interp_defs]: "interp_0x8f i = mem_store 4 (d_reg_dst i + d_offset i) (le_bytes 4 (d_reg_src i))"

definition interp_0x97 :: "decoded \<Rightarrow> istate \<Rightarrow> outcome" where
  [interp_defs]: "interp_0x97 i =
     mem_store 8 (d_reg_dst i + d_offset i) (le_bytes 8 (sx (d_imm i)))"

definition interp_0x9c :: "decoded \<Rightarrow> istate \<Rightarrow> outcome" where
  [interp_defs]: "interp_0x9c i = mem_load 8 (d_reg_src i + d_offset i) (d_dst i)"

definition interp_0x9f :: "decoded \<Rightarrow> istate \<Rightarrow> outcome" where
  [interp_defs]: "interp_0x9f i = mem_store 8 (d_reg_dst i + d_offset i) (le_bytes 8 (d_reg_src i))"

primrec mem_exec :: "mem_label \<Rightarrow> decoded \<Rightarrow> istate \<Rightarrow> outcome" where
  "mem_exec M_0x27 = interp_0x27"
| "mem_exec M_0x2c = interp_0x2c"
| "mem_exec M_0x2f = interp_0x2f"
| "mem_exec M_0x37 = interp_0x37"
| "mem_exec M_0x3c = interp_0x3c"
| "mem_exec M_0x3f = interp_0x3f"
| "mem_exec M_0x87 = interp_0x87"
| "mem_exec M_0x8c = interp_0x8c"
| "mem_exec M_0x8f = interp_0x8f"
| "mem_exec M_0x97 = interp_0x97"
| "mem_exec M_0x9c = interp_0x9c"
| "mem_exec M_0x9f = interp_0x9f"

section \<open>Load quad, calls and exit\<close>

text \<open>\<open>pc\<close> moves to the additional immediate and \<open>text[ pc ]\<close> is read without a bounds check.\<close>

definition interp_0x18 :: "ienv \<Rightarrow> decoded \<Rightarrow> istate \<Rightarrow> outcome" where
  [interp_defs]: "interp_0x18 env i st =
     (let pc = i_pc st + 1;
          st = st\<lparr> i_pc := pc, i_ic_correction := i_ic_correction st + 1 \<rparr>
      in if length (e_text env) \<le> unat pc then Stuck UB_text
         else reg_put (d_dst i)
                (ucast (d_imm i) OR push_bit 32 (ucast (fd_vm_instr_imm (e_text env ! unat pc))))
                instr_end st)"

definition fd_sbpf_syscalls_key_null :: u64 where
  "fd_sbpf_syscalls_key_null = - 1"

definition syscall_query :: "ienv \<Rightarrow> u32 \<Rightarrow> syscall option" where
  "syscall_query env imm =
     (if (ucast imm :: u64) \<noteq> fd_sbpf_syscalls_key_null then e_syscalls env (ucast imm) else None)"

text \<open>
  \<open>FD_VM_INTERP_SYSCALL_EXEC\<close>: the system call gets the machine with the execution state packed, may
  change it arbitrarily, but cannot change \<open>pc\<close>, \<open>ic\<close> or the frame count of the interpreter and
  cannot raise the compute budget.
\<close>

definition syscall_call :: "syscall \<Rightarrow> fd_vm \<Rightarrow> (int \<times> u64 \<times> fd_vm) option" where
  "syscall_call func vm =
     (let reg = vm_reg vm
      in do { r1 \<leftarrow> reg_read reg 1; r2 \<leftarrow> reg_read reg 2; r3 \<leftarrow> reg_read reg 3;
              r4 \<leftarrow> reg_read reg 4; r5 \<leftarrow> reg_read reg 5;
              Some (func vm r1 r2 r3 r4 r5) })"

definition syscall_exec :: "syscall \<Rightarrow> (istate \<Rightarrow> outcome) \<Rightarrow> istate \<Rightarrow> outcome" where
  [interp_defs]: "syscall_exec func body st =
     (let vm = (i_vm st)\<lparr> vm_pc := i_pc st, vm_ic := i_ic st, vm_cu := i_cu st,
                          vm_frame_cnt := i_frame_cnt st \<rparr>
      in case syscall_call func vm of
           None \<Rightarrow> Stuck UB_register
         | Some (err, ret, vm) \<Rightarrow>
             reg_put 0 ret
               (\<lambda>st. let st = st\<lparr> i_cu := min (vm_cu (i_vm st)) (i_cu st) \<rparr>
                     in if err \<noteq> 0
                        then sigsyscall
                               (if err = FD_VM_SYSCALL_ERR_COMPUTE_BUDGET_EXCEEDED
                                then st\<lparr>i_cu := 0\<rparr> else st)
                        else body st)
               (st\<lparr> i_vm := vm \<rparr>))"

text \<open>A call to a program counter: the branch increment of \<open>FD_VM_INTERP_BRANCH_END\<close> is undone first.\<close>

definition call_to :: "ienv \<Rightarrow> u64 \<Rightarrow> istate \<Rightarrow> outcome" where
  [interp_defs]: "call_to env target_pc =
     stack_push env (\<lambda>st. branch_end env (st\<lparr> i_pc := target_pc - 1 \<rparr>))"

text \<open>\<open>None\<close> is a read through a null pointer or past the end of the set.\<close>

definition fd_sbpf_calldests_test :: "bool list option \<Rightarrow> u64 \<Rightarrow> bool option" where
  "fd_sbpf_calldests_test calldests pc =
     (case calldests of
        None \<Rightarrow> None
      | Some dests \<Rightarrow> if unat pc < length dests then Some (dests ! unat pc) else None)"

definition interp_0x85 :: "ienv \<Rightarrow> decoded \<Rightarrow> istate \<Rightarrow> outcome" where
  [interp_defs]: "interp_0x85 env i =
     branch_begin
       (\<lambda>st. case syscall_query env (d_imm i) of
          Some func \<Rightarrow> syscall_exec func (branch_end env) st
        | None \<Rightarrow>
            if d_imm i = 0x71e3cf81 then call_to env (e_entry_pc env) st
            else (let target_pc = ucast (fd_pchash_inverse (d_imm i)) :: u64 in
                  if e_text_cnt env \<le> target_pc then sigillbr st
                  else (case fd_sbpf_calldests_test (e_calldests env) target_pc of
                          None \<Rightarrow> Stuck UB_calldests
                        | Some present \<Rightarrow>
                            if \<not> present then sigillbr st else call_to env target_pc st)))"

definition interp_0x85_static :: "ienv \<Rightarrow> decoded \<Rightarrow> istate \<Rightarrow> outcome" where
  [interp_defs]: "interp_0x85_static env i =
     branch_begin
       (\<lambda>st. if d_src i = 0 then
                (case syscall_query env (d_imm i) of
                   None \<Rightarrow> sigillbr st
                 | Some func \<Rightarrow> syscall_exec func (branch_end env) st)
              else if d_src i = 1 then
                (let target_pc_l = fd_long_sat_add (i_pc st) (fd_long_sat_add (sx (d_imm i)) 1) in
                 if sint target_pc_l < 0 \<or> e_text_cnt env \<le> target_pc_l then sigillbr st
                 else call_to env target_pc_l st)
              else sigillbr st)"

text \<open>The frame is pushed before the target is checked; versions 3 and later read \<open>reg[dst]\<close> after it.\<close>

definition callx_jump :: "ienv \<Rightarrow> decoded \<Rightarrow> istate \<Rightarrow> outcome" where
  [interp_defs]: "callx_jump env i =
     (let v = e_sbpf_version env;
          jump = (\<lambda>vaddr st.
            let region = drop_bit 32 vaddr;
                target_pc = ((vaddr AND FD_VM_OFFSET_MASK) - vm_text_off (i_vm st)) div 8
            in if region \<noteq> 1 \<or> e_text_cnt env \<le> target_pc then sigtextbr st
               else branch_end env (st\<lparr> i_pc := target_pc - 1 \<rparr>))
      in if callx_uses_src_reg v then jump (d_reg_src i)
         else if callx_uses_dst_reg v then reg_get (d_dst i) jump
         else reg_get (unat (d_imm i AND 15)) jump)"

definition interp_0x8d :: "ienv \<Rightarrow> decoded \<Rightarrow> istate \<Rightarrow> outcome" where
  [interp_defs]: "interp_0x8d env i = branch_begin (stack_push env (callx_jump env i))"

definition interp_0x95 :: "ienv \<Rightarrow> istate \<Rightarrow> outcome" where
  [interp_defs]: "interp_0x95 env =
     branch_begin
       (\<lambda>st. if i_frame_cnt st = 0 then sigexit st
              else (let f = i_frame_cnt st - 1; sh = vm_shadow (i_vm st) in
                    if length sh \<le> unat f then Stuck UB_shadow
                    else (let s = sh ! unat f;
                              st = st\<lparr> i_frame_cnt := f \<rparr>
                          in reg_put 6 (sh_r6 s) (reg_put 7 (sh_r7 s) (reg_put 8 (sh_r8 s)
                               (reg_put 9 (sh_r9 s) (reg_put 10 (sh_r10 s)
                                 (\<lambda>st. branch_end env (st\<lparr> i_pc := sh_pc s \<rparr>)))))) st)))"

section \<open>One instruction\<close>

definition alu_exec :: "(u64 \<Rightarrow> u64 \<Rightarrow> u32 \<Rightarrow> op_result) \<Rightarrow> decoded \<Rightarrow> istate \<Rightarrow> outcome" where
  [interp_defs]: "alu_exec f i st =
     (case f (d_reg_dst i) (d_reg_src i) (d_imm i) of
        Op_val v \<Rightarrow> reg_put (d_dst i) v instr_end st
      | Op_sigfpe \<Rightarrow> sigfpe st
      | Op_sigfpeof \<Rightarrow> sigfpeof st
      | Op_siginv \<Rightarrow> siginv st
      | Op_host \<Rightarrow> Stuck UB_division)"

definition jmp_exec ::
    "ienv \<Rightarrow> (u64 \<Rightarrow> u64 \<Rightarrow> u32 \<Rightarrow> bool) \<Rightarrow> decoded \<Rightarrow> istate \<Rightarrow> outcome" where
  [interp_defs]: "jmp_exec env f i =
     branch_begin
       (\<lambda>st. branch_end env
          (st\<lparr> i_pc := i_pc st
               + (if f (d_reg_dst i) (d_reg_src i) (d_imm i) then d_offset i else 0) \<rparr>))"

primrec label_exec :: "ienv \<Rightarrow> label \<Rightarrow> decoded \<Rightarrow> istate \<Rightarrow> outcome" where
  "label_exec env L_sigill i = sigill"
| "label_exec env (L_alu f) i = alu_exec f i"
| "label_exec env (L_jmp f) i = jmp_exec env f i"
| "label_exec env L_ldq i = interp_0x18 env i"
| "label_exec env (L_mem m) i = mem_exec m i"
| "label_exec env L_call_imm i = interp_0x85 env i"
| "label_exec env L_call_static i = interp_0x85_static env i"
| "label_exec env L_call_reg i = interp_0x8d env i"
| "label_exec env L_exit i = interp_0x95 env"

definition interp_exec :: "ienv \<Rightarrow> istate \<Rightarrow> outcome" where
  "interp_exec env st =
     (if i_block_text_limit st \<le> i_pc st then sigtext_or_sigcost env st
      else if FD_SBPF_VERSION_COUNT \<le> e_sbpf_version env then Stuck UB_version
      else if length (e_text env) \<le> unat (i_pc st) then Stuck UB_text
      else (let instr = e_text env ! unat (i_pc st);
                lab = interp_jump_table (e_sbpf_version env) ! unat (fd_vm_instr_opcode instr)
            in case decode instr (i_reg st) of
                 None \<Rightarrow> Stuck UB_register
               | Some i \<Rightarrow> label_exec env lab i st))"

section \<open>The run\<close>

text \<open>
  The loop with fuel: \<open>None\<close> when the fuel runs out before the machine halts.  Execution is shown to
  need at most \<open>exec_fuel\<close> steps.
\<close>

fun interp_run :: "nat \<Rightarrow> ienv \<Rightarrow> istate \<Rightarrow> outcome option" where
  "interp_run 0 env st = None"
| "interp_run (Suc n) env st =
     (case interp_exec env st of
        Next st' \<Rightarrow> interp_run n env st'
      | res \<Rightarrow> Some res)"

text \<open>\<open>fd_vm_exec_notrace\<close>: the locals pulled out of the machine, and the state the core starts from.\<close>

definition exec_env :: "(u64 \<Rightarrow> syscall option) \<Rightarrow> fd_vm \<Rightarrow> ienv" where
  "exec_env syscalls vm =
     \<lparr> e_text = vm_text vm, e_text_cnt = vm_text_cnt vm, e_entry_pc = vm_entry_pc vm,
       e_calldests = vm_calldests vm, e_sbpf_version = vm_sbpf_version vm,
       e_frame_max = FD_VM_STACK_FRAME_MAX, e_syscalls = syscalls \<rparr>"

definition exec_start :: "fd_vm \<Rightarrow> istate" where
  "exec_start vm =
     \<lparr> i_vm = vm, i_pc = vm_pc vm, i_ic = vm_ic vm, i_cu = vm_cu vm,
       i_frame_cnt = vm_frame_cnt vm, i_pc0 = vm_pc vm, i_ic_correction = 0,
       i_block_text_limit = block_text_limit (vm_text_cnt vm) (vm_pc vm) (vm_cu vm) \<rparr>"

definition fd_vm_exec_notrace ::
    "nat \<Rightarrow> (u64 \<Rightarrow> syscall option) \<Rightarrow> fd_vm \<Rightarrow> outcome option" where
  "fd_vm_exec_notrace fuel syscalls vm =
     interp_run fuel (exec_env syscalls vm) (exec_start vm)"

section \<open>Accesses inside the register file\<close>

lemma reg_read_in [simp]: "i < length reg \<Longrightarrow> reg_read reg i = Some (reg ! i)"
  by (simp add: reg_read_def)

lemma reg_get_in [simp]: "i < length (i_reg st) \<Longrightarrow> reg_get i k st = k (i_reg st ! i) st"
  by (simp add: reg_get_def)

lemma reg_put_in [simp]: "i < length (i_reg st) \<Longrightarrow> reg_put i v k st = k (reg_set i v st)"
  by (simp add: reg_put_def)

lemma shadow_frame_in:
  "10 < length reg \<Longrightarrow> shadow_frame reg pc =
     Some \<lparr> sh_r6 = reg ! 6, sh_r7 = reg ! 7, sh_r8 = reg ! 8, sh_r9 = reg ! 9, sh_r10 = reg ! 10,
            sh_pc = pc \<rparr>"
  by (simp add: shadow_frame_def)

lemma syscall_call_in:
  "5 < length (vm_reg vm) \<Longrightarrow> syscall_call f vm = Some (f vm (vm_reg vm ! 1) (vm_reg vm ! 2)
     (vm_reg vm ! 3) (vm_reg vm ! 4) (vm_reg vm ! 5))"
  by (simp add: syscall_call_def Let_def)

text \<open>A register number has four bits, so decoding reads inside a file of sixteen.\<close>

lemma decode_in:
  assumes "length reg = 16"
  obtains i where "decode instr reg = Some i" "d_dst i < 16" "d_src i < 16"
    "d_imm i = fd_vm_instr_imm instr"
  using assms unat_dst_lt[of instr] unat_src_lt[of instr] by (auto simp: decode_def Let_def)

end
