(* ===== verification/Vm_Validate.thy ===== *)
theory Vm_Validate
  imports Vm_State
begin

text \<open>
  The bytecode validator \<open>fd_vm_validate\<close> of \<^verbatim>\<open>flamenco/vm/fd_vm.c\<close>: a table from opcodes to the
  check an instruction needs, built for the sBPF version at hand, and the loop that runs the check of
  every instruction of the text.
\<close>

section \<open>Error codes\<close>

abbreviation (input) FD_VM_SUCCESS :: int where "FD_VM_SUCCESS \<equiv> 0"
abbreviation (input) FD_VM_ERR_EMPTY :: int where "FD_VM_ERR_EMPTY \<equiv> - 6"
abbreviation (input) FD_VM_ERR_SIGFPE :: int where "FD_VM_ERR_SIGFPE \<equiv> - 18"
abbreviation (input) FD_VM_ERR_INVALID_OPCODE :: int where "FD_VM_ERR_INVALID_OPCODE \<equiv> - 25"
abbreviation (input) FD_VM_ERR_INVALID_SRC_REG :: int where "FD_VM_ERR_INVALID_SRC_REG \<equiv> - 26"
abbreviation (input) FD_VM_ERR_INVALID_DST_REG :: int where "FD_VM_ERR_INVALID_DST_REG \<equiv> - 27"
abbreviation (input) FD_VM_ERR_JMP_OUT_OF_BOUNDS :: int where "FD_VM_ERR_JMP_OUT_OF_BOUNDS \<equiv> - 29"
abbreviation (input) FD_VM_ERR_JMP_TO_ADDL_IMM :: int where "FD_VM_ERR_JMP_TO_ADDL_IMM \<equiv> - 30"
abbreviation (input) FD_VM_ERR_INVALID_END_IMM :: int where "FD_VM_ERR_INVALID_END_IMM \<equiv> - 31"
abbreviation (input) FD_VM_ERR_INCOMPLETE_LDQ :: int where "FD_VM_ERR_INCOMPLETE_LDQ \<equiv> - 32"
abbreviation (input) FD_VM_ERR_LDQ_NO_ADDL_IMM :: int where "FD_VM_ERR_LDQ_NO_ADDL_IMM \<equiv> - 33"
abbreviation (input) FD_VM_ERR_INVALID_REG :: int where "FD_VM_ERR_INVALID_REG \<equiv> - 35"
abbreviation (input) FD_VM_ERR_BAD_TEXT :: int where "FD_VM_ERR_BAD_TEXT \<equiv> - 36"
abbreviation (input) FD_VM_SH_OVERFLOW :: int where "FD_VM_SH_OVERFLOW \<equiv> - 37"
abbreviation (input) FD_VM_TEXT_SZ_UNALIGNED :: int where "FD_VM_TEXT_SZ_UNALIGNED \<equiv> - 38"

abbreviation (input) FD_SBPF_OP_ADDL_IMM :: u8 where "FD_SBPF_OP_ADDL_IMM \<equiv> 0"

section \<open>The validation map\<close>

datatype validation_code =
  FD_VALID | FD_CHECK_JMP | FD_CHECK_END | FD_CHECK_ST | FD_CHECK_LDQ | FD_CHECK_DIV
| FD_CHECK_SH32 | FD_CHECK_SH64 | FD_INVALID
| FD_CHECK_CALL_REG_SRC | FD_CHECK_CALL_REG_DST | FD_CHECK_CALL_REG_IMM

definition validation_map_base :: "validation_code list" where
  "validation_map_base =
     [
      FD_INVALID, FD_INVALID, FD_INVALID, FD_INVALID,
      FD_VALID, FD_CHECK_JMP, FD_INVALID, FD_VALID,
      FD_INVALID, FD_INVALID, FD_INVALID, FD_INVALID,
      FD_VALID, FD_INVALID, FD_INVALID, FD_VALID,
      FD_INVALID, FD_INVALID, FD_INVALID, FD_INVALID,
      FD_VALID, FD_CHECK_JMP, FD_INVALID, FD_VALID,
      FD_INVALID, FD_INVALID, FD_INVALID, FD_INVALID,
      FD_VALID, FD_CHECK_JMP, FD_INVALID, FD_VALID,
      FD_INVALID, FD_INVALID, FD_INVALID, FD_INVALID,
      FD_INVALID, FD_CHECK_JMP, FD_INVALID, FD_CHECK_ST,
      FD_INVALID, FD_INVALID, FD_INVALID, FD_INVALID,
      FD_VALID, FD_CHECK_JMP, FD_INVALID, FD_CHECK_ST,
      FD_INVALID, FD_INVALID, FD_INVALID, FD_INVALID,
      FD_INVALID, FD_CHECK_JMP, FD_VALID, FD_CHECK_ST,
      FD_INVALID, FD_INVALID, FD_INVALID, FD_INVALID,
      FD_VALID, FD_CHECK_JMP, FD_VALID, FD_CHECK_ST,
      FD_INVALID, FD_INVALID, FD_INVALID, FD_INVALID,
      FD_VALID, FD_CHECK_JMP, FD_CHECK_DIV, FD_VALID,
      FD_INVALID, FD_INVALID, FD_INVALID, FD_INVALID,
      FD_VALID, FD_CHECK_JMP, FD_VALID, FD_VALID,
      FD_INVALID, FD_INVALID, FD_INVALID, FD_INVALID,
      FD_VALID, FD_CHECK_JMP, FD_CHECK_DIV, FD_VALID,
      FD_INVALID, FD_INVALID, FD_INVALID, FD_INVALID,
      FD_VALID, FD_CHECK_JMP, FD_VALID, FD_VALID,
      FD_INVALID, FD_INVALID, FD_INVALID, FD_INVALID,
      FD_CHECK_SH32, FD_CHECK_JMP, FD_CHECK_DIV, FD_CHECK_SH64,
      FD_INVALID, FD_INVALID, FD_INVALID, FD_INVALID,
      FD_VALID, FD_CHECK_JMP, FD_VALID, FD_VALID,
      FD_INVALID, FD_INVALID, FD_INVALID, FD_INVALID,
      FD_CHECK_SH32, FD_CHECK_JMP, FD_CHECK_DIV, FD_CHECK_SH64,
      FD_INVALID, FD_INVALID, FD_INVALID, FD_INVALID,
      FD_VALID, FD_CHECK_JMP, FD_VALID, FD_VALID,
      FD_INVALID, FD_INVALID, FD_INVALID, FD_INVALID,
      FD_INVALID, FD_VALID, FD_VALID, FD_CHECK_ST,
      FD_INVALID, FD_INVALID, FD_INVALID, FD_INVALID,
      FD_VALID, FD_CHECK_CALL_REG_SRC, FD_VALID, FD_CHECK_ST,
      FD_INVALID, FD_INVALID, FD_INVALID, FD_INVALID,
      FD_INVALID, FD_VALID, FD_VALID, FD_CHECK_ST,
      FD_INVALID, FD_INVALID, FD_INVALID, FD_INVALID,
      FD_VALID, FD_INVALID, FD_VALID, FD_CHECK_ST,
      FD_INVALID, FD_INVALID, FD_INVALID, FD_INVALID,
      FD_VALID, FD_CHECK_JMP, FD_INVALID, FD_VALID,
      FD_INVALID, FD_INVALID, FD_INVALID, FD_INVALID,
      FD_VALID, FD_CHECK_JMP, FD_INVALID, FD_VALID,
      FD_INVALID, FD_INVALID, FD_INVALID, FD_INVALID,
      FD_VALID, FD_CHECK_JMP, FD_VALID, FD_VALID,
      FD_INVALID, FD_INVALID, FD_INVALID, FD_INVALID,
      FD_VALID, FD_CHECK_JMP, FD_VALID, FD_VALID,
      FD_INVALID, FD_INVALID, FD_INVALID, FD_INVALID,
      FD_CHECK_SH32, FD_CHECK_JMP, FD_CHECK_DIV, FD_CHECK_SH64,
      FD_INVALID, FD_INVALID, FD_INVALID, FD_INVALID,
      FD_VALID, FD_CHECK_JMP, FD_VALID, FD_VALID,
      FD_INVALID, FD_INVALID, FD_INVALID, FD_INVALID,
      FD_INVALID, FD_CHECK_JMP, FD_CHECK_DIV, FD_INVALID,
      FD_INVALID, FD_INVALID, FD_INVALID, FD_INVALID,
      FD_CHECK_END, FD_CHECK_JMP, FD_VALID, FD_INVALID,
      FD_INVALID, FD_INVALID, FD_INVALID, FD_INVALID,
      FD_INVALID, FD_INVALID, FD_CHECK_DIV, FD_INVALID,
      FD_INVALID, FD_INVALID, FD_INVALID, FD_INVALID,
      FD_INVALID, FD_INVALID, FD_VALID, FD_INVALID,
      FD_INVALID, FD_INVALID, FD_INVALID, FD_INVALID,
      FD_INVALID, FD_INVALID, FD_CHECK_DIV, FD_VALID,
      FD_INVALID, FD_INVALID, FD_INVALID, FD_INVALID,
      FD_INVALID, FD_INVALID, FD_VALID, FD_INVALID]"

definition validation_map_features :: "u64 \<Rightarrow> (nat \<times> validation_code) list" where
  "validation_map_features v =
     [
      (0x18, if \<not> disable_lddw v then FD_CHECK_LDQ else FD_INVALID),
      (0xf7, if disable_lddw v then FD_VALID else FD_INVALID),
      (0xd4, if \<not> disable_le v then FD_CHECK_END else FD_INVALID),
      (0x61, if move_memory_ix_classes v then FD_INVALID else FD_VALID),
      (0x62, if move_memory_ix_classes v then FD_INVALID else FD_CHECK_ST),
      (0x63, if move_memory_ix_classes v then FD_INVALID else FD_CHECK_ST),
      (0x8c, if move_memory_ix_classes v then FD_VALID else FD_INVALID),
      (0x87, if move_memory_ix_classes v then FD_CHECK_ST else FD_VALID),
      (0x8f, if move_memory_ix_classes v then FD_CHECK_ST else FD_INVALID),
      (0x69, if move_memory_ix_classes v then FD_INVALID else FD_VALID),
      (0x6a, if move_memory_ix_classes v then FD_INVALID else FD_CHECK_ST),
      (0x6b, if move_memory_ix_classes v then FD_INVALID else FD_CHECK_ST),
      (0x3c, if move_memory_ix_classes v then FD_VALID else FD_VALID),
      (0x37, if move_memory_ix_classes v then FD_CHECK_ST else FD_CHECK_DIV),
      (0x3f, if move_memory_ix_classes v then FD_CHECK_ST else FD_VALID),
      (0x71, if move_memory_ix_classes v then FD_INVALID else FD_VALID),
      (0x72, if move_memory_ix_classes v then FD_INVALID else FD_CHECK_ST),
      (0x73, if move_memory_ix_classes v then FD_INVALID else FD_CHECK_ST),
      (0x2c, if move_memory_ix_classes v then FD_VALID else FD_VALID),
      (0x27, if move_memory_ix_classes v then FD_CHECK_ST else FD_VALID),
      (0x2f, if move_memory_ix_classes v then FD_CHECK_ST else FD_VALID),
      (0x79, if move_memory_ix_classes v then FD_INVALID else FD_VALID),
      (0x7a, if move_memory_ix_classes v then FD_INVALID else FD_CHECK_ST),
      (0x7b, if move_memory_ix_classes v then FD_INVALID else FD_CHECK_ST),
      (0x9c, if move_memory_ix_classes v then FD_VALID else FD_VALID),
      (0x97, if move_memory_ix_classes v then FD_CHECK_ST else FD_CHECK_DIV),
      (0x9f, if move_memory_ix_classes v then FD_CHECK_ST else FD_VALID),
      (0x8d, if callx_uses_src_reg v then FD_CHECK_CALL_REG_SRC else if callx_uses_dst_reg v then FD_CHECK_CALL_REG_DST else FD_CHECK_CALL_REG_IMM),
      (0x24, if enable_pqr v then FD_INVALID else FD_VALID),
      (0x34, if enable_pqr v then FD_INVALID else FD_CHECK_DIV),
      (0x94, if enable_pqr v then FD_INVALID else FD_CHECK_DIV),
      (0x84, if \<not> disable_neg v then FD_VALID else FD_INVALID),
      (0x36, if enable_pqr v then FD_VALID else FD_INVALID),
      (0x3e, if enable_pqr v then FD_VALID else FD_INVALID),
      (0x46, if enable_pqr v then FD_CHECK_DIV else FD_INVALID),
      (0x4e, if enable_pqr v then FD_VALID else FD_INVALID),
      (0x56, if enable_pqr v then FD_CHECK_DIV else FD_INVALID),
      (0x5e, if enable_pqr v then FD_VALID else FD_INVALID),
      (0x66, if enable_pqr v then FD_CHECK_DIV else FD_INVALID),
      (0x6e, if enable_pqr v then FD_VALID else FD_INVALID),
      (0x76, if enable_pqr v then FD_CHECK_DIV else FD_INVALID),
      (0x7e, if enable_pqr v then FD_VALID else FD_INVALID),
      (0x86, if enable_pqr v then FD_VALID else FD_INVALID),
      (0x8e, if enable_pqr v then FD_VALID else FD_INVALID),
      (0x96, if enable_pqr v then FD_VALID else FD_INVALID),
      (0x9e, if enable_pqr v then FD_VALID else FD_INVALID),
      (0xb6, if enable_pqr v then FD_VALID else FD_INVALID),
      (0xbe, if enable_pqr v then FD_VALID else FD_INVALID),
      (0xc6, if enable_pqr v then FD_CHECK_DIV else FD_INVALID),
      (0xce, if enable_pqr v then FD_VALID else FD_INVALID),
      (0xd6, if enable_pqr v then FD_CHECK_DIV else FD_INVALID),
      (0xde, if enable_pqr v then FD_VALID else FD_INVALID),
      (0xe6, if enable_pqr v then FD_CHECK_DIV else FD_INVALID),
      (0xee, if enable_pqr v then FD_VALID else FD_INVALID),
      (0xf6, if enable_pqr v then FD_CHECK_DIV else FD_INVALID),
      (0xfe, if enable_pqr v then FD_VALID else FD_INVALID)]"

definition validation_map_jmp32 :: "u64 \<Rightarrow> (nat \<times> validation_code) list" where
  "validation_map_jmp32 v =
     (if enable_jmp32 v then
       [
        (0x16, FD_CHECK_JMP), (0x1e, FD_CHECK_JMP), (0x26, FD_CHECK_JMP),
        (0x2e, FD_CHECK_JMP), (0x36, FD_CHECK_JMP), (0x3e, FD_CHECK_JMP),
        (0x46, FD_CHECK_JMP), (0x4e, FD_CHECK_JMP), (0x56, FD_CHECK_JMP),
        (0x5e, FD_CHECK_JMP), (0x66, FD_CHECK_JMP), (0x6e, FD_CHECK_JMP),
        (0x76, FD_CHECK_JMP), (0x7e, FD_CHECK_JMP), (0xa6, FD_CHECK_JMP),
        (0xae, FD_CHECK_JMP), (0xb6, FD_CHECK_JMP), (0xbe, FD_CHECK_JMP),
        (0xc6, FD_CHECK_JMP), (0xce, FD_CHECK_JMP), (0xd6, FD_CHECK_JMP),
        (0xde, FD_CHECK_JMP)]
      else [])"

definition validation_map :: "u64 \<Rightarrow> validation_code list" where
  "validation_map v =
     override_table (validation_map_jmp32 v)
       (override_table (validation_map_features v) validation_map_base)"

section \<open>Checks of one instruction\<close>

text \<open>
  The switch on the validation code of the instruction at \<open>i\<close>: an error, or the number of extra text
  words the instruction occupies (a load-quad skips its additional immediate).  Register numbers of
  the packed struct are compared as in the source.
\<close>

definition check_jmp :: "fd_vm \<Rightarrow> nat \<Rightarrow> fd_sbpf_instr_t \<Rightarrow> int + nat" where
  "check_jmp vm i instr =
     (let jmp_dst = (of_nat i :: u64) + scast (sbpf_offset instr) + 1
      in if sint jmp_dst < 0 \<or> sint (vm_text_cnt vm) \<le> sint jmp_dst
         then Inl FD_VM_ERR_JMP_OUT_OF_BOUNDS
         else if opcode_raw (fd_sbpf_instr (vm_text vm ! unat jmp_dst)) = FD_SBPF_OP_ADDL_IMM
         then Inl FD_VM_ERR_JMP_TO_ADDL_IMM
         else Inr 0)"

definition check_ldq :: "fd_vm \<Rightarrow> nat \<Rightarrow> int + nat" where
  "check_ldq vm i =
     (if unat (vm_text_cnt vm) \<le> i + 1 then Inl FD_VM_ERR_INCOMPLETE_LDQ
      else if opcode_raw (fd_sbpf_instr (vm_text vm ! (i + 1))) \<noteq> FD_SBPF_OP_ADDL_IMM
      then Inl FD_VM_ERR_LDQ_NO_ADDL_IMM
      else Inr 1)"

definition check_code :: "validation_code \<Rightarrow> fd_vm \<Rightarrow> nat \<Rightarrow> fd_sbpf_instr_t \<Rightarrow> int + nat" where
  "check_code code vm i instr =
     (let require = (\<lambda>b e. if b then Inr 0 else Inl e) in
      case code of
        FD_VALID \<Rightarrow> Inr 0
      | FD_CHECK_ST \<Rightarrow> Inr 0
      | FD_CHECK_JMP \<Rightarrow> check_jmp vm i instr
      | FD_CHECK_END \<Rightarrow>
          require (sbpf_imm instr = 16 \<or> sbpf_imm instr = 32 \<or> sbpf_imm instr = 64)
            FD_VM_ERR_INVALID_END_IMM
      | FD_CHECK_LDQ \<Rightarrow> check_ldq vm i
      | FD_CHECK_DIV \<Rightarrow> require (sbpf_imm instr \<noteq> 0) FD_VM_ERR_SIGFPE
      | FD_CHECK_SH32 \<Rightarrow> require (sbpf_imm instr < 32) FD_VM_SH_OVERFLOW
      | FD_CHECK_SH64 \<Rightarrow> require (sbpf_imm instr < 64) FD_VM_SH_OVERFLOW
      | FD_CHECK_CALL_REG_SRC \<Rightarrow> require (src_reg instr \<le> 9) FD_VM_ERR_INVALID_REG
      | FD_CHECK_CALL_REG_IMM \<Rightarrow> require (sbpf_imm instr \<le> 9) FD_VM_ERR_INVALID_REG
      | FD_CHECK_CALL_REG_DST \<Rightarrow> require (dst_reg instr \<le> 9) FD_VM_ERR_INVALID_REG
      | FD_INVALID \<Rightarrow> Inl FD_VM_ERR_INVALID_OPCODE)"

definition check_regs :: "u64 \<Rightarrow> validation_code \<Rightarrow> fd_sbpf_instr_t \<Rightarrow> int option" where
  "check_regs v code instr =
     (if 10 < src_reg instr then Some FD_VM_ERR_INVALID_SRC_REG
      else if dst_reg instr = 10 \<and> manual_stack_frame_bump v \<and> opcode_raw instr = 0x07
              \<and> sbpf_imm instr mod 64 = 0
      then None
      else if dst_reg instr = 10 \<and> code \<noteq> FD_CHECK_ST then Some FD_VM_ERR_INVALID_DST_REG
      else if 10 < dst_reg instr then Some FD_VM_ERR_INVALID_DST_REG
      else None)"

definition validate_instr :: "fd_vm \<Rightarrow> nat \<Rightarrow> int + nat" where
  "validate_instr vm i =
     (let instr = fd_sbpf_instr (vm_text vm ! i);
          code = validation_map (vm_sbpf_version vm) ! unat (opcode_raw instr)
      in case check_code code vm i instr of
           Inl e \<Rightarrow> Inl e
         | Inr extra \<Rightarrow>
             (case check_regs (vm_sbpf_version vm) code instr of
                Some e \<Rightarrow> Inl e
              | None \<Rightarrow> Inr extra))"

section \<open>The loop\<close>

function validate_from :: "fd_vm \<Rightarrow> nat \<Rightarrow> int" where
  "validate_from vm i =
     (if i < unat (vm_text_cnt vm) then
        (case validate_instr vm i of
           Inl e \<Rightarrow> e
         | Inr extra \<Rightarrow> validate_from vm (i + extra + 1))
      else FD_VM_SUCCESS)"
  by pat_completeness auto
termination
  by (relation "measure (\<lambda>(vm, i). unat (vm_text_cnt vm) - i)") auto

declare validate_from.simps [simp del]

text \<open>The checks on the text section before the loop; pointers are compared as addresses.\<close>

definition bad_text :: "fd_vm \<Rightarrow> bool" where
  "bad_text vm \<longleftrightarrow>
     vm_text_sz vm div 8 \<noteq> vm_text_cnt vm
     \<or> vm_text_addr vm < vm_rodata vm
     \<or> vm_text_addr vm + vm_text_sz vm < vm_text_addr vm
     \<or> vm_rodata vm + vm_rodata_sz vm
         + (if enable_stricter_elf_headers (vm_sbpf_version vm) then vm_text_sz vm else 0)
       < vm_text_addr vm + vm_text_sz vm"

definition fd_vm_validate :: "fd_vm \<Rightarrow> int" where
  "fd_vm_validate vm =
     (if bad_text vm then FD_VM_ERR_BAD_TEXT
      else if vm_text_sz vm AND 7 \<noteq> 0 then FD_VM_TEXT_SZ_UNALIGNED
      else if vm_text_cnt vm = 0 then FD_VM_ERR_EMPTY
      else validate_from vm 0)"

end
