(* ===== verification/Vm_Agree.thy ===== *)
theory Vm_Agree
  imports Vm_Interp Vm_Validate
begin

text \<open>
  The interpreter's jump table and the validator's table are written separately, each with its own
  list of version dependent entries.  This theory shows that they agree on every opcode of every
  version: the same opcodes are unsupported, and the check of each supported one is exactly what its
  handler needs to be free of host traps.
\<close>

section \<open>What a handler needs of its immediate\<close>

fun imm_ok :: "validation_code \<Rightarrow> u32 \<Rightarrow> bool" where
  "imm_ok FD_CHECK_DIV imm = (imm \<noteq> 0)"
| "imm_ok FD_CHECK_SH32 imm = (imm < 32)"
| "imm_ok FD_CHECK_SH64 imm = (imm < 64)"
| "imm_ok FD_CHECK_END imm = (imm = 16 \<or> imm = 32 \<or> imm = 64)"
| "imm_ok _ imm = True"

definition alu_ok :: "(u64 \<Rightarrow> u64 \<Rightarrow> u32 \<Rightarrow> op_result) \<Rightarrow> validation_code \<Rightarrow> bool" where
  "alu_ok f c \<longleftrightarrow>
     (\<forall>d s imm. imm_ok c imm \<longrightarrow> f d s imm \<noteq> Op_host \<and> f d s imm \<noteq> Op_siginv)"

fun label_fits ::
    "((u64 \<Rightarrow> u64 \<Rightarrow> u32 \<Rightarrow> op_result) \<Rightarrow> validation_code \<Rightarrow> bool) \<Rightarrow> u64 \<Rightarrow> label
       \<Rightarrow> validation_code \<Rightarrow> bool" where
  "label_fits R v L_sigill c = (c = FD_INVALID)"
| "label_fits R v (L_alu f) c =
     (R f c \<and> c \<in> {FD_VALID, FD_CHECK_DIV, FD_CHECK_SH32, FD_CHECK_SH64, FD_CHECK_END})"
| "label_fits R v (L_jmp f) c = (c = FD_CHECK_JMP)"
| "label_fits R v L_ldq c = (c = FD_CHECK_LDQ)"
| "label_fits R v (L_mem m) c =
     (c = (if m \<in> {M_0x2c, M_0x3c, M_0x8c, M_0x9c} then FD_VALID else FD_CHECK_ST))"
| "label_fits R v L_call_imm c = (c = FD_VALID \<and> \<not> static_syscalls v)"
| "label_fits R v L_call_static c = (c = FD_VALID \<and> static_syscalls v)"
| "label_fits R v L_call_reg c =
     (c = (if callx_uses_src_reg v then FD_CHECK_CALL_REG_SRC
           else if callx_uses_dst_reg v then FD_CHECK_CALL_REG_DST
           else FD_CHECK_CALL_REG_IMM))"
| "label_fits R v L_exit c = (c = FD_VALID)"

text \<open>The arithmetic entries of a pair of tables, with the check each gets.\<close>

fun alu_entries ::
    "label list \<Rightarrow> validation_code list
       \<Rightarrow> ((u64 \<Rightarrow> u64 \<Rightarrow> u32 \<Rightarrow> op_result) \<times> validation_code) list" where
  "alu_entries (L_alu f # ls) (c # cs) = (f, c) # alu_entries ls cs"
| "alu_entries (_ # ls) (_ # cs) = alu_entries ls cs"
| "alu_entries _ _ = []"

section \<open>Every handler is safe under its check\<close>

lemmas div_defs = c_udiv_def c_umod_def c_sdiv_def c_smod_def sdiv_undefined_def

lemma sint_int_min: "sint (x :: u32) = - 2147483648 \<longleftrightarrow> x = int_min"
  by (auto simp: int_min_def intro: signed_word_eqI)

lemma sint_long_min: "sint (x :: u64) = - 9223372036854775808 \<longleftrightarrow> x = long_min"
  by (auto simp: long_min_def intro: signed_word_eqI)

lemma scast_eq_0_iff: "(scast (x :: u32) :: u64) = 0 \<longleftrightarrow> x = 0"
proof
  assume "(scast x :: u64) = 0"
  hence "sint (scast x :: u64) = 0" by simp
  thus "x = 0" by (simp add: sint_up_scast is_up signed_word_eqI)
qed simp

lemma ucast_eq_0_iff: "(ucast (x :: u32) :: u64) = 0 \<longleftrightarrow> x = 0"
  using unat_lt32[of x] by (auto simp: word_unat_eq_iff unsigned_ucast_eq take_bit_nat_eq_self)

lemmas min_iffs = sint_int_min sint_long_min scast_eq_0_iff ucast_eq_0_iff

lemma alu_ok_plain:
  "alu_ok interp_0x04 c" "alu_ok interp_0x04depr c" "alu_ok interp_0x07 c" "alu_ok interp_0x0c c"
  "alu_ok interp_0x0cdepr c" "alu_ok interp_0x0f c" "alu_ok interp_0x14 c"
  "alu_ok interp_0x14depr c" "alu_ok interp_0x17 c" "alu_ok interp_0x17depr c"
  "alu_ok interp_0x1c c" "alu_ok interp_0x1cdepr c" "alu_ok interp_0x1f c" "alu_ok interp_0x24 c"
  "alu_ok interp_0x27depr c" "alu_ok interp_0x2cdepr c" "alu_ok interp_0x2fdepr c"
  "alu_ok interp_0x36 c" "alu_ok interp_0x3e c" "alu_ok interp_0x44 c" "alu_ok interp_0x47 c"
  "alu_ok interp_0x4c c" "alu_ok interp_0x4f c" "alu_ok interp_0x54 c" "alu_ok interp_0x57 c"
  "alu_ok interp_0x5c c" "alu_ok interp_0x5f c" "alu_ok interp_0x64 c" "alu_ok interp_0x67 c"
  "alu_ok interp_0x6c c" "alu_ok interp_0x6f c" "alu_ok interp_0x74 c" "alu_ok interp_0x77 c"
  "alu_ok interp_0x7c c" "alu_ok interp_0x7f c" "alu_ok interp_0x84 c" "alu_ok interp_0x86 c"
  "alu_ok interp_0x87depr c" "alu_ok interp_0x8e c" "alu_ok interp_0x96 c" "alu_ok interp_0x9e c"
  "alu_ok interp_0xa4 c" "alu_ok interp_0xa7 c" "alu_ok interp_0xac c" "alu_ok interp_0xaf c"
  "alu_ok interp_0xb4 c" "alu_ok interp_0xb6 c" "alu_ok interp_0xb7 c" "alu_ok interp_0xbc c"
  "alu_ok interp_0xbcdepr c" "alu_ok interp_0xbe c" "alu_ok interp_0xbf c" "alu_ok interp_0xc4 c"
  "alu_ok interp_0xc7 c" "alu_ok interp_0xcc c" "alu_ok interp_0xcf c" "alu_ok interp_0xf7 c"
  by (simp_all add: alu_ok_def op_defs)

lemma alu_ok_div_reg:
  "alu_ok interp_0x3cdepr c" "alu_ok interp_0x3fdepr c" "alu_ok interp_0x4e c"
  "alu_ok interp_0x5e c" "alu_ok interp_0x6e c" "alu_ok interp_0x7e c" "alu_ok interp_0x9cdepr c"
  "alu_ok interp_0x9fdepr c" "alu_ok interp_0xce c" "alu_ok interp_0xde c" "alu_ok interp_0xee c"
  "alu_ok interp_0xfe c"
  by (auto simp: alu_ok_def op_defs div_defs min_iffs)

lemma alu_ok_div_imm:
  "alu_ok interp_0x34 FD_CHECK_DIV" "alu_ok interp_0x37depr FD_CHECK_DIV"
  "alu_ok interp_0x46 FD_CHECK_DIV" "alu_ok interp_0x56 FD_CHECK_DIV"
  "alu_ok interp_0x66 FD_CHECK_DIV" "alu_ok interp_0x76 FD_CHECK_DIV"
  "alu_ok interp_0x94 FD_CHECK_DIV" "alu_ok interp_0x97depr FD_CHECK_DIV"
  "alu_ok interp_0xc6 FD_CHECK_DIV" "alu_ok interp_0xd6 FD_CHECK_DIV"
  "alu_ok interp_0xe6 FD_CHECK_DIV" "alu_ok interp_0xf6 FD_CHECK_DIV"
  by (auto simp: alu_ok_def op_defs div_defs min_iffs)

lemma alu_ok_end:
  "alu_ok interp_0xd4 FD_CHECK_END" "alu_ok interp_0xdc FD_CHECK_END"
  by (auto simp: alu_ok_def op_defs)

lemmas alu_ok_rules = alu_ok_plain alu_ok_div_reg alu_ok_div_imm alu_ok_end

section \<open>The tables agree\<close>

lemma tables_fit:
  "list_all2 (label_fits (\<lambda>f c. True) 0) (interp_jump_table 0) (validation_map 0)"
  "list_all2 (label_fits (\<lambda>f c. True) 1) (interp_jump_table 1) (validation_map 1)"
  "list_all2 (label_fits (\<lambda>f c. True) 2) (interp_jump_table 2) (validation_map 2)"
  "list_all2 (label_fits (\<lambda>f c. True) 3) (interp_jump_table 3) (validation_map 3)"
  "list_all2 (label_fits (\<lambda>f c. True) 4) (interp_jump_table 4) (validation_map 4)"
  by code_simp+

text \<open>
  The predicate is kept opaque while the tables are evaluated and unfolded on the literal list of
  entries only.
\<close>

lemma alu_entries_ok:
  "list_all (\<lambda>(f, c). alu_ok f c) (alu_entries (interp_jump_table 0) (validation_map 0))"
  "list_all (\<lambda>(f, c). alu_ok f c) (alu_entries (interp_jump_table 1) (validation_map 1))"
  "list_all (\<lambda>(f, c). alu_ok f c) (alu_entries (interp_jump_table 2) (validation_map 2))"
  "list_all (\<lambda>(f, c). alu_ok f c) (alu_entries (interp_jump_table 3) (validation_map 3))"
  "list_all (\<lambda>(f, c). alu_ok f c) (alu_entries (interp_jump_table 4) (validation_map 4))"
proof -
  define R where "R = (\<lambda>(f, c). alu_ok f c)"
  note R_rules = R_def prod.case alu_ok_rules simp_thms list.pred_inject ball_simps
  show
    "list_all (\<lambda>(f, c). alu_ok f c) (alu_entries (interp_jump_table 0) (validation_map 0))"
    "list_all (\<lambda>(f, c). alu_ok f c) (alu_entries (interp_jump_table 1) (validation_map 1))"
    "list_all (\<lambda>(f, c). alu_ok f c) (alu_entries (interp_jump_table 2) (validation_map 2))"
    "list_all (\<lambda>(f, c). alu_ok f c) (alu_entries (interp_jump_table 3) (validation_map 3))"
    "list_all (\<lambda>(f, c). alu_ok f c) (alu_entries (interp_jump_table 4) (validation_map 4))"
    by (fold R_def) (code_simp, simp only: R_rules)+
qed

lemma label_fits_alu_entries:
  assumes "list_all2 (label_fits (\<lambda>f c. True) v) ls cs" and "list_all (\<lambda>(f, c). alu_ok f c) (alu_entries ls cs)"
  shows "list_all2 (label_fits alu_ok v) ls cs"
  using assms
proof (induction ls cs rule: list_all2_induct)
  case (Cons l ls c cs)
  thus ?case by (cases l) auto
qed simp

lemma version_cases:
  assumes "v < FD_SBPF_VERSION_COUNT"
  shows "v \<in> {0, 1, 2, 3, 4}"
proof -
  have "unat v < 5" using assms by (simp add: FD_SBPF_VERSION_COUNT_def word_less_nat_alt)
  hence "unat v \<in> {0, 1, 2, 3, 4}" by auto
  thus ?thesis by (auto simp: word_unat_eq_iff)
qed

lemma tables_agree_all:
  assumes "v < FD_SBPF_VERSION_COUNT"
  shows "list_all2 (label_fits alu_ok v) (interp_jump_table v) (validation_map v)"
  using version_cases[OF assms] label_fits_alu_entries[OF tables_fit(1) alu_entries_ok(1)]
    label_fits_alu_entries[OF tables_fit(2) alu_entries_ok(2)]
    label_fits_alu_entries[OF tables_fit(3) alu_entries_ok(3)]
    label_fits_alu_entries[OF tables_fit(4) alu_entries_ok(4)]
    label_fits_alu_entries[OF tables_fit(5) alu_entries_ok(5)]
  by blast

lemma length_tables [simp]:
  "length (interp_jump_table v) = 256" "length (validation_map v) = 256"
  by (simp_all add: interp_jump_table_def validation_map_def V0_BASE_def validation_map_base_def)

lemma tables_agree:
  assumes "v < FD_SBPF_VERSION_COUNT" and "op < 256"
  shows "label_fits alu_ok v (interp_jump_table v ! op) (validation_map v ! op)"
  using list_all2_nthD[OF tables_agree_all[OF assms(1)]] assms(2) by simp

end
