(* ===== verification/Vm_Safe.thy ===== *)
theory Vm_Safe
  imports Vm_Agree
begin

text \<open>
  Execution of validated bytecode: the interpreter invariant, that every instruction keeps it and that
  no instruction of a validated text does anything the host leaves undefined.
\<close>

section \<open>What validation establishes\<close>

definition opcode_at :: "u64 list \<Rightarrow> nat \<Rightarrow> nat" where
  "opcode_at text i = unat (fd_vm_instr_opcode (text ! i))"

lemma opcode_at_lt [simp]: "opcode_at text i < 256"
  by (simp add: opcode_at_def unat_opcode_lt)

lemma validate_instr_nonzero: "validate_instr vm i = Inl e \<Longrightarrow> e \<noteq> 0"
  by (auto simp: validate_instr_def check_code_def check_jmp_def check_ldq_def check_regs_def Let_def
        split: validation_code.splits if_splits)

lemma validate_instr_extra:
  "validate_instr vm i = Inr extra \<Longrightarrow>
     extra = 0
     \<or> extra = 1 \<and> i + 1 < unat (vm_text_cnt vm) \<and> opcode_raw (fd_sbpf_instr (vm_text vm ! (i + 1))) = 0"
  by (auto simp: validate_instr_def check_code_def check_jmp_def check_ldq_def check_regs_def Let_def
        split: validation_code.splits if_splits)

lemma validate_from_covers:
  assumes "validate_from vm i = 0" "i \<le> j" "j < unat (vm_text_cnt vm)"
  shows "(\<exists>extra. validate_instr vm j = Inr extra)
         \<or> opcode_raw (fd_sbpf_instr (vm_text vm ! j)) = 0"
  using assms
proof (induction vm i rule: validate_from.induct)
  case (1 vm i)
  from 1(2-4) obtain extra where extra: "validate_instr vm i = Inr extra"
      and rest: "validate_from vm (i + extra + 1) = 0"
    by (subst (asm) validate_from.simps)
       (auto split: sum.splits dest: validate_instr_nonzero)
  have ih: "i + extra + 1 \<le> j \<Longrightarrow> ?case"
    using 1(1)[OF _ extra] rest 1(3,4) by simp
  consider "j = i" | "j = i + 1" "extra = 1" | "i + extra + 1 \<le> j"
    using validate_instr_extra[OF extra] 1(3) by force
  thus ?case
    using validate_instr_extra[OF extra] extra ih by cases auto
qed

text \<open>What the interpreter relies on at a text word, by the label it dispatches to.\<close>

definition label_at :: "ienv \<Rightarrow> nat \<Rightarrow> label" where
  "label_at env i = interp_jump_table (e_sbpf_version env) ! opcode_at (e_text env) i"

definition word_ok :: "ienv \<Rightarrow> nat \<Rightarrow> bool" where
  "word_ok env i \<longleftrightarrow>
     (case label_at env i of
        L_alu f \<Rightarrow> \<forall>d s. f d s (fd_vm_instr_imm (e_text env ! i)) \<noteq> Op_host
                        \<and> f d s (fd_vm_instr_imm (e_text env ! i)) \<noteq> Op_siginv
      | L_ldq \<Rightarrow> i + 1 < length (e_text env)
      | L_call_imm \<Rightarrow> \<not> static_syscalls (e_sbpf_version env)
      | _ \<Rightarrow> True)"

definition program_ok :: "ienv \<Rightarrow> bool" where
  "program_ok env \<longleftrightarrow>
     e_sbpf_version env < FD_SBPF_VERSION_COUNT
     \<and> unat (e_text_cnt env) = length (e_text env)
     \<and> (\<forall>i < length (e_text env). word_ok env i)
     \<and> (\<not> static_syscalls (e_sbpf_version env) \<longrightarrow>
          (\<exists>dests. e_calldests env = Some dests \<and> length (e_text env) \<le> length dests))"

lemma check_code_imm_ok: "check_code c vm i instr = Inr extra \<Longrightarrow> imm_ok c (sbpf_imm instr)"
  by (cases c) (auto simp: check_code_def Let_def split: if_splits)

lemma opcode_zero_label:
  assumes "v < FD_SBPF_VERSION_COUNT"
  shows "interp_jump_table v ! 0 = L_sigill"
  using version_cases[OF assms]
  by (auto simp: interp_jump_table_def nth_override_table VERSION_OVERRIDES_def V0_BASE_def)

lemma word_ok_validated:
  assumes v: "vm_sbpf_version vm < FD_SBPF_VERSION_COUNT"
    and cnt: "unat (vm_text_cnt vm) = length (vm_text vm)"
    and ok: "validate_from vm 0 = 0" and i: "i < length (vm_text vm)"
  shows "word_ok (exec_env syscalls vm) i"
proof -
  let ?w = "vm_text vm ! i" and ?v = "vm_sbpf_version vm"
  let ?c = "validation_map ?v ! opcode_at (vm_text vm) i"
  have op: "opcode_at (vm_text vm) i = unat (opcode_raw (fd_sbpf_instr ?w))"
    by (simp add: opcode_at_def unat_opcode_raw)
  have fit: "label_fits alu_ok ?v (label_at (exec_env syscalls vm) i) ?c"
    using tables_agree[OF v opcode_at_lt] by (simp add: label_at_def exec_env_def)
  from validate_from_covers[OF ok] i cnt consider
      extra where "validate_instr vm i = Inr extra" | "opcode_at (vm_text vm) i = 0"
    unfolding op by fastforce
  thus ?thesis
  proof cases
    case 1
    hence chk: "check_code ?c vm i (fd_sbpf_instr ?w) = Inr extra"
      by (auto simp: validate_instr_def op Let_def split: sum.splits option.splits)
    have ldq: "?c = FD_CHECK_LDQ \<Longrightarrow> i + 1 < length (vm_text vm)"
      using chk cnt by (auto simp: check_code_def check_ldq_def Let_def split: if_splits)
    show ?thesis
      using fit check_code_imm_ok[OF chk] ldq
      by (cases "label_at (exec_env syscalls vm) i")
         (auto simp: word_ok_def exec_env_def alu_ok_def sbpf_imm_eq)
  next
    case 2
    thus ?thesis using opcode_zero_label[OF v]
      by (simp add: word_ok_def label_at_def exec_env_def)
  qed
qed

lemma program_ok_validated:
  assumes "fd_vm_validate vm = 0" and "vm_sbpf_version vm < FD_SBPF_VERSION_COUNT"
    and "unat (vm_text_cnt vm) = length (vm_text vm)"
    and "\<not> static_syscalls (vm_sbpf_version vm) \<longrightarrow>
           (\<exists>dests. vm_calldests vm = Some dests \<and> length (vm_text vm) \<le> length dests)"
  shows "program_ok (exec_env syscalls vm)"
proof -
  have "validate_from vm 0 = 0"
    using assms(1) by (auto simp: fd_vm_validate_def split: if_splits)
  thus ?thesis
    using assms word_ok_validated[OF assms(2,3)] by (auto simp: program_ok_def exec_env_def)
qed

section \<open>The invariant\<close>

definition syscalls_ok :: "ienv \<Rightarrow> bool" where
  "syscalls_ok env \<longleftrightarrow>
     (\<forall>k f vm r1 r2 r3 r4 r5 err ret vm'.
        e_syscalls env k = Some f \<longrightarrow> f vm r1 r2 r3 r4 r5 = (err, ret, vm') \<longrightarrow>
        length (vm_shadow vm') = length (vm_shadow vm) \<and> length (vm_reg vm') = length (vm_reg vm))"

definition istate_ok :: "ienv \<Rightarrow> istate \<Rightarrow> bool" where
  "istate_ok env st \<longleftrightarrow>
     i_block_text_limit st \<le> e_text_cnt env
     \<and> unat (i_pc0 st) + 2 * unat (i_ic_correction st) \<le> unat (i_pc st)
     \<and> unat (i_frame_cnt st) < unat (e_frame_max env)
     \<and> unat (e_frame_max env) \<le> length (vm_shadow (i_vm st))
     \<and> length (i_reg st) = FD_VM_REG_MAX"

text \<open>
  The two kinds of progress: along a linear segment nothing is billed and \<open>pc\<close> moves by the words of
  the instruction; a branch bills the segment and opens another.
\<close>

definition same_shape :: "istate \<Rightarrow> istate \<Rightarrow> bool" where
  "same_shape st st' \<longleftrightarrow>
     length (vm_shadow (i_vm st')) = length (vm_shadow (i_vm st))
     \<and> length (i_reg st') = length (i_reg st)"

definition linear_step :: "istate \<Rightarrow> istate \<Rightarrow> bool" where
  "linear_step st st' \<longleftrightarrow>
     i_cu st' = i_cu st \<and> i_ic st' = i_ic st \<and> i_pc0 st' = i_pc0 st
     \<and> i_block_text_limit st' = i_block_text_limit st \<and> i_frame_cnt st' = i_frame_cnt st
     \<and> (i_pc st' = i_pc st + 1 \<and> i_ic_correction st' = i_ic_correction st
        \<or> unat (i_pc st') = unat (i_pc st) + 2 \<and> i_ic_correction st' = i_ic_correction st + 1)"

definition segment_cost :: "istate \<Rightarrow> u64" where
  "segment_cost st = i_pc st - i_pc0 st + 1 - i_ic_correction st"

definition branch_step :: "ienv \<Rightarrow> istate \<Rightarrow> istate \<Rightarrow> bool" where
  "branch_step env st st' \<longleftrightarrow>
     segment_cost st \<le> i_cu st \<and> i_cu st' \<le> i_cu st - segment_cost st
     \<and> i_ic st' = i_ic st + segment_cost st
     \<and> i_pc0 st' = i_pc st' \<and> i_ic_correction st' = 0
     \<and> i_block_text_limit st' = block_text_limit (e_text_cnt env) (i_pc st') (i_cu st')
     \<and> i_frame_cnt st' < e_frame_max env"

definition linear_progress :: "istate \<Rightarrow> istate \<Rightarrow> bool" where
  "linear_progress st st' \<longleftrightarrow> same_shape st st' \<and> linear_step st st'"

definition branch_progress :: "ienv \<Rightarrow> istate \<Rightarrow> istate \<Rightarrow> bool" where
  "branch_progress env st st' \<longleftrightarrow> same_shape st st' \<and> branch_step env st st'"

definition progress :: "ienv \<Rightarrow> istate \<Rightarrow> istate \<Rightarrow> bool" where
  "progress env st st' \<longleftrightarrow> linear_progress st st' \<or> branch_progress env st st'"

primrec is_linear :: "label \<Rightarrow> bool" where
  "is_linear L_sigill = True"
| "is_linear (L_alu f) = True"
| "is_linear (L_jmp f) = False"
| "is_linear L_ldq = True"
| "is_linear (L_mem m) = True"
| "is_linear L_call_imm = False"
| "is_linear L_call_static = False"
| "is_linear L_call_reg = False"
| "is_linear L_exit = False"

section \<open>Outcomes that are not stuck\<close>

primrec wp :: "(istate \<Rightarrow> bool) \<Rightarrow> outcome \<Rightarrow> bool" where
  "wp P (Next st) = P st"
| "wp P (Halt err st) = True"
| "wp P (Stuck ub) = False"

lemma wp_halt [simp]: "wp P (interp_halt err st)" "wp P (interp_fault err st)"
  by (simp_all add: interp_halt_def interp_fault_def Let_def)

lemma wp_sig [simp]:
  "wp P (sigtext st)" "wp P (sigtextbr st)" "wp P (sigstack st)" "wp P (sigill st)"
  "wp P (sigillbr st)" "wp P (siginv st)" "wp P (sigsegv st)" "wp P (sigcost st)"
  "wp P (sigsyscall st)" "wp P (sigfpe st)" "wp P (sigfpeof st)" "wp P (sigexit st)"
  "wp P (sigtext_or_sigcost env st)"
  by (simp_all add: sigtext_def sigtextbr_def sigstack_def sigill_def sigillbr_def siginv_def
        sigsegv_def sigcost_def sigsyscall_def sigfpe_def sigfpeof_def sigexit_def
        sigtext_or_sigcost_def)

lemma wp_instr_end [simp]: "wp P (instr_end st) = P (st\<lparr>i_pc := i_pc st + 1\<rparr>)"
  by (simp add: instr_end_def)

lemma reg_set_simps [simp]:
  "length (i_reg (reg_set i v st)) = length (i_reg st)"
  "vm_shadow (i_vm (reg_set i v st)) = vm_shadow (i_vm st)"
  "i_pc (reg_set i v st) = i_pc st" "i_ic (reg_set i v st) = i_ic st"
  "i_cu (reg_set i v st) = i_cu st" "i_frame_cnt (reg_set i v st) = i_frame_cnt st"
  "i_pc0 (reg_set i v st) = i_pc0 st" "i_ic_correction (reg_set i v st) = i_ic_correction st"
  "i_block_text_limit (reg_set i v st) = i_block_text_limit st"
  by (simp_all add: reg_set_def)

lemma progress_instr_end:
  assumes "same_shape st st'"
    and "i_cu st' = i_cu st" "i_ic st' = i_ic st" "i_pc0 st' = i_pc0 st" "i_pc st' = i_pc st + 1"
      "i_ic_correction st' = i_ic_correction st" "i_block_text_limit st' = i_block_text_limit st"
      "i_frame_cnt st' = i_frame_cnt st"
  shows "linear_progress st st'"
  using assms by (simp add: linear_progress_def linear_step_def)

lemma wp_mem_store: "wp (linear_progress st) (mem_store sz va bs st)"
  by (auto simp: mem_store_def Let_def same_shape_def mem_haddr_frame
        split: prod.splits intro!: progress_instr_end)

lemma wp_mem_load: "dst < length (i_reg st) \<Longrightarrow> wp (linear_progress st) (mem_load sz va dst st)"
  by (auto simp: mem_load_def Let_def same_shape_def mem_haddr_frame
        split: prod.splits intro!: progress_instr_end)

lemma wp_mem_exec: "d_dst i < length (i_reg st) \<Longrightarrow> wp (linear_progress st) (mem_exec m i st)"
  by (cases m)
     (simp_all add: interp_0x27_def interp_0x2c_def interp_0x2f_def interp_0x37_def interp_0x3c_def
        interp_0x3f_def interp_0x87_def interp_0x8c_def interp_0x8f_def interp_0x97_def
        interp_0x9c_def interp_0x9f_def wp_mem_store wp_mem_load)

section \<open>Branches\<close>

text \<open>The states inside a branch, after the segment is billed and before \<open>FD_VM_INTERP_BRANCH_END\<close>.\<close>

definition in_branch :: "ienv \<Rightarrow> istate \<Rightarrow> istate \<Rightarrow> bool" where
  "in_branch env st st' \<longleftrightarrow>
     same_shape st st' \<and> segment_cost st \<le> i_cu st \<and> i_cu st' \<le> i_cu st - segment_cost st
     \<and> i_ic st' = i_ic st + segment_cost st \<and> i_ic_correction st' = 0
     \<and> i_frame_cnt st' < e_frame_max env"

lemma wp_branch_end: "in_branch env st st' \<Longrightarrow> wp (branch_progress env st) (branch_end env st')"
  by (simp add: in_branch_def branch_end_def branch_progress_def branch_step_def same_shape_def)

lemma in_branch_pc: "in_branch env st st' \<Longrightarrow> in_branch env st (st'\<lparr>i_pc := pc\<rparr>)"
  by (simp add: in_branch_def same_shape_def)

lemma in_branch_reg: "in_branch env st st' \<Longrightarrow> in_branch env st (reg_set i v st')"
  by (simp add: in_branch_def same_shape_def)

lemma wp_branch_begin:
  assumes "istate_ok env st"
    and "\<And>st'. in_branch env st st' \<Longrightarrow> i_pc st' = i_pc st \<Longrightarrow> i_frame_cnt st' = i_frame_cnt st \<Longrightarrow>
           wp (branch_progress env st) (body st')"
  shows "wp (branch_progress env st) (branch_begin body st)"
proof -
  let ?st = "st\<lparr> i_ic := i_ic st + segment_cost st, i_cu := i_cu st - segment_cost st,
               i_ic_correction := 0 \<rparr>"
  have "i_frame_cnt st < e_frame_max env"
    using assms(1) by (simp add: istate_ok_def word_less_nat_alt)
  hence "segment_cost st \<le> i_cu st \<Longrightarrow> wp (branch_progress env st) (body ?st)"
    by (intro assms(2)) (simp_all add: in_branch_def same_shape_def)
  thus ?thesis by (simp add: branch_begin_def Let_def segment_cost_def not_less)
qed

lemma wp_stack_push:
  assumes "istate_ok env st" and "in_branch env st st'"
    and "\<And>st''. in_branch env st st'' \<Longrightarrow> wp (branch_progress env st) (body st'')"
  shows "wp (branch_progress env st) (stack_push env body st')"
proof -
  have "unat (i_frame_cnt st') < length (vm_shadow (i_vm st'))" "length (i_reg st') = 16"
    using assms(1,2) by (auto simp: istate_ok_def in_branch_def same_shape_def word_less_nat_alt)
  thus ?thesis
    using assms(2)
    by (auto simp: stack_push_def Let_def shadow_frame_in in_branch_def same_shape_def not_le
          intro!: assms(3))
qed

lemma wp_call_to:
  assumes "istate_ok env st" and "in_branch env st st'"
  shows "wp (branch_progress env st) (call_to env pc st')"
  unfolding call_to_def
  by (rule wp_stack_push[OF assms]) (blast intro: wp_branch_end in_branch_pc)

lemma wp_syscall_exec:
  assumes "istate_ok env st" "syscalls_ok env" and "syscall_query env imm = Some f"
    and "in_branch env st st'"
  shows "wp (branch_progress env st) (syscall_exec f (branch_end env) st')"
proof -
  let ?vm = "(i_vm st')\<lparr> vm_pc := i_pc st', vm_ic := i_ic st', vm_cu := i_cu st',
               vm_frame_cnt := i_frame_cnt st' \<rparr>"
  obtain err ret vm' where f:
    "f ?vm (i_reg st' ! 1) (i_reg st' ! 2) (i_reg st' ! 3) (i_reg st' ! 4) (i_reg st' ! 5)
       = (err, ret, vm')"
    by (metis prod_cases3)
  have "e_syscalls env (ucast imm) = Some f"
    using assms(3) by (simp add: syscall_query_def split: if_splits)
  hence "length (vm_shadow vm') = length (vm_shadow ?vm) \<and> length (vm_reg vm') = length (vm_reg ?vm)"
    using assms(2) f unfolding syscalls_ok_def by blast
  moreover have "length (i_reg st') = 16"
    using assms(1,4) by (simp add: istate_ok_def in_branch_def same_shape_def)
  ultimately show ?thesis
    using assms(4) f
    by (auto simp: syscall_exec_def syscall_call_in Let_def in_branch_def same_shape_def
          min.coboundedI2 intro!: wp_branch_end)
qed

lemma wp_jmp_exec: "istate_ok env st \<Longrightarrow> wp (branch_progress env st) (jmp_exec env f i st)"
  unfolding jmp_exec_def by (rule wp_branch_begin) (blast intro: wp_branch_end in_branch_pc)+

lemma wp_exit: 
  assumes "istate_ok env st" shows "wp (branch_progress env st) (interp_0x95 env st)"
  unfolding interp_0x95_def
proof (rule wp_branch_begin[OF assms])
  fix st' assume br: "in_branch env st st'" and fr: "i_frame_cnt st' = i_frame_cnt st"
  have pop: "i_frame_cnt st' \<noteq> 0 \<Longrightarrow> unat (i_frame_cnt st' - 1) < unat (i_frame_cnt st')"
    by (simp add: unat_minus_one unat_gt_0)
  have "i_frame_cnt st' \<noteq> 0 \<longrightarrow> in_branch env st (st'\<lparr>i_frame_cnt := i_frame_cnt st' - 1\<rparr>)"
    using br pop by (auto simp: in_branch_def same_shape_def word_less_nat_alt)
  moreover have "i_frame_cnt st' \<noteq> 0 \<longrightarrow>
      unat (i_frame_cnt st' - 1) < length (vm_shadow (i_vm st'))"
    using br pop assms by (auto simp: in_branch_def same_shape_def istate_ok_def word_less_nat_alt)
  moreover have "length (i_reg st') = 16"
    using br assms by (simp add: istate_ok_def in_branch_def same_shape_def)
  ultimately show "wp (branch_progress env st)
    (if i_frame_cnt st' = 0 then sigexit st'
     else let f = i_frame_cnt st' - 1; sh = vm_shadow (i_vm st') in
          if length sh \<le> unat f then Stuck UB_shadow
          else let s = sh ! unat f; st = st'\<lparr>i_frame_cnt := f\<rparr>
               in reg_put 6 (sh_r6 s) (reg_put 7 (sh_r7 s) (reg_put 8 (sh_r8 s)
                    (reg_put 9 (sh_r9 s) (reg_put 10 (sh_r10 s)
                      (\<lambda>st. branch_end env (st\<lparr> i_pc := sh_pc s \<rparr>)))))) st)"
    by (auto simp: Let_def intro!: wp_branch_end in_branch_pc in_branch_reg)
qed

lemma wp_call_imm:
  assumes "istate_ok env st" "syscalls_ok env" "program_ok env" "\<not> static_syscalls (e_sbpf_version env)"
  shows "wp (branch_progress env st) (interp_0x85 env i st)"
  unfolding interp_0x85_def
proof (rule wp_branch_begin[OF assms(1)])
  fix st' assume br: "in_branch env st st'"
  let ?pc = "ucast (fd_pchash_inverse (d_imm i)) :: u64"
  have dest: "?pc < e_text_cnt env \<longrightarrow> (\<exists>b. fd_sbpf_calldests_test (e_calldests env) ?pc = Some b)"
    using assms(3,4) by (auto simp: program_ok_def fd_sbpf_calldests_test_def word_less_nat_alt)
  show "wp (branch_progress env st)
    (case syscall_query env (d_imm i) of
       None \<Rightarrow>
         if d_imm i = 0x71e3cf81 then call_to env (e_entry_pc env) st'
         else let target_pc = ?pc in
              if e_text_cnt env \<le> target_pc then sigillbr st'
              else case fd_sbpf_calldests_test (e_calldests env) target_pc of
                     None \<Rightarrow> Stuck UB_calldests
                   | Some present \<Rightarrow> if \<not> present then sigillbr st' else call_to env target_pc st'
     | Some func \<Rightarrow> syscall_exec func (branch_end env) st')"
    using wp_call_to[OF assms(1) br] wp_syscall_exec[OF assms(1,2) _ br] dest
    by (auto simp: Let_def not_le split: option.split)
qed

lemma wp_call_static:
  assumes "istate_ok env st" "syscalls_ok env"
  shows "wp (branch_progress env st) (interp_0x85_static env i st)"
  unfolding interp_0x85_static_def
  by (rule wp_branch_begin[OF assms(1)])
     (auto simp: Let_def intro: wp_call_to[OF assms(1)] wp_syscall_exec[OF assms]
        split: option.split)

lemma wp_callx_jump:
  assumes "in_branch env st st'" "length (i_reg st') = 16" "d_dst i < 16"
  shows "wp (branch_progress env st) (callx_jump env i st')"
proof -
  have "unat (d_imm i AND 15) \<le> unat (15 :: u32)"
    unfolding word_le_nat_alt[symmetric] by (rule word_and_le1)
  hence "unat (d_imm i AND 15) < length (i_reg st')" using assms(2) by simp
  thus ?thesis
    using assms by (auto simp: callx_jump_def Let_def intro: wp_branch_end in_branch_pc)
qed

lemma wp_call_reg:
  assumes "istate_ok env st" "d_dst i < 16"
  shows "wp (branch_progress env st) (interp_0x8d env i st)"
  unfolding interp_0x8d_def
proof (rule wp_branch_begin[OF assms(1)], rule wp_stack_push[OF assms(1)])
  fix st' assume "in_branch env st st'"
  thus "wp (branch_progress env st) (callx_jump env i st')"
    using assms by (intro wp_callx_jump) (simp_all add: istate_ok_def in_branch_def same_shape_def)
qed

lemma wp_ldq:
  assumes "unat (i_pc st) + 1 < length (e_text env)" and "length (e_text env) < 2 ^ 64"
    and "d_dst i < length (i_reg st)"
  shows "wp (linear_progress st) (interp_0x18 env i st)"
proof -
  have "unat (i_pc st + 1) = unat (i_pc st) + 1" and "unat (i_pc st + 2) = unat (i_pc st) + 2"
    using assms by (subst unat_add64; simp)+
  thus ?thesis
    using assms(1,3)
    by (simp add: interp_0x18_def Let_def linear_progress_def linear_step_def same_shape_def add.commute)
qed

lemma wp_alu_exec:
  assumes "\<And>d s. f d s (d_imm i) \<noteq> Op_host" "d_dst i < length (i_reg st)"
  shows "wp (linear_progress st) (alu_exec f i st)"
  using assms
  by (auto simp: alu_exec_def same_shape_def split: op_result.split intro!: progress_instr_end)

section \<open>No instruction is stuck, and the invariant is kept\<close>

lemma pc_in_text:
  assumes "program_ok env" "istate_ok env st" "i_pc st < i_block_text_limit st"
  shows "unat (i_pc st) < length (e_text env)"
  using assms by (auto simp: program_ok_def istate_ok_def word_le_nat_alt word_less_nat_alt)

lemma wp_mono: "wp P res \<Longrightarrow> (\<And>st. P st \<Longrightarrow> Q st) \<Longrightarrow> wp Q res"
  by (cases res) auto

text \<open>The instruction at the program counter, decoded: in a good state the register file has it.\<close>

definition decoded_at :: "ienv \<Rightarrow> istate \<Rightarrow> decoded" where
  "decoded_at env st = the (decode (e_text env ! unat (i_pc st)) (i_reg st))"

lemma decoded_at:
  assumes "length (i_reg st) = 16"
  shows "decode (e_text env ! unat (i_pc st)) (i_reg st) = Some (decoded_at env st)"
    "d_dst (decoded_at env st) < 16"
    "d_imm (decoded_at env st) = fd_vm_instr_imm (e_text env ! unat (i_pc st))"
  using decode_in[OF assms, of "e_text env ! unat (i_pc st)"] unfolding decoded_at_def
  by (metis option.sel)+

lemma wp_label_exec:
  assumes "program_ok env" "syscalls_ok env" "istate_ok env st" "unat (i_pc st) < length (e_text env)"
  shows "wp (if is_linear (label_at env (unat (i_pc st))) then linear_progress st
             else branch_progress env st)
           (label_exec env (label_at env (unat (i_pc st))) (decoded_at env st) st)"
proof -
  let ?pc = "unat (i_pc st)" and ?i = "decoded_at env st"
  have word: "word_ok env ?pc" and cnt: "length (e_text env) = unat (e_text_cnt env)"
    using assms(1,4) by (auto simp: program_ok_def)
  have reg: "length (i_reg st) = 16" using assms(3) by (simp add: istate_ok_def)
  note dst = decoded_at(2)[OF reg, of env] and imm = decoded_at(3)[OF reg, of env]
  show ?thesis
  proof (cases "label_at env ?pc")
    case (L_alu f)
    thus ?thesis using word imm dst reg by (auto simp: word_ok_def intro!: wp_alu_exec)
  next
    case L_ldq
    thus ?thesis using word wp_ldq cnt unat_lt64 dst reg by (simp add: word_ok_def)
  qed (use assms word dst reg in \<open>auto simp: word_ok_def wp_mem_exec wp_jmp_exec wp_exit wp_call_reg
         wp_call_static wp_call_imm\<close>)
qed

lemma interp_exec_label:
  assumes "program_ok env" "istate_ok env st" "i_pc st < i_block_text_limit st"
  shows "interp_exec env st = label_exec env (label_at env (unat (i_pc st))) (decoded_at env st) st"
proof -
  have "\<not> i_block_text_limit st \<le> i_pc st" "\<not> FD_SBPF_VERSION_COUNT \<le> e_sbpf_version env"
    using assms by (simp_all add: program_ok_def not_le)
  thus ?thesis
    using decoded_at(1)[of st env] assms(2) pc_in_text[OF assms]
    by (simp add: interp_exec_def Let_def label_at_def opcode_at_def istate_ok_def)
qed

lemma wp_interp_exec:
  assumes "program_ok env" "syscalls_ok env" "istate_ok env st"
  shows "wp (progress env st) (interp_exec env st)"
proof (cases "i_pc st < i_block_text_limit st")
  case True
  show ?thesis
    unfolding interp_exec_label[OF assms(1,3) True]
    using wp_label_exec[OF assms pc_in_text[OF assms(1,3) True]]
    by (rule wp_mono) (auto simp: progress_def split: if_splits)
qed (simp add: interp_exec_def not_less)

lemma segment_cost_unat:
  assumes "istate_ok env st" and "unat (i_pc st) - unat (i_pc0 st) < 2 ^ 64 - 1"
  shows "unat (segment_cost st) = unat (i_pc st) - unat (i_pc0 st) + 1 - unat (i_ic_correction st)"
proof -
  have b: "unat (i_pc0 st) + 2 * unat (i_ic_correction st) \<le> unat (i_pc st)"
    using assms(1) by (simp add: istate_ok_def)
  have d: "unat (i_pc st - i_pc0 st) = unat (i_pc st) - unat (i_pc0 st)"
    using b by (intro unat_sub64) simp
  have d1: "unat (i_pc st - i_pc0 st + 1) = unat (i_pc st) - unat (i_pc0 st) + 1"
    using d assms(2) by (subst unat_add64) simp_all
  show ?thesis
    unfolding segment_cost_def using b d1 by (subst unat_sub64) simp_all
qed

lemma segment_cost_pos:
  assumes "istate_ok env st" and "unat (i_pc st) < 2 ^ 64 - 1"
  shows "0 < unat (segment_cost st)"
  using segment_cost_unat[OF assms(1)] assms by (simp add: istate_ok_def)

lemma block_text_limit_le: "block_text_limit cnt pc0 cu \<le> cnt"
  by (simp add: block_text_limit_def)

lemma istate_ok_progress:
  assumes "istate_ok env st" "progress env st st'" "unat (i_pc st) < 2 ^ 64 - 1"
  shows "istate_ok env st'"
proof -
  have pc1: "unat (i_pc st + 1) = unat (i_pc st) + 1"
    using assms(3) by (subst unat_add64) simp_all
  have c1: "unat (i_ic_correction st + 1) \<le> unat (i_ic_correction st) + 1"
    using unat_lt64 by (cases "unat (i_ic_correction st) + 1 < 2 ^ 64") (simp_all add: unat_word_ariths)
  from assms(2) consider (lin) "same_shape st st'" "linear_step st st'"
    | (br) "same_shape st st'" "branch_step env st st'"
    by (auto simp: progress_def linear_progress_def branch_progress_def)
  thus ?thesis
  proof cases
    case lin
    thus ?thesis using assms(1) pc1 c1
      by (auto simp: istate_ok_def linear_step_def same_shape_def)
  next
    case br
    thus ?thesis using assms(1)
      by (auto simp: istate_ok_def branch_step_def same_shape_def block_text_limit_le
            word_less_nat_alt)
  qed
qed

lemma interp_exec_preserves:
  assumes "program_ok env" "syscalls_ok env" "istate_ok env st" "interp_exec env st = Next st'"
  shows "istate_ok env st'"
proof -
  have "\<not> i_block_text_limit st \<le> i_pc st"
    using assms(4) by (auto simp: interp_exec_def sigtext_or_sigcost_def interp_defs Let_def split: if_splits)
  hence "unat (i_pc st) < unat (e_text_cnt env)"
    using pc_in_text[OF assms(1,3)] assms(1) by (simp add: program_ok_def not_le)
  hence "unat (i_pc st) < 2 ^ 64 - 1" using unat_lt64[of "e_text_cnt env"] by simp
  with wp_interp_exec[OF assms(1-3)] show ?thesis
    by (intro istate_ok_progress[OF assms(3)]) (simp_all add: assms(4))
qed

end
