(* ===== verification/Vm_Init.thy ===== *)
theory Vm_Init
  imports Vm_Mem
begin

text \<open>
  Creation of a virtual machine, \<^verbatim>\<open>fd_vm_init\<close> of \<^verbatim>\<open>flamenco/vm/fd_vm.c\<close>.  The instruction context, the
  trace, the hash state and the dump flag the machine only passes on are left out.
\<close>

definition stack_frame_cfg :: "u64 \<Rightarrow> bool \<Rightarrow> u64 \<times> u64" where
  "stack_frame_cfg sbpf_version virtual_address_space_adjustments =
     (if stack_frame_gaps sbpf_version \<and> \<not> virtual_address_space_adjustments
      then (FD_VM_STACK_FRAME_SZ, 2)
      else if manual_stack_frame_bump sbpf_version then (0, 0)
      else (FD_VM_STACK_FRAME_SZ, 1))"

definition init_regs :: "u64 \<Rightarrow> u64 \<Rightarrow> u64 \<Rightarrow> u64 list" where
  "init_regs sbpf_version stack_frame_sz r2_initial_value =
     (replicate FD_VM_REG_MAX 0)
       [1 := FD_VM_MEM_MAP_INPUT_REGION_START,
        2 := r2_initial_value,
        10 := FD_VM_MEM_MAP_STACK_REGION_START
                + (if manual_stack_frame_bump sbpf_version then FD_VM_STACK_MAX
                   else stack_frame_sz)]"

text \<open>The parameters of \<open>fd_vm_init\<close> the machine depends on; a null pointer is \<open>None\<close>.\<close>

record init_args =
  a_heap_max :: u64
  a_entry_cu :: u64
  a_rodata :: u64
  a_rodata_sz :: u64
  a_text_addr :: u64
  a_text :: "u64 list"
  a_text_cnt :: u64
  a_text_off :: u64
  a_text_sz :: u64
  a_entry_pc :: u64
  a_calldests :: "bool list option"
  a_sbpf_version :: u64
  a_mem_regions :: "fd_vm_input_region list"
  a_mem_regions_cnt :: u32
  a_acc_region_metas :: "fd_vm_acc_region_meta list"
  a_is_deprecated :: u8
  a_direct_mapping :: bool
  a_syscall_parameter_address_restrictions :: bool
  a_virtual_address_space_adjustments :: bool
  a_r2_initial_value :: u64

definition init_fields :: "init_args \<Rightarrow> fd_vm \<Rightarrow> fd_vm" where
  "init_fields a vm =
     (let (frame_sz, push_count) =
            stack_frame_cfg (a_sbpf_version a) (a_virtual_address_space_adjustments a)
      in vm
        \<lparr> vm_heap_max := a_heap_max a, vm_entry_cu := a_entry_cu a, vm_rodata := a_rodata a,
          vm_rodata_sz := a_rodata_sz a, vm_text_addr := a_text_addr a, vm_text := a_text a,
          vm_text_cnt := a_text_cnt a,
          vm_text_off :=
            (if enable_lower_rodata_vaddr (a_sbpf_version a) then 0 else a_text_off a),
          vm_text_sz := a_text_sz a, vm_entry_pc := a_entry_pc a, vm_calldests := a_calldests a,
          vm_sbpf_version := a_sbpf_version a, vm_input_mem_regions := a_mem_regions a,
          vm_input_mem_regions_cnt := a_mem_regions_cnt a,
          vm_acc_region_metas := a_acc_region_metas a, vm_is_deprecated := a_is_deprecated a,
          vm_direct_mapping := a_direct_mapping a,
          vm_syscall_parameter_address_restrictions :=
            a_syscall_parameter_address_restrictions a,
          vm_virtual_address_space_adjustments := a_virtual_address_space_adjustments a,
          vm_stack_frame_sz := frame_sz, vm_stack_push_frame_count := push_count,
          vm_segv_vaddr := - 1, vm_segv_access_len := 0, vm_segv_access_type := 0 \<rparr>)"

definition init_exec_state :: "init_args \<Rightarrow> fd_vm \<Rightarrow> fd_vm" where
  "init_exec_state a vm = vm
     \<lparr> vm_reg := init_regs (vm_sbpf_version vm) (vm_stack_frame_sz vm) (a_r2_initial_value a),
       vm_pc := vm_entry_pc vm, vm_ic := 0, vm_cu := vm_entry_cu vm, vm_frame_cnt := 0,
       vm_heap_sz := 0 \<rparr>"

definition fd_vm_init :: "fd_vm option \<Rightarrow> init_args \<Rightarrow> fd_vm option" where
  "fd_vm_init vm a =
     (case vm of
        None \<Rightarrow> None
      | Some vm \<Rightarrow>
         if vm_magic vm \<noteq> FD_VM_MAGIC then None
         else if FD_VM_HEAP_MAX < a_heap_max a then None
         else if a_calldests a \<noteq> None \<and> enable_stricter_elf_headers (a_sbpf_version a) then None
         else Some (init_exec_state a (fd_vm_mem_cfg (init_fields a vm))))"

end
