(* ===== verification/Vm_Halts.thy ===== *)
theory Vm_Halts
  imports Vm_Safe Vm_Init
begin

text \<open>
  The interpreter as a machine run with fuel: validated bytecode halts after a number of instructions
  bounded by the compute budget and the text, and in no reachable state does the host misbehave.
\<close>

definition istep :: "ienv \<Rightarrow> istate \<Rightarrow> istate + outcome" where
  "istep env st = (case interp_exec env st of Next st' \<Rightarrow> Inl st' | res \<Rightarrow> Inr res)"

definition irank :: "ienv \<Rightarrow> istate \<Rightarrow> nat" where
  "irank env st =
     unat (i_cu st) * (length (e_text env) + 1) + (length (e_text env) - unat (i_pc st))"

definition iinv :: "ienv \<Rightarrow> istate \<Rightarrow> bool" where
  "iinv env st \<longleftrightarrow> program_ok env \<and> syscalls_ok env \<and> istate_ok env st"

fun halted :: "outcome \<Rightarrow> bool" where
  "halted (Halt err st) = True"
| "halted _ = False"

lemma interp_run_fuel_run: "interp_run n env st = fuel_run n (istep env) st"
  by (induction n arbitrary: st) (auto simp: istep_def split: outcome.split)

lemma istep_Inl: "istep env st = Inl st' \<longleftrightarrow> interp_exec env st = Next st'"
  by (auto simp: istep_def split: outcome.splits)

lemma next_pc_bound:
  assumes "iinv env st" "interp_exec env st = Next st'"
  shows "unat (i_pc st) < length (e_text env)" "unat (i_pc st) < 2 ^ 64 - 1"
proof -
  have "\<not> i_block_text_limit st \<le> i_pc st"
    using assms(2)
    by (auto simp: interp_exec_def sigtext_or_sigcost_def interp_defs Let_def split: if_splits)
  thus "unat (i_pc st) < length (e_text env)"
    using assms(1) by (intro pc_in_text) (simp_all add: iinv_def)
  thus "unat (i_pc st) < 2 ^ 64 - 1"
    using assms(1) unat_lt64[of "e_text_cnt env"] by (simp add: iinv_def program_ok_def)
qed

lemma irank_decreases:
  assumes "iinv env st" "interp_exec env st = Next st'"
  shows "irank env st' < irank env st"
proof -
  note pc = next_pc_bound[OF assms]
  have ok: "istate_ok env st" using assms(1) by (simp add: iinv_def)
  have "wp (progress env st) (interp_exec env st)"
    using assms(1) by (intro wp_interp_exec) (simp_all add: iinv_def)
  then consider "linear_step st st'" | "branch_step env st st'"
    using assms(2) by (auto simp: progress_def linear_progress_def branch_progress_def)
  thus ?thesis
  proof cases
    case 1
    have "unat (i_pc st + 1) = unat (i_pc st) + 1" using pc by (subst unat_add64) simp_all
    hence "unat (i_pc st) < unat (i_pc st')" using 1 by (auto simp: linear_step_def)
    thus ?thesis using 1 pc by (simp add: irank_def linear_step_def)
  next
    case 2
    let ?T = "length (e_text env)"
    have "unat (segment_cost st) \<le> unat (i_cu st)"
      and "unat (i_cu st') \<le> unat (i_cu st - segment_cost st)"
      using 2 by (simp_all add: branch_step_def word_le_nat_alt)
    hence "unat (i_cu st') + 1 \<le> unat (i_cu st)"
      using segment_cost_pos[OF ok pc(2)] by (simp add: unat_sub64)
    hence "(unat (i_cu st') + 1) * (?T + 1) \<le> unat (i_cu st) * (?T + 1)"
      by (rule mult_le_mono1)
    thus ?thesis using pc by (simp add: irank_def)
  qed
qed

interpretation interp: fueled_machine "istep env" "iinv env" "irank env" halted for env
proof
  fix st st' assume "iinv env st" "istep env st = Inl st'"
  thus "iinv env st'" unfolding iinv_def istep_Inl by (blast intro: interp_exec_preserves)
next
  fix st st' assume "iinv env st" "istep env st = Inl st'"
  thus "irank env st' < irank env st" by (intro irank_decreases) (simp_all add: istep_Inl)
next
  fix st r assume "iinv env st" "istep env st = Inr r"
  thus "halted r" using wp_interp_exec
    by (cases "interp_exec env st") (fastforce simp: istep_def iinv_def)+
qed

section \<open>Execution of a machine\<close>

definition exec_fuel :: "fd_vm \<Rightarrow> nat" where
  "exec_fuel vm = unat (vm_cu vm) * (length (vm_text vm) + 1) + length (vm_text vm) + 1"

text \<open>What a caller of \<open>fd_vm_exec\<close> has to have set up besides a validated text.\<close>

definition vm_ready :: "fd_vm \<Rightarrow> bool" where
  "vm_ready vm \<longleftrightarrow>
     vm_sbpf_version vm < FD_SBPF_VERSION_COUNT
     \<and> unat (vm_text_cnt vm) = length (vm_text vm)
     \<and> (\<not> static_syscalls (vm_sbpf_version vm) \<longrightarrow>
          (\<exists>dests. vm_calldests vm = Some dests \<and> length (vm_text vm) \<le> length dests))
     \<and> vm_frame_cnt vm < FD_VM_STACK_FRAME_MAX
     \<and> length (vm_shadow vm) = unat FD_VM_STACK_FRAME_MAX
     \<and> length (vm_reg vm) = FD_VM_REG_MAX"

definition syscalls_keep_arrays :: "(u64 \<Rightarrow> syscall option) \<Rightarrow> bool" where
  "syscalls_keep_arrays syscalls \<longleftrightarrow>
     (\<forall>k f vm r1 r2 r3 r4 r5 err ret vm'.
        syscalls k = Some f \<longrightarrow> f vm r1 r2 r3 r4 r5 = (err, ret, vm') \<longrightarrow>
        length (vm_shadow vm') = length (vm_shadow vm) \<and> length (vm_reg vm') = length (vm_reg vm))"

lemma iinv_start:
  assumes "fd_vm_validate vm = 0" "vm_ready vm" "syscalls_keep_arrays syscalls"
  shows "iinv (exec_env syscalls vm) (exec_start vm)"
proof -
  have "program_ok (exec_env syscalls vm)"
    using assms by (intro program_ok_validated) (simp_all add: vm_ready_def)
  moreover have "syscalls_ok (exec_env syscalls vm)"
    using assms(3) unfolding syscalls_ok_def syscalls_keep_arrays_def exec_env_def by simp
  moreover have "istate_ok (exec_env syscalls vm) (exec_start vm)"
    using assms(2)
    by (simp add: istate_ok_def exec_env_def exec_start_def vm_ready_def block_text_limit_le
          word_less_nat_alt)
  ultimately show ?thesis by (simp add: iinv_def)
qed

lemma exec_halts:
  assumes "fd_vm_validate vm = 0" "vm_ready vm" "syscalls_keep_arrays syscalls"
    and "exec_fuel vm \<le> fuel"
  shows "\<exists>err st. fd_vm_exec_notrace fuel syscalls vm = Some (Halt err st)"
proof -
  have "irank (exec_env syscalls vm) (exec_start vm) < fuel"
    using assms(4) by (simp add: irank_def exec_env_def exec_start_def exec_fuel_def)
  with interp.run_total[OF iinv_start[OF assms(1-3)]]
  obtain r where "fuel_run fuel (istep (exec_env syscalls vm)) (exec_start vm) = Some r" "halted r"
    by blast
  thus ?thesis
    by (cases r) (simp_all add: fd_vm_exec_notrace_def interp_run_fuel_run)
qed

lemma exec_never_stuck:
  assumes "fd_vm_validate vm = 0" "vm_ready vm" "syscalls_keep_arrays syscalls"
    and "reaches (istep (exec_env syscalls vm)) (exec_start vm) st"
  shows "interp_exec (exec_env syscalls vm) st \<noteq> Stuck ub"
  using wp_interp_exec interp.reaches_inv[OF assms(4) iinv_start[OF assms(1-3)]]
  by (metis iinv_def wp.simps(3))

end
