(* ===== verification/Vm_Mem_Safe.thy ===== *)
theory Vm_Mem_Safe
  imports Vm_Halts
begin

text \<open>
  Memory safety of the software address translation: which host bytes a machine may read and write,
  that every successful translation stays among them, that growing an account's region does too, and
  that an access inside the bounds of a region always succeeds.
\<close>

section \<open>The host bytes of a machine\<close>

definition fixed_regions :: "nat list" where
  "fixed_regions = [0, 1, 2, 3, 5]"

definition fixed_range :: "u64 list \<Rightarrow> u32 list \<Rightarrow> nat \<Rightarrow> u64 \<Rightarrow> bool" where
  "fixed_range haddrs szs r a \<longleftrightarrow>
     unat (haddrs ! r) \<le> unat a \<and> unat a < unat (haddrs ! r) + unat (szs ! r)"

definition region_extent :: "fd_vm_input_region \<Rightarrow> nat" where
  "region_extent r = max (unat (region_sz r)) (unat (address_space_reserved r))"

definition input_range :: "bool \<Rightarrow> fd_vm_input_region \<Rightarrow> u64 \<Rightarrow> bool" where
  "input_range write r a \<longleftrightarrow>
     (write \<longrightarrow> is_writable r \<noteq> 0)
     \<and> unat (ir_haddr r) \<le> unat a \<and> unat a < unat (ir_haddr r) + region_extent r"

definition region_szs :: "bool \<Rightarrow> fd_vm \<Rightarrow> u32 list" where
  "region_szs write vm = (if write then vm_region_st_sz vm else vm_region_ld_sz vm)"

definition mapped :: "bool \<Rightarrow> fd_vm \<Rightarrow> u64 \<Rightarrow> bool" where
  "mapped write vm a \<longleftrightarrow>
     (\<exists>r \<in> set fixed_regions. fixed_range (vm_region_haddr vm) (region_szs write vm) r a)
     \<or> (\<exists>r \<in> set (vm_input_mem_regions vm). input_range write r a)"

text \<open>
  One host range an access may lie in: all of a fixed region, or what an input region holds now (not
  the address space reserved behind it).
\<close>

definition host_region :: "bool \<Rightarrow> fd_vm \<Rightarrow> u64 \<Rightarrow> nat \<Rightarrow> bool" where
  "host_region write vm base len \<longleftrightarrow>
     (\<exists>r \<in> set fixed_regions. base = vm_region_haddr vm ! r \<and> len = unat (region_szs write vm ! r))
     \<or> (\<exists>r \<in> set (vm_input_mem_regions vm).
          (write \<longrightarrow> is_writable r \<noteq> 0) \<and> base = ir_haddr r \<and> len = unat (region_sz r))"

text \<open>
  The account data the resize handler zeroes when it grows a region.  With direct mapping this is the
  region itself; without it the region is a copy in the serialization buffer and the account's own
  buffer lies elsewhere.
\<close>

definition growable :: "fd_vm_input_region \<Rightarrow> bool" where
  "growable r \<longleftrightarrow> is_writable r \<noteq> 0 \<and> ucast (region_sz r) < address_space_reserved r"

definition region_acc ::
    "fd_vm_acc_region_meta list \<Rightarrow> fd_acc list \<Rightarrow> fd_vm_input_region \<Rightarrow> fd_acc" where
  "region_acc metas accs r = accs ! meta_acc (metas ! unat (acc_region_meta_idx r))"

definition account_range ::
    "fd_vm_acc_region_meta list \<Rightarrow> fd_acc list \<Rightarrow> fd_vm_input_region \<Rightarrow> u64 \<Rightarrow> bool" where
  "account_range metas accs r a \<longleftrightarrow>
     growable r
     \<and> unat (acc_data (region_acc metas accs r)) \<le> unat a
     \<and> unat a < unat (acc_data (region_acc metas accs r)) + unat (address_space_reserved r)"

definition zeroable :: "fd_vm \<Rightarrow> u64 \<Rightarrow> bool" where
  "zeroable vm a \<longleftrightarrow>
     (\<exists>r \<in> set (vm_input_mem_regions vm). account_range (vm_acc_region_metas vm) (vm_accs vm) r a)"

text \<open>
  What the loader and the serializer set up: regions do not wrap around the end of the host address
  space, the input regions tile their part of the virtual address space from offset 0 on, and a
  region that can grow has an account whose buffer holds the reserved bytes without wrapping.
\<close>

definition region_wf :: "fd_vm \<Rightarrow> fd_vm_input_region \<Rightarrow> bool" where
  "region_wf vm r \<longleftrightarrow>
     unat (ir_haddr r) + region_extent r < 2 ^ 64
     \<and> unat (vaddr_offset r) + unat (address_space_reserved r) < 2 ^ 64
     \<and> (growable r \<longrightarrow>
          unat (acc_region_meta_idx r) < length (vm_acc_region_metas vm)
          \<and> meta_acc (vm_acc_region_metas vm ! unat (acc_region_meta_idx r)) < length (vm_accs vm)
          \<and> unat (acc_data (region_acc (vm_acc_region_metas vm) (vm_accs vm) r))
            + unat (address_space_reserved r) < 2 ^ 64)"

definition tiled :: "fd_vm_input_region list \<Rightarrow> bool" where
  "tiled rs \<longleftrightarrow>
     (rs \<noteq> [] \<longrightarrow> vaddr_offset (rs ! 0) = 0)
     \<and> (\<forall>i < length rs - 1.
          vaddr_offset (rs ! (i + 1)) = vaddr_offset (rs ! i) + address_space_reserved (rs ! i))"

definition mem_wf :: "fd_vm \<Rightarrow> bool" where
  "mem_wf vm \<longleftrightarrow>
     (\<forall>r \<in> set fixed_regions.
        unat (vm_region_haddr vm ! r) + unat (vm_region_ld_sz vm ! r) < 2 ^ 64
        \<and> vm_region_st_sz vm ! r \<le> vm_region_ld_sz vm ! r)
     \<and> unat (vm_input_mem_regions_cnt vm) = length (vm_input_mem_regions vm)
     \<and> (\<forall>r \<in> set (vm_input_mem_regions vm). region_wf vm r)
     \<and> tiled (vm_input_mem_regions vm)"

lemma bex_update_same:
  assumes "i < length xs" "P y = P (xs ! i)"
  shows "(\<exists>x \<in> set (xs[i := y]). P x) = (\<exists>x \<in> set xs. P x)"
proof -
  have "set xs = set (take i xs) \<union> {xs ! i} \<union> set (drop (Suc i) xs)"
    using arg_cong[OF id_take_nth_drop[OF assms(1)], of set] by simp
  thus ?thesis using assms by (auto simp: upd_conv_take_nth_drop)
qed

lemma unat_offset64:
  "unat (b :: u64) + unat (a - b) < 2 ^ 64 \<Longrightarrow> unat a = unat b + unat (a - b)"
  using unat_add64[of b "a - b"] by simp

section \<open>The region search\<close>

lemma region_search_bounds: "l \<le> r \<Longrightarrow> l \<le> region_search rs off l r \<and> region_search rs off l r \<le> r"
proof (induction rs off l r rule: region_search.induct)
  case (1 rs off l r)
  let ?m = "(l + r) div 2"
  have m: "l < r \<Longrightarrow> l \<le> ?m \<and> ?m + 1 \<le> r" by presburger
  show ?case
  proof (cases "l < r")
    case True
    thus ?thesis
      using 1(1)[OF True refl] 1(2)[OF True refl] m
      by (subst (1 2) region_search.simps) (auto simp: Let_def)
  qed (use 1(3) in \<open>subst (1 2) region_search.simps, simp\<close>)
qed

lemma region_search_lower:
  assumes "l \<le> r"
    and "l = 0 \<or> vaddr_offset (rs ! (l - 1)) + address_space_reserved (rs ! (l - 1)) \<le> off"
  shows "let i = region_search rs off l r in
         i = 0 \<or> vaddr_offset (rs ! (i - 1)) + address_space_reserved (rs ! (i - 1)) \<le> off"
  using assms
proof (induction rs off l r rule: region_search.induct)
  case (1 rs off l r)
  show ?case
    by (subst region_search.simps) (use 1 in \<open>auto simp: Let_def\<close>)
qed

lemma region_search_upper:
  assumes "l \<le> r" and "\<And>i j. i \<le> j \<Longrightarrow> j < r \<Longrightarrow>
      vaddr_offset (rs ! i) + address_space_reserved (rs ! i)
      \<le> vaddr_offset (rs ! j) + address_space_reserved (rs ! j)"
  shows "let i = region_search rs off l r in
         i = r \<or> off < vaddr_offset (rs ! i) + address_space_reserved (rs ! i)"
  using assms
proof (induction rs off l r rule: region_search.induct)
  case (1 rs off l r)
  let ?m = "(l + r) div 2"
  show ?case
  proof (cases "l < r")
    case True
    show ?thesis
    proof (cases "vaddr_offset (rs ! ?m) + address_space_reserved (rs ! ?m) \<le> off")
      case t: True
      have "?m + 1 \<le> r" using True by simp
      thus ?thesis using 1(1)[OF True refl t] 1(4) True t
        by (subst region_search.simps) (simp add: Let_def)
    next
      case f: False
      have "let i = region_search rs off l ?m in
          i = ?m \<or> off < vaddr_offset (rs ! i) + address_space_reserved (rs ! i)"
        using 1(2)[OF True refl f] 1(3,4) True by auto
      thus ?thesis using f True
        by (subst region_search.simps) (auto simp: Let_def not_le)
    qed
  qed (use 1(3) in \<open>subst region_search.simps, simp\<close>)
qed

lemma region_idx_lower:
  assumes "tiled (vm_input_mem_regions vm)" "vm_input_mem_regions vm \<noteq> []"
    and "unat (vm_input_mem_regions_cnt vm) = length (vm_input_mem_regions vm)"
  shows "fd_vm_get_input_mem_region_idx vm off < length (vm_input_mem_regions vm)"
    and "vaddr_offset (vm_input_mem_regions vm ! fd_vm_get_input_mem_region_idx vm off) \<le> off"
proof -
  let ?rs = "vm_input_mem_regions vm" and ?i = "fd_vm_get_input_mem_region_idx vm off"
  have n: "unat (vm_input_mem_regions_cnt vm - 1) = length ?rs - 1"
    using assms(2,3) by (metis length_0_conv unat_0 unat_minus_one)
  have i: "?i \<le> length ?rs - 1"
    using region_search_bounds[of 0 "length ?rs - 1" ?rs off] n
    by (simp add: fd_vm_get_input_mem_region_idx_def)
  thus "?i < length ?rs" using assms(2) by (metis Suc_pred' length_greater_0_conv less_Suc_eq_le)
  have "?i = 0 \<or> vaddr_offset (?rs ! (?i - 1)) + address_space_reserved (?rs ! (?i - 1)) \<le> off"
    using region_search_lower[of 0 "length ?rs - 1" ?rs off] n
    by (simp add: fd_vm_get_input_mem_region_idx_def Let_def)
  moreover have "?i \<noteq> 0 \<Longrightarrow> vaddr_offset (?rs ! ?i)
      = vaddr_offset (?rs ! (?i - 1)) + address_space_reserved (?rs ! (?i - 1))"
    using assms(1) i unfolding tiled_def
    by (metis Suc_eq_plus1 Suc_pred' bot_nat_0.not_eq_extremum less_eq_Suc_le)
  ultimately show "vaddr_offset (?rs ! ?i) \<le> off"
    using assms(1,2) by (cases "?i = 0") (simp_all add: tiled_def)
qed

section \<open>Growing a region\<close>

lemma ucast_region_sz [simp]: "unat (ucast (x :: u32) :: u64) = unat x"
  using unat_lt32[of x] by (simp add: unsigned_ucast_eq take_bit_nat_eq_self)

lemma new_region_sz_le:
  "new_region_sz vm r \<le> address_space_reserved r" "new_region_sz vm r \<le> FD_RUNTIME_ACC_SZ_MAX"
  by (simp_all add: new_region_sz_def Let_def min.coboundedI1)

lemma oob_cases:
  "fd_vm_handle_input_mem_region_oob vm off sz idx w = vm
   \<or> w \<and> is_writable (vm_input_mem_regions vm ! idx) \<noteq> 0
     \<and> ucast (region_sz (vm_input_mem_regions vm ! idx))
         < new_region_sz vm (vm_input_mem_regions vm ! idx)
     \<and> fd_vm_handle_input_mem_region_oob vm off sz idx w
         = resize_region vm idx (new_region_sz vm (vm_input_mem_regions vm ! idx))"
  by (simp add: fd_vm_handle_input_mem_region_oob_def Let_def)

text \<open>
  A resize is \<open>safe\<close> when the new size is what the handler computes: more than the region has, at most
  what is reserved for it.
\<close>

definition resize_ok :: "fd_vm \<Rightarrow> nat \<Rightarrow> u64 \<Rightarrow> bool" where
  "resize_ok vm idx n \<longleftrightarrow>
     idx < length (vm_input_mem_regions vm)
     \<and> is_writable (vm_input_mem_regions vm ! idx) \<noteq> 0
     \<and> ucast (region_sz (vm_input_mem_regions vm ! idx)) < n
     \<and> n \<le> address_space_reserved (vm_input_mem_regions vm ! idx)
     \<and> n \<le> FD_RUNTIME_ACC_SZ_MAX"

lemma oob_ok_cases:
  assumes "idx < length (vm_input_mem_regions vm)"
  shows "fd_vm_handle_input_mem_region_oob vm off sz idx w = vm
    \<or> w \<and> (\<exists>n. resize_ok vm idx n
            \<and> fd_vm_handle_input_mem_region_oob vm off sz idx w = resize_region vm idx n)"
  using oob_cases[of vm off sz idx w] assms new_region_sz_le
  unfolding resize_ok_def by blast

lemma resize_extent:
  assumes "resize_ok vm idx n"
  defines "r \<equiv> vm_input_mem_regions vm ! idx"
  shows "region_extent (r\<lparr>region_sz := ucast n\<rparr>) = region_extent r"
    and "unat (ucast n :: u32) = unat n"
    and "unat n \<le> region_extent r"
proof -
  have "unat n \<le> 10485760" using assms(1) by (simp add: resize_ok_def word_le_nat_alt)
  thus u: "unat (ucast n :: u32) = unat n"
    by (simp add: unsigned_ucast_eq take_bit_nat_eq_self)
  have "unat (region_sz r) < unat n" "unat n \<le> unat (address_space_reserved r)"
    using assms by (simp_all add: resize_ok_def word_less_nat_alt word_le_nat_alt)
  thus "region_extent (r\<lparr>region_sz := ucast n\<rparr>) = region_extent r" "unat n \<le> region_extent r"
    using u by (simp_all add: region_extent_def)
qed

lemma resize_regions:
  "vm_input_mem_regions (resize_region vm idx n)
     = (vm_input_mem_regions vm)[idx := (vm_input_mem_regions vm ! idx)\<lparr>region_sz := ucast n\<rparr>]"
  by (simp add: resize_region_def Let_def)

lemma resize_mapped:
  assumes "resize_ok vm idx n"
  shows "mapped w (resize_region vm idx n) a = mapped w vm a"
proof -
  let ?rs = "vm_input_mem_regions vm" and ?r = "vm_input_mem_regions vm ! idx"
  have i: "idx < length ?rs" using assms by (simp add: resize_ok_def)
  have same: "input_range w (?r\<lparr>region_sz := ucast n\<rparr>) a = input_range w ?r a"
    using resize_extent(1)[OF assms] by (simp add: input_range_def)
  have "(\<exists>r \<in> set (?rs[idx := ?r\<lparr>region_sz := ucast n\<rparr>]). input_range w r a)
      = (\<exists>r \<in> set ?rs. input_range w r a)"
    by (rule bex_update_same[OF i same])
  thus ?thesis
    by (simp add: mapped_def resize_regions region_szs_def) (simp add: resize_region_def Let_def)
qed

lemma resize_zeroes:
  assumes "mem_wf vm" "resize_ok vm idx n"
    and "vm_mem (resize_region vm idx n) a \<noteq> vm_mem vm a"
  shows "zeroable vm a"
proof -
  let ?r = "vm_input_mem_regions vm ! idx"
  let ?acc = "region_acc (vm_acc_region_metas vm) (vm_accs vm) ?r"
  have mem: "?r \<in> set (vm_input_mem_regions vm)" using assms(2) by (simp add: resize_ok_def)
  have g: "growable ?r" using assms(2) by (auto simp: resize_ok_def growable_def)
  hence e: "unat (acc_data ?acc) + unat (address_space_reserved ?r) < 2 ^ 64"
    using assms(1) mem by (simp add: mem_wf_def region_wf_def)
  have nr: "unat n \<le> unat (address_space_reserved ?r)"
    using assms(2) by (simp add: resize_ok_def word_le_nat_alt)
  have "a - (acc_data ?acc + acc_data_len ?acc) < fd_ulong_sat_sub n (acc_data_len ?acc)"
    using assms(3)
    by (auto simp: resize_region_def Let_def mem_set_def region_acc_def split: if_splits)
  hence d: "unat (a - (acc_data ?acc + acc_data_len ?acc)) < unat n - unat (acc_data_len ?acc)"
    by (simp add: word_less_nat_alt unat_fd_ulong_sat_sub)
  have b: "unat (acc_data ?acc + acc_data_len ?acc) = unat (acc_data ?acc) + unat (acc_data_len ?acc)"
    using d e nr by (intro unat_add64) simp
  have "unat a = unat (acc_data ?acc + acc_data_len ?acc)
                 + unat (a - (acc_data ?acc + acc_data_len ?acc))"
    using d e nr b by (intro unat_offset64) simp
  hence "account_range (vm_acc_region_metas vm) (vm_accs vm) ?r a"
    using g b d nr by (simp add: account_range_def)
  thus ?thesis using mem by (auto simp: zeroable_def)
qed

lemma resize_acc_data:
  "acc_data (vm_accs (resize_region vm idx n) ! j) = acc_data (vm_accs vm ! j)"
  "length (vm_accs (resize_region vm idx n)) = length (vm_accs vm)"
  "vm_acc_region_metas (resize_region vm idx n) = vm_acc_region_metas vm"
proof -
  have upd: "acc_data (xs[k := (xs ! k)\<lparr>acc_data_len := v\<rparr>] ! j) = acc_data (xs ! j)" for xs k v
    by (cases "k < length xs") (auto simp: nth_list_update list_update_beyond)
  show "acc_data (vm_accs (resize_region vm idx n) ! j) = acc_data (vm_accs vm ! j)"
    by (simp add: resize_region_def Let_def upd)
qed (simp_all add: resize_region_def Let_def)

lemma region_wf_resize: "region_wf (resize_region vm idx n) r = region_wf vm r"
  by (simp add: region_wf_def region_acc_def resize_acc_data)

lemma resize_zeroable:
  assumes "resize_ok vm idx n" "zeroable (resize_region vm idx n) a"
  shows "zeroable vm a"
proof -
  let ?rs = "vm_input_mem_regions vm" and ?r = "vm_input_mem_regions vm ! idx"
  let ?in = "\<lambda>r. account_range (vm_acc_region_metas vm) (vm_accs vm) r a"
  have same: "account_range (vm_acc_region_metas vm) (vm_accs (resize_region vm idx n)) r a = ?in r" for r
    by (simp add: account_range_def region_acc_def resize_acc_data)
  from assms(2) obtain r where r: "r \<in> set (?rs[idx := ?r\<lparr>region_sz := ucast n\<rparr>])" "?in r"
    using same by (auto simp: zeroable_def resize_regions resize_acc_data(3))
  have "?in (?r\<lparr>region_sz := ucast n\<rparr>) \<Longrightarrow> ?in ?r"
    using assms(1) by (auto simp: account_range_def growable_def region_acc_def resize_ok_def)
  moreover have "r = ?r\<lparr>region_sz := ucast n\<rparr> \<or> r \<in> set ?rs"
    using r(1) set_update_subset_insert[of ?rs idx "?r\<lparr>region_sz := ucast n\<rparr>"] by blast
  moreover have "?r \<in> set ?rs" using assms(1) by (simp add: resize_ok_def)
  ultimately have "\<exists>r \<in> set ?rs. ?in r" using r(2) by metis
  thus ?thesis by (simp add: zeroable_def)
qed

lemma resize_wf:
  assumes "mem_wf vm" "resize_ok vm idx n"
  shows "mem_wf (resize_region vm idx n)"
proof -
  let ?rs = "vm_input_mem_regions vm" and ?r = "vm_input_mem_regions vm ! idx"
  let ?r' = "?r\<lparr>region_sz := ucast n\<rparr>"
  have i: "idx < length ?rs" using assms(2) by (simp add: resize_ok_def)
  have "region_wf vm ?r" using assms(1) i by (simp add: mem_wf_def)
  hence "region_wf vm ?r'"
    using resize_extent(1)[OF assms(2)] assms(2)
    by (auto simp: region_wf_def resize_ok_def growable_def region_acc_def)
  hence "\<forall>r \<in> set (?rs[idx := ?r']). region_wf vm r"
    using assms(1) by (auto simp: mem_wf_def dest: set_update_subset_insert[THEN subsetD])
  moreover have "vaddr_offset (?rs[idx := ?r'] ! k) = vaddr_offset (?rs ! k)"
      "address_space_reserved (?rs[idx := ?r'] ! k) = address_space_reserved (?rs ! k)" for k
    using i by (simp_all add: nth_list_update)
  hence "tiled (?rs[idx := ?r'])" using assms(1) by (simp add: mem_wf_def tiled_def)
  moreover have "vm_region_haddr (resize_region vm idx n) = vm_region_haddr vm"
      "vm_region_ld_sz (resize_region vm idx n) = vm_region_ld_sz vm"
      "vm_region_st_sz (resize_region vm idx n) = vm_region_st_sz vm"
      "vm_input_mem_regions_cnt (resize_region vm idx n) = vm_input_mem_regions_cnt vm"
    by (simp_all add: resize_region_def Let_def)
  ultimately show ?thesis
    using assms(1) by (simp add: mem_wf_def region_wf_resize resize_regions)
qed

text \<open>Both together for the handler itself.\<close>

lemma oob_safe:
  fixes off sz w
  assumes "mem_wf vm" "idx < length (vm_input_mem_regions vm)"
  defines "vm' \<equiv> fd_vm_handle_input_mem_region_oob vm off sz idx w"
  shows "mem_wf vm'" "mapped w' vm' a = mapped w' vm a" "zeroable vm' a \<Longrightarrow> zeroable vm a"
    and "vm_mem vm' a \<noteq> vm_mem vm a \<Longrightarrow> w \<and> zeroable vm a"
  using oob_ok_cases[OF assms(2), of off sz w] assms(1) resize_wf resize_mapped resize_zeroes
    resize_zeroable
  unfolding vm'_def by metis+

section \<open>Translation\<close>

lemma host_region_mapped:
  assumes "mem_wf vm" "host_region w vm base len"
  shows "unat base + len < 2 ^ 64"
    "unat base \<le> unat a \<Longrightarrow> unat a < unat base + len \<Longrightarrow> mapped w vm a"
proof -
  from assms(2) consider (fixed) r where "r \<in> set fixed_regions" "base = vm_region_haddr vm ! r"
      "len = unat (region_szs w vm ! r)"
    | (input) r where "r \<in> set (vm_input_mem_regions vm)" "w \<longrightarrow> is_writable r \<noteq> 0"
      "base = ir_haddr r" "len = unat (region_sz r)"
    by (auto simp: host_region_def)
  note region = this
  from region show "unat base + len < 2 ^ 64"
  proof cases
    case fixed
    thus ?thesis using assms(1) by (fastforce simp: mem_wf_def region_szs_def word_le_nat_alt)
  next
    case input
    hence "region_wf vm r" using assms(1) by (simp add: mem_wf_def)
    thus ?thesis using input by (auto simp: region_wf_def region_extent_def)
  qed
  assume "unat base \<le> unat a" "unat a < unat base + len"
  with region show "mapped w vm a"
    by cases (auto simp: mapped_def fixed_range_def input_range_def region_extent_def)
qed

lemma find_region_within:
  assumes "mem_wf vm" "fd_vm_find_input_mem_region vm off sz w 0 = (h, vm')" "h \<noteq> 0" "sz \<noteq> 0"
  shows "\<exists>base len. host_region w vm' base len \<and> unat base \<le> unat h
    \<and> unat h + unat sz \<le> unat base + len"
proof -
  let ?i = "fd_vm_get_input_mem_region_idx vm off"
  let ?r = "vm_input_mem_regions vm' ! ?i"
  have cnt: "unat (vm_input_mem_regions_cnt vm) = length (vm_input_mem_regions vm)"
    and tl: "tiled (vm_input_mem_regions vm)" using assms(1) by (simp_all add: mem_wf_def)
  from assms(2,3) have ne: "vm_input_mem_regions vm \<noteq> []"
    using cnt by (auto simp: fd_vm_find_input_mem_region_def unat_eq_0 split: if_splits)
  note idx = region_idx_lower[OF tl ne cnt, of off]
  have vm': "vm' = vm \<or> vm' = fd_vm_handle_input_mem_region_oob vm off sz ?i w"
    by (rule find_region_vm[OF assms(2)])
  hence wf': "mem_wf vm'" and len: "length (vm_input_mem_regions vm') = length (vm_input_mem_regions vm)"
    using assms(1) oob_safe(1)[OF assms(1) idx(1)] by auto
  have "vaddr_offset ?r = vaddr_offset (vm_input_mem_regions vm ! ?i)"
    using vm' oob_ok_cases[OF idx(1), of off sz w] idx(1) resize_regions by fastforce
  hence lo: "vaddr_offset ?r \<le> off" using idx(2) by simp
  have fit: "\<not> bytes_in_region ?r off < sz" and wr: "\<not> (w \<and> is_writable ?r = 0)"
    and h: "h = ir_haddr ?r + off - vaddr_offset ?r"
    using assms(2,3) unfolding fd_vm_find_input_mem_region_def Let_def by (auto split: if_splits)
  have r: "?r \<in> set (vm_input_mem_regions vm')" using idx(1) len by simp
  hence rw: "region_wf vm' ?r" using wf' by (simp add: mem_wf_def)
  have off: "unat (off - vaddr_offset ?r) = unat off - unat (vaddr_offset ?r)"
    using lo by (intro unat_sub64) (simp add: word_le_nat_alt)
  have "0 < unat sz" using assms(4) by (simp add: unat_gt_0)
  hence b: "unat (off - vaddr_offset ?r) + unat sz \<le> unat (region_sz ?r)"
    using fit off
    by (simp add: bytes_in_region_def word_less_nat_alt unat_fd_ulong_sat_sub not_less)
  have "unat (ir_haddr ?r) + unat (region_sz ?r) < 2 ^ 64"
    using rw by (auto simp: region_extent_def region_wf_def)
  hence uh: "unat h = unat (ir_haddr ?r) + unat (off - vaddr_offset ?r)"
    unfolding h add_diff_eq[symmetric] using b by (intro unat_add64) linarith
  have "host_region w vm' (ir_haddr ?r) (unat (region_sz ?r))"
    using r wr by (auto simp: host_region_def)
  moreover have "unat (ir_haddr ?r) \<le> unat h"
    "unat h + unat sz \<le> unat (ir_haddr ?r) + unat (region_sz ?r)" using uh b by simp_all
  ultimately show ?thesis by blast
qed

text \<open>The translation as the loads and stores of the interpreter call it.\<close>

definition translate :: "bool \<Rightarrow> fd_vm \<Rightarrow> u64 \<Rightarrow> u64 \<Rightarrow> u64 \<times> fd_vm" where
  "translate write vm vaddr sz =
     fd_vm_mem_haddr vm vaddr sz (vm_region_haddr vm) (region_szs write vm) write 0"

lemma region_cases: "unat (FD_VADDR_TO_REGION va) \<in> set fixed_regions \<or> FD_VADDR_TO_REGION va = 4"
proof -
  have "unat (FD_VADDR_TO_REGION va) \<le> 5"
    by (simp add: FD_VADDR_TO_REGION_def min_def word_le_nat_alt)
  hence "unat (FD_VADDR_TO_REGION va) \<in> {0, 1, 2, 3, 4, 5}" by auto
  thus ?thesis by (auto simp: fixed_regions_def word_unat_eq_iff)
qed

lemma fixed_range_within:
  assumes "mem_wf vm" "r \<in> set fixed_regions" "sz \<noteq> 0"
    and "sz \<le> ucast (region_szs w vm ! r) - min off (ucast (region_szs w vm ! r))"
  shows "\<exists>base len. host_region w vm base len \<and> unat base \<le> unat (vm_region_haddr vm ! r + off)
    \<and> unat (vm_region_haddr vm ! r + off) + unat sz \<le> unat base + len"
proof -
  let ?sz = "region_szs w vm ! r" and ?h = "vm_region_haddr vm ! r"
  have reg: "host_region w vm ?h (unat ?sz)" using assms(2) by (auto simp: host_region_def)
  have "unat (ucast ?sz - min off (ucast ?sz) :: u64) = unat ?sz - min (unat off) (unat ?sz)"
    by (cases "off \<le> ucast ?sz") (simp_all add: min_def word_le_nat_alt unat_sub64)
  moreover have "0 < unat sz" using assms(3) by (simp add: unat_gt_0)
  ultimately have b: "unat off + unat sz \<le> unat ?sz"
    using assms(4) by (simp add: word_le_nat_alt)
  hence "unat (?h + off) = unat ?h + unat off"
    using host_region_mapped(1)[OF assms(1) reg] by (intro unat_add64) linarith
  hence "unat ?h \<le> unat (?h + off)" "unat (?h + off) + unat sz \<le> unat ?h + unat ?sz"
    using b by simp_all
  thus ?thesis using reg by blast
qed

lemma translate_cases:
  assumes "translate w vm va sz = (h, vm')" "h \<noteq> 0"
  obtains (input) off where "fd_vm_find_input_mem_region vm off sz w 0 = (h, vm')"
  | (fixed) r off where "r \<in> set fixed_regions" "vm' = vm" "h = vm_region_haddr vm ! r + off"
      "sz \<le> ucast (region_szs w vm ! r) - min off (ucast (region_szs w vm ! r))"
proof (cases "FD_VADDR_TO_REGION va = 4")
  case True
  thus ?thesis using assms input
    by (auto simp: translate_def fd_vm_mem_haddr_def Let_def split: if_splits)
next
  case False
  with region_cases[of va] have r: "unat (FD_VADDR_TO_REGION va) \<in> set fixed_regions" by blast
  show ?thesis
    by (rule fixed[OF r])
       (use False assms in \<open>auto simp: translate_def fd_vm_mem_haddr_def Let_def split: if_splits\<close>)
qed

lemma translate_within:
  assumes "mem_wf vm" "translate w vm va sz = (h, vm')" "h \<noteq> 0" "sz \<noteq> 0"
  shows "\<exists>base len. host_region w vm' base len \<and> unat base \<le> unat h
    \<and> unat h + unat sz \<le> unat base + len"
  using assms(2,3)
proof (cases rule: translate_cases)
  case (input off)
  show ?thesis by (rule find_region_within[OF assms(1) input assms(3,4)])
next
  case (fixed r off)
  show ?thesis unfolding fixed(2,3) by (rule fixed_range_within[OF assms(1) fixed(1) assms(4) fixed(4)])
qed

lemma translate_vm:
  assumes "mem_wf vm" "translate w vm va sz = (h, vm')"
  obtains (same) "vm' = vm"
  | (oob) off idx where "idx < length (vm_input_mem_regions vm)"
      "vm' = fd_vm_handle_input_mem_region_oob vm off sz idx w"
proof (cases "vm' = vm")
  case False
  obtain off where f: "fd_vm_find_input_mem_region vm off sz w 0 = (h, vm')"
    using assms(2) False
    by (auto simp: translate_def fd_vm_mem_haddr_def Let_def split: if_splits)
  have "unat (vm_input_mem_regions_cnt vm) = length (vm_input_mem_regions vm)"
    and tl: "tiled (vm_input_mem_regions vm)" using assms(1) by (simp_all add: mem_wf_def)
  moreover have "vm_input_mem_regions vm \<noteq> []"
    using f False calculation(1)
    by (auto simp: fd_vm_find_input_mem_region_def unat_eq_0 split: if_splits)
  ultimately have "fd_vm_get_input_mem_region_idx vm off < length (vm_input_mem_regions vm)"
    by (intro region_idx_lower)
  thus ?thesis using oob find_region_vm[OF f] False by blast
qed (rule same)

lemma translate_keeps:
  assumes "mem_wf vm" "translate w vm va sz = (h, vm')"
  shows "mem_wf vm'" "mapped w' vm' a = mapped w' vm a" "zeroable vm' a \<Longrightarrow> zeroable vm a"
    "vm_mem vm' a \<noteq> vm_mem vm a \<Longrightarrow> w \<and> zeroable vm a"
proof -
  from assms show "mem_wf vm'"
    by (cases rule: translate_vm) (use assms(1) oob_safe(1) in auto)
  from assms show "mapped w' vm' a = mapped w' vm a"
    by (cases rule: translate_vm) (use assms(1) oob_safe(2) in auto)
  {
    assume "zeroable vm' a"
    with assms show "zeroable vm a"
      by (cases rule: translate_vm) (simp, use assms(1) oob_safe(3) in blast)
  next
    assume "vm_mem vm' a \<noteq> vm_mem vm a"
    with assms show "w \<and> zeroable vm a"
      by (cases rule: translate_vm) (simp, use assms(1) oob_safe(4) in blast)
  }
qed

lemma translate_safe:
  assumes "mem_wf vm" "translate w vm va sz = (h, vm')" "h \<noteq> 0" "k < unat sz"
  shows "mapped w vm' (h + of_nat k)"
proof -
  have "sz \<noteq> 0" using assms(4) by auto
  from translate_within[OF assms(1-3) this] obtain base len where
    r: "host_region w vm' base len" "unat base \<le> unat h" "unat h + unat sz \<le> unat base + len"
    by blast
  note m = host_region_mapped[OF translate_keeps(1)[OF assms(1,2)] r(1)]
  have "k < 2 ^ 64" using assms(4) unat_lt64[of sz] by simp
  hence "unat (h + of_nat k) = unat h + k"
    using m(1) r(3) assms(4) by (subst unat_add64) (simp_all add: unat_of_nat)
  thus ?thesis using m(2) r(2,3) assms(4) by simp
qed

lemma oob_read: "fd_vm_handle_input_mem_region_oob vm off sz idx False = vm"
  by (simp add: fd_vm_handle_input_mem_region_oob_def Let_def)

lemma translate_read: "translate False vm va sz = (h, vm') \<Longrightarrow> vm' = vm"
  unfolding translate_def by (drule mem_haddr_vm) (auto simp: oob_read)

section \<open>Loads and stores through an address translation\<close>

definition store_via ::
    "(bool \<Rightarrow> fd_vm \<Rightarrow> u64 \<Rightarrow> u64 \<Rightarrow> u64 \<times> fd_vm) \<Rightarrow> u64 \<Rightarrow> u8 list \<Rightarrow> fd_vm \<Rightarrow> bool \<times> fd_vm" where
  "store_via tr vaddr bs vm =
     (let (h, vm) = tr True vm vaddr (of_nat (length bs))
      in if h = 0 then (False, vm) else (True, vm\<lparr>vm_mem := mem_st (vm_mem vm) h bs\<rparr>))"

definition load_via ::
    "(bool \<Rightarrow> fd_vm \<Rightarrow> u64 \<Rightarrow> u64 \<Rightarrow> u64 \<times> fd_vm) \<Rightarrow> nat \<Rightarrow> u64 \<Rightarrow> fd_vm \<Rightarrow> u64 option" where
  "load_via tr n vaddr vm =
     (let (h, vm) = tr False vm vaddr (of_nat n)
      in if h = 0 then None else Some (mem_ld n (vm_mem vm) h))"

text \<open>The contract between the translation and its clients.\<close>

locale address_translation =
  fixes tr :: "bool \<Rightarrow> fd_vm \<Rightarrow> u64 \<Rightarrow> u64 \<Rightarrow> u64 \<times> fd_vm"
    and wf :: "fd_vm \<Rightarrow> bool" and space :: "bool \<Rightarrow> fd_vm \<Rightarrow> u64 \<Rightarrow> bool"
    and zeroed :: "fd_vm \<Rightarrow> u64 \<Rightarrow> bool"
  assumes hit: "wf vm \<Longrightarrow> tr w vm va sz = (h, vm') \<Longrightarrow> h \<noteq> 0 \<Longrightarrow> k < unat sz \<Longrightarrow>
      space w vm' (h + of_nat k)"
    and keeps_wf: "wf vm \<Longrightarrow> tr w vm va sz = (h, vm') \<Longrightarrow> wf vm'"
    and keeps_space: "wf vm \<Longrightarrow> tr w vm va sz = (h, vm') \<Longrightarrow> space w' vm' a = space w' vm a"
    and keeps_zeroed: "wf vm \<Longrightarrow> tr w vm va sz = (h, vm') \<Longrightarrow> zeroed vm' a \<Longrightarrow> zeroed vm a"
    and confined: "wf vm \<Longrightarrow> tr w vm va sz = (h, vm') \<Longrightarrow> vm_mem vm' a \<noteq> vm_mem vm a \<Longrightarrow>
      zeroed vm a"
    and read_only: "tr False vm va sz = (h, vm') \<Longrightarrow> vm' = vm"
    and no_mem: "wf (vm\<lparr>vm_mem := m\<rparr>) = wf vm" "space w (vm\<lparr>vm_mem := m\<rparr>) a = space w vm a"
      "fst (tr False (vm\<lparr>vm_mem := m\<rparr>) va sz) = fst (tr False vm va sz)"
      "zeroed (vm\<lparr>vm_mem := m\<rparr>) a = zeroed vm a"
begin

lemma mem_st_range:
  assumes "mem_st m h bs a \<noteq> m a" "length bs < 2 ^ 64"
  shows "\<exists>k < unat (of_nat (length bs) :: u64). a = h + of_nat k"
  using assms
  by (intro exI[of _ "unat (a - h)"]) (auto simp: mem_st_def unat_of_nat split: if_splits)

lemma store_keeps:
  assumes "wf vm" "store_via tr va bs vm = (ok, vm')"
  shows "wf vm'" "space w vm' a = space w vm a" "zeroed vm' a \<Longrightarrow> zeroed vm a"
  using assms keeps_wf keeps_space keeps_zeroed
  by (auto simp: store_via_def Let_def no_mem split: prod.splits if_splits)

lemma store_confined:
  assumes "wf vm" "store_via tr va bs vm = (ok, vm')" "length bs < 2 ^ 64"
    and "vm_mem vm' a \<noteq> vm_mem vm a"
  shows "space True vm a \<or> zeroed vm a"
proof -
  obtain h vm1 where t: "tr True vm va (of_nat (length bs)) = (h, vm1)" by fastforce
  show ?thesis
  proof (cases "vm_mem vm1 a = vm_mem vm a")
    case False
    thus ?thesis using confined[OF assms(1) t] by simp
  next
    case True
    hence "h \<noteq> 0" "mem_st (vm_mem vm1) h bs a \<noteq> vm_mem vm1 a"
      using assms(2,4) t by (auto simp: store_via_def Let_def split: if_splits)
    then obtain k where "k < unat (of_nat (length bs) :: u64)" "a = h + of_nat k"
      using mem_st_range assms(3) by blast
    thus ?thesis using hit[OF assms(1) t \<open>h \<noteq> 0\<close>] keeps_space[OF assms(1) t] by simp
  qed
qed

lemma load_local:
  assumes "wf vm" "n < 2 ^ 64" "\<And>a. space False vm a \<Longrightarrow> m a = vm_mem vm a"
  shows "load_via tr n va (vm\<lparr>vm_mem := m\<rparr>) = load_via tr n va vm"
proof -
  obtain h where t: "tr False vm va (of_nat n) = (h, vm)" using read_only by (metis prod.collapse)
  hence t': "tr False (vm\<lparr>vm_mem := m\<rparr>) va (of_nat n) = (h, vm\<lparr>vm_mem := m\<rparr>)"
    using no_mem(3) read_only by (metis fst_conv prod.collapse)
  have "mem_ld n m h = mem_ld n (vm_mem vm) h" if "h \<noteq> 0"
  proof -
    have "map (\<lambda>i. m (h + of_nat i)) [0 ..< n] = map (\<lambda>i. vm_mem vm (h + of_nat i)) [0 ..< n]"
      using hit[OF assms(1) t that] assms(2,3) by (intro map_cong) (simp_all add: unat_of_nat)
    thus ?thesis by (simp only: mem_ld_def)
  qed
  thus ?thesis using t t' by (simp add: load_via_def)
qed

end

lemma translate_no_mem:
  "fst (translate False (vm\<lparr>vm_mem := m\<rparr>) va sz) = fst (translate False vm va sz)"
proof -
  have find: "fst (fd_vm_find_input_mem_region (vm\<lparr>vm_mem := m\<rparr>) off sz False 0)
      = fst (fd_vm_find_input_mem_region vm off sz False 0)" for off
    by (simp add: fd_vm_find_input_mem_region_def fd_vm_get_input_mem_region_idx_def oob_read Let_def)
  show ?thesis
    by (simp add: translate_def fd_vm_mem_haddr_def region_szs_def Let_def find)
qed

lemma mem_wf_no_mem: "mem_wf (vm\<lparr>vm_mem := m\<rparr>) = mem_wf vm"
  by (simp add: mem_wf_def region_wf_def)

lemma mapped_no_mem: "mapped w (vm\<lparr>vm_mem := m\<rparr>) a = mapped w vm a"
  by (simp add: mapped_def region_szs_def)

lemma zeroable_no_mem: "zeroable (vm\<lparr>vm_mem := m\<rparr>) a = zeroable vm a"
  by (simp add: zeroable_def)

interpretation vm: address_translation translate mem_wf mapped zeroable
proof
  fix vm w va sz h vm' k assume "mem_wf vm" "translate w vm va sz = (h, vm')" "h \<noteq> 0" "k < unat sz"
  thus "mapped w vm' (h + of_nat k)" by (rule translate_safe)
next
  fix vm w va sz h vm' w' a assume "mem_wf vm" "translate w vm va sz = (h, vm')"
  thus "mem_wf vm'" "mapped w' vm' a = mapped w' vm a" "zeroable vm' a \<Longrightarrow> zeroable vm a"
    by (rule translate_keeps)+
next
  fix vm w va sz h vm' a
  assume "mem_wf vm" "translate w vm va sz = (h, vm')" "vm_mem vm' a \<noteq> vm_mem vm a"
  thus "zeroable vm a" using translate_keeps(4) by blast
qed (simp_all add: translate_read translate_no_mem mem_wf_no_mem mapped_no_mem zeroable_no_mem)

end
