(* ===== verification/Vm_Confined.thy ===== *)
theory Vm_Confined
  imports Vm_Mem_Safe
begin

text \<open>
  Confinement of a run: in every state a program can reach, the host bytes that differ from the start
  are bytes the machine maps for writing or belong to the buffer of an account it may grow.
  Read-only data, the text and everything outside the machine stay as they were.
\<close>

definition confined_to :: "fd_vm \<Rightarrow> fd_vm \<Rightarrow> bool" where
  "confined_to vm vm' \<longleftrightarrow>
     mem_wf vm' \<and> (\<forall>w a. mapped w vm' a = mapped w vm a) \<and> (\<forall>a. zeroable vm' a \<longrightarrow> zeroable vm a)
     \<and> (\<forall>a. vm_mem vm' a \<noteq> vm_mem vm a \<longrightarrow> mapped True vm a \<or> zeroable vm a)"

lemma confined_to_refl: "mem_wf vm \<Longrightarrow> confined_to vm vm"
  by (simp add: confined_to_def)

lemma confined_to_trans: "confined_to vm vm' \<Longrightarrow> confined_to vm' vm'' \<Longrightarrow> confined_to vm vm''"
  unfolding confined_to_def by metis

text \<open>The part of a machine that translation and memory depend on.\<close>

definition mem_view where
  "mem_view vm =
     (vm_region_haddr vm, vm_region_ld_sz vm, vm_region_st_sz vm, vm_input_mem_regions vm,
      vm_input_mem_regions_cnt vm, vm_accs vm, vm_acc_region_metas vm, vm_mem vm)"

lemma mem_view_confined:
  assumes "mem_view vm' = mem_view vm" "mem_wf vm"
  shows "confined_to vm vm'"
proof -
  have "region_wf vm' = region_wf vm" using assms(1) by (simp add: mem_view_def region_wf_def fun_eq_iff)
  thus ?thesis
    using assms
    by (simp add: confined_to_def mem_view_def mem_wf_def mapped_def zeroable_def region_szs_def)
qed

primrec leaves :: "(fd_vm \<Rightarrow> bool) \<Rightarrow> outcome \<Rightarrow> bool" where
  "leaves P (Next st) = P (i_vm st)"
| "leaves P (Halt err st) = P (i_vm st)"
| "leaves P (Stuck ub) = True"

definition view_closed :: "(fd_vm \<Rightarrow> bool) \<Rightarrow> bool" where
  "view_closed P \<longleftrightarrow> (\<forall>vm vm'. mem_view vm = mem_view vm' \<longrightarrow> P vm \<longrightarrow> P vm')"

lemma view_closed_confined: "view_closed (confined_to vm)"
  unfolding view_closed_def
  using mem_view_confined confined_to_trans by (metis confined_to_def)

lemma view_closedD: "view_closed P \<Longrightarrow> P vm \<Longrightarrow> mem_view vm' = mem_view vm \<Longrightarrow> P vm'"
  unfolding view_closed_def by metis

lemma leaves_halt:
  assumes "view_closed P" "P (i_vm st)"
  shows "leaves P (interp_halt err st)" "leaves P (interp_fault err st)"
  using view_closedD[OF assms]
  by (simp_all add: interp_halt_def interp_fault_def Let_def mem_view_def)

lemma leaves_sig:
  assumes "view_closed P" "P (i_vm st)"
  shows "leaves P (sigtext st)" "leaves P (sigtextbr st)" "leaves P (sigstack st)"
    "leaves P (sigill st)" "leaves P (sigillbr st)" "leaves P (siginv st)" "leaves P (sigsegv st)"
    "leaves P (sigcost st)" "leaves P (sigsyscall st)" "leaves P (sigfpe st)"
    "leaves P (sigfpeof st)" "leaves P (sigexit st)" "leaves P (sigtext_or_sigcost env st)"
  using leaves_halt[OF assms] leaves_halt[OF assms(1), of "st\<lparr>i_cu := 0\<rparr>"] assms(2)
  by (simp_all add: sigtext_def sigtextbr_def sigstack_def sigill_def sigillbr_def siginv_def
        sigsegv_def sigcost_def sigsyscall_def sigfpe_def sigfpeof_def sigexit_def
        sigtext_or_sigcost_def)

lemma view_reg_set [simp]: "mem_view (i_vm (reg_set k v st)) = mem_view (i_vm st)"
  by (simp add: reg_set_def mem_view_def)

lemma leaves_instr_end: "P (i_vm st) \<Longrightarrow> leaves P (instr_end st)"
  by (simp add: instr_end_def)

lemma leaves_branch_end: "P (i_vm st) \<Longrightarrow> leaves P (branch_end env st)"
  by (simp add: branch_end_def)

lemma leaves_branch_begin:
  assumes "view_closed P" "P (i_vm st)" "\<And>st. P (i_vm st) \<Longrightarrow> leaves P (body st)"
  shows "leaves P (branch_begin body st)"
  using assms by (simp add: branch_begin_def Let_def leaves_sig)

lemma leaves_reg: "view_closed P \<Longrightarrow> P (i_vm st) \<Longrightarrow> P (i_vm (reg_set k v st))"
  by (erule view_closedD) simp_all

lemma leaves_put:
  assumes "view_closed P" "P (i_vm st)" "\<And>st. P (i_vm st) \<Longrightarrow> leaves P (k st)"
  shows "leaves P (reg_put i v k st)"
  using assms by (simp add: reg_put_def leaves_reg)

lemma leaves_get:
  assumes "P (i_vm st)" "\<And>v st. P (i_vm st) \<Longrightarrow> leaves P (k v st)"
  shows "leaves P (reg_get i k st)"
  using assms by (simp add: reg_get_def split: option.split)

lemma leaves_stack_push:
  assumes "view_closed P" "P (i_vm st)" "\<And>st. P (i_vm st) \<Longrightarrow> leaves P (body st)"
  shows "leaves P (stack_push env body st)"
proof -
  have "P ((i_vm st)\<lparr>vm_shadow := sh\<rparr>)" for sh
    by (rule view_closedD[OF assms(1,2)]) (simp add: mem_view_def)
  thus ?thesis
    using assms
    by (auto simp: stack_push_def Let_def leaves_sig split: option.split
          intro!: leaves_get leaves_put)
qed

lemma leaves_alu: "view_closed P \<Longrightarrow> P (i_vm st) \<Longrightarrow> leaves P (alu_exec f i st)"
  by (auto simp: alu_exec_def leaves_sig leaves_put leaves_instr_end split: op_result.split)

lemma leaves_ldq: "view_closed P \<Longrightarrow> P (i_vm st) \<Longrightarrow> leaves P (interp_0x18 env i st)"
  by (auto simp: interp_0x18_def Let_def leaves_put leaves_instr_end)

lemma leaves_jmp: "view_closed P \<Longrightarrow> P (i_vm st) \<Longrightarrow> leaves P (jmp_exec env f i st)"
  unfolding jmp_exec_def by (rule leaves_branch_begin) (simp_all add: leaves_branch_end)

lemma leaves_call_to: "view_closed P \<Longrightarrow> P (i_vm st) \<Longrightarrow> leaves P (call_to env pc st)"
  unfolding call_to_def by (rule leaves_stack_push) (simp_all add: leaves_branch_end)

lemma leaves_exit: "view_closed P \<Longrightarrow> P (i_vm st) \<Longrightarrow> leaves P (interp_0x95 env st)"
  unfolding interp_0x95_def
  by (rule leaves_branch_begin) (auto simp: Let_def leaves_sig leaves_put leaves_branch_end)

lemma leaves_callx_jump: "view_closed P \<Longrightarrow> P (i_vm st) \<Longrightarrow> leaves P (callx_jump env i st)"
  by (auto simp: callx_jump_def Let_def leaves_sig leaves_branch_end intro!: leaves_get)

lemma leaves_callx: "view_closed P \<Longrightarrow> P (i_vm st) \<Longrightarrow> leaves P (interp_0x8d env i st)"
  unfolding interp_0x8d_def
  by (intro leaves_branch_begin leaves_stack_push) (simp_all add: leaves_callx_jump)

section \<open>System calls\<close>

text \<open>What a system call is trusted with: it accesses memory through the same translation.\<close>

definition syscalls_confined :: "(u64 \<Rightarrow> syscall option) \<Rightarrow> bool" where
  "syscalls_confined syscalls \<longleftrightarrow>
     (\<forall>k f vm r1 r2 r3 r4 r5 err ret vm'.
        syscalls k = Some f \<longrightarrow> mem_wf vm \<longrightarrow> f vm r1 r2 r3 r4 r5 = (err, ret, vm') \<longrightarrow>
        confined_to vm vm')"

lemma leaves_syscall:
  assumes "syscalls_confined (e_syscalls env)" "syscall_query env imm = Some f"
    and "confined_to vm0 (i_vm st)"
  shows "leaves (confined_to vm0) (syscall_exec f (branch_end env) st)"
proof -
  note vc = view_closed_confined[of vm0]
  let ?vm = "(i_vm st)\<lparr> vm_pc := i_pc st, vm_ic := i_ic st, vm_cu := i_cu st,
               vm_frame_cnt := i_frame_cnt st \<rparr>"
  have c: "confined_to vm0 ?vm"
    by (rule view_closedD[OF vc assms(3)]) (simp add: mem_view_def)
  have "e_syscalls env (ucast imm) = Some f"
    using assms(2) by (simp add: syscall_query_def split: if_splits)
  hence "confined_to vm0 vm'" if "syscall_call f ?vm = Some (err, ret, vm')" for err ret vm'
    using assms(1) c that confined_to_trans[OF c]
    unfolding syscalls_confined_def syscall_call_def Let_def bind_eq_Some_conv confined_to_def[of vm0 ?vm]
    by (metis option.inject)
  thus ?thesis
    by (auto simp: syscall_exec_def Let_def leaves_sig[OF vc] leaves_branch_end
          split: option.split prod.split intro!: leaves_put[OF vc])
qed

section \<open>Loads and stores\<close>

lemma mem_store_via:
  assumes "length bs = sz"
  shows "mem_store sz va bs st =
    (let (ok, vm) = store_via translate va bs (i_vm st)
     in if ok then instr_end (st\<lparr>i_vm := vm\<rparr>)
        else sigsegv (st\<lparr>i_vm := segv_at va 2 (of_nat sz) vm\<rparr>))"
  using assms
  by (auto simp: mem_store_def store_via_def translate_def region_szs_def Let_def split: prod.split)

lemma mem_load_via:
  "mem_load sz va dst st =
    (case load_via translate sz va (i_vm st) of
       Some v \<Rightarrow> reg_put dst v instr_end st
     | None \<Rightarrow> sigsegv (st\<lparr>i_vm := segv_at va 1 (of_nat sz) (i_vm st)\<rparr>))"
proof -
  obtain h where "translate False (i_vm st) va (of_nat sz) = (h, i_vm st)"
    using translate_read by (metis prod.collapse)
  thus ?thesis
    by (simp add: mem_load_def load_via_def translate_def region_szs_def Let_def)
qed

lemma leaves_mem_store:
  assumes "confined_to vm0 (i_vm st)" "length bs = sz" "sz < 2 ^ 64"
  shows "leaves (confined_to vm0) (mem_store sz va bs st)"
proof -
  obtain ok vm where s: "store_via translate va bs (i_vm st) = (ok, vm)" by fastforce
  have wf: "mem_wf (i_vm st)" using assms(1) by (simp add: confined_to_def)
  have "confined_to (i_vm st) vm"
    using vm.store_keeps[OF wf s] vm.store_confined[OF wf s] assms(2,3)
    unfolding confined_to_def by blast
  with assms(1) have c: "confined_to vm0 vm" by (rule confined_to_trans)
  moreover have "confined_to vm0 (segv_at va 2 (of_nat sz) vm)"
    by (rule view_closedD[OF view_closed_confined c]) (simp add: segv_at_def mem_view_def)
  ultimately show ?thesis
    using mem_store_via[OF assms(2)] s view_closed_confined
    by (simp add: leaves_instr_end leaves_sig)
qed

lemma leaves_mem_load:
  assumes "confined_to vm0 (i_vm st)"
  shows "leaves (confined_to vm0) (mem_load sz va dst st)"
proof -
  have "confined_to vm0 (segv_at va 1 (of_nat sz) (i_vm st))"
    by (rule view_closedD[OF view_closed_confined assms]) (simp add: segv_at_def mem_view_def)
  thus ?thesis
    using assms view_closed_confined
    by (auto simp: mem_load_via leaves_instr_end leaves_put leaves_sig split: option.split)
qed

lemma leaves_mem_exec:
  "confined_to vm0 (i_vm st) \<Longrightarrow> leaves (confined_to vm0) (mem_exec m i st)"
  by (cases m)
     (simp_all add: interp_0x27_def interp_0x2c_def interp_0x2f_def interp_0x37_def interp_0x3c_def
        interp_0x3f_def interp_0x87_def interp_0x8c_def interp_0x8f_def interp_0x97_def
        interp_0x9c_def interp_0x9f_def leaves_mem_store leaves_mem_load)

section \<open>Runs\<close>

lemma leaves_call_imm:
  assumes "syscalls_confined (e_syscalls env)" "confined_to vm0 (i_vm st)"
  shows "leaves (confined_to vm0) (interp_0x85 env i st)"
  unfolding interp_0x85_def
  by (rule leaves_branch_begin[OF view_closed_confined assms(2)])
     (auto simp: Let_def leaves_sig[OF view_closed_confined] leaves_call_to[OF view_closed_confined]
        leaves_syscall[OF assms(1)] split: option.split)

lemma leaves_call_static:
  assumes "syscalls_confined (e_syscalls env)" "confined_to vm0 (i_vm st)"
  shows "leaves (confined_to vm0) (interp_0x85_static env i st)"
  unfolding interp_0x85_static_def
  by (rule leaves_branch_begin[OF view_closed_confined assms(2)])
     (auto simp: Let_def leaves_sig[OF view_closed_confined] leaves_call_to[OF view_closed_confined]
        leaves_syscall[OF assms(1)] split: option.split)

lemma leaves_interp_exec:
  assumes "syscalls_confined (e_syscalls env)" "confined_to vm0 (i_vm st)"
  shows "leaves (confined_to vm0) (interp_exec env st)"
proof -
  note vc = view_closed_confined
  have "leaves (confined_to vm0) (label_exec env lab i st)" for lab i
    by (cases lab)
       (simp_all add: assms leaves_sig[OF vc] leaves_alu[OF vc] leaves_jmp[OF vc] leaves_ldq[OF vc]
          leaves_mem_exec leaves_call_imm leaves_call_static leaves_callx[OF vc] leaves_exit[OF vc])
  thus ?thesis
    using assms(2) leaves_sig(13)[OF vc] by (simp add: interp_exec_def Let_def split: option.split)
qed

lemma reaches_confined:
  assumes "reaches (istep (exec_env syscalls vm)) (exec_start vm) st"
    and "syscalls_confined syscalls" "mem_wf vm"
  shows "confined_to vm (i_vm st)"
  using assms(1)
proof (induction rule: reaches.induct)
  case reaches_refl
  show ?case using assms(3) by (simp add: exec_start_def confined_to_refl)
next
  case (reaches_step st st')
  have "leaves (confined_to vm) (interp_exec (exec_env syscalls vm) st)"
    using assms(2) reaches_step.IH by (intro leaves_interp_exec) (simp_all add: exec_env_def)
  thus ?case using reaches_step.hyps(2) by (simp add: istep_Inl)
qed

lemma exec_confined:
  assumes "fd_vm_exec_notrace fuel syscalls vm = Some (Halt err st)"
    and "syscalls_confined syscalls" "mem_wf vm"
  shows "confined_to vm (i_vm st)"
proof -
  let ?env = "exec_env syscalls vm"
  obtain s where s: "reaches (istep ?env) (exec_start vm) s" "istep ?env s = Inr (Halt err st)"
    using fuel_run_reaches[OF _ reaches_refl] assms(1)
    unfolding fd_vm_exec_notrace_def interp_run_fuel_run by metis
  have "leaves (confined_to vm) (interp_exec ?env s)"
    using assms(2) reaches_confined[OF s(1) assms(2,3)]
    by (intro leaves_interp_exec) (simp_all add: exec_env_def)
  thus ?thesis using s(2) by (simp add: istep_def split: outcome.splits)
qed

end
