(* ===== verification/Vm_Meter.thy ===== *)
theory Vm_Meter
  imports Vm_Halts
begin

text \<open>
  Compute unit metering.  The interpreter bills a linear segment of text at its end and bounds the
  segment by twice the remaining budget; the reference below charges one unit before every
  instruction.  The two give the same error and the same remaining budget, and the same machine whenever the
  budget suffices.
\<close>

section \<open>The reference: one compute unit per instruction\<close>

text \<open>
  A unit is charged before an instruction runs, one that faults included, and without a unit left
  nothing runs.  The segment is set past the instruction, so that the brackets of the handlers find
  nothing more to bill.
\<close>

definition charge :: "istate \<Rightarrow> istate" where
  "charge st = st\<lparr> i_ic := i_ic st + 1, i_cu := i_cu st - 1, i_pc0 := i_pc st + 1,
                  i_ic_correction := 0 \<rparr>"

definition ref_exec :: "ienv \<Rightarrow> istate \<Rightarrow> outcome" where
  "ref_exec env st =
     (if i_cu st = 0 then sigcost st
      else if e_text_cnt env \<le> i_pc st
      then interp_halt FD_VM_ERR_EBPF_EXECUTION_OVERRUN (charge st)
      else case decode (e_text env ! unat (i_pc st)) (i_reg st) of
             None \<Rightarrow> Stuck UB_register
           | Some i \<Rightarrow> label_exec env (label_at env (unat (i_pc st))) i (charge st))"

lemma ref_exec_label:
  assumes "istate_ok env st" "i_vm rs = i_vm st" "i_pc rs = i_pc st" "i_cu rs \<noteq> 0"
    and "i_pc st < e_text_cnt env"
  shows "ref_exec env rs = label_exec env (label_at env (unat (i_pc st))) (decoded_at env st) (charge rs)"
  using assms decoded_at(1)[of st env] by (simp add: ref_exec_def istate_ok_def not_le[symmetric])

definition rstep :: "ienv \<Rightarrow> istate \<Rightarrow> istate + outcome" where
  "rstep env st = (case ref_exec env st of Next st' \<Rightarrow> Inl st' | res \<Rightarrow> Inr res)"

section \<open>Handlers do not look at the meter\<close>

definition retime :: "u64 \<Rightarrow> u64 \<Rightarrow> u64 \<Rightarrow> u64 \<Rightarrow> u64 \<Rightarrow> istate \<Rightarrow> istate" where
  "retime ic cu pc0 corr lim st =
     st\<lparr> i_ic := ic, i_cu := cu, i_pc0 := pc0, i_ic_correction := corr, i_block_text_limit := lim \<rparr>"

fun linear_outcome :: "(int \<times> fd_vm) + (fd_vm \<times> bool) \<Rightarrow> istate \<Rightarrow> outcome" where
  "linear_outcome (Inl (err, vm)) st = interp_fault err (st\<lparr>i_vm := vm\<rparr>)"
| "linear_outcome (Inr (vm, wide)) st =
     Next (st\<lparr> i_vm := vm, i_pc := i_pc st + (if wide then 2 else 1),
              i_ic_correction := i_ic_correction st + (if wide then 1 else 0) \<rparr>)"

lemma linear_mem_store:
  "\<exists>res. \<forall>ic cu pc0 corr lim. mem_store sz va bs (retime ic cu pc0 corr lim st)
           = linear_outcome res (retime ic cu pc0 corr lim st)"
proof -
  let ?vm = "i_vm st"
  obtain h vm' where h: "fd_vm_mem_haddr ?vm va (of_nat sz) (vm_region_haddr ?vm)
                           (vm_region_st_sz ?vm) True 0 = (h, vm')" by fastforce
  let ?sv = "segv_at va 2 (of_nat sz) vm'"
  show ?thesis
    by (rule exI[of _ "if h = 0
          then Inl (fd_vm_generate_access_violation (vm_segv_vaddr ?sv) (vm_sbpf_version ?sv), ?sv)
          else Inr (vm'\<lparr>vm_mem := mem_st (vm_mem vm') h bs\<rparr>, False)"])
       (simp add: mem_store_def h retime_def sigsegv_def instr_end_def)
qed

lemma linear_mem_load:
  "dst < length (i_reg st) \<Longrightarrow> \<exists>res. \<forall>ic cu pc0 corr lim. mem_load sz va dst (retime ic cu pc0 corr lim st)
           = linear_outcome res (retime ic cu pc0 corr lim st)"
proof -
  assume dst: "dst < length (i_reg st)"
  let ?vm = "i_vm st"
  obtain h vm' where h: "fd_vm_mem_haddr ?vm va (of_nat sz) (vm_region_haddr ?vm)
                           (vm_region_ld_sz ?vm) False 0 = (h, vm')" by fastforce
  let ?sv = "segv_at va 1 (of_nat sz) vm'"
  show ?thesis
    by (rule exI[of _ "if h = 0
          then Inl (fd_vm_generate_access_violation (vm_segv_vaddr ?sv) (vm_sbpf_version ?sv), ?sv)
          else Inr (vm'\<lparr>vm_reg := (vm_reg vm')[dst := mem_ld sz (vm_mem vm') h]\<rparr>, False)"])
       (simp add: mem_load_def h retime_def sigsegv_def instr_end_def reg_set_def dst
          mem_haddr_frame[OF h])
qed

lemma linear_mem_exec:
  "d_dst i < length (i_reg st) \<Longrightarrow> \<exists>res. \<forall>ic cu pc0 corr lim. mem_exec m i (retime ic cu pc0 corr lim st)
           = linear_outcome res (retime ic cu pc0 corr lim st)"
  by (cases m)
     (simp_all add: interp_0x27_def interp_0x2c_def interp_0x2f_def interp_0x37_def interp_0x3c_def
        interp_0x3f_def interp_0x87_def interp_0x8c_def interp_0x8f_def interp_0x97_def
        interp_0x9c_def interp_0x9f_def linear_mem_store linear_mem_load)

lemma linear_alu:
  assumes "f (d_reg_dst i) (d_reg_src i) (d_imm i) \<notin> {Op_host, Op_siginv}"
    and "d_dst i < length (i_reg st)"
  shows "\<exists>res. \<forall>ic cu pc0 corr lim. alu_exec f i (retime ic cu pc0 corr lim st)
           = linear_outcome res (retime ic cu pc0 corr lim st)"
proof (cases "f (d_reg_dst i) (d_reg_src i) (d_imm i)")
  case (Op_val v)
  show ?thesis
    by (rule exI[of _ "Inr ((i_vm st)\<lparr>vm_reg := (i_reg st)[d_dst i := v]\<rparr>, False)"])
       (simp add: alu_exec_def Op_val retime_def instr_end_def reg_set_def assms(2))
next
  case Op_sigfpe
  show ?thesis
    by (rule exI[of _ "Inl (FD_VM_ERR_EBPF_DIVIDE_BY_ZERO, i_vm st)"])
       (simp add: alu_exec_def Op_sigfpe retime_def sigfpe_def)
next
  case Op_sigfpeof
  show ?thesis
    by (rule exI[of _ "Inl (FD_VM_ERR_EBPF_DIVIDE_OVERFLOW, i_vm st)"])
       (simp add: alu_exec_def Op_sigfpeof retime_def sigfpeof_def)
qed (use assms in simp_all)

lemma linear_ldq:
  assumes "unat (i_pc st + 1) < length (e_text env)" "d_dst i < length (i_reg st)"
  shows "\<exists>res. \<forall>ic cu pc0 corr lim. interp_0x18 env i (retime ic cu pc0 corr lim st)
           = linear_outcome res (retime ic cu pc0 corr lim st)"
  by (rule exI[of _ "Inr ((i_vm st)\<lparr>vm_reg := (i_reg st)[d_dst i :=
         ucast (d_imm i) OR push_bit 32 (ucast (fd_vm_instr_imm (e_text env ! unat (i_pc st + 1))))]\<rparr>,
         True)"])
     (use assms in \<open>simp add: interp_0x18_def Let_def retime_def instr_end_def reg_set_def\<close>)

lemma linear_label:
  assumes "is_linear (label_at env (unat (i_pc st)))" "word_ok env (unat (i_pc st))"
    and "length (e_text env) < 2 ^ 64" "length (i_reg st) = 16"
  shows "\<exists>res. \<forall>ic cu pc0 corr lim.
           label_exec env (label_at env (unat (i_pc st))) (decoded_at env st)
             (retime ic cu pc0 corr lim st)
           = linear_outcome res (retime ic cu pc0 corr lim st)"
proof (cases "label_at env (unat (i_pc st))")
  case L_sigill
  show ?thesis
    by (rule exI[of _ "Inl (FD_VM_ERR_EBPF_UNSUPPORTED_INSTRUCTION, i_vm st)"])
       (simp add: L_sigill sigill_def retime_def)
next
  case (L_alu f)
  thus ?thesis using assms(2) decoded_at(2,3)[OF assms(4), of env] assms(4)
    by (simp add: linear_alu word_ok_def)
next
  case L_ldq
  have "unat (i_pc st) + 1 < length (e_text env)" using assms(2) L_ldq by (simp add: word_ok_def)
  hence "unat (i_pc st + 1) < length (e_text env)" using assms(3) by (subst unat_add64) simp_all
  thus ?thesis using L_ldq decoded_at(2)[OF assms(4), of env] assms(4) by (simp add: linear_ldq)
qed (use assms decoded_at(2)[OF assms(4), of env] in \<open>simp_all add: linear_mem_exec\<close>)

text \<open>The body of a branch overwrites the segment, or halts and leaves it stale.\<close>

definition resegment :: "u64 \<Rightarrow> u64 \<Rightarrow> istate \<Rightarrow> istate" where
  "resegment pc0 lim st = st\<lparr> i_pc0 := pc0, i_block_text_limit := lim \<rparr>"

primrec rehalt :: "u64 \<Rightarrow> u64 \<Rightarrow> outcome \<Rightarrow> outcome" where
  "rehalt pc0 lim (Next st) = Next st"
| "rehalt pc0 lim (Halt err st) = Halt err (resegment pc0 lim st)"
| "rehalt pc0 lim (Stuck ub) = Stuck ub"

definition segment_free :: "(istate \<Rightarrow> outcome) \<Rightarrow> bool" where
  "segment_free body \<longleftrightarrow>
     (\<forall>pc0 lim st. body (resegment pc0 lim st) = rehalt pc0 lim (body st))"

lemma segment_freeI:
  "(\<And>pc0 lim st. body (resegment pc0 lim st) = rehalt pc0 lim (body st)) \<Longrightarrow> segment_free body"
  by (simp add: segment_free_def)

lemma segment_freeD: "segment_free body \<Longrightarrow> body (resegment p l st) = rehalt p l (body st)"
  by (simp add: segment_free_def)

lemma segment_free_halt:
  "segment_free (interp_halt err)" "segment_free sigillbr" "segment_free sigtextbr"
  "segment_free sigexit" "segment_free sigstack" "segment_free sigsyscall"
  by (simp_all add: segment_free_def resegment_def interp_halt_def sigillbr_def sigtextbr_def
        sigexit_def sigstack_def sigsyscall_def)

lemma segment_free_branch_end: "segment_free (\<lambda>st. branch_end env (st\<lparr>i_pc := f st\<rparr>))"
  if "\<And>pc0 lim st. f (resegment pc0 lim st) = f st"
  using that by (simp add: segment_free_def branch_end_def resegment_def)

lemma segment_free_branch_end0: "segment_free (branch_end env)"
  by (simp add: segment_free_def branch_end_def resegment_def)

lemma resegment_simps [simp]:
  "i_pc (resegment p l st) = i_pc st" "i_vm (resegment p l st) = i_vm st"
  "i_frame_cnt (resegment p l st) = i_frame_cnt st"
  by (simp_all add: resegment_def)

lemma rehalt_if: "rehalt p l (if b then x else y) = (if b then rehalt p l x else rehalt p l y)"
  by simp

lemma resegment_commute:
  "reg_set k v (resegment p l st) = resegment p l (reg_set k v st)"
  "(resegment p l st)\<lparr>i_pc := x\<rparr> = resegment p l (st\<lparr>i_pc := x\<rparr>)"
  "(resegment p l st)\<lparr>i_frame_cnt := f\<rparr> = resegment p l (st\<lparr>i_frame_cnt := f\<rparr>)"
  by (simp_all add: resegment_def reg_set_def)

lemma segment_free_put: "segment_free k \<Longrightarrow> segment_free (reg_put i v k)"
  by (simp add: segment_free_def reg_put_def resegment_simps resegment_commute)

lemma segment_free_get: "(\<And>v. segment_free (k v)) \<Longrightarrow> segment_free (reg_get i k)"
  by (simp add: segment_free_def reg_get_def resegment_simps split: option.split)

lemma segment_free_stack_push:
  assumes "segment_free body" shows "segment_free (stack_push env body)"
proof (rule segment_freeI)
  fix pc0 lim st
  have put: "reg_get 10 (\<lambda>r10. reg_put 10 (r10 + d) body) (resegment pc0 lim s)
      = rehalt pc0 lim (reg_get 10 (\<lambda>r10. reg_put 10 (r10 + d) body) s)" for d s
    by (rule segment_freeD[OF segment_free_get[OF segment_free_put[OF assms]]])
  have res: "(resegment pc0 lim st)\<lparr>i_vm := vm, i_frame_cnt := n\<rparr>
      = resegment pc0 lim (st\<lparr>i_vm := vm, i_frame_cnt := n\<rparr>)" for vm n
    by (simp add: resegment_def)
  show "stack_push env body (resegment pc0 lim st) = rehalt pc0 lim (stack_push env body st)"
    unfolding stack_push_def Let_def res resegment_simps
    by (auto simp: put segment_freeD[OF segment_free_halt(5)] split: option.split)
qed

lemma segment_free_call_to: "segment_free (call_to env pc)"
  unfolding call_to_def by (intro segment_free_stack_push segment_free_branch_end) simp

lemma segment_free_syscall: "segment_free (syscall_exec f (branch_end env))"
  by (rule segment_freeI)
     (auto simp: syscall_exec_def reg_put_def reg_set_def Let_def resegment_def sigsyscall_def
        interp_halt_def branch_end_def split: prod.split option.split)

lemmas segment_free_rules = segment_free_halt segment_free_branch_end0 segment_free_call_to
  segment_free_syscall

lemmas segment_free_eqs = segment_free_rules [THEN segment_freeD]

lemmas branch_body = Let_def segment_free_eqs resegment_commute resegment_simps rehalt_if

lemma segment_free_callx: "segment_free (callx_jump env i)"
proof -
  have "segment_free (\<lambda>st. let region = drop_bit 32 vaddr;
        target_pc = ((vaddr AND FD_VM_OFFSET_MASK) - vm_text_off (i_vm st)) div 8
      in if region \<noteq> 1 \<or> e_text_cnt env \<le> target_pc then sigtextbr st
         else branch_end env (st\<lparr> i_pc := target_pc - 1 \<rparr>))" for vaddr
    by (rule segment_freeI) (simp only: branch_body)
  thus ?thesis unfolding callx_jump_def by (simp add: Let_def segment_free_get)
qed

lemma branch_label:
  assumes "\<not> is_linear lab"
  shows "\<exists>body. label_exec env lab i = branch_begin body \<and> segment_free body"
proof (cases lab)
  case (L_jmp f)
  show ?thesis unfolding label_exec.simps L_jmp jmp_exec_def
    by (intro exI conjI refl segment_freeI) (simp add: branch_body)+
next
  case L_call_imm
  show ?thesis unfolding label_exec.simps L_call_imm interp_0x85_def
    by (intro exI conjI refl segment_freeI) (simp add: branch_body split: option.split)+
next
  case L_call_static
  show ?thesis unfolding label_exec.simps L_call_static interp_0x85_static_def
    by (intro exI conjI refl segment_freeI) (simp add: branch_body split: option.split)+
next
  case L_call_reg
  show ?thesis unfolding label_exec.simps L_call_reg interp_0x8d_def
    by (blast intro: segment_free_stack_push segment_free_callx)
next
  case L_exit
  have "segment_free (\<lambda>st. branch_end env (st\<lparr> i_pc := pc \<rparr>))" for pc
    by (rule segment_free_branch_end) simp
  note put = segment_freeD[OF segment_free_put[OF segment_free_put[OF segment_free_put[OF
    segment_free_put[OF segment_free_put[OF this]]]]]]
  show ?thesis unfolding label_exec.simps L_exit interp_0x95_def
    by (intro exI conjI refl segment_freeI) (simp add: branch_body put)+
qed (use assms in simp_all)

section \<open>Simulation\<close>

text \<open>The instructions executed since the segment began and not billed yet.\<close>

definition unbilled :: "istate \<Rightarrow> nat" where
  "unbilled st = unat (i_pc st) - unat (i_pc0 st) - unat (i_ic_correction st)"

definition in_segment :: "ienv \<Rightarrow> istate \<Rightarrow> bool" where
  "in_segment env st \<longleftrightarrow>
     iinv env st
     \<and> i_block_text_limit st = block_text_limit (e_text_cnt env) (i_pc0 st) (i_cu st)
     \<and> unat (e_text_cnt env) + 2 * unat (i_cu st) + 2 < 2 ^ 64
     \<and> (i_pc0 st = i_pc st \<or> unat (i_pc st) \<le> unat (e_text_cnt env) + 1)"

definition metered :: "istate \<Rightarrow> istate \<Rightarrow> bool" where
  "metered st rs \<longleftrightarrow>
     unbilled st \<le> unat (i_cu st)
     \<and> i_vm rs = i_vm st \<and> i_pc rs = i_pc st \<and> i_frame_cnt rs = i_frame_cnt st
     \<and> i_cu rs = i_cu st - of_nat (unbilled st) \<and> i_ic rs = i_ic st + of_nat (unbilled st)"

definition same_result :: "outcome \<Rightarrow> outcome \<Rightarrow> bool" where
  "same_result r r' \<longleftrightarrow>
     (\<exists>err st st'. r = Halt err st \<and> r' = Halt err st'
        \<and> vm_cu (i_vm st) = vm_cu (i_vm st')
        \<and> (err \<noteq> FD_VM_ERR_EBPF_EXCEEDED_MAX_INSTRUCTIONS \<longrightarrow> i_vm st = i_vm st'))"

definition over_budget :: "outcome \<Rightarrow> bool" where
  "over_budget r \<longleftrightarrow>
     (\<exists>st. r = Halt FD_VM_ERR_EBPF_EXCEEDED_MAX_INSTRUCTIONS st \<and> vm_cu (i_vm st) = 0)"

lemma segment_cost_unbilled:
  assumes "in_segment env st"
  shows "unat (segment_cost st) = unbilled st + 1" "segment_cost st = of_nat (unbilled st) + 1"
proof -
  have ok: "istate_ok env st" using assms by (simp add: in_segment_def iinv_def)
  have "unat (i_pc st) - unat (i_pc0 st) < 2 ^ 64 - 1" using assms by (auto simp: in_segment_def)
  from segment_cost_unat[OF ok this] ok show u: "unat (segment_cost st) = unbilled st + 1"
    unfolding unbilled_def istate_ok_def by linarith
  show "segment_cost st = of_nat (unbilled st) + 1"
    using arg_cong[OF u, of "of_nat :: nat \<Rightarrow> u64"] by simp
qed

lemma in_segment_next:
  assumes "in_segment env st" "interp_exec env st = Next st'"
  shows "in_segment env st'"
proof -
  have inv: "iinv env st" using assms(1) by (simp add: in_segment_def)
  note pc = next_pc_bound[OF inv assms(2)]
  have cnt: "length (e_text env) = unat (e_text_cnt env)"
    using inv by (simp add: iinv_def program_ok_def)
  have inv': "iinv env st'" using interp.step_inv[OF inv] assms(2) by (simp add: istep_Inl)
  have "wp (progress env st) (interp_exec env st)"
    using inv by (intro wp_interp_exec) (simp_all add: iinv_def)
  then consider "linear_step st st'" | "branch_step env st st'"
    using assms(2) by (auto simp: progress_def linear_progress_def branch_progress_def)
  thus ?thesis
  proof cases
    case 1
    have "unat (i_pc st + 1) = unat (i_pc st) + 1" using pc by (subst unat_add64) simp_all
    thus ?thesis using 1 pc cnt assms(1) inv' by (auto simp: in_segment_def linear_step_def)
  next
    case 2
    have "unat (i_cu st') \<le> unat (i_cu st)"
      using 2 unat_sub64[of "segment_cost st" "i_cu st"]
      unfolding branch_step_def word_le_nat_alt by linarith
    thus ?thesis using 2 assms(1) inv' by (simp add: in_segment_def branch_step_def)
  qed
qed

text \<open>The meter once the budget is used up: whatever comes next, the run ends over budget.\<close>

lemma fault_over_budget:
  assumes "i_cu st < segment_cost st"
  shows "over_budget (interp_fault err st)" "over_budget (branch_begin body st)"
proof -
  have "min (segment_cost st) (i_cu st) = i_cu st" using assms by simp
  thus "over_budget (interp_fault err st)"
    using assms
    by (simp add: over_budget_def interp_fault_def interp_halt_def Let_def segment_cost_def)
  show "over_budget (branch_begin body st)"
    using assms
    by (simp add: over_budget_def branch_begin_def sigcost_def interp_halt_def Let_def
          segment_cost_def)
qed

lemma fault_within_budget:
  assumes "segment_cost st \<le> i_cu st"
  shows "interp_fault err st =
    interp_halt err (st\<lparr> i_ic_correction := segment_cost st, i_ic := i_ic st + segment_cost st,
                        i_cu := i_cu st - segment_cost st \<rparr>)"
    and "branch_begin body st =
    body (st\<lparr> i_ic := i_ic st + segment_cost st, i_cu := i_cu st - segment_cost st,
             i_ic_correction := 0 \<rparr>)"
  using assms
  by (simp_all add: interp_fault_def branch_begin_def Let_def segment_cost_def min_absorb1 not_less
        leD)

lemma exec_label:
  assumes "iinv env st" "i_pc st < i_block_text_limit st"
  shows "interp_exec env st =
           label_exec env (label_at env (unat (i_pc st))) (decoded_at env st) st"
    and "word_ok env (unat (i_pc st))" "unat (i_pc st) < unat (e_text_cnt env)"
    and "length (e_text env) < 2 ^ 64" "i_pc st < e_text_cnt env"
proof -
  have ok: "program_ok env" "istate_ok env st" using assms(1) by (simp_all add: iinv_def)
  note pc = pc_in_text[OF ok assms(2)]
  show "word_ok env (unat (i_pc st))" "unat (i_pc st) < unat (e_text_cnt env)"
      "length (e_text env) < 2 ^ 64" "i_pc st < e_text_cnt env"
    using ok(1) pc unat_lt64[of "e_text_cnt env"]
    by (auto simp: program_ok_def word_less_nat_alt)
  show "interp_exec env st = label_exec env (label_at env (unat (i_pc st))) (decoded_at env st) st"
    by (rule interp_exec_label[OF ok assms(2)])
qed

lemma retime_self:
  "retime (i_ic st) (i_cu st) (i_pc0 st) (i_ic_correction st) (i_block_text_limit st) st = st"
  by (simp add: retime_def)

lemma outcome_cases:
  assumes "in_segment env st" "i_pc st < i_block_text_limit st"
  obtains (lin) res where "is_linear (label_at env (unat (i_pc st)))"
      "\<And>ic cu pc0 corr lim. label_exec env (label_at env (unat (i_pc st)))
           (decoded_at env st) (retime ic cu pc0 corr lim st)
         = linear_outcome res (retime ic cu pc0 corr lim st)"
      "interp_exec env st = linear_outcome res st"
    | (br) body where "\<not> is_linear (label_at env (unat (i_pc st)))"
      "label_exec env (label_at env (unat (i_pc st)))
         (decoded_at env st) = branch_begin body"
      "segment_free body" "interp_exec env st = branch_begin body st"
proof -
  have inv: "iinv env st" using assms(1) by (simp add: in_segment_def)
  have reg: "length (i_reg st) = 16" using inv by (simp add: iinv_def istate_ok_def)
  note ex = exec_label[OF inv assms(2)]
  show ?thesis
  proof (cases "is_linear (label_at env (unat (i_pc st)))")
    case True
    from linear_label[OF this ex(2,4) reg] obtain res where
      r: "\<And>ic cu pc0 corr lim. label_exec env (label_at env (unat (i_pc st)))
           (decoded_at env st) (retime ic cu pc0 corr lim st)
         = linear_outcome res (retime ic cu pc0 corr lim st)" by blast
    have "interp_exec env st = linear_outcome res st"
      unfolding ex(1) using r[of "i_ic st" "i_cu st" "i_pc0 st" "i_ic_correction st" "i_block_text_limit st"]
      by (simp only: retime_self)
    thus ?thesis using lin[OF True r] by blast
  next
    case False
    from branch_label[OF False] obtain body where
      "label_exec env (label_at env (unat (i_pc st)))
         (decoded_at env st) = branch_begin body" "segment_free body"
      by blast
    thus ?thesis using br[OF False] ex(1) by simp
  qed
qed

lemma cu_lt_cost:
  assumes "in_segment env st"
  shows "i_cu st < segment_cost st \<longleftrightarrow> unat (i_cu st) \<le> unbilled st"
  using segment_cost_unbilled(1)[OF assms] by (auto simp: word_less_nat_alt)

lemma sigtext_over_budget:
  assumes "in_segment env st" "unat (i_cu st) \<le> unbilled st" "i_block_text_limit st \<le> i_pc st"
  shows "over_budget (interp_exec env st)"
  using assms fault_over_budget(1) cu_lt_cost[OF assms(1)]
  by (auto simp: interp_exec_def sigtext_or_sigcost_def sigtext_def sigcost_def interp_halt_def
        over_budget_def)

lemma unbilled_next:
  assumes "in_segment env st" "interp_exec env st = Next st'" "linear_step st st'"
  shows "unbilled st' = unbilled st + 1"
proof -
  have inv: "iinv env st" "istate_ok env st" using assms(1) by (simp_all add: in_segment_def iinv_def)
  note pc = next_pc_bound[OF inv(1) assms(2)]
  have "unat (i_pc st + 1) = unat (i_pc st) + 1" using pc by (subst unat_add64) simp_all
  moreover have "unat (i_ic_correction st) + 1 < 2 ^ 64"
    using inv(2) pc by (simp add: istate_ok_def)
  hence "unat (i_ic_correction st + 1) = unat (i_ic_correction st) + 1"
    by (subst unat_add64) simp_all
  ultimately show ?thesis
    using assms(3) inv(2) by (auto simp: unbilled_def linear_step_def istate_ok_def)
qed

lemma next_progress:
  assumes "in_segment env st" "interp_exec env st = Next st'"
  shows "linear_step st st' \<or> branch_step env st st'"
proof -
  have "wp (progress env st) (interp_exec env st)"
    using assms(1) by (intro wp_interp_exec) (simp_all add: in_segment_def iinv_def)
  thus ?thesis using assms(2) by (auto simp: progress_def linear_progress_def branch_progress_def)
qed

lemma doomed_next:
  assumes "in_segment env st" "unat (i_cu st) \<le> unbilled st" "interp_exec env st = Next st'"
  shows "in_segment env st'" "unat (i_cu st') \<le> unbilled st'"
proof -
  show "in_segment env st'" by (rule in_segment_next[OF assms(1,3)])
  have "i_cu st < segment_cost st" using cu_lt_cost[OF assms(1)] assms(2) by simp
  hence "linear_step st st'"
    using next_progress[OF assms(1,3)] by (auto simp: branch_step_def)
  thus "unat (i_cu st') \<le> unbilled st'"
    using unbilled_next[OF assms(1,3)] assms(2) by (simp add: linear_step_def)
qed

lemma doomed_halt:
  assumes "in_segment env st" "unat (i_cu st) \<le> unbilled st" "interp_exec env st = Halt err st'"
  shows "over_budget (Halt err st')"
proof (cases "i_block_text_limit st \<le> i_pc st")
  case True
  from sigtext_over_budget[OF assms(1,2) this] assms(3) show ?thesis by simp
next
  case False
  hence pc: "i_pc st < i_block_text_limit st" by simp
  have cost: "i_cu st < segment_cost st" using cu_lt_cost[OF assms(1)] assms(2) by simp
  from assms(1) pc show ?thesis
  proof (cases rule: outcome_cases)
    case (lin res)
    then obtain e vm where "res = Inl (e, vm)"
      using assms(3) by (cases "(res, st)" rule: linear_outcome.cases) auto
    moreover have "i_cu (st\<lparr>i_vm := vm\<rparr>) < segment_cost (st\<lparr>i_vm := vm\<rparr>)"
      using cost by (simp add: segment_cost_def)
    ultimately show ?thesis using lin(3) fault_over_budget(1) assms(3) by fastforce
  next
    case (br body)
    with fault_over_budget(2)[OF cost] assms(3) show ?thesis by metis
  qed
qed

lemma doomed_run:
  assumes "in_segment env st" "unat (i_cu st) \<le> unbilled st"
    and "fuel_run n (istep env) st = Some r"
  shows "over_budget r"
  using assms
proof (induction n arbitrary: st)
  case (Suc n)
  show ?case
  proof (cases "interp_exec env st")
    case (Next st')
    thus ?thesis
      using Suc.IH[OF doomed_next[OF Suc.prems(1,2) Next]] Suc.prems(3) by (simp add: istep_def)
  next
    case (Halt err st')
    with doomed_halt[OF Suc.prems(1,2)] Suc.prems(3) show ?thesis by (simp add: istep_def)
  next
    case (Stuck ub)
    have "wp (progress env st) (interp_exec env st)"
      using Suc.prems(1) by (intro wp_interp_exec) (simp_all add: in_segment_def iinv_def)
    thus ?thesis by (simp add: Stuck)
  qed
qed simp

section \<open>One step of both meters\<close>

lemma over_budget_same: "over_budget r \<Longrightarrow> over_budget r' \<Longrightarrow> same_result r r'"
  by (auto simp: over_budget_def same_result_def)

lemma ref_over_budget: "i_cu rs = 0 \<Longrightarrow> over_budget (ref_exec env rs)"
  by (simp add: ref_exec_def sigcost_def interp_halt_def over_budget_def)

lemma metered_retime:
  assumes "metered st rs"
  shows "charge rs
         = retime (i_ic rs + 1) (i_cu rs - 1) (i_pc st + 1) 0 (i_block_text_limit rs) st"
  using assms by (intro istate.equality) (simp_all add: metered_def retime_def charge_def)

lemma metered_cost:
  assumes "in_segment env st" "metered st rs" "unbilled st < unat (i_cu st)"
  shows "segment_cost st \<le> i_cu st" "1 \<le> i_cu rs" "i_cu rs \<noteq> 0"
    "i_ic st + segment_cost st = i_ic rs + 1" "i_cu st - segment_cost st = i_cu rs - 1"
proof -
  note cost = segment_cost_unbilled[OF assms(1)]
  show "segment_cost st \<le> i_cu st"
    using cost(1) assms(3) by (simp add: word_le_nat_alt)
  show "i_ic st + segment_cost st = i_ic rs + 1" "i_cu st - segment_cost st = i_cu rs - 1"
    using cost(2) assms(2) by (simp_all add: metered_def)
  have "unbilled st < 2 ^ 64" using assms(3) unat_lt64[of "i_cu st"] by simp
  hence "unat (of_nat (unbilled st) :: u64) = unbilled st" by (simp add: unat_of_nat)
  hence "unat (i_cu rs) = unat (i_cu st) - unbilled st"
    using assms(2,3) by (simp add: metered_def unat_sub64)
  hence "0 < unat (i_cu rs)" using assms(3) by simp
  thus "1 \<le> i_cu rs" "i_cu rs \<noteq> 0" by (auto simp: word_le_nat_alt)
qed

lemma limit_is_text_end:
  assumes "in_segment env st" "unbilled st < unat (i_cu st)" "i_block_text_limit st \<le> i_pc st"
  shows "e_text_cnt env \<le> i_pc st"
proof (rule ccontr)
  assume "\<not> ?thesis"
  hence pc: "unat (i_pc st) < unat (e_text_cnt env)" by (simp add: word_le_nat_alt)
  have ok: "unat (i_pc0 st) + 2 * unat (i_ic_correction st) \<le> unat (i_pc st)"
    and b: "unat (e_text_cnt env) + 2 * unat (i_cu st) + 2 < 2 ^ 64"
    using assms(1) by (simp_all add: in_segment_def iinv_def istate_ok_def)
  have e1: "unat (i_pc0 st + i_cu st) = unat (i_pc0 st) + unat (i_cu st)"
    using ok pc b by (intro unat_add64) simp
  have e2: "unat (i_pc0 st + i_cu st + i_cu st) = unat (i_pc0 st) + 2 * unat (i_cu st)"
    using ok pc b e1 by (subst unat_add64) simp_all
  have e: "unat (i_pc0 st + i_cu st + i_cu st + 1) = unat (i_pc0 st) + 2 * unat (i_cu st) + 1"
    using ok pc b e2 by (subst unat_add64) (simp_all del: add_diff_cancel_right')
  have "i_pc0 st + i_cu st + i_cu st + 1 \<le> i_pc st"
    using assms(1,3) pc
    by (auto simp: in_segment_def block_text_limit_def min_def word_le_nat_alt split: if_splits)
  hence "unat (i_pc0 st) + 2 * unat (i_cu st) + 1 \<le> unat (i_pc st)"
    using e by (simp add: word_le_nat_alt)
  thus False using assms(2) ok unfolding unbilled_def by linarith
qed

lemma sigtext_metered:
  assumes "in_segment env st" "metered st rs" "unbilled st < unat (i_cu st)"
    and "i_block_text_limit st \<le> i_pc st"
  shows "\<exists>err s s'. interp_exec env st = Halt err s \<and> ref_exec env rs = Halt err s' \<and> i_vm s = i_vm s'"
proof -
  note c = metered_cost[OF assms(1-3)] and pc = limit_is_text_end[OF assms(1,3,4)]
  have m: "i_pc rs = i_pc st" "i_vm rs = i_vm st" "i_frame_cnt rs = i_frame_cnt st"
    using assms(2) by (simp_all add: metered_def)
  have "interp_exec env st = interp_fault FD_VM_ERR_EBPF_EXECUTION_OVERRUN st"
    using assms(4) pc by (simp add: interp_exec_def sigtext_or_sigcost_def sigtext_def leD)
  moreover have "ref_exec env rs = interp_halt FD_VM_ERR_EBPF_EXECUTION_OVERRUN (charge rs)"
    using pc m c(3) by (simp add: ref_exec_def)
  ultimately show ?thesis
    using c m by (simp add: fault_within_budget(1) interp_halt_def charge_def)
qed

lemma linear_metered:
  assumes "in_segment env st" "metered st rs" "unbilled st < unat (i_cu st)"
    and "i_pc st < e_text_cnt env" "is_linear (label_at env (unat (i_pc st)))"
    and "interp_exec env st = linear_outcome res st"
    and "\<And>ic cu pc0 corr lim. label_exec env (label_at env (unat (i_pc st)))
           (decoded_at env st) (retime ic cu pc0 corr lim st)
         = linear_outcome res (retime ic cu pc0 corr lim st)"
  shows "(\<exists>err s s'. interp_exec env st = Halt err s \<and> ref_exec env rs = Halt err s' \<and> i_vm s = i_vm s')
    \<or> (\<exists>st' rs'. interp_exec env st = Next st' \<and> ref_exec env rs = Next rs' \<and> metered st' rs')"
proof -
  note c = metered_cost[OF assms(1-3)]
  have m: "i_pc rs = i_pc st" "i_vm rs = i_vm st" "i_frame_cnt rs = i_frame_cnt st"
    using assms(2) by (simp_all add: metered_def)
  let ?r = "retime (i_ic rs + 1) (i_cu rs - 1) (i_pc st + 1) 0 (i_block_text_limit rs) st"
  have ok: "istate_ok env st" using assms(1) by (simp add: in_segment_def iinv_def)
  have ref: "ref_exec env rs = linear_outcome res ?r"
    unfolding ref_exec_label[OF ok m(2,1) c(3) assms(4)] metered_retime[OF assms(2)]
    by (rule assms(7))
  show ?thesis
  proof (cases "(res, st)" rule: linear_outcome.cases)
    case (1 err vm st0)
    have "segment_cost (st\<lparr>i_vm := vm\<rparr>) = segment_cost st" "segment_cost (?r\<lparr>i_vm := vm\<rparr>) = 0"
      by (simp_all add: segment_cost_def retime_def)
    thus ?thesis
      using 1 assms(6) ref c
      by (auto simp: fault_within_budget(1) interp_halt_def retime_def)
  next
    case (2 vm wide st0)
    then obtain st' where nx: "interp_exec env st = Next st'"
        "st' = st\<lparr> i_vm := vm, i_pc := i_pc st + (if wide then 2 else 1),
                  i_ic_correction := i_ic_correction st + (if wide then 1 else 0) \<rparr>"
      using assms(6) by simp
    have "\<not> branch_step env st st'"
    proof
      assume "branch_step env st st'"
      hence "segment_cost st = 0" using nx(2) by (simp add: branch_step_def)
      thus False using segment_cost_unbilled(1)[OF assms(1)] by simp
    qed
    hence "unbilled st' = unbilled st + 1"
      using next_progress[OF assms(1) nx(1)] unbilled_next[OF assms(1) nx(1)] by simp
    moreover obtain rs' where "ref_exec env rs = Next rs'" "rs' = ?r
        \<lparr> i_vm := vm, i_pc := i_pc st + (if wide then 2 else 1),
          i_ic_correction := (if wide then 1 else 0) \<rparr>"
      using ref 2 by (simp add: retime_def)
    ultimately have "metered st' rs'"
      using assms(2,3) nx(2) m
      by (simp add: metered_def retime_def)
    thus ?thesis using nx(1) \<open>ref_exec env rs = Next rs'\<close> by blast
  qed
qed

lemma branch_metered:
  assumes "in_segment env st" "metered st rs" "unbilled st < unat (i_cu st)"
    and "i_pc st < e_text_cnt env" "\<not> is_linear (label_at env (unat (i_pc st)))"
    and "interp_exec env st = branch_begin body st" "segment_free body"
    and "label_exec env (label_at env (unat (i_pc st)))
           (decoded_at env st) = branch_begin body"
  shows "(\<exists>err s s'. interp_exec env st = Halt err s \<and> ref_exec env rs = Halt err s' \<and> i_vm s = i_vm s')
    \<or> (\<exists>st' rs'. interp_exec env st = Next st' \<and> ref_exec env rs = Next rs' \<and> metered st' rs')"
proof -
  note c = metered_cost[OF assms(1-3)]
  let ?r = "retime (i_ic rs + 1) (i_cu rs - 1) (i_pc st + 1) 0 (i_block_text_limit rs) st"
  let ?s = "st\<lparr> i_ic := i_ic st + segment_cost st, i_cu := i_cu st - segment_cost st,
               i_ic_correction := 0 \<rparr>"
  have m: "i_pc rs = i_pc st" "i_vm rs = i_vm st" using assms(2) by (simp_all add: metered_def)
  have r: "?r = resegment (i_pc st + 1) (i_block_text_limit rs) ?s"
    using c(4,5) by (intro istate.equality) (simp_all add: retime_def resegment_def)
  have "segment_cost ?r = 0" by (simp add: segment_cost_def retime_def)
  moreover have "?r\<lparr> i_ic := i_ic ?r, i_cu := i_cu ?r, i_ic_correction := 0 \<rparr> = ?r"
    by (intro istate.equality) (simp_all add: retime_def)
  ultimately have "branch_begin body ?r = body ?r"
    using fault_within_budget(2)[of ?r body] by (simp only: add_0_right diff_zero word_zero_le)
  hence b: "branch_begin body ?r = rehalt (i_pc st + 1) (i_block_text_limit rs) (body ?s)"
    using segment_freeD[OF assms(7)] r by metis
  have ok: "istate_ok env st" using assms(1) by (simp add: in_segment_def iinv_def)
  have ref: "ref_exec env rs = rehalt (i_pc st + 1) (i_block_text_limit rs) (body ?s)"
    unfolding ref_exec_label[OF ok m(2,1) c(3) assms(4)] metered_retime[OF assms(2)] assms(8)
    by (rule b)
  have ex: "interp_exec env st = body ?s"
    using assms(6) fault_within_budget(2)[OF c(1)] by simp
  have "wp (branch_progress env st) (label_exec env (label_at env (unat (i_pc st)))
           (decoded_at env st) st)"
    using wp_label_exec[of env st] assms(1,4,5)
    by (simp add: in_segment_def iinv_def program_ok_def word_less_nat_alt)
  hence wp: "wp (branch_progress env st) (body ?s)" using assms(6,8) ex by simp
  show ?thesis
  proof (cases "body ?s")
    case (Next st')
    hence "i_pc0 st' = i_pc st'" "i_ic_correction st' = 0"
      using wp by (simp_all add: branch_progress_def branch_step_def)
    hence "metered st' st'" by (simp add: metered_def unbilled_def)
    thus ?thesis using ref ex Next by auto
  next
    case (Stuck ub)
    thus ?thesis using wp by simp
  qed (use ref ex in \<open>auto simp: resegment_def\<close>)
qed

lemma metered_step:
  assumes "in_segment env st" "metered st rs" "unbilled st < unat (i_cu st)"
  shows "(\<exists>err s s'. interp_exec env st = Halt err s \<and> ref_exec env rs = Halt err s' \<and> i_vm s = i_vm s')
    \<or> (\<exists>st' rs'. interp_exec env st = Next st' \<and> ref_exec env rs = Next rs' \<and> metered st' rs')"
proof (cases "i_block_text_limit st \<le> i_pc st")
  case False
  hence lim: "i_pc st < i_block_text_limit st" by simp
  have pc: "i_pc st < e_text_cnt env"
    using assms(1) lim by (intro exec_label(5)) (simp_all add: in_segment_def)
  from assms(1) lim show ?thesis
  proof (cases rule: outcome_cases)
    case (lin res)
    show ?thesis by (rule linear_metered[OF assms pc lin(1,3,2)])
  next
    case (br body)
    show ?thesis by (rule branch_metered[OF assms pc br(1,4,3,2)])
  qed
qed (use sigtext_metered[OF assms] in blast)

lemma metered_run:
  assumes "in_segment env st" "metered st rs" "fuel_run n (istep env) st = Some r"
  shows "\<exists>r'. fuel_run n (rstep env) rs = Some r' \<and> same_result r r'"
  using assms
proof (induction n arbitrary: st rs)
  case (Suc n)
  show ?case
  proof (cases "unbilled st < unat (i_cu st)")
    case True
    from metered_step[OF Suc.prems(1,2) True] show ?thesis
    proof (elim disjE exE conjE)
      fix err s s'
      assume "interp_exec env st = Halt err s" "ref_exec env rs = Halt err s'" "i_vm s = i_vm s'"
      hence "r = Halt err s" "fuel_run (Suc n) (rstep env) rs = Some (Halt err s')"
        using Suc.prems(3) by (simp_all add: istep_def rstep_def)
      moreover have "same_result (Halt err s) (Halt err s')"
        using \<open>i_vm s = i_vm s'\<close> by (simp add: same_result_def)
      ultimately show ?thesis by simp
    next
      fix st' rs'
      assume nx: "interp_exec env st = Next st'" "ref_exec env rs = Next rs'" "metered st' rs'"
      thus ?thesis
        using Suc.IH[OF in_segment_next[OF Suc.prems(1) nx(1)] nx(3)] Suc.prems(3)
        by (simp add: istep_def rstep_def)
    qed
  next
    case False
    hence "unat (i_cu st) = unbilled st" using Suc.prems(2) by (simp add: metered_def)
    hence "i_cu rs = 0" using Suc.prems(2) by (simp add: metered_def flip: \<open>unat _ = _\<close>)
    from ref_over_budget[OF this, of env]
    have "\<exists>r'. fuel_run (Suc n) (rstep env) rs = Some r' \<and> over_budget r'"
      by (auto simp: rstep_def over_budget_def)
    moreover have "over_budget r" using doomed_run[OF Suc.prems(1) _ Suc.prems(3)] False by simp
    ultimately show ?thesis using over_budget_same by blast
  qed
qed simp

section \<open>Execution\<close>

definition ref_vm_exec :: "nat \<Rightarrow> (u64 \<Rightarrow> syscall option) \<Rightarrow> fd_vm \<Rightarrow> outcome option" where
  "ref_vm_exec fuel syscalls vm = fuel_run fuel (rstep (exec_env syscalls vm)) (exec_start vm)"

lemma exec_metering:
  assumes "fd_vm_validate vm = 0" "vm_ready vm" "syscalls_keep_arrays syscalls"
    and "unat (vm_text_cnt vm) + 2 * unat (vm_cu vm) + 2 < 2 ^ 64"
    and "exec_fuel vm \<le> fuel"
  shows "\<exists>err st st'. fd_vm_exec_notrace fuel syscalls vm = Some (Halt err st)
           \<and> ref_vm_exec fuel syscalls vm = Some (Halt err st')
           \<and> vm_cu (i_vm st) = vm_cu (i_vm st')
           \<and> (err \<noteq> FD_VM_ERR_EBPF_EXCEEDED_MAX_INSTRUCTIONS \<longrightarrow> i_vm st = i_vm st')"
proof -
  have seg: "in_segment (exec_env syscalls vm) (exec_start vm)"
    using iinv_start[OF assms(1-3)] assms(4)
    by (simp add: in_segment_def exec_env_def exec_start_def)
  have met: "metered (exec_start vm) (exec_start vm)"
    by (simp add: metered_def unbilled_def exec_start_def)
  obtain err st where run: "fd_vm_exec_notrace fuel syscalls vm = Some (Halt err st)"
    using exec_halts[OF assms(1-3,5)] by blast
  with metered_run[OF seg met, of fuel "Halt err st"] show ?thesis
    by (auto simp: fd_vm_exec_notrace_def interp_run_fuel_run ref_vm_exec_def same_result_def)
qed

end
