(* ===== verification/Vm_Arith.thy ===== *)
theory Vm_Arith
  imports Vm_Ops
begin

text \<open>
  What the arithmetic of the instruction set computes, against mathematical integers: the high halves
  of products, the quotients and remainders, and byte swapping.
\<close>

section \<open>High halves of products\<close>

lemma uhmul_unat: "unat (uhmul x y) = unat x * unat y div 2 ^ 64"
proof -
  have x: "unat (ucast z :: u128) = unat z" for z :: u64
    using unat_lt64[of z] by (simp add: unsigned_ucast_eq take_bit_nat_eq_self)
  have "unat x * unat y < 2 ^ 64 * 2 ^ 64"
    using unat_lt64[of x] unat_lt64[of y] by (intro mult_strict_mono') simp_all
  hence b: "unat x * unat y < 2 ^ 128" by simp
  hence p: "unat ((ucast x :: u128) * ucast y) = unat x * unat y"
    by (simp add: unat_word_ariths x)
  have q: "unat x * unat y div 2 ^ 64 < 2 ^ 64" using b by (simp add: div_less_iff_less_mult)
  have "unat (drop_bit 64 ((ucast x :: u128) * ucast y)) = unat x * unat y div 2 ^ 64"
    using p by (simp only: unsigned_drop_bit_eq drop_bit_take_bit)
      (use q in \<open>simp add: drop_bit_eq_div take_bit_nat_eq_self\<close>)
  thus ?thesis
    using q by (simp add: uhmul_def unsigned_ucast_eq take_bit_nat_eq_self)
qed

lemma ucast_down_word_of_int: "(ucast (w :: u128) :: u64) = word_of_int (sint w)"
proof -
  have "(ucast :: u128 \<Rightarrow> u64) = scast" by (rule down_cast_same) (simp add: is_down)
  hence "(ucast w :: u64) = scast w" by (rule fun_cong)
  also have "\<dots> = word_of_int (sint w)" by (rule scast_eq)
  finally show ?thesis .
qed

lemma shmul_sint: "sint (shmul x y) = sint x * sint y div 2 ^ 64"
proof -
  have x: "sint (scast z :: u128) = sint z" for z :: u64
    by (simp add: sint_up_scast is_up)
  have ab: "\<bar>sint z\<bar> \<le> 2 ^ 63" for z :: u64 using sint_bounds64[of z] by (simp add: abs_le_iff)
  have "\<bar>sint x\<bar> * \<bar>sint y\<bar> \<le> 2 ^ 63 * 2 ^ 63"
    by (intro mult_mono ab) simp_all
  hence "\<bar>sint x * sint y\<bar> \<le> 2 ^ 126" by (simp add: abs_mult)
  hence b: "- (2 ^ 126) \<le> sint x * sint y" "sint x * sint y \<le> 2 ^ 126" by linarith+
  have "sint ((scast x :: u128) * scast y) = signed_take_bit 127 (sint x * sint y)"
    by (simp add: sint_word_mult x del: signed_take_bit_int_eq_self)
  also have "\<dots> = sint x * sint y"
    by (rule signed_take_bit_int_eq_self) (use b in simp_all)
  finally have p: "sint ((scast x :: u128) * scast y) = sint x * sint y" .
  from p have "shmul x y = word_of_int (sint x * sint y div 2 ^ 64)"
    by (simp only: shmul_def ucast_down_word_of_int sint_signed_drop_bit_eq drop_bit_eq_div)
  moreover have "- (2 ^ 63) \<le> sint x * sint y div 2 ^ 64" "sint x * sint y div 2 ^ 64 < 2 ^ 63"
    using zdiv_mono1[OF b(1), of "2 ^ 64"] zdiv_mono1[OF b(2), of "2 ^ 64"] by simp_all
  ultimately show ?thesis by (simp only: sint_word_of_int64)
qed

section \<open>Signed division\<close>

lemma c_sdiv_sint:
  assumes "\<not> sdiv_undefined x (y :: u64)"
  shows "\<exists>q. c_sdiv x y = Some q \<and> sint q = sint x sdiv sint y"
proof -
  have y: "sint y = - 1 \<longrightarrow> y = - 1" by (metis signed_minus_1 signed_word_eqI)
  have r: "- \<bar>sint x\<bar> \<le> sint x sdiv sint y" "sint x sdiv sint y \<le> \<bar>sint x\<bar>"
    using sdiv_int_range[of "sint x" "sint y"] by simp_all
  have ne: "sint x sdiv sint y \<noteq> 2 ^ 63"
  proof
    assume e: "sint x sdiv sint y = 2 ^ 63"
    hence x: "sint x = - (2 ^ 63)" using r(2) sint_bounds64[of x] by auto
    hence "sint y = - 1" using e int_sdiv_negated_is_minus1[of "sint x" "sint y"] by simp
    thus False using assms x y by (simp add: sdiv_undefined_def)
  qed
  have "sint (word_of_int (sint x sdiv sint y) :: u64) = sint x sdiv sint y"
    using r ne sint_bounds64[of x] by (intro sint_word_of_int64) auto
  thus ?thesis using assms by (simp add: c_sdiv_def)
qed

lemma c_smod_sint:
  assumes "\<not> sdiv_undefined x (y :: u64)"
  shows "\<exists>r. c_smod x y = Some r \<and> sint r = sint x smod sint y"
proof -
  have "0 \<le> \<bar>sint x\<bar> mod \<bar>sint y\<bar>" by (cases "sint y = 0") simp_all
  moreover have "\<bar>sint x\<bar> mod \<bar>sint y\<bar> \<le> \<bar>sint x\<bar>" by (rule zmod_le_nonneg_dividend) simp
  ultimately have "\<bar>sint x smod sint y\<bar> \<le> \<bar>sint x\<bar>"
    by (cases "sint x" "0 :: int" rule: linorder_cases) (simp_all add: smod_int_alt_def abs_mult)
  moreover have "sint x < 0 \<longrightarrow> sint x smod sint y \<le> 0"
    by (cases "sint y = 0") (auto simp: smod_int_alt_def sgn_if)
  ultimately have "sint (word_of_int (sint x smod sint y) :: u64) = sint x smod sint y"
    using sint_bounds64[of x] by (intro sint_word_of_int64) linarith+
  thus ?thesis using assms by (simp add: c_smod_def)
qed

section \<open>Byte order\<close>

lemma bswap_bswap: "8 * n = LENGTH('a) \<Longrightarrow> bswap n (bswap n (x :: 'a::len word)) = x"
  using le_bytes_le_load[of "rev (le_bytes n x)", where 'a = 'a]
  by (simp add: bswap_def le_load_le_bytes)

end
