(* ===== verification/Vm_Props.thy ===== *)
theory Vm_Props
  imports Vm_Confined Vm_Meter Vm_Arith
begin

text \<open>
  Functional facts about single operations of the machine: translation hits exactly the accesses
  inside a region, the stack gap arithmetic, calls and returns, and what a fresh machine is like.
\<close>

section \<open>Stack frame gaps\<close>

lemma gap_bit: "off AND 0x1000 = (0 :: u64) \<Longrightarrow> \<not> bit off 12"
proof -
  assume "off AND 0x1000 = 0"
  hence "off AND push_bit 12 1 = 0" by simp
  thus ?thesis by (metis and_exp_eq_0_iff_not_bit push_bit_of_1)
qed

lemma squeeze_gaps_bits:
  assumes "off AND 0x1000 = (0 :: u64)"
  shows "squeeze_gaps off = push_bit 12 (drop_bit 13 off) OR take_bit 12 off"
proof -
  have g: "gap_mask = NOT (mask 12)" by (simp add: gap_mask_def mask_numeral)
  note b = gap_bit[OF assms]
  show ?thesis
    unfolding squeeze_gaps_def g
  proof (rule bit_word_eqI)
    fix n assume "n < LENGTH(64)"
    consider "n < 11" | "n = 11" | "12 \<le> n" by linarith
    thus "bit (drop_bit 1 (off AND NOT (mask 12)) OR off AND NOT (NOT (mask 12))) n
        = bit (push_bit 12 (drop_bit 13 off) OR take_bit 12 off) n"
    proof cases
      case 3
      hence "13 + (n - 12) = Suc n" by simp
      thus ?thesis using 3 \<open>n < _\<close> by (auto simp: bit_simps dest: bit_imp_le_length)
    qed (use b in \<open>auto simp: bit_simps\<close>)
  qed
qed

lemma squeeze_gaps_unat:
  assumes "off AND 0x1000 = (0 :: u64)"
  shows "unat (squeeze_gaps off) = unat off div 8192 * 4096 + unat off mod 4096"
proof -
  let ?hi = "push_bit 12 (drop_bit 13 off) :: u64" and ?lo = "take_bit 12 off :: u64"
  have "?hi OR ?lo = ?hi + ?lo" by (rule disjunctive_add[symmetric]) (auto simp: bit_simps)
  moreover have d: "unat (drop_bit 13 off :: u64) = unat off div 8192"
    by (simp add: drop_bit_eq_div unat_div_distrib)
  have lo: "unat ?lo = unat off mod 4096" by (simp add: take_bit_eq_mod unat_mod_distrib)
  have "unat off div 8192 * 4096 < 2 ^ 63" using unat_lt64[of off] by simp
  hence hi: "unat ?hi = unat off div 8192 * 4096"
    using d by (simp add: push_bit_eq_mult unat_mul64 mult.commute)
  have "unat ?hi + unat ?lo < 2 ^ 64" using hi lo unat_lt64[of off] by simp
  ultimately show ?thesis using hi lo by (simp add: squeeze_gaps_bits[OF assms] unat_add64)
qed

text \<open>Distinct mapped stack offsets keep distinct host offsets.\<close>

lemma squeeze_gaps_inj:
  assumes "off AND 0x1000 = (0 :: u64)" "off' AND 0x1000 = 0" "squeeze_gaps off = squeeze_gaps off'"
  shows "off = off'"
proof -
  have e: "push_bit 12 (drop_bit 13 off) OR take_bit 12 off
         = (push_bit 12 (drop_bit 13 off') OR take_bit 12 off' :: u64)"
    using assms(3) by (simp only: squeeze_gaps_bits[OF assms(1)] squeeze_gaps_bits[OF assms(2)])
  note b = gap_bit[OF assms(1)] gap_bit[OF assms(2)]
  show ?thesis
  proof (rule bit_word_eqI)
    fix n assume n: "n < LENGTH(64)"
    consider "n < 12" | "n = 12" | "13 \<le> n" by linarith
    thus "bit off n = bit off' n"
    proof cases
      case 1
      thus ?thesis using arg_cong[OF e, of "\<lambda>w. bit w n"] by (simp add: bit_simps)
    next
      case 3
      hence "13 + (n - 1 - 12) = n" "12 \<le> n - 1" "\<not> n - 1 < 12" "n - 1 < 64" using n by simp_all
      thus ?thesis using arg_cong[OF e, of "\<lambda>w. bit w (n - 1)"] by (simp add: bit_simps)
    qed (use b in simp)
  qed
qed

section \<open>Translation is exact\<close>

lemma translate_exact:
  fixes va sz :: u64
  defines "r \<equiv> unat (FD_VADDR_TO_REGION va)" and "off \<equiv> va AND FD_VM_OFFSET_MASK"
  assumes "r \<noteq> 4" "r = 2 \<longrightarrow> vm_stack_push_frame_count vm \<le> 1" "sz \<noteq> 0"
  shows "translate w vm va sz =
    (if unat off + unat sz \<le> unat (region_szs w vm ! r) then (vm_region_haddr vm ! r + off, vm)
     else (0, vm))"
proof -
  have r4: "FD_VADDR_TO_REGION va \<noteq> 4" using assms(3) by (auto simp: r_def)
  have r2: "\<not> (FD_VADDR_TO_REGION va = 2 \<and> 1 < vm_stack_push_frame_count vm)"
    using assms(4) by (auto simp: r_def)
  let ?s = "ucast (region_szs w vm ! r) :: u64"
  have "unat (?s - min off ?s) = unat (region_szs w vm ! r) - min (unat off) (unat (region_szs w vm ! r))"
    by (cases "off \<le> ?s") (simp_all add: min_def word_le_nat_alt unat_sub64)
  hence "sz \<le> ?s - min off ?s \<longleftrightarrow> unat off + unat sz \<le> unat (region_szs w vm ! r)"
    using assms(5) by (auto simp: word_le_nat_alt unat_eq_0 min_def)
  moreover have "translate w vm va sz =
      (if sz \<le> ?s - min off ?s then (vm_region_haddr vm ! r + off, vm) else (0, vm))"
    unfolding translate_def fd_vm_mem_haddr_def Let_def if_not_P[OF r2] r_def off_def
    using r4 r2 by auto
  ultimately show ?thesis by simp
qed

section \<open>Calls and returns\<close>

lemma stack_push_pushes:
  assumes "unat (i_frame_cnt st) + 1 < unat (e_frame_max env)"
    and "unat (e_frame_max env) \<le> length (vm_shadow (i_vm st))" "length (i_reg st) = 16"
  shows "\<exists>st'. stack_push env body st = body st'
    \<and> unat (i_frame_cnt st') = unat (i_frame_cnt st) + 1
    \<and> i_reg st' = (i_reg st)[10 := i_reg st ! 10
         + vm_stack_frame_sz (i_vm st) * vm_stack_push_frame_count (i_vm st)]
    \<and> i_cu st' = i_cu st \<and> i_ic st' = i_ic st
    \<and> vm_shadow (i_vm st') = (vm_shadow (i_vm st))[unat (i_frame_cnt st) :=
         \<lparr> sh_r6 = i_reg st ! 6, sh_r7 = i_reg st ! 7, sh_r8 = i_reg st ! 8, sh_r9 = i_reg st ! 9,
           sh_r10 = i_reg st ! 10, sh_pc = i_pc st \<rparr>]"
proof -
  have f: "unat (i_frame_cnt st + 1) = unat (i_frame_cnt st) + 1"
    using assms(1) unat_lt64[of "e_frame_max env"] by (subst unat_add64) simp_all
  hence "\<not> e_frame_max env \<le> i_frame_cnt st + 1" using assms(1) by (simp add: word_le_nat_alt)
  thus ?thesis
    using assms f by (auto simp: stack_push_def shadow_frame_in Let_def reg_set_def intro!: exI)
qed

lemma exit_pops:
  assumes "unat (i_frame_cnt st) = f + 1" "f < length (vm_shadow (i_vm st))" "length (i_reg st) = 16"
    and "segment_cost st \<le> i_cu st"
  shows "\<exists>st'. interp_0x95 env st = Next st' \<and> unat (i_frame_cnt st') = f
    \<and> i_pc st' = sh_pc (vm_shadow (i_vm st) ! f) + 1
    \<and> i_reg st' = (i_reg st)[6 := sh_r6 (vm_shadow (i_vm st) ! f), 7 := sh_r7 (vm_shadow (i_vm st) ! f),
         8 := sh_r8 (vm_shadow (i_vm st) ! f), 9 := sh_r9 (vm_shadow (i_vm st) ! f),
         10 := sh_r10 (vm_shadow (i_vm st) ! f)]"
proof -
  have nz: "i_frame_cnt st \<noteq> 0" using assms(1) by auto
  hence f: "unat (i_frame_cnt st - 1) = f" using assms(1) by (simp add: unat_minus_one)
  show ?thesis
    unfolding interp_0x95_def fault_within_budget(2)[OF assms(4)]
    using nz f assms(2,3) by (simp add: Let_def branch_end_def reg_set_def)
qed

section \<open>A configured machine\<close>

definition in_host_range :: "u64 \<Rightarrow> nat \<Rightarrow> u64 \<Rightarrow> bool" where
  "in_host_range base len a \<longleftrightarrow> unat base \<le> unat a \<and> unat a < unat base + len"

definition tlb_sized :: "fd_vm \<Rightarrow> bool" where
  "tlb_sized vm \<longleftrightarrow>
     length (vm_region_haddr vm) = 6 \<and> length (vm_region_ld_sz vm) = 6
     \<and> length (vm_region_st_sz vm) = 6"

lemma mem_cfg_regions [simp]:
  "vm_input_mem_regions (fd_vm_mem_cfg vm) = vm_input_mem_regions vm"
  "vm_input_mem_regions_cnt (fd_vm_mem_cfg vm) = vm_input_mem_regions_cnt vm"
  "vm_accs (fd_vm_mem_cfg vm) = vm_accs vm"
  "vm_acc_region_metas (fd_vm_mem_cfg vm) = vm_acc_region_metas vm"
  "vm_shadow (fd_vm_mem_cfg vm) = vm_shadow vm" "vm_text (fd_vm_mem_cfg vm) = vm_text vm"
  "vm_text_cnt (fd_vm_mem_cfg vm) = vm_text_cnt vm"
  "vm_sbpf_version (fd_vm_mem_cfg vm) = vm_sbpf_version vm"
  "vm_calldests (fd_vm_mem_cfg vm) = vm_calldests vm" "vm_mem (fd_vm_mem_cfg vm) = vm_mem vm"
  by (simp_all add: fd_vm_mem_cfg_def set_region_def Let_def)

lemma six_conv: "length xs = 6 \<Longrightarrow> \<exists>a b c d e f. xs = [a, b, c, d, e, f]"
  by (auto simp: numeral_eq_Suc length_Suc_conv)

lemma mem_cfg_st:
  assumes "tlb_sized vm"
  shows "\<exists>i. vm_region_st_sz (fd_vm_mem_cfg vm) = [0, 0, 262144, ucast (vm_heap_max vm), i, 0]"
    and "\<exists>p i b. vm_region_haddr (fd_vm_mem_cfg vm)
           = [if b then vm_rodata vm else 0, if b then 0 else vm_rodata vm, vm_stack vm, vm_heap vm, i, 0]
         \<and> vm_region_ld_sz (fd_vm_mem_cfg vm)
           = [if b then ucast (vm_rodata_sz vm) else 0, if b then 0 else ucast (vm_rodata_sz vm),
              262144, ucast (vm_heap_max vm), p, 0]"
proof -
  obtain a0 a1 a2 a3 a4 a5 b0 b1 b2 b3 b4 b5 c0 c1 c2 c3 c4 c5 where
    "vm_region_haddr vm = [a0, a1, a2, a3, a4, a5]" "vm_region_ld_sz vm = [b0, b1, b2, b3, b4, b5]"
    "vm_region_st_sz vm = [c0, c1, c2, c3, c4, c5]"
    using assms six_conv unfolding tlb_sized_def by metis
  thus "\<exists>i. vm_region_st_sz (fd_vm_mem_cfg vm) = [0, 0, 262144, ucast (vm_heap_max vm), i, 0]"
    "\<exists>p i b. vm_region_haddr (fd_vm_mem_cfg vm)
           = [if b then vm_rodata vm else 0, if b then 0 else vm_rodata vm, vm_stack vm, vm_heap vm, i, 0]
         \<and> vm_region_ld_sz (fd_vm_mem_cfg vm)
           = [if b then ucast (vm_rodata_sz vm) else 0, if b then 0 else ucast (vm_rodata_sz vm),
              262144, ucast (vm_heap_max vm), p, 0]"
    by (auto simp: fd_vm_mem_cfg_def set_region_def Let_def)
qed

lemma heap_max_u32: "heap_max \<le> FD_VM_HEAP_MAX \<Longrightarrow> unat (ucast heap_max :: u32) = unat heap_max"
  by (simp add: unsigned_ucast_eq take_bit_nat_eq_self word_le_nat_alt)

lemma mem_cfg_writable:
  assumes "tlb_sized vm" "vm_heap_max vm \<le> FD_VM_HEAP_MAX"
  shows "mapped True (fd_vm_mem_cfg vm) a \<longleftrightarrow>
    in_host_range (vm_stack vm) 262144 a \<or> in_host_range (vm_heap vm) (unat (vm_heap_max vm)) a
    \<or> (\<exists>r \<in> set (vm_input_mem_regions vm). input_range True r a)"
proof -
  obtain i where st: "vm_region_st_sz (fd_vm_mem_cfg vm) = [0, 0, 262144, ucast (vm_heap_max vm), i, 0]"
    using mem_cfg_st(1)[OF assms(1)] by blast
  obtain b j where "vm_region_haddr (fd_vm_mem_cfg vm) = [if b then vm_rodata vm else 0,
      if b then 0 else vm_rodata vm, vm_stack vm, vm_heap vm, j, 0]"
    using mem_cfg_st(2)[OF assms(1)] by blast
  thus ?thesis
    using st heap_max_u32[OF assms(2)]
    by (auto simp: mapped_def fixed_regions_def fixed_range_def region_szs_def in_host_range_def)
qed

lemma mem_cfg_wf:
  assumes "tlb_sized vm" "vm_heap_max vm \<le> FD_VM_HEAP_MAX"
    and "unat (vm_rodata vm) + unat (ucast (vm_rodata_sz vm) :: u32) < 2 ^ 64"
    and "unat (vm_stack vm) + 262144 < 2 ^ 64" "unat (vm_heap vm) + unat (vm_heap_max vm) < 2 ^ 64"
    and "unat (vm_input_mem_regions_cnt vm) = length (vm_input_mem_regions vm)"
    and "\<forall>r \<in> set (vm_input_mem_regions vm). region_wf vm r" "tiled (vm_input_mem_regions vm)"
  shows "mem_wf (fd_vm_mem_cfg vm)"
proof -
  obtain i where st: "vm_region_st_sz (fd_vm_mem_cfg vm) = [0, 0, 262144, ucast (vm_heap_max vm), i, 0]"
    using mem_cfg_st(1)[OF assms(1)] by blast
  obtain p b j where ha: "vm_region_haddr (fd_vm_mem_cfg vm) = [if b then vm_rodata vm else 0,
      if b then 0 else vm_rodata vm, vm_stack vm, vm_heap vm, j, 0]"
    and ld: "vm_region_ld_sz (fd_vm_mem_cfg vm)
           = [if b then ucast (vm_rodata_sz vm) else 0, if b then 0 else ucast (vm_rodata_sz vm),
              262144, ucast (vm_heap_max vm), p, 0]"
    using mem_cfg_st(2)[OF assms(1)] by blast
  have "\<forall>r \<in> set (vm_input_mem_regions vm). region_wf (fd_vm_mem_cfg vm) r"
    using assms(7) by (simp add: region_wf_def)
  thus ?thesis
    using assms(3-6,8) st ha ld heap_max_u32[OF assms(2)]
    by (simp add: mem_wf_def fixed_regions_def)
qed

lemma init_fields_simps [simp]:
  "vm_heap_max (init_fields a vm) = a_heap_max a" "vm_rodata (init_fields a vm) = a_rodata a"
  "vm_rodata_sz (init_fields a vm) = a_rodata_sz a" "vm_text (init_fields a vm) = a_text a"
  "vm_text_cnt (init_fields a vm) = a_text_cnt a"
  "vm_sbpf_version (init_fields a vm) = a_sbpf_version a"
  "vm_calldests (init_fields a vm) = a_calldests a"
  "vm_input_mem_regions (init_fields a vm) = a_mem_regions a"
  "vm_input_mem_regions_cnt (init_fields a vm) = a_mem_regions_cnt a"
  "vm_acc_region_metas (init_fields a vm) = a_acc_region_metas a"
  "vm_stack (init_fields a vm) = vm_stack vm" "vm_heap (init_fields a vm) = vm_heap vm"
  "vm_accs (init_fields a vm) = vm_accs vm" "vm_shadow (init_fields a vm) = vm_shadow vm"
  "vm_mem (init_fields a vm) = vm_mem vm" "tlb_sized (init_fields a vm) = tlb_sized vm"
  by (simp_all add: init_fields_def tlb_sized_def split: prod.split)

lemma init_exec_state_simps [simp]:
  "mem_view (init_exec_state a vm) = mem_view vm" "vm_shadow (init_exec_state a vm) = vm_shadow vm"
  "vm_text (init_exec_state a vm) = vm_text vm" "vm_text_cnt (init_exec_state a vm) = vm_text_cnt vm"
  "vm_sbpf_version (init_exec_state a vm) = vm_sbpf_version vm"
  "vm_calldests (init_exec_state a vm) = vm_calldests vm"
  "length (vm_reg (init_exec_state a vm)) = 16" "vm_frame_cnt (init_exec_state a vm) = 0"
  "vm_mem (init_exec_state a vm) = vm_mem vm"
  by (simp_all add: init_exec_state_def mem_view_def init_regs_def)

lemma init_some:
  assumes "fd_vm_init vm0 a = Some vm"
  obtains v where "vm0 = Some v" "vm = init_exec_state a (fd_vm_mem_cfg (init_fields a v))"
    "a_heap_max a \<le> FD_VM_HEAP_MAX"
    "a_calldests a = None \<or> \<not> enable_stricter_elf_headers (a_sbpf_version a)"
  using assms by (auto simp: fd_vm_init_def not_less split: option.splits if_splits)

lemma init_ready:
  assumes "fd_vm_init (Some v) a = Some vm" "length (vm_shadow v) = 64"
    and "a_sbpf_version a < FD_SBPF_VERSION_COUNT" "unat (a_text_cnt a) = length (a_text a)"
    and "\<not> static_syscalls (a_sbpf_version a) \<longrightarrow>
           (\<exists>dests. a_calldests a = Some dests \<and> length (a_text a) \<le> length dests)"
  shows "vm_ready vm"
  using assms by (auto elim!: init_some simp: vm_ready_def)

text \<open>
  What the caller passes to \<open>fd_vm_init\<close>: buffers that do not wrap, input regions that tile the
  input address space, and for every region that can grow an account whose buffer has the reserved
  space.  The buffer may be the region itself (direct mapping) or lie elsewhere.
\<close>

definition args_wf :: "fd_vm \<Rightarrow> init_args \<Rightarrow> bool" where
  "args_wf v a \<longleftrightarrow>
     tlb_sized v
     \<and> unat (a_rodata a) + unat (ucast (a_rodata_sz a) :: u32) < 2 ^ 64
     \<and> unat (vm_stack v) + 262144 < 2 ^ 64
     \<and> unat (vm_heap v) + unat (a_heap_max a) < 2 ^ 64
     \<and> unat (a_mem_regions_cnt a) = length (a_mem_regions a)
     \<and> (\<forall>r \<in> set (a_mem_regions a). region_wf (init_fields a v) r)
     \<and> tiled (a_mem_regions a)"

lemma init_mem:
  assumes "fd_vm_init (Some v) a = Some vm" "args_wf v a"
  shows "mem_wf vm"
    "mapped True vm b \<longleftrightarrow>
      in_host_range (vm_stack v) 262144 b \<or> in_host_range (vm_heap v) (unat (a_heap_max a)) b
      \<or> (\<exists>r \<in> set (a_mem_regions a). input_range True r b)"
    "zeroable vm b \<longleftrightarrow>
      (\<exists>r \<in> set (a_mem_regions a). account_range (a_acc_region_metas a) (vm_accs v) r b)"
    "vm_mem vm = vm_mem v"
proof -
  from assms(1) have vm: "vm = init_exec_state a (fd_vm_mem_cfg (init_fields a v))"
    and h: "a_heap_max a \<le> FD_VM_HEAP_MAX" by (auto elim: init_some)
  have "mem_wf (fd_vm_mem_cfg (init_fields a v))"
    using assms(2) h by (intro mem_cfg_wf) (simp_all add: args_wf_def)
  hence c: "confined_to (fd_vm_mem_cfg (init_fields a v)) vm"
    by (intro mem_view_confined) (simp_all add: vm)
  thus "mem_wf vm" by (simp add: confined_to_def)
  show "mapped True vm b \<longleftrightarrow>
      in_host_range (vm_stack v) 262144 b \<or> in_host_range (vm_heap v) (unat (a_heap_max a)) b
      \<or> (\<exists>r \<in> set (a_mem_regions a). input_range True r b)"
    using c assms(2) h mem_cfg_writable[of "init_fields a v" b]
    by (simp add: confined_to_def args_wf_def)
  have "mem_view vm = mem_view (fd_vm_mem_cfg (init_fields a v))" by (simp add: vm)
  thus "zeroable vm b \<longleftrightarrow>
      (\<exists>r \<in> set (a_mem_regions a). account_range (a_acc_region_metas a) (vm_accs v) r b)"
    by (simp add: zeroable_def mem_view_def)
  show "vm_mem vm = vm_mem v" by (simp add: vm)
qed

end
