(* ===== verification/Fd_Sat.thy ===== *)
theory Fd_Sat
  imports Fd_Prelude
begin

text \<open>
  The saturating helpers of \<^verbatim>\<open>util/bits/fd_sat.h\<close> against the clamp they stand for: the
  mathematical result, cut off at the ends of the type.
\<close>

definition clamp :: "int \<Rightarrow> int \<Rightarrow> int \<Rightarrow> int" where
  "clamp lo hi r = max lo (min hi r)"

definition clamp_long :: "int \<Rightarrow> int" where
  "clamp_long = clamp (- (2 ^ 63)) (2 ^ 63 - 1)"

lemma sint_long_bounds: "sint long_min = - (2 ^ 63)" "sint long_max = 2 ^ 63 - 1"
  by (simp_all add: long_min_def long_max_def)

lemma sint_wrap:
  assumes "\<not> long_overflows r"
  shows "sint (word_of_int r :: u64) = r"
  using assms by (intro sint_word_of_int64) (simp_all add: long_overflows_def)

lemma sint_fd_long_sat_add: "sint (fd_long_sat_add x y) = clamp_long (sint x + sint y)"
proof (cases "long_overflows (sint x + sint y)")
  case True
  thus ?thesis using sint_bounds64[of x] sint_bounds64[of y]
    by (auto simp: fd_long_sat_add_def clamp_long_def clamp_def long_overflows_def sint_long_bounds)
next
  case False
  have "x + y = word_of_int (sint x + sint y)" by simp
  thus ?thesis using False sint_wrap[OF False]
    by (simp add: fd_long_sat_add_def clamp_long_def clamp_def long_overflows_def)
qed

lemma sint_fd_long_sat_sub: "sint (fd_long_sat_sub x y) = clamp_long (sint x - sint y)"
proof (cases "long_overflows (sint x - sint y)")
  case True
  thus ?thesis using sint_bounds64[of x] sint_bounds64[of y]
    by (auto simp: fd_long_sat_sub_def clamp_long_def clamp_def long_overflows_def sint_long_bounds)
next
  case False
  have "x - y = word_of_int (sint x - sint y)" by simp
  thus ?thesis using False sint_wrap[OF False]
    by (simp add: fd_long_sat_sub_def clamp_long_def clamp_def long_overflows_def)
qed

lemma sint_fd_long_sat_mul: "sint (fd_long_sat_mul x y) = clamp_long (sint x * sint y)"
proof (cases "long_overflows (sint x * sint y)")
  case True
  have "(sint x < 0) \<noteq> (sint y < 0) \<longrightarrow> sint x * sint y \<le> 0"
    by (auto simp: mult_le_0_iff)
  moreover have "(sint x < 0) = (sint y < 0) \<longrightarrow> 0 \<le> sint x * sint y"
    by (auto simp: zero_le_mult_iff)
  ultimately show ?thesis using True
    by (auto simp: fd_long_sat_mul_def clamp_long_def clamp_def long_overflows_def sint_long_bounds)
next
  case False
  have "x * y = word_of_int (sint x * sint y)" by simp
  thus ?thesis using False sint_wrap[OF False]
    by (simp add: fd_long_sat_mul_def clamp_long_def clamp_def long_overflows_def)
qed

lemma sint_small: "unat (x :: u64) < 2 ^ 63 \<Longrightarrow> sint x = int (unat x)"
proof -
  assume "unat x < 2 ^ 63"
  hence "int (unat x) < int (2 ^ 63)" by (simp only: of_nat_less_iff)
  moreover have "- (2 ^ 63) \<le> int (unat x)" by (rule order.trans[of _ 0]) simp_all
  ultimately have "sint (word_of_int (int (unat x)) :: u64) = int (unat x)"
    by (intro sint_word_of_int64) simp_all
  thus ?thesis by simp
qed

lemma sint_large: "2 ^ 63 \<le> unat (x :: u64) \<Longrightarrow> sint x < 0"
proof -
  assume "2 ^ 63 \<le> unat x"
  hence ge: "int (2 ^ 63) \<le> int (unat x)" by (simp only: of_nat_le_iff)
  have lt: "int (unat x) < int (2 ^ 64)" using unat_lt64[of x] by (simp only: of_nat_less_iff)
  have "sint (word_of_int (int (unat x) - 2 ^ 64) :: u64) = int (unat x) - 2 ^ 64"
    using ge lt by (intro sint_word_of_int64) simp_all
  moreover have "word_of_int (int (unat x) - 2 ^ 64) = x" by (simp flip: wi_hom_syms)
  ultimately have "sint x = int (unat x) - 2 ^ 64" by metis
  thus ?thesis using lt by simp
qed

lemma unat_of_pos: "0 < sint (x :: u64) \<Longrightarrow> int (unat x) = sint x"
  using sint_small[of x] sint_large[of x] by (cases "unat x < 2 ^ 63") simp_all

section \<open>128 bit helpers\<close>

lemma unat_lt128: "unat (x :: u128) < 2 ^ 128"
  using unsigned_less[of x] by simp

lemma unat_fd_uint128_sat_mul:
  "unat (fd_uint128_sat_mul x y) = min (unat x * unat y) (2 ^ 128 - 1)"
proof -
  let ?r = "x * y" and ?p = "unat x * unat y"
  have r: "unat ?r = ?p mod 2 ^ 128" by (simp add: unat_word_ariths)
  have m: "unat (- 1 :: u128) = 2 ^ 128 - 1" by (simp add: unsigned_minus_1_eq_mask mask_eq_exp_minus_1)
  show ?thesis
  proof (cases "?p < 2 ^ 128")
    case True
    hence rp: "unat ?r = ?p" using r by simp
    have d: "x \<noteq> 0 \<Longrightarrow> ?r div x = y"
      using rp by (simp add: word_unat_eq_iff unat_div_distrib)
    have "y \<noteq> 0 \<Longrightarrow> \<not> ?r < x" "x \<noteq> 0 \<Longrightarrow> \<not> ?r < y"
      using rp by (simp_all add: word_less_nat_alt unat_eq_0 not_less)
    hence "fd_uint128_sat_mul x y = ?r" using d by (auto simp: fd_uint128_sat_mul_def Let_def)
    thus ?thesis using rp True by simp
  next
    case False
    hence nz: "x \<noteq> 0" "y \<noteq> 0" by auto
    have "?r div x \<noteq> y"
    proof
      assume "?r div x = y"
      hence "unat ?r div unat x = unat y" by (metis unat_div_distrib)
      hence "?p \<le> unat ?r" by (metis div_times_less_eq_dividend mult.commute)
      thus False using False unat_lt128[of ?r] by simp
    qed
    thus ?thesis using nz False m by (simp add: fd_uint128_sat_mul_def Let_def)
  qed
qed

lemma unat_fd_uint128_sat_add:
  "unat (fd_uint128_sat_add x y) = min (unat x + unat y) (2 ^ 128 - 1)"
proof -
  have m: "unat (- 1 :: u128) = 2 ^ 128 - 1" by (simp add: unsigned_minus_1_eq_mask mask_eq_exp_minus_1)
  have r: "unat (x + y) = (unat x + unat y) mod 2 ^ 128" by (simp add: unat_word_ariths)
  show ?thesis
  proof (cases "unat x + unat y < 2 ^ 128")
    case True
    thus ?thesis using r by (simp add: fd_uint128_sat_add_def Let_def word_less_nat_alt)
  next
    case False
    have "unat x + unat y < 2 * 2 ^ 128" using unat_lt128[of x] unat_lt128[of y] by simp
    hence "unat (x + y) = unat x + unat y - 2 ^ 128"
      using r False by (simp add: mod_if)
    hence "x + y < x" using False unat_lt128[of y] by (simp add: word_less_nat_alt)
    thus ?thesis using False m by (simp add: fd_uint128_sat_add_def Let_def)
  qed
qed

lemma unat_fd_uint128_sat_sub: "unat (fd_uint128_sat_sub x y) = unat x - unat y"
proof (cases "unat y \<le> unat x")
  case True
  have "unat (x - y) = unat x - unat y"
    using True by (simp add: unat_sub word_le_nat_alt)
  thus ?thesis by (simp add: fd_uint128_sat_sub_def Let_def word_less_nat_alt)
next
  case False
  have "unat (x - y) = unat x + 2 ^ 128 - unat y"
    using False unat_lt128[of y] unat_lt128[of x] by (simp add: unat_sub_if_size word_size word_le_nat_alt)
  hence "x < x - y" using False unat_lt128[of y] by (simp add: word_less_nat_alt)
  thus ?thesis using False by (simp add: fd_uint128_sat_sub_def Let_def)
qed

text \<open>
  The saturating helpers compute the clamp of the mathematical result to the range of their type:
  the unsigned ones by their carry, the signed ones by the sign of an operand, the 128 bit product by
  testing the wrapped product with a division.
\<close>

theorem saturating_helpers_clamp:
  "unat (fd_ulong_sat_add x y) = min (unat x + unat y) (2 ^ 64 - 1)
   \<and> unat (fd_ulong_sat_sub x y) = unat x - unat y
   \<and> unat (fd_ulong_sat_mul x y) = min (unat x * unat y) (2 ^ 64 - 1)
   \<and> sint (fd_long_sat_add x y) = clamp_long (sint x + sint y)
   \<and> sint (fd_long_sat_sub x y) = clamp_long (sint x - sint y)
   \<and> sint (fd_long_sat_mul x y) = clamp_long (sint x * sint y)
   \<and> unat (fd_uint128_sat_add u v) = min (unat u + unat v) (2 ^ 128 - 1)
   \<and> unat (fd_uint128_sat_sub u v) = unat u - unat v
   \<and> unat (fd_uint128_sat_mul u v) = min (unat u * unat v) (2 ^ 128 - 1)"
  by (simp only: unat_fd_ulong_sat_add unat_fd_ulong_sat_sub unat_fd_ulong_sat_mul
        sint_fd_long_sat_add sint_fd_long_sat_sub sint_fd_long_sat_mul
        unat_fd_uint128_sat_add unat_fd_uint128_sat_sub unat_fd_uint128_sat_mul simp_thms)

end
