(* ===== verification/Vm_Theorems.thy ===== *)
theory Vm_Theorems
  imports Vm_Props Fd_Sat
begin

text \<open>
  The main theorems about the virtual machine: validated bytecode halts and never makes the host
  misbehave, the batched compute meter is the per instruction one, and a program can only write
  where its machine maps memory for writing.  A small machine that runs a loop with a load-quad
  and stores to its stack instantiates them.
\<close>

section \<open>A concrete machine\<close>

definition demo_text :: "u64 list" where
  "demo_text =
     [fd_vm_instr 0xb7 1 0 0 3, fd_vm_instr 0x18 2 0 0 7, fd_vm_instr 0 0 0 0 9,
      fd_vm_instr 0x7b 10 2 0xfff8 0, fd_vm_instr 0x17 1 0 0 1, fd_vm_instr 0x55 1 0 0xfffd 0,
      fd_vm_instr 0x95 0 0 0 0]"

definition demo_shm :: fd_vm where
  "demo_shm =
     \<lparr> vm_heap_max = 0, vm_entry_cu = 0, vm_rodata = 0, vm_rodata_sz = 0, vm_text_addr = 0,
       vm_text = [], vm_text_cnt = 0, vm_text_off = 0, vm_text_sz = 0, vm_entry_pc = 0,
       vm_calldests = None, vm_pc = 0, vm_ic = 0, vm_cu = 0, vm_frame_cnt = 0, vm_heap_sz = 0,
       vm_region_haddr = replicate 6 0, vm_region_ld_sz = replicate 6 0,
       vm_region_st_sz = replicate 6 0, vm_input_mem_regions = [], vm_input_mem_regions_cnt = 0,
       vm_acc_region_metas = [], vm_is_deprecated = 0, vm_reg = replicate 16 0,
       vm_shadow = replicate 64
         \<lparr> sh_r6 = 0, sh_r7 = 0, sh_r8 = 0, sh_r9 = 0, sh_r10 = 0, sh_pc = 0 \<rparr>,
       vm_stack = 0x10000000, vm_heap = 0x20000000, vm_magic = FD_VM_MAGIC,
       vm_direct_mapping = False, vm_syscall_parameter_address_restrictions = False,
       vm_virtual_address_space_adjustments = False, vm_stack_frame_sz = 0,
       vm_stack_push_frame_count = 0, vm_segv_vaddr = 0, vm_segv_access_len = 0,
       vm_segv_access_type = 0, vm_sbpf_version = 0, vm_accs = [], vm_accounts_resize_delta = 0,
       vm_mem = (\<lambda>a. 0) \<rparr>"

definition demo_args :: init_args where
  "demo_args =
     \<lparr> a_heap_max = 32768, a_entry_cu = 100, a_rodata = 0x30000000, a_rodata_sz = 56,
       a_text_addr = 0x30000000, a_text = demo_text, a_text_cnt = 7, a_text_off = 0,
       a_text_sz = 56, a_entry_pc = 0, a_calldests = Some (replicate 7 False),
       a_sbpf_version = 0, a_mem_regions = [], a_mem_regions_cnt = 0, a_acc_region_metas = [],
       a_is_deprecated = 0, a_direct_mapping = False,
       a_syscall_parameter_address_restrictions = False,
       a_virtual_address_space_adjustments = False, a_r2_initial_value = 0 \<rparr>"

definition demo_vm :: fd_vm where
  "demo_vm = the (fd_vm_init (Some demo_shm) demo_args)"

definition no_syscalls :: "u64 \<Rightarrow> syscall option" where
  "no_syscalls = (\<lambda>k. None)"

lemma demo_init: "fd_vm_init (Some demo_shm) demo_args = Some demo_vm"
  unfolding demo_vm_def by (simp add: fd_vm_init_def demo_shm_def demo_args_def enable_stricter_elf_headers_def)

lemma demo_ready: "vm_ready demo_vm"
  by (rule init_ready[OF demo_init])
     (simp_all add: demo_shm_def demo_args_def demo_text_def static_syscalls_def
        FD_SBPF_VERSION_COUNT_def)

lemma demo_valid: "fd_vm_validate demo_vm = 0"
  by code_simp

lemma no_syscalls_ok: "syscalls_keep_arrays no_syscalls" "syscalls_confined no_syscalls"
  by (simp_all add: syscalls_keep_arrays_def syscalls_confined_def no_syscalls_def)

lemma demo_args_wf: "args_wf demo_shm demo_args"
  by (simp add: args_wf_def demo_shm_def demo_args_def tlb_sized_def tiled_def)

lemma demo_fields: "vm_cu demo_vm = 100" "vm_text_cnt demo_vm = 7" "length (vm_text demo_vm) = 7"
  "vm_frame_cnt demo_vm = 0"
  by code_simp+

section \<open>Execution\<close>

text \<open>
  C2: execution of a validated text halts.  With fuel for one pass over the text per compute unit and
  one more, \<open>fd_vm_exec_notrace\<close> returns with an error code (or success): every loop of a program
  is cut off by the budget, whatever its system calls do, since they cannot raise it.
\<close>

theorem vm_exec_halts:
  assumes "fd_vm_validate vm = 0" "vm_ready vm" "syscalls_keep_arrays syscalls"
    and "exec_fuel vm \<le> fuel"
  shows "\<exists>err st. fd_vm_exec_notrace fuel syscalls vm = Some (Halt err st)"
  by (rule exec_halts[OF assms])

theorem vm_exec_halts_witness:
  "\<exists>err st. fd_vm_exec_notrace 808 no_syscalls demo_vm = Some (Halt err st)"
  by (rule vm_exec_halts[OF demo_valid demo_ready no_syscalls_ok(1)])
     (simp add: exec_fuel_def demo_fields)

text \<open>
  C1: in no state a validated program reaches does an instruction do what C leaves undefined: no
  read outside the text (the load-quad reads its second word without a check), no read or write
  outside the register file (the decoded operands, the register a callx names in its immediate, the
  arguments and result of a system call, the registers a call saves and an exit restores), no jump
  table of an unknown version, no dividing by zero or overflowing host division, no access outside
  the shadow stack and no read past the call destination set.
\<close>

theorem vm_exec_never_stuck:
  assumes "fd_vm_validate vm = 0" "vm_ready vm" "syscalls_keep_arrays syscalls"
    and "reaches (istep (exec_env syscalls vm)) (exec_start vm) st"
  shows "interp_exec (exec_env syscalls vm) st \<noteq> Stuck ub"
  by (rule exec_never_stuck[OF assms])

theorem vm_exec_never_stuck_witness:
  "interp_exec (exec_env no_syscalls demo_vm) (exec_start demo_vm) \<noteq> Stuck UB_register"
  by (rule vm_exec_never_stuck[OF demo_valid demo_ready no_syscalls_ok(1) reaches_refl])

text \<open>
  C3: the batched compute meter is exact.  The interpreter bills a straight line of text only when it
  ends; the reference charges one unit before every instruction it runs, an instruction that faults
  included, and runs nothing without a unit left.  Both halt with the same error and the same compute
  units left, and with the same machine unless the budget was exceeded.  So a fault is paid for, and
  running ahead of the budget is not visible in the error, where \<^verbatim>\<open>fd_vm.h\<close> says that \<open>cu\<close> excludes
  the faulting instruction and that speculation can turn an exceeded budget into a memory fault.
\<close>

theorem vm_exec_metering:
  assumes "fd_vm_validate vm = 0" "vm_ready vm" "syscalls_keep_arrays syscalls"
    and "unat (vm_text_cnt vm) + 2 * unat (vm_cu vm) + 2 < 2 ^ 64" "exec_fuel vm \<le> fuel"
  shows "\<exists>err st st'. fd_vm_exec_notrace fuel syscalls vm = Some (Halt err st)
           \<and> ref_vm_exec fuel syscalls vm = Some (Halt err st')
           \<and> vm_cu (i_vm st) = vm_cu (i_vm st')
           \<and> (err \<noteq> FD_VM_ERR_EBPF_EXCEEDED_MAX_INSTRUCTIONS \<longrightarrow> i_vm st = i_vm st')"
  by (rule exec_metering[OF assms])

theorem vm_exec_metering_witness:
  "\<exists>err st st'. fd_vm_exec_notrace 808 no_syscalls demo_vm = Some (Halt err st)
           \<and> ref_vm_exec 808 no_syscalls demo_vm = Some (Halt err st')
           \<and> vm_cu (i_vm st) = vm_cu (i_vm st')
           \<and> (err \<noteq> FD_VM_ERR_EBPF_EXCEEDED_MAX_INSTRUCTIONS \<longrightarrow> i_vm st = i_vm st')"
  by (rule vm_exec_metering[OF demo_valid demo_ready no_syscalls_ok(1)])
     (simp_all add: exec_fuel_def demo_fields)

text \<open>
  C4: a program writes only to its stack, its heap and the writable input regions it was given, an
  account region never growing past the address space reserved for it, and to the buffers of the
  accounts whose regions it can grow, which the resize handler zeroes up to the reserved length
  (the region itself under direct mapping; the account's own buffer, outside the region, when the
  region is a copy in the serialization buffer).  Any other host byte, in particular the program's
  read-only data and text, is the same after the run.
\<close>

theorem vm_exec_confined:
  assumes "fd_vm_init (Some shm) args = Some vm" "args_wf shm args" "syscalls_confined syscalls"
    and "fd_vm_exec_notrace fuel syscalls vm = Some (Halt err st)"
    and "\<not> in_host_range (vm_stack shm) 262144 b"
    and "\<not> in_host_range (vm_heap shm) (unat (a_heap_max args)) b"
    and "\<forall>r \<in> set (a_mem_regions args). \<not> input_range True r b
           \<and> \<not> account_range (a_acc_region_metas args) (vm_accs shm) r b"
  shows "vm_mem (i_vm st) b = vm_mem shm b"
proof -
  note m = init_mem[OF assms(1,2)]
  have "confined_to vm (i_vm st)" by (rule exec_confined[OF assms(4,3) m(1)])
  moreover have "\<not> mapped True vm b" "\<not> zeroable vm b" using m(2,3) assms(5-7) by blast+
  ultimately show ?thesis using m(4) by (metis confined_to_def)
qed

text \<open>
  A machine with an account whose region is a copy: sixteen bytes of metadata, then sixty bytes of
  data with room for forty more, the account's own buffer elsewhere.  The program stores past the
  sixty bytes, so the region and the account grow.
\<close>

definition copy_shm :: fd_vm where
  "copy_shm = demo_shm\<lparr> vm_accs := [\<lparr> acc_data = 0x50000000, acc_data_len = 60 \<rparr>],
                        vm_mem := (\<lambda>a. 7) \<rparr>"

definition copy_args :: init_args where
  "copy_args = demo_args
     \<lparr> a_text := [fd_vm_instr 0x7b 1 10 80 0, fd_vm_instr 0x95 0 0 0 0], a_text_cnt := 2,
       a_text_sz := 16,
       a_mem_regions :=
         [\<lparr> vaddr_offset = 0, ir_haddr = 0x40000000, region_sz = 16, address_space_reserved = 16,
            is_writable = 1, acc_region_meta_idx = - 1 \<rparr>,
          \<lparr> vaddr_offset = 16, ir_haddr = 0x40000010, region_sz = 60, address_space_reserved = 100,
            is_writable = 1, acc_region_meta_idx = 0 \<rparr>],
       a_mem_regions_cnt := 2, a_acc_region_metas := [\<lparr> meta_acc = 0 \<rparr>],
       a_virtual_address_space_adjustments := True \<rparr>"

definition copy_vm :: fd_vm where
  "copy_vm = the (fd_vm_init (Some copy_shm) copy_args)"

lemma copy_init: "fd_vm_init (Some copy_shm) copy_args = Some copy_vm"
  unfolding copy_vm_def
  by (simp add: fd_vm_init_def copy_shm_def copy_args_def demo_shm_def demo_args_def
        enable_stricter_elf_headers_def)

lemma copy_ready: "vm_ready copy_vm"
  by (rule init_ready[OF copy_init])
     (simp_all add: copy_shm_def copy_args_def demo_shm_def demo_args_def static_syscalls_def
        FD_SBPF_VERSION_COUNT_def)

lemma copy_valid: "fd_vm_validate copy_vm = 0" "vm_cu copy_vm = 100" "length (vm_text copy_vm) = 2"
  by code_simp+

lemma copy_args_wf: "args_wf copy_shm copy_args"
proof -
  have "tiled (a_mem_regions copy_args)"
    by (auto simp: tiled_def copy_args_def less_Suc_eq numeral_2_eq_2)
  moreover have "\<forall>r \<in> set (a_mem_regions copy_args). region_wf (init_fields copy_args copy_shm) r"
    by (simp add: copy_args_def copy_shm_def region_wf_def region_extent_def growable_def
          region_acc_def)
  ultimately show ?thesis
    by (simp add: args_wf_def copy_shm_def demo_shm_def tlb_sized_def)
       (simp add: copy_args_def demo_args_def)
qed

theorem vm_exec_confined_witness:
  "\<exists>err st. fd_vm_exec_notrace 303 no_syscalls copy_vm = Some (Halt err st)
      \<and> vm_mem (i_vm st) 0x30000000 = 7 \<and> vm_mem (i_vm st) 0x40000074 = 7
      \<and> vm_mem (i_vm st) 0x50000064 = 7"
proof -
  obtain err st where run: "fd_vm_exec_notrace 303 no_syscalls copy_vm = Some (Halt err st)"
    using exec_halts[OF copy_valid(1) copy_ready no_syscalls_ok(1), of 303]
    by (auto simp: exec_fuel_def copy_valid(2,3))
  note keep = vm_exec_confined[OF copy_init copy_args_wf no_syscalls_ok(2) run]
  note defs = in_host_range_def copy_shm_def copy_args_def demo_shm_def demo_args_def
    input_range_def region_extent_def account_range_def region_acc_def growable_def
  have "vm_mem (i_vm st) 0x30000000 = vm_mem copy_shm 0x30000000"
    "vm_mem (i_vm st) 0x40000074 = vm_mem copy_shm 0x40000074"
    "vm_mem (i_vm st) 0x50000064 = vm_mem copy_shm 0x50000064"
    by (rule keep; simp add: defs)+
  thus ?thesis using run by (auto simp: copy_shm_def)
qed

section \<open>Tables\<close>

text \<open>
  C10: for every version and opcode the interpreter's jump table and the validator's map agree: the
  same opcodes are unsupported; a jump gets the jump check and a load-quad the load-quad check; and an
  arithmetic handler run with an immediate its check accepts neither traps on the host nor faults as
  an invalid instruction, whatever the registers hold.
\<close>

theorem vm_tables_agree:
  assumes "v < FD_SBPF_VERSION_COUNT" "op < 256"
  shows "(interp_jump_table v ! op = L_sigill \<longleftrightarrow> validation_map v ! op = FD_INVALID)
    \<and> (interp_jump_table v ! op = L_ldq \<longleftrightarrow> validation_map v ! op = FD_CHECK_LDQ)
    \<and> ((\<exists>f. interp_jump_table v ! op = L_jmp f) \<longleftrightarrow> validation_map v ! op = FD_CHECK_JMP)
    \<and> (\<forall>f d s imm. interp_jump_table v ! op = L_alu f \<longrightarrow> imm_ok (validation_map v ! op) imm \<longrightarrow>
         f d s imm \<noteq> Op_host \<and> f d s imm \<noteq> Op_siginv)"
  using tables_agree[OF assms]
  by (cases "interp_jump_table v ! op") (auto simp: alu_ok_def split: if_splits)

theorem vm_tables_agree_witness:
  "(interp_jump_table 2 ! 0x18 = L_sigill \<longleftrightarrow> validation_map 2 ! 0x18 = FD_INVALID)
    \<and> (interp_jump_table 2 ! 0x18 = L_ldq \<longleftrightarrow> validation_map 2 ! 0x18 = FD_CHECK_LDQ)"
  using vm_tables_agree[of 2 "0x18"] by (simp add: FD_SBPF_VERSION_COUNT_def)

section \<open>Memory\<close>

text \<open>
  C5: a translation that succeeds gives a host range that lies as a whole in one region the machine
  maps for that kind of access: between the region's host address and its size, which for an input
  region is the size it has after the translation, not the address space reserved behind it.  The
  region does not wrap around the end of the address space, and the machine's memory map stays as it
  was.
\<close>

theorem vm_translate_in_bounds:
  assumes "mem_wf vm" "translate write vm vaddr sz = (haddr, vm')" "haddr \<noteq> 0" "sz \<noteq> 0"
  shows "(\<exists>base len. host_region write vm' base len
           \<and> unat base \<le> unat haddr \<and> unat haddr + unat sz \<le> unat base + len
           \<and> unat base + len < 2 ^ 64)
    \<and> mem_wf vm' \<and> (\<forall>w a. mapped w vm' a = mapped w vm a)"
  using translate_within[OF assms] translate_keeps[OF assms(1,2)] host_region_mapped(1) by blast

lemma copy_mem_wf: "mem_wf copy_vm"
  by (rule init_mem(1)[OF copy_init copy_args_wf])

lemma copy_translate: "fst (translate False copy_vm 0x400000020 8) = 0x40000020"
  by code_simp

theorem vm_translate_in_bounds_witness:
  "\<exists>h vm' base len. translate False copy_vm 0x400000020 8 = (h, vm')
     \<and> host_region False vm' base len \<and> unat base \<le> unat h \<and> unat h + 8 \<le> unat base + len"
proof -
  obtain vm' where t: "translate False copy_vm 0x400000020 8 = (0x40000020, vm')"
    using copy_translate by (metis prod.collapse)
  have "unat (8 :: u64) = 8" "(0x40000020 :: u64) \<noteq> 0" "(8 :: u64) \<noteq> 0" by simp_all
  thus ?thesis using vm_translate_in_bounds[OF copy_mem_wf t] t by metis
qed

text \<open>
  Outside the input region and the gapped stack, an access succeeds exactly when it ends within the
  region, and then translates to the region's host address plus the offset.
\<close>

theorem vm_translate_exact:
  fixes vaddr sz :: u64
  defines "region \<equiv> unat (FD_VADDR_TO_REGION vaddr)" and "offset \<equiv> vaddr AND FD_VM_OFFSET_MASK"
  assumes "region \<noteq> 4" "region = 2 \<longrightarrow> vm_stack_push_frame_count vm \<le> 1" "sz \<noteq> 0"
  shows "translate write vm vaddr sz =
    (if unat offset + unat sz \<le> unat (region_szs write vm ! region)
     then (vm_region_haddr vm ! region + offset, vm) else (0, vm))"
  unfolding region_def offset_def
  by (rule translate_exact) (use assms in \<open>simp_all add: region_def\<close>)

theorem vm_translate_exact_witness:
  "translate True demo_vm 0x300000010 8 = (0x20000010, demo_vm)"
proof -
  have r: "FD_VADDR_TO_REGION 0x300000010 = 3" by (simp add: FD_VADDR_TO_REGION_def)
  have "region_szs True demo_vm ! 3 = 32768" "vm_region_haddr demo_vm ! 3 = 0x20000000" by code_simp+
  thus ?thesis using vm_translate_exact[of "0x300000010" demo_vm 8 True] by (simp add: r)
qed

lemma tiled_upper_mono:
  assumes "tiled rs" "\<forall>r \<in> set rs. unat (vaddr_offset r) + unat (address_space_reserved r) < 2 ^ 64"
    and "i \<le> j" "j < length rs"
  shows "vaddr_offset (rs ! i) + address_space_reserved (rs ! i)
       \<le> vaddr_offset (rs ! j) + address_space_reserved (rs ! j)"
  using assms(3,4)
proof (induction j rule: dec_induct)
  case (step j)
  have "vaddr_offset (rs ! Suc j) = vaddr_offset (rs ! j) + address_space_reserved (rs ! j)"
    using assms(1) step.prems by (simp add: tiled_def)
  moreover have "unat (vaddr_offset (rs ! Suc j) + address_space_reserved (rs ! Suc j))
      = unat (vaddr_offset (rs ! Suc j)) + unat (address_space_reserved (rs ! Suc j))"
    using assms(2) step.prems by (intro unat_add64) simp
  ultimately show ?case using step by (simp add: word_le_nat_alt)
qed simp

lemma region_search_finds:
  assumes "tiled rs" "\<forall>r \<in> set rs. unat (vaddr_offset r) + unat (address_space_reserved r) < 2 ^ 64"
    and "rs \<noteq> []" "unat cnt = length rs"
    and "offset < vaddr_offset (last rs) + address_space_reserved (last rs)"
  defines "i \<equiv> region_search rs offset 0 (unat (cnt - 1 :: u32))"
  shows "i < length rs \<and> vaddr_offset (rs ! i) \<le> offset
    \<and> offset < vaddr_offset (rs ! i) + address_space_reserved (rs ! i)"
proof -
  have n: "unat (cnt - 1) = length rs - 1"
    using assms(3,4) by (metis length_0_conv unat_0 unat_minus_one)
  have i: "i \<le> length rs - 1"
    using region_search_bounds[of 0 "length rs - 1" rs offset] n by (simp add: i_def)
  hence len: "i < length rs" using assms(3) by (cases rs) simp_all
  have "i = length rs - 1 \<or> offset < vaddr_offset (rs ! i) + address_space_reserved (rs ! i)"
    using region_search_upper[of 0 "length rs - 1" rs offset] tiled_upper_mono[OF assms(1,2)] n
    by (simp add: i_def Let_def)
  hence hi: "offset < vaddr_offset (rs ! i) + address_space_reserved (rs ! i)"
    using assms(3,5) by (auto simp: last_conv_nth)
  have "i = 0 \<or> vaddr_offset (rs ! (i - 1)) + address_space_reserved (rs ! (i - 1)) \<le> offset"
    using region_search_lower[of 0 "length rs - 1" rs offset] n by (simp add: i_def Let_def)
  moreover have "i \<noteq> 0 \<Longrightarrow>
      vaddr_offset (rs ! i) = vaddr_offset (rs ! (i - 1)) + address_space_reserved (rs ! (i - 1))"
    using assms(1) i unfolding tiled_def
    by (metis Suc_eq_plus1 Suc_pred' bot_nat_0.not_eq_extremum less_eq_Suc_le)
  ultimately have "vaddr_offset (rs ! i) \<le> offset"
    using assms(1,3) by (cases "i = 0") (simp_all add: tiled_def)
  thus ?thesis using len hi by simp
qed

text \<open>
  C34: the binary search of the input region finds the region whose reserved address space holds an
  offset, for regions that tile the address space from 0 on and any offset before their end; no other
  region holds it.
\<close>

theorem vm_region_search_finds:
  fixes vm offset
  defines "rs \<equiv> vm_input_mem_regions vm" and "idx \<equiv> fd_vm_get_input_mem_region_idx vm offset"
  assumes "tiled rs" "\<forall>r \<in> set rs. unat (vaddr_offset r) + unat (address_space_reserved r) < 2 ^ 64"
    and "rs \<noteq> []" "unat (vm_input_mem_regions_cnt vm) = length rs"
    and "offset < vaddr_offset (last rs) + address_space_reserved (last rs)"
  shows "idx < length rs \<and> vaddr_offset (rs ! idx) \<le> offset
    \<and> offset < vaddr_offset (rs ! idx) + address_space_reserved (rs ! idx)
    \<and> (\<forall>j < length rs. vaddr_offset (rs ! j) \<le> offset
          \<and> offset < vaddr_offset (rs ! j) + address_space_reserved (rs ! j) \<longrightarrow> j = idx)"
proof -
  let ?up = "\<lambda>j. vaddr_offset (rs ! j) + address_space_reserved (rs ! j)"
  have idx: "idx < length rs \<and> vaddr_offset (rs ! idx) \<le> offset \<and> offset < ?up idx"
    using region_search_finds[OF assms(3-7)]
    by (simp add: idx_def rs_def fd_vm_get_input_mem_region_idx_def)
  have apart: "?up i \<le> vaddr_offset (rs ! j)" if "i < j" "j < length rs" for i j
    using tiled_upper_mono[OF assms(3,4), of i "j - 1"] assms(3) that
    by (cases j) (auto simp: tiled_def)
  have "j = idx" if "j < length rs" "vaddr_offset (rs ! j) \<le> offset" "offset < ?up j" for j
  proof (rule linorder_cases[of j idx])
    assume "j < idx"
    with apart idx have "?up j \<le> offset" by (meson order.trans)
    thus ?thesis using that(3) by simp
  next
    assume "idx < j"
    with apart that have "?up idx \<le> offset" by (meson order.trans)
    thus ?thesis using idx leD by blast
  qed
  thus ?thesis using idx by blast
qed

definition demo_regions :: "fd_vm_input_region list" where
  "demo_regions =
     map (\<lambda>k. \<lparr> vaddr_offset = 100 * of_nat k, ir_haddr = 0x40000000, region_sz = 60,
                address_space_reserved = 100, is_writable = 1, acc_region_meta_idx = 0 \<rparr>) [0, 1, 2, 3, 4]"

lemma demo_tiled:
  "tiled demo_regions"
  "\<forall>r \<in> set demo_regions. unat (vaddr_offset r) + unat (address_space_reserved r) < 2 ^ 64"
  "demo_regions \<noteq> []" "unat (5 :: u32) = length demo_regions"
  "250 < vaddr_offset (last demo_regions) + address_space_reserved (last demo_regions)"
  by (code_simp, simp add: demo_regions_def, code_simp, simp add: demo_regions_def, code_simp)

text \<open>
  C35: growing an account's region on a write.  The resize handler either leaves the machine alone or
  grows a writable region for a write, to more than it had, at most the address space reserved for it
  and at most 10 MiB; the transaction's resize counter moves by exactly the growth and stays within
  the 20 MiB allowed.
\<close>

theorem vm_resize_bounded:
  assumes "idx < length (vm_input_mem_regions vm)"
    and "fd_vm_handle_input_mem_region_oob vm off sz idx w = vm'"
  shows "vm' = vm
    \<or> w \<and> is_writable (vm_input_mem_regions vm ! idx) \<noteq> 0
      \<and> (\<exists>n. unat (region_sz (vm_input_mem_regions vm ! idx)) < n
           \<and> n \<le> unat (address_space_reserved (vm_input_mem_regions vm ! idx)) \<and> n \<le> 10485760
           \<and> unat (region_sz (vm_input_mem_regions vm' ! idx)) = n
           \<and> sint (vm_accounts_resize_delta vm')
             = sint (vm_accounts_resize_delta vm) + int n
               - int (unat (region_sz (vm_input_mem_regions vm ! idx)))
           \<and> sint (vm_accounts_resize_delta vm') \<le> 20971520)"
proof (cases "vm' = vm")
  case False
  let ?r = "vm_input_mem_regions vm ! idx" and ?d = "vm_accounts_resize_delta vm"
  let ?n = "new_region_sz vm ?r" and ?g = "fd_long_sat_sub 20971520 (vm_accounts_resize_delta vm)"
  have res: "w" "is_writable ?r \<noteq> 0" "ucast (region_sz ?r) < ?n" "vm' = resize_region vm idx ?n"
    using oob_cases[of vm off sz idx w] assms(2) False by auto
  hence ok: "resize_ok vm idx ?n"
    using assms(1) new_region_sz_le by (simp add: resize_ok_def)
  have lt: "unat (region_sz ?r) < unat ?n" using res(3) by (simp add: word_less_nat_alt)
  hence ilt: "int (unat (region_sz ?r)) < int (unat ?n)" by (simp only: of_nat_less_iff)
  have n: "unat ?n \<le> unat (address_space_reserved ?r)" "unat ?n \<le> 10485760"
    using new_region_sz_le[of vm ?r] by (simp_all add: word_le_nat_alt)
  have rz: "unat (region_sz (vm_input_mem_regions vm' ! idx)) = unat ?n"
    using res(4) assms(1) resize_extent(2)[OF ok] by (simp add: resize_regions)
  have sg: "sint ?g = clamp_long (20971520 - sint ?d)"
    by (simp add: sint_fd_long_sat_sub)
  have le: "?n \<le> fd_ulong_sat_add (ucast (region_sz ?r)) (if 0 < sint ?g then ?g else 0)"
    by (simp add: new_region_sz_def Let_def)
  have pos: "0 < sint ?g"
  proof (rule ccontr)
    assume "\<not> ?thesis"
    hence "unat ?n \<le> unat (region_sz ?r)"
      using le unat_lt32[of "region_sz ?r"] by (simp add: word_le_nat_alt unat_fd_ulong_sat_add)
    thus False using lt by simp
  qed
  have "unat ?n \<le> unat (region_sz ?r) + unat ?g"
    using le pos by (simp add: word_le_nat_alt unat_fd_ulong_sat_add)
  moreover have "sint ?g \<le> 20971520 - sint ?d"
    using sg pos by (auto simp: clamp_long_def clamp_def max_def min_def split: if_splits)
  ultimately have grow: "int (unat ?n) - int (unat (region_sz ?r)) \<le> 20971520 - sint ?d"
    using unat_of_pos[OF pos] by linarith
  have ug: "unat (?n - ucast (region_sz ?r)) = unat ?n - unat (region_sz ?r)"
    using lt by (subst unat_sub64) simp_all
  hence "sint (?n - ucast (region_sz ?r)) = int (unat ?n) - int (unat (region_sz ?r))"
    using lt n by (subst sint_small) simp_all
  moreover have "vm_accounts_resize_delta vm' = fd_long_sat_add ?d (?n - ucast (region_sz ?r))"
    using res(4) by (simp add: resize_region_def Let_def)
  ultimately have "sint (vm_accounts_resize_delta vm')
      = sint ?d + int (unat ?n) - int (unat (region_sz ?r))"
    using grow ilt sint_bounds64[of ?d]
    by (simp add: sint_fd_long_sat_add clamp_long_def clamp_def)
  thus ?thesis using res(1,2) lt n rz grow by auto
qed simp


definition demo_grow_vm :: fd_vm where
  "demo_grow_vm = demo_vm
     \<lparr> vm_virtual_address_space_adjustments := True, vm_input_mem_regions := demo_regions,
       vm_input_mem_regions_cnt := 5, vm_acc_region_metas := [\<lparr> meta_acc = 0 \<rparr>],
       vm_accs := [\<lparr> acc_data = 0x40000000, acc_data_len = 60 \<rparr>] \<rparr>"

theorem vm_region_search_finds_witness:
  "fd_vm_get_input_mem_region_idx demo_grow_vm 250 < length demo_regions
   \<and> vaddr_offset (demo_regions ! fd_vm_get_input_mem_region_idx demo_grow_vm 250) \<le> 250"
proof -
  have "vm_input_mem_regions demo_grow_vm = demo_regions" "vm_input_mem_regions_cnt demo_grow_vm = 5"
    by (simp_all add: demo_grow_vm_def)
  thus ?thesis using vm_region_search_finds[of demo_grow_vm 250] demo_tiled by simp
qed

lemma demo_vm_delta: "vm_accounts_resize_delta demo_vm = 0"
  by code_simp

lemma demo_room: "fd_long_sat_sub FD_MAX_ACCOUNT_DATA_GROWTH_PER_TRANSACTION 0 = 20971520"
  by (simp add: fd_long_sat_sub_def long_overflows_def)

lemma demo_grow: "fd_vm_handle_input_mem_region_oob demo_grow_vm 270 10 2 True \<noteq> demo_grow_vm"
proof -
  have n: "new_region_sz demo_grow_vm (demo_regions ! 2) = 100"
    by (simp add: new_region_sz_def demo_grow_vm_def demo_vm_delta demo_room demo_regions_def
        fd_ulong_sat_add_def Let_def)
  have r: "vm_input_mem_regions demo_grow_vm = demo_regions" by (simp add: demo_grow_vm_def)
  have z: "region_sz (demo_regions ! 2) = 60" by (simp add: demo_regions_def)
  have "fd_vm_handle_input_mem_region_oob demo_grow_vm 270 10 2 True = resize_region demo_grow_vm 2 100"
    unfolding fd_vm_handle_input_mem_region_oob_def Let_def r n
    by (simp add: z) (simp add: demo_grow_vm_def demo_regions_def fd_ulong_sat_sub_def fd_ulong_sat_add_def)
  hence "region_sz (vm_input_mem_regions (fd_vm_handle_input_mem_region_oob demo_grow_vm 270 10 2 True) ! 2) = 100"
    using r by (simp add: resize_region_def Let_def demo_regions_def)
  thus ?thesis using r z by auto
qed

theorem vm_resize_bounded_witness:
  "sint (vm_accounts_resize_delta (fd_vm_handle_input_mem_region_oob demo_grow_vm 270 10 2 True))
     \<le> 20971520"
proof -
  have "2 < length (vm_input_mem_regions demo_grow_vm)"
    by (simp add: demo_grow_vm_def demo_regions_def)
  from vm_resize_bounded[OF this refl, of 270 10 True] demo_grow show ?thesis by blast
qed

section \<open>Calls\<close>

text \<open>
  C36: a call and its return.  After \<open>call_to\<close> saves a frame, an exit executed with the same shadow stack
  and frame count comes back to the instruction after the call with the callee saved registers r6 to
  r9 and the frame pointer r10 of the caller, whatever the callee did to the registers.
\<close>

theorem vm_call_return:
  assumes "istate_ok env st" "unat (i_frame_cnt st) + 1 < unat (e_frame_max env)"
    and "stack_push env Next st = Next called"
    and "vm_shadow (i_vm returning) = vm_shadow (i_vm called)"
    and "i_frame_cnt returning = i_frame_cnt called" "length (i_reg returning) = 16"
    and "segment_cost returning \<le> i_cu returning"
  shows "\<exists>ret. interp_0x95 env returning = Next ret
    \<and> i_pc ret = i_pc st + 1 \<and> i_frame_cnt ret = i_frame_cnt st
    \<and> (\<forall>k. 6 \<le> k \<and> k \<le> 10 \<longrightarrow> i_reg ret ! k = i_reg st ! k)
    \<and> (\<forall>k. k < 6 \<longrightarrow> i_reg ret ! k = i_reg returning ! k)"
proof -
  let ?f = "unat (i_frame_cnt st)"
  have sz: "unat (e_frame_max env) \<le> length (vm_shadow (i_vm st))" "length (i_reg st) = 16"
    using assms(1) by (simp_all add: istate_ok_def)
  from stack_push_pushes[OF assms(2) sz, of Next] assms(3)
  have cnt: "unat (i_frame_cnt called) = ?f + 1"
    and sh: "vm_shadow (i_vm called) = (vm_shadow (i_vm st))[?f :=
         \<lparr> sh_r6 = i_reg st ! 6, sh_r7 = i_reg st ! 7, sh_r8 = i_reg st ! 8, sh_r9 = i_reg st ! 9,
           sh_r10 = i_reg st ! 10, sh_pc = i_pc st \<rparr>]"
    by auto
  have top: "?f < length (vm_shadow (i_vm st))" using assms(2) sz(1) by simp
  from exit_pops[of returning ?f env] obtain ret where
      b: "interp_0x95 env returning = Next ret" "unat (i_frame_cnt ret) = ?f" "i_pc ret = i_pc st + 1"
      "i_reg ret = (i_reg returning)[6 := i_reg st ! 6, 7 := i_reg st ! 7, 8 := i_reg st ! 8,
         9 := i_reg st ! 9, 10 := i_reg st ! 10]"
    using assms(4-7) cnt sh top by auto
  have "k = 6 \<or> k = 7 \<or> k = 8 \<or> k = 9 \<or> k = 10" if "6 \<le> k" "k \<le> 10" for k :: nat
    using that by linarith
  thus ?thesis
    using b assms(6) by (auto simp: word_unat_eq_iff nth_list_update)
qed

definition demo_env :: ienv where
  "demo_env = exec_env no_syscalls demo_vm"

lemma demo_istate_ok: "istate_ok demo_env (exec_start demo_vm)"
  using iinv_start[OF demo_valid demo_ready no_syscalls_ok(1)] by (simp add: iinv_def demo_env_def)

theorem vm_call_return_witness:
  "\<exists>called ret. stack_push demo_env Next (exec_start demo_vm) = Next called
     \<and> interp_0x95 demo_env (called\<lparr>i_pc0 := i_pc called\<rparr>) = Next ret
     \<and> i_reg ret ! 10 = i_reg (exec_start demo_vm) ! 10"
proof -
  let ?st = "exec_start demo_vm"
  have f: "unat (i_frame_cnt ?st) + 1 < unat (e_frame_max demo_env)"
    using demo_ready by (simp add: exec_start_def demo_env_def exec_env_def demo_fields)
  have sz: "unat (e_frame_max demo_env) \<le> length (vm_shadow (i_vm ?st))" "length (i_reg ?st) = 16"
    using demo_istate_ok by (simp_all add: istate_ok_def)
  obtain called where c: "stack_push demo_env Next ?st = Next called"
      "i_cu called = i_cu ?st" "length (i_reg called) = 16"
    using stack_push_pushes[OF f sz, of Next] sz(2) by auto
  have "i_ic_correction called = 0"
    using c(1) sz(2)
    by (auto simp: stack_push_def shadow_frame_in Let_def sigstack_def interp_halt_def exec_start_def
          split: if_splits)
  hence "segment_cost (called\<lparr>i_pc0 := i_pc called\<rparr>) \<le> i_cu (called\<lparr>i_pc0 := i_pc called\<rparr>)"
    using c(2) by (simp add: segment_cost_def exec_start_def demo_fields)
  from vm_call_return[OF demo_istate_ok f c(1), of "called\<lparr>i_pc0 := i_pc called\<rparr>"] this c
  show ?thesis by auto
qed

text \<open>
  Stack frame gaps.  For offsets outside the gaps the squeezed offset drops every second 4 KiB frame,
  so that it is at most half the offset plus a frame, and no two offsets collide.
\<close>

theorem vm_stack_gaps:
  assumes "offset AND 0x1000 = (0 :: u64)"
  shows "unat (squeeze_gaps offset) = unat offset div 8192 * 4096 + unat offset mod 4096
    \<and> (\<forall>other. other AND 0x1000 = 0 \<longrightarrow> squeeze_gaps other = squeeze_gaps offset \<longrightarrow> other = offset)"
  using squeeze_gaps_unat[OF assms] squeeze_gaps_inj[OF _ assms] by blast

theorem vm_stack_gaps_witness: "unat (squeeze_gaps 0x2010) = 0x1010"
  using vm_stack_gaps[of "0x2010"] by simp

section \<open>Arithmetic\<close>

text \<open>
  The signed 64 bit division and remainder handlers.  They fault on a zero divisor and on the one
  overflowing quotient, and otherwise store the quotient truncated towards zero and the remainder
  with the sign of the dividend.
\<close>

theorem vm_signed_division:
  "if s = 0 then interp_0xde d s imm = Op_sigfpe \<and> interp_0xfe d s imm = Op_sigfpe
   else if sint d = - (2 ^ 63) \<and> sint s = - 1
   then interp_0xde d s imm = Op_sigfpeof \<and> interp_0xfe d s imm = Op_sigfpeof
   else \<exists>q r. interp_0xde d s imm = Op_val q \<and> interp_0xfe d s imm = Op_val r
     \<and> sint q = sint d sdiv sint s \<and> sint r = sint d smod sint s
     \<and> sint d = sint q * sint s + sint r"
proof -
  have m1: "sint s = - 1 \<longleftrightarrow> s = - 1" by (metis signed_minus_1 signed_word_eqI)
  have mn: "d = long_min \<longleftrightarrow> sint d = - (2 ^ 63)" using sint_long_min[of d] by simp
  have "\<exists>q r. interp_0xde d s imm = Op_val q \<and> interp_0xfe d s imm = Op_val r
     \<and> sint q = sint d sdiv sint s \<and> sint r = sint d smod sint s
     \<and> sint d = sint q * sint s + sint r"
    if "s \<noteq> 0" "\<not> (sint d = - (2 ^ 63) \<and> s = - 1)"
  proof -
    have u: "\<not> sdiv_undefined d s" using that by (simp add: sdiv_undefined_def)
    from c_sdiv_sint[OF u] c_smod_sint[OF u] obtain q r where
      "c_sdiv d s = Some q" "sint q = sint d sdiv sint s"
      "c_smod d s = Some r" "sint r = sint d smod sint s" by blast
    thus ?thesis using that mn
      by (auto simp: interp_0xde_def interp_0xfe_def sdiv_mult_smod_eq)
  qed
  thus ?thesis using m1 mn by (simp add: interp_0xde_def interp_0xfe_def)
qed

text \<open>
  The high half products: \<open>UHMUL64\<close> is the upper 64 bits of the unsigned product, \<open>SHMUL64\<close> those of
  the signed one, and together with the low product they are the whole 128 bit product.
\<close>

theorem vm_high_products:
  "(\<exists>hi lo. interp_0x3e d s imm = Op_val hi \<and> interp_0x9e d s imm = Op_val lo
     \<and> unat d * unat s = unat hi * 2 ^ 64 + unat lo)
   \<and> (\<exists>hi. interp_0xbe d s imm = Op_val hi \<and> sint hi = sint d * sint s div 2 ^ 64)"
proof -
  have "unat (d * s) = unat d * unat s mod 2 ^ 64" by (simp add: unat_word_ariths)
  hence "unat d * unat s = unat (uhmul d s) * 2 ^ 64 + unat (d * s)"
    by (simp only: uhmul_unat div_mult_mod_eq)
  thus ?thesis by (simp add: interp_0x3e_def interp_0x9e_def interp_0xbe_def shmul_sint)
qed

text \<open>
  The byte swap instruction undoes itself at each of its widths, on values of that width.
\<close>

theorem vm_byte_swap:
  "interp_0xdc d s imm = Op_val v \<Longrightarrow>
     (imm = 16 \<and> interp_0xdc v s imm = Op_val (take_bit 16 d)
      \<or> imm = 32 \<and> interp_0xdc v s imm = Op_val (take_bit 32 d)
      \<or> imm = 64 \<and> interp_0xdc v s imm = Op_val d)"
proof -
  have c16: "(ucast (ucast (x :: u16) :: u64) :: u16) = x" and c32: "(ucast (ucast (y :: u32) :: u64) :: u32) = y"
    for x y by (simp_all add: ucast_down_ucast_id is_down)
  have t16: "(ucast (ucast d :: u16) :: u64) = take_bit 16 d" "(ucast (ucast d :: u32) :: u64) = take_bit 32 d"
    by (auto intro!: bit_word_eqI simp: bit_simps)
  assume "interp_0xdc d s imm = Op_val v"
  thus ?thesis
    by (auto simp: interp_0xdc_def bswap_bswap c16 c32 t16 split: if_splits)
qed

theorem vm_byte_swap_witness: "interp_0xdc 0x1122334455667788 0 32 = Op_val 0x88776655
    \<and> interp_0xdc 0x88776655 0 32 = Op_val 0x55667788"
proof -
  have v: "interp_0xdc 0x1122334455667788 0 32 = Op_val 0x88776655" by code_simp
  have "take_bit 32 (0x1122334455667788 :: u64) = 0x55667788" by simp
  thus ?thesis using vm_byte_swap[OF v] v by simp
qed

end
