(* ===== verification/Tower_Votes.thy ===== *)
theory Tower_Votes
  imports Fd_Prelude
begin

text \<open>
  The vote tower of \<^verbatim>\<open>choreo/tower/fd_tower.c\<close>: the deque of votes, the simulation
  of a vote that expires the votes at the top, and the push of a vote that doubles lockouts.  A deque
  is the list of its elements from head to tail: the oldest vote, with the longest lockout, is first.
\<close>

section \<open>The deque of votes\<close>

record fd_tower_vote =
  vote_slot :: u64
  vote_conf :: u64

definition FD_TOWER_VOTE_MAX :: nat where
  "FD_TOWER_VOTE_MAX = 31"

abbreviation (input) ULONG_MAX :: u64 where
  "ULONG_MAX \<equiv> - 1"

text \<open>A confirmation count of 64 or more would be an undefined shift; the invariant below excludes it.\<close>

definition expiration_slot :: "fd_tower_vote \<Rightarrow> u64" where
  "expiration_slot vote = vote_slot vote + push_bit (unat (vote_conf vote)) 1"

fun simulate_from :: "fd_tower_vote list \<Rightarrow> u64 \<Rightarrow> nat \<Rightarrow> nat" where
  "simulate_from votes slot 0 = 0"
| "simulate_from votes slot (Suc cnt) =
     (if slot \<le> expiration_slot (votes ! cnt) then Suc cnt else simulate_from votes slot cnt)"

definition simulate_vote :: "fd_tower_vote list \<Rightarrow> u64 \<Rightarrow> nat" where
  "simulate_vote votes slot = simulate_from votes slot (length votes)"

text \<open>Popping the tail while the deque holds more than \<open>cnt\<close> votes.\<close>

function pop_tail_to :: "nat \<Rightarrow> fd_tower_vote list \<Rightarrow> fd_tower_vote list" where
  "pop_tail_to cnt votes = (if cnt < length votes then pop_tail_to cnt (butlast votes) else votes)"
  by pat_completeness auto
termination by (relation "measure (\<lambda>(cnt, votes). length votes)") auto

declare pop_tail_to.simps [simp del]

text \<open>The loop over the deque from the tail that stops at the first gap in the confirmation counts.\<close>

fun double_confs :: "u64 \<Rightarrow> fd_tower_vote list \<Rightarrow> fd_tower_vote list" where
  "double_confs prev_conf [] = []"
| "double_confs prev_conf (vote # votes) =
     (let prev_conf = prev_conf + 1 in
      if vote_conf vote \<noteq> prev_conf then vote # votes
      else vote\<lparr>vote_conf := vote_conf vote + 1\<rparr> # double_confs prev_conf votes)"

text \<open>
  \<open>None\<close> is the \<open>FD_LOG_CRIT\<close> that stops the process when the slot is not newer than the last vote.
  The result is the new root (\<open>ULONG_MAX\<close> if there is none) and the new deque.
\<close>

definition push_vote :: "fd_tower_vote list \<Rightarrow> u64 \<Rightarrow> (u64 \<times> fd_tower_vote list) option" where
  "push_vote votes slot =
     (if votes \<noteq> [] \<and> slot \<le> vote_slot (last votes) then None
      else (let votes = pop_tail_to (simulate_vote votes slot) votes;
                (root, votes) = (if length votes = FD_TOWER_VOTE_MAX
                                 then (vote_slot (hd votes), tl votes) else (ULONG_MAX, votes));
                votes = rev (double_confs 0 (rev votes))
            in Some (root, votes @ [\<lparr> vote_slot = slot, vote_conf = 1 \<rparr>])))"

text \<open>\<open>fd_tower_verify\<close>: 0 when the checks pass, else -1.\<close>

fun verify_from :: "fd_tower_vote \<Rightarrow> fd_tower_vote list \<Rightarrow> int" where
  "verify_from prev [] = 0"
| "verify_from prev (vote # votes) =
     (if vote_slot vote < vote_slot prev \<or> vote_conf vote < vote_conf prev then - 1
      else verify_from vote votes)"

definition fd_tower_verify :: "fd_tower_vote list \<Rightarrow> int" where
  "fd_tower_verify votes =
     (if FD_TOWER_VOTE_MAX \<le> length votes then - 1
      else case votes of [] \<Rightarrow> 0 | vote # rest \<Rightarrow> verify_from vote rest)"

section \<open>The invariant of a tower\<close>

text \<open>
  Slots rise and confirmation counts fall from head to tail, every vote is confirmed between once and
  31 times, and each vote was cast before the one under it expired.  Slots stay far below the point
  where an expiration would wrap.
\<close>

definition vote_ok :: "fd_tower_vote \<Rightarrow> bool" where
  "vote_ok v \<longleftrightarrow> unat (vote_slot v) < 2 ^ 63 \<and> 1 \<le> unat (vote_conf v) \<and> unat (vote_conf v) \<le> FD_TOWER_VOTE_MAX"

definition below :: "fd_tower_vote \<Rightarrow> fd_tower_vote \<Rightarrow> bool" where
  "below v w \<longleftrightarrow> vote_slot v < vote_slot w \<and> vote_conf w < vote_conf v"

fun stacked :: "fd_tower_vote list \<Rightarrow> bool" where
  "stacked (v # w # vs) \<longleftrightarrow>
     unat (vote_slot w) \<le> unat (vote_slot v) + 2 ^ unat (vote_conf v) \<and> stacked (w # vs)"
| "stacked vs \<longleftrightarrow> True"

definition votes_ok :: "fd_tower_vote list \<Rightarrow> bool" where
  "votes_ok votes \<longleftrightarrow> length votes \<le> FD_TOWER_VOTE_MAX \<and> (\<forall>v \<in> set votes. vote_ok v)
     \<and> sorted_wrt below votes \<and> stacked votes"

section \<open>Expiry\<close>

lemma unat_push_one: "n < 64 \<Longrightarrow> unat (push_bit n (1 :: u64)) = 2 ^ n"
proof -
  assume "n < 64"
  hence lt: "(2 :: nat) ^ n < 2 ^ 64" by (intro power_strict_increasing) simp_all
  have "push_bit n (1 :: u64) = word_of_nat (2 ^ n)" by (simp add: push_bit_eq_mult)
  thus ?thesis using lt by (simp only: unat_of_nat) simp
qed

lemma unat_expiration:
  assumes "vote_ok v"
  shows "unat (expiration_slot v) = unat (vote_slot v) + 2 ^ unat (vote_conf v)"
proof -
  have c: "unat (vote_conf v) \<le> 31" using assms by (simp add: vote_ok_def FD_TOWER_VOTE_MAX_def)
  have p: "unat (push_bit (unat (vote_conf v)) (1 :: u64)) = 2 ^ unat (vote_conf v)"
    using c by (intro unat_push_one) simp
  have "(2 :: nat) ^ unat (vote_conf v) \<le> 2 ^ 31" using c by (intro power_increasing) simp_all
  hence "unat (vote_slot v) + 2 ^ unat (vote_conf v) < 2 ^ 64"
    using assms by (simp add: vote_ok_def)
  thus ?thesis unfolding expiration_slot_def by (subst unat_add64) (simp_all only: p)
qed

lemma simulate_from_le: "simulate_from votes slot n \<le> n"
  by (induction n) auto

lemma simulate_vote_le: "simulate_vote votes slot \<le> length votes"
  by (simp add: simulate_vote_def simulate_from_le)

lemma simulate_from_top:
  "simulate_from votes slot n = Suc k \<Longrightarrow> slot \<le> expiration_slot (votes ! k)"
  by (induction n) (auto split: if_splits)

lemma simulate_from_expired:
  "simulate_from votes slot n \<le> i \<Longrightarrow> i < n \<Longrightarrow> expiration_slot (votes ! i) < slot"
  by (induction n) (auto simp: less_Suc_eq not_le split: if_splits)

lemma simulate_from_unique:
  assumes "k \<le> n" "\<And>i. k \<le> i \<Longrightarrow> i < n \<Longrightarrow> expiration_slot (votes ! i) < slot"
    and "k = 0 \<or> slot \<le> expiration_slot (votes ! (k - 1))"
  shows "simulate_from votes slot n = k"
  using assms
proof (induction n)
  case (Suc n)
  show ?case
  proof (cases "k = Suc n")
    case False
    hence "k \<le> n" using Suc.prems(1) by simp
    moreover have "\<not> slot \<le> expiration_slot (votes ! n)"
      using Suc.prems(2)[of n] \<open>k \<le> n\<close> by (simp add: not_le)
    ultimately show ?thesis using Suc.IH Suc.prems(2,3) by simp
  qed (use Suc.prems(3) in auto)
qed simp

lemma pop_tail_to_take: "cnt \<le> length votes \<Longrightarrow> pop_tail_to cnt votes = take cnt votes"
proof (induction cnt votes rule: pop_tail_to.induct)
  case (1 cnt votes)
  show ?case
  proof (cases "cnt < length votes")
    case True
    hence "pop_tail_to cnt (butlast votes) = take cnt (butlast votes)" using 1 by simp
    thus ?thesis using True by (subst pop_tail_to.simps) (simp add: take_butlast)
  qed (use 1 in \<open>subst pop_tail_to.simps, simp\<close>)
qed

section \<open>Doubling lockouts\<close>

text \<open>What the doubling loop does, position by position from the top of the tower.\<close>

definition doubled :: "nat \<Rightarrow> fd_tower_vote \<Rightarrow> fd_tower_vote" where
  "doubled k v = (if unat (vote_conf v) = k then v\<lparr>vote_conf := vote_conf v + 1\<rparr> else v)"

lemma doubled_deeper:
  assumes "sorted_wrt (\<lambda>v w. vote_conf v < vote_conf w) vs" "k < unat (vote_conf (vs ! 0))"
  shows "i < length vs \<Longrightarrow> k + i < unat (vote_conf (vs ! i))"
proof (induction i)
  case (Suc i)
  have "vote_conf (vs ! i) < vote_conf (vs ! Suc i)"
    using sorted_wrt_nth_less[OF assms(1), of i "Suc i"] Suc.prems by simp
  thus ?case using Suc by (simp add: word_less_nat_alt)
qed (use assms(2) in simp)

lemma map_upt_Cons: "map f [0 ..< Suc n] = f 0 # map (\<lambda>i. f (Suc i)) [0 ..< n]"
  by (simp only: upt_conv_Cons[OF zero_less_Suc] map_Suc_upt[symmetric] list.map list.map_comp comp_def)

text \<open>From the top down counts rise by at least one, so past the first gap none meets its depth.\<close>

lemma double_confs_nth:
  assumes "sorted_wrt (\<lambda>v w. vote_conf v < vote_conf w) vs"
    and "vs = [] \<or> Suc k \<le> unat (vote_conf (vs ! 0))" "k + length vs < 2 ^ 32" "unat prev = k"
  shows "double_confs prev vs = map (\<lambda>i. doubled (Suc k + i) (vs ! i)) [0 ..< length vs]"
  using assms
proof (induction vs arbitrary: k prev)
  case (Cons v vs)
  have lt: "unat prev + unat (1 :: u64) < 2 ^ 64" using Cons.prems(3,4) by simp
  have p: "unat (prev + 1) = Suc k" using unat_add64[OF lt] Cons.prems(4) by simp
  show ?case
  proof (cases "vote_conf v = prev + 1")
    case True
    have d: "doubled (Suc k) v = v\<lparr>vote_conf := vote_conf v + 1\<rparr>" using True p by (simp add: doubled_def)
    have "vs = [] \<or> Suc (Suc k) \<le> unat (vote_conf (vs ! 0))"
      using doubled_deeper[OF Cons.prems(1), of k 1] Cons.prems(2) by (cases vs) simp_all
    hence "double_confs (prev + 1) vs = map (\<lambda>i. doubled (Suc (Suc k) + i) (vs ! i)) [0 ..< length vs]"
      using Cons.prems(1,3) p by (intro Cons.IH) simp_all
    thus ?thesis using True d by (simp only: double_confs.simps Let_def length_Cons map_upt_Cons) simp
  next
    case False
    hence "Suc k < unat (vote_conf ((v # vs) ! 0))"
      using Cons.prems(2) p by (auto simp: word_unat_eq_iff order.order_iff_strict)
    from doubled_deeper[OF Cons.prems(1) this]
    have "doubled (Suc k + i) ((v # vs) ! i) = (v # vs) ! i" if "i < length (v # vs)" for i
      using that by (simp add: doubled_def less_imp_neq[symmetric] del: nth_Cons_Suc)
    hence "map (\<lambda>i. doubled (Suc k + i) ((v # vs) ! i)) [0 ..< length (v # vs)]
        = map ((!) (v # vs)) [0 ..< length (v # vs)]"
      by (intro map_cong[OF refl]) (simp only: set_upt atLeastLessThan_iff)
    also have "\<dots> = double_confs prev (v # vs)" using False by (simp only: map_nth double_confs.simps Let_def) simp
    finally show ?thesis by simp
  qed
qed simp


section \<open>What a push does\<close>

lemma stacked_nth:
  "stacked vs \<longleftrightarrow> (\<forall>i. Suc i < length vs \<longrightarrow>
     unat (vote_slot (vs ! Suc i)) \<le> unat (vote_slot (vs ! i)) + 2 ^ unat (vote_conf (vs ! i)))"
proof (induction vs rule: stacked.induct)
  case (1 v w vs)
  show ?case unfolding stacked.simps 1 by (auto simp: less_Suc_eq_0_disj nth_Cons split: nat.splits)
qed simp_all

lemma votes_ok_nth:
  "votes_ok vs \<longleftrightarrow> length vs \<le> FD_TOWER_VOTE_MAX \<and> (\<forall>i < length vs. vote_ok (vs ! i))
     \<and> (\<forall>i j. i < j \<longrightarrow> j < length vs \<longrightarrow> below (vs ! i) (vs ! j)) \<and> stacked vs"
  by (simp add: votes_ok_def sorted_wrt_iff_nth_less all_set_conv_all_nth)

lemma votes_ok_take: "votes_ok vs \<Longrightarrow> votes_ok (take n vs)"
  by (auto simp: votes_ok_nth stacked_nth min_def)

lemma votes_ok_tl: "votes_ok vs \<Longrightarrow> votes_ok (tl vs)"
  by (auto simp: votes_ok_nth stacked_nth nth_tl)

text \<open>A vote has at least as many confirmations as there are votes on top of it, itself included.\<close>

lemma conf_ge_height:
  assumes "votes_ok vs" "i < length vs"
  shows "length vs - i \<le> unat (vote_conf (vs ! i))"
  using assms(2)
proof (induction "length vs - i" arbitrary: i)
  case (Suc n)
  show ?case
  proof (cases "Suc i < length vs")
    case True
    have "below (vs ! i) (vs ! Suc i)" using assms(1) True by (simp add: votes_ok_nth)
    moreover have "length vs - Suc i \<le> unat (vote_conf (vs ! Suc i))"
      using Suc(1)[of "Suc i"] Suc(2) True by simp
    ultimately show ?thesis using True unfolding below_def word_less_nat_alt by linarith
  next
    case False
    hence "length vs - i = 1" using Suc.prems by simp
    thus ?thesis using assms(1) Suc.prems by (simp add: votes_ok_nth vote_ok_def)
  qed
qed simp

definition relock :: "fd_tower_vote list \<Rightarrow> fd_tower_vote list" where
  "relock vs = map (\<lambda>i. doubled (length vs - i) (vs ! i)) [0 ..< length vs]"

lemma length_relock [simp]: "length (relock vs) = length vs"
  by (simp add: relock_def)

lemma relock_nth: "i < length vs \<Longrightarrow> relock vs ! i = doubled (length vs - i) (vs ! i)"
  by (simp add: relock_def)

lemma vote_slot_doubled [simp]: "vote_slot (doubled k v) = vote_slot v"
  by (simp add: doubled_def)

lemma double_confs_relock:
  assumes "votes_ok vs"
  shows "rev (double_confs 0 (rev vs)) = relock vs"
proof -
  have s: "sorted_wrt (\<lambda>v w. vote_conf v < vote_conf w) (rev vs)"
    using assms by (auto simp: votes_ok_def sorted_wrt_rev below_def elim: sorted_wrt_mono_rel[rotated])
  have "vs \<noteq> [] \<Longrightarrow> length vs - (length vs - 1) = 1" by (cases vs) simp_all
  hence h: "rev vs = [] \<or> Suc 0 \<le> unat (vote_conf (rev vs ! 0))"
    using conf_ge_height[OF assms, of "length vs - 1"] by (cases "vs = []") (simp_all add: rev_nth)
  have l: "0 + length (rev vs) < 2 ^ 32" using assms by (simp add: votes_ok_def FD_TOWER_VOTE_MAX_def)
  have "double_confs 0 (rev vs) = map (\<lambda>i. doubled (Suc 0 + i) (rev vs ! i)) [0 ..< length (rev vs)]"
    by (rule double_confs_nth[OF s h l]) simp
  thus ?thesis
    by (intro nth_equalityI) (simp_all add: relock_nth rev_nth Suc_diff_Suc)
qed

definition kept_votes :: "fd_tower_vote list \<Rightarrow> u64 \<Rightarrow> fd_tower_vote list" where
  "kept_votes votes slot =
     (let vs = take (simulate_vote votes slot) votes in if length vs = FD_TOWER_VOTE_MAX then tl vs else vs)"

lemma votes_ok_kept: "votes_ok votes \<Longrightarrow> votes_ok (kept_votes votes slot)"
  by (simp add: kept_votes_def Let_def votes_ok_take votes_ok_tl)

lemma length_kept: "votes_ok votes \<Longrightarrow> length (kept_votes votes slot) < FD_TOWER_VOTE_MAX"
  using votes_ok_take[of votes "simulate_vote votes slot"]
  by (auto simp: kept_votes_def Let_def votes_ok_def FD_TOWER_VOTE_MAX_def)

lemma push_vote_result:
  assumes "votes_ok votes" "votes = [] \<or> vote_slot (last votes) < slot"
  shows "push_vote votes slot =
    Some (if simulate_vote votes slot = FD_TOWER_VOTE_MAX then vote_slot (hd votes) else ULONG_MAX,
          relock (kept_votes votes slot) @ [\<lparr> vote_slot = slot, vote_conf = 1 \<rparr>])"
proof -
  let ?vs = "take (simulate_vote votes slot) votes"
  have len: "length ?vs = simulate_vote votes slot" using simulate_vote_le[of votes slot] by simp
  have pop: "pop_tail_to (simulate_vote votes slot) votes = ?vs"
    by (rule pop_tail_to_take[OF simulate_vote_le])
  have "\<not> (votes \<noteq> [] \<and> slot \<le> vote_slot (last votes))" using assms(2) by auto
  thus ?thesis
    using double_confs_relock[OF votes_ok_kept[OF assms(1), of slot]] len
    by (auto simp: push_vote_def pop kept_votes_def Let_def FD_TOWER_VOTE_MAX_def)
qed

lemma unat_succ_conf: "unat (c :: u64) \<le> 31 \<Longrightarrow> unat (c + 1) = Suc (unat c)"
  by (subst unat_add64) simp_all

lemma unat_doubled_conf:
  "unat (vote_conf v) \<le> 31 \<Longrightarrow>
    unat (vote_conf (doubled k v)) = (if unat (vote_conf v) = k then Suc k else unat (vote_conf v))"
  by (simp add: doubled_def unat_succ_conf)

text \<open>The new vote goes on top of votes it does not expire.\<close>

lemma kept_last_unexpired:
  assumes "kept_votes votes slot \<noteq> []"
  shows "slot \<le> expiration_slot (last (kept_votes votes slot))"
proof -
  let ?vs = "take (simulate_vote votes slot) votes"
  have ne: "?vs \<noteq> []" using assms by (cases "?vs = []") (simp_all add: kept_votes_def split: if_splits)
  then obtain k where k: "simulate_vote votes slot = Suc k" by (cases "simulate_vote votes slot") auto
  have "last ?vs = votes ! k"
    using k simulate_vote_le[of votes slot] by (simp add: take_Suc_conv_app_nth)
  moreover have "last (kept_votes votes slot) = last ?vs"
    using assms by (auto simp: kept_votes_def Let_def last_tl)
  ultimately show ?thesis using simulate_from_top[of votes slot "length votes" k] k
    by (simp add: simulate_vote_def)
qed

lemma kept_below:
  assumes "votes_ok votes" "votes = [] \<or> vote_slot (last votes) < slot" "v \<in> set (kept_votes votes slot)"
  shows "vote_slot v < slot"
proof -
  have "v \<in> set votes"
    using assms(3) list.set_sel(2)[of "take (simulate_vote votes slot) votes" v]
    by (cases "take (simulate_vote votes slot) votes = []")
       (auto simp: kept_votes_def Let_def dest: in_set_takeD split: if_splits)
  then obtain i where i: "i < length votes" "v = votes ! i" by (auto simp: in_set_conv_nth)
  hence ne: "votes \<noteq> []" by auto
  have "i < length votes - 1 \<Longrightarrow> below v (last votes)"
    using assms(1) i ne by (simp add: votes_ok_nth last_conv_nth)
  moreover have "i < length votes - 1 \<or> v = last votes"
    using i ne by (auto simp: last_conv_nth intro: arg_cong[where f = "(!) votes"])
  ultimately have "vote_slot v \<le> vote_slot (last votes)"
    by (auto simp: below_def)
  thus ?thesis using assms(2) ne by auto
qed


section \<open>A push keeps the invariant\<close>

lemma relock_conf:
  assumes "votes_ok vs" "i < length vs"
  shows "unat (vote_conf (relock vs ! i))
    = max (Suc (length vs - i)) (unat (vote_conf (vs ! i)))"
proof -
  have "unat (vote_conf (vs ! i)) \<le> 31" using assms by (simp add: votes_ok_nth vote_ok_def FD_TOWER_VOTE_MAX_def)
  thus ?thesis using conf_ge_height[OF assms]
    by (simp add: relock_nth[OF assms(2)] unat_doubled_conf)
qed

lemma relock_slot: "i < length vs \<Longrightarrow> vote_slot (relock vs ! i) = vote_slot (vs ! i)"
  by (simp add: relock_nth)

lemma map_slot_relock [simp]: "map vote_slot (relock vs) = map vote_slot vs"
  by (intro nth_equalityI) (simp_all add: relock_nth)

lemma below_nat:
  "below v w \<longleftrightarrow> unat (vote_slot v) < unat (vote_slot w) \<and> unat (vote_conf w) < unat (vote_conf v)"
  by (simp add: below_def word_less_nat_alt)

lemma votes_ok_relock_snoc:
  assumes "votes_ok vs" "length vs < FD_TOWER_VOTE_MAX" "unat slot < 2 ^ 63"
    and "\<And>v. v \<in> set vs \<Longrightarrow> vote_slot v < slot"
    and "vs \<noteq> [] \<Longrightarrow> slot \<le> expiration_slot (last vs)"
  shows "votes_ok (relock vs @ [\<lparr> vote_slot = slot, vote_conf = 1 \<rparr>])"
proof -
  let ?new = "\<lparr> vote_slot = slot, vote_conf = 1 \<rparr>" and ?n = "length vs"
  let ?ws = "relock vs @ [?new]"
  have ok: "\<And>i. i < ?n \<Longrightarrow> vote_ok (vs ! i)"
    and bel: "\<And>i j. i < j \<Longrightarrow> j < ?n \<Longrightarrow> below (vs ! i) (vs ! j)"
    and stk: "\<And>i. Suc i < ?n \<Longrightarrow>
        unat (vote_slot (vs ! Suc i)) \<le> unat (vote_slot (vs ! i)) + 2 ^ unat (vote_conf (vs ! i))"
    using assms(1) by (simp_all add: votes_ok_nth stacked_nth)
  have at: "?ws ! i = relock vs ! i" if "i < ?n" for i using that by (simp add: nth_append)
  have top: "?ws ! ?n = ?new" by (simp add: nth_append)
  note conf = relock_conf[OF assms(1)] and slot = relock_slot
  have "vote_ok (?ws ! i)" if "i < Suc ?n" for i
  proof (cases "i = ?n")
    case False
    hence i: "i < ?n" using that by simp
    have "Suc (?n - i) \<le> FD_TOWER_VOTE_MAX" using assms(2) by simp
    thus ?thesis using ok[OF i] conf[OF i] slot[OF i] at[OF i] by (simp add: vote_ok_def)
  qed (use assms(3) top in \<open>simp add: vote_ok_def FD_TOWER_VOTE_MAX_def\<close>)
  moreover have "below (?ws ! i) (?ws ! j)" if "i < j" "j < Suc ?n" for i j
  proof (cases "j = ?n")
    case True
    hence i: "i < ?n" using that by simp
    have "vote_slot (vs ! i) < slot" using assms(4) i by simp
    thus ?thesis using True conf[OF i] slot[OF i] at[OF i] top i
      by (simp add: below_nat word_less_nat_alt)
  next
    case False
    hence j: "j < ?n" and i: "i < ?n" using that by simp_all
    have b: "unat (vote_slot (vs ! i)) < unat (vote_slot (vs ! j))"
      "unat (vote_conf (vs ! j)) < unat (vote_conf (vs ! i))"
      using bel[OF that(1) j] by (simp_all add: below_nat)
    have "Suc (?n - j) < Suc (?n - i)" using that(1) j by simp
    hence "max (Suc (?n - j)) (unat (vote_conf (vs ! j))) < max (Suc (?n - i)) (unat (vote_conf (vs ! i)))"
      using b(2) by linarith
    thus ?thesis using b(1) unfolding below_nat at[OF i] at[OF j] conf[OF i] conf[OF j] slot[OF i] slot[OF j]
      by simp
  qed
  moreover have "unat (vote_slot (?ws ! Suc i)) \<le> unat (vote_slot (?ws ! i)) + 2 ^ unat (vote_conf (?ws ! i))"
    if "Suc i < Suc ?n" for i
  proof -
    have i: "i < ?n" using that by simp
    have le: "(2 :: nat) ^ unat (vote_conf (vs ! i)) \<le> 2 ^ unat (vote_conf (?ws ! i))"
      unfolding at[OF i] conf[OF i] by (intro power_increasing) simp_all
    have "unat (vote_slot (?ws ! Suc i)) \<le> unat (vote_slot (vs ! i)) + 2 ^ unat (vote_conf (vs ! i))"
    proof (cases "Suc i = ?n")
      case True
      hence "length vs - 1 = i" by simp
      hence l: "last vs = vs ! i" using i by (subst last_conv_nth) auto
      have "slot \<le> expiration_slot (vs ! i)" using assms(5)[unfolded l] i by fastforce
      hence "unat slot \<le> unat (vote_slot (vs ! i)) + 2 ^ unat (vote_conf (vs ! i))"
        unfolding word_le_nat_alt unat_expiration[OF ok[OF i]] .
      thus ?thesis using True top by simp
    next
      case False
      hence "Suc i < ?n" using i by simp
      thus ?thesis using stk[of i] at[of "Suc i"] slot[of "Suc i"] by simp
    qed
    thus ?thesis using le unfolding at[OF i] slot[OF i] by (rule order.trans[OF _ add_left_mono])
  qed
  ultimately show ?thesis
    using assms(2) by (simp add: votes_ok_nth stacked_nth)
qed

lemma votes_ok_push:
  assumes "votes_ok votes" "votes = [] \<or> vote_slot (last votes) < slot" "unat slot < 2 ^ 63"
    and "push_vote votes slot = Some (root, votes')"
  shows "votes_ok votes'"
proof -
  have "votes' = relock (kept_votes votes slot) @ [\<lparr> vote_slot = slot, vote_conf = 1 \<rparr>]"
    using push_vote_result[OF assms(1,2)] assms(4) by simp
  thus ?thesis
    using votes_ok_relock_snoc[OF votes_ok_kept length_kept, OF assms(1,1,3)]
      kept_below[OF assms(1,2)] kept_last_unexpired[of votes slot] by blast
qed

end
