(* ===== verification/Vote_State.thy ===== *)
theory Vote_State
  imports Fd_Prelude
begin

text \<open>
  The vote program's view of a tower: the landed votes of a vote account and the functions of
  \<^verbatim>\<open>flamenco/runtime/program\<close> (\<^verbatim>\<open>fd_vote_program.c\<close>,
  \<^verbatim>\<open>vote/fd_vote_utils.c\<close>, \<^verbatim>\<open>vote/fd_vote_state_versioned.c\<close>) that check a
  proposed tower and replace the old one.  Versions 3 and 4 of the state share the fields these
  functions touch.  A deque is the list of its elements from head to tail; an error is a value, with
  the custom error number of the vote program.
\<close>

section \<open>State and errors\<close>

record fd_vote_lockout =
  lo_slot :: u64
  lo_conf :: u32

record fd_landed_vote =
  lv_latency :: u8
  lv_lockout :: fd_vote_lockout

record fd_vote_epoch_credits =
  ec_epoch :: u64
  ec_credits :: u64
  ec_prev_credits :: u64

record fd_vote_block_timestamp =
  ts_slot :: u64
  ts_timestamp :: u64

record fd_vote_state =
  vs_votes :: "fd_landed_vote list"
  vs_root_slot :: "u64 option"
  vs_epoch_credits :: "fd_vote_epoch_credits list"
  vs_last_timestamp :: fd_vote_block_timestamp

text \<open>Slot hashes, newest first.\<close>

type_synonym fd_slot_hashes = "(u64 \<times> fd_hash) list"

datatype vote_error =
  Custom nat
| Unsupported_program_id
| Crit
| Out_of_bounds

abbreviation (input) "VOTE_TOO_OLD \<equiv> Custom 0"
abbreviation (input) "SLOTS_MISMATCH \<equiv> Custom 1"
abbreviation (input) "SLOTS_HASH_MISMATCH \<equiv> Custom 2"
abbreviation (input) "EMPTY_SLOTS \<equiv> Custom 3"
abbreviation (input) "TIMESTAMP_TOO_OLD \<equiv> Custom 4"
abbreviation (input) "LOCKOUT_CONFLICT \<equiv> Custom 6"
abbreviation (input) "NEW_VOTE_STATE_LOCKOUT_MISMATCH \<equiv> Custom 7"
abbreviation (input) "SLOTS_NOT_ORDERED \<equiv> Custom 8"
abbreviation (input) "CONFIRMATIONS_NOT_ORDERED \<equiv> Custom 9"
abbreviation (input) "ZERO_CONFIRMATIONS \<equiv> Custom 10"
abbreviation (input) "CONFIRMATION_TOO_LARGE \<equiv> Custom 11"
abbreviation (input) "ROOT_ROLL_BACK \<equiv> Custom 12"
abbreviation (input) "CONFIRMATION_ROLL_BACK \<equiv> Custom 13"
abbreviation (input) "SLOT_SMALLER_THAN_ROOT \<equiv> Custom 14"
abbreviation (input) "TOO_MANY_VOTES \<equiv> Custom 15"
abbreviation (input) "VOTES_TOO_OLD_ALL_FILTERED \<equiv> Custom 16"
abbreviation (input) "ROOT_ON_DIFFERENT_FORK \<equiv> Custom 17"

definition MAX_LOCKOUT_HISTORY :: nat where
  "MAX_LOCKOUT_HISTORY = 31"

definition MAX_LOCKOUT_HISTORY_CAPACITY :: nat where
  "MAX_LOCKOUT_HISTORY_CAPACITY = 32"

definition MAX_EPOCH_CREDITS_HISTORY :: nat where
  "MAX_EPOCH_CREDITS_HISTORY = 64"

text \<open>\<open>push_tail_wrap\<close> of a deque template: a full deque drops its head first.\<close>

definition push_tail_wrap :: "nat \<Rightarrow> 'a list \<Rightarrow> 'a \<Rightarrow> 'a list" where
  "push_tail_wrap cap deque ele = (if length deque = cap then tl deque else deque) @ [ele]"

definition FD_VOTE_INSTR_MAX_LOCKOUT_OFFSETS_LEN :: nat where
  "FD_VOTE_INSTR_MAX_LOCKOUT_OFFSETS_LEN = 616"

section \<open>Accesses\<close>

text \<open>
  The checks of a proposed tower read arrays and deques by index.  A read past the end, or of the tail
  of an empty deque, is the error \<open>Out_of_bounds\<close>; \<open>fd_ulong_checked_sub_expect\<close> ends the process
  when it underflows, which is \<open>Crit\<close>.
\<close>

definition bind_ok :: "'e + 'a \<Rightarrow> ('a \<Rightarrow> 'e + 'b) \<Rightarrow> 'e + 'b" where
  "bind_ok r f = (case r of Inl e \<Rightarrow> Inl e | Inr a \<Rightarrow> f a)"

lemma bind_ok_simps [simp]: "bind_ok (Inl e) f = Inl e" "bind_ok (Inr a) f = f a"
  by (simp_all add: bind_ok_def)

lemma bind_ok_cong [fundef_cong]:
  "r = r' \<Longrightarrow> (\<And>a. r' = Inr a \<Longrightarrow> f a = f' a) \<Longrightarrow> bind_ok r f = bind_ok r' f'"
  by (cases r') (simp_all add: bind_ok_def)

definition peek_index :: "'a list \<Rightarrow> nat \<Rightarrow> vote_error + 'a" where
  "peek_index xs i = (if i < length xs then Inr (xs ! i) else Inl Out_of_bounds)"

definition peek_tail :: "'a list \<Rightarrow> vote_error + 'a" where
  "peek_tail xs = (if xs = [] then Inl Out_of_bounds else Inr (last xs))"

definition fd_ulong_checked_sub_expect :: "nat \<Rightarrow> nat \<Rightarrow> vote_error + nat" where
  "fd_ulong_checked_sub_expect a b = (if a < b then Inl Crit else Inr (a - b))"

lemma access_in [simp]:
  "i < length xs \<Longrightarrow> peek_index xs i = Inr (xs ! i)" "xs \<noteq> [] \<Longrightarrow> peek_tail xs = Inr (last xs)"
  "b \<le> a \<Longrightarrow> fd_ulong_checked_sub_expect a b = Inr (a - b)"
  by (simp_all add: peek_index_def peek_tail_def fd_ulong_checked_sub_expect_def)

section \<open>Lockouts (\<open>fd_vote_utils.c\<close>)\<close>

definition fd_vote_lockout_get_lockout :: "fd_vote_lockout \<Rightarrow> u64" where
  "fd_vote_lockout_get_lockout self =
     (let confirmation_count = min (ucast (lo_conf self)) (31 :: u64)
      in push_bit (unat confirmation_count) 1)"

definition fd_vote_lockout_last_locked_out_slot :: "fd_vote_lockout \<Rightarrow> u64" where
  "fd_vote_lockout_last_locked_out_slot self =
     fd_ulong_sat_add (lo_slot self) (fd_vote_lockout_get_lockout self)"

definition fd_vote_lockout_is_locked_out_at_slot :: "fd_vote_lockout \<Rightarrow> u64 \<Rightarrow> bool" where
  "fd_vote_lockout_is_locked_out_at_slot self slot \<longleftrightarrow> slot \<le> fd_vote_lockout_last_locked_out_slot self"

definition fd_vote_lockout_increase_confirmation_count :: "fd_vote_lockout \<Rightarrow> u32 \<Rightarrow> fd_vote_lockout" where
  "fd_vote_lockout_increase_confirmation_count self n = self\<lparr>lo_conf := fd_uint_sat_add (lo_conf self) n\<rparr>"

definition fd_vote_lockout_landed_votes_from_lockouts :: "fd_vote_lockout list \<Rightarrow> fd_landed_vote list" where
  "fd_vote_lockout_landed_votes_from_lockouts lockouts =
     map (\<lambda>ele. \<lparr> lv_latency = 0, lv_lockout = ele \<rparr>) lockouts"

definition fd_vote_compute_vote_latency :: "u64 \<Rightarrow> u64 \<Rightarrow> u8" where
  "fd_vote_compute_vote_latency voted_for_slot current_slot =
     ucast (min (fd_ulong_sat_sub current_slot voted_for_slot) 255)"

definition fd_vote_credits_for_vote_at_index :: "fd_landed_vote list \<Rightarrow> nat \<Rightarrow> u64" where
  "fd_vote_credits_for_vote_at_index votes index =
     (let latency = ucast (lv_latency (votes ! index)) :: u64; max_credits = 16
      in if latency = 0 then 1
         else if latency < 2 \<or> latency - 2 = 0 then max_credits
         else (let diff = latency - 2 in
               if max_credits < diff \<or> max_credits - diff = 0 then 1 else max_credits - diff))"

text \<open>The binary search of \<open>fd_vote_contains_slot\<close>, with \<open>sz\<close> as its measure.\<close>

function contains_slot_from :: "fd_landed_vote list \<Rightarrow> u64 \<Rightarrow> nat \<Rightarrow> nat \<Rightarrow> vote_error + nat" where
  "contains_slot_from votes slot base sz =
     (if 1 < sz
      then (let half = sz div 2; mid = base + half
            in bind_ok (peek_index votes mid) (\<lambda>v.
                 contains_slot_from votes slot (if slot < lo_slot (lv_lockout v) then base else mid)
                   (sz - half)))
      else Inr base)"
  by pat_completeness auto
termination by (relation "measure (\<lambda>(votes, slot, base, sz). sz)") auto

declare contains_slot_from.simps [simp del]

definition fd_vote_contains_slot :: "fd_landed_vote list \<Rightarrow> u64 \<Rightarrow> vote_error + bool" where
  "fd_vote_contains_slot votes slot =
     (if votes = [] then Inr False
      else bind_ok (contains_slot_from votes slot 0 (length votes)) (\<lambda>base.
           bind_ok (peek_index votes base) (\<lambda>v. Inr (lo_slot (lv_lockout v) = slot))))"

section \<open>Vote state (\<open>fd_vote_state_versioned.c\<close>)\<close>

definition fd_vsv_get_last_voted_slot :: "fd_vote_state \<Rightarrow> u64 option" where
  "fd_vsv_get_last_voted_slot self =
     (if vs_votes self = [] then None else Some (lo_slot (lv_lockout (last (vs_votes self)))))"

text \<open>The sum that is compared with the depth cannot overflow: an index and a 32 bit count.\<close>

definition double_lockouts :: "fd_vote_state \<Rightarrow> fd_vote_state" where
  "double_lockouts self =
     (let votes = vs_votes self; stack_depth = length votes in
      self\<lparr> vs_votes := map (\<lambda>(i, v).
               if i + unat (lo_conf (lv_lockout v)) < stack_depth
               then v\<lparr>lv_lockout := fd_vote_lockout_increase_confirmation_count (lv_lockout v) 1\<rparr>
               else v) (enumerate 0 votes) \<rparr>)"

definition update_tail :: "('a \<Rightarrow> 'a) \<Rightarrow> 'a list \<Rightarrow> 'a list" where
  "update_tail f xs = butlast xs @ [f (last xs)]"

definition open_epoch :: "u64 \<Rightarrow> fd_vote_epoch_credits list \<Rightarrow> fd_vote_epoch_credits list" where
  "open_epoch epoch epoch_credits =
     (if epoch_credits = []
      then push_tail_wrap (MAX_EPOCH_CREDITS_HISTORY + 1) epoch_credits
             \<lparr> ec_epoch = epoch, ec_credits = 0, ec_prev_credits = 0 \<rparr>
      else if epoch \<noteq> ec_epoch (last epoch_credits)
      then (let credits = ec_credits (last epoch_credits);
                prev_credits = ec_prev_credits (last epoch_credits)
            in if credits \<noteq> prev_credits
               then (if MAX_EPOCH_CREDITS_HISTORY \<le> length epoch_credits then tl epoch_credits
                     else epoch_credits)
                    @ [\<lparr> ec_epoch = epoch, ec_credits = credits, ec_prev_credits = credits \<rparr>]
               else (let epoch_credits = update_tail (\<lambda>e. e\<lparr>ec_epoch := epoch\<rparr>) epoch_credits
                     in if MAX_EPOCH_CREDITS_HISTORY < length epoch_credits then tl epoch_credits
                        else epoch_credits))
      else epoch_credits)"

definition fd_vsv_increment_credits :: "fd_vote_state \<Rightarrow> u64 \<Rightarrow> u64 \<Rightarrow> fd_vote_state" where
  "fd_vsv_increment_credits self epoch credits =
     self\<lparr> vs_epoch_credits :=
             update_tail (\<lambda>e. e\<lparr>ec_credits := fd_ulong_sat_add (ec_credits e) credits\<rparr>)
               (open_epoch epoch (vs_epoch_credits self)) \<rparr>"

definition fd_vsv_process_timestamp :: "fd_vote_state \<Rightarrow> u64 \<Rightarrow> u64 \<Rightarrow> vote_error + fd_vote_state" where
  "fd_vsv_process_timestamp self slot timestamp =
     (let l = vs_last_timestamp self in
      if (slot < ts_slot l \<or> sint timestamp < sint (ts_timestamp l))
         \<or> (slot = ts_slot l \<and> (slot \<noteq> ts_slot l \<or> timestamp \<noteq> ts_timestamp l) \<and> ts_slot l \<noteq> 0)
      then Inl TIMESTAMP_TOO_OLD
      else Inr (self\<lparr>vs_last_timestamp := \<lparr> ts_slot = slot, ts_timestamp = timestamp \<rparr>\<rparr>))"

function pop_expired :: "u64 \<Rightarrow> fd_landed_vote list \<Rightarrow> fd_landed_vote list" where
  "pop_expired next_vote_slot votes =
     (if votes \<noteq> [] \<and> \<not> fd_vote_lockout_is_locked_out_at_slot (lv_lockout (last votes)) next_vote_slot
      then pop_expired next_vote_slot (butlast votes) else votes)"
  by pat_completeness auto
termination by (relation "measure (\<lambda>(s, votes). length votes)") auto

declare pop_expired.simps [simp del]

definition fd_vsv_pop_expired_votes :: "fd_vote_state \<Rightarrow> u64 \<Rightarrow> fd_vote_state" where
  "fd_vsv_pop_expired_votes self next_vote_slot =
     self\<lparr>vs_votes := pop_expired next_vote_slot (vs_votes self)\<rparr>"

definition root_oldest :: "fd_vote_state \<Rightarrow> u64 \<Rightarrow> fd_vote_state" where
  "root_oldest self epoch =
     (if length (vs_votes self) = MAX_LOCKOUT_HISTORY
      then fd_vsv_increment_credits
             (self\<lparr> vs_votes := tl (vs_votes self),
                    vs_root_slot := Some (lo_slot (lv_lockout (hd (vs_votes self)))) \<rparr>)
             epoch (fd_vote_credits_for_vote_at_index (vs_votes self) 0)
      else self)"

definition fd_vsv_process_next_vote_slot :: "fd_vote_state \<Rightarrow> u64 \<Rightarrow> u64 \<Rightarrow> u64 \<Rightarrow> fd_vote_state" where
  "fd_vsv_process_next_vote_slot self next_vote_slot epoch current_slot =
     (if (case fd_vsv_get_last_voted_slot self of
            Some last_voted_slot \<Rightarrow> next_vote_slot \<le> last_voted_slot | None \<Rightarrow> False) then self
      else (let self = fd_vsv_pop_expired_votes self next_vote_slot;
                landed_vote = \<lparr> lv_latency = fd_vote_compute_vote_latency next_vote_slot current_slot,
                                lv_lockout = \<lparr> lo_slot = next_vote_slot, lo_conf = 0 \<rparr> \<rparr>;
                self = root_oldest self epoch;
                self = self\<lparr>vs_votes := push_tail_wrap MAX_LOCKOUT_HISTORY_CAPACITY (vs_votes self) landed_vote\<rparr>
            in double_lockouts self))"

section \<open>Checks of a proposed tower (\<open>fd_vote_program.c\<close>)\<close>

definition filter_proposed_root :: "fd_vote_state \<Rightarrow> u64 option \<Rightarrow> u64 \<Rightarrow> u64 option" where
  "filter_proposed_root versioned proposed_root earliest =
     (case proposed_root of
        None \<Rightarrow> None
      | Some root \<Rightarrow>
          if root < earliest
          then (case find (\<lambda>vote. lo_slot (lv_lockout vote) \<le> root) (rev (vs_votes versioned)) of
                  Some vote \<Rightarrow> Some (lo_slot (lv_lockout vote))
                | None \<Rightarrow> vs_root_slot versioned)
          else Some root)"

text \<open>
  The loop over the proposed lockouts and the slot hashes, at the lockout \<open>idx\<close> and with \<open>n\<close> for
  \<open>slot_hashes_index\<close>; \<open>filter_idxs\<close> collects \<open>proposed_lockouts_indexes_to_filter\<close>, last first.
  The result is the index, the slot hash index and the indexes to filter.  A round reads the lockout
  (\<open>fd_ulong_if\<close> evaluates both its arguments), the one before it and a slot hash.
\<close>

definition scan_order :: "fd_vote_lockout list \<Rightarrow> u64 option \<Rightarrow> nat \<Rightarrow> u64 \<Rightarrow> vote_error + bool" where
  "scan_order lockouts root_to_check idx slot =
     (if root_to_check = None \<and> 0 < idx
      then bind_ok (fd_ulong_checked_sub_expect idx 1) (\<lambda>i.
           bind_ok (peek_index lockouts i) (\<lambda>prev. Inr (slot \<le> lo_slot prev)))
      else Inr False)"

definition scan_read ::
    "fd_vote_lockout list \<Rightarrow> fd_slot_hashes \<Rightarrow> u64 option \<Rightarrow> nat \<Rightarrow> nat \<Rightarrow> vote_error + (u64 \<times> nat \<times> u64)" where
  "scan_read lockouts slot_hashes root_to_check idx n =
     bind_ok (peek_index lockouts idx) (\<lambda>lockout.
     let slot = (case root_to_check of Some root \<Rightarrow> root | None \<Rightarrow> lo_slot lockout) in
     bind_ok (scan_order lockouts root_to_check idx slot) (\<lambda>unordered.
     if unordered then Inl SLOTS_NOT_ORDERED
     else bind_ok (fd_ulong_checked_sub_expect n 1) (\<lambda>newer.
          bind_ok (peek_index slot_hashes newer) (\<lambda>ancestor. Inr (slot, newer, fst ancestor)))))"

definition scan_filter ::
    "fd_vote_state \<Rightarrow> u64 option \<Rightarrow> u64 \<Rightarrow> nat \<Rightarrow> nat list \<Rightarrow> vote_error + nat list" where
  "scan_filter versioned root_to_check slot idx filter_idxs =
     bind_ok (fd_vote_contains_slot (vs_votes versioned) slot) (\<lambda>contained.
     if \<not> contained \<and> root_to_check = None
     then (if FD_VOTE_INSTR_MAX_LOCKOUT_OFFSETS_LEN \<le> length filter_idxs then Inl Out_of_bounds
           else Inr (idx # filter_idxs))
     else Inr filter_idxs)"

lemma scan_read_newer:
  "scan_read lockouts slot_hashes root idx n = Inr (slot, newer, ancestor) \<Longrightarrow> 0 < n \<and> newer = n - 1"
  by (auto simp: scan_read_def scan_order_def bind_ok_def Let_def fd_ulong_checked_sub_expect_def
        split: sum.splits if_splits)

function scan_proposed ::
    "fd_vote_state \<Rightarrow> fd_vote_lockout list \<Rightarrow> fd_slot_hashes \<Rightarrow> u64 \<Rightarrow> u64 option \<Rightarrow> nat \<Rightarrow> nat \<Rightarrow> nat list
       \<Rightarrow> vote_error + (nat \<times> nat \<times> nat list)" where
  "scan_proposed versioned lockouts slot_hashes earliest root_to_check idx n filter_idxs =
     (if idx < length lockouts \<and> 0 < n
      then bind_ok (scan_read lockouts slot_hashes root_to_check idx n) (\<lambda>(slot, newer, ancestor_slot).
           if slot < ancestor_slot
           then (if n = length slot_hashes
                 then (if earliest \<le> slot then Inl VOTE_TOO_OLD
                       else bind_ok (scan_filter versioned root_to_check slot idx filter_idxs) (\<lambda>filter_idxs.
                            if root_to_check \<noteq> None
                            then scan_proposed versioned lockouts slot_hashes earliest None idx n filter_idxs
                            else scan_proposed versioned lockouts slot_hashes earliest None (idx + 1) n filter_idxs))
                 else if root_to_check \<noteq> None then Inl ROOT_ON_DIFFERENT_FORK
                 else Inl SLOTS_MISMATCH)
           else if ancestor_slot < slot
           then scan_proposed versioned lockouts slot_hashes earliest root_to_check idx newer filter_idxs
           else if root_to_check \<noteq> None
           then scan_proposed versioned lockouts slot_hashes earliest None idx n filter_idxs
           else scan_proposed versioned lockouts slot_hashes earliest None (idx + 1) newer filter_idxs)
      else Inr (idx, n, filter_idxs))"
  by pat_completeness auto

termination
  by (relation "measure (\<lambda>(vs, lockouts, sh, e, root, idx, n, f).
        (if root = None then 0 else 1) + (length lockouts - idx) + n)")
     (auto dest!: scan_read_newer[OF sym] scan_read_newer)

declare scan_proposed.simps [simp del]

text \<open>Popping the filtered indexes, the largest first.\<close>

fun pop_filtered :: "nat list \<Rightarrow> fd_vote_lockout list \<Rightarrow> vote_error + fd_vote_lockout list" where
  "pop_filtered [] lockouts = Inr lockouts"
| "pop_filtered (i # is) lockouts =
     (if lockouts = [] then Inr lockouts
      else if length lockouts \<le> i then Inl Unsupported_program_id
      else pop_filtered is (take i lockouts @ drop (Suc i) lockouts))"

definition check_and_filter_proposed_vote_state ::
    "fd_vote_state \<Rightarrow> fd_vote_lockout list \<Rightarrow> u64 option \<Rightarrow> fd_hash \<Rightarrow> fd_slot_hashes
       \<Rightarrow> vote_error + (fd_vote_lockout list \<times> u64 option)" where
  "check_and_filter_proposed_vote_state versioned lockouts proposed_root proposed_hash slot_hashes =
     (if lockouts = [] then Inl EMPTY_SLOTS
      else bind_ok (peek_tail lockouts) (\<lambda>newest.
      bind_ok (if vs_votes versioned = [] then Inr False
               else bind_ok (peek_tail (vs_votes versioned)) (\<lambda>last_vote.
                    Inr (lo_slot newest \<le> lo_slot (lv_lockout last_vote)))) (\<lambda>too_old.
      if too_old then Inl VOTE_TOO_OLD
      else if slot_hashes = [] then Inl SLOTS_MISMATCH
      else bind_ok (peek_index slot_hashes (length slot_hashes - 1)) (\<lambda>oldest_hash.
      let earliest = fst oldest_hash in
      if lo_slot newest < earliest then Inl VOTE_TOO_OLD
      else (let root = filter_proposed_root versioned proposed_root earliest in
            bind_ok (scan_proposed versioned lockouts slot_hashes earliest root 0 (length slot_hashes) [])
              (\<lambda>(idx, slot_hashes_index, filter_idxs).
            if idx \<noteq> length lockouts then Inl SLOTS_MISMATCH
            else bind_ok (peek_index slot_hashes slot_hashes_index) (\<lambda>h.
                 if snd h \<noteq> proposed_hash then Inl SLOTS_HASH_MISMATCH
                 else bind_ok (pop_filtered filter_idxs lockouts) (\<lambda>lockouts. Inr (lockouts, root)))))))))"

text \<open>The loop of \<open>check_slots_are_valid\<close>: what is left of the vote slots and of the slot hashes.\<close>

fun scan_slots :: "u64 option \<Rightarrow> u64 list \<Rightarrow> fd_slot_hashes \<Rightarrow> u64 list \<times> fd_slot_hashes" where
  "scan_slots last_voted (slot # slots) (h # ancestors) =
     (if (case last_voted of Some l \<Rightarrow> slot \<le> l | None \<Rightarrow> False)
      then scan_slots last_voted slots (h # ancestors)
      else if slot \<noteq> fst h then scan_slots last_voted (slot # slots) ancestors
      else scan_slots last_voted slots ancestors)"
| "scan_slots last_voted slots ancestors = (slots, ancestors)"

definition check_slots_are_valid ::
    "fd_vote_state \<Rightarrow> u64 list \<Rightarrow> fd_hash \<Rightarrow> fd_slot_hashes \<Rightarrow> vote_error option" where
  "check_slots_are_valid versioned vote_slots vote_hash slot_hashes =
     (case scan_slots (fd_vsv_get_last_voted_slot versioned) vote_slots (rev slot_hashes) of
        (slots, ancestors) \<Rightarrow>
          if length ancestors = length slot_hashes then Some VOTE_TOO_OLD
          else if slots \<noteq> [] then Some SLOTS_MISMATCH
          else if snd (slot_hashes ! length ancestors) \<noteq> vote_hash then Some SLOTS_HASH_MISMATCH
          else None)"

section \<open>Replacing the tower\<close>

definition check_root_advances :: "u64 option \<Rightarrow> u64 option \<Rightarrow> vote_error option" where
  "check_root_advances root_slot new_root =
     (case (root_slot, new_root) of
        (Some root, Some new_root) \<Rightarrow> if new_root < root then Some ROOT_ROLL_BACK else None
      | (Some root, None) \<Rightarrow> Some ROOT_ROLL_BACK
      | (None, _) \<Rightarrow> None)"

fun check_new_votes :: "u64 option \<Rightarrow> fd_landed_vote option \<Rightarrow> fd_landed_vote list \<Rightarrow> vote_error option" where
  "check_new_votes new_root previous_vote [] = None"
| "check_new_votes new_root previous_vote (vote # votes) =
     (let l = lv_lockout vote in
      if lo_conf l = 0 then Some ZERO_CONFIRMATIONS
      else if 31 < lo_conf l then Some CONFIRMATION_TOO_LARGE
      else if (case new_root of Some root \<Rightarrow> lo_slot l \<le> root \<and> root \<noteq> 0 | None \<Rightarrow> False)
      then Some SLOT_SMALLER_THAN_ROOT
      else (case previous_vote of
              None \<Rightarrow> check_new_votes new_root (Some vote) votes
            | Some prev \<Rightarrow>
                if lo_slot l \<le> lo_slot (lv_lockout prev) then Some SLOTS_NOT_ORDERED
                else if lo_conf (lv_lockout prev) \<le> lo_conf l then Some CONFIRMATIONS_NOT_ORDERED
                else if fd_vote_lockout_last_locked_out_slot (lv_lockout prev) < lo_slot l
                then Some NEW_VOTE_STATE_LOCKOUT_MISMATCH
                else check_new_votes new_root (Some vote) votes))"

text \<open>The credits of the votes the new root covers, and how many they are.\<close>

function rooted_credits :: "u64 option \<Rightarrow> fd_landed_vote list \<Rightarrow> nat \<Rightarrow> u64 \<Rightarrow> nat \<times> u64" where
  "rooted_credits None votes index earned = (index, earned)"
| "rooted_credits (Some root) votes index earned =
     (if index < length votes \<and> lo_slot (lv_lockout (votes ! index)) \<le> root
      then rooted_credits (Some root) votes (index + 1)
             (fd_vote_credits_for_vote_at_index votes index + earned)
      else (index, earned))"
  by pat_completeness auto
termination by (relation "measure (\<lambda>(root, votes, index, earned). length votes - index)") auto

declare rooted_credits.simps(2) [simp del]

definition landed_expiry :: "fd_vote_lockout \<Rightarrow> u64" where
  "landed_expiry l = fd_ulong_sat_add (lo_slot l) (2 ^ min (unat (lo_conf l)) MAX_LOCKOUT_HISTORY)"

text \<open>The walk over the old and the new votes; the latency of a vote in both is kept.\<close>

fun merge_votes :: "fd_landed_vote list \<Rightarrow> fd_landed_vote list \<Rightarrow> vote_error + fd_landed_vote list" where
  "merge_votes (cur # curs) (new # news) =
     (if lo_slot (lv_lockout cur) < lo_slot (lv_lockout new)
      then (if lo_slot (lv_lockout new) \<le> landed_expiry (lv_lockout cur) then Inl LOCKOUT_CONFLICT
            else merge_votes curs (new # news))
      else if lo_slot (lv_lockout cur) = lo_slot (lv_lockout new)
      then (if lo_conf (lv_lockout new) < lo_conf (lv_lockout cur) then Inl CONFIRMATION_ROLL_BACK
            else map_sum id ((#) (new\<lparr>lv_latency := lv_latency cur\<rparr>)) (merge_votes curs news))
      else map_sum id ((#) new) (merge_votes (cur # curs) news))"
| "merge_votes curs news = Inr news"

definition fill_latency :: "u64 \<Rightarrow> fd_landed_vote \<Rightarrow> fd_landed_vote" where
  "fill_latency current_slot vote =
     (if lv_latency vote = 0
      then vote\<lparr>lv_latency := fd_vote_compute_vote_latency (lo_slot (lv_lockout vote)) current_slot\<rparr>
      else vote)"

definition process_new_vote_state ::
    "fd_vote_state \<Rightarrow> fd_landed_vote list \<Rightarrow> u64 option \<Rightarrow> u64 option \<Rightarrow> u64 \<Rightarrow> u64
       \<Rightarrow> vote_error + fd_vote_state" where
  "process_new_vote_state versioned new_state new_root timestamp epoch current_slot =
     (let votes = vs_votes versioned; root_slot = vs_root_slot versioned in
      if new_state = [] then Inl Crit
      else if MAX_LOCKOUT_HISTORY < length new_state then Inl TOO_MANY_VOTES
      else case check_root_advances root_slot new_root of Some e \<Rightarrow> Inl e | None \<Rightarrow>
      case check_new_votes new_root None new_state of Some e \<Rightarrow> Inl e | None \<Rightarrow>
      case rooted_credits new_root votes 0 0 of (index, earned_credits) \<Rightarrow>
      case merge_votes (drop index votes) new_state of Inl e \<Rightarrow> Inl e | Inr new_state \<Rightarrow>
      let new_state = map (fill_latency current_slot) new_state;
          versioned = (if root_slot \<noteq> new_root
                       then fd_vsv_increment_credits versioned epoch earned_credits else versioned)
      in case (case timestamp of
                 Some ts \<Rightarrow> fd_vsv_process_timestamp versioned (lo_slot (lv_lockout (last new_state))) ts
               | None \<Rightarrow> Inr versioned) of
           Inl e \<Rightarrow> Inl e
         | Inr versioned \<Rightarrow> Inr (versioned\<lparr>vs_root_slot := new_root, vs_votes := new_state\<rparr>))"

lemma lv_lockout_fill [simp]: "lv_lockout (fill_latency cur v) = lv_lockout v"
  by (simp add: fill_latency_def)

section \<open>Instructions\<close>

definition process_vote_unfiltered ::
    "fd_vote_state \<Rightarrow> u64 list \<Rightarrow> fd_hash \<Rightarrow> fd_slot_hashes \<Rightarrow> u64 \<Rightarrow> u64 \<Rightarrow> vote_error + fd_vote_state" where
  "process_vote_unfiltered versioned vote_slots vote_hash slot_hashes epoch current_slot =
     (case check_slots_are_valid versioned vote_slots vote_hash slot_hashes of
        Some e \<Rightarrow> Inl e
      | None \<Rightarrow> Inr (fold (\<lambda>slot vs. fd_vsv_process_next_vote_slot vs slot epoch current_slot)
                       vote_slots versioned))"

definition process_vote ::
    "fd_vote_state \<Rightarrow> u64 list \<Rightarrow> fd_hash \<Rightarrow> fd_slot_hashes \<Rightarrow> u64 \<Rightarrow> u64 \<Rightarrow> vote_error + fd_vote_state" where
  "process_vote versioned slots vote_hash slot_hashes epoch current_slot =
     (if slots = [] then Inl EMPTY_SLOTS
      else (let earliest = (if slot_hashes \<noteq> [] then fst (last slot_hashes) else 0);
                vote_slots = filter (\<lambda>slot. earliest \<le> slot) slots
            in if vote_slots = [] then Inl VOTES_TOO_OLD_ALL_FILTERED
               else process_vote_unfiltered versioned vote_slots vote_hash slot_hashes epoch current_slot))"

record fd_tower_sync =
  sync_lockouts :: "fd_vote_lockout list"
  sync_root :: "u64 option"
  sync_hash :: fd_hash
  sync_timestamp :: "u64 option"

definition do_process_tower_sync ::
    "fd_vote_state \<Rightarrow> fd_slot_hashes \<Rightarrow> u64 \<Rightarrow> u64 \<Rightarrow> fd_tower_sync \<Rightarrow> vote_error + fd_vote_state" where
  "do_process_tower_sync versioned slot_hashes epoch slot tower_sync =
     (case check_and_filter_proposed_vote_state versioned (sync_lockouts tower_sync)
             (sync_root tower_sync) (sync_hash tower_sync) slot_hashes of
        Inl e \<Rightarrow> Inl e
      | Inr (lockouts, root) \<Rightarrow>
          process_new_vote_state versioned (fd_vote_lockout_landed_votes_from_lockouts lockouts) root
            (sync_timestamp tower_sync) epoch slot)"

definition do_process_vote_state_update ::
    "fd_vote_state \<Rightarrow> fd_slot_hashes \<Rightarrow> u64 \<Rightarrow> u64 \<Rightarrow> fd_tower_sync \<Rightarrow> vote_error + fd_vote_state" where
  "do_process_vote_state_update versioned slot_hashes epoch slot update =
     (case check_and_filter_proposed_vote_state versioned (sync_lockouts update)
             (sync_root update) (sync_hash update) slot_hashes of
        Inl e \<Rightarrow> Inl e
      | Inr (lockouts, root) \<Rightarrow>
          process_new_vote_state versioned
            (fold (\<lambda>l landed. push_tail_wrap (length lockouts) landed \<lparr> lv_latency = 0, lv_lockout = l \<rparr>)
               lockouts [])
            root (sync_timestamp update) epoch slot)"

end
