(* ===== verification/Tower_Sync.thy ===== *)
theory Tower_Sync
  imports Tower_Votes Vote_State
begin

text \<open>
  The validator's tower against the vote program: pushing a vote on the local tower and landing the
  vote in the vote account are the same function, and a tower the validator reaches by pushing a vote
  passes every check of the vote program.
\<close>

section \<open>Landed votes as tower votes\<close>

definition tower_view :: "fd_landed_vote \<Rightarrow> fd_tower_vote" where
  "tower_view lv = \<lparr> vote_slot = lo_slot (lv_lockout lv), vote_conf = ucast (lo_conf (lv_lockout lv)) \<rparr>"

lemma tower_view_simps [simp]:
  "vote_slot (tower_view lv) = lo_slot (lv_lockout lv)"
  "vote_conf (tower_view lv) = ucast (lo_conf (lv_lockout lv))"
  by (simp_all add: tower_view_def)

lemma unat_ucast_conf: "unat (ucast (c :: u32) :: u64) = unat c"
  using unat_lt32[of c] by (simp add: unsigned_ucast_eq take_bit_nat_eq_self)

lemma vote_ok_view:
  "vote_ok (tower_view lv) \<Longrightarrow> unat (lo_slot (lv_lockout lv)) < 2 ^ 63"
  "vote_ok (tower_view lv) \<Longrightarrow> 1 \<le> unat (lo_conf (lv_lockout lv))"
  "vote_ok (tower_view lv) \<Longrightarrow> unat (lo_conf (lv_lockout lv)) \<le> 31"
  by (simp_all add: vote_ok_def FD_TOWER_VOTE_MAX_def unat_ucast_conf)

lemma get_lockout_small:
  assumes "unat (lo_conf l) \<le> 31"
  shows "fd_vote_lockout_get_lockout l = push_bit (unat (lo_conf l)) 1"
proof -
  have "ucast (lo_conf l) \<le> (31 :: u64)"
    using assms by (simp add: word_le_nat_alt unat_ucast_conf)
  hence "min (ucast (lo_conf l)) (31 :: u64) = ucast (lo_conf l)" by (simp add: min_def)
  thus ?thesis by (simp add: fd_vote_lockout_get_lockout_def unat_ucast_conf)
qed

lemma sat_add_exact: "unat x + unat y < 2 ^ 64 \<Longrightarrow> fd_ulong_sat_add x y = x + y"
  by (simp add: fd_ulong_sat_add_def)

lemma last_locked_out_view:
  assumes "vote_ok (tower_view lv)"
  shows "fd_vote_lockout_last_locked_out_slot (lv_lockout lv) = expiration_slot (tower_view lv)"
proof -
  let ?l = "lv_lockout lv"
  have c: "unat (lo_conf ?l) \<le> 31" by (rule vote_ok_view(3)[OF assms])
  have p: "unat (push_bit (unat (lo_conf ?l)) (1 :: u64)) = 2 ^ unat (lo_conf ?l)"
    using c by (intro unat_push_one) simp
  have "(2 :: nat) ^ unat (lo_conf ?l) \<le> 2 ^ 31" using c by (intro power_increasing) simp_all
  hence "unat (lo_slot ?l) + unat (push_bit (unat (lo_conf ?l)) (1 :: u64)) < 2 ^ 64"
    unfolding p using vote_ok_view(1)[OF assms] by simp
  thus ?thesis
    by (simp add: fd_vote_lockout_last_locked_out_slot_def get_lockout_small[OF c] sat_add_exact
        expiration_slot_def unat_ucast_conf)
qed

lemma landed_expiry_view:
  assumes "vote_ok (tower_view lv)"
  shows "landed_expiry (lv_lockout lv) = expiration_slot (tower_view lv)"
proof -
  have c: "unat (lo_conf (lv_lockout lv)) \<le> 31" by (rule vote_ok_view(3)[OF assms])
  hence "2 ^ min (unat (lo_conf (lv_lockout lv))) MAX_LOCKOUT_HISTORY
      = fd_vote_lockout_get_lockout (lv_lockout lv)"
    by (simp add: get_lockout_small MAX_LOCKOUT_HISTORY_def min_absorb1 push_bit_eq_mult)
  thus ?thesis using last_locked_out_view[OF assms]
    by (simp add: landed_expiry_def fd_vote_lockout_last_locked_out_slot_def)
qed

section \<open>Pushing a vote\<close>

lemma simulate_from_take:
  "n \<le> m \<Longrightarrow> simulate_from (take m vs) slot n = simulate_from vs slot n"
  by (induction n) auto

lemma simulate_vote_butlast:
  assumes "vs \<noteq> []" "expiration_slot (last vs) < slot"
  shows "simulate_vote vs slot = simulate_vote (butlast vs) slot"
proof -
  obtain n where n: "length vs = Suc n" using assms(1) by (cases vs) auto
  hence "last vs = vs ! n" using assms(1) by (simp add: last_conv_nth)
  hence "\<not> slot \<le> expiration_slot (vs ! n)" using assms(2) by (simp add: not_le)
  thus ?thesis using n simulate_from_take[of n n vs slot]
    by (simp add: simulate_vote_def butlast_conv_take)
qed

lemma simulate_vote_unexpired:
  assumes "vs \<noteq> []" "slot \<le> expiration_slot (last vs)"
  shows "simulate_vote vs slot = length vs"
proof -
  obtain n where n: "length vs = Suc n" using assms(1) by (cases vs) auto
  hence "last vs = vs ! n" using assms(1) by (simp add: last_conv_nth)
  thus ?thesis using assms(2) n by (simp add: simulate_vote_def)
qed

lemma pop_expired_take:
  "\<forall>lv \<in> set lvs. vote_ok (tower_view lv) \<Longrightarrow>
     pop_expired slot lvs = take (simulate_vote (map tower_view lvs) slot) lvs"
proof (induction slot lvs rule: pop_expired.induct)
  case (1 slot lvs)
  show ?case
  proof (cases "lvs = []")
    case True thus ?thesis by (subst pop_expired.simps) simp
  next
    case False
    hence ok: "vote_ok (tower_view (last lvs))" using 1(2) by simp
    have exp: "fd_vote_lockout_is_locked_out_at_slot (lv_lockout (last lvs)) slot
        \<longleftrightarrow> slot \<le> expiration_slot (last (map tower_view lvs))"
      using False by (simp add: fd_vote_lockout_is_locked_out_at_slot_def last_locked_out_view[OF ok] last_map)
    show ?thesis
    proof (cases "slot \<le> expiration_slot (last (map tower_view lvs))")
      case True
      thus ?thesis using False exp by (subst pop_expired.simps) (simp add: simulate_vote_unexpired)
    next
      case gone: False
      let ?c = "simulate_vote (map tower_view (butlast lvs)) slot"
      have "pop_expired slot (butlast lvs) = take ?c (butlast lvs)"
        using 1 False exp gone by (auto dest: in_set_butlastD)
      also have "\<dots> = take ?c lvs"
        using simulate_vote_le[of "map tower_view (butlast lvs)" slot] False
        by (subst append_butlast_last_id[OF False, symmetric]) (simp del: append_butlast_last_id)
      also have "?c = simulate_vote (map tower_view lvs) slot"
        using simulate_vote_butlast[of "map tower_view lvs" slot] False gone by (simp add: map_butlast not_le)
      finally show ?thesis using False exp gone by (subst pop_expired.simps) simp
    qed
  qed
qed

definition raise_conf :: "nat \<Rightarrow> fd_landed_vote \<Rightarrow> fd_landed_vote" where
  "raise_conf room v = (if unat (lo_conf (lv_lockout v)) < room
     then v\<lparr>lv_lockout := fd_vote_lockout_increase_confirmation_count (lv_lockout v) 1\<rparr> else v)"

lemma double_lockouts_nth:
  "vs_votes (double_lockouts self) =
     map (\<lambda>i. raise_conf (length (vs_votes self) - i) (vs_votes self ! i)) [0 ..< length (vs_votes self)]"
  by (intro nth_equalityI) (auto simp: double_lockouts_def Let_def nth_enumerate_eq raise_conf_def)

lemma ucast_succ_conf:
  assumes "unat (c :: u32) \<le> 31"
  shows "ucast (fd_uint_sat_add c 1) = (ucast c :: u64) + 1"
proof -
  have "unat (c + 1) = unat c + 1" using assms by (simp add: unat_word_ariths)
  hence "unat (ucast (c + 1) :: u64) = unat ((ucast c :: u64) + 1)"
    using assms unat_succ_conf[of "ucast c"] by (simp add: unat_ucast_conf)
  moreover have "fd_uint_sat_add c 1 = c + 1" using assms by (simp add: fd_uint_sat_add_def)
  ultimately show ?thesis by (metis word_unat_eq_iff)
qed

lemma view_raise_conf:
  assumes "unat (lo_conf (lv_lockout v)) \<le> 31" "k \<le> unat (lo_conf (lv_lockout v))"
  shows "tower_view (raise_conf (Suc k) v) = doubled k (tower_view v)"
  using assms by (auto simp: raise_conf_def doubled_def unat_ucast_conf ucast_succ_conf tower_view_def
      fd_vote_lockout_increase_confirmation_count_def)

lemma double_lockouts_relock:
  assumes "vs_votes self = lvs @ [\<lparr> lv_latency = l, lv_lockout = \<lparr> lo_slot = slot, lo_conf = 0 \<rparr> \<rparr>]"
    and "votes_ok (map tower_view lvs)"
  shows "map tower_view (vs_votes (double_lockouts self))
    = relock (map tower_view lvs) @ [\<lparr> vote_slot = slot, vote_conf = 1 \<rparr>]"
proof (rule nth_equalityI)
  let ?n = "length lvs"
  fix i assume "i < length (map tower_view (vs_votes (double_lockouts self)))"
  hence i: "i < Suc ?n" using assms(1) by (simp add: double_lockouts_nth)
  have *: "map tower_view (vs_votes (double_lockouts self)) ! i
      = tower_view (raise_conf (Suc ?n - i) (vs_votes self ! i))"
    using i assms(1) by (simp add: double_lockouts_nth del: upt_Suc)
  show "map tower_view (vs_votes (double_lockouts self)) ! i
      = (relock (map tower_view lvs) @ [\<lparr> vote_slot = slot, vote_conf = 1 \<rparr>]) ! i"
  proof (cases "i = ?n")
    case True
    have "tower_view (raise_conf 1 \<lparr> lv_latency = l, lv_lockout = \<lparr> lo_slot = slot, lo_conf = 0 \<rparr> \<rparr>)
        = \<lparr> vote_slot = slot, vote_conf = 1 \<rparr>"
      by (simp add: raise_conf_def tower_view_def fd_vote_lockout_increase_confirmation_count_def
          fd_uint_sat_add_def)
    thus ?thesis unfolding * using True assms(1) by (simp add: nth_append)
  next
    case False
    hence i: "i < ?n" using i by simp
    have h: "?n - i \<le> unat (lo_conf (lv_lockout (lvs ! i)))"
      using conf_ge_height[OF assms(2), of i] i by (simp add: unat_ucast_conf)
    have "vote_ok (tower_view (lvs ! i))" using assms(2) i by (simp add: votes_ok_nth)
    from view_raise_conf[OF vote_ok_view(3)[OF this] h]
    show ?thesis unfolding * using i assms(1) by (simp add: nth_append relock_nth Suc_diff_le)
  qed
qed (simp add: double_lockouts_nth assms(1))

lemma vs_votes_increment_credits [simp]:
  "vs_votes (fd_vsv_increment_credits self epoch credits) = vs_votes self"
  "vs_root_slot (fd_vsv_increment_credits self epoch credits) = vs_root_slot self"
  by (simp_all add: fd_vsv_increment_credits_def)

lemma root_oldest_votes:
  "vs_votes (root_oldest self epoch) =
     (if length (vs_votes self) = 31 then tl (vs_votes self) else vs_votes self)"
  "vs_root_slot (root_oldest self epoch) =
     (if length (vs_votes self) = 31 then Some (lo_slot (lv_lockout (hd (vs_votes self)))) else vs_root_slot self)"
  by (simp_all add: root_oldest_def MAX_LOCKOUT_HISTORY_def)

lemma double_lockouts_root [simp]: "vs_root_slot (double_lockouts self) = vs_root_slot self"
  by (simp add: double_lockouts_def Let_def)

lemma next_vote_slot_result:
  assumes ok: "votes_ok (map tower_view (vs_votes self))"
    and newer: "vs_votes self = [] \<or> lo_slot (lv_lockout (last (vs_votes self))) < slot"
    and push: "push_vote (map tower_view (vs_votes self)) slot = Some (root, votes')"
  shows "map tower_view (vs_votes (fd_vsv_process_next_vote_slot self slot epoch cur)) = votes'"
    and "vs_root_slot (fd_vsv_process_next_vote_slot self slot epoch cur)
      = (if simulate_vote (map tower_view (vs_votes self)) slot = FD_TOWER_VOTE_MAX
         then Some root else vs_root_slot self)"
proof -
  let ?vs = "map tower_view (vs_votes self)"
  let ?c = "simulate_vote ?vs slot"
  let ?p = "fd_vsv_pop_expired_votes self slot"
  let ?new = "\<lparr> lv_latency = fd_vote_compute_vote_latency slot cur, lv_lockout = \<lparr> lo_slot = slot, lo_conf = 0 \<rparr> \<rparr>"
  have stale: "\<not> (case fd_vsv_get_last_voted_slot self of Some l \<Rightarrow> slot \<le> l | None \<Rightarrow> False)"
    using newer by (auto simp: fd_vsv_get_last_voted_slot_def)
  have pop: "vs_votes ?p = take ?c (vs_votes self)" "vs_root_slot ?p = vs_root_slot self"
    using ok by (simp_all add: fd_vsv_pop_expired_votes_def pop_expired_take votes_ok_def)
  have len: "length (vs_votes ?p) = ?c" using simulate_vote_le[of ?vs slot] pop by simp
  have k: "map tower_view (vs_votes (root_oldest ?p epoch)) = kept_votes ?vs slot"
    using len by (simp add: root_oldest_votes kept_votes_def Let_def pop FD_TOWER_VOTE_MAX_def map_tl take_map)
  hence lk: "length (vs_votes (root_oldest ?p epoch)) < 31"
    using length_kept[OF ok, of slot] by (metis length_map FD_TOWER_VOTE_MAX_def)
  let ?q = "(root_oldest ?p epoch)\<lparr>vs_votes := push_tail_wrap MAX_LOCKOUT_HISTORY_CAPACITY (vs_votes (root_oldest ?p epoch)) ?new\<rparr>"
  have res: "fd_vsv_process_next_vote_slot self slot epoch cur = double_lockouts ?q"
    using stale by (simp add: fd_vsv_process_next_vote_slot_def Let_def)
  have q: "vs_votes ?q = vs_votes (root_oldest ?p epoch) @ [?new]"
    using lk by (simp add: push_tail_wrap_def MAX_LOCKOUT_HISTORY_CAPACITY_def)
  have newer': "?vs = [] \<or> vote_slot (last ?vs) < slot" using newer by (cases "vs_votes self = []") (simp_all add: last_map)
  note r = push_vote_result[OF ok newer', unfolded push]
  have "votes_ok (map tower_view (vs_votes (root_oldest ?p epoch)))" unfolding k by (rule votes_ok_kept[OF ok])
  from double_lockouts_relock[OF q this]
  show "map tower_view (vs_votes (fd_vsv_process_next_vote_slot self slot epoch cur)) = votes'"
    using r by (simp add: res k)
  have "?c = 31 \<Longrightarrow> lo_slot (lv_lockout (hd (vs_votes ?p))) = vote_slot (hd ?vs)"
    using len pop by (cases "vs_votes self") (auto simp: hd_take)
  thus "vs_root_slot (fd_vsv_process_next_vote_slot self slot epoch cur)
      = (if ?c = FD_TOWER_VOTE_MAX then Some root else vs_root_slot self)"
    using r len by (simp add: res root_oldest_votes pop FD_TOWER_VOTE_MAX_def)
qed

section \<open>Landing the tower\<close>

definition root_below :: "u64 option \<Rightarrow> fd_landed_vote list \<Rightarrow> bool" where
  "root_below root lvs \<longleftrightarrow> (case root of None \<Rightarrow> True | Some r \<Rightarrow> \<forall>lv \<in> set lvs. r < lo_slot (lv_lockout lv))"

lemma conf_in_range:
  assumes "vote_ok (tower_view lv)"
  shows "lo_conf (lv_lockout lv) \<noteq> 0" "\<not> 31 < lo_conf (lv_lockout lv)"
  using vote_ok_view(2,3)[OF assms] by (auto simp: word_less_nat_alt)

lemma conf_less_view: "(ucast (a :: u32) :: u64) < ucast b \<longleftrightarrow> a < b"
  by (simp add: word_less_nat_alt unat_ucast_conf)

text \<open>A well formed tower above the root passes the checks of its votes.\<close>

lemma check_new_votes_ok:
  assumes "votes_ok (map tower_view ((case prev of None \<Rightarrow> [] | Some p \<Rightarrow> [p]) @ lvs))" "root_below root lvs"
  shows "check_new_votes root prev lvs = None"
  using assms
proof (induction lvs arbitrary: prev)
  case (Cons v vs)
  have ok: "vote_ok (tower_view v)" using Cons.prems(1) by (auto simp: votes_ok_def)
  have "votes_ok (tl (map tower_view (v # vs))) \<and> votes_ok (map tower_view (v # vs))"
    using Cons.prems(1) votes_ok_tl[of "map tower_view (the prev # v # vs)"] votes_ok_tl[of "map tower_view (v # vs)"]
    by (cases prev) simp_all
  hence rest: "check_new_votes root (Some v) vs = None"
    using Cons.IH[of "Some v"] Cons.prems(2) by (simp add: root_below_def split: option.splits)
  have rt: "\<not> (case root of Some r \<Rightarrow> lo_slot (lv_lockout v) \<le> r \<and> r \<noteq> 0 | None \<Rightarrow> False)"
    using Cons.prems(2) by (auto simp: root_below_def split: option.splits)
  show ?case
  proof (cases prev)
    case None thus ?thesis using conf_in_range[OF ok] rt rest by simp
  next
    case (Some p)
    hence two: "votes_ok (tower_view p # tower_view v # map tower_view vs)" using Cons.prems(1) by simp
    hence b: "below (tower_view p) (tower_view v)" and okp: "vote_ok (tower_view p)"
      and st: "unat (lo_slot (lv_lockout v)) \<le> unat (expiration_slot (tower_view p))"
      using unat_expiration[of "tower_view p"] by (simp_all add: votes_ok_def)
    have "\<not> expiration_slot (tower_view p) < lo_slot (lv_lockout v)" using st by (simp add: word_less_nat_alt)
    moreover have "\<not> lo_slot (lv_lockout v) \<le> lo_slot (lv_lockout p)" "\<not> lo_conf (lv_lockout p) \<le> lo_conf (lv_lockout v)"
      using b by (auto simp: below_def conf_less_view)
    ultimately show ?thesis
      using Some conf_in_range[OF ok] rt rest by (simp add: last_locked_out_view[OF okp] Let_def)
  qed
qed simp

definition same_vote :: "fd_landed_vote \<Rightarrow> fd_landed_vote \<Rightarrow> bool" where
  "same_vote cur new \<longleftrightarrow> lo_slot (lv_lockout cur) = lo_slot (lv_lockout new)
     \<and> lo_conf (lv_lockout cur) \<le> lo_conf (lv_lockout new)"

text \<open>Walking over votes that are in both towers keeps the new lockouts.\<close>

lemma merge_votes_same:
  assumes "list_all2 same_vote curs news" "merge_votes curs' news' = Inr res"
  shows "\<exists>kept. merge_votes (curs @ curs') (news @ news') = Inr (kept @ res)
    \<and> map lv_lockout kept = map lv_lockout news"
  using assms(1)
proof (induction rule: list_all2_induct)
  case (Cons c cs n ns)
  then obtain kept where "merge_votes (cs @ curs') (ns @ news') = Inr (kept @ res)"
    "map lv_lockout kept = map lv_lockout ns" by blast
  moreover have "\<not> lo_conf (lv_lockout n) < lo_conf (lv_lockout c)"
    "lo_slot (lv_lockout c) = lo_slot (lv_lockout n)" using Cons.hyps by (auto simp: same_vote_def)
  ultimately show ?case by (intro exI[of _ "n\<lparr>lv_latency := lv_latency c\<rparr> # kept"]) simp
qed (simp add: assms(2))

text \<open>Walking over expired votes drops them.\<close>

lemma merge_votes_expired:
  "\<forall>c \<in> set curs. lo_slot (lv_lockout c) < lo_slot (lv_lockout n) \<and> landed_expiry (lv_lockout c) < lo_slot (lv_lockout n)
    \<Longrightarrow> merge_votes curs [n] = Inr [n]"
  by (induction curs) (auto simp: not_le)

lemma tower_view_fill: "tower_view (fill_latency cur v) = tower_view v"
  by (simp add: tower_view_def)

lemma tower_view_cong: "map lv_lockout xs = map lv_lockout ys \<Longrightarrow> map tower_view xs = map tower_view ys"
proof -
  have "map tower_view zs = map (\<lambda>l. \<lparr> vote_slot = lo_slot l, vote_conf = ucast (lo_conf l) \<rparr>) (map lv_lockout zs)" for zs
    by (simp add: tower_view_def)
  thus "map lv_lockout xs = map lv_lockout ys \<Longrightarrow> map tower_view xs = map tower_view ys" by (simp only:)
qed

lemma rooted_credits_none:
  assumes "root_below root lvs"
  shows "rooted_credits root lvs 0 e = (0, e)"
proof (cases root)
  case (Some r)
  hence "0 < length lvs \<Longrightarrow> \<not> lo_slot (lv_lockout (lvs ! 0)) \<le> r" using assms by (simp add: root_below_def not_le)
  thus ?thesis using Some by (subst Some, subst rooted_credits.simps(2)) auto
qed simp

lemma rooted_credits_one:
  assumes "votes_ok (map tower_view lvs)" "lvs \<noteq> []"
  shows "fst (rooted_credits (Some (lo_slot (lv_lockout (hd lvs)))) lvs 0 e) = 1"
proof -
  have "\<not> (1 < length lvs \<and> lo_slot (lv_lockout (lvs ! 1)) \<le> lo_slot (lv_lockout (hd lvs)))"
  proof
    assume 1: "1 < length lvs \<and> lo_slot (lv_lockout (lvs ! 1)) \<le> lo_slot (lv_lockout (hd lvs))"
    hence "below (tower_view (lvs ! 0)) (tower_view (lvs ! 1))"
      using assms(1) by (auto simp: votes_ok_nth)
    thus False using 1 by (auto simp: below_def hd_conv_nth[OF assms(2)])
  qed
  hence "rooted_credits (Some (lo_slot (lv_lockout (hd lvs)))) lvs 1 e' = (1, e')" for e'
    by (subst rooted_credits.simps(2)) (simp only: if_False)
  thus ?thesis using assms(2)
    by (subst rooted_credits.simps(2)) (simp add: hd_conv_nth)
qed

lemma kept_split:
  assumes "votes_ok (map tower_view lvs)"
  shows "\<exists>kept expired. drop (if simulate_vote (map tower_view lvs) slot = FD_TOWER_VOTE_MAX then 1 else 0) lvs = kept @ expired
    \<and> map tower_view kept = kept_votes (map tower_view lvs) slot
    \<and> (\<forall>v \<in> set expired. expiration_slot (tower_view v) < slot)"
proof -
  let ?c = "simulate_vote (map tower_view lvs) slot"
  have le: "?c \<le> length lvs" using simulate_vote_le[of "map tower_view lvs" slot] by simp
  have "\<forall>v \<in> set (drop ?c lvs). expiration_slot (tower_view v) < slot"
  proof
    fix v assume "v \<in> set (drop ?c lvs)"
    then obtain i where "?c \<le> i" "i < length lvs" "v = lvs ! i"
      by (auto simp: in_set_conv_nth nth_drop intro!: that[of "?c + _"])
    thus "expiration_slot (tower_view v) < slot"
      using simulate_from_expired[of "map tower_view lvs" slot "length lvs" i] by (simp add: simulate_vote_def)
  qed
  moreover have "drop 1 lvs = tl (take ?c lvs) @ drop ?c lvs" if "?c = 31"
  proof -
    have "take ?c lvs \<noteq> []" using that le by auto
    thus ?thesis by (metis append_take_drop_id drop_Suc drop_0 One_nat_def tl_append2)
  qed
  moreover have "map tower_view (tl (take ?c lvs)) = kept_votes (map tower_view lvs) slot" if "?c = 31"
    using that le by (simp add: kept_votes_def FD_TOWER_VOTE_MAX_def map_tl take_map)
  moreover have "map tower_view (take ?c lvs) = kept_votes (map tower_view lvs) slot" if "?c \<noteq> 31"
    using that le by (simp add: kept_votes_def FD_TOWER_VOTE_MAX_def take_map)
  moreover have "drop 0 lvs = take ?c lvs @ drop ?c lvs" by simp
  ultimately show ?thesis unfolding FD_TOWER_VOTE_MAX_def
    by (cases "?c = 31") (simp only: if_True if_False refl simp_thms, blast)+
qed

lemma same_vote_relock:
  assumes "votes_ok (map tower_view kept)" "map tower_view news = relock (map tower_view kept)"
  shows "list_all2 same_vote kept news"
proof (rule list_all2_all_nthI)
  show len: "length kept = length news" using assms(2) by (metis length_map length_relock)
  fix i assume i: "i < length kept"
  have "tower_view (news ! i) = relock (map tower_view kept) ! i"
    using assms(2) i len by (metis nth_map)
  hence "vote_slot (tower_view (news ! i)) = vote_slot (map tower_view kept ! i)"
    "unat (vote_conf (map tower_view kept ! i)) \<le> unat (vote_conf (tower_view (news ! i)))"
    using relock_slot[of i "map tower_view kept"] relock_conf[OF assms(1), of i] i by simp_all
  thus "same_vote (kept ! i) (news ! i)"
    using i by (simp add: same_vote_def word_le_nat_alt unat_ucast_conf)
qed

lemma kept_subset: "set (kept_votes votes slot) \<subseteq> set votes"
proof -
  have "set (tl xs) \<subseteq> set xs" for xs :: "fd_tower_vote list" by (cases xs) auto
  thus ?thesis by (auto simp: kept_votes_def Let_def dest: in_set_takeD)
qed

lemma pushed_slots:
  assumes "votes_ok votes" "votes = [] \<or> vote_slot (last votes) < slot"
    and "push_vote votes slot = Some (root, votes')"
  shows "vote_slot ` set votes' = insert slot (vote_slot ` set (kept_votes votes slot))"
proof -
  have "map vote_slot votes' = map vote_slot (kept_votes votes slot) @ [slot]"
    using push_vote_result[OF assms(1,2)] assms(3) by (simp add: map_slot_relock)
  hence "set (map vote_slot votes') = set (map vote_slot (kept_votes votes slot) @ [slot])" by (rule arg_cong)
  thus ?thesis by simp
qed

lemma rooted_below_kept:
  assumes "votes_ok votes" "votes = [] \<or> vote_slot (last votes) < slot"
    and full: "simulate_vote votes slot = FD_TOWER_VOTE_MAX"
  shows "vote_slot (hd votes) < slot" "\<forall>w \<in> set (kept_votes votes slot). vote_slot (hd votes) < vote_slot w"
proof -
  have len: "length votes = 31" using simulate_vote_le[of votes slot] full assms(1)
    by (simp add: votes_ok_def FD_TOWER_VOTE_MAX_def)
  hence k: "kept_votes votes slot = tl votes" using full by (simp add: kept_votes_def FD_TOWER_VOTE_MAX_def)
  obtain a as where a: "votes = a # as" using len by (cases votes) auto
  have b: "\<forall>w \<in> set as. below a w" using assms(1) by (simp add: votes_ok_def a)
  thus "\<forall>w \<in> set (kept_votes votes slot). vote_slot (hd votes) < vote_slot w"
    unfolding k by (simp add: below_def a)
  have "as \<noteq> []" using len a by auto
  thus "vote_slot (hd votes) < slot"
    using b assms(2) last_in_set[of as] unfolding a by (auto simp: below_def intro: less_trans)
qed

text \<open>
  All checks but that of the timestamp pass; a timestamp is checked against the state with the earned
  credits, at the slot of the new vote.
\<close>

lemma landing_accepted:
  assumes ok: "votes_ok (map tower_view (vs_votes self))"
    and newer: "vs_votes self = [] \<or> lo_slot (lv_lockout (last (vs_votes self))) < slot" "unat slot < 2 ^ 63"
    and push: "push_vote (map tower_view (vs_votes self)) slot = Some (root, votes')"
    and old: "root_below (vs_root_slot self) (vs_votes self)" "\<forall>r. vs_root_slot self = Some r \<longrightarrow> r < slot"
    and new: "map tower_view new_state = votes'"
    and new_root: "new_root = (if simulate_vote (map tower_view (vs_votes self)) slot = FD_TOWER_VOTE_MAX
                               then Some root else vs_root_slot self)"
  shows "\<exists>credited votes. map tower_view votes = votes' \<and> vs_last_timestamp credited = vs_last_timestamp self
    \<and> (\<forall>timestamp. process_new_vote_state self new_state new_root timestamp epoch cur
         = map_sum id (\<lambda>vs. vs\<lparr>vs_root_slot := new_root, vs_votes := votes\<rparr>)
             (case timestamp of Some ts \<Rightarrow> fd_vsv_process_timestamp credited slot ts | None \<Rightarrow> Inr credited))"
proof -
  let ?lvs = "vs_votes self"
  let ?vs = "map tower_view ?lvs"
  let ?full = "simulate_vote ?vs slot = FD_TOWER_VOTE_MAX"
  have newer': "?vs = [] \<or> vote_slot (last ?vs) < slot"
    using newer(1) by (cases "?lvs = []") (simp_all add: last_map)
  note res = push_vote_result[OF ok newer', unfolded push, simplified]
  have ok': "votes_ok (map tower_view new_state)"
    using votes_ok_push[OF ok newer' newer(2) push] new by simp
  have ne: "new_state \<noteq> []" using res new by auto
  have len: "\<not> MAX_LOCKOUT_HISTORY < length new_state"
    using ok' by (simp add: votes_ok_def FD_TOWER_VOTE_MAX_def MAX_LOCKOUT_HISTORY_def)
  have fullne: "?full \<Longrightarrow> ?lvs \<noteq> []" using simulate_vote_le[of ?vs slot] by (auto simp: FD_TOWER_VOTE_MAX_def)
  have hd: "?full \<Longrightarrow> root = lo_slot (lv_lockout (hd ?lvs))" using res fullne by (simp add: hd_map)
  have r1: "check_root_advances (vs_root_slot self) new_root = None"
    using old(1) fullne hd new_root
    by (auto simp: check_root_advances_def root_below_def split: option.splits
        dest!: bspec[OF _ hd_in_set] dest: less_asym)
  have slots: "(\<lambda>lv. lo_slot (lv_lockout lv)) ` set new_state = insert slot (vote_slot ` set (kept_votes ?vs slot))"
    using pushed_slots[OF ok newer' push] unfolding new[symmetric] by (simp add: image_image)
  have above: "root_below new_root new_state"
  proof (cases ?full)
    case True
    have "\<forall>s \<in> insert slot (vote_slot ` set (kept_votes ?vs slot)). root < s"
      using rooted_below_kept[OF ok newer' True] hd[OF True] fullne[OF True] by (simp add: hd_map)
    thus ?thesis unfolding slots[symmetric] using True new_root by (simp add: root_below_def)
  next
    case False
    have "\<forall>s \<in> insert slot (vote_slot ` set (kept_votes ?vs slot)). r < s" if "vs_root_slot self = Some r" for r
      using old that kept_subset[of ?vs slot] by (fastforce simp: root_below_def)
    thus ?thesis unfolding slots[symmetric] using False new_root by (auto simp: root_below_def split: option.splits)
  qed
  have r2: "check_new_votes new_root None new_state = None"
    using check_new_votes_ok[of None new_state new_root] ok' above by simp
  have r3: "fst (rooted_credits new_root ?lvs 0 0) = (if ?full then 1 else 0)"
    using rooted_credits_one[OF ok, of 0] rooted_credits_none[OF old(1), of 0] fullne hd new_root by auto
  obtain kept expired where ke: "drop (if ?full then 1 else 0) ?lvs = kept @ expired"
      "map tower_view kept = kept_votes ?vs slot" "\<forall>v \<in> set expired. expiration_slot (tower_view v) < slot"
    using kept_split[OF ok] by blast
  obtain news n where n: "new_state = news @ [n]" "map tower_view news = relock (map tower_view kept)"
      "tower_view n = \<lparr> vote_slot = slot, vote_conf = 1 \<rparr>"
    using res new ke(2) by (metis append_butlast_last_id butlast_snoc last_map last_snoc map_butlast ne)
  have ns: "lo_slot (lv_lockout n) = slot" using n(3) by (simp add: tower_view_def)
  have okk: "votes_ok (map tower_view kept)" unfolding ke(2) by (rule votes_ok_kept[OF ok])
  have ex: "set expired \<subseteq> set ?lvs" using ke(1) by (metis Un_iff set_append set_drop_subset subsetD subsetI)
  have "merge_votes expired [n] = Inr [n]"
  proof (rule merge_votes_expired, rule ballI)
    fix c assume c: "c \<in> set expired"
    hence okc: "vote_ok (tower_view c)" using ok ex by (auto simp: votes_ok_def)
    have "vote_slot (tower_view c) \<le> expiration_slot (tower_view c)"
      using unat_expiration[OF okc] by (simp add: word_le_nat_alt)
    thus "lo_slot (lv_lockout c) < lo_slot (lv_lockout n) \<and> landed_expiry (lv_lockout c) < lo_slot (lv_lockout n)"
      using ke(3) c by (auto simp: ns landed_expiry_view[OF okc])
  qed
  from merge_votes_same[OF same_vote_relock[OF okk n(2)] this]
  obtain ks where m: "merge_votes (kept @ expired) new_state = Inr (ks @ [n])" "map lv_lockout ks = map lv_lockout news"
    unfolding n(1) by blast
  have v: "map tower_view (map (fill_latency cur) (ks @ [n])) = votes'"
    using tower_view_cong[OF m(2)] new n(1) by (simp add: comp_def tower_view_fill)
  obtain i e where rc: "rooted_credits new_root ?lvs 0 0 = (i, e)" by (cases "rooted_credits new_root ?lvs 0 0")
  hence d: "drop i ?lvs = kept @ expired" using r3 ke(1) by simp
  let ?credited = "if vs_root_slot self \<noteq> new_root then fd_vsv_increment_credits self epoch e else self"
  let ?votes = "map (fill_latency cur) (ks @ [n])"
  have "lo_slot (lv_lockout (last ?votes)) = slot" by (simp add: ns)
  hence "process_new_vote_state self new_state new_root timestamp epoch cur
      = map_sum id (\<lambda>vs. vs\<lparr>vs_root_slot := new_root, vs_votes := ?votes\<rparr>)
          (case timestamp of Some ts \<Rightarrow> fd_vsv_process_timestamp ?credited slot ts | None \<Rightarrow> Inr ?credited)" for timestamp
    using ne len r1 r2 m(1) d
    by (simp add: process_new_vote_state_def Let_def rc split: option.split sum.split)
  moreover have "vs_last_timestamp ?credited = vs_last_timestamp self"
    by (simp add: fd_vsv_increment_credits_def)
  ultimately show ?thesis using v by blast
qed

end
