(* ===== verification/Vote_Safe.thy ===== *)
theory Vote_Safe
  imports Vote_State
begin

text \<open>
  What the vote program guarantees about any proposed tower, whoever built it: the checks read and
  write inside their arrays, the binary search finds a voted slot, and a tower that is accepted is well formed
  and breaks no lockout of the tower it replaces.
\<close>

abbreviation (input) "lslot lv \<equiv> lo_slot (lv_lockout lv)"
abbreviation (input) "lconf lv \<equiv> lo_conf (lv_lockout lv)"

section \<open>The binary search\<close>

lemma contains_slot_from_total:
  assumes "1 \<le> sz" "base + sz \<le> length votes"
  shows "\<exists>r. contains_slot_from votes slot base sz = Inr r \<and> r < length votes"
  using assms
proof (induction sz arbitrary: base rule: less_induct)
  case (less sz)
  show ?case
  proof (cases "1 < sz")
    case True
    let ?h = "sz div 2"
    have h: "0 < ?h" "?h < sz" "base + ?h < length votes" using True less.prems(2) by auto
    thus ?thesis
      using less.IH[of "sz - ?h" base] less.IH[of "sz - ?h" "base + ?h"] less.prems True
      by (subst contains_slot_from.simps) (simp add: Let_def)
  qed (use less.prems in \<open>subst contains_slot_from.simps, simp\<close>)
qed

lemma contains_slot_total: "\<exists>b. fd_vote_contains_slot votes slot = Inr b"
  using contains_slot_from_total[of "length votes" 0 votes slot]
  by (cases votes) (auto simp: fd_vote_contains_slot_def Suc_le_eq)

lemma contains_slot_from_bounds:
  assumes "sorted_wrt (\<lambda>v w. lslot v < lslot w) votes" "1 \<le> sz" "base + sz \<le> length votes"
    and "base = 0 \<or> lslot (votes ! base) \<le> slot" "\<forall>j. base + sz \<le> j \<and> j < length votes \<longrightarrow> slot < lslot (votes ! j)"
  shows "\<exists>r. contains_slot_from votes slot base sz = Inr r \<and> r < length votes
    \<and> (r = 0 \<or> lslot (votes ! r) \<le> slot) \<and> (\<forall>j. r < j \<and> j < length votes \<longrightarrow> slot < lslot (votes ! j))"
  using assms(2-5)
proof (induction sz arbitrary: base rule: less_induct)
  case (less sz)
  show ?case
  proof (cases "1 < sz")
    case False
    hence "sz = 1" using less.prems(1) by simp
    thus ?thesis using less.prems by (subst contains_slot_from.simps) (auto simp: Suc_le_eq)
  next
    case True
    let ?h = "sz div 2" and ?m = "base + sz div 2"
    have h: "0 < ?h" "?h < sz" "?m < length votes" using True less.prems(2) by auto
    show ?thesis
    proof (cases "slot < lslot (votes ! ?m)")
      case above: True
      have "slot < lslot (votes ! j)" if "base + (sz - ?h) \<le> j" "j < length votes" for j
      proof (cases "?m < j")
        case True
        thus ?thesis using sorted_wrt_nth_less[OF assms(1) True that(2)] above by simp
      next
        case False
        hence "j = ?m" using that by linarith
        thus ?thesis using above by simp
      qed
      moreover have "contains_slot_from votes slot base sz = contains_slot_from votes slot base (sz - ?h)"
        using True above h(3) by (subst contains_slot_from.simps) (simp add: Let_def)
      ultimately show ?thesis using less.IH[of "sz - ?h" base] less.prems h True by simp
    next
      case False
      have "contains_slot_from votes slot base sz = contains_slot_from votes slot ?m (sz - ?h)"
        using True False h(3) by (subst contains_slot_from.simps) (simp add: Let_def)
      thus ?thesis using less.IH[of "sz - ?h" ?m] less.prems h True False by (simp add: not_less)
    qed
  qed
qed

lemma contains_slot_iff:
  assumes "sorted_wrt (\<lambda>v w. lslot v < lslot w) votes"
  shows "fd_vote_contains_slot votes slot = Inr (slot \<in> lslot ` set votes)"
proof (cases "votes = []")
  case False
  have past: "\<forall>j. 0 + length votes \<le> j \<and> j < length votes \<longrightarrow> slot < lslot (votes ! j)" by auto
  obtain r where s: "contains_slot_from votes slot 0 (length votes) = Inr r" and r: "r < length votes"
      "\<forall>j. r < j \<and> j < length votes \<longrightarrow> slot < lslot (votes ! j)" "r = 0 \<or> lslot (votes ! r) \<le> slot"
    using contains_slot_from_bounds[OF assms _ _ _ past] False by (auto simp: Suc_le_eq)
  have "lslot (votes ! r) = slot" if j: "j < length votes" "lslot (votes ! j) = slot" for j
  proof -
    have "\<not> r < j" using r(2) j by blast
    moreover have "\<not> j < r"
      using sorted_wrt_nth_less[OF assms, of j r] r(1,3) j(2) by fastforce
    ultimately show ?thesis using j(2) by (metis linorder_neqE_nat)
  qed
  hence "slot \<in> lslot ` set votes \<longrightarrow> lslot (votes ! r) = slot" by (auto simp: in_set_conv_nth)
  moreover have "lslot (votes ! r) \<in> lslot ` set votes" using r(1) by simp
  ultimately show ?thesis using False s r(1) by (auto simp: fd_vote_contains_slot_def)
qed (simp add: fd_vote_contains_slot_def)

section \<open>The scan of the slot hashes stays in bounds\<close>

definition scan_inv :: "fd_vote_lockout list \<Rightarrow> fd_slot_hashes \<Rightarrow> u64 \<Rightarrow> nat \<Rightarrow> nat \<Rightarrow> nat list \<Rightarrow> bool" where
  "scan_inv lockouts sh earliest idx n filter_idxs \<longleftrightarrow>
     idx \<le> length lockouts \<and> n \<le> length sh
     \<and> (n = length sh \<longrightarrow> idx < length lockouts \<and> 0 < n \<and> fst (sh ! (n - 1)) = earliest)
     \<and> (\<forall>i \<in> set filter_idxs. i < idx \<and> Suc i < length lockouts) \<and> sorted_wrt (>) filter_idxs"

lemma scan_inv_newer:
  assumes "scan_inv lockouts sh e idx n f" "0 < n" "idx < length lockouts"
  shows "scan_inv lockouts sh e idx (n - 1) f" "scan_inv lockouts sh e (idx + 1) (n - 1) f"
  using assms by (auto simp: scan_inv_def)

lemma scan_inv_skip:
  assumes "scan_inv lockouts sh e idx n f" "idx < length lockouts"
    and "lo_slot (lockouts ! idx) < e" "e \<le> lo_slot (last lockouts)"
  shows "scan_inv lockouts sh e (idx + 1) n f" "scan_inv lockouts sh e (idx + 1) n (idx # f)"
proof -
  have "lockouts \<noteq> []" using assms(2) by auto
  hence "idx \<noteq> length lockouts - 1" using assms(3,4) by (auto simp: last_conv_nth)
  thus "scan_inv lockouts sh e (idx + 1) n f" "scan_inv lockouts sh e (idx + 1) n (idx # f)"
    using assms(1,2) by (auto simp: scan_inv_def)
qed

text \<open>The filtered indexes fall, so there are no more of them than lockouts passed.\<close>

lemma scan_inv_room:
  assumes "scan_inv lockouts sh e idx n f"
  shows "length f \<le> idx"
proof -
  have "sorted_wrt (>) g \<Longrightarrow> distinct g" for g :: "nat list" by (induction g) auto
  hence "distinct f" using assms by (simp add: scan_inv_def)
  moreover have "set f \<subseteq> {..<idx}" using assms by (auto simp: scan_inv_def)
  hence "card (set f) \<le> card {..<idx}" by (intro card_mono) simp_all
  ultimately show ?thesis by (simp add: distinct_card)
qed

text \<open>One round of the scan, by the next root to check.\<close>

lemma scan_proposed_end:
  "\<not> (idx < length lockouts \<and> 0 < n)
    \<Longrightarrow> scan_proposed vs lockouts sh e root idx n f = Inr (idx, n, f)"
  by (subst scan_proposed.simps) (simp only: if_False)

lemma scan_read_in:
  assumes "idx < length lockouts" "0 < n" "n \<le> length sh"
  shows "scan_read lockouts sh (Some r) idx n = Inr (r, n - 1, fst (sh ! (n - 1)))"
    "scan_read lockouts sh None idx n =
      (if 0 < idx \<and> lo_slot (lockouts ! idx) \<le> lo_slot (lockouts ! (idx - 1)) then Inl SLOTS_NOT_ORDERED
       else Inr (lo_slot (lockouts ! idx), n - 1, fst (sh ! (n - 1))))"
  using assms by (auto simp: scan_read_def scan_order_def Let_def)

lemma scan_filter_root: "scan_filter vs (Some r) slot idx f = Inr f"
  using contains_slot_total[of "vs_votes vs" slot] by (auto simp: scan_filter_def)

lemma scan_filter_vote:
  "(\<exists>f'. scan_filter vs None slot idx f = Inr f' \<and> (f' = f \<or> f' = idx # f))
   \<or> scan_filter vs None slot idx f = Inl Out_of_bounds \<and> FD_VOTE_INSTR_MAX_LOCKOUT_OFFSETS_LEN \<le> length f"
  using contains_slot_total[of "vs_votes vs" slot] by (auto simp: scan_filter_def split: if_splits)

definition scan_post ::
    "fd_vote_lockout list \<Rightarrow> fd_slot_hashes \<Rightarrow> u64 \<Rightarrow> vote_error + nat \<times> nat \<times> nat list \<Rightarrow> bool" where
  "scan_post lockouts sh e res \<longleftrightarrow>
     (case res of Inl err \<Rightarrow> (\<exists>n. err = Custom n)
                             \<or> FD_VOTE_INSTR_MAX_LOCKOUT_OFFSETS_LEN < length lockouts
                | Inr (idx, n, f) \<Rightarrow> scan_inv lockouts sh e idx n f)"

lemma scan_post_if: "(b \<Longrightarrow> scan_post l c e x) \<Longrightarrow> (\<not> b \<Longrightarrow> scan_post l c e y) \<Longrightarrow> scan_post l c e (if b then x else y)"
  by simp

lemma scan_post_custom: "scan_post l c e (Inl (Custom n))"
  by (simp add: scan_post_def)

lemma scan_proposed_post:
  assumes "scan_inv lockouts sh e idx n f" "e \<le> lo_slot (last lockouts)"
  shows "scan_post lockouts sh e (scan_proposed vs lockouts sh e root idx n f)"
  using assms(1)
proof (induction "(if root = None then 0 else 1) + (length lockouts - idx) + n"
    arbitrary: root idx n f rule: less_induct)
  case less
  note IH = less(1) and inv = less(2)
  show ?case
  proof (cases "idx < length lockouts \<and> 0 < n")
    case False
    thus ?thesis using inv by (subst scan_proposed_end[OF False]) (auto simp: scan_post_def)
  next
    case True
    hence n: "n \<le> length sh" using inv by (simp add: scan_inv_def)
    have older: "scan_post lockouts sh e (scan_proposed vs lockouts sh e root idx (n - 1) f)"
      by (rule IH) (use True scan_inv_newer(1)[OF inv] in auto)
    show ?thesis
    proof (cases root)
      case (Some r)
      have "scan_post lockouts sh e (scan_proposed vs lockouts sh e None idx n f)"
        by (rule IH) (use Some inv in auto)
      thus ?thesis using older True unfolding Some
        by (subst scan_proposed.simps)
           (auto simp: scan_read_in(1) n scan_filter_root intro!: scan_post_if scan_post_custom)
    next
      case None
      let ?s = "lo_slot (lockouts ! idx)"
      have found: "scan_post lockouts sh e (scan_proposed vs lockouts sh e None (idx + 1) (n - 1) f)"
        by (rule IH) (use None True scan_inv_newer(2)[OF inv] in auto)
      have next_inv: "scan_inv lockouts sh e (idx + 1) n f'" if "\<not> e \<le> ?s" "f' = f \<or> f' = idx # f" for f'
        using scan_inv_skip[OF inv _ _ assms(2)] True that by (auto simp: not_le)
      have skip: "scan_post lockouts sh e (bind_ok (scan_filter vs None ?s idx f)
          (scan_proposed vs lockouts sh e None (idx + 1) n))" if s: "\<not> e \<le> ?s"
      proof (cases "scan_filter vs None ?s idx f")
        case (Inl err)
        thus ?thesis
          using scan_filter_vote[of vs ?s idx f] scan_inv_room[OF inv] True by (auto simp: scan_post_def)
      next
        case (Inr f')
        hence "scan_inv lockouts sh e (idx + 1) n f'"
          using scan_filter_vote[of vs ?s idx f] by (intro next_inv[OF s]) simp
        thus ?thesis unfolding Inr bind_ok_simps by (intro IH) (use None True in auto)
      qed
      show ?thesis using older True found skip unfolding None
        by (subst scan_proposed.simps)
           (auto simp: scan_read_in(2) n intro!: scan_post_if scan_post_custom)
    qed
  qed
qed

lemma pop_filtered_ok:
  "sorted_wrt (>) is \<Longrightarrow> \<forall>i \<in> set is. Suc i < length lockouts
    \<Longrightarrow> lockouts \<noteq> [] \<Longrightarrow> \<exists>ls. pop_filtered is lockouts = Inr ls \<and> ls \<noteq> [] \<and> last ls = last lockouts"
proof (induction "is" arbitrary: lockouts)
  case (Cons i js)
  let ?ls = "take i lockouts @ drop (Suc i) lockouts"
  have i: "Suc i < length lockouts" using Cons.prems(2) by simp
  hence ne: "?ls \<noteq> []" and la: "last ?ls = last lockouts" by (simp_all add: last_drop)
  have "\<forall>j \<in> set js. Suc j < length ?ls"
  proof
    fix j assume "j \<in> set js"
    hence "j < i" using Cons.prems(1) by simp
    thus "Suc j < length ?ls" using i by simp
  qed
  thus ?case using Cons.IH[of ?ls] Cons.prems ne la i by auto
qed simp

text \<open>The checks before the scan, and what they leave to it.\<close>

lemma check_and_filter_cases:
  obtains n where "check_and_filter_proposed_vote_state vs lockouts root hash sh = Inl (Custom n)"
  | err where "check_and_filter_proposed_vote_state vs lockouts root hash sh = Inl err"
      "FD_VOTE_INSTR_MAX_LOCKOUT_OFFSETS_LEN < length lockouts"
  | ls root' where "check_and_filter_proposed_vote_state vs lockouts root hash sh = Inr (ls, root')"
      "ls \<noteq> []" "last ls = last lockouts"
      "vs_votes vs \<noteq> [] \<longrightarrow> lslot (last (vs_votes vs)) < lo_slot (last lockouts)"
proof (cases "lockouts = [] \<or> sh = [] \<or> lo_slot (last lockouts) < fst (last sh)
     \<or> (vs_votes vs \<noteq> [] \<and> lo_slot (last lockouts) \<le> lslot (last (vs_votes vs)))")
  case True
  hence "\<exists>n. check_and_filter_proposed_vote_state vs lockouts root hash sh = Inl (Custom n)"
    by (auto simp: check_and_filter_proposed_vote_state_def last_conv_nth Let_def)
  thus thesis using that(1) by blast
next
  case False
  define e where "e = fst (last sh)"
  define scan where "scan = scan_proposed vs lockouts sh e (filter_proposed_root vs root e) 0 (length sh) []"
  have e: "fst (sh ! (length sh - 1)) = e" using False by (simp add: e_def last_conv_nth)
  have inv: "scan_inv lockouts sh e 0 (length sh) []"
    using False e by (auto simp: scan_inv_def)
  have le: "e \<le> lo_slot (last lockouts)" using False by (auto simp: e_def)
  have post: "scan_post lockouts sh e scan"
    unfolding scan_def by (rule scan_proposed_post[OF inv le])
  have newer: "vs_votes vs \<noteq> [] \<longrightarrow> lslot (last (vs_votes vs)) < lo_slot (last lockouts)"
    using False by auto
  have run: "check_and_filter_proposed_vote_state vs lockouts root hash sh
    = bind_ok scan (\<lambda>(idx, i, f).
        if idx \<noteq> length lockouts then Inl SLOTS_MISMATCH
        else bind_ok (peek_index sh i) (\<lambda>h.
             if snd h \<noteq> hash then Inl SLOTS_HASH_MISMATCH
             else bind_ok (pop_filtered f lockouts)
                    (\<lambda>lockouts. Inr (lockouts, filter_proposed_root vs root e))))"
    using False e newer le
    by (auto simp: check_and_filter_proposed_vote_state_def Let_def scan_def not_le not_less)
  show thesis
  proof (cases scan)
    case (Inl err)
    hence "(\<exists>n. err = Custom n) \<or> FD_VOTE_INSTR_MAX_LOCKOUT_OFFSETS_LEN < length lockouts"
      using post by (simp add: scan_post_def)
    thus thesis using that(1,2) run Inl by auto
  next
    case (Inr r)
    obtain idx i f where r: "r = (idx, i, f)" by (cases r) auto
    hence si: "scan_inv lockouts sh e idx i f" using post Inr by (simp add: scan_post_def)
    show thesis
    proof (cases "idx = length lockouts")
      case True
      hence i: "i < length sh" using si by (auto simp: scan_inv_def)
      obtain ls where ls: "pop_filtered f lockouts = Inr ls" "ls \<noteq> []" "last ls = last lockouts"
        using pop_filtered_ok[of f lockouts] si False by (auto simp: scan_inv_def)
      show thesis
        by (cases "snd (sh ! i) = hash")
           (use that run Inr r True i ls newer in \<open>auto simp: \<close>)
    qed (use that(1) run Inr r in simp)
  qed
qed

lemma check_and_filter_in_bounds:
  assumes "length lockouts \<le> FD_VOTE_INSTR_MAX_LOCKOUT_OFFSETS_LEN"
    and "check_and_filter_proposed_vote_state vs lockouts root hash slot_hashes = Inl err"
  shows "\<exists>n. err = Custom n"
  by (rule check_and_filter_cases[of vs lockouts root hash slot_hashes]) (use assms in auto)

lemma check_and_filter_last:
  assumes "check_and_filter_proposed_vote_state vs lockouts root hash slot_hashes = Inr (ls, root')"
  shows "ls \<noteq> [] \<and> (vs_votes vs \<noteq> [] \<longrightarrow> lslot (last (vs_votes vs)) < lo_slot (last ls))"
  by (rule check_and_filter_cases[of vs lockouts root hash slot_hashes]) (use assms in auto)

section \<open>An accepted tower is well formed\<close>

definition landed_below :: "fd_landed_vote \<Rightarrow> fd_landed_vote \<Rightarrow> bool" where
  "landed_below v w \<longleftrightarrow> lslot v < lslot w \<and> lconf w < lconf v"

definition landed_ok :: "fd_landed_vote list \<Rightarrow> bool" where
  "landed_ok votes \<longleftrightarrow> votes \<noteq> [] \<and> length votes \<le> MAX_LOCKOUT_HISTORY
     \<and> (\<forall>v \<in> set votes. 1 \<le> lconf v \<and> lconf v \<le> 31)
     \<and> sorted_wrt landed_below votes
     \<and> successively (\<lambda>v w. lslot w \<le> fd_vote_lockout_last_locked_out_slot (lv_lockout v)) votes"

lemma transp_landed_below: "transp landed_below"
  by (rule transpI) (auto simp: landed_below_def)

lemma check_new_votes_wf:
  assumes "check_new_votes root prev votes = None"
  shows "(\<forall>v \<in> set votes. 1 \<le> lconf v \<and> lconf v \<le> 31)
    \<and> successively landed_below ((case prev of None \<Rightarrow> [] | Some p \<Rightarrow> [p]) @ votes)
    \<and> successively (\<lambda>v w. lslot w \<le> fd_vote_lockout_last_locked_out_slot (lv_lockout v))
        ((case prev of None \<Rightarrow> [] | Some p \<Rightarrow> [p]) @ votes)"
  using assms
proof (induction votes arbitrary: prev)
  case (Cons v vs)
  have conf: "1 \<le> lconf v \<and> lconf v \<le> 31"
    using Cons.prems by (auto simp: Let_def word_le_nat_alt word_less_nat_alt unat_eq_0[symmetric] Suc_le_eq
        simp del: unat_eq_0 split: if_splits)
  have rest: "check_new_votes root (Some v) vs = None"
    using Cons.prems by (auto simp: Let_def split: if_splits option.splits)
  have "\<forall>p. prev = Some p \<longrightarrow> landed_below p v \<and> lslot v \<le> fd_vote_lockout_last_locked_out_slot (lv_lockout p)"
    using Cons.prems by (auto simp: Let_def landed_below_def not_le not_less split: if_splits)
  thus ?case using Cons.IH[OF rest] conf by (cases prev) auto
qed (auto split: option.splits)

section \<open>An accepted tower breaks no lockout\<close>

text \<open>
  An old vote is in the new tower with at least its confirmations, or every newer slot of the new
  tower lies beyond its lockout.
\<close>

definition respected :: "fd_landed_vote list \<Rightarrow> fd_landed_vote \<Rightarrow> bool" where
  "respected news c \<longleftrightarrow> (\<exists>n \<in> set news. lslot n = lslot c \<and> lconf c \<le> lconf n)
     \<or> (\<forall>n \<in> set news. lslot c < lslot n \<longrightarrow> landed_expiry (lv_lockout c) < lslot n)"

lemma respected_skip: "respected news c \<Longrightarrow> lslot n \<le> lslot c \<Longrightarrow> respected (n # news) c"
  by (auto simp: respected_def)

lemma merge_votes_respects:
  assumes "merge_votes curs news = Inr res" "sorted_wrt (\<lambda>v w. lslot v < lslot w) curs"
    "sorted_wrt (\<lambda>v w. lslot v < lslot w) news"
  shows "map lv_lockout res = map lv_lockout news \<and> (\<forall>c \<in> set curs. respected news c)"
  using assms
proof (induction curs news arbitrary: res rule: merge_votes.induct)
  case (1 cur curs new news)
  consider "lslot cur < lslot new" | "lslot cur = lslot new" | "lslot new < lslot cur"
    using less_linear by blast
  thus ?case
  proof cases
    case 1
    hence m: "\<not> lslot new \<le> landed_expiry (lv_lockout cur)" "merge_votes curs (new # news) = Inr res"
      using "1.prems"(1) by (auto split: if_splits)
    have "respected (new # news) cur"
      using m(1) "1.prems"(3) by (auto simp: respected_def not_le intro: less_trans)
    thus ?thesis using "1.IH"(1)[OF 1 m] "1.prems"(2,3) by simp
  next
    case 2
    then obtain r where m: "\<not> lconf new < lconf cur" "merge_votes curs news = Inr r"
        "res = new\<lparr>lv_latency := lv_latency cur\<rparr> # r"
      using "1.prems"(1) by (cases "merge_votes curs news") (auto split: if_splits)
    have IH: "map lv_lockout r = map lv_lockout news" "\<forall>c \<in> set curs. respected news c"
      using "1.IH"(2)[of r] 2 m(1,2) "1.prems"(2,3) by auto
    have "respected (new # news) cur" using 2 m(1) by (auto simp: respected_def not_less)
    moreover have "\<forall>c \<in> set curs. lslot new \<le> lslot c" using "1.prems"(2) 2 by (auto intro: less_imp_le)
    ultimately show ?thesis using IH m(3) respected_skip by simp
  next
    case 3
    then obtain r where m: "merge_votes (cur # curs) news = Inr r" "res = new # r"
      using "1.prems"(1) by (cases "merge_votes (cur # curs) news") (auto split: if_splits)
    have IH: "map lv_lockout r = map lv_lockout news" "\<forall>c \<in> set (cur # curs). respected news c"
      using "1.IH"(3)[of r] 3 m(1) "1.prems"(2,3) by auto
    have "\<forall>c \<in> set (cur # curs). lslot new \<le> lslot c"
      using "1.prems"(2) 3 by (auto intro: less_imp_le less_trans)
    thus ?thesis using IH m(2) respected_skip by simp
  qed
qed (auto simp: respected_def)

lemma rooted_credits_index:
  "fst (rooted_credits root votes i e) = j
    \<Longrightarrow> \<forall>k. i \<le> k \<and> k < j \<longrightarrow> (\<exists>r. root = Some r \<and> lslot (votes ! k) \<le> r)"
proof (induction root votes i e arbitrary: j rule: rooted_credits.induct)
  case (2 root votes index earned)
  show ?case
  proof (cases "index < length votes \<and> lslot (votes ! index) \<le> root")
    case True
    hence "fst (rooted_credits (Some root) votes (index + 1)
             (fd_vote_credits_for_vote_at_index votes index + earned)) = j"
      using "2.prems" by (subst (asm) rooted_credits.simps(2)) (simp only: if_True simp_thms)
    note IH = "2.IH"[OF True this]
    show ?thesis
    proof (intro allI impI)
      fix k assume "index \<le> k \<and> k < j"
      thus "\<exists>r. Some root = Some r \<and> lslot (votes ! k) \<le> r"
        using IH True by (cases "k = index") auto
    qed
  next
    case False
    hence "index = j" using "2.prems" by (subst (asm) rooted_credits.simps(2)) auto
    thus ?thesis by auto
  qed
qed simp

text \<open>Both well-formedness and respect only look at the lockouts.\<close>

lemma landed_ok_cong:
  assumes "map lv_lockout xs = map lv_lockout ys" "landed_ok xs"
  shows "landed_ok ys"
proof -
  have sw: "sorted_wrt landed_below zs \<longleftrightarrow>
      sorted_wrt (\<lambda>a b. lo_slot a < lo_slot b \<and> lo_conf b < lo_conf a) (map lv_lockout zs)" for zs
    by (simp add: sorted_wrt_map landed_below_def[abs_def])
  have su: "successively (\<lambda>v w. lslot w \<le> fd_vote_lockout_last_locked_out_slot (lv_lockout v)) zs \<longleftrightarrow>
      successively (\<lambda>a b. lo_slot b \<le> fd_vote_lockout_last_locked_out_slot a) (map lv_lockout zs)" for zs
    by (simp add: successively_map)
  have st: "(\<forall>v \<in> set zs. 1 \<le> lconf v \<and> lconf v \<le> 31) \<longleftrightarrow>
      (\<forall>a \<in> set (map lv_lockout zs). 1 \<le> lo_conf a \<and> lo_conf a \<le> 31)" for zs by simp
  have le: "length xs = length ys" "xs = [] \<longleftrightarrow> ys = []"
    using assms(1) map_eq_imp_length_eq by (blast, auto)
  show ?thesis using assms(2) unfolding landed_ok_def sw su st assms(1) le .
qed

lemma respected_cong:
  assumes "map lv_lockout xs = map lv_lockout ys"
  shows "respected xs c = respected ys c"
proof -
  have "respected zs c \<longleftrightarrow> (\<exists>a \<in> set (map lv_lockout zs). lo_slot a = lslot c \<and> lconf c \<le> lo_conf a)
     \<or> (\<forall>a \<in> set (map lv_lockout zs). lslot c < lo_slot a \<longrightarrow> landed_expiry (lv_lockout c) < lo_slot a)" for zs
    by (simp add: respected_def)
  thus ?thesis using assms by (simp only:)
qed

lemma process_new_vote_state_respects:
  assumes sorted: "sorted_wrt (\<lambda>v w. lslot v < lslot w) (vs_votes vs)"
    and run: "process_new_vote_state vs news root timestamp epoch cur = Inr vs'"
  shows "landed_ok (vs_votes vs') \<and> map lv_lockout (vs_votes vs') = map lv_lockout news
    \<and> vs_root_slot vs' = root \<and> check_root_advances (vs_root_slot vs) root = None
    \<and> (\<forall>c \<in> set (vs_votes vs). (\<exists>r. root = Some r \<and> lslot c \<le> r) \<or> respected (vs_votes vs') c)"
proof -
  obtain index earned where rc: "rooted_credits root (vs_votes vs) 0 0 = (index, earned)"
    by (cases "rooted_credits root (vs_votes vs) 0 0")
  have c: "news \<noteq> []" "length news \<le> MAX_LOCKOUT_HISTORY" "check_root_advances (vs_root_slot vs) root = None"
      "check_new_votes root None news = None"
    using run by (auto simp: process_new_vote_state_def Let_def split: if_splits option.splits)
  obtain merged where m: "merge_votes (drop index (vs_votes vs)) news = Inr merged"
      and v: "vs_votes vs' = map (fill_latency cur) merged" "vs_root_slot vs' = root"
    using run c rc by (auto simp: process_new_vote_state_def Let_def split: sum.splits if_splits)
  have w: "(\<forall>v \<in> set news. 1 \<le> lconf v \<and> lconf v \<le> 31)" "sorted_wrt landed_below news"
      "successively (\<lambda>v w. lslot w \<le> fd_vote_lockout_last_locked_out_slot (lv_lockout v)) news"
    using check_new_votes_wf[OF c(4)] by (simp_all add: successively_conv_sorted_wrt[OF transp_landed_below])
  have sn: "sorted_wrt (\<lambda>v w. lslot v < lslot w) news"
    by (rule sorted_wrt_mono_rel[OF _ w(2)]) (simp add: landed_below_def)
  note mr = merge_votes_respects[OF m sorted_wrt_drop[OF sorted] sn]
  have same: "map lv_lockout (vs_votes vs') = map lv_lockout news" using mr v(1) by (simp add: comp_def)
  have "landed_ok news" using c w by (simp add: landed_ok_def)
  hence ok: "landed_ok (vs_votes vs')" by (rule landed_ok_cong[OF same[symmetric]])
  have "(\<exists>r. root = Some r \<and> lslot c \<le> r) \<or> respected (vs_votes vs') c" if "c \<in> set (vs_votes vs)" for c
  proof (cases "c \<in> set (drop index (vs_votes vs))")
    case True
    thus ?thesis using mr respected_cong[OF same] by blast
  next
    case False
    hence "c \<in> set (take index (vs_votes vs))" using that by (metis Un_iff append_take_drop_id set_append)
    then obtain k where "k < index" "c = vs_votes vs ! k" by (auto simp: in_set_conv_nth)
    thus ?thesis using rooted_credits_index[of root "vs_votes vs" 0 0 index] rc by auto
  qed
  thus ?thesis using ok same v(2) c(3) by blast
qed

end
