(* ===== verification/Vote_Theorems.thy ===== *)
theory Vote_Theorems
  imports Tower_Sync Vote_Safe
begin

text \<open>
  The theorems on votes: what the validator's tower and the vote account keep when a vote is cast, that
  the two agree, and what the vote program enforces on a tower sent to it.
\<close>

section \<open>Machines that cast votes\<close>

text \<open>
  The contract of a machine that keeps a tower: casting a newer vote succeeds and has the effect of
  \<^const>\<open>push_vote\<close> on the votes it shows.
\<close>

definition newer_vote :: "fd_tower_vote list \<Rightarrow> u64 \<Rightarrow> bool" where
  "newer_vote votes slot \<longleftrightarrow> (votes = [] \<or> vote_slot (last votes) < slot) \<and> unat slot < 2 ^ 63"

locale tower_machine =
  fixes votes_of :: "'s \<Rightarrow> fd_tower_vote list"
    and cast_vote :: "u64 \<Rightarrow> 's \<Rightarrow> 's option"
  assumes cast_pushes: "votes_ok (votes_of s) \<Longrightarrow> newer_vote (votes_of s) slot \<Longrightarrow>
    \<exists>s'. cast_vote slot s = Some s' \<and> map_option snd (push_vote (votes_of s) slot) = Some (votes_of s')"
begin

fun cast_all :: "u64 list \<Rightarrow> 's \<Rightarrow> 's option" where
  "cast_all [] s = Some s"
| "cast_all (slot # slots) s = Option.bind (cast_vote slot s) (cast_all slots)"

lemma cast_keeps:
  assumes "votes_ok (votes_of s)" "newer_vote (votes_of s) slot" "cast_vote slot s = Some s'"
  shows "votes_ok (votes_of s')" "votes_of s' \<noteq> []" "vote_slot (last (votes_of s')) = slot"
proof -
  obtain root where p: "push_vote (votes_of s) slot = Some (root, votes_of s')"
    using cast_pushes[OF assms(1,2)] assms(3) by auto
  have n: "votes_of s = [] \<or> vote_slot (last (votes_of s)) < slot" "unat slot < 2 ^ 63"
    using assms(2) by (simp_all add: newer_vote_def)
  show "votes_ok (votes_of s')" by (rule votes_ok_push[OF assms(1) n p])
  show "votes_of s' \<noteq> []" "vote_slot (last (votes_of s')) = slot"
    using push_vote_result[OF assms(1) n(1)] p by auto
qed

lemma cast_all_runs:
  assumes "votes_ok (votes_of s)" "sorted_wrt (<) slots" "\<forall>slot \<in> set slots. newer_vote (votes_of s) slot"
  shows "\<exists>s'. cast_all slots s = Some s' \<and> votes_ok (votes_of s')"
  using assms
proof (induction slots arbitrary: s)
  case (Cons slot slots)
  have n: "newer_vote (votes_of s) slot" using Cons.prems(3) by simp
  obtain s1 where s1: "cast_vote slot s = Some s1" using cast_pushes[OF Cons.prems(1) n] by blast
  note k = cast_keeps[OF Cons.prems(1) n s1]
  have "\<forall>t \<in> set slots. newer_vote (votes_of s1) t"
    using Cons.prems(2,3) k by (auto simp: newer_vote_def)
  thus ?case using Cons.IH[OF k(1)] Cons.prems(2) s1 by simp
qed simp

end

text \<open>The validator's own tower, and the vote account, are such machines.\<close>

definition tower_cast :: "u64 \<Rightarrow> u64 option \<times> fd_tower_vote list \<Rightarrow> (u64 option \<times> fd_tower_vote list) option" where
  "tower_cast slot tower =
     (case push_vote (snd tower) slot of
        None \<Rightarrow> None
      | Some (root, votes) \<Rightarrow> Some (if root \<noteq> ULONG_MAX then Some root else fst tower, votes))"

definition account_view :: "fd_vote_state \<Rightarrow> fd_tower_vote list" where
  "account_view vs = map tower_view (vs_votes vs)"

interpretation local_tower: tower_machine snd tower_cast
proof
  fix tower :: "u64 option \<times> fd_tower_vote list" and slot
  assume "votes_ok (snd tower)" "newer_vote (snd tower) slot"
  hence "\<exists>root votes'. push_vote (snd tower) slot = Some (root, votes')"
    using push_vote_result[of "snd tower" slot] by (simp add: newer_vote_def)
  thus "\<exists>s'. tower_cast slot tower = Some s' \<and> map_option snd (push_vote (snd tower) slot) = Some (snd s')"
    by (auto simp: tower_cast_def)
qed

interpretation account: tower_machine account_view
  "\<lambda>slot vs. Some (fd_vsv_process_next_vote_slot vs slot epoch cur)" for epoch cur
proof
  fix vs slot
  assume ok: "votes_ok (account_view vs)" and n: "newer_vote (account_view vs) slot"
  then obtain root votes' where p: "push_vote (account_view vs) slot = Some (root, votes')"
    using push_vote_result[of "account_view vs" slot] by (simp add: newer_vote_def)
  have "vs_votes vs = [] \<or> lo_slot (lv_lockout (last (vs_votes vs))) < slot"
    using n by (cases "vs_votes vs = []") (simp_all add: newer_vote_def account_view_def last_map)
  from next_vote_slot_result(1)[OF ok[unfolded account_view_def] this p[unfolded account_view_def]]
  show "\<exists>s'. Some (fd_vsv_process_next_vote_slot vs slot epoch cur) = Some s'
      \<and> map_option snd (push_vote (account_view vs) slot) = Some (account_view s')"
    using p by (simp add: account_view_def)
qed

section \<open>The validator's tower\<close>

lemma push_root:
  assumes "votes_ok votes" "newer_vote votes slot" "push_vote votes slot = Some (root, votes')"
  shows "root \<noteq> ULONG_MAX \<longleftrightarrow> simulate_vote votes slot = FD_TOWER_VOTE_MAX"
    "root \<noteq> ULONG_MAX \<Longrightarrow> votes \<noteq> [] \<and> root = vote_slot (hd votes)"
proof -
  note res = push_vote_result[of votes slot]
  have ne: "votes \<noteq> []" if "simulate_vote votes slot = FD_TOWER_VOTE_MAX"
    using that simulate_vote_le[of votes slot] by (auto simp: FD_TOWER_VOTE_MAX_def)
  have "vote_slot (hd votes) \<noteq> ULONG_MAX" if "votes \<noteq> []"
  proof
    assume "vote_slot (hd votes) = ULONG_MAX"
    moreover have "unat (vote_slot (hd votes)) < 2 ^ 63"
      using assms(1) that by (auto simp: votes_ok_def vote_ok_def)
    ultimately show False by (simp add: unsigned_minus_1_eq_mask mask_eq_exp_minus_1)
  qed
  thus "root \<noteq> ULONG_MAX \<longleftrightarrow> simulate_vote votes slot = FD_TOWER_VOTE_MAX"
    "root \<noteq> ULONG_MAX \<Longrightarrow> votes \<noteq> [] \<and> root = vote_slot (hd votes)"
    using res assms ne by (auto simp: newer_vote_def split: if_splits)
qed

text \<open>A vote that has not expired survives a push, with no fewer confirmations, or becomes the root.\<close>

lemma push_keeps_unexpired:
  assumes ok: "votes_ok votes" and n: "newer_vote votes slot"
    and push: "push_vote votes slot = Some (root, votes')"
    and v: "v \<in> set votes" "slot \<le> expiration_slot v"
  shows "vote_slot v = root \<or> (\<exists>w \<in> set votes'. vote_slot w = vote_slot v \<and> vote_conf v \<le> vote_conf w)"
proof -
  let ?k = "kept_votes votes slot"
  have res: "votes' = relock ?k @ [\<lparr> vote_slot = slot, vote_conf = 1 \<rparr>]"
    "root = (if simulate_vote votes slot = FD_TOWER_VOTE_MAX then vote_slot (hd votes) else ULONG_MAX)"
    using push_vote_result[OF ok] n push by (simp_all add: newer_vote_def)
  obtain i where i: "i < length votes" "v = votes ! i" using v(1) by (auto simp: in_set_conv_nth)
  have "i < simulate_vote votes slot"
    using simulate_from_expired[of votes slot "length votes" i] i v(2)
    by (force simp: simulate_vote_def not_le[symmetric])
  hence "v \<in> set (take (simulate_vote votes slot) votes)"
    using i simulate_vote_le[of votes slot] by (auto simp: in_set_conv_nth)
  hence "v \<in> set ?k \<or> (simulate_vote votes slot = FD_TOWER_VOTE_MAX \<and> v = hd votes)"
  proof (cases "simulate_vote votes slot = FD_TOWER_VOTE_MAX")
    case True
    hence "length votes = FD_TOWER_VOTE_MAX"
      using simulate_vote_le[of votes slot] ok by (simp add: votes_ok_def)
    hence "?k = tl votes" using True by (simp add: kept_votes_def)
    thus ?thesis using True v(1) by (cases votes) auto
  qed (use simulate_vote_le[of votes slot] in \<open>simp add: kept_votes_def min_absorb2\<close>)
  thus ?thesis
  proof
    assume "v \<in> set ?k"
    then obtain j where j: "j < length ?k" "v = ?k ! j" by (auto simp: in_set_conv_nth)
    have "vote_conf v \<le> vote_conf (relock ?k ! j)" "vote_slot (relock ?k ! j) = vote_slot v"
      using relock_conf[OF votes_ok_kept[OF ok] j(1)] relock_slot[OF j(1)] j(2) by (simp_all add: word_le_nat_alt)
    moreover have "relock ?k ! j \<in> set votes'" using j(1) res(1) by (simp add: in_set_conv_nth exI[of _ j])
    ultimately show ?thesis by blast
  qed (use res(2) in simp)
qed

text \<open>Casting the same vote on the local tower and on the vote account gives the same tower and root.\<close>

definition account_tower :: "fd_vote_state \<Rightarrow> u64 option \<times> fd_tower_vote list" where
  "account_tower vs = (vs_root_slot vs, account_view vs)"

lemma cast_agrees:
  assumes "votes_ok (account_view vs)" "newer_vote (account_view vs) slot"
  shows "tower_cast slot (account_tower vs) = Some (account_tower (fd_vsv_process_next_vote_slot vs slot epoch cur))"
proof -
  obtain root votes' where p: "push_vote (account_view vs) slot = Some (root, votes')"
    using push_vote_result[of "account_view vs" slot] assms by (simp add: newer_vote_def)
  have n: "vs_votes vs = [] \<or> lo_slot (lv_lockout (last (vs_votes vs))) < slot"
    using assms(2) by (cases "vs_votes vs = []") (simp_all add: newer_vote_def account_view_def last_map)
  note r = next_vote_slot_result[OF assms(1)[unfolded account_view_def] n p[unfolded account_view_def]]
  show ?thesis using r p push_root(1)[OF assms p]
    by (simp add: tower_cast_def account_tower_def account_view_def)
qed

lemma cast_all_agrees:
  assumes "votes_ok (account_view vs)" "sorted_wrt (<) slots" "\<forall>slot \<in> set slots. newer_vote (account_view vs) slot"
  shows "local_tower.cast_all slots (account_tower vs)
    = Some (account_tower (fold (\<lambda>slot vs. fd_vsv_process_next_vote_slot vs slot epoch cur) slots vs))"
  using assms
proof (induction slots arbitrary: vs)
  case (Cons slot slots)
  let ?vs = "fd_vsv_process_next_vote_slot vs slot epoch cur"
  have n: "newer_vote (account_view vs) slot" using Cons.prems(3) by simp
  note k = account.cast_keeps[OF Cons.prems(1) n refl, of epoch cur]
  have "\<forall>t \<in> set slots. newer_vote (account_view ?vs) t"
    using Cons.prems(2,3) k by (auto simp: newer_vote_def)
  thus ?case using Cons.IH[OF k(1)] Cons.prems(2) cast_agrees[OF Cons.prems(1) n, of epoch cur] by simp
qed simp

section \<open>Properties\<close>

definition tower_example :: "fd_tower_vote list" where
  "tower_example = [\<lparr> vote_slot = 10, vote_conf = 4 \<rparr>, \<lparr> vote_slot = 12, vote_conf = 2 \<rparr>, \<lparr> vote_slot = 14, vote_conf = 1 \<rparr>]"

lemma tower_example_ok:
  "votes_ok tower_example" "newer_vote tower_example 16" "newer_vote tower_example 20"
  by (simp_all add: tower_example_def votes_ok_def vote_ok_def below_def newer_vote_def FD_TOWER_VOTE_MAX_def)

definition account_example :: fd_vote_state where
  "account_example = \<lparr>
     vs_votes = [\<lparr> lv_latency = 1, lv_lockout = \<lparr> lo_slot = 10, lo_conf = 4 \<rparr> \<rparr>,
                 \<lparr> lv_latency = 1, lv_lockout = \<lparr> lo_slot = 12, lo_conf = 2 \<rparr> \<rparr>,
                 \<lparr> lv_latency = 1, lv_lockout = \<lparr> lo_slot = 14, lo_conf = 1 \<rparr> \<rparr>],
     vs_root_slot = Some 9, vs_epoch_credits = [],
     vs_last_timestamp = \<lparr> ts_slot = 14, ts_timestamp = 1600 \<rparr> \<rparr>"

lemma account_example_view: "account_view account_example = tower_example"
  by (simp add: account_view_def account_example_def tower_example_def tower_view_def)

text \<open>
  C12: Pushing a newer vote always succeeds and keeps the tower well formed, with the vote on top; a
  vote whose lockout covers the new slot stays in the tower with no fewer confirmations, or becomes the
  root.
\<close>

theorem tower_push_invariant:
  assumes "votes_ok votes" "newer_vote votes slot"
  shows "\<exists>root votes'. push_vote votes slot = Some (root, votes') \<and> votes_ok votes'
    \<and> votes' \<noteq> [] \<and> vote_slot (last votes') = slot
    \<and> (\<forall>v \<in> set votes. slot \<le> expiration_slot v \<longrightarrow>
         vote_slot v = root \<or> (\<exists>w \<in> set votes'. vote_slot w = vote_slot v \<and> vote_conf v \<le> vote_conf w))"
proof -
  obtain root votes' where p: "push_vote votes slot = Some (root, votes')"
    using push_vote_result[of votes slot] assms by (simp add: newer_vote_def)
  hence "tower_cast slot (None, votes) = Some (if root \<noteq> ULONG_MAX then Some root else None, votes')"
    by (simp add: tower_cast_def)
  from local_tower.cast_keeps[OF _ _ this] assms
  show ?thesis using p push_keeps_unexpired[OF assms p] by auto
qed

theorem tower_push_invariant_witness:
  "votes_ok tower_example \<and> newer_vote tower_example 16 \<and> (\<exists>root votes'. push_vote tower_example 16 = Some (root, votes') \<and> votes_ok votes')"
  using tower_push_invariant[OF tower_example_ok(1,2)] tower_example_ok by blast

text \<open>
  C13: The validator's tower and the vote account stay the same under the same votes: pushing a rising
  sequence of slots on the local tower gives, votes and root, what the vote program computes on the
  account.
\<close>

theorem tower_matches_account:
  assumes "votes_ok (account_view vs)" "sorted_wrt (<) slots"
    and "\<forall>slot \<in> set slots. newer_vote (account_view vs) slot"
  shows "fold (\<lambda>slot tower. Option.bind tower (tower_cast slot)) slots (Some (account_tower vs))
    = Some (account_tower (fold (\<lambda>slot vs. fd_vsv_process_next_vote_slot vs slot epoch cur) slots vs))"
proof -
  have n: "fold (\<lambda>slot tower. Option.bind tower (tower_cast slot)) slots None = None" for slots
    by (induction slots) simp_all
  have "fold (\<lambda>slot tower. Option.bind tower (tower_cast slot)) slots (Some t) = local_tower.cast_all slots t" for t
  proof (induction slots arbitrary: t)
    case (Cons s slots)
    thus ?case by (cases "tower_cast s t") (simp_all add: n)
  qed simp
  thus ?thesis using cast_all_agrees[OF assms] by simp
qed

theorem tower_matches_account_witness:
  "fold (\<lambda>slot tower. Option.bind tower (tower_cast slot)) [16, 20] (Some (account_tower account_example))
    = Some (account_tower (fold (\<lambda>slot vs. fd_vsv_process_next_vote_slot vs slot 3 21) [16, 20] account_example))"
  by (rule tower_matches_account) (use tower_example_ok in \<open>simp_all add: account_example_view\<close>)

text \<open>
  C14: The vote program accepts the validator's tower: when the account shows the tower a vote is pushed
  on, the pushed tower with its root and a timestamp passes every check of the tower replacement, and
  becomes the tower and the root of the account and its timestamp.  The one thing that can refuse it
  is a clock that went back: a timestamp before the account's last one, which is of an older slot.
\<close>

theorem pushed_tower_accepted:
  assumes "votes_ok (account_view vs)" "newer_vote (account_view vs) slot"
    and "root_below (vs_root_slot vs) (vs_votes vs)" "\<forall>r. vs_root_slot vs = Some r \<longrightarrow> r < slot"
    and "tower_cast slot (account_tower vs) = Some (new_root, map tower_view new_state)"
    and "ts_slot (vs_last_timestamp vs) < slot"
  shows "if sint ts < sint (ts_timestamp (vs_last_timestamp vs))
    then process_new_vote_state vs new_state new_root (Some ts) epoch cur = Inl TIMESTAMP_TOO_OLD
    else (\<exists>vs'. process_new_vote_state vs new_state new_root (Some ts) epoch cur = Inr vs'
           \<and> account_tower vs' = (new_root, map tower_view new_state)
           \<and> vs_last_timestamp vs' = \<lparr> ts_slot = slot, ts_timestamp = ts \<rparr>)"
proof -
  obtain root where p: "push_vote (account_view vs) slot = Some (root, map tower_view new_state)"
      and r: "new_root = (if root \<noteq> ULONG_MAX then Some root else vs_root_slot vs)"
    using assms(5) by (auto simp: tower_cast_def account_tower_def split: option.splits)
  have n: "vs_votes vs = [] \<or> lo_slot (lv_lockout (last (vs_votes vs))) < slot" "unat slot < 2 ^ 63"
    using assms(2) by (cases "vs_votes vs = []", simp_all add: newer_vote_def account_view_def last_map)
  have nr: "new_root = (if simulate_vote (map tower_view (vs_votes vs)) slot = FD_TOWER_VOTE_MAX
                    then Some root else vs_root_slot vs)"
    using r push_root(1)[OF assms(1,2) p] by (simp add: account_view_def)
  obtain credited votes where
    l: "map tower_view votes = map tower_view new_state" "vs_last_timestamp credited = vs_last_timestamp vs"
      "process_new_vote_state vs new_state new_root (Some ts) epoch cur
         = map_sum id (\<lambda>vs. vs\<lparr>vs_root_slot := new_root, vs_votes := votes\<rparr>)
             (fd_vsv_process_timestamp credited slot ts)"
    using landing_accepted[OF assms(1)[unfolded account_view_def] n p[unfolded account_view_def] assms(3,4) refl nr,
        of epoch cur] by (metis option.simps(5))
  have "\<not> slot < ts_slot (vs_last_timestamp vs)" "slot \<noteq> ts_slot (vs_last_timestamp vs)"
    using assms(6) by auto
  thus ?thesis
    using l by (simp add: fd_vsv_process_timestamp_def Let_def account_tower_def account_view_def)
qed

definition synced_example :: "fd_landed_vote list" where
  "synced_example = fd_vote_lockout_landed_votes_from_lockouts
     [\<lparr> lo_slot = 10, lo_conf = 4 \<rparr>, \<lparr> lo_slot = 12, lo_conf = 3 \<rparr>,
      \<lparr> lo_slot = 14, lo_conf = 2 \<rparr>, \<lparr> lo_slot = 16, lo_conf = 1 \<rparr>]"

lemma account_example_pushed:
  "tower_cast 16 (account_tower account_example) = Some (Some 9, map tower_view synced_example)"
  unfolding account_tower_def account_example_view by code_simp

lemma account_example_rooted:
  "root_below (vs_root_slot account_example) (vs_votes account_example)" "vs_root_slot account_example = Some 9"
  by (simp_all add: root_below_def account_example_def)

theorem pushed_tower_accepted_witness:
  "process_new_vote_state account_example synced_example (Some 9) (Some 4) 3 17 = Inl TIMESTAMP_TOO_OLD
   \<and> (\<exists>vs'. process_new_vote_state account_example synced_example (Some 9) (Some 1700) 3 17 = Inr vs'
        \<and> account_tower vs' = (Some 9, map tower_view synced_example)
        \<and> vs_last_timestamp vs' = \<lparr> ts_slot = 16, ts_timestamp = 1700 \<rparr>)"
proof -
  have t: "vs_last_timestamp account_example = \<lparr> ts_slot = 14, ts_timestamp = 1600 \<rparr>"
    by (simp add: account_example_def)
  note acc = pushed_tower_accepted[OF _ _ account_example_rooted(1) _ account_example_pushed, unfolded t]
  show ?thesis
    using acc[where ts = 4 and epoch = 3 and cur = 17] acc[where ts = 1700 and epoch = 3 and cur = 17]
      tower_example_ok account_example_rooted(2) account_example_view by simp
qed

section \<open>The vote program on any tower\<close>

text \<open>
  C15: Whatever tower, root and slot hashes are proposed, the check of a proposed tower stays in its
  arrays: no read of a lockout, of the lockout before it, of a slot hash or of a vote of the account
  out of bounds, no underflow of an index, no write past the array of indexes to filter and no
  filtered index past the lockouts.  A tower is proposed with at most the 616 lockouts the decoder
  lets through, which is the size of that array.
\<close>

theorem proposed_tower_in_bounds:
  assumes "length lockouts \<le> FD_VOTE_INSTR_MAX_LOCKOUT_OFFSETS_LEN"
  shows "check_and_filter_proposed_vote_state vs lockouts root hash slot_hashes
           \<notin> {Inl Out_of_bounds, Inl Crit, Inl Unsupported_program_id}"
  using check_and_filter_in_bounds[OF assms, of vs root hash slot_hashes] by fastforce

theorem proposed_tower_in_bounds_witness:
  "check_and_filter_proposed_vote_state account_example (replicate 616 \<lparr> lo_slot = 20, lo_conf = 1 \<rparr>)
     (Some 3) 7 [(20, 7), (18, 5)] \<notin> {Inl Out_of_bounds, Inl Crit, Inl Unsupported_program_id}"
  by (rule proposed_tower_in_bounds) (simp add: FD_VOTE_INSTR_MAX_LOCKOUT_OFFSETS_LEN_def)

text \<open>The last slot a lockout covers, without the saturation.\<close>

lemma landed_expiry_less:
  "landed_expiry l < s \<longleftrightarrow> unat (lo_slot l) + 2 ^ min (unat (lo_conf l)) 31 < unat s"
proof -
  have k: "min (unat (lo_conf l)) 31 < 64" by simp
  have "unat (2 ^ min (unat (lo_conf l)) 31 :: u64) = 2 ^ min (unat (lo_conf l)) 31"
    using unat_push_one[OF k] by (simp add: push_bit_eq_mult)
  moreover have "min a 18446744073709551615 < unat s \<longleftrightarrow> a < unat s" for a
    using unat_lt64[of s] by auto
  ultimately show ?thesis
    by (simp add: landed_expiry_def MAX_LOCKOUT_HISTORY_def word_less_nat_alt unat_fd_ulong_sat_add)
qed

text \<open>
  C11: A tower sync that is accepted replaces the tower by a well formed one, newer than every old vote,
  never moves the root back, and breaks no lockout: each old vote is covered by the new root, or is in
  the new tower with no fewer confirmations, or every vote of the new tower for a later slot, the
  intermediate ones too, is for a slot past its lockout.
\<close>

theorem tower_sync_respects_lockouts:
  assumes "sorted_wrt (\<lambda>v w. lslot v < lslot w) (vs_votes vs)"
    and "do_process_tower_sync vs slot_hashes epoch cur sync = Inr vs'"
  shows "landed_ok (vs_votes vs')
    \<and> (\<forall>r. vs_root_slot vs = Some r \<longrightarrow> (\<exists>r'. vs_root_slot vs' = Some r' \<and> r \<le> r'))
    \<and> (\<forall>c \<in> set (vs_votes vs). lslot c < lslot (last (vs_votes vs'))
         \<and> ((\<exists>r. vs_root_slot vs' = Some r \<and> lslot c \<le> r)
            \<or> (\<exists>n \<in> set (vs_votes vs'). lslot n = lslot c \<and> lconf c \<le> lconf n)
            \<or> (\<forall>n \<in> set (vs_votes vs'). lslot c < lslot n \<longrightarrow>
                 unat (lslot c) + 2 ^ min (unat (lconf c)) 31 < unat (lslot n))))"
proof -
  obtain ls root where c: "check_and_filter_proposed_vote_state vs (sync_lockouts sync) (sync_root sync)
        (sync_hash sync) slot_hashes = Inr (ls, root)"
      and p: "process_new_vote_state vs (fd_vote_lockout_landed_votes_from_lockouts ls) root
        (sync_timestamp sync) epoch cur = Inr vs'"
    using assms(2) by (auto simp: do_process_tower_sync_def split: sum.splits)
  note r = process_new_vote_state_respects[OF assms(1) p]
  have ls: "map lv_lockout (vs_votes vs') = ls"
    using r by (simp add: fd_vote_lockout_landed_votes_from_lockouts_def comp_def)
  have ne: "vs_votes vs' \<noteq> []" using r by (simp add: landed_ok_def)
  have la: "lslot (last (vs_votes vs')) = lo_slot (last ls)" using ne by (simp flip: ls add: last_map)
  have new: "lslot c < lslot (last (vs_votes vs'))" if "c \<in> set (vs_votes vs)" for c
  proof -
    have "lslot c \<le> lslot (last (vs_votes vs))"
      using that assms(1) by (cases "vs_votes vs" rule: rev_cases) (auto simp: sorted_wrt_append intro: less_imp_le)
    moreover have "lslot (last (vs_votes vs)) < lo_slot (last ls)" using check_and_filter_last[OF c] that by auto
    ultimately show ?thesis unfolding la by simp
  qed
  have "\<exists>r'. vs_root_slot vs' = Some r' \<and> q \<le> r'" if "vs_root_slot vs = Some q" for q
    using r that by (auto simp: check_root_advances_def not_less split: option.splits if_splits)
  thus ?thesis using r new unfolding respected_def landed_expiry_less by blast
qed

definition hashes_example :: fd_slot_hashes where
  "hashes_example = map (\<lambda>s. (s, 7)) [18, 16, 14, 12, 10, 9]"

definition sync_example :: fd_tower_sync where
  "sync_example = \<lparr> sync_lockouts = map lv_lockout synced_example, sync_root = Some 9, sync_hash = 7, sync_timestamp = None \<rparr>"

lemma sync_example_accepted:
  "do_process_tower_sync account_example hashes_example 3 17 sync_example
    = Inr (account_example\<lparr> vs_votes := map (\<lambda>(s, c, l). \<lparr> lv_latency = l, lv_lockout = \<lparr> lo_slot = s, lo_conf = c \<rparr> \<rparr>)
             [(10, 4, 1), (12, 3, 1), (14, 2, 1), (16, 1, 1)] \<rparr>)"
  by (simp add: do_process_tower_sync_def check_and_filter_proposed_vote_state_def process_new_vote_state_def
      hashes_example_def sync_example_def synced_example_def account_example_def
      fd_vote_lockout_landed_votes_from_lockouts_def filter_proposed_root_def scan_proposed.simps scan_read_def scan_order_def
      check_root_advances_def rooted_credits.simps(2) landed_expiry_def fill_latency_def
      fd_vote_lockout_last_locked_out_slot_def fd_vote_lockout_get_lockout_def fd_ulong_sat_add_def
      fd_vote_compute_vote_latency_def fd_ulong_sat_sub_def MAX_LOCKOUT_HISTORY_def Let_def)
     (simp add: word_le_nat_alt)

theorem tower_sync_respects_lockouts_witness:
  "\<exists>vs'. do_process_tower_sync account_example hashes_example 3 17 sync_example = Inr vs'
    \<and> landed_ok (vs_votes vs')"
  using tower_sync_respects_lockouts[OF _ sync_example_accepted] sync_example_accepted
  by (force simp: account_example_def)

text \<open>
  The binary search of a vote account whose votes rise in slot finds a slot exactly when some vote
  is for it.
\<close>

theorem contains_slot_exact:
  assumes "sorted_wrt (\<lambda>v w. lslot v < lslot w) votes"
  shows "fd_vote_contains_slot votes slot = Inr (slot \<in> lslot ` set votes)"
  by (rule contains_slot_iff[OF assms])

theorem contains_slot_exact_witness:
  "fd_vote_contains_slot synced_example 14 = Inr True \<and> fd_vote_contains_slot synced_example 13 = Inr False"
proof -
  have "sorted_wrt (\<lambda>v w. lslot v < lslot w) synced_example"
    by (simp add: synced_example_def fd_vote_lockout_landed_votes_from_lockouts_def)
  from contains_slot_exact[OF this] show ?thesis
    by (simp add: synced_example_def fd_vote_lockout_landed_votes_from_lockouts_def)
qed

text \<open>
  C38: \<open>fd_tower_verify\<close> rejects every well formed tower of two votes or more: it wants confirmation
  counts that rise from the oldest vote, and they fall.
\<close>

theorem tower_verify_rejects:
  assumes "votes_ok votes" "2 \<le> length votes"
  shows "fd_tower_verify votes = - 1"
proof -
  obtain v w vs where v: "votes = v # w # vs"
    using assms(2) by (cases votes; cases "tl votes") auto
  hence "vote_conf w < vote_conf v" using assms(1) by (simp add: votes_ok_def below_def)
  thus ?thesis by (simp add: fd_tower_verify_def v)
qed

theorem tower_verify_rejects_witness: "fd_tower_verify tower_example = - 1"
  by (rule tower_verify_rejects) (use tower_example_ok in \<open>simp_all add: tower_example_def\<close>)

end
