(* ===== verification/Fork_Tree.thy ===== *)
theory Fork_Tree
  imports Fd_Prelude
begin

text \<open>
  Trees given by parent pointers: the forks of \<^verbatim>\<open>choreo/ghost\<close> and the blocks of
  \<^verbatim>\<open>choreo/tower\<close>.  \<open>rooted\<close> says that the live nodes form a tree with the
  given root; ancestors, subtrees and the effect of adding a leaf or cutting a subtree out follow.
\<close>

definition up :: "('a \<Rightarrow> 'a option) \<Rightarrow> ('a \<times> 'a) set" where
  "up par = {(i, p). par i = Some p}"

text \<open>\<open>beneath par i\<close> holds for the nodes whose walk to the root passes \<open>i\<close>.\<close>

definition beneath :: "('a \<Rightarrow> 'a option) \<Rightarrow> 'a \<Rightarrow> 'a \<Rightarrow> bool" where
  "beneath par i j \<longleftrightarrow> (j, i) \<in> (up par)\<^sup>*"

definition subtree :: "'a set \<Rightarrow> ('a \<Rightarrow> 'a option) \<Rightarrow> 'a \<Rightarrow> 'a set" where
  "subtree live par i = {j \<in> live. beneath par i j}"

definition kids :: "'a set \<Rightarrow> ('a \<Rightarrow> 'a option) \<Rightarrow> 'a \<Rightarrow> 'a set" where
  "kids live par i = {j \<in> live. par j = Some i}"

definition rooted :: "'a set \<Rightarrow> ('a \<Rightarrow> 'a option) \<Rightarrow> 'a \<Rightarrow> bool" where
  "rooted live par r \<longleftrightarrow> finite live \<and> r \<in> live \<and> par r = None
     \<and> (\<exists>depth :: 'a \<Rightarrow> nat. \<forall>i \<in> live. i \<noteq> r \<longrightarrow> (\<exists>p \<in> live. par i = Some p \<and> depth p < depth i))"

lemma beneath_refl [simp]: "beneath par i i"
  by (simp add: beneath_def)

lemma beneath_trans: "beneath par i j \<Longrightarrow> beneath par j k \<Longrightarrow> beneath par i k"
  unfolding beneath_def by (rule rtrancl_trans)

lemma beneath_step: "beneath par i j \<longleftrightarrow> i = j \<or> (\<exists>p. par j = Some p \<and> beneath par i p)"
proof
  assume "beneath par i j"
  thus "i = j \<or> (\<exists>p. par j = Some p \<and> beneath par i p)"
    unfolding beneath_def by (cases rule: converse_rtranclE) (auto simp: up_def)
next
  assume "i = j \<or> (\<exists>p. par j = Some p \<and> beneath par i p)"
  thus "beneath par i j" unfolding beneath_def by (auto simp: up_def intro: converse_rtrancl_into_rtrancl)
qed

lemma beneath_parent: "par j = Some p \<Longrightarrow> beneath par i p \<Longrightarrow> beneath par i j"
  by (subst beneath_step) blast

lemma beneath_Some: "par j = Some p \<Longrightarrow> beneath par p j"
  by (subst beneath_step) simp

lemma beneath_none: "par j = None \<Longrightarrow> beneath par i j \<longleftrightarrow> i = j"
  by (subst beneath_step) simp

text \<open>The walk to the root is a line.\<close>

lemma beneath_linear:
  assumes "beneath par i k" "beneath par j k"
  shows "beneath par i j \<or> beneath par j i"
proof -
  have "single_valued (up par)" by (auto simp: single_valued_def up_def)
  from single_valued_confluent[OF this] show ?thesis using assms unfolding beneath_def by blast
qed

lemma rooted_live:
  assumes "rooted live par r" "j \<in> live" "beneath par i j"
  shows "i \<in> live"
  using assms(3,2) unfolding beneath_def
proof (induction rule: converse_rtrancl_induct)
  case (step j p)
  hence "p \<in> live" using assms(1) by (fastforce simp: rooted_def up_def)
  thus ?case using step.IH by simp
qed

lemma rooted_depth:
  assumes "rooted live par r"
  obtains depth :: "'a \<Rightarrow> nat" where "\<And>i j. j \<in> live \<Longrightarrow> beneath par i j \<Longrightarrow> i = j \<or> depth i < depth j"
proof -
  obtain depth :: "'a \<Rightarrow> nat" where d: "\<forall>i \<in> live. i \<noteq> r \<longrightarrow> (\<exists>p \<in> live. par i = Some p \<and> depth p < depth i)"
    using assms by (auto simp: rooted_def)
  have root: "par r = None" using assms by (simp add: rooted_def)
  have "i = j \<or> depth i < depth j" if "beneath par i j" "j \<in> live" for i j
    using that unfolding beneath_def
  proof (induction rule: converse_rtrancl_induct)
    case (step j p)
    have "j \<noteq> r" using step.hyps(1) root by (auto simp: up_def)
    hence "p \<in> live \<and> depth p < depth j" using d step.prems step.hyps(1) by (fastforce simp: up_def)
    thus ?case using step.IH by fastforce
  qed simp
  thus ?thesis using that by blast
qed

lemma beneath_antisym:
  assumes "rooted live par r" "j \<in> live" "beneath par i j" "beneath par j i"
  shows "i = j"
proof -
  obtain depth :: "'a \<Rightarrow> nat" where d: "\<And>i j. j \<in> live \<Longrightarrow> beneath par i j \<Longrightarrow> i = j \<or> depth i < depth j"
    using rooted_depth[OF assms(1)] by blast
  have "i \<in> live" by (rule rooted_live[OF assms(1,2,3)])
  thus ?thesis using d[OF assms(2,3)] d[OF _ assms(4)] by auto
qed

lemma parent_not_beneath:
  assumes "rooted live par r" "j \<in> live" "par j = Some p"
  shows "\<not> beneath par j p"
proof
  assume "beneath par j p"
  moreover have pj: "beneath par p j" using assms(3) by (auto simp: beneath_step[of par p j])
  ultimately have "p = j" using beneath_antisym[OF assms(1,2)] by blast
  moreover have "par r = None"
    "\<exists>depth :: 'a \<Rightarrow> nat. \<forall>i \<in> live. i \<noteq> r \<longrightarrow> (\<exists>p \<in> live. par i = Some p \<and> depth p < depth i)"
    using assms(1) by (simp_all add: rooted_def)
  ultimately show False using assms(2,3) by (metis less_irrefl option.distinct(1) option.inject)
qed

text \<open>Induction from the root down.\<close>

lemma rooted_induct [consumes 2, case_names root node]:
  assumes "rooted live par r" "i \<in> live"
    and "P r" "\<And>i p. i \<in> live \<Longrightarrow> p \<in> live \<Longrightarrow> i \<noteq> r \<Longrightarrow> par i = Some p \<Longrightarrow> P p \<Longrightarrow> P i"
  shows "P i"
proof -
  obtain depth :: "'a \<Rightarrow> nat" where d: "\<forall>i \<in> live. i \<noteq> r \<longrightarrow> (\<exists>p \<in> live. par i = Some p \<and> depth p < depth i)"
    using assms(1) by (auto simp: rooted_def)
  show ?thesis using assms(2)
  proof (induction "depth i" arbitrary: i rule: less_induct)
    case less
    show ?case
    proof (cases "i = r")
      case False
      then obtain p where "p \<in> live" "par i = Some p" "depth p < depth i" using d less.prems by blast
      thus ?thesis using less.hyps assms(4)[OF less.prems _ False] by blast
    qed (use assms(3) in simp)
  qed
qed

lemma beneath_root: "rooted live par r \<Longrightarrow> i \<in> live \<Longrightarrow> beneath par r i"
proof (induction rule: rooted_induct)
  case (node i p) thus ?case using beneath_step by fast
qed simp

lemma subtree_root: "rooted live par r \<Longrightarrow> subtree live par r = live"
  using beneath_root by (fastforce simp: subtree_def)

lemma subtree_sub: "subtree live par i \<subseteq> live"
  by (auto simp: subtree_def)

text \<open>A subtree is its node and the subtrees of the children.\<close>

lemma beneath_kid: "k \<in> kids live par i \<Longrightarrow> beneath par i k"
  by (rule beneath_parent[of par k i]) (simp_all add: kids_def)

lemma beneath_via_kid:
  assumes "rooted live par r" "j \<in> live" "beneath par i j" "j \<noteq> i"
  shows "\<exists>k \<in> kids live par i. beneath par k j"
  using assms
proof (induction rule: rooted_induct)
  case root
  thus ?case using assms(1) beneath_none[of par r i] by (simp add: rooted_def)
next
  case (node j p)
  have ip: "beneath par i p" using beneath_step[of par i j, THEN iffD1, OF node.prems(1)] node.hyps(4) node.prems(2) by auto
  show ?case
  proof (cases "p = i")
    case True
    hence "j \<in> kids live par i" using node.hyps by (simp add: kids_def)
    thus ?thesis by (rule bexI[rotated]) simp
  next
    case False
    then obtain k where "k \<in> kids live par i" "beneath par k p" using node.IH ip by blast
    thus ?thesis by (intro bexI[of _ k] beneath_parent[of par j p]) (simp_all add: node.hyps(4))
  qed
qed

lemma subtree_unfold:
  assumes "rooted live par r" "i \<in> live"
  shows "subtree live par i = insert i (\<Union>k \<in> kids live par i. subtree live par k)"
proof (rule set_eqI)
  fix j
  show "j \<in> subtree live par i \<longleftrightarrow> j \<in> insert i (\<Union>k \<in> kids live par i. subtree live par k)"
  proof (cases "j = i")
    case False
    have "beneath par i j \<longleftrightarrow> (\<exists>k \<in> kids live par i. beneath par k j)" if "j \<in> live"
      using beneath_via_kid[OF assms(1) that _ False] beneath_trans[OF beneath_kid] by metis
    thus ?thesis using False by (auto simp: subtree_def)
  qed (use assms(2) in \<open>simp add: subtree_def\<close>)
qed

lemma subtree_kid_less:
  assumes "rooted live par r" "i \<in> live" "k \<in> kids live par i"
  shows "card (subtree live par k) < card (subtree live par i)"
proof -
  have "\<not> beneath par k i" using parent_not_beneath[OF assms(1), of k i] assms(3) by (auto simp: kids_def)
  hence "subtree live par k \<subset> subtree live par i"
    using subtree_unfold[OF assms(1,2)] assms(2,3) by (auto simp: subtree_def)
  moreover have "finite (subtree live par i)"
    using assms(1) finite_subset[OF subtree_sub] by (auto simp: rooted_def)
  ultimately show ?thesis by (rule psubset_card_mono[rotated])
qed

text \<open>Induction from the leaves up.\<close>

lemma subtree_induct [consumes 2, case_names node]:
  assumes "rooted live par r" "i \<in> live"
    and "\<And>i. i \<in> live \<Longrightarrow> (\<And>k. k \<in> kids live par i \<Longrightarrow> P k) \<Longrightarrow> P i"
  shows "P i"
  using assms(2)
proof (induction "card (subtree live par i)" arbitrary: i rule: less_induct)
  case less
  show ?case by (rule assms(3)[OF less.prems])
    (use less subtree_kid_less[OF assms(1)] in \<open>auto simp: kids_def\<close>)
qed

section \<open>Growing and cutting a tree\<close>

lemma rooted_parent:
  assumes "rooted live par r" "j \<in> live" "par j = Some p"
  shows "p \<in> live" "j \<noteq> r"
  using rooted_live[OF assms(1,2) beneath_Some[of par, OF assms(3)]] assms(1,3) by (auto simp: rooted_def)

lemma beneath_cong:
  assumes "rooted live par r" "j \<in> live" "\<And>k. k \<in> live \<Longrightarrow> par' k = par k"
  shows "beneath par' b j \<longleftrightarrow> beneath par b j"
  using assms(1,2)
proof (induction rule: rooted_induct)
  case root
  have "r \<in> live" "par r = None" using assms(1) by (simp_all add: rooted_def)
  thus ?case using assms(3)[of r] by (simp add: beneath_none)
next
  case (node i p)
  thus ?case using assms(3)[of i] by (subst (1 2) beneath_step) simp
qed

text \<open>A new leaf.\<close>

lemma rooted_leaf:
  assumes "rooted live par r" "i \<notin> live" "p \<in> live"
  shows "rooted (insert i live) (par(i := Some p)) r"
proof -
  obtain depth :: "'a \<Rightarrow> nat" where
    d: "\<forall>i \<in> live. i \<noteq> r \<longrightarrow> (\<exists>p \<in> live. par i = Some p \<and> depth p < depth i)"
    using assms(1) by (auto simp: rooted_def)
  have "finite live" "r \<in> live" "par r = None" "i \<noteq> r" using assms by (auto simp: rooted_def)
  moreover have "\<forall>j \<in> insert i live. j \<noteq> r \<longrightarrow> (\<exists>q \<in> insert i live. (par(i := Some p)) j = Some q
      \<and> (depth(i := Suc (depth p))) q < (depth(i := Suc (depth p))) j)"
  proof (intro ballI impI)
    fix j assume j: "j \<in> insert i live" "j \<noteq> r"
    show "\<exists>q \<in> insert i live. (par(i := Some p)) j = Some q
      \<and> (depth(i := Suc (depth p))) q < (depth(i := Suc (depth p))) j"
    proof (cases "j = i")
      case True
      have "p \<noteq> i" using assms(2,3) by auto
      thus ?thesis using True assms(3) by (intro bexI[of _ p]) simp_all
    next
      case False
      then obtain q where "q \<in> live" "par j = Some q" "depth q < depth j" using d j by auto
      moreover have "q \<noteq> i" using \<open>q \<in> live\<close> assms(2) by auto
      ultimately show ?thesis using False by (intro bexI[of _ q]) simp_all
    qed
  qed
  ultimately show ?thesis
    unfolding rooted_def by (intro conjI exI[of _ "depth(i := Suc (depth p))"]) simp_all
qed

lemma kids_leaf:
  assumes "rooted live par r" "i \<notin> live" "p \<in> live"
  shows "kids (insert i live) (par(i := Some p)) q
    = (if q = p then insert i (kids live par q) else if q = i then {} else kids live par q)"
proof -
  have "p \<noteq> i" "\<And>j. j \<in> live \<Longrightarrow> j \<noteq> i" using assms(2,3) by auto
  moreover have "\<And>j. j \<in> live \<Longrightarrow> par j \<noteq> Some i" using rooted_parent(1)[OF assms(1)] assms(2) by blast
  ultimately show ?thesis unfolding kids_def by auto
qed

text \<open>A subtree on its own.\<close>

lemma beneath_cut:
  assumes "rooted live par r" "n \<in> live" "j \<in> subtree live par n"
  shows "beneath (par(n := None)) b j \<longleftrightarrow> beneath par b j \<and> beneath par n b"
proof -
  have "j \<in> live" "beneath par n j" using assms(3) by (auto simp: subtree_def)
  with assms(1) show ?thesis
  proof (induction rule: rooted_induct)
    case root
    have "n = r" using root assms(1) by (simp add: rooted_def beneath_none)
    thus ?case using assms(1) by (auto simp: rooted_def beneath_none)
  next
    case (node i p)
    show ?case
    proof (cases "i = n")
      case True
      have "beneath (par(n := None)) b n \<longleftrightarrow> b = n" by (rule beneath_none) simp
      moreover have "beneath par b n \<Longrightarrow> beneath par n b \<Longrightarrow> b = n"
        using beneath_antisym[OF assms(1,2)] by blast
      ultimately show ?thesis unfolding True by (metis beneath_refl)
    next
      case False
      hence np: "beneath par n p" using node.prems node.hyps(4) beneath_step[of par n i] by auto
      have "beneath (par(n := None)) b i \<longleftrightarrow> b = i \<or> beneath (par(n := None)) b p"
        using False node.hyps(4) by (subst beneath_step) simp
      moreover have "beneath par b i \<longleftrightarrow> b = i \<or> beneath par b p"
        using node.hyps(4) by (subst beneath_step) simp
      ultimately show ?thesis using node.IH[OF np] node.prems by metis
    qed
  qed
qed

lemma subtree_parent:
  assumes "j \<in> subtree live par n" "j \<noteq> n" "rooted live par r"
  obtains p where "par j = Some p" "p \<in> subtree live par n"
proof -
  have j: "j \<in> live" "beneath par n j" using assms(1) by (auto simp: subtree_def)
  then obtain p where p: "par j = Some p" "beneath par n p" using assms(2) beneath_step[of par n j] by auto
  thus ?thesis using that rooted_parent(1)[OF assms(3) j(1)] by (auto simp: subtree_def)
qed

lemma rooted_cut:
  assumes "rooted live par r" "n \<in> live"
  shows "rooted (subtree live par n) (par(n := None)) n"
proof -
  obtain depth :: "'a \<Rightarrow> nat" where
    d: "\<And>i j. j \<in> live \<Longrightarrow> beneath par i j \<Longrightarrow> i = j \<or> depth i < depth j"
    using rooted_depth[OF assms(1)] by blast
  have "\<exists>p \<in> subtree live par n. (par(n := None)) j = Some p \<and> depth p < depth j"
    if j: "j \<in> subtree live par n" "j \<noteq> n" for j
  proof -
    obtain p where p: "par j = Some p" "p \<in> subtree live par n" by (rule subtree_parent[OF j assms(1)])
    have "j \<in> live" using j(1) by (simp add: subtree_def)
    hence "p \<noteq> j" "beneath par p j"
      using parent_not_beneath[OF assms(1) _ p(1)] beneath_Some[of par, OF p(1)] by auto
    thus ?thesis using p j(2) d[OF \<open>j \<in> live\<close>] by (intro bexI[of _ p]) auto
  qed
  moreover have "finite (subtree live par n)"
    using assms(1) finite_subset[OF subtree_sub] by (auto simp: rooted_def)
  moreover have "n \<in> subtree live par n" using assms(2) by (simp add: subtree_def)
  ultimately show ?thesis unfolding rooted_def by auto
qed

lemma kids_cut:
  assumes "rooted live par r" "n \<in> live" "q \<in> subtree live par n"
  shows "kids (subtree live par n) (par(n := None)) q = kids live par q"
proof -
  have "par n \<noteq> Some q"
    using parent_not_beneath[OF assms(1,2)] assms(3) by (auto simp: subtree_def)
  moreover have "j \<in> subtree live par n" if "j \<in> live" "par j = Some q" for j
    using that assms(3) beneath_parent[of par j q n, OF that(2)] by (auto simp: subtree_def)
  ultimately show ?thesis using subtree_sub[of live par n] by (auto simp: kids_def)
qed

end
