(* ===== verification/Ghost.thy ===== *)
theory Ghost
  imports Fork_Tree
begin

text \<open>
  The fork choice of \<^verbatim>\<open>choreo/ghost/fd_ghost.c\<close>: a left-child right-sibling tree
  of blocks in a pool, indexed by block id, with the latest vote of each voter.  A pointer to a block
  is its pool index and the null index is \<open>None\<close>.  A result \<open>None\<close> of an operation is a failed
  \<open>FD_TEST\<close>, an \<open>FD_LOG_CRIT\<close>, a null dereference or a loop that does not end.
\<close>

lemma case_list_mono [partial_function_mono]:
  assumes "monotone orda ordb A" "\<And>y ys. monotone orda ordb (\<lambda>f. B f y ys)"
  shows "monotone orda ordb (\<lambda>f. case xs of [] \<Rightarrow> A f | y # ys \<Rightarrow> B f y ys)"
  using assms by (cases xs) simp_all

section \<open>State\<close>

record fd_ghost_blk =
  blk_id :: fd_hash
  blk_slot :: u64
  blk_parent :: "nat option"
  blk_child :: "nat option"
  blk_sibling :: "nat option"
  blk_stake :: u64
  blk_total_stake :: u64
  blk_valid :: bool
  blk_bank_seq :: u64

record fd_ghost_vtr =
  vtr_prev_stake :: u64
  vtr_prev_slot :: u64
  vtr_prev_block_id :: fd_hash

type_synonym blk_pool = "nat \<Rightarrow> fd_ghost_blk"

text \<open>
  \<open>g_free\<close> is the free stack of the block pool, \<open>g_map\<close> the map from block id to pool index,
  \<open>g_vtrs\<close> the map of voters, \<open>g_vtr_free\<close> the number of free elements of the voter pool and
  \<open>g_dlists\<close> the list of voters parked on each block.
\<close>

record fd_ghost =
  g_root :: "nat option"
  g_width :: u64
  g_pool :: blk_pool
  g_free :: "nat list"
  g_map :: "fd_hash \<rightharpoonup> nat"
  g_vtrs :: "fd_pubkey \<rightharpoonup> fd_ghost_vtr"
  g_vtr_free :: nat
  g_dlists :: "nat \<Rightarrow> fd_pubkey list"

section \<open>Fork choice\<close>

definition fd_ghost_query :: "fd_ghost \<Rightarrow> fd_hash \<Rightarrow> nat option" where
  "fd_ghost_query ghost block_id = g_map ghost block_id"

text \<open>\<open>heavier\<close> is the comparison of the loop over the children.\<close>

definition heavier :: "fd_ghost_blk \<Rightarrow> fd_ghost_blk \<Rightarrow> bool" where
  "heavier child best =
     (if blk_stake child = blk_stake best then blk_slot child < blk_slot best
      else blk_stake best < blk_stake child)"

definition pick_child :: "blk_pool \<Rightarrow> bool \<Rightarrow> nat \<Rightarrow> nat \<Rightarrow> nat" where
  "pick_child pool valid best child =
     (let best = (if \<not> valid then child else best)
      in if heavier (pool child) (pool best) then child else best)"

partial_function (option) best_child :: "blk_pool \<Rightarrow> bool \<Rightarrow> nat \<Rightarrow> nat option \<Rightarrow> (bool \<times> nat) option" where
  "best_child pool valid best child =
     (case child of
        None \<Rightarrow> Some (valid, best)
      | Some c \<Rightarrow>
          if blk_valid (pool c)
          then best_child pool True (pick_child pool valid best c) (blk_sibling (pool c))
          else best_child pool valid best (blk_sibling (pool c)))"

declare best_child.simps [code]

partial_function (option) best_from :: "blk_pool \<Rightarrow> nat \<Rightarrow> nat option" where
  "best_from pool best =
     (case blk_child (pool best) of
        None \<Rightarrow> Some best
      | Some c \<Rightarrow>
          (case best_child pool False best (Some c) of
             None \<Rightarrow> None
           | Some (valid, b) \<Rightarrow> if valid then best_from pool b else Some b))"

declare best_from.simps [code]

definition fd_ghost_best :: "fd_ghost \<Rightarrow> nat \<Rightarrow> nat option" where
  "fd_ghost_best ghost root = best_from (g_pool ghost) root"

text \<open>\<open>PREDICATE_ANCESTOR\<close>: the first block on the way up that satisfies the predicate.\<close>

partial_function (option) predicate_ancestor :: "(fd_ghost_blk \<Rightarrow> bool) \<Rightarrow> blk_pool \<Rightarrow> nat option \<Rightarrow> nat option option" where
  "predicate_ancestor predicate pool ancestor =
     (case ancestor of
        None \<Rightarrow> Some None
      | Some i \<Rightarrow> if predicate (pool i) then Some (Some i)
                  else predicate_ancestor predicate pool (blk_parent (pool i)))"

declare predicate_ancestor.simps [code]

definition fd_ghost_ancestor :: "fd_ghost \<Rightarrow> nat option \<Rightarrow> fd_hash \<Rightarrow> nat option option" where
  "fd_ghost_ancestor ghost descendant ancestor_id =
     predicate_ancestor (\<lambda>b. blk_id b = ancestor_id) (g_pool ghost) descendant"

definition fd_ghost_slot_ancestor :: "fd_ghost \<Rightarrow> nat option \<Rightarrow> u64 \<Rightarrow> nat option option" where
  "fd_ghost_slot_ancestor ghost descendant slot =
     predicate_ancestor (\<lambda>b. blk_slot b = slot) (g_pool ghost) descendant"

definition fd_ghost_invalid_ancestor :: "fd_ghost \<Rightarrow> nat option \<Rightarrow> nat option option" where
  "fd_ghost_invalid_ancestor ghost descendant =
     predicate_ancestor (\<lambda>b. \<not> blk_valid b) (g_pool ghost) descendant"

section \<open>Adding blocks\<close>

definition ghost_insert :: "fd_ghost \<Rightarrow> u64 \<Rightarrow> u64 \<Rightarrow> fd_hash \<Rightarrow> (nat \<times> fd_ghost) option" where
  "ghost_insert ghost bank_seq slot block_id =
     (if g_map ghost block_id \<noteq> None then None
      else case g_free ghost of
             [] \<Rightarrow> None
           | i # free \<Rightarrow>
               Some (i, ghost\<lparr> g_free := free,
                 g_pool := (g_pool ghost)(i :=
                   \<lparr> blk_id = block_id, blk_slot = slot, blk_parent = None, blk_child = None, blk_sibling = None,
                     blk_stake = 0, blk_total_stake = 0, blk_valid = True, blk_bank_seq = bank_seq \<rparr>),
                 g_map := (g_map ghost)(block_id \<mapsto> i) \<rparr>))"

definition fd_ghost_init :: "fd_ghost \<Rightarrow> u64 \<Rightarrow> u64 \<Rightarrow> fd_hash \<Rightarrow> (nat \<times> fd_ghost) option" where
  "fd_ghost_init ghost bank_seq slot block_id =
     (case ghost_insert ghost bank_seq slot block_id of
        None \<Rightarrow> None
      | Some (blk, ghost) \<Rightarrow> Some (blk, ghost\<lparr> g_root := Some blk, g_width := 1 \<rparr>))"

partial_function (option) last_sibling :: "blk_pool \<Rightarrow> nat \<Rightarrow> nat option" where
  "last_sibling pool sibling =
     (case blk_sibling (pool sibling) of None \<Rightarrow> Some sibling | Some s \<Rightarrow> last_sibling pool s)"

declare last_sibling.simps [code]

definition fd_ghost_insert :: "fd_ghost \<Rightarrow> u64 \<Rightarrow> u64 \<Rightarrow> fd_hash \<Rightarrow> fd_hash \<Rightarrow> (nat \<times> fd_ghost) option" where
  "fd_ghost_insert ghost bank_seq slot block_id parent_block_id =
     (case ghost_insert ghost bank_seq slot block_id of
        None \<Rightarrow> None
      | Some (blk, ghost) \<Rightarrow>
          (case g_map ghost parent_block_id of
             None \<Rightarrow> None
           | Some parent \<Rightarrow>
               (let pool = (g_pool ghost)(blk := (g_pool ghost blk)\<lparr> blk_parent := Some parent \<rparr>)
                in case blk_child (pool parent) of
                     None \<Rightarrow> Some (blk, ghost\<lparr> g_pool := pool(parent := (pool parent)\<lparr> blk_child := Some blk \<rparr>) \<rparr>)
                   | Some c \<Rightarrow>
                       (case last_sibling pool c of
                          None \<Rightarrow> None
                        | Some s \<Rightarrow>
                            Some (blk, ghost\<lparr> g_pool := pool(s := (pool s)\<lparr> blk_sibling := Some blk \<rparr>),
                                              g_width := g_width ghost + 1 \<rparr>)))))"

section \<open>Votes\<close>

partial_function (option) sub_stake :: "u64 \<Rightarrow> nat option \<Rightarrow> blk_pool \<Rightarrow> blk_pool option" where
  "sub_stake stake ancestor pool =
     (case ancestor of
        None \<Rightarrow> Some pool
      | Some i \<Rightarrow>
          if blk_stake (pool i) < stake then None
          else sub_stake stake (blk_parent (pool i))
                 (pool(i := (pool i)\<lparr> blk_stake := blk_stake (pool i) - stake \<rparr>)))"

declare sub_stake.simps [code]

partial_function (option) add_stake :: "u64 \<Rightarrow> nat option \<Rightarrow> blk_pool \<Rightarrow> blk_pool option" where
  "add_stake stake ancestor pool =
     (case ancestor of
        None \<Rightarrow> Some pool
      | Some i \<Rightarrow>
          if blk_stake (pool i) + stake < stake then None
          else add_stake stake (blk_parent (pool i))
                 (pool(i := (pool i)\<lparr> blk_stake := blk_stake (pool i) + stake \<rparr>)))"

declare add_stake.simps [code]

definition FD_GHOST_SUCCESS :: int where "FD_GHOST_SUCCESS = 0"
definition FD_GHOST_ERR_NOT_VOTED :: int where "FD_GHOST_ERR_NOT_VOTED = - 1"
definition FD_GHOST_ERR_VOTE_TOO_OLD :: int where "FD_GHOST_ERR_VOTE_TOO_OLD = - 2"
definition FD_GHOST_ERR_ALREADY_VOTED :: int where "FD_GHOST_ERR_ALREADY_VOTED = - 3"

text \<open>The voter leaves the block of the previous vote; a new voter takes an element of the pool.\<close>

definition unpark_vtr :: "fd_ghost \<Rightarrow> fd_pubkey \<Rightarrow> fd_ghost option" where
  "unpark_vtr ghost vote_acc =
     (case g_vtrs ghost vote_acc of
        None \<Rightarrow> if g_vtr_free ghost = 0 then None else Some (ghost\<lparr> g_vtr_free := g_vtr_free ghost - 1 \<rparr>)
      | Some vtr \<Rightarrow>
          (let prev = g_map ghost (vtr_prev_block_id vtr);
               ghost = (case prev of
                          None \<Rightarrow> ghost
                        | Some i \<Rightarrow> ghost\<lparr> g_dlists := (g_dlists ghost)(i := remove1 vote_acc (g_dlists ghost i)) \<rparr>)
           in map_option (\<lambda>pool. ghost\<lparr> g_pool := pool \<rparr>) (sub_stake (vtr_prev_stake vtr) prev (g_pool ghost))))"

definition fd_ghost_count_vote :: "fd_ghost \<Rightarrow> nat \<Rightarrow> fd_pubkey \<Rightarrow> u64 \<Rightarrow> u64 \<Rightarrow> (int \<times> fd_ghost) option" where
  "fd_ghost_count_vote ghost blk vote_acc stake slot =
     (if slot = - 1 then Some (FD_GHOST_ERR_NOT_VOTED, ghost)
      else case g_root ghost of None \<Rightarrow> None | Some root \<Rightarrow>
      if slot < blk_slot (g_pool ghost root) then Some (FD_GHOST_ERR_VOTE_TOO_OLD, ghost)
      else if (case g_vtrs ghost vote_acc of Some vtr \<Rightarrow> \<not> vtr_prev_slot vtr < slot | None \<Rightarrow> False)
      then Some (FD_GHOST_ERR_ALREADY_VOTED, ghost)
      else case unpark_vtr ghost vote_acc of None \<Rightarrow> None | Some ghost \<Rightarrow>
           let ghost = ghost\<lparr> g_dlists := (g_dlists ghost)(blk := g_dlists ghost blk @ [vote_acc]) \<rparr>
           in case add_stake stake (Some blk) (g_pool ghost) of None \<Rightarrow> None | Some pool \<Rightarrow>
              Some (FD_GHOST_SUCCESS, ghost\<lparr> g_pool := pool,
                g_vtrs := (g_vtrs ghost)(vote_acc \<mapsto>
                  \<lparr> vtr_prev_stake = stake, vtr_prev_slot = slot, vtr_prev_block_id = blk_id (pool blk) \<rparr>) \<rparr>))"

section \<open>Moving the root\<close>

text \<open>
  The loop over the children of a pruned block.  The children other than the new root leave the map
  and join the queue, which the code links through their \<open>next\<close> field; the width drops by one for
  every child with a right sibling.
\<close>

definition drop_fork :: "nat \<Rightarrow> fd_ghost \<Rightarrow> fd_ghost" where
  "drop_fork c ghost =
     ghost\<lparr> g_width := g_width ghost - (if blk_sibling (g_pool ghost c) = None then 0 else 1) \<rparr>"

definition unmap :: "nat \<Rightarrow> fd_ghost \<Rightarrow> fd_ghost" where
  "unmap c ghost = ghost\<lparr> g_map := (g_map ghost)(blk_id (g_pool ghost c) := None) \<rparr>"

partial_function (option) prune_children ::
    "nat \<Rightarrow> nat option \<Rightarrow> nat list \<Rightarrow> fd_ghost \<Rightarrow> (nat list \<times> fd_ghost) option" where
  "prune_children newr child queue ghost =
     (case child of
        None \<Rightarrow> Some (queue, ghost)
      | Some c \<Rightarrow>
          if c \<noteq> newr
          then (case g_map ghost (blk_id (g_pool ghost c)) of
                  None \<Rightarrow> None
                | Some i \<Rightarrow> prune_children newr (blk_sibling (g_pool ghost c)) (queue @ [i])
                              (drop_fork c (unmap c ghost)))
          else prune_children newr (blk_sibling (g_pool ghost c)) queue (drop_fork c ghost))"

declare prune_children.simps [code]

text \<open>Releasing the voters parked on a pruned block, and the block.\<close>

definition release_blk :: "nat \<Rightarrow> fd_ghost \<Rightarrow> fd_ghost" where
  "release_blk i ghost = ghost\<lparr>
     g_vtrs := (\<lambda>a. if a \<in> set (g_dlists ghost i) then None else g_vtrs ghost a),
     g_vtr_free := g_vtr_free ghost + length (g_dlists ghost i),
     g_dlists := (g_dlists ghost)(i := []),
     g_free := i # g_free ghost \<rparr>"

partial_function (option) prune :: "nat \<Rightarrow> nat list \<Rightarrow> fd_ghost \<Rightarrow> fd_ghost option" where
  "prune newr queue ghost =
     (case queue of
        [] \<Rightarrow> Some ghost
      | h # queue \<Rightarrow>
          (case prune_children newr (blk_child (g_pool ghost h)) queue ghost of
             None \<Rightarrow> None
           | Some (queue, ghost) \<Rightarrow> prune newr queue (release_blk h ghost)))"

declare prune.simps [code]

definition fd_ghost_publish :: "fd_ghost \<Rightarrow> nat \<Rightarrow> fd_ghost option" where
  "fd_ghost_publish ghost newr =
     (case g_root ghost of None \<Rightarrow> None | Some oldr \<Rightarrow>
      if oldr = newr then Some ghost
      else case g_map ghost (blk_id (g_pool ghost oldr)) of None \<Rightarrow> None | Some h \<Rightarrow>
           case prune newr [h] (unmap oldr ghost) of
             None \<Rightarrow> None
           | Some ghost \<Rightarrow>
               Some (ghost\<lparr> g_pool := (g_pool ghost)(newr := (g_pool ghost newr)\<lparr> blk_parent := None \<rparr>),
                            g_root := Some newr \<rparr>))"

section \<open>Equivocation\<close>

text \<open>The walk back up from a leaf to the next block to visit, or to the root of the walk.\<close>

partial_function (option) backtrack :: "blk_pool \<Rightarrow> nat \<Rightarrow> nat \<Rightarrow> nat option" where
  "backtrack pool root cur =
     (if cur = root then Some cur
      else case blk_sibling (pool cur) of
             Some s \<Rightarrow> Some s
           | None \<Rightarrow> (case blk_parent (pool cur) of None \<Rightarrow> None | Some p \<Rightarrow> backtrack pool root p))"

declare backtrack.simps [code]

definition invalidate :: "nat \<Rightarrow> blk_pool \<Rightarrow> blk_pool" where
  "invalidate i pool = pool(i := (pool i)\<lparr> blk_valid := False \<rparr>)"

partial_function (option) mark_invalid :: "nat \<Rightarrow> nat \<Rightarrow> blk_pool \<Rightarrow> blk_pool option" where
  "mark_invalid root cur pool =
     (case blk_child (pool cur) of
        Some c \<Rightarrow> mark_invalid root c (invalidate cur pool)
      | None \<Rightarrow>
          (case backtrack (invalidate cur pool) root cur of
             None \<Rightarrow> None
           | Some n \<Rightarrow> if n = root then Some (invalidate cur pool)
                       else mark_invalid root n (invalidate cur pool)))"

declare mark_invalid.simps [code]

definition fd_ghost_eqvoc :: "fd_ghost \<Rightarrow> fd_hash \<Rightarrow> fd_ghost option" where
  "fd_ghost_eqvoc ghost block_id =
     (case g_map ghost block_id of
        None \<Rightarrow> Some ghost
      | Some blk \<Rightarrow> map_option (\<lambda>pool. ghost\<lparr> g_pool := pool \<rparr>) (mark_invalid blk blk (g_pool ghost)))"

partial_function (option) mark_valid :: "nat option \<Rightarrow> blk_pool \<Rightarrow> blk_pool option" where
  "mark_valid anc pool =
     (case anc of
        None \<Rightarrow> Some pool
      | Some i \<Rightarrow> if blk_valid (pool i) then Some pool
                  else mark_valid (blk_parent (pool i)) (pool(i := (pool i)\<lparr> blk_valid := True \<rparr>)))"

declare mark_valid.simps [code]

definition fd_ghost_confirm :: "fd_ghost \<Rightarrow> fd_hash \<Rightarrow> fd_ghost option" where
  "fd_ghost_confirm ghost confirmed_block_id =
     (case g_map ghost confirmed_block_id of
        None \<Rightarrow> Some ghost
      | Some blk \<Rightarrow> map_option (\<lambda>pool. ghost\<lparr> g_pool := pool \<rparr>) (mark_valid (Some blk) (g_pool ghost)))"

section \<open>The deepest block\<close>

text \<open>
  A level order walk that links its queue through the \<open>next\<close> fields of the map, so that the blocks in the
  queue are out of the map and every block goes back into it when it leaves the queue.
\<close>

definition remap :: "nat \<Rightarrow> fd_ghost \<Rightarrow> fd_ghost option" where
  "remap i ghost =
     (if g_map ghost (blk_id (g_pool ghost i)) \<noteq> None then None
      else Some (ghost\<lparr> g_map := (g_map ghost)(blk_id (g_pool ghost i) \<mapsto> i) \<rparr>))"

partial_function (option) queue_children :: "nat option \<Rightarrow> nat list \<Rightarrow> fd_ghost \<Rightarrow> (nat list \<times> fd_ghost) option" where
  "queue_children child queue ghost =
     (case child of
        None \<Rightarrow> Some (queue, ghost)
      | Some c \<Rightarrow>
          if g_map ghost (blk_id (g_pool ghost c)) = None then None
          else queue_children (blk_sibling (g_pool ghost c)) (queue @ [c]) (unmap c ghost))"

declare queue_children.simps [code]

partial_function (option) deepest_from :: "nat \<Rightarrow> nat list \<Rightarrow> fd_ghost \<Rightarrow> (nat \<times> fd_ghost) option" where
  "deepest_from prev queue ghost =
     (case queue of
        [] \<Rightarrow> Some (prev, ghost)
      | h # queue \<Rightarrow>
          (case queue_children (blk_child (g_pool ghost h)) queue ghost of
             None \<Rightarrow> None
           | Some (queue, ghost) \<Rightarrow>
               (case remap h ghost of None \<Rightarrow> None | Some ghost \<Rightarrow> deepest_from h queue ghost)))"

declare deepest_from.simps [code]

definition fd_ghost_deepest :: "fd_ghost \<Rightarrow> nat \<Rightarrow> (nat \<times> fd_ghost) option" where
  "fd_ghost_deepest ghost root =
     (case g_map ghost (blk_id (g_pool ghost root)) of
        None \<Rightarrow> None
      | Some h \<Rightarrow> deepest_from h [h] (unmap root ghost))"

end
