(* ===== verification/Fd_Double.thy ===== *)
theory Fd_Double
  imports Fd_Prelude "HOL-Library.Log_Nat"
begin

text \<open>
  The double precision arithmetic of the stake ratios: a conversion from \<open>ulong\<close>, one division and one
  comparison, rounded to nearest with ties to even.  A finite double is the rational it denotes.  The
  quotient of two stakes lies between \<open>2 ^ - 64\<close> and \<open>2 ^ 64\<close>, so the exponent never leaves the range of
  a normal double.
\<close>

section \<open>Rounding\<close>

definition round_even :: "rat \<Rightarrow> int" where
  "round_even x =
     (let f = \<lfloor>x\<rfloor>; d = x - of_int f in if d < 1 / 2 \<or> d = 1 / 2 \<and> even f then f else f + 1)"

definition dbl_exp :: "rat \<Rightarrow> int" where
  "dbl_exp x =
     (let (n, d) = quotient_of x; e = int (floorlog 2 (nat n)) - int (floorlog 2 (nat d))
      in if 2 powi e \<le> x then e else e - 1)"

text \<open>The spacing of the doubles around \<open>x\<close>, with 53 bits of significand.\<close>

definition ulp :: "rat \<Rightarrow> rat" where
  "ulp x = 2 powi (dbl_exp x - 52)"

definition fl :: "rat \<Rightarrow> rat" where
  "fl x = (if x \<le> 0 then 0 else of_int (round_even (x / ulp x)) * ulp x)"

section \<open>Doubles\<close>

datatype fd_double = Dbl rat | Inf | NaN

definition rat_of_ulong :: "u64 \<Rightarrow> rat" where
  "rat_of_ulong x = of_nat (unat x)"

definition dbl_of_ulong :: "u64 \<Rightarrow> fd_double" where
  "dbl_of_ulong x = Dbl (fl (rat_of_ulong x))"

fun dbl_div :: "fd_double \<Rightarrow> fd_double \<Rightarrow> fd_double" where
  "dbl_div (Dbl x) (Dbl y) = (if y = 0 then (if x = 0 then NaN else Inf) else Dbl (fl (x / y)))"
| "dbl_div (Dbl x) Inf = Dbl 0"
| "dbl_div Inf (Dbl y) = Inf"
| "dbl_div _ _ = NaN"

text \<open>\<open>x > y\<close>; every comparison with a NaN is false.\<close>

fun dbl_gt :: "fd_double \<Rightarrow> fd_double \<Rightarrow> bool" where
  "dbl_gt (Dbl x) (Dbl y) \<longleftrightarrow> y < x"
| "dbl_gt Inf (Dbl y) \<longleftrightarrow> True"
| "dbl_gt _ _ \<longleftrightarrow> False"

section \<open>Rounding is monotone\<close>

lemma round_even_near: "\<bar>of_int (round_even x) - x\<bar> \<le> 1 / 2"
proof -
  define f where "f = \<lfloor>x\<rfloor>"
  have "of_int f \<le> x" "x < of_int f + 1" unfolding f_def by linarith+
  thus ?thesis by (simp add: round_even_def Let_def abs_le_iff f_def[symmetric] algebra_simps)
qed

lemma round_even_floor: "\<lfloor>x\<rfloor> \<le> round_even x" "round_even x \<le> \<lfloor>x\<rfloor> + 1"
  by (simp_all add: round_even_def Let_def)

lemma round_even_of_int [simp]: "round_even (of_int n) = n"
  by (simp add: round_even_def)

lemma round_even_mono:
  assumes "x \<le> y"
  shows "round_even x \<le> round_even y"
proof (cases "\<lfloor>x\<rfloor> = \<lfloor>y\<rfloor>")
  case True
  thus ?thesis using assms by (auto simp: round_even_def Let_def)
next
  case False
  hence "\<lfloor>x\<rfloor> + 1 \<le> \<lfloor>y\<rfloor>" using floor_mono[OF assms] by linarith
  thus ?thesis using round_even_floor[of x] round_even_floor[of y] by linarith
qed

lemma pow_le_of_int:
  assumes "0 < n"
  shows "2 ^ k \<le> (of_int n :: rat) \<longleftrightarrow> 2 ^ k \<le> nat n"
proof -
  have "2 ^ k \<le> (of_int n :: rat) \<longleftrightarrow> of_nat (2 ^ k) \<le> (of_nat (nat n) :: rat)" using assms by simp
  also have "\<dots> \<longleftrightarrow> 2 ^ k \<le> nat n" by (simp only: of_nat_le_iff)
  finally show ?thesis .
qed

lemma pow_gt_of_int: "0 < n \<Longrightarrow> (of_int n :: rat) < 2 * 2 ^ k \<longleftrightarrow> nat n < 2 * 2 ^ k"
  using pow_le_of_int[of n "Suc k"] by (simp add: not_le[symmetric] del: not_le)

lemma dbl_exp_bounds:
  assumes "0 < x"
  shows "2 powi dbl_exp x \<le> x" "x < 2 powi (dbl_exp x + 1)"
proof -
  obtain n d where q: "quotient_of x = (n, d)" by force
  have d: "0 < d" using quotient_of_denom_pos[OF q] .
  have x: "x = of_int n / of_int d" using quotient_of_div[OF q] .
  have n: "0 < n" using assms d by (simp add: x zero_less_divide_iff)
  define a b where "a = floorlog 2 (nat n)" and "b = floorlog 2 (nat d)"
  have nn: "2 ^ (a - 1) \<le> nat n" "nat n < 2 ^ a" using floorlog_bounds[of "nat n" 2] n by (simp_all add: a_def)
  have dd: "2 ^ (b - 1) \<le> nat d" "nat d < 2 ^ b" using floorlog_bounds[of "nat d" 2] d by (simp_all add: b_def)
  have ab: "0 < a" "0 < b" using n d by (simp_all add: a_def b_def floorlog_def)
  obtain a' b' where a': "a = Suc a'" and b': "b = Suc b'" using ab by (metis Suc_pred)
  have N: "2 ^ a' \<le> (of_int n :: rat)" "(of_int n :: rat) < 2 * 2 ^ a'"
    using nn n by (simp_all add: a' pow_le_of_int pow_gt_of_int)
  have D: "2 ^ b' \<le> (of_int d :: rat)" "(of_int d :: rat) < 2 * 2 ^ b'"
    using dd d by (simp_all add: b' pow_le_of_int pow_gt_of_int)
  have p: "2 powi (int a - int b) = (2 ^ a' / 2 ^ b' :: rat)"
    by (simp add: power_int_diff a' b')
  have up: "x < 2 * (2 ^ a' / 2 ^ b')"
  proof -
    have "x \<le> of_int n / 2 ^ b'" unfolding x using D(1) n d by (intro divide_left_mono) simp_all
    also have "\<dots> < 2 * 2 ^ a' / 2 ^ b'" using N(2) by (intro divide_strict_right_mono) simp_all
    finally show ?thesis by simp
  qed
  have lo: "(2 ^ a' / 2 ^ b') / 2 \<le> x"
  proof -
    have "2 ^ a' / (2 * 2 ^ b') \<le> of_int n / (2 * 2 ^ b' :: rat)" using N(1) by (intro divide_right_mono) simp_all
    also have "\<dots> \<le> x" unfolding x using D(2) n d by (intro divide_left_mono) simp_all
    finally show ?thesis by simp
  qed
  have e: "dbl_exp x = (if 2 powi (int a - int b) \<le> x then int a - int b else int a - int b - 1)"
    by (simp add: dbl_exp_def q a_def b_def)
  have h: "2 powi (int a - int b - 1) = (2 ^ a' / 2 ^ b' :: rat) / 2"
    by (subst power_int_diff) (simp_all add: p)
  have s: "2 powi (int a - int b + 1) = 2 * (2 ^ a' / 2 ^ b' :: rat)"
    by (subst power_int_add) (simp_all add: p)
  show "2 powi dbl_exp x \<le> x" using lo by (simp add: e h)
  show "x < 2 powi (dbl_exp x + 1)" using up p by (simp add: e s)
qed

lemma powi_two_mono: "a \<le> b \<Longrightarrow> 2 powi a \<le> (2 powi b :: rat)"
  by (rule power_int_increasing) simp_all

lemma powi_two_less: "(2 powi a :: rat) < 2 powi b \<Longrightarrow> a < b"
  using powi_two_mono[of b a] by linarith

lemma ulp_pos [simp]: "0 < ulp x"
  by (simp add: ulp_def)

lemma dbl_exp_mono: "0 < x \<Longrightarrow> x \<le> y \<Longrightarrow> dbl_exp x \<le> dbl_exp y"
  using dbl_exp_bounds[of x] dbl_exp_bounds[of y] powi_two_less[of "dbl_exp x" "dbl_exp y + 1"] by linarith

text \<open>Rounding stays between the powers of two around its argument.\<close>

lemma fl_bounds:
  assumes "0 < x"
  shows "2 powi dbl_exp x \<le> fl x" "fl x \<le> 2 powi (dbl_exp x + 1)"
proof -
  have e: "2 powi dbl_exp x = of_int (2 ^ 52) * ulp x" by (simp add: ulp_def power_int_diff)
  have e': "2 powi (dbl_exp x + 1) = of_int (2 ^ 53) * ulp x" by (simp add: ulp_def power_int_diff power_int_add)
  have "of_int (2 ^ 52) \<le> x / ulp x" using dbl_exp_bounds(1)[OF assms] unfolding e by (simp add: pos_le_divide_eq)
  from round_even_mono[OF this] have lo: "2 ^ 52 \<le> round_even (x / ulp x)" by (simp only: round_even_of_int)
  have "x / ulp x \<le> of_int (2 ^ 53)" using dbl_exp_bounds(2)[OF assms] unfolding e' by (simp add: pos_divide_le_eq)
  from round_even_mono[OF this] have up: "round_even (x / ulp x) \<le> 2 ^ 53" by (simp only: round_even_of_int)
  have f: "fl x = of_int (round_even (x / ulp x)) * ulp x" using assms by (simp add: fl_def)
  show "2 powi dbl_exp x \<le> fl x"
    unfolding e f by (rule mult_right_mono) (simp_all only: of_int_le_iff lo ulp_pos less_imp_le)
  show "fl x \<le> 2 powi (dbl_exp x + 1)"
    unfolding e' f by (rule mult_right_mono) (simp_all only: of_int_le_iff up ulp_pos less_imp_le)
qed

lemma fl_pos: "0 < x \<Longrightarrow> 0 < fl x"
  using fl_bounds(1)[of x] zero_less_power_int[of "2 :: rat" "dbl_exp x"] by linarith

lemma fl_nonneg: "0 \<le> fl x"
  using fl_pos[of x] by (cases "0 < x") (simp_all add: fl_def)

lemma fl_zero_iff: "0 \<le> x \<Longrightarrow> fl x = 0 \<longleftrightarrow> x = 0"
  using fl_pos[of x] by (auto simp: fl_def)

lemma fl_mono:
  assumes "x \<le> y"
  shows "fl x \<le> fl y"
proof (cases "0 < x")
  case True
  hence y: "0 < y" using assms by linarith
  show ?thesis
  proof (cases "dbl_exp x = dbl_exp y")
    case True
    have "x / ulp y \<le> y / ulp y" using assms by (intro divide_right_mono) (simp_all add: less_imp_le)
    hence "of_int (round_even (x / ulp y)) * ulp y \<le> of_int (round_even (y / ulp y)) * ulp y"
      using round_even_mono by (intro mult_right_mono) (simp_all add: less_imp_le)
    thus ?thesis using \<open>0 < x\<close> y True by (simp add: fl_def ulp_def)
  next
    case False
    hence "dbl_exp x + 1 \<le> dbl_exp y" using dbl_exp_mono[OF True assms] by linarith
    from powi_two_mono[OF this] show ?thesis using fl_bounds[OF True] fl_bounds[OF y] by linarith
  qed
next
  case False
  hence "fl x = 0" by (simp add: fl_def)
  thus ?thesis by (simp add: fl_nonneg)
qed

text \<open>The relative error is at most half a unit in the last place.\<close>

lemma fl_error:
  assumes "0 \<le> x"
  shows "\<bar>fl x - x\<bar> \<le> x / 2 ^ 53"
proof (cases "x = 0")
  case False
  hence x: "0 < x" using assms by simp
  have "\<bar>of_int (round_even (x / ulp x)) - x / ulp x\<bar> * ulp x \<le> 1 / 2 * ulp x"
    by (intro mult_right_mono[OF round_even_near]) (simp add: less_imp_le)
  hence "\<bar>(of_int (round_even (x / ulp x)) - x / ulp x) * ulp x\<bar> \<le> 1 / 2 * ulp x"
    by (simp only: abs_mult abs_of_pos[OF ulp_pos])
  hence "\<bar>fl x - x\<bar> \<le> ulp x / 2"
    using x ulp_pos[of x] by (simp add: fl_def left_diff_distrib)
  moreover have "ulp x * 2 ^ 52 \<le> x" using dbl_exp_bounds(1)[OF x] by (simp add: ulp_def power_int_diff)
  ultimately show ?thesis by (simp add: field_simps)
qed (simp add: fl_def)

section \<open>Ratios of stakes\<close>

definition ratio_above :: "u64 \<Rightarrow> u64 \<Rightarrow> fd_double \<Rightarrow> bool" where
  "ratio_above s t ratio = dbl_gt (dbl_div (dbl_of_ulong s) (dbl_of_ulong t)) ratio"

lemma rat_of_ulong_zero [simp]: "rat_of_ulong x = 0 \<longleftrightarrow> x = 0"
  using of_nat_eq_0_iff[of "unat x", where ?'a = rat] unfolding rat_of_ulong_def by (metis unat_eq_zero)

lemma rat_of_ulong_nonneg [simp]: "0 \<le> rat_of_ulong x"
  unfolding rat_of_ulong_def by (rule of_nat_0_le_iff)

lemma rat_of_ulong_pos: "x \<noteq> 0 \<Longrightarrow> 0 < rat_of_ulong x"
  using rat_of_ulong_nonneg[of x] rat_of_ulong_zero[of x] by linarith

lemma rat_of_ulong_mono: "x \<le> y \<Longrightarrow> rat_of_ulong x \<le> rat_of_ulong y"
  unfolding rat_of_ulong_def by (simp only: of_nat_le_iff word_le_nat_alt)

lemma fl_ulong_zero [simp]: "fl (rat_of_ulong x) = 0 \<longleftrightarrow> x = 0"
  by (simp add: fl_zero_iff)

lemma ratio_above_iff:
  "ratio_above s t (Dbl q) \<longleftrightarrow>
     (if t = 0 then s \<noteq> 0 else q < fl (fl (rat_of_ulong s) / fl (rat_of_ulong t)))"
  by (simp add: ratio_above_def dbl_of_ulong_def)

lemma ratio_above_mono:
  assumes "ratio_above s t (Dbl q)" "s \<le> s'"
  shows "ratio_above s' t (Dbl q)"
proof (cases "t = 0")
  case True
  thus ?thesis using assms by (auto simp: ratio_above_iff)
next
  case False
  have "fl (rat_of_ulong s) \<le> fl (rat_of_ulong s')" using assms(2) by (intro fl_mono rat_of_ulong_mono)
  from divide_right_mono[OF this fl_nonneg]
  have "fl (fl (rat_of_ulong s) / fl (rat_of_ulong t)) \<le> fl (fl (rat_of_ulong s') / fl (rat_of_ulong t))"
    by (rule fl_mono)
  thus ?thesis using assms(1) False by (simp add: ratio_above_iff)
qed

lemma fl_range:
  assumes "0 \<le> x"
  shows "x * (2 ^ 53 - 1) \<le> fl x * 2 ^ 53" "fl x * 2 ^ 53 \<le> x * (2 ^ 53 + 1)"
proof -
  have "\<bar>fl x - x\<bar> * 2 ^ 53 \<le> x" using fl_error[OF assms] by (simp add: pos_le_divide_eq)
  hence "(x - fl x) * 2 ^ 53 \<le> x" "(fl x - x) * 2 ^ 53 \<le> x" by (simp_all add: abs_le_iff abs_if split: if_splits)
  thus "x * (2 ^ 53 - 1) \<le> fl x * 2 ^ 53" "fl x * 2 ^ 53 \<le> x * (2 ^ 53 + 1)" by (simp_all add: algebra_simps)
qed

text \<open>A ratio that passes the comparison is above the constant up to the rounding of the two stakes.\<close>

lemma ratio_above_sound:
  assumes "ratio_above s t (Dbl (fl q))" "t \<noteq> 0"
  shows "q * rat_of_ulong t * (2 ^ 53 - 1) < rat_of_ulong s * (2 ^ 53 + 1)"
proof -
  let ?s = "rat_of_ulong s" and ?t = "rat_of_ulong t"
  have t: "0 < ?t" by (rule rat_of_ulong_pos[OF assms(2)])
  have "fl q < fl (fl ?s / fl ?t)" using assms by (simp add: ratio_above_iff)
  hence "q < fl ?s / fl ?t" using fl_mono[of "fl ?s / fl ?t" q] by linarith
  hence "q * fl ?t < fl ?s" using fl_pos[OF t] by (simp add: pos_less_divide_eq)
  moreover have "q * (?t * (2 ^ 53 - 1)) \<le> q * (fl ?t * 2 ^ 53)" if "0 \<le> q"
    using fl_range(1)[of ?t] that by (intro mult_left_mono) simp_all
  ultimately show ?thesis
  proof (cases "0 \<le> q")
    case True
    have "q * (fl ?t * 2 ^ 53) < fl ?s * 2 ^ 53" using \<open>q * fl ?t < fl ?s\<close> by simp
    thus ?thesis
      using fl_range(2)[of ?s] \<open>0 \<le> q \<Longrightarrow> q * (?t * (2 ^ 53 - 1)) \<le> q * (fl ?t * 2 ^ 53)\<close>[OF True]
      by (simp add: mult.assoc)
  next
    case False
    hence "q * ?t * (2 ^ 53 - 1) < 0" using t by (simp add: mult_neg_pos)
    moreover have "0 \<le> ?s * (2 ^ 53 + 1)" by simp
    ultimately show ?thesis by linarith
  qed
qed

text \<open>A ratio clearly above the constant passes.\<close>

lemma ratio_above_complete:
  assumes "q * rat_of_ulong t * (2 ^ 53 + 1) ^ 2 < rat_of_ulong s * (2 ^ 53 - 1) ^ 2" "t \<noteq> 0" "0 \<le> q"
  shows "ratio_above s t (Dbl (fl q))"
proof -
  let ?s = "rat_of_ulong s" and ?t = "rat_of_ulong t"
  have t: "0 < ?t" by (rule rat_of_ulong_pos[OF assms(2)])
  let ?r = "fl ?s / fl ?t"
  have r: "0 \<le> ?r" by (simp add: fl_nonneg)
  have "?s * (2 ^ 53 - 1) ^ 2 \<le> fl ?s * 2 ^ 53 * (2 ^ 53 - 1)"
    using mult_right_mono[OF fl_range(1)[of ?s], of "2 ^ 53 - 1"] by (simp add: power2_eq_square mult.assoc)
  also have "\<dots> = ?r * (2 ^ 53 - 1) * (fl ?t * 2 ^ 53)" using assms(2) by simp
  also have "\<dots> \<le> ?r * (2 ^ 53 - 1) * (?t * (2 ^ 53 + 1))"
    using fl_range(2)[of ?t] by (intro mult_left_mono mult_nonneg_nonneg r) simp_all
  finally have "q * (2 ^ 53 + 1) * (?t * (2 ^ 53 + 1)) < ?r * (2 ^ 53 - 1) * (?t * (2 ^ 53 + 1))"
    using assms(1) by (simp add: power2_eq_square mult.assoc mult.left_commute)
  moreover have "0 \<le> ?t * (2 ^ 53 + 1)" by simp
  ultimately have "q * (2 ^ 53 + 1) < ?r * (2 ^ 53 - 1)" by (rule mult_right_less_imp_less)
  also have "\<dots> \<le> fl ?r * 2 ^ 53" by (rule fl_range(1)[OF r])
  finally have "fl q * 2 ^ 53 < fl ?r * 2 ^ 53" using fl_range(2)[OF assms(3)] by linarith
  thus ?thesis using assms(2) by (simp add: ratio_above_iff)
qed

end
