(* ===== verification/Tower.thy ===== *)
theory Tower
  imports Tower_Votes Ghost Fd_Double "HOL-Library.Monad_Syntax"
begin

text \<open>
  The voting rules of \<^verbatim>\<open>choreo/tower/fd_tower.c\<close> and \<^verbatim>\<open>fd_tower_stakes.c\<close>:
  the tower's view of the blocks, the lockout intervals and stakes of the voters, the lockout, switch,
  threshold and propagation checks, the choice of a block to vote for and a block to build on, and the
  reconciliation with the tower in the vote account.  A result \<open>None\<close> is a failed \<open>FD_TEST\<close>, an
  \<open>FD_LOG_CRIT\<close>, a null dereference, a broken contract of a map or a loop that does not end.
\<close>

section \<open>State\<close>

record fd_tower_blk =
  tb_slot :: u64
  tb_parent_slot :: u64
  tb_epoch :: u64
  tb_bank_hash :: fd_hash
  tb_block_hash :: fd_hash
  tb_replayed :: bool
  tb_replayed_block_id :: fd_hash
  tb_voted :: bool
  tb_voted_block_id :: fd_hash
  tb_confirmed :: bool
  tb_confirmed_block_id :: fd_hash
  tb_leader :: bool
  tb_propagated :: bool
  tb_prev_leader_slot :: u64

record fd_tower_vtr =
  tv_vote_acc :: fd_pubkey
  tv_stake :: u64
  tv_votes :: "fd_tower_vote list"
  tv_root :: u64

text \<open>
  An element of the map of lockout intervals.  The address of a sentinel is not set by the code and not
  read.
\<close>

record lockout_interval =
  li_addr :: fd_hash
  li_start :: u64

record fd_tower_stakes_vtr =
  sv_addr :: fd_hash
  sv_slot :: u64
  sv_prev :: "nat option"
  sv_stake :: u64

text \<open>
  \<open>t_blocks\<close> is the map of blocks by slot, \<open>t_blk_free\<close> the number of free elements of its pool.
  \<open>t_lck\<close> gives the elements of the multimap of lockout intervals by key, the newest first, as an
  insertion goes to the head of a chain.  \<open>t_stk_map\<close> maps a voter and a slot to an element of
  \<open>t_stk_pool\<close>, \<open>t_stk_slot\<close> a slot to the last element of its linked list.
\<close>

record fd_tower =
  t_votes :: "fd_tower_vote list"
  t_root :: u64
  t_blocks :: "u64 \<rightharpoonup> fd_tower_blk"
  t_blk_free :: nat
  t_vtrs :: "fd_tower_vtr list"
  t_lck :: "u64 \<Rightarrow> lockout_interval list"
  t_lck_free :: nat
  t_stk_map :: "fd_hash \<times> u64 \<rightharpoonup> nat"
  t_stk_pool :: "nat \<Rightarrow> fd_tower_stakes_vtr"
  t_stk_free :: "nat list"
  t_stk_slot :: "u64 \<rightharpoonup> nat"
  t_used_acc :: "nat set"

record fd_tower_out =
  out_reset_slot :: u64
  out_reset_block_id :: fd_hash
  out_vote_slot :: u64
  out_vote_block_id :: fd_hash
  out_vote_bank_hash :: fd_hash
  out_root_slot :: u64
  out_root_block_id :: fd_hash

section \<open>Blocks\<close>

type_synonym tower_blocks = "u64 \<rightharpoonup> fd_tower_blk"

definition fd_tower_blocks_query :: "fd_tower \<Rightarrow> u64 \<Rightarrow> fd_tower_blk option" where
  "fd_tower_blocks_query tower slot = t_blocks tower slot"

definition fd_tower_blocks_insert :: "fd_tower \<Rightarrow> u64 \<Rightarrow> u64 \<Rightarrow> fd_tower option" where
  "fd_tower_blocks_insert tower slot parent_slot =
     (if t_blk_free tower = 0 \<or> t_blocks tower slot \<noteq> None then None
      else Some (tower\<lparr> t_blk_free := t_blk_free tower - 1,
        t_blocks := (t_blocks tower)(slot \<mapsto>
          \<lparr> tb_slot = slot, tb_parent_slot = parent_slot, tb_epoch = 0, tb_bank_hash = 0, tb_block_hash = 0,
            tb_replayed = False, tb_replayed_block_id = 0, tb_voted = False, tb_voted_block_id = 0,
            tb_confirmed = False, tb_confirmed_block_id = 0, tb_leader = False, tb_propagated = False,
            tb_prev_leader_slot = ULONG_MAX \<rparr>) \<rparr>))"

definition fd_tower_blocks_remove :: "fd_tower \<Rightarrow> u64 \<Rightarrow> fd_tower" where
  "fd_tower_blocks_remove tower slot =
     (case t_blocks tower slot of
        None \<Rightarrow> tower
      | Some blk \<Rightarrow> tower\<lparr> t_blocks := (t_blocks tower)(slot := None), t_blk_free := t_blk_free tower + 1 \<rparr>)"

definition fd_tower_blocks_canonical_block_id :: "fd_tower \<Rightarrow> u64 \<Rightarrow> fd_hash option" where
  "fd_tower_blocks_canonical_block_id tower slot =
     (case t_blocks tower slot of
        None \<Rightarrow> None
      | Some blk \<Rightarrow> Some (if tb_confirmed blk then tb_confirmed_block_id blk
                         else if tb_voted blk then tb_voted_block_id blk else tb_replayed_block_id blk))"

partial_function (option) is_ancestor_from :: "tower_blocks \<Rightarrow> u64 \<Rightarrow> fd_tower_blk option \<Rightarrow> bool option" where
  "is_ancestor_from blocks ancestor_slot anc =
     (case anc of
        None \<Rightarrow> Some False
      | Some blk \<Rightarrow>
          if tb_parent_slot blk = ancestor_slot then Some True
          else is_ancestor_from blocks ancestor_slot
                 (if tb_parent_slot blk = ULONG_MAX then None else blocks (tb_parent_slot blk)))"

declare is_ancestor_from.simps [code]

definition is_ancestor :: "fd_tower \<Rightarrow> u64 \<Rightarrow> u64 \<Rightarrow> bool option" where
  "is_ancestor tower slot ancestor_slot = is_ancestor_from (t_blocks tower) ancestor_slot (t_blocks tower slot)"

definition fd_tower_blocks_is_slot_ancestor :: "fd_tower \<Rightarrow> u64 \<Rightarrow> u64 \<Rightarrow> bool option" where
  "fd_tower_blocks_is_slot_ancestor tower descendant_slot ancestor_slot = is_ancestor tower descendant_slot ancestor_slot"

definition fd_tower_blocks_is_slot_descendant :: "fd_tower \<Rightarrow> u64 \<Rightarrow> u64 \<Rightarrow> bool option" where
  "fd_tower_blocks_is_slot_descendant tower ancestor_slot descendant_slot = is_ancestor tower descendant_slot ancestor_slot"

partial_function (option) common_ancestor ::
    "tower_blocks \<Rightarrow> fd_tower_blk option \<Rightarrow> fd_tower_blk option \<Rightarrow> u64 option" where
  "common_ancestor blocks fork1 fork2 =
     (case fork1 of None \<Rightarrow> Some ULONG_MAX | Some b1 \<Rightarrow>
     (case fork2 of None \<Rightarrow> Some ULONG_MAX | Some b2 \<Rightarrow>
        if tb_slot b1 = tb_slot b2 then Some (tb_slot b1)
        else if tb_slot b2 < tb_slot b1 then common_ancestor blocks (blocks (tb_parent_slot b1)) fork2
        else common_ancestor blocks fork1 (blocks (tb_parent_slot b2))))"

declare common_ancestor.simps [code]

definition fd_tower_blocks_lowest_common_ancestor :: "fd_tower \<Rightarrow> u64 \<Rightarrow> u64 \<Rightarrow> u64 option" where
  "fd_tower_blocks_lowest_common_ancestor tower slot1 slot2 =
     (if t_blocks tower slot1 = None \<or> t_blocks tower slot2 = None then None
      else common_ancestor (t_blocks tower) (t_blocks tower slot1) (t_blocks tower slot2))"

section \<open>Lockout intervals\<close>

definition lockout_interval_key :: "u64 \<Rightarrow> u64 \<Rightarrow> u64" where
  "lockout_interval_key fork_slot end_interval = push_bit 32 fork_slot OR end_interval"

definition lck_insert :: "u64 \<Rightarrow> lockout_interval \<Rightarrow> fd_tower \<Rightarrow> fd_tower option" where
  "lck_insert key ele tower =
     (if t_lck_free tower = 0 then None
      else Some (tower\<lparr> t_lck := (t_lck tower)(key := ele # t_lck tower key), t_lck_free := t_lck_free tower - 1 \<rparr>))"

fun fd_tower_lockos_insert :: "fd_tower \<Rightarrow> u64 \<Rightarrow> fd_hash \<Rightarrow> fd_tower_vote list \<Rightarrow> fd_tower option" where
  "fd_tower_lockos_insert tower slot addr [] = Some tower"
| "fd_tower_lockos_insert tower slot addr (vote # votes) =
     (let interval_end = vote_slot vote + push_bit (unat (vote_conf vote)) 1;
          key = lockout_interval_key slot interval_end
      in do {
        tower \<leftarrow> if t_lck tower key = []
                 then lck_insert (lockout_interval_key slot 0) \<lparr> li_addr = 0, li_start = interval_end \<rparr> tower
                 else Some tower;
        tower \<leftarrow> lck_insert key \<lparr> li_addr = addr, li_start = vote_slot vote \<rparr> tower;
        fd_tower_lockos_insert tower slot addr votes
      })"

text \<open>The inner loop releases every interval of a key, the outer one every sentinel of a slot.\<close>

definition lck_clear :: "u64 \<Rightarrow> fd_tower \<Rightarrow> fd_tower" where
  "lck_clear key tower =
     tower\<lparr> t_lck := (t_lck tower)(key := []), t_lck_free := t_lck_free tower + length (t_lck tower key) \<rparr>"

function fd_tower_lockos_remove :: "fd_tower \<Rightarrow> u64 \<Rightarrow> fd_tower" where
  "fd_tower_lockos_remove tower slot =
     (case t_lck tower (lockout_interval_key slot 0) of
        [] \<Rightarrow> tower
      | sentinel # rest \<Rightarrow>
          fd_tower_lockos_remove
            (lck_clear (lockout_interval_key slot (li_start sentinel))
              (tower\<lparr> t_lck := (t_lck tower)(lockout_interval_key slot 0 := rest), t_lck_free := t_lck_free tower + 1 \<rparr>))
            slot)"
  by pat_completeness auto
termination by (relation "measure (\<lambda>(tower, slot). length (t_lck tower (lockout_interval_key slot 0)))")
    (auto simp: lck_clear_def)

declare fd_tower_lockos_remove.simps [simp del]

section \<open>Stakes\<close>

definition fd_tower_stakes_insert :: "fd_tower \<Rightarrow> u64 \<Rightarrow> fd_hash \<Rightarrow> u64 \<Rightarrow> nat option \<Rightarrow> (nat \<times> fd_tower) option" where
  "fd_tower_stakes_insert tower slot vote_account stake prev_voter_idx =
     (case t_stk_free tower of
        [] \<Rightarrow> None
      | i # free \<Rightarrow>
          if t_stk_map tower (vote_account, slot) \<noteq> None then None
          else Some (i, tower\<lparr> t_stk_free := free,
            t_stk_pool := (t_stk_pool tower)(i :=
              \<lparr> sv_addr = vote_account, sv_slot = slot, sv_prev = prev_voter_idx, sv_stake = stake \<rparr>),
            t_stk_map := (t_stk_map tower)((vote_account, slot) \<mapsto> i),
            t_stk_slot := (t_stk_slot tower)(slot \<mapsto> i) \<rparr>))"

partial_function (option) stakes_unlink :: "nat option \<Rightarrow> fd_tower \<Rightarrow> fd_tower option" where
  "stakes_unlink voter_idx tower =
     (case voter_idx of
        None \<Rightarrow> Some tower
      | Some i \<Rightarrow>
          (let voter_stake = t_stk_pool tower i; key = (sv_addr voter_stake, sv_slot voter_stake)
           in if t_stk_map tower key = None then None
              else stakes_unlink (sv_prev voter_stake)
                     (tower\<lparr> t_stk_map := (t_stk_map tower)(key := None), t_stk_free := i # t_stk_free tower \<rparr>)))"

declare stakes_unlink.simps [code]

definition fd_tower_stakes_remove :: "fd_tower \<Rightarrow> u64 \<Rightarrow> fd_tower option" where
  "fd_tower_stakes_remove tower slot =
     (case t_stk_slot tower slot of
        None \<Rightarrow> Some tower
      | Some head \<Rightarrow>
          map_option (\<lambda>tower. tower\<lparr> t_stk_slot := (t_stk_slot tower)(slot := None) \<rparr>)
            (stakes_unlink (Some head) tower))"

section \<open>Checks\<close>

definition THRESHOLD_DEPTH :: nat where
  "THRESHOLD_DEPTH = 8"

definition THRESHOLD_RATIO :: fd_double where
  "THRESHOLD_RATIO = dbl_div (Dbl 2) (Dbl 3)"

definition SWITCH_RATIO :: fd_double where
  "SWITCH_RATIO = Dbl (fl (38 / 100))"

definition lockout_check :: "fd_tower \<Rightarrow> u64 \<Rightarrow> bool option" where
  "lockout_check tower slot =
     (if t_votes tower = [] then Some (t_root tower = ULONG_MAX \<or> t_root tower < slot)
      else if slot \<le> vote_slot (last (t_votes tower)) then Some False
      else (let cnt = simulate_vote (t_votes tower) slot
            in if cnt = 0 then Some True
               else fd_tower_blocks_is_slot_descendant tower (vote_slot (t_votes tower ! (cnt - 1))) slot))"

definition is_purged :: "fd_tower \<Rightarrow> fd_ghost_blk \<Rightarrow> bool option" where
  "is_purged tower blk =
     map_option (\<lambda>b. tb_confirmed b \<and> tb_confirmed_block_id b \<noteq> blk_id blk) (fd_tower_blocks_query tower (blk_slot blk))"

text \<open>
  The loop over the lockout intervals that end at one slot.  The state is the set of counted voters and
  the stake so far; the flag says that the stake reached the threshold.
\<close>

type_synonym switch_state = "bool \<times> nat set \<times> u64"

fun count_intervals ::
    "fd_tower \<Rightarrow> u64 \<Rightarrow> u64 \<Rightarrow> u64 \<Rightarrow> lockout_interval list \<Rightarrow> nat set \<Rightarrow> u64 \<Rightarrow> switch_state option" where
  "count_intervals tower total_stake last_vote switch_slot [] used switch_stake = Some (False, used, switch_stake)"
| "count_intervals tower total_stake last_vote switch_slot (interval # intervals) used switch_stake = do {
     same_fork \<leftarrow> fd_tower_blocks_is_slot_descendant tower (li_start interval) last_vote;
     (if \<not> same_fork \<and> t_root tower < li_start interval
      then (case t_stk_map tower (li_addr interval, switch_slot) of
              None \<Rightarrow> count_intervals tower total_stake last_vote switch_slot intervals used switch_stake
            | Some voter_idx \<Rightarrow>
                if voter_idx \<in> used
                then count_intervals tower total_stake last_vote switch_slot intervals used switch_stake
                else (let switch_stake = switch_stake + sv_stake (t_stk_pool tower voter_idx)
                      in if ratio_above switch_stake total_stake SWITCH_RATIO
                         then Some (True, insert voter_idx used, switch_stake)
                         else count_intervals tower total_stake last_vote switch_slot intervals
                                (insert voter_idx used) switch_stake))
      else count_intervals tower total_stake last_vote switch_slot intervals used switch_stake)
   }"

text \<open>The loop over the sentinels of a candidate slot, each the end of some intervals.\<close>

fun count_sentinels ::
    "fd_tower \<Rightarrow> u64 \<Rightarrow> u64 \<Rightarrow> u64 \<Rightarrow> u64 \<Rightarrow> lockout_interval list \<Rightarrow> nat set \<Rightarrow> u64 \<Rightarrow> switch_state option" where
  "count_sentinels tower total_stake last_vote switch_slot candidate_slot [] used switch_stake = Some (False, used, switch_stake)"
| "count_sentinels tower total_stake last_vote switch_slot candidate_slot (sentinel # sentinels) used switch_stake =
     (let interval_end = li_start sentinel; key = lockout_interval_key candidate_slot interval_end
      in if interval_end < last_vote
         then count_sentinels tower total_stake last_vote switch_slot candidate_slot sentinels used switch_stake
         else do {
           (pass, used, switch_stake) \<leftarrow>
             count_intervals tower total_stake last_vote switch_slot (t_lck tower key) used switch_stake;
           (if pass then Some (True, used, switch_stake)
            else count_sentinels tower total_stake last_vote switch_slot candidate_slot sentinels used switch_stake)
         })"

text \<open>What a leaf of the tree contributes.\<close>

definition count_leaf :: "fd_tower \<Rightarrow> u64 \<Rightarrow> u64 \<Rightarrow> u64 \<Rightarrow> u64 \<Rightarrow> nat set \<Rightarrow> u64 \<Rightarrow> switch_state option" where
  "count_leaf tower total_stake last_vote switch_slot candidate_slot used switch_stake = do {
     lca \<leftarrow> fd_tower_blocks_lowest_common_ancestor tower candidate_slot last_vote;
     (if candidate_slot = last_vote \<or> lca = ULONG_MAX then Some (False, used, switch_stake)
      else do {
        candidate \<leftarrow> fd_tower_blocks_is_slot_descendant tower lca switch_slot;
        (if candidate
         then count_sentinels tower total_stake last_vote switch_slot candidate_slot
                (t_lck tower (lockout_interval_key candidate_slot 0)) used switch_stake
         else Some (False, used, switch_stake))
      })
   }"

text \<open>The children that are not purged leave the map and join the queue; a block without one is a leaf.\<close>

partial_function (option) switch_children ::
    "fd_tower \<Rightarrow> nat option \<Rightarrow> nat list \<Rightarrow> bool \<Rightarrow> fd_ghost \<Rightarrow> (nat list \<times> bool \<times> fd_ghost) option" where
  "switch_children tower child queue is_valid_leaf ghost =
     (case child of
        None \<Rightarrow> Some (queue, is_valid_leaf, ghost)
      | Some c \<Rightarrow>
          (case is_purged tower (g_pool ghost c) of
             None \<Rightarrow> None
           | Some purged \<Rightarrow>
               if \<not> purged
               then switch_children tower (blk_sibling (g_pool ghost c)) (queue @ [c]) False (unmap c ghost)
               else switch_children tower (blk_sibling (g_pool ghost c)) queue is_valid_leaf ghost))"

declare switch_children.simps [code]

text \<open>The cleanup when the threshold is reached: the rest of the queue goes back into the map.\<close>

fun remap_all :: "nat list \<Rightarrow> fd_ghost \<Rightarrow> fd_ghost option" where
  "remap_all [] ghost = Some ghost"
| "remap_all (h # queue) ghost = do { ghost \<leftarrow> remap h ghost; remap_all queue ghost }"

partial_function (option) switch_walk ::
    "fd_tower \<Rightarrow> u64 \<Rightarrow> u64 \<Rightarrow> u64 \<Rightarrow> nat list \<Rightarrow> nat set \<Rightarrow> u64 \<Rightarrow> fd_ghost \<Rightarrow> (bool \<times> fd_ghost) option" where
  "switch_walk tower total_stake last_vote switch_slot queue used switch_stake ghost =
     (case queue of
        [] \<Rightarrow> Some (False, ghost)
      | blk # queue \<Rightarrow>
          (case switch_children tower (blk_child (g_pool ghost blk)) queue True ghost of
             None \<Rightarrow> None
           | Some (queue, is_valid_leaf, ghost) \<Rightarrow>
               (case remap blk ghost of
                  None \<Rightarrow> None
                | Some ghost \<Rightarrow>
                    if \<not> is_valid_leaf
                    then switch_walk tower total_stake last_vote switch_slot queue used switch_stake ghost
                    else (case count_leaf tower total_stake last_vote switch_slot (blk_slot (g_pool ghost blk)) used switch_stake of
                            None \<Rightarrow> None
                          | Some (pass, used, switch_stake) \<Rightarrow>
                              if pass then map_option (\<lambda>ghost. (True, ghost)) (remap_all queue ghost)
                              else switch_walk tower total_stake last_vote switch_slot queue used switch_stake ghost))))"

declare switch_walk.simps [code]

text \<open>The set of counted voters is cleared on every return.\<close>

definition switch_check :: "fd_tower \<Rightarrow> fd_ghost \<Rightarrow> u64 \<Rightarrow> u64 \<Rightarrow> (bool \<times> fd_tower \<times> fd_ghost) option" where
  "switch_check tower ghost total_stake switch_slot = do {
     root \<leftarrow> g_root ghost;
     head \<leftarrow> g_map ghost (blk_id (g_pool ghost root));
     (pass, ghost) \<leftarrow> switch_walk tower total_stake (vote_slot (last (t_votes tower))) switch_slot [head]
                        (t_used_acc tower) 0 (unmap root ghost);
     Some (pass, tower\<lparr> t_used_acc := {} \<rparr>, ghost)
   }"

text \<open>The stake of the voters whose latest vote that does not expire is at the threshold slot or above.\<close>

fun threshold_stake :: "fd_tower_vtr list \<Rightarrow> u64 \<Rightarrow> u64 \<Rightarrow> u64 \<Rightarrow> u64" where
  "threshold_stake [] slot threshold_slot acc = acc"
| "threshold_stake (acct # accts) slot threshold_slot acc =
     (let cnt = simulate_vote (tv_votes acct) slot
      in if cnt = 0 then threshold_stake accts slot threshold_slot acc
         else threshold_stake accts slot threshold_slot
                (if threshold_slot \<le> vote_slot (tv_votes acct ! (cnt - 1)) then acc + tv_stake acct else acc))"

definition threshold_check :: "fd_tower \<Rightarrow> fd_tower_vtr list \<Rightarrow> u64 \<Rightarrow> u64 \<Rightarrow> bool" where
  "threshold_check tower accts total_stake slot =
     (let cnt = simulate_vote (t_votes tower) slot
      in if cnt < THRESHOLD_DEPTH then True
         else ratio_above (threshold_stake accts slot (vote_slot (t_votes tower ! (cnt - THRESHOLD_DEPTH))) 0)
                total_stake THRESHOLD_RATIO)"

definition propagated_check :: "fd_tower \<Rightarrow> u64 \<Rightarrow> bool option" where
  "propagated_check tower slot = do {
     blk \<leftarrow> fd_tower_blocks_query tower slot;
     Some (if tb_leader blk then True
           else if tb_prev_leader_slot blk = ULONG_MAX then True
           else case fd_tower_blocks_query tower (tb_prev_leader_slot blk) of
                  None \<Rightarrow> True
                | Some prev_leader_blk \<Rightarrow> tb_propagated prev_leader_blk)
   }"

end
