(* ===== verification/Tower_Decision.thy ===== *)
theory Tower_Decision
  imports Tower
begin

text \<open>
  \<open>fd_tower_vote_and_reset\<close> and \<open>fd_tower_reconcile\<close> of \<^verbatim>\<open>choreo/tower/fd_tower.c\<close>.
\<close>

section \<open>Flags\<close>

definition FD_TOWER_FLAG_ANCESTOR_ROLLBACK :: nat where "FD_TOWER_FLAG_ANCESTOR_ROLLBACK = 0"
definition FD_TOWER_FLAG_SIBLING_CONFIRMED :: nat where "FD_TOWER_FLAG_SIBLING_CONFIRMED = 1"
definition FD_TOWER_FLAG_SAME_FORK :: nat where "FD_TOWER_FLAG_SAME_FORK = 2"
definition FD_TOWER_FLAG_SWITCH_PASS :: nat where "FD_TOWER_FLAG_SWITCH_PASS = 3"
definition FD_TOWER_FLAG_SWITCH_FAIL :: nat where "FD_TOWER_FLAG_SWITCH_FAIL = 4"
definition FD_TOWER_FLAG_LOCKOUT_FAIL :: nat where "FD_TOWER_FLAG_LOCKOUT_FAIL = 5"
definition FD_TOWER_FLAG_THRESHOLD_FAIL :: nat where "FD_TOWER_FLAG_THRESHOLD_FAIL = 6"
definition FD_TOWER_FLAG_PROPAGATED_FAIL :: nat where "FD_TOWER_FLAG_PROPAGATED_FAIL = 7"

definition fd_uchar_set_bit :: "u8 \<Rightarrow> nat \<Rightarrow> u8" where
  "fd_uchar_set_bit x b = x OR push_bit b 1"

section \<open>Voting\<close>

definition mark_voted :: "u64 \<Rightarrow> fd_hash \<Rightarrow> fd_tower \<Rightarrow> (fd_tower_blk \<times> fd_tower) option" where
  "mark_voted slot block_id tower = do {
     blk \<leftarrow> fd_tower_blocks_query tower slot;
     let blk = blk\<lparr> tb_voted := True, tb_voted_block_id := block_id \<rparr>;
     Some (blk, tower\<lparr> t_blocks := (t_blocks tower)(slot \<mapsto> blk) \<rparr>)
   }"

definition push_vote_on :: "u64 \<Rightarrow> fd_tower \<Rightarrow> (u64 \<times> fd_tower) option" where
  "push_vote_on slot tower = do {
     (root, votes) \<leftarrow> push_vote (t_votes tower) slot;
     Some (root, tower\<lparr> t_votes := votes \<rparr>)
   }"

definition no_vote :: "fd_ghost_blk \<Rightarrow> fd_tower_out \<Rightarrow> fd_tower_out" where
  "no_vote reset_blk out = out\<lparr>
     out_reset_slot := blk_slot reset_blk, out_reset_block_id := blk_id reset_blk,
     out_vote_slot := ULONG_MAX, out_vote_block_id := 0, out_root_slot := ULONG_MAX, out_root_block_id := 0 \<rparr>"

text \<open>Cases 0a and 0b: the tower is empty.\<close>

definition first_vote :: "fd_tower \<Rightarrow> fd_ghost_blk \<Rightarrow> fd_tower_out \<Rightarrow> (u8 \<times> fd_tower_out \<times> fd_tower) option" where
  "first_vote tower best_blk out = do {
     recent \<leftarrow> lockout_check tower (blk_slot best_blk);
     (if \<not> recent then Some (0, no_vote best_blk out, tower)
      else do {
        (tower_blk, tower) \<leftarrow> mark_voted (blk_slot best_blk) (blk_id best_blk) tower;
        (root, tower) \<leftarrow> push_vote_on (blk_slot best_blk) tower;
        Some (0, out\<lparr>
          out_reset_slot := blk_slot best_blk, out_reset_block_id := blk_id best_blk,
          out_vote_slot := blk_slot best_blk, out_vote_block_id := blk_id best_blk,
          out_vote_bank_hash := tb_bank_hash tower_blk, out_root_slot := root, out_root_block_id := 0 \<rparr>, tower)
      })
   }"

text \<open>
  Cases 3 and 4: the last vote is on another fork than the best block.  The result is the block to build
  on and the block to vote for, if any.  A block is its index in the pool of the fork choice.
\<close>

type_synonym choice = "u8 \<times> nat \<times> nat option \<times> fd_tower \<times> fd_ghost"

definition switch_fork :: "fd_tower \<Rightarrow> fd_ghost \<Rightarrow> nat \<Rightarrow> nat option \<Rightarrow> bool \<Rightarrow> choice option" where
  "switch_fork tower ghost best_blk prev_vote_blk invalid_ancestor = do {
     (pass, tower, ghost) \<leftarrow> switch_check tower ghost (blk_total_stake (g_pool ghost best_blk)) (blk_slot (g_pool ghost best_blk));
     (if pass
      then Some (fd_uchar_set_bit 0 FD_TOWER_FLAG_SWITCH_PASS, best_blk, Some best_blk, tower, ghost)
      else do {
        prev_vote_blk \<leftarrow> prev_vote_blk;
        (reset_blk, ghost) \<leftarrow> if invalid_ancestor then fd_ghost_deepest ghost prev_vote_blk
                               else map_option (\<lambda>b. (b, ghost)) (fd_ghost_best ghost prev_vote_blk);
        Some (fd_uchar_set_bit 0 FD_TOWER_FLAG_SWITCH_FAIL, reset_blk, None, tower, ghost)
      })
   }"

text \<open>Cases 1 and 2, and what is left to the cases above.\<close>

definition pick_forks :: "fd_tower \<Rightarrow> fd_ghost \<Rightarrow> nat \<Rightarrow> choice option" where
  "pick_forks tower ghost best_blk = do {
     let prev_vote_slot = vote_slot (last (t_votes tower));
     prev_vote_fork \<leftarrow> fd_tower_blocks_query tower prev_vote_slot;
     let prev_vote_blk = fd_ghost_query ghost (tb_voted_block_id prev_vote_fork);
     invalid \<leftarrow> fd_ghost_invalid_ancestor ghost prev_vote_blk;
     let invalid_ancestor = (invalid \<noteq> None);
     anc \<leftarrow> fd_ghost_ancestor ghost prev_vote_blk (blk_id (g_pool ghost best_blk));
     let ancestor_rollback = (prev_vote_blk \<noteq> Some best_blk \<and> anc \<noteq> None);
     let sibling_confirmed = (tb_confirmed prev_vote_fork
                              \<and> tb_voted_block_id prev_vote_fork \<noteq> tb_confirmed_block_id prev_vote_fork);
     (if invalid_ancestor \<and> ancestor_rollback
      then Some (fd_uchar_set_bit 0 FD_TOWER_FLAG_ANCESTOR_ROLLBACK, best_blk, None, tower, ghost)
      else if invalid_ancestor \<and> sibling_confirmed
      then Some (fd_uchar_set_bit 0 FD_TOWER_FLAG_SIBLING_CONFIRMED, best_blk, Some best_blk, tower, ghost)
      else do {
        let best_slot = blk_slot (g_pool ghost best_blk);
        same_fork \<leftarrow> if best_slot = prev_vote_slot then Some True
                      else fd_tower_blocks_is_slot_ancestor tower best_slot prev_vote_slot;
        (if same_fork
         then Some (fd_uchar_set_bit 0 FD_TOWER_FLAG_SAME_FORK, best_blk, Some best_blk, tower, ghost)
         else switch_fork tower ghost best_blk prev_vote_blk invalid_ancestor)
      })
   }"

text \<open>The checks on the block to vote for.\<close>

definition check_vote :: "fd_tower \<Rightarrow> fd_ghost_blk \<Rightarrow> u8 \<Rightarrow> (u8 \<times> bool) option" where
  "check_vote tower vote_blk flags = do {
     unlocked \<leftarrow> lockout_check tower (blk_slot vote_blk);
     (if \<not> unlocked then Some (fd_uchar_set_bit flags FD_TOWER_FLAG_LOCKOUT_FAIL, False)
      else if \<not> threshold_check tower (t_vtrs tower) (blk_total_stake vote_blk) (blk_slot vote_blk)
      then Some (fd_uchar_set_bit flags FD_TOWER_FLAG_THRESHOLD_FAIL, False)
      else do {
        propagated \<leftarrow> propagated_check tower (blk_slot vote_blk);
        (if \<not> propagated then Some (fd_uchar_set_bit flags FD_TOWER_FLAG_PROPAGATED_FAIL, False)
         else Some (flags, True))
      })
   }"

text \<open>The vote goes on the tower; a new root is reported with the block id the cluster confirmed.\<close>

definition cast_vote :: "fd_tower \<Rightarrow> fd_ghost_blk \<Rightarrow> fd_tower_out \<Rightarrow> (fd_tower_out \<times> fd_tower) option" where
  "cast_vote tower vote_blk out = do {
     (root, tower) \<leftarrow> push_vote_on (blk_slot vote_blk) tower;
     (fork, tower) \<leftarrow> mark_voted (blk_slot vote_blk) (blk_id vote_blk) tower;
     root_block_id \<leftarrow> if root = ULONG_MAX then Some 0
       else map_option (\<lambda>root_fork. if tb_confirmed root_fork then tb_confirmed_block_id root_fork
                                     else tb_voted_block_id root_fork)
              (fd_tower_blocks_query tower root);
     Some (out\<lparr> out_vote_slot := blk_slot vote_blk, out_vote_block_id := blk_id vote_blk,
               out_vote_bank_hash := tb_bank_hash fork, out_root_slot := root, out_root_block_id := root_block_id \<rparr>,
           tower)
   }"

definition fd_tower_vote_and_reset ::
    "fd_tower \<Rightarrow> fd_ghost \<Rightarrow> fd_tower_out \<Rightarrow> (u8 \<times> fd_tower_out \<times> fd_tower \<times> fd_ghost) option" where
  "fd_tower_vote_and_reset tower ghost out = do {
     root \<leftarrow> g_root ghost;
     best_blk \<leftarrow> fd_ghost_best ghost root;
     (if t_votes tower = []
      then do {
        (flags, out, tower) \<leftarrow> first_vote tower (g_pool ghost best_blk) out;
        Some (flags, out, tower, ghost)
      }
      else do {
        (flags, reset_blk, vote_blk, tower, ghost) \<leftarrow> pick_forks tower ghost best_blk;
        (flags, can_vote) \<leftarrow> (case vote_blk of
           None \<Rightarrow> Some (flags, False) | Some b \<Rightarrow> check_vote tower (g_pool ghost b) flags);
        let out = (no_vote (g_pool ghost reset_blk) out)\<lparr> out_vote_bank_hash := 0 \<rparr>;
        (if \<not> can_vote then Some (flags, out, tower, ghost)
         else do {
           (out, tower) \<leftarrow> cast_vote tower (g_pool ghost (the vote_blk)) out;
           Some (flags, out, tower, ghost)
         })
      })
   }"

section \<open>Reconciliation with the vote account\<close>

text \<open>The votes of the local tower lose their mark.\<close>

fun unmark_voted :: "fd_tower_vote list \<Rightarrow> tower_blocks \<Rightarrow> tower_blocks option" where
  "unmark_voted [] blocks = Some blocks"
| "unmark_voted (vote # votes) blocks = do {
     tower_blk \<leftarrow> blocks (vote_slot vote);
     unmark_voted votes (blocks(vote_slot vote \<mapsto> tower_blk\<lparr> tb_voted := False \<rparr>))
   }"

text \<open>The slots from the old root up to the new one are removed.\<close>

function clear_slots :: "u64 \<Rightarrow> u64 \<Rightarrow> fd_tower \<Rightarrow> fd_tower option" where
  "clear_slots slot new_root tower =
     (if slot < new_root
      then do {
        tower \<leftarrow> fd_tower_stakes_remove (fd_tower_lockos_remove (fd_tower_blocks_remove tower slot) slot) slot;
        clear_slots (slot + 1) new_root tower
      }
      else Some tower)"
  by pat_completeness auto
termination
proof (relation "measure (\<lambda>(slot, new_root, tower). unat new_root - unat slot)")
  show "((slot + 1, new_root, t), slot, new_root, tower) \<in> measure (\<lambda>(slot, new_root, tower). unat new_root - unat slot)"
    if "slot < new_root" for slot new_root :: u64 and t tower
  proof -
    have "unat (slot + 1) = unat slot + 1" using that unat_lt64[of new_root] by (subst unat_add64) (simp_all add: word_less_nat_alt)
    thus ?thesis using that by (simp add: word_less_nat_alt)
  qed
qed simp

declare clear_slots.simps [simp del]

text \<open>The votes of the account replace the local ones; a slot not voted for locally gets the replayed block.\<close>

fun adopt_votes :: "fd_tower_vote list \<Rightarrow> fd_tower \<Rightarrow> fd_tower option" where
  "adopt_votes [] tower = Some tower"
| "adopt_votes (vote # votes) tower = do {
     tower_blk \<leftarrow> t_blocks tower (vote_slot vote);
     adopt_votes votes (tower\<lparr> t_votes := t_votes tower @ [vote],
       t_blocks := (if tb_voted tower_blk then t_blocks tower
                    else (t_blocks tower)(vote_slot vote \<mapsto>
                      tower_blk\<lparr> tb_voted := True, tb_voted_block_id := tb_replayed_block_id tower_blk \<rparr>)) \<rparr>)
   }"

definition latest_slot :: "fd_tower_vote list \<Rightarrow> u64" where
  "latest_slot votes = (if votes = [] then ULONG_MAX else vote_slot (last votes))"

definition fd_tower_reconcile :: "fd_tower \<Rightarrow> fd_tower_vote list \<Rightarrow> u64 \<Rightarrow> fd_tower option" where
  "fd_tower_reconcile tower onchain_votes onchain_root =
     (let local_root = t_root tower;
          local_vote = latest_slot (t_votes tower);
          onchain_vote = latest_slot onchain_votes
      in if onchain_vote = ULONG_MAX \<or> local_vote \<noteq> ULONG_MAX \<and> onchain_vote \<le> local_vote then Some tower
         else if local_root = ULONG_MAX then None
         else do {
           let keep_root = (onchain_root = ULONG_MAX \<or> onchain_root < local_root);
           let onchain_votes = (if keep_root then dropWhile (\<lambda>vote. \<not> local_root < vote_slot vote) onchain_votes
                                else onchain_votes);
           let onchain_root = (if keep_root then local_root else onchain_root);
           blocks \<leftarrow> unmark_voted (t_votes tower) (t_blocks tower);
           tower \<leftarrow> clear_slots (t_root tower) onchain_root (tower\<lparr> t_blocks := blocks \<rparr>);
           adopt_votes onchain_votes (tower\<lparr> t_root := onchain_root, t_votes := [] \<rparr>)
         })"

end
