(* ===== verification/Tower_Blocks.thy ===== *)
theory Tower_Blocks
  imports Tower_Decision
begin

text \<open>
  The tower's blocks as a forest by slot: the ancestor query and the lowest common ancestor end and give
  what their names say.
\<close>

section \<open>Forest by slot\<close>

definition slot_par :: "tower_blocks \<Rightarrow> u64 \<Rightarrow> u64 option" where
  "slot_par blocks s = map_option tb_parent_slot (blocks s)"

text \<open>A block is stored under its slot, and its parent is an older slot or the null slot.\<close>

definition blocks_ok :: "tower_blocks \<Rightarrow> bool" where
  "blocks_ok blocks \<longleftrightarrow> (\<forall>s b. blocks s = Some b \<longrightarrow> tb_slot b = s \<and> s \<noteq> ULONG_MAX
     \<and> (tb_parent_slot b < s \<or> tb_parent_slot b = ULONG_MAX))"

text \<open>\<open>descends blocks a s\<close>: \<open>a\<close> is a proper ancestor of \<open>s\<close>.\<close>

definition descends :: "tower_blocks \<Rightarrow> u64 \<Rightarrow> u64 \<Rightarrow> bool" where
  "descends blocks a s \<longleftrightarrow> (\<exists>p. slot_par blocks s = Some p \<and> beneath (slot_par blocks) a p)"

lemma descends_beneath: "descends blocks a s \<Longrightarrow> beneath (slot_par blocks) a s"
  unfolding descends_def by (blast intro: beneath_parent)

lemma beneath_descends: "beneath (slot_par blocks) a s \<longleftrightarrow> a = s \<or> descends blocks a s"
  unfolding descends_def by (rule beneath_step)

lemma descends_trans: "descends blocks a s \<Longrightarrow> descends blocks s t \<Longrightarrow> descends blocks a t"
  unfolding descends_def by (metis beneath_parent beneath_trans)

lemma blocks_ok_null: "blocks_ok blocks \<Longrightarrow> blocks ULONG_MAX = None"
  by (cases "blocks ULONG_MAX") (auto simp: blocks_ok_def)

lemma slot_par_null: "blocks_ok blocks \<Longrightarrow> slot_par blocks ULONG_MAX = None"
  by (simp add: slot_par_def blocks_ok_null)

lemma beneath_null: "blocks_ok blocks \<Longrightarrow> beneath (slot_par blocks) a ULONG_MAX \<longleftrightarrow> a = ULONG_MAX"
  by (rule beneath_none) (rule slot_par_null)

lemma blocks_okD:
  assumes "blocks_ok blocks" "blocks s = Some b"
  shows "tb_slot b = s" "s \<noteq> ULONG_MAX" "tb_parent_slot b < s \<or> tb_parent_slot b = ULONG_MAX"
  using assms by (auto simp: blocks_ok_def)

lemma slot_induct [consumes 1, case_names slot]:
  assumes "blocks_ok blocks"
    and "\<And>s. (\<And>b. blocks s = Some b \<Longrightarrow> tb_parent_slot b \<noteq> ULONG_MAX \<Longrightarrow> P (tb_parent_slot b)) \<Longrightarrow> P s"
  shows "P s"
proof (induction "unat s" arbitrary: s rule: less_induct)
  case less
  show ?case
  proof (rule assms(2))
    fix b assume b: "blocks s = Some b" "tb_parent_slot b \<noteq> ULONG_MAX"
    hence "tb_parent_slot b < s" using blocks_okD(3)[OF assms(1)] by blast
    thus "P (tb_parent_slot b)" using less by (simp add: word_less_nat_alt)
  qed
qed

lemma beneath_older:
  assumes "blocks_ok blocks" "beneath (slot_par blocks) a s" "a \<noteq> ULONG_MAX"
  shows "a \<le> s"
  using assms
proof (induction s rule: slot_induct)
  case (slot s)
  show ?case
  proof (cases "a = s")
    case False
    then obtain b where b: "blocks s = Some b" "beneath (slot_par blocks) a (tb_parent_slot b)"
      using slot.prems(1) by (subst (asm) beneath_step) (auto simp: slot_par_def)
    have "tb_parent_slot b \<noteq> ULONG_MAX"
      using b(2) slot.prems(2) beneath_null[OF assms(1), of a] by auto
    thus ?thesis using slot.IH[OF b(1) _ b(2) slot.prems(2)] blocks_okD(3)[OF assms(1) b(1)] by auto
  qed simp
qed

lemma descends_older:
  assumes "blocks_ok blocks" "descends blocks a s" "a \<noteq> ULONG_MAX"
  shows "a < s"
proof -
  obtain b where b: "blocks s = Some b" "beneath (slot_par blocks) a (tb_parent_slot b)"
    using assms(2) by (auto simp: descends_def slot_par_def)
  have "tb_parent_slot b \<noteq> ULONG_MAX"
    using b(2) assms(3) beneath_null[OF assms(1), of a] by auto
  thus ?thesis using beneath_older[OF assms(1) b(2) assms(3)] blocks_okD(3)[OF assms(1) b(1)] by auto
qed

section \<open>The ancestor query\<close>

lemma is_ancestor_from_ok:
  assumes "blocks_ok blocks"
  shows "is_ancestor_from blocks a (blocks s) = Some (descends blocks a s)"
  using assms
proof (induction s rule: slot_induct)
  case (slot s)
  show ?case
  proof (cases "blocks s")
    case None
    thus ?thesis by (simp add: is_ancestor_from.simps descends_def slot_par_def)
  next
    case (Some b)
    let ?p = "tb_parent_slot b"
    have d: "descends blocks a s \<longleftrightarrow> a = ?p \<or> descends blocks a ?p"
      by (simp add: descends_def[of blocks a s] slot_par_def Some beneath_descends)
    show ?thesis
    proof (cases "?p = ULONG_MAX")
      case True
      have "\<not> descends blocks a ?p" by (simp add: descends_def True slot_par_null[OF assms])
      moreover have "is_ancestor_from blocks a None = Some False" by (simp add: is_ancestor_from.simps)
      ultimately show ?thesis using True by (simp add: Some is_ancestor_from.simps[of blocks a "Some b"] d eq_commute)
    next
      case False
      thus ?thesis using slot[OF Some False] by (simp add: Some is_ancestor_from.simps[of blocks a "Some b"] d eq_commute)
    qed
  qed
qed

lemma is_ancestor_ok: "blocks_ok (t_blocks tower) \<Longrightarrow> is_ancestor tower s a = Some (descends (t_blocks tower) a s)"
  by (simp add: is_ancestor_def is_ancestor_from_ok)

lemmas slot_queries = fd_tower_blocks_is_slot_ancestor_def fd_tower_blocks_is_slot_descendant_def

section \<open>The lowest common ancestor\<close>

text \<open>The common ancestors of two blocks, themselves included, among the stored blocks.\<close>

definition common :: "tower_blocks \<Rightarrow> u64 \<Rightarrow> u64 \<Rightarrow> u64 set" where
  "common blocks s t = {c \<in> dom blocks. beneath (slot_par blocks) c s \<and> beneath (slot_par blocks) c t}"

definition lowest_common :: "tower_blocks \<Rightarrow> u64 \<Rightarrow> u64 \<Rightarrow> u64 \<Rightarrow> bool" where
  "lowest_common blocks s t l \<longleftrightarrow>
     (if l = ULONG_MAX then common blocks s t = {}
      else l \<in> common blocks s t \<and> (\<forall>c \<in> common blocks s t. beneath (slot_par blocks) c l))"

lemma common_commute: "common blocks s t = common blocks t s"
  by (auto simp: common_def)

lemma common_parent:
  assumes "blocks_ok blocks" "blocks s = Some b" "t < s" "blocks t \<noteq> None"
  shows "common blocks s t = common blocks (tb_parent_slot b) t"
proof -
  have "beneath (slot_par blocks) c s \<longleftrightarrow> beneath (slot_par blocks) c (tb_parent_slot b)"
    if "c \<in> dom blocks" "beneath (slot_par blocks) c t" for c
  proof -
    have "c \<noteq> ULONG_MAX" using that(1) blocks_ok_null[OF assms(1)] by auto
    hence "c \<le> t" using beneath_older[OF assms(1) that(2)] by blast
    hence "c \<noteq> s" using assms(3) by auto
    thus ?thesis using assms(2) beneath_step[of "slot_par blocks" c s] by (simp add: slot_par_def)
  qed
  thus ?thesis by (auto simp: common_def)
qed

lemma common_missing: "blocks_ok blocks \<Longrightarrow> blocks s = None \<Longrightarrow> common blocks s t = {}"
  using beneath_none[of "slot_par blocks" s] by (auto simp: common_def slot_par_def)

lemma common_ancestor_ok:
  assumes "blocks_ok blocks"
  shows "\<exists>l. common_ancestor blocks (blocks s) (blocks t) = Some l \<and> lowest_common blocks s t l"
proof (induction "unat s + unat t" arbitrary: s t rule: less_induct)
  case less
  show ?case
  proof (cases "blocks s = None \<or> blocks t = None")
    case True
    hence "common_ancestor blocks (blocks s) (blocks t) = Some ULONG_MAX"
      by (subst common_ancestor.simps) (auto split: option.split)
    thus ?thesis using True common_missing[OF assms] common_commute[of blocks s t] by (auto simp: lowest_common_def)
  next
    case False
    then obtain a b where ab: "blocks s = Some a" "blocks t = Some b" by auto
    note a = blocks_okD[OF assms ab(1)] and b = blocks_okD[OF assms ab(2)]
    consider "s = t" | "t < s" | "s < t" by fastforce
    thus ?thesis
    proof cases
      case 1
      hence "common_ancestor blocks (blocks s) (blocks t) = Some s"
        using ab a by (subst common_ancestor.simps) simp
      moreover have "lowest_common blocks s t s" using 1 ab a by (auto simp: lowest_common_def common_def)
      ultimately show ?thesis by blast
    next
      case 2
      have run: "common_ancestor blocks (blocks s) (blocks t)
          = common_ancestor blocks (blocks (tb_parent_slot a)) (blocks t)"
        using ab a b 2 by (subst common_ancestor.simps) auto
      have com: "common blocks s t = common blocks (tb_parent_slot a) t"
        using common_parent[OF assms ab(1) 2] ab by simp
      show ?thesis
      proof (cases "tb_parent_slot a = ULONG_MAX")
        case True
        have "blocks (tb_parent_slot a) = None" unfolding True by (rule blocks_ok_null[OF assms])
        moreover from this have "common blocks (tb_parent_slot a) t = {}" by (rule common_missing[OF assms])
        ultimately show ?thesis unfolding run lowest_common_def com by (simp add: common_ancestor.simps)
      next
        case False
        hence "unat (tb_parent_slot a) + unat t < unat s + unat t" using a(3) by (simp add: word_less_nat_alt)
        from less.hyps[OF this] show ?thesis unfolding run lowest_common_def com .
      qed
    next
      case 3
      have run: "common_ancestor blocks (blocks s) (blocks t)
          = common_ancestor blocks (blocks s) (blocks (tb_parent_slot b))"
        using ab a b 3 by (subst common_ancestor.simps) auto
      have com: "common blocks s t = common blocks s (tb_parent_slot b)"
        using common_parent[OF assms ab(2) 3] ab by (simp add: common_commute)
      show ?thesis
      proof (cases "tb_parent_slot b = ULONG_MAX")
        case True
        have "blocks (tb_parent_slot b) = None" unfolding True by (rule blocks_ok_null[OF assms])
        moreover from this have "common blocks s (tb_parent_slot b) = {}"
          by (subst common_commute) (rule common_missing[OF assms])
        ultimately show ?thesis unfolding run lowest_common_def com
          by (simp add: common_ancestor.simps split: option.split)
      next
        case False
        hence "unat s + unat (tb_parent_slot b) < unat s + unat t" using b(3) by (simp add: word_less_nat_alt)
        from less.hyps[OF this] show ?thesis unfolding run lowest_common_def com .
      qed
    qed
  qed
qed

lemma lowest_common_ancestor_ok:
  assumes "blocks_ok (t_blocks tower)" "s \<in> dom (t_blocks tower)" "t \<in> dom (t_blocks tower)"
  shows "\<exists>l. fd_tower_blocks_lowest_common_ancestor tower s t = Some l \<and> lowest_common (t_blocks tower) s t l"
  using common_ancestor_ok[OF assms(1), of s t] assms(2,3)
  by (auto simp: fd_tower_blocks_lowest_common_ancestor_def)

end
