(* ===== verification/Ghost_Votes.thy ===== *)
theory Ghost_Votes
  imports Ghost
begin

text \<open>
  The invariant of the fork choice and the latest message rule: the stake of a block is the sum of the
  stakes of the voters whose latest vote is for the block or a descendant.  Counting a vote keeps it.
\<close>

section \<open>The tree\<close>

abbreviation (input) parents :: "blk_pool \<Rightarrow> nat \<Rightarrow> nat option" where
  "parents pool \<equiv> \<lambda>i. blk_parent (pool i)"

definition live :: "fd_ghost \<Rightarrow> nat set" where
  "live g = ran (g_map g)"

abbreviation (input) par :: "fd_ghost \<Rightarrow> nat \<Rightarrow> nat option" where
  "par g \<equiv> parents (g_pool g)"

fun sib_chain :: "blk_pool \<Rightarrow> nat option \<Rightarrow> nat list \<Rightarrow> bool" where
  "sib_chain pool None [] \<longleftrightarrow> True"
| "sib_chain pool (Some c) (k # ks) \<longleftrightarrow> c = k \<and> sib_chain pool (blk_sibling (pool k)) ks"
| "sib_chain pool _ _ \<longleftrightarrow> False"

definition kids_ok :: "nat set \<Rightarrow> blk_pool \<Rightarrow> bool" where
  "kids_ok nodes pool \<longleftrightarrow> (\<forall>i \<in> nodes. \<exists>ks. sib_chain pool (blk_child (pool i)) ks \<and> distinct ks
     \<and> set ks = kids nodes (parents pool) i)"

definition ids_ok :: "fd_ghost \<Rightarrow> bool" where
  "ids_ok g \<longleftrightarrow> (\<forall>id i. g_map g id = Some i \<longrightarrow> blk_id (g_pool g i) = id)"

definition tree_ok :: "fd_ghost \<Rightarrow> bool" where
  "tree_ok g \<longleftrightarrow> (\<exists>r. g_root g = Some r \<and> rooted (live g) (par g) r) \<and> ids_ok g
     \<and> kids_ok (live g) (g_pool g) \<and> distinct (g_free g) \<and> set (g_free g) \<inter> live g = {}"

lemma live_map: "ids_ok g \<Longrightarrow> i \<in> live g \<longleftrightarrow> g_map g (blk_id (g_pool g i)) = Some i"
  by (auto simp: live_def ran_def ids_ok_def)

section \<open>Voters\<close>

definition voted :: "fd_ghost \<Rightarrow> fd_pubkey \<Rightarrow> nat option" where
  "voted g a = (case g_vtrs g a of None \<Rightarrow> None | Some v \<Rightarrow> g_map g (vtr_prev_block_id v))"

definition stake_of :: "fd_ghost \<Rightarrow> fd_pubkey \<Rightarrow> nat" where
  "stake_of g a = (case g_vtrs g a of None \<Rightarrow> 0 | Some v \<Rightarrow> unat (vtr_prev_stake v))"

definition backers :: "fd_ghost \<Rightarrow> nat \<Rightarrow> fd_pubkey set" where
  "backers g b = {a. \<exists>i. voted g a = Some i \<and> beneath (par g) b i}"

definition weight :: "fd_ghost \<Rightarrow> nat \<Rightarrow> nat" where
  "weight g b = (\<Sum>a \<in> backers g b. stake_of g a)"

definition total_weight :: "fd_ghost \<Rightarrow> nat" where
  "total_weight g = (\<Sum>a \<in> dom (g_vtrs g). stake_of g a)"

text \<open>Every voter is parked on the block of the latest vote, and on no other.\<close>

definition parked_ok :: "fd_ghost \<Rightarrow> bool" where
  "parked_ok g \<longleftrightarrow> finite (dom (g_vtrs g)) \<and> (\<forall>a \<in> dom (g_vtrs g). voted g a \<noteq> None)
     \<and> (\<forall>i a. a \<in> set (g_dlists g i) \<longleftrightarrow> voted g a = Some i) \<and> (\<forall>i. distinct (g_dlists g i))"

definition stakes_ok :: "fd_ghost \<Rightarrow> bool" where
  "stakes_ok g \<longleftrightarrow> (\<forall>b \<in> live g. unat (blk_stake (g_pool g b)) = weight g b)"

definition ghost_ok :: "fd_ghost \<Rightarrow> bool" where
  "ghost_ok g \<longleftrightarrow> tree_ok g \<and> parked_ok g \<and> stakes_ok g"

lemma voted_live: "voted g a = Some i \<Longrightarrow> i \<in> live g"
  by (auto simp: voted_def live_def ran_def split: option.splits)

lemma parked_voted:
  assumes "parked_ok g" "g_vtrs g a = Some v"
  obtains i where "g_map g (vtr_prev_block_id v) = Some i" "voted g a = Some i"
proof -
  have "voted g a \<noteq> None" using assms domI[of "g_vtrs g" a v] by (simp add: parked_ok_def)
  thus ?thesis using assms(2) that by (auto simp: voted_def)
qed

lemma backers_dom: "backers g b \<subseteq> dom (g_vtrs g)"
  by (auto simp: backers_def voted_def split: option.splits)

lemma weight_le_total: "finite (dom (g_vtrs g)) \<Longrightarrow> weight g b \<le> total_weight g"
  unfolding weight_def total_weight_def by (rule sum_mono2[OF _ backers_dom]) simp_all

section \<open>Walks to the root\<close>

text \<open>A walk that changes the stake of a block and of every ancestor.\<close>

definition bump :: "(u64 \<Rightarrow> u64) \<Rightarrow> (nat \<Rightarrow> nat option) \<Rightarrow> nat \<Rightarrow> blk_pool \<Rightarrow> blk_pool" where
  "bump f ps i pool =
     (\<lambda>j. if beneath ps j i then (pool j)\<lparr> blk_stake := f (blk_stake (pool j)) \<rparr> else pool j)"

lemma bump_root:
  "ps i = None \<Longrightarrow> bump f ps i pool = pool(i := (pool i)\<lparr> blk_stake := f (blk_stake (pool i)) \<rparr>)"
  by (rule ext) (simp add: bump_def beneath_none)

lemma bump_parent:
  assumes "ps i = Some p" "\<not> beneath ps i p"
  shows "bump f ps p (pool(i := (pool i)\<lparr> blk_stake := f (blk_stake (pool i)) \<rparr>)) = bump f ps i pool"
proof
  fix j
  have "beneath ps j i \<longleftrightarrow> j = i \<or> beneath ps j p" using assms(1) by (subst beneath_step) simp
  thus "bump f ps p (pool(i := (pool i)\<lparr> blk_stake := f (blk_stake (pool i)) \<rparr>)) j = bump f ps i pool j"
    using assms(2) by (simp add: bump_def)
qed

lemma unat_add_over: "(x + s < s) \<longleftrightarrow> 2 ^ 64 \<le> unat x + unat (s :: u64)"
proof -
  have "unat x + unat s < 2 ^ 64 \<Longrightarrow> unat (x + s) = unat x + unat s" by (rule unat_add64)
  moreover have "unat (x + s) = unat x + unat s - 2 ^ 64" if "2 ^ 64 \<le> unat x + unat s"
  proof -
    have "unat (x + s) = (unat x + unat s) mod 2 ^ 64" by (simp add: unat_word_ariths)
    also have "\<dots> = unat x + unat s - 2 ^ 64"
      using that unat_lt64[of x] unat_lt64[of s] by (simp add: mod_if)
    finally show ?thesis .
  qed
  ultimately show ?thesis using unat_lt64[of x] unat_lt64[of s] unfolding word_less_nat_alt by linarith
qed

lemma add_stake_bump:
  assumes "rooted nodes ps r" "i \<in> nodes" "parents pool = ps"
    and "\<And>j. beneath ps j i \<Longrightarrow> unat (blk_stake (pool j)) + unat s < 2 ^ 64"
  shows "add_stake s (Some i) pool = Some (bump (\<lambda>x. x + s) ps i pool)"
  using assms
proof (induction arbitrary: pool rule: rooted_induct)
  case root
  have n: "ps r = None" using assms(1) by (simp add: rooted_def)
  hence "blk_parent (pool r) = None" using root.prems(1) by (metis (full_types))
  moreover have "\<not> blk_stake (pool r) + s < s" using root.prems(2)[of r] by (simp add: unat_add_over)
  ultimately show ?case by (simp add: add_stake.simps bump_root[of ps r, OF n] fun_upd_def)
next
  case (node i p)
  let ?pool = "pool(i := (pool i)\<lparr> blk_stake := blk_stake (pool i) + s \<rparr>)"
  have p: "blk_parent (pool i) = Some p" using node.hyps(4) node.prems(1) by (metis (full_types))
  have np: "\<not> beneath ps i p" by (rule parent_not_beneath[OF assms(1) node.hyps(1,4)])
  have "parents ?pool = ps" using node.prems(1) by (auto simp: fun_eq_iff)
  moreover have "unat (blk_stake (?pool j)) + unat s < 2 ^ 64" if "beneath ps j p" for j
    using node.prems(2)[OF beneath_parent[OF node.hyps(4) that]] that np by auto
  ultimately have "add_stake s (Some p) ?pool = Some (bump (\<lambda>x. x + s) ps p ?pool)" by (rule node.IH)
  moreover have "\<not> blk_stake (pool i) + s < s" using node.prems(2)[of i] by (simp add: unat_add_over)
  ultimately show ?case using p bump_parent[OF node.hyps(4) np, of "\<lambda>x. x + s" pool]
    by (subst add_stake.simps) simp
qed

lemma sub_stake_bump:
  assumes "rooted nodes ps r" "i \<in> nodes" "parents pool = ps"
    and "\<And>j. beneath ps j i \<Longrightarrow> s \<le> blk_stake (pool j)"
  shows "sub_stake s (Some i) pool = Some (bump (\<lambda>x. x - s) ps i pool)"
  using assms
proof (induction arbitrary: pool rule: rooted_induct)
  case root
  have n: "ps r = None" using assms(1) by (simp add: rooted_def)
  hence "blk_parent (pool r) = None" using root.prems(1) by (metis (full_types))
  moreover have "\<not> blk_stake (pool r) < s" using root.prems(2)[of r] by (simp add: not_less)
  ultimately show ?case by (simp add: sub_stake.simps bump_root[of ps r, OF n] fun_upd_def)
next
  case (node i p)
  let ?pool = "pool(i := (pool i)\<lparr> blk_stake := blk_stake (pool i) - s \<rparr>)"
  have p: "blk_parent (pool i) = Some p" using node.hyps(4) node.prems(1) by (metis (full_types))
  have np: "\<not> beneath ps i p" by (rule parent_not_beneath[OF assms(1) node.hyps(1,4)])
  have "parents ?pool = ps" using node.prems(1) by (auto simp: fun_eq_iff)
  moreover have "s \<le> blk_stake (?pool j)" if "beneath ps j p" for j
    using node.prems(2)[OF beneath_parent[OF node.hyps(4) that]] that np by auto
  ultimately have "sub_stake s (Some p) ?pool = Some (bump (\<lambda>x. x - s) ps p ?pool)" by (rule node.IH)
  moreover have "\<not> blk_stake (pool i) < s" using node.prems(2)[of i] by (simp add: not_less)
  ultimately show ?case using p bump_parent[OF node.hyps(4) np, of "\<lambda>x. x - s" pool]
    by (subst sub_stake.simps) simp
qed

section \<open>Counting a vote\<close>

text \<open>Changes of stake and validity leave the links alone.\<close>

definition same_links :: "blk_pool \<Rightarrow> blk_pool \<Rightarrow> bool" where
  "same_links pool pool' \<longleftrightarrow> (\<forall>i. blk_id (pool' i) = blk_id (pool i) \<and> blk_parent (pool' i) = blk_parent (pool i)
     \<and> blk_child (pool' i) = blk_child (pool i) \<and> blk_sibling (pool' i) = blk_sibling (pool i))"

lemma same_links_refl [simp]: "same_links pool pool"
  by (simp add: same_links_def)

lemma same_links_trans: "same_links p q \<Longrightarrow> same_links q r \<Longrightarrow> same_links p r"
  by (simp add: same_links_def)

lemma same_links_bump [simp]: "same_links pool (bump f ps i pool)"
  by (simp add: same_links_def bump_def)

lemma same_links_par: "same_links pool pool' \<Longrightarrow> parents pool' = parents pool"
  by (simp add: same_links_def)

lemma sib_chain_cong:
  "(\<And>i. blk_sibling (pool' i) = blk_sibling (pool i)) \<Longrightarrow> sib_chain pool' c ks = sib_chain pool c ks"
  by (induction pool c ks rule: sib_chain.induct) auto

lemma kids_ok_cong: "same_links pool pool' \<Longrightarrow> kids_ok nodes pool' = kids_ok nodes pool"
  using sib_chain_cong[of pool' pool] by (simp add: kids_ok_def same_links_def)

lemma tree_ok_cong:
  assumes "same_links (g_pool g) (g_pool g')" "g_map g' = g_map g" "g_root g' = g_root g" "g_free g' = g_free g"
  shows "tree_ok g' = tree_ok g"
  using assms(2-4) kids_ok_cong[OF assms(1)] same_links_par[OF assms(1)] assms(1)
  by (simp add: tree_ok_def live_def ids_ok_def same_links_def)

lemma tree_root:
  assumes "tree_ok g"
  obtains r where "g_root g = Some r" "rooted (live g) (par g) r"
  using assms by (auto simp: tree_ok_def)

definition weight_without :: "fd_ghost \<Rightarrow> fd_pubkey \<Rightarrow> nat \<Rightarrow> nat" where
  "weight_without g a b = (\<Sum>x \<in> backers g b - {a}. stake_of g x)"

lemma weight_without:
  assumes "parked_ok g"
  shows "weight g b = weight_without g a b
    + (case voted g a of None \<Rightarrow> 0 | Some p \<Rightarrow> if beneath (par g) b p then stake_of g a else 0)"
proof -
  have fin: "finite (backers g b)" using assms backers_dom finite_subset by (auto simp: parked_ok_def)
  show ?thesis
  proof (cases "a \<in> backers g b")
    case True
    hence "weight g b = stake_of g a + weight_without g a b"
      using sum.remove[OF fin True] by (simp add: weight_def weight_without_def)
    thus ?thesis using True by (auto simp: backers_def)
  next
    case False
    thus ?thesis by (auto simp: weight_def weight_without_def backers_def split: option.splits)
  qed
qed

lemma unpark_result:
  assumes ok: "ghost_ok g" and room: "g_vtrs g a = None \<longrightarrow> 0 < g_vtr_free g"
  obtains g1 where "unpark_vtr g a = Some g1" "same_links (g_pool g) (g_pool g1)" "g_map g1 = g_map g"
    "g_root g1 = g_root g" "g_free g1 = g_free g" "g_vtrs g1 = g_vtrs g" "g_width g1 = g_width g"
    "\<And>i. g_dlists g1 i = remove1 a (g_dlists g i)"
    "\<And>b. b \<in> live g \<Longrightarrow> unat (blk_stake (g_pool g1 b)) = weight_without g a b"
proof -
  have tree: "tree_ok g" and parked: "parked_ok g" and stakes: "stakes_ok g" using ok by (simp_all add: ghost_ok_def)
  obtain r where r: "rooted (live g) (par g) r" using tree_root[OF tree] by blast
  have dl: "a \<in> set (g_dlists g i) \<longleftrightarrow> voted g a = Some i" for i using parked by (simp add: parked_ok_def)
  have w: "unat (blk_stake (g_pool g b)) = weight_without g a b
      + (case voted g a of None \<Rightarrow> 0 | Some p \<Rightarrow> if beneath (par g) b p then stake_of g a else 0)" if "b \<in> live g" for b
    using stakes that weight_without[OF parked] by (simp add: stakes_ok_def)
  show ?thesis
  proof (cases "g_vtrs g a")
    case None
    hence v: "voted g a = None" by (simp add: voted_def)
    have "remove1 a (g_dlists g i) = g_dlists g i" for i using dl[of i] v by (simp add: remove1_idem)
    thus ?thesis using None room w v
      by (intro that[of "g\<lparr> g_vtr_free := g_vtr_free g - 1 \<rparr>"]) (simp_all add: unpark_vtr_def)
  next
    case (Some v)
    then obtain p where m: "g_map g (vtr_prev_block_id v) = Some p" and p: "voted g a = Some p"
      by (rule parked_voted[OF parked])
    let ?s = "vtr_prev_stake v"
    have s: "stake_of g a = unat ?s" using Some by (simp add: stake_of_def)
    have le: "?s \<le> blk_stake (g_pool g j)" if "beneath (par g) j p" for j
      using w[OF rooted_live[OF r voted_live[OF p] that]] p that s by (simp add: word_le_nat_alt)
    have sub: "sub_stake ?s (Some p) (g_pool g) = Some (bump (\<lambda>x. x - ?s) (par g) p (g_pool g))"
      by (rule sub_stake_bump[OF r voted_live[OF p] refl le])
    let ?g = "g\<lparr> g_dlists := (g_dlists g)(p := remove1 a (g_dlists g p)), g_pool := bump (\<lambda>x. x - ?s) (par g) p (g_pool g) \<rparr>"
    have "unpark_vtr g a = Some ?g" using Some m sub by (simp add: unpark_vtr_def)
    moreover have "g_dlists ?g i = remove1 a (g_dlists g i)" for i
      using dl[of i] p by (simp add: remove1_idem)
    moreover have "unat (blk_stake (g_pool ?g b)) = weight_without g a b" if "b \<in> live g" for b
      using w[OF that] p s le[of b] by (simp add: bump_def unat_sub)
    ultimately show ?thesis by (intro that[of ?g]) simp_all
  qed
qed

definition counts :: "fd_ghost \<Rightarrow> fd_pubkey \<Rightarrow> u64 \<Rightarrow> bool" where
  "counts g a slot \<longleftrightarrow> slot \<noteq> - 1
     \<and> (case g_root g of None \<Rightarrow> False | Some r \<Rightarrow> blk_slot (g_pool g r) \<le> slot)
     \<and> (case g_vtrs g a of None \<Rightarrow> True | Some v \<Rightarrow> vtr_prev_slot v < slot)"

lemma count_vote_ignored:
  assumes "ghost_ok g" "\<not> counts g a slot"
  shows "\<exists>rc. rc \<noteq> FD_GHOST_SUCCESS \<and> fd_ghost_count_vote g blk a stake slot = Some (rc, g)"
proof -
  obtain r where "g_root g = Some r" using assms(1) tree_root by (auto simp: ghost_ok_def)
  thus ?thesis using assms(2)
    by (auto simp: fd_ghost_count_vote_def counts_def FD_GHOST_SUCCESS_def FD_GHOST_ERR_NOT_VOTED_def
        FD_GHOST_ERR_VOTE_TOO_OLD_def FD_GHOST_ERR_ALREADY_VOTED_def not_le not_less split: option.splits)
qed

lemma count_vote_counted:
  assumes ok: "ghost_ok g" and blk: "blk \<in> live g" and counts: "counts g a slot"
    and room: "g_vtrs g a = None \<longrightarrow> 0 < g_vtr_free g"
    and bound: "total_weight g + unat stake < 2 ^ 64"
  shows "\<exists>g'. fd_ghost_count_vote g blk a stake slot = Some (FD_GHOST_SUCCESS, g') \<and> ghost_ok g'
    \<and> g_map g' = g_map g \<and> g_root g' = g_root g \<and> same_links (g_pool g) (g_pool g')
    \<and> g_vtrs g' = (g_vtrs g)(a \<mapsto> \<lparr> vtr_prev_stake = stake, vtr_prev_slot = slot, vtr_prev_block_id = blk_id (g_pool g blk) \<rparr>)"
proof -
  have tree: "tree_ok g" and parked: "parked_ok g" using ok by (simp_all add: ghost_ok_def)
  obtain r where root: "g_root g = Some r" and r: "rooted (live g) (par g) r" using tree_root[OF tree] by blast
  obtain g1 where u: "unpark_vtr g a = Some g1" and g1: "same_links (g_pool g) (g_pool g1)" "g_map g1 = g_map g"
      "g_root g1 = g_root g" "g_free g1 = g_free g" "g_vtrs g1 = g_vtrs g" "g_width g1 = g_width g"
      and dl: "\<And>i. g_dlists g1 i = remove1 a (g_dlists g i)"
      and st: "\<And>b. b \<in> live g \<Longrightarrow> unat (blk_stake (g_pool g1 b)) = weight_without g a b"
    using unpark_result[OF ok room] by metis
  have le: "weight_without g a b \<le> total_weight g" for b
    using weight_without[OF parked, of b a] weight_le_total[of g b] parked by (simp add: parked_ok_def)
  let ?pool = "bump (\<lambda>x. x + stake) (par g) blk (g_pool g1)"
  let ?v = "\<lparr> vtr_prev_stake = stake, vtr_prev_slot = slot, vtr_prev_block_id = blk_id (g_pool g blk) \<rparr>"
  have add: "add_stake stake (Some blk) (g_pool g1) = Some ?pool"
  proof (rule add_stake_bump[OF r blk same_links_par[OF g1(1)]])
    fix j assume "beneath (par g) j blk"
    hence "j \<in> live g" by (rule rooted_live[OF r blk])
    thus "unat (blk_stake (g_pool g1 j)) + unat stake < 2 ^ 64" using st[of j] le[of j] bound by simp
  qed
  have sl: "same_links (g_pool g) ?pool" by (rule same_links_trans[OF g1(1)]) simp
  have id: "blk_id (?pool blk) = blk_id (g_pool g blk)" using sl by (simp add: same_links_def)
  define g' where "g' = g1\<lparr> g_dlists := (g_dlists g1)(blk := g_dlists g1 blk @ [a]), g_pool := ?pool, g_vtrs := (g_vtrs g)(a \<mapsto> ?v) \<rparr>"
  have run: "fd_ghost_count_vote g blk a stake slot = Some (FD_GHOST_SUCCESS, g')"
    using counts root u add id g1(5)
    by (auto simp: fd_ghost_count_vote_def counts_def g'_def not_less Let_def split: option.splits)
  have f: "g_map g' = g_map g" "g_root g' = g_root g" "g_free g' = g_free g" "same_links (g_pool g) (g_pool g')"
      "live g' = live g" "parents (g_pool g') = par g"
    using g1 sl same_links_par[OF sl] by (simp_all add: g'_def live_def)
  have tree': "tree_ok g'" using tree_ok_cong[OF f(4,1,2,3)] tree by simp
  have m: "g_map g (blk_id (g_pool g blk)) = Some blk" using blk tree live_map by (auto simp: tree_ok_def)
  have vo: "voted g' x = (if x = a then Some blk else voted g x)" for x
    using m g1(2) by (simp add: voted_def g'_def split: option.split)
  have so: "stake_of g' x = (if x = a then unat stake else stake_of g x)" for x by (simp add: stake_of_def g'_def)
  have dom: "dom (g_vtrs g') = insert a (dom (g_vtrs g))" by (simp add: g'_def)
  have "a \<in> set (g_dlists g i) \<longleftrightarrow> voted g a = Some i" "distinct (g_dlists g i)" for i
    using parked by (simp_all add: parked_ok_def)
  moreover have "x \<in> set (g_dlists g' i) \<longleftrightarrow> voted g' x = Some i" for i x
    using parked dl vo by (auto simp: parked_ok_def g'_def set_remove1_eq)
  moreover have "distinct (g_dlists g' i)" for i
    using parked dl by (auto simp: parked_ok_def g'_def set_remove1_eq)
  ultimately have parked': "parked_ok g'" using parked dom vo by (auto simp: parked_ok_def)
  have ba: "backers g' b = (if beneath (par g) b blk then insert a (backers g b - {a}) else backers g b - {a})" for b
    using vo f(6) by (auto simp: backers_def split: if_splits)
  have fin: "finite (backers g b)" for b using parked backers_dom finite_subset by (auto simp: parked_ok_def)
  have "unat (blk_stake (g_pool g' b)) = weight g' b" if b: "b \<in> live g" for b
  proof -
    have sum: "(\<Sum>x \<in> backers g b - {a}. stake_of g' x) = weight_without g a b"
      unfolding weight_without_def by (rule sum.cong) (simp_all add: so)
    have "weight g' b = weight_without g a b + (if beneath (par g) b blk then unat stake else 0)"
      unfolding weight_def ba using sum fin[of b] so[of a] by (simp add: sum.insert_remove)
    moreover have "unat (blk_stake (g_pool g1 b)) + unat stake < 2 ^ 64" using st[OF b] le[of b] bound by simp
    ultimately show ?thesis using st[OF b] unat_add64 by (simp add: g'_def bump_def)
  qed
  hence "stakes_ok g'" using f(5) by (simp add: stakes_ok_def)
  thus ?thesis using run tree' parked' f by (auto simp: ghost_ok_def g'_def)
qed

end
