(* ===== verification/Ghost_Tree.thy ===== *)
theory Ghost_Tree
  imports Ghost_Votes
begin

text \<open>
  The operations that change the tree: a new block hangs below its parent, and moving the root keeps
  exactly the subtree of the new root, with the voters on it and their weight.
\<close>

section \<open>A new block\<close>

lemma sib_chain_cong_on:
  "(\<And>k. k \<in> set ks \<Longrightarrow> blk_sibling (pool' k) = blk_sibling (pool k)) \<Longrightarrow> sib_chain pool' c ks = sib_chain pool c ks"
  by (induction pool c ks rule: sib_chain.induct) auto

lemma sib_chain_Nil: "sib_chain pool c [] \<longleftrightarrow> c = None"
  by (cases c) simp_all

lemma sib_chain_Cons: "sib_chain pool c (k # ks) \<longleftrightarrow> c = Some k \<and> sib_chain pool (blk_sibling (pool k)) ks"
  by (cases c) auto

lemma last_sibling_chain:
  "sib_chain pool (Some c) ks \<Longrightarrow> last_sibling pool c = Some (last ks)"
proof (induction ks arbitrary: c)
  case (Cons k ks)
  have k: "c = k" "sib_chain pool (blk_sibling (pool k)) ks" using Cons.prems by simp_all
  show ?case
  proof (cases ks)
    case Nil
    hence "blk_sibling (pool k) = None" using k(2) by (simp add: sib_chain_Nil)
    thus ?thesis using Nil k(1) by (subst last_sibling.simps) simp
  next
    case (Cons s ss)
    hence s: "blk_sibling (pool k) = Some s" using k(2) by (simp add: sib_chain_Cons)
    hence "last_sibling pool s = Some (last ks)" using Cons.IH k(2) by simp
    thus ?thesis using s k(1) Cons by (subst last_sibling.simps) simp
  qed
qed simp

lemma sib_chain_snoc:
  assumes "sib_chain pool c ks" "ks \<noteq> []" "distinct (ks @ [i])" "blk_sibling (pool' i) = None"
    "blk_sibling (pool' (last ks)) = Some i" "\<And>k. k \<in> set ks - {last ks} \<Longrightarrow> blk_sibling (pool' k) = blk_sibling (pool k)"
  shows "sib_chain pool' c (ks @ [i])"
  using assms
proof (induction ks arbitrary: c)
  case (Cons k ks)
  show ?case
  proof (cases "ks = []")
    case True
    thus ?thesis using Cons.prems by (simp add: sib_chain_Cons sib_chain_Nil)
  next
    case False
    have c: "c = Some k" "sib_chain pool (blk_sibling (pool k)) ks" using Cons.prems(1) by (simp_all add: sib_chain_Cons)
    have "k \<noteq> last ks" using Cons.prems(3) False by auto
    hence "blk_sibling (pool' k) = blk_sibling (pool k)" using Cons.prems(6)[of k] False by simp
    moreover have "sib_chain pool' (blk_sibling (pool k)) (ks @ [i])"
      using Cons.IH[OF c(2) False] Cons.prems(3-6) False by auto
    ultimately show ?thesis using c(1) by simp
  qed
qed simp

text \<open>The links after hanging \<open>i\<close> below \<open>p\<close>.\<close>

definition hang :: "blk_pool \<Rightarrow> nat \<Rightarrow> nat \<Rightarrow> blk_pool \<Rightarrow> bool" where
  "hang pool i p pool' \<longleftrightarrow>
     blk_child (pool' i) = None \<and> blk_sibling (pool' i) = None \<and> parents pool' = (parents pool)(i := Some p)
     \<and> (case blk_child (pool p) of
          None \<Rightarrow> blk_child (pool' p) = Some i \<and> (\<forall>j. j \<noteq> i \<longrightarrow> blk_sibling (pool' j) = blk_sibling (pool j))
        | Some c \<Rightarrow> (\<exists>s. last_sibling pool c = Some s \<and> blk_child (pool' p) = Some c \<and> blk_sibling (pool' s) = Some i
                    \<and> (\<forall>j. j \<noteq> i \<and> j \<noteq> s \<longrightarrow> blk_sibling (pool' j) = blk_sibling (pool j))))
     \<and> (\<forall>j. j \<noteq> i \<and> j \<noteq> p \<longrightarrow> blk_child (pool' j) = blk_child (pool j))"

lemma kids_ok_hang:
  assumes r: "rooted nodes (parents pool) r" and ok: "kids_ok nodes pool"
    and i: "i \<notin> nodes" and p: "p \<in> nodes" and h: "hang pool i p pool'"
  shows "kids_ok (insert i nodes) pool'"
  unfolding kids_ok_def
proof
  fix q assume q: "q \<in> insert i nodes"
  have ps: "parents pool' = (parents pool)(i := Some p)" using h by (simp add: hang_def)
  note kl = kids_leaf[OF r i p, folded ps]
  obtain kp where kp: "sib_chain pool (blk_child (pool p)) kp" "distinct kp" "set kp = kids nodes (parents pool) p"
    using ok p by (auto simp: kids_ok_def)
  have ip: "i \<noteq> p" "i \<notin> set kp" using i p kp(3) by (auto simp: kids_def)
  have sib: "blk_sibling (pool' j) = blk_sibling (pool j)" if "j \<noteq> i" "j \<notin> set kp \<or> (kp \<noteq> [] \<and> j \<noteq> last kp)" for j
  proof (cases "blk_child (pool p)")
    case None thus ?thesis using h that by (simp add: hang_def)
  next
    case (Some c)
    hence "last_sibling pool c = Some (last kp)" "kp \<noteq> []" using last_sibling_chain kp(1) by (force simp: sib_chain_Nil)+
    hence "last kp \<in> set kp" by simp
    thus ?thesis using h that Some \<open>last_sibling pool c = _\<close> by (auto simp: hang_def)
  qed
  consider "q = i" | "q = p" | "q \<in> nodes" "q \<noteq> i" "q \<noteq> p" using q by blast
  thus "\<exists>ks. sib_chain pool' (blk_child (pool' q)) ks \<and> distinct ks \<and> set ks = kids (insert i nodes) (parents pool') q"
  proof cases
    case 1
    thus ?thesis using h ip kl[of q] by (intro exI[of _ "[]"]) (simp add: hang_def)
  next
    case 2
    have "sib_chain pool' (blk_child (pool' p)) (kp @ [i])"
    proof (cases "blk_child (pool p)")
      case None
      hence "kp = []" using kp(1) by (cases kp) (simp_all add: sib_chain_Cons)
      thus ?thesis using h None by (simp add: hang_def)
    next
      case (Some c)
      hence ne: "kp \<noteq> []" using kp(1) by (auto simp: sib_chain_Nil)
      have l: "last_sibling pool c = Some (last kp)" using last_sibling_chain kp(1) Some by simp
      show ?thesis
      proof (rule sib_chain_snoc[where pool = pool])
        show "sib_chain pool (blk_child (pool' p)) kp" using kp(1) Some h by (auto simp: hang_def)
        show "blk_sibling (pool' (last kp)) = Some i" using h Some l by (auto simp: hang_def)
        show "blk_sibling (pool' k) = blk_sibling (pool k)" if "k \<in> set kp - {last kp}" for k
          using sib[of k] that ip ne by auto
      qed (use ne kp(2) ip h in \<open>simp_all add: hang_def\<close>)
    qed
    thus ?thesis using 2 kp ip kl[of p] by (intro exI[of _ "kp @ [i]"]) simp
  next
    case 3
    obtain ks where ks: "sib_chain pool (blk_child (pool q)) ks" "distinct ks" "set ks = kids nodes (parents pool) q"
      using ok 3 by (auto simp: kids_ok_def)
    have "set ks \<inter> set kp = {}" "i \<notin> set ks" using ks(3) kp(3) 3 i by (auto simp: kids_def)
    hence "blk_sibling (pool' k) = blk_sibling (pool k)" if "k \<in> set ks" for k
      using that by (intro sib) blast+
    hence "sib_chain pool' (blk_child (pool q)) ks" using ks(1) sib_chain_cong_on[of ks pool' pool] by blast
    thus ?thesis using ks 3 kl[of q] h by (intro exI[of _ ks]) (auto simp: hang_def)
  qed
qed

lemma ghost_insert_ok:
  assumes ok: "ghost_ok g" and fresh: "g_map g block_id = None" and parent: "g_map g parent_id = Some p"
    and room: "g_free g \<noteq> []"
  obtains i g' where "fd_ghost_insert g bank_seq slot block_id parent_id = Some (i, g')" "ghost_ok g'"
    "i \<notin> live g" "live g' = insert i (live g)" "parents (g_pool g') = (par g)(i := Some p)"
    "g_map g' = (g_map g)(block_id \<mapsto> i)" "g_root g' = g_root g" "g_vtrs g' = g_vtrs g"
    "blk_slot (g_pool g' i) = slot" "blk_valid (g_pool g' i)"
    "\<And>j. j \<noteq> i \<Longrightarrow> blk_valid (g_pool g' j) = blk_valid (g_pool g j)"
proof -
  have tree: "tree_ok g" and parked: "parked_ok g" and stakes: "stakes_ok g" using ok by (simp_all add: ghost_ok_def)
  obtain r where root: "g_root g = Some r" and r: "rooted (live g) (par g) r" using tree_root[OF tree] by blast
  obtain i free where free: "g_free g = i # free" using room by (cases "g_free g") auto
  have i: "i \<notin> live g" "i \<notin> set free" "set free \<inter> live g = {}" "distinct free"
    using tree free by (auto simp: tree_ok_def)
  have p: "p \<in> live g" using parent by (auto simp: live_def ran_def)
  hence ip: "i \<noteq> p" using i by auto
  have pm: "((g_map g)(block_id \<mapsto> i)) parent_id = Some p" using parent fresh by auto
  let ?new = "\<lparr> blk_id = block_id, blk_slot = slot, blk_parent = Some p, blk_child = None, blk_sibling = None,
                blk_stake = 0, blk_total_stake = 0, blk_valid = True, blk_bank_seq = bank_seq \<rparr>"
  let ?pool = "(g_pool g)(i := ?new)"
  obtain kp where kp: "sib_chain (g_pool g) (blk_child (g_pool g p)) kp" "set kp = kids (live g) (par g) p"
    using tree p by (auto simp: tree_ok_def kids_ok_def)
  have nk: "i \<notin> set kp" using kp(2) i by (auto simp: kids_def)
  have chain: "sib_chain ?pool (blk_child (g_pool g p)) kp"
    by (rule sib_chain_cong_on[THEN iffD2, OF _ kp(1)]) (use nk in auto)
  define pool' where "pool' = (case blk_child (g_pool g p) of
      None \<Rightarrow> ?pool(p := (g_pool g p)\<lparr> blk_child := Some i \<rparr>)
    | Some c \<Rightarrow> ?pool(last kp := (g_pool g (last kp))\<lparr> blk_sibling := Some i \<rparr>))"
  define w where "w = (if blk_child (g_pool g p) = None then g_width g else g_width g + 1)"
  define g' where "g' = g\<lparr> g_free := free, g_pool := pool', g_map := (g_map g)(block_id \<mapsto> i), g_width := w \<rparr>"
  have ne: "kp \<noteq> [] \<and> last kp \<noteq> i \<and> last kp \<in> live g" if "blk_child (g_pool g p) = Some c" for c
  proof -
    have "kp \<noteq> []" using kp(1) that by (auto simp: sib_chain_Nil)
    hence "last kp \<in> set kp" by simp
    thus ?thesis using nk kp(2) \<open>kp \<noteq> []\<close> by (auto simp: kids_def)
  qed
  have run: "fd_ghost_insert g bank_seq slot block_id parent_id = Some (i, g')"
  proof (cases "blk_child (g_pool g p)")
    case None
    thus ?thesis using fresh free pm ip
      by (simp add: fd_ghost_insert_def ghost_insert_def g'_def pool'_def w_def fun_upd_twist)
  next
    case (Some c)
    have "last_sibling ?pool c = Some (last kp)" using last_sibling_chain chain Some by simp
    thus ?thesis using fresh free pm ip Some ne[OF Some]
      by (simp add: fd_ghost_insert_def ghost_insert_def g'_def pool'_def w_def fun_upd_twist)
  qed
  have fields: "blk_id (pool' j) = (if j = i then block_id else blk_id (g_pool g j))"
    "blk_stake (pool' j) = (if j = i then 0 else blk_stake (g_pool g j))"
    "blk_valid (pool' j) = (if j = i then True else blk_valid (g_pool g j))"
    "blk_slot (pool' j) = (if j = i then slot else blk_slot (g_pool g j))"
    "blk_parent (pool' j) = (if j = i then Some p else blk_parent (g_pool g j))" for j
    using ne ip by (auto simp: pool'_def split: option.split)
  have ps: "parents pool' = (par g)(i := Some p)" using fields(5) by (simp add: fun_eq_iff)
  have hang: "hang (g_pool g) i p pool'"
  proof (cases "blk_child (g_pool g p)")
    case None thus ?thesis using ip ps by (simp add: hang_def pool'_def)
  next
    case (Some c)
    have "last_sibling (g_pool g) c = Some (last kp)" using last_sibling_chain kp(1) Some by simp
    thus ?thesis using Some ps ip ne[OF Some] by (cases "p = last kp") (simp_all add: hang_def pool'_def)
  qed
  have live': "live g' = insert i (live g)" using ran_map_upd[of "g_map g", OF fresh] by (simp add: live_def g'_def)
  have root': "rooted (live g') (parents pool') r" unfolding live' ps by (rule rooted_leaf[OF r i(1) p])
  have kids': "kids_ok (live g') pool'"
    unfolding live' using kids_ok_hang[OF r _ i(1) p hang] tree by (simp add: tree_ok_def)
  have ids': "ids_ok g'" using tree fields(1) i(1)
    by (auto simp: tree_ok_def ids_ok_def g'_def live_def ran_def)
  have tree': "tree_ok g'"
    using root' kids' ids' root i live' by (auto simp: tree_ok_def g'_def)
  have vo: "voted g' a = voted g a" for a
  proof (cases "g_vtrs g a")
    case (Some v)
    then obtain j where "g_map g (vtr_prev_block_id v) = Some j" by (rule parked_voted[OF parked])
    thus ?thesis using Some fresh by (auto simp: voted_def g'_def)
  qed (simp add: voted_def g'_def)
  have parked': "parked_ok g'" using parked vo by (simp add: parked_ok_def) (simp add: g'_def)
  have be: "beneath (parents pool') b j \<longleftrightarrow> beneath (par g) b j" if "j \<in> live g" for b j
    unfolding ps by (rule beneath_cong[OF r that]) (use i(1) in auto)
  have ba: "backers g' b = backers g b" for b
    using vo be voted_live by (auto simp: backers_def g'_def)
  have "backers g i = {}" using rooted_live[OF r] voted_live i(1) by (fastforce simp: backers_def)
  moreover have "stake_of g' a = stake_of g a" for a by (simp add: stake_of_def g'_def)
  ultimately have stakes': "stakes_ok g'"
    using stakes fields(2) i(1) ba by (auto simp: stakes_ok_def live' weight_def) (simp_all add: g'_def)
  show ?thesis
    by (rule that[OF run]) (use tree' parked' stakes' i(1) live' ps fields in \<open>simp_all add: ghost_ok_def\<close>, simp_all add: g'_def)
qed

end
