(* ===== verification/Ghost_Publish.thy ===== *)
theory Ghost_Publish
  imports Ghost_Tree
begin

text \<open>
  Moving the root.  The breadth first walk from the old root removes every block outside the subtree of
  the new root, releases its voters, and ends.
\<close>

definition keep :: "nat set \<Rightarrow> ('k \<rightharpoonup> nat) \<Rightarrow> 'k \<rightharpoonup> nat" where
  "keep L m = (\<lambda>k. case m k of None \<Rightarrow> None | Some i \<Rightarrow> if i \<in> L then Some i else None)"

lemma keep_keep: "keep L (keep M m) = keep (L \<inter> M) m"
  by (rule ext) (simp add: keep_def split: option.split)

lemma ran_keep: "ran (keep L m) = ran m \<inter> L"
  by (auto simp: keep_def ran_def split: option.splits if_splits)

lemma keep_Some: "keep L m k = Some i \<longleftrightarrow> m k = Some i \<and> i \<in> L"
  by (auto simp: keep_def split: option.split)

lemma keep_all: "ran m \<subseteq> L \<Longrightarrow> keep L m = m"
  by (rule ext) (auto simp: keep_def ran_def split: option.split)

lemma unmap_keep:
  assumes "ids_ok h" "k \<in> live h"
  shows "(g_map h)(blk_id (g_pool h k) := None) = keep (- {k}) (g_map h)"
proof
  fix x
  show "((g_map h)(blk_id (g_pool h k) := None)) x = keep (- {k}) (g_map h) x"
  proof (cases "g_map h x")
    case (Some i)
    hence "blk_id (g_pool h i) = x" using assms(1) by (simp add: ids_ok_def)
    moreover have "g_map h (blk_id (g_pool h k)) = Some k" using live_map[OF assms(1), of k] assms(2) by simp
    ultimately have "i = k \<longleftrightarrow> x = blk_id (g_pool h k)" using Some by (metis option.inject)
    thus ?thesis using Some by (cases "i = k") (simp_all add: keep_def)
  qed (simp add: keep_def)
qed

lemma prune_children_run:
  assumes "sib_chain (g_pool h) c ks" "distinct ks" "ids_ok h" "\<And>k. k \<in> set ks \<Longrightarrow> k \<noteq> newr \<Longrightarrow> k \<in> live h"
  shows "\<exists>w. prune_children newr c queue h
    = Some (queue @ filter (\<lambda>k. k \<noteq> newr) ks, h\<lparr> g_map := keep (- (set ks - {newr})) (g_map h), g_width := w \<rparr>)"
  using assms
proof (induction ks arbitrary: c queue h)
  case Nil
  thus ?case by (intro exI[of _ "g_width h"]) (simp add: sib_chain_Nil prune_children.simps keep_all)
next
  case (Cons k ks)
  have c: "c = Some k" "sib_chain (g_pool h) (blk_sibling (g_pool h k)) ks" using Cons.prems(1) by (simp_all add: sib_chain_Cons)
  show ?case
  proof (cases "k = newr")
    case True
    let ?h = "drop_fork k h"
    have "set ks - {newr} = set (k # ks) - {newr}" using True by auto
    moreover have "ids_ok ?h" "live ?h = live h" "g_pool ?h = g_pool h" "g_map ?h = g_map h"
      using Cons.prems(3) by (simp_all add: ids_ok_def live_def drop_fork_def)
    ultimately obtain w where "prune_children newr (blk_sibling (g_pool h k)) queue ?h
        = Some (queue @ filter (\<lambda>k. k \<noteq> newr) ks, ?h\<lparr> g_map := keep (- (set (k # ks) - {newr})) (g_map h), g_width := w \<rparr>)"
      using Cons.IH[of ?h "blk_sibling (g_pool h k)" queue] c Cons.prems(2,4) by auto
    thus ?thesis using c(1) True by (intro exI[of _ w]) (subst prune_children.simps, simp add: drop_fork_def)
  next
    case False
    hence live: "k \<in> live h" using Cons.prems(4) by simp
    hence m: "g_map h (blk_id (g_pool h k)) = Some k" using live_map[OF Cons.prems(3)] by simp
    let ?h = "drop_fork k (unmap k h)"
    have h: "g_map ?h = keep (- {k}) (g_map h)" "g_pool ?h = g_pool h"
      using unmap_keep[OF Cons.prems(3) live] by (simp_all add: drop_fork_def unmap_def)
    have "ids_ok ?h" "live ?h = live h - {k}"
      using Cons.prems(3) h by (auto simp: ids_ok_def live_def keep_Some ran_keep)
    hence "\<exists>w. prune_children newr (blk_sibling (g_pool h k)) (queue @ [k]) ?h
        = Some ((queue @ [k]) @ filter (\<lambda>k. k \<noteq> newr) ks, ?h\<lparr> g_map := keep (- (set ks - {newr})) (g_map ?h), g_width := w \<rparr>)"
      using Cons.IH[of ?h "blk_sibling (g_pool h k)" "queue @ [k]"] c h(2) Cons.prems(2,4) by auto
    moreover have "- (set ks - {newr}) \<inter> - {k} = - (set (k # ks) - {newr})" using False by auto
    ultimately obtain w where "prune_children newr (blk_sibling (g_pool h k)) (queue @ [k]) ?h
        = Some (queue @ k # filter (\<lambda>k. k \<noteq> newr) ks, ?h\<lparr> g_map := keep (- (set (k # ks) - {newr})) (g_map h), g_width := w \<rparr>)"
      using h(1) by (auto simp: keep_keep)
    thus ?thesis using c(1) False m
      by (intro exI[of _ w]) (subst prune_children.simps, simp add: drop_fork_def unmap_def)
  qed
qed

text \<open>
  The state of the walk: \<open>L\<close> is still in the map, the queue is out of the map and not yet released,
  the rest of the blocks is released with its voters.
\<close>

definition pruning :: "fd_ghost \<Rightarrow> nat \<Rightarrow> nat set \<Rightarrow> nat list \<Rightarrow> fd_ghost \<Rightarrow> bool" where
  "pruning g newr L queue h \<longleftrightarrow>
     g_pool h = g_pool g \<and> g_root h = g_root g \<and> g_map h = keep L (g_map g)
     \<and> L \<subseteq> live g \<and> distinct queue \<and> set queue \<subseteq> live g - L \<and> subtree (live g) (par g) newr \<subseteq> L
     \<and> (\<forall>j \<in> L. j \<noteq> newr \<longrightarrow> (\<exists>p. par g j = Some p \<and> p \<in> L \<union> set queue))
     \<and> (\<forall>k \<in> live g. \<forall>p. par g k = Some p \<and> p \<in> L \<union> set queue \<longrightarrow> k \<in> L)
     \<and> g_vtrs h = (\<lambda>a. case voted g a of None \<Rightarrow> None | Some i \<Rightarrow> if i \<in> L \<union> set queue then g_vtrs g a else None)
     \<and> g_dlists h = (\<lambda>i. if i \<in> L \<union> set queue then g_dlists g i else [])
     \<and> distinct (g_free h) \<and> set (g_free h) = set (g_free g) \<union> (live g - (L \<union> set queue))"

lemma pruning_step:
  assumes tree: "tree_ok g" and parked: "parked_ok g" and newr: "newr \<in> live g"
    and inv: "pruning g newr L (q # queue) h"
  obtains K h1 where "prune_children newr (blk_child (g_pool h q)) queue h = Some (queue @ K, h1)"
    "pruning g newr (L - set K) (queue @ K) (release_blk q h1)" "(L - set K) \<union> set (queue @ K) = (L \<union> set (q # queue)) - {q}"
proof -
  obtain r where r: "rooted (live g) (par g) r" using tree_root[OF tree] by blast
  let ?S = "subtree (live g) (par g) newr"
  have pool: "g_pool h = g_pool g" and map: "g_map h = keep L (g_map g)" and L: "L \<subseteq> live g"
    and dq: "distinct (q # queue)" and Q: "set (q # queue) \<subseteq> live g - L" and S: "?S \<subseteq> L"
    and up: "\<And>j. j \<in> L \<Longrightarrow> j \<noteq> newr \<Longrightarrow> \<exists>p. par g j = Some p \<and> p \<in> L \<union> set (q # queue)"
    and vt: "g_vtrs h = (\<lambda>a. case voted g a of None \<Rightarrow> None
               | Some i \<Rightarrow> if i \<in> L \<union> set (q # queue) then g_vtrs g a else None)"
    and dh: "g_dlists h = (\<lambda>i. if i \<in> L \<union> set (q # queue) then g_dlists g i else [])"
    and fr: "distinct (g_free h)" "set (g_free h) = set (g_free g) \<union> (live g - (L \<union> set (q # queue)))"
    and root: "g_root h = g_root g"
    and down: "\<And>k p. k \<in> live g \<Longrightarrow> par g k = Some p \<Longrightarrow> p \<in> L \<union> set (q # queue) \<Longrightarrow> k \<in> L"
    using inv by (simp_all add: pruning_def)
  have q: "q \<in> live g" "q \<notin> L" "q \<notin> set queue" using Q dq by auto
  obtain ks where ks: "sib_chain (g_pool g) (blk_child (g_pool g q)) ks" "distinct ks" "set ks = kids (live g) (par g) q"
    using tree q(1) by (auto simp: tree_ok_def kids_ok_def)
  define K where "K = filter (\<lambda>k. k \<noteq> newr) ks"
  have K: "set K = kids (live g) (par g) q - {newr}" "distinct K" using ks by (auto simp: K_def)
  have KL: "set K \<subseteq> L" using down[of _ q] by (auto simp: K kids_def)
  have ids: "ids_ok h" using tree by (auto simp: tree_ok_def ids_ok_def map pool keep_Some)
  have livehq: "live h = L" using L by (auto simp: live_def map ran_keep)
  have "sib_chain (g_pool h) (blk_child (g_pool h q)) ks" using ks(1) pool by simp
  moreover have "\<And>k. k \<in> set ks \<Longrightarrow> k \<noteq> newr \<Longrightarrow> k \<in> live h" using KL by (auto simp: livehq K_def)
  ultimately obtain w where run: "prune_children newr (blk_child (g_pool h q)) queue h
      = Some (queue @ K, h\<lparr> g_map := keep (- (set ks - {newr})) (g_map h), g_width := w \<rparr>)"
    using prune_children_run[OF _ ks(2) ids] unfolding K_def by blast
  define h1 where "h1 = h\<lparr> g_map := keep (- (set ks - {newr})) (g_map h), g_width := w \<rparr>"
  let ?A = "L \<union> set (q # queue)"
  have un: "(L - set K) \<union> set (queue @ K) = ?A - {q}" using KL q by auto
  have KS: "set K \<inter> ?S = {}"
  proof -
    have "k \<notin> ?S" if k: "k \<in> set K" for k
    proof
      assume "k \<in> ?S"
      then obtain p where "par g k = Some p" "p \<in> ?S" using k by (auto simp: K intro: subtree_parent[OF _ _ r])
      thus False using k S q(2) by (auto simp: K kids_def)
    qed
    thus ?thesis by auto
  qed
  have "pruning g newr (L - set K) (queue @ K) (release_blk q h1)"
    unfolding pruning_def
  proof (intro conjI)
    have "- (set ks - {newr}) \<inter> L = L - set K" by (auto simp: K_def)
    thus "g_map (release_blk q h1) = keep (L - set K) (g_map g)" by (simp add: release_blk_def h1_def map keep_keep)
    show "\<forall>j \<in> L - set K. j \<noteq> newr \<longrightarrow> (\<exists>p. par g j = Some p \<and> p \<in> (L - set K) \<union> set (queue @ K))"
    proof (intro ballI impI)
      fix j assume j: "j \<in> L - set K" "j \<noteq> newr"
      then obtain p where p: "par g j = Some p" "p \<in> ?A" using up by blast
      have "p \<noteq> q" using j p(1) L by (auto simp: K kids_def)
      thus "\<exists>p. par g j = Some p \<and> p \<in> (L - set K) \<union> set (queue @ K)" unfolding un using p by auto
    qed
    show "\<forall>k \<in> live g. \<forall>p. par g k = Some p \<and> p \<in> (L - set K) \<union> set (queue @ K) \<longrightarrow> k \<in> L - set K"
      unfolding un using down by (auto simp: K kids_def)
    have dl: "a \<in> set (g_dlists g q) \<longleftrightarrow> voted g a = Some q" for a using parked by (simp add: parked_ok_def)
    have dq': "set (g_dlists h q) = {a. voted g a = Some q}" using dl by (auto simp: dh)
    show "g_vtrs (release_blk q h1) = (\<lambda>a. case voted g a of None \<Rightarrow> None
        | Some i \<Rightarrow> if i \<in> (L - set K) \<union> set (queue @ K) then g_vtrs g a else None)"
    proof
      fix a
      show "g_vtrs (release_blk q h1) a = (case voted g a of None \<Rightarrow> None
        | Some i \<Rightarrow> if i \<in> (L - set K) \<union> set (queue @ K) then g_vtrs g a else None)"
        unfolding un using dq' by (cases "voted g a") (simp_all add: release_blk_def h1_def vt)
    qed
    show "g_dlists (release_blk q h1) = (\<lambda>i. if i \<in> (L - set K) \<union> set (queue @ K) then g_dlists g i else [])"
      unfolding un by (simp add: release_blk_def h1_def dh fun_eq_iff)
    have "live g - (?A - {q}) = insert q (live g - ?A)" using q(1) by auto
    thus "set (g_free (release_blk q h1)) = set (g_free g) \<union> (live g - ((L - set K) \<union> set (queue @ K)))"
      unfolding un by (simp add: release_blk_def h1_def fr)
    have "q \<notin> set (g_free g)" using tree q(1) by (auto simp: tree_ok_def)
    thus "distinct (g_free (release_blk q h1))" using fr by (simp add: release_blk_def h1_def)
    show "L - set K \<subseteq> live g" using L by auto
    show "distinct (queue @ K)" using dq K(2) KL Q by auto
    show "set (queue @ K) \<subseteq> live g - (L - set K)" using Q KL L by auto
    show "?S \<subseteq> L - set K" using S KS by auto
  qed (simp_all add: release_blk_def h1_def pool root)
  thus ?thesis using that run un unfolding h1_def by blast
qed

lemma pruning_done:
  assumes tree: "tree_ok g" and root: "g_root g = Some r" "newr \<noteq> r" and inv: "pruning g newr L [] h"
  shows "L = subtree (live g) (par g) newr"
proof
  have r: "rooted (live g) (par g) r" using tree_root[OF tree] root(1) by (metis option.inject)
  have up: "\<And>j. j \<in> L \<Longrightarrow> j \<noteq> newr \<Longrightarrow> \<exists>p. par g j = Some p \<and> p \<in> L" and L: "L \<subseteq> live g"
    using inv by (simp_all add: pruning_def)
  have "j \<in> L \<Longrightarrow> beneath (par g) newr j" if "j \<in> live g" for j
    using r that
  proof (induction rule: rooted_induct)
    case root
    thus ?case using up[of r] assms(3) r by (auto simp: rooted_def)
  next
    case (node i p)
    show ?case
    proof (cases "i = newr")
      case False
      hence "p \<in> L" using up[OF node.prems] node.hyps(4) by auto
      thus ?thesis using node.IH beneath_parent[of "par g" i p] node.hyps(4) by blast
    qed simp
  qed
  thus "L \<subseteq> subtree (live g) (par g) newr" using L by (auto simp: subtree_def)
  show "subtree (live g) (par g) newr \<subseteq> L" using inv by (simp add: pruning_def)
qed

lemma prune_run:
  assumes tree: "tree_ok g" and parked: "parked_ok g" and newr: "newr \<in> live g"
    and inv: "pruning g newr L queue h"
  shows "\<exists>L' h'. prune newr queue h = Some h' \<and> pruning g newr L' [] h'"
  using inv
proof (induction "card (L \<union> set queue)" arbitrary: L queue h rule: less_induct)
  case less
  show ?case
  proof (cases queue)
    case Nil
    thus ?thesis using less.prems by (subst prune.simps) auto
  next
    case (Cons q qs)
    obtain K h1 where run: "prune_children newr (blk_child (g_pool h q)) qs h = Some (qs @ K, h1)"
        and inv': "pruning g newr (L - set K) (qs @ K) (release_blk q h1)"
        and un: "(L - set K) \<union> set (qs @ K) = (L \<union> set (q # qs)) - {q}"
      using pruning_step[OF tree parked newr less.prems[unfolded Cons]] by blast
    have "L \<union> set queue \<subseteq> live g" using less.prems by (auto simp: pruning_def)
    moreover have "finite (live g)" using tree_root[OF tree] by (auto simp: rooted_def)
    ultimately have "finite (L \<union> set queue)" by (rule finite_subset)
    hence "card ((L - set K) \<union> set (qs @ K)) < card (L \<union> set queue)"
      unfolding un Cons by (intro psubset_card_mono) auto
    from less.hyps[OF this inv'] show ?thesis using Cons run by (subst prune.simps) simp
  qed
qed

lemma pruning_start:
  assumes tree: "tree_ok g" and parked: "parked_ok g" and root: "rooted (live g) (par g) r" and newr: "newr \<noteq> r"
  shows "pruning g newr (live g - {r}) [r] (unmap r g)"
  unfolding pruning_def
proof (intro conjI)
  have rl: "r \<in> live g" "par g r = None" using root by (simp_all add: rooted_def)
  have ids: "ids_ok g" using tree by (simp add: tree_ok_def)
  have A: "live g - {r} \<union> set [r] = live g" using rl by auto
  show "g_map (unmap r g) = keep (live g - {r}) (g_map g)"
  proof -
    have "keep (live g) (g_map g) = g_map g" by (rule keep_all) (simp add: live_def)
    moreover have "- {r} \<inter> live g = live g - {r}" by blast
    ultimately have "keep (- {r}) (g_map g) = keep (live g - {r}) (g_map g)"
      using keep_keep[of "- {r}" "live g" "g_map g"] by metis
    thus ?thesis using unmap_keep[OF ids rl(1)] by (simp add: unmap_def)
  qed
  show "g_vtrs (unmap r g) = (\<lambda>a. case voted g a of None \<Rightarrow> None
      | Some i \<Rightarrow> if i \<in> live g - {r} \<union> set [r] then g_vtrs g a else None)"
  proof
    fix a
    show "g_vtrs (unmap r g) a = (case voted g a of None \<Rightarrow> None
      | Some i \<Rightarrow> if i \<in> live g - {r} \<union> set [r] then g_vtrs g a else None)"
      unfolding A
    proof (cases "g_vtrs g a")
      case (Some v)
      then obtain i where "voted g a = Some i" by (rule parked_voted[OF parked])
      thus "g_vtrs (unmap r g) a = (case voted g a of None \<Rightarrow> None | Some i \<Rightarrow> if i \<in> live g then g_vtrs g a else None)"
        using voted_live by (simp add: unmap_def)
    qed (simp add: unmap_def voted_def)
  qed
  have dl: "a \<in> set (g_dlists g i) \<longleftrightarrow> voted g a = Some i" for a i using parked by (simp add: parked_ok_def)
  have "g_dlists g i = []" if "i \<notin> live g" for i
    using dl[of "hd (g_dlists g i)" i] voted_live[of g "hd (g_dlists g i)" i] that by (cases "g_dlists g i") simp_all
  thus "g_dlists (unmap r g) = (\<lambda>i. if i \<in> live g - {r} \<union> set [r] then g_dlists g i else [])"
    unfolding A by (simp add: unmap_def fun_eq_iff)
  show "\<forall>j \<in> live g - {r}. j \<noteq> newr \<longrightarrow> (\<exists>p. par g j = Some p \<and> p \<in> live g - {r} \<union> set [r])"
    unfolding A
  proof (intro ballI impI)
    fix j assume "j \<in> live g - {r}"
    hence "j \<in> live g" "j \<noteq> r" by auto
    thus "\<exists>p. par g j = Some p \<and> p \<in> live g" using root unfolding rooted_def by blast
  qed
  show "\<forall>k \<in> live g. \<forall>p. par g k = Some p \<and> p \<in> live g - {r} \<union> set [r] \<longrightarrow> k \<in> live g - {r}"
  proof (intro ballI allI impI)
    fix k p assume "k \<in> live g" "par g k = Some p \<and> p \<in> live g - {r} \<union> set [r]"
    thus "k \<in> live g - {r}" using rl(2) by (cases "k = r") simp_all
  qed
  show "subtree (live g) (par g) newr \<subseteq> live g - {r}"
    using newr rl beneath_none[of "par g" r newr] by (auto simp: subtree_def)
  show "set (g_free (unmap r g)) = set (g_free g) \<union> (live g - (live g - {r} \<union> set [r]))"
    unfolding A by (simp add: unmap_def)
qed (use root tree in \<open>simp_all add: unmap_def tree_ok_def rooted_def\<close>)

text \<open>The state after the walk, with the new root made the root.\<close>

definition cut_at :: "nat \<Rightarrow> fd_ghost \<Rightarrow> fd_ghost" where
  "cut_at newr h = h\<lparr> g_pool := (g_pool h)(newr := (g_pool h newr)\<lparr> blk_parent := None \<rparr>), g_root := Some newr \<rparr>"

lemma cut_tree_ok:
  assumes tree: "tree_ok g" and newr: "newr \<in> live g" and inv: "pruning g newr (subtree (live g) (par g) newr) [] h"
  shows "tree_ok (cut_at newr h)" "live (cut_at newr h) = subtree (live g) (par g) newr"
    "par (cut_at newr h) = (par g)(newr := None)"
    "\<And>j. blk_stake (g_pool (cut_at newr h) j) = blk_stake (g_pool g j)"
proof -
  let ?S = "subtree (live g) (par g) newr" and ?g = "cut_at newr h"
  obtain r where r: "rooted (live g) (par g) r" using tree_root[OF tree] by blast
  have h: "g_pool h = g_pool g" "g_map h = keep ?S (g_map g)" "distinct (g_free h)"
      "set (g_free h) = set (g_free g) \<union> (live g - ?S)"
    using inv by (simp_all add: pruning_def)
  show live': "live ?g = ?S"
    using subtree_sub[of "live g" "par g" newr] by (auto simp: live_def cut_at_def h(2) ran_keep)
  show ps: "par ?g = (par g)(newr := None)" by (auto simp: cut_at_def h(1))
  have links: "blk_child (g_pool ?g j) = blk_child (g_pool g j)" "blk_sibling (g_pool ?g j) = blk_sibling (g_pool g j)"
      "blk_id (g_pool ?g j) = blk_id (g_pool g j)" for j
    by (simp_all add: cut_at_def h(1))
  have kids': "kids_ok ?S (g_pool ?g)"
    unfolding kids_ok_def ps
  proof
    fix q assume q: "q \<in> ?S"
    hence "q \<in> live g" by (simp add: subtree_def)
    then obtain ks where "sib_chain (g_pool g) (blk_child (g_pool g q)) ks" "distinct ks" "set ks = kids (live g) (par g) q"
      using tree by (auto simp: tree_ok_def kids_ok_def)
    thus "\<exists>ks. sib_chain (g_pool ?g) (blk_child (g_pool ?g q)) ks \<and> distinct ks \<and> set ks = kids ?S ((par g)(newr := None)) q"
      using kids_cut[OF r newr q] links sib_chain_cong[of "g_pool ?g" "g_pool g"] by auto
  qed
  have ids': "ids_ok ?g" using tree links(3) by (auto simp: tree_ok_def ids_ok_def cut_at_def h keep_Some)
  have "g_root ?g = Some newr" "g_free ?g = g_free h" by (simp_all add: cut_at_def)
  moreover have "set (g_free h) \<inter> ?S = {}"
    using h(4) tree subtree_sub[of "live g" "par g" newr] unfolding tree_ok_def by blast
  ultimately show "tree_ok ?g"
    using rooted_cut[OF r newr] ids' kids' h(3) unfolding tree_ok_def live' ps by simp
qed (use inv in \<open>simp add: cut_at_def pruning_def\<close>)

lemma cut_votes_ok:
  assumes tree: "tree_ok g" and parked: "parked_ok g" and newr: "newr \<in> live g"
    and inv: "pruning g newr (subtree (live g) (par g) newr) [] h"
  shows "parked_ok (cut_at newr h)" "\<And>b. b \<in> live (cut_at newr h) \<Longrightarrow> weight (cut_at newr h) b = weight g b"
proof -
  let ?S = "subtree (live g) (par g) newr" and ?g = "cut_at newr h"
  note cut = cut_tree_ok[OF tree newr inv]
  obtain r where r: "rooted (live g) (par g) r" using tree_root[OF tree] by blast
  have h: "g_map h = keep ?S (g_map g)"
      "g_vtrs h = (\<lambda>a. case voted g a of None \<Rightarrow> None | Some i \<Rightarrow> if i \<in> ?S then g_vtrs g a else None)"
      "g_dlists h = (\<lambda>i. if i \<in> ?S then g_dlists g i else [])"
    using inv unfolding pruning_def list.set(1) sup_bot_right by blast+
  have vo: "voted ?g a = (case voted g a of None \<Rightarrow> None | Some i \<Rightarrow> if i \<in> ?S then Some i else None)" for a
    by (auto simp: voted_def cut_at_def h keep_def split: option.splits if_splits)
  have vt: "g_vtrs ?g a = (if voted ?g a = None then None else g_vtrs g a)" for a
    by (simp add: vo) (simp add: cut_at_def h split: option.split)
  have "dom (g_vtrs ?g) \<subseteq> dom (g_vtrs g)" by (auto simp: vt split: if_splits)
  hence fin: "finite (dom (g_vtrs ?g))" using parked finite_subset by (auto simp: parked_ok_def)
  have dl: "a \<in> set (g_dlists g i) \<longleftrightarrow> voted g a = Some i" "distinct (g_dlists g i)" for a i
    using parked by (simp_all add: parked_ok_def)
  show "parked_ok ?g"
    unfolding parked_ok_def
  proof (intro conjI allI ballI fin)
    fix a assume "a \<in> dom (g_vtrs ?g)" thus "voted ?g a \<noteq> None" by (auto simp: vt split: if_splits)
  next
    fix i a
    show "a \<in> set (g_dlists ?g i) \<longleftrightarrow> voted ?g a = Some i"
      using dl(1)[of a i] by (auto simp: vo) (auto simp: cut_at_def h split: option.splits if_splits)
    show "distinct (g_dlists ?g i)" using dl(2) by (simp add: cut_at_def h)
  qed
  fix b assume "b \<in> live ?g"
  hence nb: "beneath (par g) newr b" unfolding cut(2) by (simp add: subtree_def)
  have "voted ?g a = Some i \<and> beneath ((par g)(newr := None)) b i \<longleftrightarrow> voted g a = Some i \<and> beneath (par g) b i" for a i
  proof (cases "voted g a = Some i")
    case True
    have "beneath (par g) b i \<Longrightarrow> i \<in> ?S"
      using beneath_trans[OF nb] voted_live[OF True] by (simp add: subtree_def)
    thus ?thesis using True beneath_cut[OF r newr, of i b] nb by (auto simp: vo)
  qed (auto simp: vo split: option.splits if_splits)
  hence ba: "backers ?g b = backers g b" unfolding backers_def cut(3) by simp
  show "weight ?g b = weight g b"
    unfolding weight_def ba
  proof (rule sum.cong[OF refl])
    fix a assume "a \<in> backers g b"
    hence "voted ?g a \<noteq> None" unfolding ba[symmetric] by (auto simp: backers_def)
    hence "g_vtrs ?g a = g_vtrs g a" by (simp only: vt if_False)
    thus "stake_of ?g a = stake_of g a" by (simp add: stake_of_def)
  qed
qed

lemma publish_ok:
  assumes ok: "ghost_ok g" and newr: "newr \<in> live g"
  shows "\<exists>g'. fd_ghost_publish g newr = Some g' \<and> ghost_ok g' \<and> g_root g' = Some newr
    \<and> live g' = subtree (live g) (par g) newr \<and> (\<forall>b \<in> live g'. weight g' b = weight g b)"
proof -
  have tree: "tree_ok g" and parked: "parked_ok g" and stakes: "stakes_ok g" using ok by (simp_all add: ghost_ok_def)
  obtain r where root: "g_root g = Some r" and r: "rooted (live g) (par g) r" using tree_root[OF tree] by blast
  show ?thesis
  proof (cases "newr = r")
    case True
    thus ?thesis using root ok subtree_root[OF r] by (simp add: fd_ghost_publish_def)
  next
    case False
    have m: "g_map g (blk_id (g_pool g r)) = Some r" using live_map[of g r] tree r by (simp add: tree_ok_def rooted_def)
    from prune_run[OF tree parked newr pruning_start[OF tree parked r False]] obtain L h where
      run: "prune newr [r] (unmap r g) = Some h" and inv: "pruning g newr L [] h" by blast
    have inv': "pruning g newr (subtree (live g) (par g) newr) [] h"
      using inv pruning_done[OF tree root False inv] by simp
    note cut = cut_tree_ok[OF tree newr inv'] cut_votes_ok[OF tree parked newr inv']
    have "stakes_ok (cut_at newr h)"
      using stakes cut(4,6) subtree_sub[of "live g" "par g" newr] by (auto simp: stakes_ok_def cut(2))
    moreover have "fd_ghost_publish g newr = Some (cut_at newr h)"
      using root False m run by (simp add: fd_ghost_publish_def cut_at_def)
    moreover have "g_root (cut_at newr h) = Some newr" by (simp add: cut_at_def)
    ultimately show ?thesis using cut by (auto simp: ghost_ok_def)
  qed
qed

end
