(* ===== verification/Ghost_Choice.thy ===== *)
theory Ghost_Choice
  imports Ghost_Publish
begin

text \<open>
  The choice of the heaviest fork, and the marking of forks as invalid and valid.
\<close>

section \<open>The heaviest valid child\<close>

lemma heavier_irrefl: "\<not> heavier b b"
  by (simp add: heavier_def)

lemma heavier_trans: "\<not> heavier x y \<Longrightarrow> \<not> heavier y z \<Longrightarrow> \<not> heavier x z"
  by (auto simp: heavier_def not_less split: if_splits)

lemma heavier_asym: "heavier x y \<Longrightarrow> \<not> heavier y x"
  by (auto simp: heavier_def split: if_splits)

definition contenders :: "blk_pool \<Rightarrow> bool \<Rightarrow> nat \<Rightarrow> nat list \<Rightarrow> nat set" where
  "contenders pool valid best ks = (if valid then {best} else {}) \<union> {k \<in> set ks. blk_valid (pool k)}"

lemma best_child_max:
  assumes "sib_chain pool c ks"
  shows "\<exists>b. best_child pool valid best c = Some (contenders pool valid best ks \<noteq> {}, b)
    \<and> (if contenders pool valid best ks = {} then b = best
       else b \<in> contenders pool valid best ks \<and> (\<forall>s \<in> contenders pool valid best ks. \<not> heavier (pool s) (pool b)))"
  using assms
proof (induction ks arbitrary: c valid best)
  case Nil
  thus ?case by (simp add: sib_chain_Nil best_child.simps contenders_def heavier_irrefl)
next
  case (Cons k ks)
  have c: "c = Some k" "sib_chain pool (blk_sibling (pool k)) ks" using Cons.prems by (simp_all add: sib_chain_Cons)
  show ?case
  proof (cases "blk_valid (pool k)")
    case False
    have "contenders pool valid best (k # ks) = contenders pool valid best ks"
      using False by (auto simp: contenders_def)
    moreover have "best_child pool valid best c = best_child pool valid best (blk_sibling (pool k))"
      using c(1) False by (subst best_child.simps) simp
    ultimately show ?thesis using Cons.IH[OF c(2), of valid best] by (simp only:)
  next
    case True
    let ?b = "pick_child pool valid best k"
    have b: "?b = k \<or> (valid \<and> ?b = best)" "\<not> heavier (pool k) (pool ?b)" "valid \<Longrightarrow> \<not> heavier (pool best) (pool ?b)"
      using heavier_asym[of "pool k" "pool best"] by (auto simp: pick_child_def heavier_irrefl)
    let ?C = "contenders pool valid best (k # ks)" and ?D = "contenders pool True ?b ks"
    have D: "?D \<noteq> {}" "?b \<in> ?D" "?D \<subseteq> ?C" and C: "?C \<subseteq> insert k (if valid then {best} else {}) \<union> ?D" "?C \<noteq> {}"
      using b(1) True by (auto simp: contenders_def)
    obtain x where x: "best_child pool True ?b (blk_sibling (pool k)) = Some (True, x)" "x \<in> ?D"
        "\<forall>s \<in> ?D. \<not> heavier (pool s) (pool x)"
      using Cons.IH[OF c(2), of True ?b] D(1) by auto
    have "\<not> heavier (pool s) (pool x)" if "s \<in> ?C" for s
    proof (cases "s \<in> ?D")
      case False
      hence "\<not> heavier (pool s) (pool ?b)" using that C b by (auto split: if_splits)
      thus ?thesis using x(3) D(2) heavier_trans by blast
    qed (use x(3) in blast)
    moreover have "best_child pool valid best c = Some (True, x)"
      using x(1) c(1) True by (subst best_child.simps) simp
    ultimately show ?thesis using x(2) D(3) C(2) by auto
  qed
qed

text \<open>
  What the greedy walk promises: the blocks on the way are valid, each has more stake than every valid
  sibling, or the same stake and a slot that is not higher, and no child of the last one is valid.
\<close>

definition outweighs :: "fd_ghost_blk \<Rightarrow> fd_ghost_blk \<Rightarrow> bool" where
  "outweighs c s \<longleftrightarrow> unat (blk_stake s) < unat (blk_stake c)
     \<or> (unat (blk_stake s) = unat (blk_stake c) \<and> unat (blk_slot c) \<le> unat (blk_slot s))"

lemma not_heavier: "\<not> heavier s c \<longleftrightarrow> outweighs c s"
  by (auto simp: heavier_def outweighs_def word_less_nat_alt not_less word_unat_eq_iff)

definition greedy :: "fd_ghost \<Rightarrow> nat \<Rightarrow> nat \<Rightarrow> bool" where
  "greedy g root b \<longleftrightarrow> b \<in> subtree (live g) (par g) root
     \<and> (\<forall>k \<in> kids (live g) (par g) b. \<not> blk_valid (g_pool g k))
     \<and> (\<forall>c. beneath (par g) c b \<and> beneath (par g) root c \<and> c \<noteq> root \<longrightarrow> blk_valid (g_pool g c)
          \<and> (\<forall>s \<in> live g. par g s = par g c \<and> blk_valid (g_pool g s) \<longrightarrow> outweighs (g_pool g c) (g_pool g s)))"

lemma best_ok:
  assumes tree: "tree_ok g" and root: "root \<in> live g"
  shows "\<exists>b. fd_ghost_best g root = Some b \<and> greedy g root b"
proof -
  obtain r where r: "rooted (live g) (par g) r" using tree_root[OF tree] by blast
  show ?thesis using r root unfolding fd_ghost_best_def
  proof (induction rule: subtree_induct)
    case (node i)
    obtain ks where ks: "sib_chain (g_pool g) (blk_child (g_pool g i)) ks" "set ks = kids (live g) (par g) i"
      using tree node.hyps by (auto simp: tree_ok_def kids_ok_def)
    let ?C = "contenders (g_pool g) False i ks"
    have C: "?C = {k \<in> kids (live g) (par g) i. blk_valid (g_pool g k)}" by (simp add: contenders_def ks(2))
    obtain b where b: "best_child (g_pool g) False i (blk_child (g_pool g i)) = Some (?C \<noteq> {}, b)"
        "if ?C = {} then b = i else b \<in> ?C \<and> (\<forall>s \<in> ?C. \<not> heavier (g_pool g s) (g_pool g b))"
      using best_child_max[OF ks(1)] by blast
    show ?case
    proof (cases "?C = {}")
      case True
      have "best_from (g_pool g) i = Some i"
        using b True by (cases "blk_child (g_pool g i)") (simp_all add: best_from.simps)
      moreover have "c = i" if "beneath (par g) c i" "beneath (par g) i c" for c
        using beneath_antisym[OF r node.hyps that] .
      ultimately show ?thesis using True node.hyps by (auto simp: greedy_def C subtree_def)
    next
      case False
      hence k: "b \<in> kids (live g) (par g) i" "blk_valid (g_pool g b)"
          "\<forall>s \<in> kids (live g) (par g) i. blk_valid (g_pool g s) \<longrightarrow> outweighs (g_pool g b) (g_pool g s)"
        using b(2)[unfolded if_not_P[OF False] not_heavier] unfolding C by blast+
      have bl: "b \<in> live g" "par g b = Some i" using k(1) by (auto simp: kids_def)
      obtain x where x: "best_from (g_pool g) b = Some x" "greedy g b x" using node.IH[OF k(1)] by blast
      have child: "blk_child (g_pool g i) \<noteq> None" using ks k(1) by (cases ks) (auto simp: sib_chain_Cons)
      have run: "best_from (g_pool g) i = Some x"
        using b(1) False x(1) child by (subst best_from.simps) (auto split: option.split)
      have path: "blk_valid (g_pool g c) \<and> (\<forall>s \<in> live g. par g s = par g c \<and> blk_valid (g_pool g s)
            \<longrightarrow> outweighs (g_pool g c) (g_pool g s))"
        if c: "beneath (par g) c x" "beneath (par g) i c" "c \<noteq> i" for c
      proof (cases "c = b")
        case True
        thus ?thesis using k bl by (auto simp: kids_def)
      next
        case False
        have bx: "beneath (par g) b x" using x(2) by (simp add: greedy_def subtree_def)
        have "\<not> beneath (par g) c b"
        proof
          assume "beneath (par g) c b"
          hence "beneath (par g) c i" using False bl(2) beneath_step[of "par g" c b] by auto
          thus False using beneath_antisym[OF r node.hyps _ c(2)] c(3) by blast
        qed
        hence "beneath (par g) b c" using beneath_linear[OF bx c(1)] by blast
        thus ?thesis using x(2) c(1) False unfolding greedy_def by blast
      qed
      have "x \<in> subtree (live g) (par g) i"
        using x(2) subtree_unfold[OF r node.hyps] k(1) by (auto simp: greedy_def)
      thus ?thesis using run path x(2) unfolding greedy_def by blast
    qed
  qed
qed

section \<open>Marking a fork invalid\<close>

definition invalidate_all :: "nat set \<Rightarrow> blk_pool \<Rightarrow> blk_pool" where
  "invalidate_all S pool = (\<lambda>j. if j \<in> S then (pool j)\<lparr> blk_valid := False \<rparr> else pool j)"

lemma same_links_invalidate [simp]: "same_links pool (invalidate i pool)" "same_links pool (invalidate_all S pool)"
  by (simp_all add: same_links_def invalidate_def invalidate_all_def)

lemma invalidate_all_one: "invalidate i pool = invalidate_all {i} pool"
  by (auto simp: invalidate_def invalidate_all_def)

lemma invalidate_all_all: "invalidate_all S (invalidate_all T pool) = invalidate_all (T \<union> S) pool"
  by (auto simp: invalidate_all_def)

text \<open>What happens after a block and its descendants are done.\<close>

definition resume :: "nat \<Rightarrow> nat \<Rightarrow> blk_pool \<Rightarrow> blk_pool option" where
  "resume root i pool =
     (case backtrack pool root i of
        None \<Rightarrow> None
      | Some n \<Rightarrow> if n = root then Some pool else mark_invalid root n pool)"

lemma resume_root: "resume root root pool = Some pool"
  by (simp add: resume_def backtrack.simps)

lemma resume_sibling: "i \<noteq> root \<Longrightarrow> blk_sibling (pool i) = Some s \<Longrightarrow> s \<noteq> root \<Longrightarrow> resume root i pool = mark_invalid root s pool"
  by (simp add: resume_def backtrack.simps)

lemma resume_parent: "i \<noteq> root \<Longrightarrow> blk_sibling (pool i) = None \<Longrightarrow> blk_parent (pool i) = Some p \<Longrightarrow> resume root i pool = resume root p pool"
  by (simp add: resume_def backtrack.simps[of pool root i])

text \<open>The children of a block, visited from left to right, lead back to the block.\<close>

lemma mark_siblings:
  assumes "sib_chain pool (Some k) ks" "distinct ks"
    and visit: "\<And>j pool'. j \<in> set ks \<Longrightarrow> same_links pool pool' \<Longrightarrow>
        mark_invalid root j pool' = resume root j (invalidate_all (S j) pool')"
    and kid: "\<And>j. j \<in> set ks \<Longrightarrow> blk_parent (pool j) = Some i \<and> j \<noteq> root"
  shows "mark_invalid root k pool = resume root i (invalidate_all (\<Union>j \<in> set ks. S j) pool)"
  using assms
proof (induction ks arbitrary: k pool)
  case (Cons j ks)
  let ?pool = "invalidate_all (S k) pool"
  have k: "k = j" "sib_chain pool (blk_sibling (pool k)) ks" using Cons.prems(1) by simp_all
  have m: "mark_invalid root k pool = resume root k ?pool" using Cons.prems(3)[of k pool] k(1) by simp
  have links: "same_links pool ?pool" by simp
  hence kl: "blk_sibling (?pool k) = blk_sibling (pool k)" "blk_parent (?pool k) = Some i" "k \<noteq> root"
    using Cons.prems(4)[of k] k(1) by (simp_all add: same_links_def)
  show ?case
  proof (cases ks)
    case Nil
    hence "blk_sibling (pool k) = None" using k(2) by (simp add: sib_chain_Nil)
    thus ?thesis using m kl resume_parent[of k root ?pool i] Nil k(1) by simp
  next
    case (Cons s ss)
    hence s: "blk_sibling (pool k) = Some s" using k(2) by (simp add: sib_chain_Cons)
    have "s \<noteq> root" using Cons.prems(4)[of s] Cons by simp
    hence "resume root k ?pool = mark_invalid root s ?pool" using kl s by (intro resume_sibling) simp_all
    also have "\<dots> = resume root i (invalidate_all (\<Union>j \<in> set ks. S j) ?pool)"
    proof (rule Cons.IH)
      show "sib_chain ?pool (Some s) ks"
        using k(2) s sib_chain_cong[of ?pool pool] links by (simp add: same_links_def)
      show "distinct ks" using Cons.prems(2) by simp
      show "mark_invalid root j pool' = resume root j (invalidate_all (S j) pool')"
        if "j \<in> set ks" "same_links ?pool pool'" for j pool'
        using Cons.prems(3)[of j pool'] that same_links_trans[OF links that(2)] by simp
      show "blk_parent (?pool j) = Some i \<and> j \<noteq> root" if "j \<in> set ks" for j
        using Cons.prems(4)[of j] that links by (simp add: same_links_def)
    qed
    finally show ?thesis using m k(1) by (simp add: invalidate_all_all)
  qed
qed simp

lemma mark_visit:
  assumes tree: "rooted nodes ps r" and kids: "kids_ok nodes pool0" and ps: "parents pool0 = ps"
    and i: "i \<in> nodes" "beneath ps root i" and links: "same_links pool0 pool"
  shows "mark_invalid root i pool = resume root i (invalidate_all (subtree nodes ps i) pool)"
  using tree i links
proof (induction arbitrary: pool rule: subtree_induct)
  case (node i)
  obtain ks where ks: "sib_chain pool0 (blk_child (pool0 i)) ks" "distinct ks" "set ks = kids nodes ps i"
    using kids node.hyps unfolding kids_ok_def ps by blast
  let ?pool = "invalidate i pool"
  have l: "same_links pool0 ?pool" by (rule same_links_trans[OF node.prems(2)]) simp
  have chain: "sib_chain ?pool (blk_child (pool i)) ks"
    using ks(1) sib_chain_cong[of ?pool pool0] l node.prems(2) by (simp add: same_links_def)
  have S: "subtree nodes ps i = {i} \<union> (\<Union>j \<in> set ks. subtree nodes ps j)"
    unfolding ks(3) using subtree_unfold[OF tree node.hyps] by simp
  show ?case
  proof (cases "blk_child (pool i)")
    case None
    hence "ks = []" using chain by (cases ks) simp_all
    thus ?thesis using None S
      by (subst mark_invalid.simps) (simp add: resume_def flip: invalidate_all_one)
  next
    case (Some k)
    have "mark_invalid root k ?pool = resume root i (invalidate_all (\<Union>j \<in> set ks. subtree nodes ps j) ?pool)"
    proof (rule mark_siblings[OF _ ks(2)])
      show "sib_chain ?pool (Some k) ks" using chain Some by simp
      fix j assume j: "j \<in> set ks"
      hence jn: "j \<in> nodes" "ps j = Some i" using ks(3) by (auto simp: kids_def)
      have "\<not> beneath ps j i" by (rule parent_not_beneath[OF tree jn])
      moreover have "blk_parent (?pool j) = ps j" using l by (simp add: same_links_def flip: ps)
      ultimately show "blk_parent (?pool j) = Some i \<and> j \<noteq> root" using jn node.prems(1) by auto
      fix pool' assume "same_links ?pool pool'"
      hence "same_links pool0 pool'" by (rule same_links_trans[OF l])
      moreover have "beneath ps root j" by (rule beneath_parent[OF jn(2) node.prems(1)])
      ultimately show "mark_invalid root j pool' = resume root j (invalidate_all (subtree nodes ps j) pool')"
        using node.IH j ks(3) by simp
    qed
    thus ?thesis using Some S
      by (subst mark_invalid.simps) (simp add: invalidate_all_one invalidate_all_all)
  qed
qed

lemma eqvoc_result:
  assumes tree: "tree_ok g" and blk: "g_map g block_id = Some b"
  shows "fd_ghost_eqvoc g block_id = Some (g\<lparr> g_pool := invalidate_all (subtree (live g) (par g) b) (g_pool g) \<rparr>)"
proof -
  obtain r where r: "rooted (live g) (par g) r" using tree_root[OF tree] by blast
  have "b \<in> live g" using blk by (auto simp: live_def ran_def)
  hence "mark_invalid b b (g_pool g) = resume b b (invalidate_all (subtree (live g) (par g) b) (g_pool g))"
    using tree by (intro mark_visit[OF r _ refl]) (simp_all add: tree_ok_def)
  thus ?thesis using blk by (simp add: fd_ghost_eqvoc_def resume_root)
qed

text \<open>Marks do not touch the tree, the votes or the stakes.\<close>

lemma ghost_ok_marks:
  assumes "ghost_ok g" "same_links (g_pool g) pool" "\<And>j. blk_stake (pool j) = blk_stake (g_pool g j)"
  shows "ghost_ok (g\<lparr> g_pool := pool \<rparr>)"
proof -
  let ?g = "g\<lparr> g_pool := pool \<rparr>"
  have "tree_ok ?g" using assms(1) tree_ok_cong[of g ?g] assms(2) by (simp add: ghost_ok_def)
  moreover have v: "voted ?g = voted g" "live ?g = live g" "stake_of ?g = stake_of g"
    by (simp_all add: voted_def live_def stake_of_def fun_eq_iff split: option.split)
  moreover have "weight ?g b = weight g b" for b
    using v same_links_par[OF assms(2)] by (simp add: weight_def backers_def)
  ultimately show ?thesis using assms by (simp add: ghost_ok_def parked_ok_def stakes_ok_def)
qed

section \<open>Confirming a fork\<close>

text \<open>The state in which a valid block has only valid ancestors.\<close>

definition valid_closed :: "fd_ghost \<Rightarrow> bool" where
  "valid_closed g \<longleftrightarrow> (\<forall>j \<in> live g. \<forall>p. blk_valid (g_pool g j) \<and> par g j = Some p \<longrightarrow> blk_valid (g_pool g p))"

lemma valid_closed_beneath:
  assumes "\<And>j p. beneath ps j i \<Longrightarrow> v j \<Longrightarrow> ps j = Some p \<Longrightarrow> v p" "v i" "beneath ps k i"
  shows "v k"
  using assms(3) unfolding beneath_def
proof (induction rule: rtrancl_induct)
  case (step y z)
  thus ?case using assms(1)[of y z] by (simp add: up_def beneath_def)
qed (rule assms(2))

definition validate_all :: "nat set \<Rightarrow> blk_pool \<Rightarrow> blk_pool" where
  "validate_all S pool = (\<lambda>j. if j \<in> S then (pool j)\<lparr> blk_valid := True \<rparr> else pool j)"

lemma mark_valid_run:
  assumes "rooted nodes ps r" "i \<in> nodes" "parents pool = ps"
    and "\<And>j p. beneath ps j i \<Longrightarrow> blk_valid (pool j) \<Longrightarrow> ps j = Some p \<Longrightarrow> blk_valid (pool p)"
  shows "mark_valid (Some i) pool = Some (validate_all {j. beneath ps j i} pool)"
  using assms
proof (induction arbitrary: pool rule: rooted_induct)
  case root
  have n: "ps r = None" using assms(1) by (simp add: rooted_def)
  hence "{j. beneath ps j r} = {r}" by (simp add: beneath_none)
  moreover have "blk_parent (pool r) = None" using n root.prems(1) by (metis (full_types))
  ultimately show ?case
    by (subst mark_valid.simps) (auto simp: validate_all_def mark_valid.simps fun_eq_iff)
next
  case (node i p)
  have p: "blk_parent (pool i) = Some p" using node.hyps(4) node.prems(1) by (metis (full_types))
  show ?case
  proof (cases "blk_valid (pool i)")
    case True
    have "blk_valid (pool j)" if "beneath ps j i" for j
      by (rule valid_closed_beneath[where v = "\<lambda>j. blk_valid (pool j)", OF node.prems(2) True that])
    hence "validate_all {j. beneath ps j i} pool = pool" by (auto simp: validate_all_def fun_eq_iff)
    thus ?thesis using True by (subst mark_valid.simps) simp
  next
    case False
    let ?pool = "pool(i := (pool i)\<lparr> blk_valid := True \<rparr>)"
    have np: "\<not> beneath ps i p" by (rule parent_not_beneath[OF assms(1) node.hyps(1,4)])
    have "parents ?pool = ps" using node.prems(1) by (auto simp: fun_eq_iff)
    moreover have "blk_valid (?pool q)" if "beneath ps j p" "blk_valid (?pool j)" "ps j = Some q" for j q
    proof -
      have "j \<noteq> i" using that(1) np by auto
      thus ?thesis using node.prems(2)[OF beneath_parent[OF node.hyps(4) that(1)] _ that(3)] that(2) by simp
    qed
    ultimately have "mark_valid (Some p) ?pool = Some (validate_all {j. beneath ps j p} ?pool)" by (rule node.IH)
    moreover have "{j. beneath ps j i} = insert i {j. beneath ps j p}"
      using node.hyps(4) by (subst beneath_step) auto
    ultimately show ?thesis using False p
      by (subst mark_valid.simps) (auto simp: validate_all_def fun_eq_iff)
  qed
qed

lemma confirm_result:
  assumes tree: "tree_ok g" and closed: "valid_closed g" and blk: "g_map g block_id = Some b"
  shows "fd_ghost_confirm g block_id = Some (g\<lparr> g_pool := validate_all {j. beneath (par g) j b} (g_pool g) \<rparr>)"
proof -
  obtain r where r: "rooted (live g) (par g) r" using tree_root[OF tree] by blast
  have b: "b \<in> live g" using blk by (auto simp: live_def ran_def)
  have "mark_valid (Some b) (g_pool g) = Some (validate_all {j. beneath (par g) j b} (g_pool g))"
    by (rule mark_valid_run[OF r b refl]) (use closed rooted_live[OF r b] in \<open>auto simp: valid_closed_def\<close>)
  thus ?thesis using blk by (simp add: fd_ghost_confirm_def)
qed

lemma same_links_validate [simp]: "same_links pool (validate_all S pool)"
  by (simp add: same_links_def validate_all_def)

text \<open>Any run of the walk that marks ancestors valid changes marks only.\<close>

lemma mark_valid_links:
  "mark_valid anc pool = Some pool' \<Longrightarrow> same_links pool pool' \<and> (\<forall>j. blk_stake (pool' j) = blk_stake (pool j))"
proof (rule mark_valid.raw_induct[where P = "\<lambda>anc pool pool'. same_links pool pool' \<and> (\<forall>j. blk_stake (pool' j) = blk_stake (pool j))"])
  fix f anc pool pool'
  assume IH: "\<And>anc pool pool'. f anc pool = Some pool' \<Longrightarrow> same_links pool pool' \<and> (\<forall>j. blk_stake (pool' j) = blk_stake (pool j))"
    and run: "(case anc of None \<Rightarrow> Some pool
      | Some i \<Rightarrow> if blk_valid (pool i) then Some pool
                  else f (blk_parent (pool i)) (pool(i := (pool i)\<lparr> blk_valid := True \<rparr>))) = Some pool'"
  show "same_links pool pool' \<and> (\<forall>j. blk_stake (pool' j) = blk_stake (pool j))"
  proof (cases anc)
    case (Some i)
    show ?thesis
    proof (cases "blk_valid (pool i)")
      case False
      let ?pool = "pool(i := (pool i)\<lparr> blk_valid := True \<rparr>)"
      have "same_links ?pool pool' \<and> (\<forall>j. blk_stake (pool' j) = blk_stake (?pool j))"
        using IH[of "blk_parent (pool i)" ?pool pool'] run Some False by simp
      moreover have "same_links pool ?pool" by (simp add: same_links_def)
      ultimately show ?thesis using same_links_trans by (auto split: if_splits)
    qed (use run Some in simp)
  qed (use run in simp)
qed

section \<open>Reachable states\<close>

lemma init_ok:
  assumes "g_map g = Map.empty" "g_vtrs g = Map.empty" "g_dlists g = (\<lambda>i. [])" "distinct (g_free g)" "g_free g \<noteq> []"
  obtains i g' where "fd_ghost_init g bank_seq slot block_id = Some (i, g')" "ghost_ok g'" "live g' = {i}"
    "g_root g' = Some i" "valid_closed g'"
proof -
  obtain i free where free: "g_free g = i # free" using assms(5) by (cases "g_free g") auto
  obtain g' where run: "fd_ghost_init g bank_seq slot block_id = Some (i, g')"
    and f: "g_map g' = [block_id \<mapsto> i]" "g_root g' = Some i" "g_free g' = free" "g_vtrs g' = Map.empty" "g_dlists g' = (\<lambda>i. [])"
      "blk_id (g_pool g' i) = block_id" "blk_parent (g_pool g' i) = None" "blk_child (g_pool g' i) = None" "blk_stake (g_pool g' i) = 0"
    using assms free by (simp add: fd_ghost_init_def ghost_insert_def)
  have live: "live g' = {i}" by (simp add: live_def f)
  have r: "rooted {i} (par g') i" by (simp add: rooted_def f)
  have k: "kids_ok {i} (g_pool g')"
    unfolding kids_ok_def kids_def by (auto simp: f intro!: exI[of _ "[]"])
  have "tree_ok g'"
    using r k free assms(4) by (auto simp: tree_ok_def live f ids_ok_def split: if_splits)
  moreover have v: "voted g' a = None" for a by (simp add: voted_def f)
  hence "parked_ok g'" by (simp add: parked_ok_def f)
  moreover have "stakes_ok g'" using v by (simp add: stakes_ok_def live f weight_def backers_def)
  ultimately have "ghost_ok g'" by (simp add: ghost_ok_def)
  thus ?thesis using that run live f by (auto simp: valid_closed_def)
qed

end
