(* ===== verification/Tower_Safe.thy ===== *)
theory Tower_Safe
  imports Tower_Blocks Ghost_Choice
begin

text \<open>
  The lockout rule: a vote is cast only for a block that descends from every earlier vote that has not
  expired, so the votes of a tower always lie on one fork.
\<close>

section \<open>What the searches leave alone\<close>

lemma unmap_pool [simp]: "g_pool (unmap c g) = g_pool g"
  by (simp add: unmap_def)

lemma remap_pool: "remap i g = Some g' \<Longrightarrow> g_pool g' = g_pool g"
  by (auto simp: remap_def split: if_splits)

lemma remap_all_pool: "remap_all q g = Some g' \<Longrightarrow> g_pool g' = g_pool g"
  by (induction q arbitrary: g) (auto simp: bind_eq_Some_conv dest!: remap_pool)

lemma switch_children_pool:
  assumes "switch_children tower child queue leaf g = Some (queue', leaf', g')"
  shows "g_pool g' = g_pool g"
proof -
  have "g_pool (snd (snd y)) = g_pool g" if "switch_children tower child queue leaf g = Some y" for y
  proof (rule switch_children.raw_induct[of "\<lambda>tower child queue leaf g y. g_pool (snd (snd y)) = g_pool g", OF _ that])
    fix walk tower child queue leaf y and g :: fd_ghost
    assume IH: "\<And>tower child queue leaf g y. walk tower child queue leaf g = Some y \<Longrightarrow> g_pool (snd (snd y)) = g_pool g"
      and run: "(case child of None \<Rightarrow> Some (queue, leaf, g)
        | Some c \<Rightarrow> case is_purged tower (g_pool g c) of None \<Rightarrow> None
            | Some purged \<Rightarrow> if \<not> purged then walk tower (blk_sibling (g_pool g c)) (queue @ [c]) False (unmap c g)
                            else walk tower (blk_sibling (g_pool g c)) queue leaf g) = Some y"
    show "g_pool (snd (snd y)) = g_pool g"
      using run by (auto split: option.splits if_splits dest: IH)
  qed
  from this[OF assms] show ?thesis by simp
qed

lemma switch_walk_pool:
  assumes "switch_walk tower tot last_vote switch_slot queue used stake g = Some (pass, g')"
  shows "g_pool g' = g_pool g"
proof -
  have "g_pool (snd y) = g_pool g"
    if "switch_walk tower tot last_vote switch_slot queue used stake g = Some y" for y
  proof (rule switch_walk.raw_induct[of "\<lambda>tower tot last_vote switch_slot queue used stake g y. g_pool (snd y) = g_pool g",
        OF _ that], goal_cases)
    case (1 walk tower tot last_vote switch_slot queue used stake g y)
    note IH = 1(1)
    show ?case
    proof (cases queue)
      case Nil
      thus ?thesis using 1(2) by auto
    next
      case (Cons blk rest)
      obtain q leaf h where h: "switch_children tower (blk_child (g_pool g blk)) rest True g = Some (q, leaf, h)"
        using 1(2) Cons by (cases "switch_children tower (blk_child (g_pool g blk)) rest True g") auto
      obtain k where k: "remap blk h = Some k" using 1(2) Cons h by (cases "remap blk h") auto
      have p: "g_pool k = g_pool g" using switch_children_pool[OF h] remap_pool[OF k] by simp
      have r: "remap_all q k = Some z \<Longrightarrow> g_pool z = g_pool g" for z using remap_all_pool p by metis
      have w: "walk tower tot last_vote switch_slot q used stake k = Some y \<Longrightarrow> g_pool (snd y) = g_pool g" for used stake
        using IH p by metis
      show ?thesis using 1(2) Cons h k by (auto split: if_splits option.splits) (rule w r, assumption)+
    qed
  qed
  from this[OF assms] show ?thesis by simp
qed

lemma switch_check_frame:
  assumes "switch_check tower g tot slot = Some (pass, tower', g')"
  shows "tower' = tower\<lparr> t_used_acc := {} \<rparr>" "g_pool g' = g_pool g"
  using assms by (auto simp: switch_check_def bind_eq_Some_conv dest!: switch_walk_pool)

section \<open>Cases of the decision\<close>

text \<open>What the choice of forks can return.\<close>

definition choice_frame :: "fd_tower \<Rightarrow> fd_ghost \<Rightarrow> nat \<Rightarrow> choice \<Rightarrow> bool" where
  "choice_frame tower g best =
     (\<lambda>(flags, reset, vote, tower', g'). (tower' = tower \<or> tower' = tower\<lparr> t_used_acc := {} \<rparr>)
        \<and> (vote \<noteq> None \<longrightarrow> vote = Some best \<and> g_pool g' = g_pool g))"

lemma switch_fork_frame:
  assumes "switch_fork tower g best prev invalid = Some r"
  shows "choice_frame tower g best r"
proof -
  obtain pass tower' g' where s:
      "switch_check tower g (blk_total_stake (g_pool g best)) (blk_slot (g_pool g best)) = Some (pass, tower', g')"
    using assms by (auto simp: switch_fork_def bind_eq_Some_conv)
  show ?thesis using assms s switch_check_frame[OF s]
    by (auto simp: switch_fork_def choice_frame_def bind_eq_Some_conv split: if_splits)
qed

lemma pick_forks_frame:
  assumes "pick_forks tower g best = Some r"
  shows "choice_frame tower g best r"
proof -
  have c: "choice_frame tower g best (f, b, None, tower, g)" "choice_frame tower g best (f, b, Some best, tower, g)" for f b
    by (simp_all add: choice_frame_def)
  show ?thesis using assms unfolding pick_forks_def Let_def bind_eq_Some_conv
    by (fastforce split: if_splits simp: c bind_eq_Some_conv dest: switch_fork_frame)
qed

section \<open>Votes on one fork\<close>

definition on_fork :: "tower_blocks \<Rightarrow> fd_tower_vote list \<Rightarrow> bool" where
  "on_fork blocks = sorted_wrt (\<lambda>v w. descends blocks (vote_slot v) (vote_slot w))"

definition tower_ok :: "fd_tower \<Rightarrow> bool" where
  "tower_ok tower \<longleftrightarrow> votes_ok (t_votes tower) \<and> blocks_ok (t_blocks tower) \<and> on_fork (t_blocks tower) (t_votes tower)"

lemma on_fork_slots: "on_fork blocks votes \<longleftrightarrow> sorted_wrt (descends blocks) (map vote_slot votes)"
  by (simp add: on_fork_def sorted_wrt_map)

lemma in_set_tlD: "x \<in> set (tl xs) \<Longrightarrow> x \<in> set xs"
  by (cases xs) simp_all

lemma sorted_wrt_tl: "sorted_wrt P xs \<Longrightarrow> sorted_wrt P (tl xs)"
  by (cases xs) simp_all

lemma unexpired_kept:
  assumes "v \<in> set votes" "slot \<le> expiration_slot v"
  shows "v \<in> set (take (simulate_vote votes slot) votes)"
proof -
  obtain i where i: "i < length votes" "v = votes ! i" using assms(1) by (auto simp: in_set_conv_nth)
  have "i < simulate_vote votes slot"
    using simulate_from_expired[of votes slot "length votes" i] assms(2) i
    by (fastforce simp: simulate_vote_def not_le)
  thus ?thesis using i simulate_vote_le[of votes slot] by (auto simp: in_set_conv_nth)
qed

lemma vote_below_last:
  assumes "votes_ok votes" "v \<in> set votes"
  shows "vote_slot v \<le> vote_slot (last votes)"
proof -
  obtain i where i: "i < length votes" "v = votes ! i" using assms(2) by (auto simp: in_set_conv_nth)
  have "votes \<noteq> []" using i by auto
  show ?thesis
  proof (cases "i = length votes - 1")
    case False
    hence "below v (votes ! (length votes - 1))" using assms(1) i by (simp add: votes_ok_nth)
    thus ?thesis using \<open>votes \<noteq> []\<close> by (simp add: below_def last_conv_nth less_imp_le)
  qed (use i \<open>votes \<noteq> []\<close> in \<open>simp add: last_conv_nth\<close>)
qed

text \<open>A slot that passes the lockout check is newer than every vote and descends from those it keeps.\<close>

lemma lockout_check_sound:
  assumes "tower_ok tower" "lockout_check tower slot = Some True"
  shows "t_votes tower = [] \<or> vote_slot (last (t_votes tower)) < slot"
    "\<forall>v \<in> set (take (simulate_vote (t_votes tower) slot) (t_votes tower)). descends (t_blocks tower) (vote_slot v) slot"
proof -
  let ?votes = "t_votes tower" and ?n = "simulate_vote (t_votes tower) slot"
  have blocks: "blocks_ok (t_blocks tower)" and fork: "on_fork (t_blocks tower) ?votes"
    using assms(1) by (simp_all add: tower_ok_def)
  show "?votes = [] \<or> vote_slot (last ?votes) < slot"
    using assms(2) by (auto simp: lockout_check_def not_le split: if_splits)
  show "\<forall>v \<in> set (take ?n ?votes). descends (t_blocks tower) (vote_slot v) slot"
  proof (cases "?n = 0")
    case False
    hence ne: "?votes \<noteq> []" by (auto simp: simulate_vote_def)
    have n: "?n \<le> length ?votes" by (rule simulate_vote_le)
    have top: "descends (t_blocks tower) (vote_slot (?votes ! (?n - 1))) slot"
      using assms(2) False ne
      by (auto simp: lockout_check_def slot_queries is_ancestor_ok[OF blocks] Let_def split: if_splits)
    show ?thesis
    proof
      fix v assume "v \<in> set (take ?n ?votes)"
      then obtain i where i: "i < ?n" "v = ?votes ! i" using n by (auto simp: in_set_conv_nth)
      show "descends (t_blocks tower) (vote_slot v) slot"
      proof (cases "i = ?n - 1")
        case False
        hence "descends (t_blocks tower) (vote_slot v) (vote_slot (?votes ! (?n - 1)))"
          using sorted_wrt_nth_less[OF fork[unfolded on_fork_def], of i "?n - 1"] i n by simp
        thus ?thesis using top by (rule descends_trans)
      qed (use i top in simp)
    qed
  qed simp
qed

lemma push_on_fork:
  assumes "tower_ok tower" "lockout_check tower slot = Some True" "unat slot < 2 ^ 63"
    and "push_vote (t_votes tower) slot = Some (new_root, votes)"
  shows "votes_ok votes" "on_fork (t_blocks tower) votes" "last votes = \<lparr> vote_slot = slot, vote_conf = 1 \<rparr>" "votes \<noteq> []"
proof -
  let ?kept = "kept_votes (t_votes tower) slot"
  have ok: "votes_ok (t_votes tower)" and fork: "on_fork (t_blocks tower) (t_votes tower)"
    using assms(1) by (simp_all add: tower_ok_def)
  note sound = lockout_check_sound[OF assms(1,2)]
  have v: "votes = relock ?kept @ [\<lparr> vote_slot = slot, vote_conf = 1 \<rparr>]"
    using push_vote_result[OF ok sound(1)] assms(4) by simp
  show "votes_ok votes" by (rule votes_ok_push[OF ok sound(1) assms(3,4)])
  have sub: "set ?kept \<subseteq> set (take (simulate_vote (t_votes tower) slot) (t_votes tower))"
    by (auto simp: kept_votes_def Let_def dest: in_set_tlD)
  have "on_fork (t_blocks tower) ?kept"
    using fork by (auto simp: on_fork_def kept_votes_def Let_def sorted_wrt_take sorted_wrt_tl)
  moreover have "\<forall>w \<in> set (map vote_slot ?kept). descends (t_blocks tower) w slot" using sound(2) sub by auto
  ultimately show "on_fork (t_blocks tower) votes" by (simp add: on_fork_slots v sorted_wrt_append)
  show "last votes = \<lparr> vote_slot = slot, vote_conf = 1 \<rparr>" "votes \<noteq> []" by (simp_all add: v)
qed

section \<open>Casting a vote\<close>

lemma lockout_check_used [simp]: "lockout_check (tower\<lparr> t_used_acc := u \<rparr>) = lockout_check tower"
  by (rule ext) (simp add: lockout_check_def slot_queries is_ancestor_def Let_def)

lemma descends_cong: "slot_par blocks' = slot_par blocks \<Longrightarrow> descends blocks' = descends blocks"
  by (intro ext) (simp add: descends_def)

lemma on_fork_cong:
  assumes "slot_par blocks' = slot_par blocks"
  shows "on_fork blocks' = on_fork blocks"
  by (simp only: on_fork_def descends_cong[OF assms])

lemma blocks_ok_update:
  assumes "blocks_ok blocks" "blocks s = Some b" "tb_slot b' = tb_slot b" "tb_parent_slot b' = tb_parent_slot b"
  shows "blocks_ok (blocks(s \<mapsto> b'))" "slot_par (blocks(s \<mapsto> b')) = slot_par blocks"
  using assms by (auto simp: blocks_ok_def slot_par_def)

text \<open>Marking a block as voted for changes no parent.\<close>

lemma mark_voted_frame:
  assumes "mark_voted slot block_id tower = Some (blk, tower')"
  shows "t_votes tower' = t_votes tower" "slot_par (t_blocks tower') = slot_par (t_blocks tower)"
    "blocks_ok (t_blocks tower) \<Longrightarrow> blocks_ok (t_blocks tower')" "t_root tower' = t_root tower"
proof -
  obtain b where b: "t_blocks tower slot = Some b"
      "tower' = tower\<lparr> t_blocks := (t_blocks tower)(slot \<mapsto> b\<lparr> tb_voted := True, tb_voted_block_id := block_id \<rparr>) \<rparr>"
    using assms by (auto simp: mark_voted_def fd_tower_blocks_query_def bind_eq_Some_conv Let_def)
  show "t_votes tower' = t_votes tower" "t_root tower' = t_root tower" by (simp_all add: b(2))
  show "slot_par (t_blocks tower') = slot_par (t_blocks tower)" using b(1) by (auto simp: b(2) slot_par_def)
  show "blocks_ok (t_blocks tower')" if "blocks_ok (t_blocks tower)"
    unfolding b(2) using blocks_ok_update(1)[OF that b(1), of "b\<lparr> tb_voted := True, tb_voted_block_id := block_id \<rparr>"] by simp
qed

text \<open>What a call does to the tower when it casts no vote, and when it votes for a slot.\<close>

definition abstains :: "fd_tower \<Rightarrow> fd_tower_out \<Rightarrow> fd_tower \<Rightarrow> bool" where
  "abstains tower out' tower' \<longleftrightarrow> out_vote_slot out' = ULONG_MAX \<and> out_root_slot out' = ULONG_MAX
     \<and> t_votes tower' = t_votes tower \<and> t_blocks tower' = t_blocks tower"

definition votes_for :: "fd_tower \<Rightarrow> u64 \<Rightarrow> fd_tower_out \<Rightarrow> fd_tower \<Rightarrow> bool" where
  "votes_for tower slot out' tower' \<longleftrightarrow> out_vote_slot out' = slot \<and> lockout_check tower slot = Some True
     \<and> push_vote (t_votes tower) slot = Some (out_root_slot out', t_votes tower')
     \<and> slot_par (t_blocks tower') = slot_par (t_blocks tower)
     \<and> (blocks_ok (t_blocks tower) \<longrightarrow> blocks_ok (t_blocks tower'))"

lemma first_vote_cases:
  assumes "first_vote tower best out = Some (flags, out', tower')"
  shows "abstains tower out' tower' \<or> votes_for tower (blk_slot best) out' tower'"
proof (cases "lockout_check tower (blk_slot best) = Some True")
  case True
  obtain blk t where m: "mark_voted (blk_slot best) (blk_id best) tower = Some (blk, t)"
    using assms True by (auto simp: first_vote_def bind_eq_Some_conv)
  show ?thesis using assms True m mark_voted_frame[OF m]
    by (auto simp: first_vote_def push_vote_on_def votes_for_def bind_eq_Some_conv)
next
  case False
  thus ?thesis using assms by (auto simp: first_vote_def no_vote_def abstains_def bind_eq_Some_conv split: if_splits)
qed

lemma cast_vote_cases:
  assumes "cast_vote tower blk out = Some (out', tower')" "lockout_check tower (blk_slot blk) = Some True"
  shows "votes_for tower (blk_slot blk) out' tower'"
proof -
  obtain r t where p: "push_vote_on (blk_slot blk) tower = Some (r, t)" and "\<exists>b. mark_voted (blk_slot blk) (blk_id blk) t = Some (b, tower')"
      and out: "out_vote_slot out' = blk_slot blk" "out_root_slot out' = r"
    using assms(1) by (auto simp: cast_vote_def bind_eq_Some_conv)
  then obtain b where m: "mark_voted (blk_slot blk) (blk_id blk) t = Some (b, tower')" by blast
  have "push_vote (t_votes tower) (blk_slot blk) = Some (r, t_votes t)" "t_blocks t = t_blocks tower"
    using p by (auto simp: push_vote_on_def bind_eq_Some_conv)
  thus ?thesis using out assms(2) mark_voted_frame[OF m] by (simp add: votes_for_def)
qed

lemma check_vote_passes:
  assumes "check_vote tower blk flags = Some (flags', True)"
  shows "lockout_check tower (blk_slot blk) = Some True"
    "threshold_check tower (t_vtrs tower) (blk_total_stake blk) (blk_slot blk)"
    "propagated_check tower (blk_slot blk) = Some True"
  using assms by (auto simp: check_vote_def bind_eq_Some_conv split: if_splits)

text \<open>With votes on the tower, a vote has passed all three checks.\<close>

lemma vote_and_reset_checked:
  assumes "fd_tower_vote_and_reset tower g out = Some (flags, out', tower', g')"
    and best: "g_root g = Some r" "fd_ghost_best g r = Some best" and votes: "t_votes tower \<noteq> []"
  shows "abstains tower out' tower' \<or> (votes_for tower (blk_slot (g_pool g best)) out' tower'
    \<and> threshold_check tower (t_vtrs tower) (blk_total_stake (g_pool g best)) (blk_slot (g_pool g best))
    \<and> propagated_check tower (blk_slot (g_pool g best)) = Some True)"
proof -
  obtain f reset vote t h where pick: "pick_forks tower g best = Some (f, reset, vote, t, h)"
    using assms by (auto simp: fd_tower_vote_and_reset_def bind_eq_Some_conv)
  have t: "t = tower \<or> t = tower\<lparr> t_used_acc := {} \<rparr>"
      and b: "vote \<noteq> None \<Longrightarrow> vote = Some best \<and> g_pool h = g_pool g"
    using pick_forks_frame[OF pick] by (auto simp: choice_frame_def)
  obtain f' can where can: "(case vote of None \<Rightarrow> Some (f, False) | Some b \<Rightarrow> check_vote t (g_pool h b) f) = Some (f', can)"
    using assms pick by (auto simp: fd_tower_vote_and_reset_def bind_eq_Some_conv)
  show ?thesis
  proof (cases can)
    case True
    hence v: "vote = Some best" "g_pool h = g_pool g" using can b by (auto split: option.splits)
    hence c: "check_vote t (g_pool g best) f = Some (f', True)" using can True by simp
    have "cast_vote t (g_pool h best) ((no_vote (g_pool h reset) out)\<lparr> out_vote_bank_hash := 0 \<rparr>) = Some (out', tower')"
      using assms pick can True v by (auto simp: fd_tower_vote_and_reset_def bind_eq_Some_conv Let_def)
    from cast_vote_cases[OF this] check_vote_passes(1)[OF c] v have "votes_for t (blk_slot (g_pool g best)) out' tower'" by simp
    moreover have "threshold_check t = threshold_check tower" "propagated_check t = propagated_check tower" "t_vtrs t = t_vtrs tower"
      using t by (auto simp: threshold_check_def propagated_check_def fd_tower_blocks_query_def fun_eq_iff cong: if_cong)
    ultimately show ?thesis using t check_vote_passes(2,3)[OF c] by (auto simp: votes_for_def)
  next
    case False
    hence "out' = (no_vote (g_pool h reset) out)\<lparr> out_vote_bank_hash := 0 \<rparr>" "tower' = t"
      using assms pick can by (auto simp: fd_tower_vote_and_reset_def bind_eq_Some_conv Let_def)
    thus ?thesis using t by (auto simp: abstains_def no_vote_def)
  qed
qed

lemma vote_and_reset_cases:
  assumes "fd_tower_vote_and_reset tower g out = Some (flags, out', tower', g')"
    and best: "g_root g = Some r" "fd_ghost_best g r = Some best"
  shows "abstains tower out' tower' \<or> votes_for tower (blk_slot (g_pool g best)) out' tower'"
proof (cases "t_votes tower = []")
  case True
  hence "first_vote tower (g_pool g best) out = Some (flags, out', tower')"
    using assms by (auto simp: fd_tower_vote_and_reset_def bind_eq_Some_conv)
  thus ?thesis by (rule first_vote_cases)
next
  case False
  thus ?thesis using vote_and_reset_checked[OF assms] by blast
qed

text \<open>The lockout rule for a whole call.\<close>

lemma votes_for_ok:
  assumes "tower_ok tower" "votes_for tower slot out' tower'" "unat slot < 2 ^ 63"
  shows "tower_ok tower'" "v \<in> set (t_votes tower) \<Longrightarrow> slot \<le> expiration_slot v \<Longrightarrow> descends (t_blocks tower) (vote_slot v) slot"
    "v \<in> set (t_votes tower) \<Longrightarrow> vote_slot v < slot" "vote_slot (last (t_votes tower')) = slot"
proof -
  have l: "lockout_check tower slot = Some True" and p: "push_vote (t_votes tower) slot = Some (out_root_slot out', t_votes tower')"
      and s: "slot_par (t_blocks tower') = slot_par (t_blocks tower)" and b: "blocks_ok (t_blocks tower')"
    using assms(1,2) by (auto simp: votes_for_def tower_ok_def)
  note push = push_on_fork[OF assms(1) l assms(3) p] and sound = lockout_check_sound[OF assms(1) l]
  show "tower_ok tower'" using push(1,2) b by (simp add: tower_ok_def on_fork_cong[OF s])
  show "vote_slot (last (t_votes tower')) = slot" using push(3) by simp
  show "descends (t_blocks tower) (vote_slot v) slot" if "v \<in> set (t_votes tower)" "slot \<le> expiration_slot v"
    using sound(2) unexpired_kept[OF that] by blast
  show "vote_slot v < slot" if "v \<in> set (t_votes tower)"
  proof -
    have "votes_ok (t_votes tower)" using assms(1) by (simp add: tower_ok_def)
    hence "vote_slot v \<le> vote_slot (last (t_votes tower))" by (rule vote_below_last[OF _ that])
    thus ?thesis using sound(1) that by auto
  qed
qed

end
