(* ===== verification/Level_Order.thy ===== *)
theory Level_Order
  imports Ghost_Choice
begin

text \<open>
  Level order walks over the tree of blocks.  The code keeps the queue of a walk in the links of the map,
  so the blocks in the queue are out of the map; each goes back when it leaves the queue.  The walk
  visits each block once, in the order of depth, and leaves the map as it was.
\<close>

section \<open>The order of visits\<close>

text \<open>\<open>bfs next queue visits\<close>: the walk from \<open>queue\<close> that appends \<open>next h\<close> after each head \<open>h\<close>.\<close>

inductive bfs :: "('a \<Rightarrow> 'a list) \<Rightarrow> 'a list \<Rightarrow> 'a list \<Rightarrow> bool" for nexts :: "'a \<Rightarrow> 'a list" where
  bfs_Nil: "bfs nexts [] []"
| bfs_Cons: "bfs nexts (q @ nexts h) vs \<Longrightarrow> bfs nexts (h # q) (h # vs)"

definition leads :: "('a \<Rightarrow> 'a list) \<Rightarrow> ('a \<times> 'a) set" where
  "leads nexts = {(a, b). b \<in> set (nexts a)}"

lemma bfs_set: "bfs nexts q vs \<Longrightarrow> set vs = (leads nexts)\<^sup>* `` set q"
proof (induction rule: bfs.induct)
  case (bfs_Cons q h vs)
  have "(leads nexts)\<^sup>* `` {h} = insert h ((leads nexts)\<^sup>* `` set (nexts h))"
  proof (intro set_eqI iffI)
    fix j assume "j \<in> (leads nexts)\<^sup>* `` {h}"
    hence "(h, j) \<in> (leads nexts)\<^sup>*" by simp
    thus "j \<in> insert h ((leads nexts)\<^sup>* `` set (nexts h))"
      by (cases rule: converse_rtranclE) (auto simp: leads_def)
  next
    fix j assume "j \<in> insert h ((leads nexts)\<^sup>* `` set (nexts h))"
    thus "j \<in> (leads nexts)\<^sup>* `` {h}"
      by (auto simp: leads_def intro: converse_rtrancl_into_rtrancl)
  qed
  thus ?case using bfs_Cons.IH by (auto simp: Image_Un)
qed simp

lemma bfs_total:
  assumes "\<And>h. h \<in> N \<Longrightarrow> set (nexts h) \<subseteq> N \<and> sum_list (map f (nexts h)) < (f h :: nat)" "set q \<subseteq> N"
  shows "\<exists>vs. bfs nexts q vs"
  using assms(2)
proof (induction "sum_list (map f q)" arbitrary: q rule: less_induct)
  case less
  show ?case
  proof (cases q)
    case (Cons h t)
    have "sum_list (map f (t @ nexts h)) < sum_list (map f q)" "set (t @ nexts h) \<subseteq> N"
      using assms(1)[of h] less.prems Cons by auto
    thus ?thesis using less.hyps Cons bfs_Cons by metis
  qed (auto intro: bfs_Nil)
qed

text \<open>If every step goes one level down, the visits are in the order of the levels.\<close>

lemma bfs_levels:
  assumes "bfs nexts q vs" "\<And>h b. h \<in> set vs \<Longrightarrow> b \<in> set (nexts h) \<Longrightarrow> level b = Suc (level h)"
    and "sorted (map level q)" "q \<noteq> [] \<Longrightarrow> \<forall>b \<in> set q. level b \<le> Suc (level (hd q))"
  shows "sorted (map level vs) \<and> (\<forall>v \<in> set vs. q \<noteq> [] \<and> level (hd q) \<le> level v)"
  using assms
proof (induction rule: bfs.induct)
  case (bfs_Cons q h vs)
  have n: "\<And>b. b \<in> set (nexts h) \<Longrightarrow> level b = Suc (level h)" using bfs_Cons.prems(1) by simp
  have q: "\<forall>b \<in> set q. level h \<le> level b \<and> level b \<le> Suc (level h)"
    using bfs_Cons.prems(2,3) by auto
  have "map level (nexts h) = replicate (length (nexts h)) (Suc (level h))"
    using n by (intro nth_equalityI) simp_all
  hence s: "sorted (map level (q @ nexts h))"
    using bfs_Cons.prems(2) q by (auto simp: sorted_append)
  have "\<forall>b \<in> set (q @ nexts h). level b \<le> Suc (level (hd (q @ nexts h)))" if "q @ nexts h \<noteq> []"
  proof -
    have "level h \<le> level (hd (q @ nexts h))" using q n that by (cases q) (auto simp: hd_append intro: hd_in_set)
    thus ?thesis using q n by fastforce
  qed
  from bfs_Cons.IH[OF _ s this] bfs_Cons.prems(1)
  have IH: "sorted (map level vs)" "\<forall>v \<in> set vs. q @ nexts h \<noteq> [] \<and> level (hd (q @ nexts h)) \<le> level v" by auto
  have "level h \<le> level v" if "v \<in> set vs" for v
  proof -
    have "level h \<le> level (hd (q @ nexts h))" using q n IH(2) that by (cases q) (auto simp: hd_append)
    thus ?thesis using IH(2) that by fastforce
  qed
  thus ?case using IH(1) by auto
qed simp

section \<open>Queues in the tree\<close>

text \<open>No block in the queue is an ancestor of another.\<close>

definition antichain :: "'a set \<Rightarrow> ('a \<Rightarrow> 'a option) \<Rightarrow> 'a list \<Rightarrow> bool" where
  "antichain nodes ps q \<longleftrightarrow> distinct q \<and> set q \<subseteq> nodes \<and> (\<forall>a \<in> set q. \<forall>b \<in> set q. beneath ps a b \<longrightarrow> a = b)"

lemma kid_beneath:
  assumes "k \<in> kids nodes ps h" "beneath ps a k"
  shows "a = k \<or> beneath ps a h"
  using assms beneath_step[of ps a k] by (auto simp: kids_def)

lemma antichain_step:
  assumes "rooted nodes ps r" "antichain nodes ps (h # q)" "distinct ks" "set ks \<subseteq> kids nodes ps h"
  shows "antichain nodes ps (q @ ks)"
proof -
  have hq: "h \<notin> set q" "h \<in> nodes" "distinct q" "set q \<subseteq> nodes"
      "\<And>a b. a \<in> set (h # q) \<Longrightarrow> b \<in> set (h # q) \<Longrightarrow> beneath ps a b \<Longrightarrow> a = b"
    using assms(2) by (auto simp: antichain_def)
  have kl: "k \<in> nodes" "beneath ps h k" "\<not> beneath ps k h" if "k \<in> set ks" for k
    using assms(4) that beneath_kid[of k nodes ps h] parent_not_beneath[OF assms(1), of k h] by (auto simp: kids_def)
  have sep: "\<not> beneath ps a k" "\<not> beneath ps k a" if "a \<in> set q" "k \<in> set ks" for a k
  proof -
    have "\<not> beneath ps a h" "\<not> beneath ps h a" using hq(1,5) that(1) by auto
    thus "\<not> beneath ps a k" "\<not> beneath ps k a"
      using kid_beneath[of k nodes ps h a] assms(4) that kl(2)[OF that(2)] beneath_trans[of ps h k a] by auto
  qed
  have "k = k'" if "k \<in> set ks" "k' \<in> set ks" "beneath ps k k'" for k k'
    using kid_beneath[of k' nodes ps h k] kl(3) assms(4) that by blast
  moreover have "distinct (q @ ks)"
  proof -
    have "set q \<inter> set ks = {}" using sep(1) by fastforce
    thus ?thesis using hq(3) assms(3) by simp
  qed
  ultimately show ?thesis unfolding antichain_def using hq sep kl(1) by auto
qed

lemma subtree_sum_less:
  assumes "rooted nodes ps r" "h \<in> nodes" "distinct ks" "set ks \<subseteq> kids nodes ps h"
  shows "sum_list (map (\<lambda>k. card (subtree nodes ps k)) ks) < card (subtree nodes ps h)"
proof -
  have fin: "finite (subtree nodes ps k)" for k
    using assms(1) finite_subset[OF subtree_sub] by (auto simp: rooted_def)
  have kl: "k \<in> nodes" "beneath ps h k" "\<not> beneath ps k h" if "k \<in> set ks" for k
    using assms(4) that beneath_kid[of k nodes ps h] parent_not_beneath[OF assms(1), of k h] by (auto simp: kids_def)
  have anti: "antichain nodes ps ([] @ ks)"
    by (rule antichain_step[OF assms(1) _ assms(3,4)]) (simp add: antichain_def assms(2))
  have disj: "subtree nodes ps a \<inter> subtree nodes ps b = {}" if "a \<in> set ks" "b \<in> set ks" "a \<noteq> b" for a b
    using beneath_linear[of ps a _ b] anti that by (auto simp: subtree_def antichain_def)
  have "sum_list (map (\<lambda>k. card (subtree nodes ps k)) ks) = (\<Sum>k \<in> set ks. card (subtree nodes ps k))"
    by (rule sum_list_distinct_conv_sum_set[OF assms(3)])
  also have "\<dots> = card (\<Union>k \<in> set ks. subtree nodes ps k)"
    using disj fin by (intro card_UN_disjoint[symmetric]) auto
  also have "\<dots> < card (subtree nodes ps h)"
  proof (rule psubset_card_mono[OF fin])
    have "(\<Union>k \<in> set ks. subtree nodes ps k) \<subseteq> subtree nodes ps h"
      using kl(2) beneath_trans by (fastforce simp: subtree_def)
    moreover have "h \<notin> (\<Union>k \<in> set ks. subtree nodes ps k)" using kl(3) by (auto simp: subtree_def)
    moreover have "h \<in> subtree nodes ps h" using assms(2) by (simp add: subtree_def)
    ultimately show "(\<Union>k \<in> set ks. subtree nodes ps k) \<subset> subtree nodes ps h" by blast
  qed
  finally show ?thesis .
qed

section \<open>The map during a walk\<close>

definition hide :: "nat set \<Rightarrow> fd_ghost \<Rightarrow> fd_ghost" where
  "hide Q g = g\<lparr> g_map := keep (- Q) (g_map g) \<rparr>"

lemma hide_pool [simp]: "g_pool (hide Q g) = g_pool g"
  by (simp add: hide_def)

lemma hide_empty [simp]: "hide {} g = g"
  by (simp add: hide_def keep_all)

lemma hide_lookup:
  assumes "ids_ok g" "c \<in> live g"
  shows "g_map (hide Q g) (blk_id (g_pool g c)) = (if c \<in> Q then None else Some c)"
  using live_map[OF assms(1), of c] assms(2) by (simp add: hide_def keep_def)

lemma unmap_hide:
  assumes "ids_ok g" "c \<in> live g"
  shows "unmap c (hide Q g) = hide (insert c Q) g"
proof -
  have "(keep (- Q) (g_map g))(blk_id (g_pool g c) := None) = keep (- Q) ((g_map g)(blk_id (g_pool g c) := None))"
    by (rule ext) (simp add: keep_def)
  also have "\<dots> = keep (- insert c Q) (g_map g)"
    unfolding unmap_keep[OF assms] keep_keep by (rule arg_cong[of _ _ "\<lambda>S. keep S (g_map g)"]) auto
  finally show ?thesis by (simp add: unmap_def hide_def)
qed

lemma remap_hide:
  assumes "ids_ok g" "c \<in> live g" "c \<in> Q"
  shows "remap c (hide Q g) = Some (hide (Q - {c}) g)"
proof -
  have m: "g_map g (blk_id (g_pool g c)) = Some c" using live_map[OF assms(1)] assms(2) by simp
  have "(keep (- Q) (g_map g))(blk_id (g_pool g c) \<mapsto> c) = keep (- (Q - {c})) (g_map g)"
  proof
    fix x
    show "((keep (- Q) (g_map g))(blk_id (g_pool g c) \<mapsto> c)) x = keep (- (Q - {c})) (g_map g) x"
    proof (cases "g_map g x")
      case (Some i)
      hence "blk_id (g_pool g i) = x" using assms(1) by (simp add: ids_ok_def)
      hence "i = c \<longleftrightarrow> x = blk_id (g_pool g c)" using m Some by (metis option.inject)
      thus ?thesis using Some by (cases "i = c") (simp_all add: keep_def)
    next
      case None
      hence "x \<noteq> blk_id (g_pool g c)" using m by (metis option.distinct(1))
      thus ?thesis using None by (simp add: keep_def)
    qed
  qed
  moreover have "g_map (hide Q g) (blk_id (g_pool (hide Q g) c)) = None"
    using hide_lookup[OF assms(1,2), of Q] assms(3) by simp
  ultimately show ?thesis unfolding remap_def by (simp only: hide_pool) (simp add: hide_def)
qed

section \<open>The deepest block\<close>

lemma queue_children_run:
  assumes "ids_ok g" "sib_chain (g_pool g) c ks" "distinct ks" "set ks \<subseteq> live g" "set ks \<inter> Q = {}"
  shows "queue_children c q (hide Q g) = Some (q @ ks, hide (Q \<union> set ks) g)"
  using assms(2-)
proof (induction ks arbitrary: c q Q)
  case Nil
  thus ?case by (simp add: sib_chain_Nil queue_children.simps)
next
  case (Cons k ks)
  have c: "c = Some k" "sib_chain (g_pool g) (blk_sibling (g_pool g k)) ks" using Cons.prems(1) by (simp_all add: sib_chain_Cons)
  have k: "k \<in> live g" "k \<notin> Q" using Cons.prems(3,4) by auto
  have "queue_children (blk_sibling (g_pool g k)) (q @ [k]) (hide (insert k Q) g)
      = Some ((q @ [k]) @ ks, hide (insert k Q \<union> set ks) g)"
    using c(2) Cons.prems by (intro Cons.IH) auto
  moreover have "g_map (hide Q g) (blk_id (g_pool g k)) \<noteq> None" using hide_lookup[OF assms(1) k(1), of Q] k(2) by simp
  ultimately show ?case using c(1) unmap_hide[OF assms(1) k(1), of Q]
    by (subst queue_children.simps) simp
qed

text \<open>The children of each block, in the order of the links.\<close>

definition kid_lists :: "fd_ghost \<Rightarrow> (nat \<Rightarrow> nat list) \<Rightarrow> bool" where
  "kid_lists g kl \<longleftrightarrow> (\<forall>i \<in> live g. sib_chain (g_pool g) (blk_child (g_pool g i)) (kl i) \<and> distinct (kl i)
     \<and> set (kl i) = kids (live g) (par g) i)"

lemma kid_lists_ex: "tree_ok g \<Longrightarrow> \<exists>kl. kid_lists g kl"
  unfolding kid_lists_def tree_ok_def kids_ok_def by (rule bchoice) blast

lemma deepest_from_run:
  assumes tree: "tree_ok g" and kl: "kid_lists g kl" and anti: "antichain (live g) (par g) q"
    and "bfs kl q vs"
  shows "deepest_from prev q (hide (set q) g) = Some (last (prev # vs), g)"
  using assms(4) anti
proof (induction arbitrary: prev rule: bfs.induct)
  case bfs_Nil
  thus ?case by (simp add: deepest_from.simps)
next
  case (bfs_Cons q h vs)
  obtain r where r: "rooted (live g) (par g) r" using tree_root[OF tree] by blast
  have ids: "ids_ok g" using tree by (simp add: tree_ok_def)
  have h: "h \<in> live g" "h \<notin> set q" using bfs_Cons.prems by (auto simp: antichain_def)
  have ks: "sib_chain (g_pool g) (blk_child (g_pool g h)) (kl h)" "distinct (kl h)" "set (kl h) = kids (live g) (par g) h"
    using kl h(1) by (auto simp: kid_lists_def)
  have next': "antichain (live g) (par g) (q @ kl h)"
    using antichain_step[OF r bfs_Cons.prems ks(2)] ks(3) by simp
  have kh: "h \<notin> set (kl h)" using ks(3) parent_not_beneath[OF r, of h h] by (auto simp: kids_def)
  have live: "set (kl h) \<subseteq> live g" using ks(3) by (auto simp: kids_def)
  have disj: "set (kl h) \<inter> set (h # q) = {}" using next' kh by (auto simp: antichain_def)
  have "queue_children (blk_child (g_pool g h)) q (hide (set (h # q)) g) = Some (q @ kl h, hide (set (h # q) \<union> set (kl h)) g)"
    by (rule queue_children_run[OF ids ks(1,2) live disj])
  moreover have "remap h (hide (set (h # q) \<union> set (kl h)) g) = Some (hide (set (h # q) \<union> set (kl h) - {h}) g)"
    by (rule remap_hide[OF ids h(1)]) simp
  moreover have "set (h # q) \<union> set (kl h) - {h} = set (q @ kl h)" using h(2) kh by auto
  ultimately have "deepest_from prev (h # q) (hide (set (h # q)) g) = deepest_from h (q @ kl h) (hide (set (q @ kl h)) g)"
    by (subst deepest_from.simps) simp
  thus ?case using bfs_Cons.IH[OF next'] by simp
qed

text \<open>The depth of a block is the number of blocks on its path to the root.\<close>

definition depth :: "fd_ghost \<Rightarrow> nat \<Rightarrow> nat" where
  "depth g i = card {a \<in> live g. beneath (par g) a i}"

lemma depth_kid:
  assumes "rooted (live g) (par g) r" "k \<in> kids (live g) (par g) h"
  shows "depth g k = Suc (depth g h)"
proof -
  have k: "k \<in> live g" "par g k = Some h" using assms(2) by (auto simp: kids_def)
  have "{a \<in> live g. beneath (par g) a k} = insert k {a \<in> live g. beneath (par g) a h}"
    using k beneath_step[of "par g" _ k] by auto
  moreover have "k \<notin> {a \<in> live g. beneath (par g) a h}" using parent_not_beneath[OF assms(1) k] by simp
  moreover have "finite (live g)" using assms(1) by (simp add: rooted_def)
  ultimately show ?thesis by (simp add: depth_def)
qed

lemma leads_subtree:
  assumes "rooted (live g) (par g) r" "kid_lists g kl" "h \<in> live g"
  shows "(leads kl)\<^sup>* `` {h} = subtree (live g) (par g) h"
proof (intro set_eqI iffI)
  fix j assume "j \<in> (leads kl)\<^sup>* `` {h}"
  hence "(h, j) \<in> (leads kl)\<^sup>*" by simp
  thus "j \<in> subtree (live g) (par g) h"
  proof (induction rule: rtrancl_induct)
    case (step j k)
    hence "k \<in> kids (live g) (par g) j" using assms(2) by (auto simp: leads_def kid_lists_def subtree_def)
    thus ?case using step.IH beneath_trans[OF _ beneath_kid, of "par g" h j k "live g"] by (auto simp: subtree_def kids_def)
  qed (simp add: subtree_def assms(3))
next
  fix j assume "j \<in> subtree (live g) (par g) h"
  hence j: "j \<in> live g" "beneath (par g) h j" by (auto simp: subtree_def)
  from assms(1) j have "(h, j) \<in> (leads kl)\<^sup>*"
  proof (induction rule: rooted_induct)
    case root
    have "(par g) r = None" using assms(1) by (simp add: rooted_def)
    hence "h = r" using root.prems beneath_none[of "par g" r h] by simp
    thus ?case by simp
  next
    case (node j p)
    show ?case
    proof (cases "h = j")
      case False
      hence "beneath (par g) h p" using node.prems node.hyps(4) beneath_step[of "par g" h j] by simp
      moreover have "(p, j) \<in> leads kl" using node.hyps assms(2) by (auto simp: leads_def kid_lists_def kids_def)
      ultimately show ?thesis using node.IH by (blast intro: rtrancl_into_rtrancl)
    qed simp
  qed
  thus "j \<in> (leads kl)\<^sup>* `` {h}" by simp
qed

lemma sorted_last:
  assumes "sorted (map f xs)" "x \<in> set xs"
  shows "f x \<le> (f (last xs) :: nat)"
proof -
  obtain i where i: "i < length xs" "x = xs ! i" using assms(2) by (auto simp: in_set_conv_nth)
  hence "map f xs ! i \<le> map f xs ! (length xs - 1)" by (intro sorted_nth_mono[OF assms(1)]) auto
  moreover have "xs \<noteq> []" using i by auto
  ultimately show ?thesis using i by (simp add: last_conv_nth)
qed

text \<open>The walk ends, leaves the map as it was, and its last block is one of the deepest.\<close>

lemma deepest_ok:
  assumes "tree_ok g" "i \<in> live g"
  shows "\<exists>b. fd_ghost_deepest g i = Some (b, g) \<and> b \<in> subtree (live g) (par g) i
    \<and> (\<forall>j \<in> subtree (live g) (par g) i. depth g j \<le> depth g b)"
proof -
  obtain r where r: "rooted (live g) (par g) r" using tree_root[OF assms(1)] by blast
  obtain kl where kl: "kid_lists g kl" using kid_lists_ex[OF assms(1)] by blast
  have ids: "ids_ok g" using assms(1) by (simp add: tree_ok_def)
  have "\<exists>vs. bfs kl [i] vs"
  proof (rule bfs_total[of "live g" kl "\<lambda>k. card (subtree (live g) (par g) k)"])
    fix h assume h: "h \<in> live g"
    hence "distinct (kl h)" "set (kl h) = kids (live g) (par g) h" using kl by (auto simp: kid_lists_def)
    thus "set (kl h) \<subseteq> live g \<and> sum_list (map (\<lambda>k. card (subtree (live g) (par g) k)) (kl h)) < card (subtree (live g) (par g) h)"
      using subtree_sum_less[OF r h, of "kl h"] by (auto simp: kids_def)
  qed (simp add: assms(2))
  then obtain vs where vs: "bfs kl [i] vs" by blast
  have set: "set vs = subtree (live g) (par g) i" using bfs_set[OF vs] leads_subtree[OF r kl assms(2)] by simp
  hence ne: "vs \<noteq> []" using assms(2) by (auto simp: subtree_def)
  have "antichain (live g) (par g) [i]" using assms(2) by (simp add: antichain_def)
  from deepest_from_run[OF assms(1) kl this vs, of i] have "deepest_from i [i] (hide {i} g) = Some (last vs, g)"
    using ne by simp
  hence run: "fd_ghost_deepest g i = Some (last vs, g)"
    using live_map[OF ids, of i] assms(2) unmap_hide[OF ids assms(2), of "{}"] by (simp add: fd_ghost_deepest_def)
  have "depth g b = Suc (depth g h)" if "h \<in> set vs" "b \<in> set (kl h)" for h b
    using depth_kid[OF r, of b h] that kl set by (auto simp: kid_lists_def subtree_def)
  from bfs_levels[of kl "[i]" vs "depth g", OF vs this] have "sorted (map (depth g) vs)" by simp
  hence "\<forall>j \<in> set vs. depth g j \<le> depth g (last vs)" using sorted_last[of "depth g" vs] by blast
  thus ?thesis using run set last_in_set[OF ne] by auto
qed

end
