(* ===== verification/Tower_Switch.thy ===== *)
theory Tower_Switch
  imports Tower_Safe Level_Order
begin

text \<open>
  The switch check against its definition: it passes exactly when the voters locked out on other forks
  hold more than the switch ratio of the stake.  The walk over the tree, the order of the intervals and
  the early return make no difference, and the fork choice is left as it was.
\<close>

section \<open>Adding up voters\<close>

text \<open>The loops of the check, over the list of the voters they meet.\<close>

fun tally :: "fd_tower \<Rightarrow> u64 \<Rightarrow> nat list \<Rightarrow> nat set \<Rightarrow> u64 \<Rightarrow> switch_state" where
  "tally tower tot [] used stake = (False, used, stake)"
| "tally tower tot (i # is) used stake =
     (if i \<in> used then tally tower tot is used stake
      else let stake = stake + sv_stake (t_stk_pool tower i)
           in if ratio_above stake tot SWITCH_RATIO then (True, insert i used, stake)
              else tally tower tot is (insert i used) stake)"

definition resume_tally :: "fd_tower \<Rightarrow> u64 \<Rightarrow> nat list \<Rightarrow> switch_state \<Rightarrow> switch_state" where
  "resume_tally tower tot is st = (case st of (pass, used, stake) \<Rightarrow> if pass then (pass, used, stake) else tally tower tot is used stake)"

lemma tally_append: "tally tower tot (is @ js) used stake = resume_tally tower tot js (tally tower tot is used stake)"
  by (induction "is" arbitrary: used stake) (auto simp: resume_tally_def Let_def)

definition stakes_of :: "fd_tower \<Rightarrow> nat set \<Rightarrow> nat" where
  "stakes_of tower I = (\<Sum>i \<in> I. unat (sv_stake (t_stk_pool tower i)))"

lemma stakes_of_insert: "finite I \<Longrightarrow> i \<notin> I \<Longrightarrow> stakes_of tower (insert i I) = unat (sv_stake (t_stk_pool tower i)) + stakes_of tower I"
  by (simp add: stakes_of_def)

lemma stakes_of_mono: "finite J \<Longrightarrow> I \<subseteq> J \<Longrightarrow> stakes_of tower I \<le> stakes_of tower J"
  unfolding stakes_of_def by (rule sum_mono2) simp_all

lemma SWITCH_RATIO_mono: "ratio_above s t SWITCH_RATIO \<Longrightarrow> s \<le> s' \<Longrightarrow> ratio_above s' t SWITCH_RATIO"
  unfolding SWITCH_RATIO_def by (rule ratio_above_mono)

lemma word_le_of_nat: "unat s \<le> n \<Longrightarrow> n < 2 ^ 64 \<Longrightarrow> (s :: u64) \<le> word_of_nat n"
  by (simp add: word_le_nat_alt unat_of_nat)

text \<open>The sum passes at the end exactly when it passes at some point before.\<close>

lemma tally_passes:
  assumes "finite used" "unat stake = stakes_of tower used" "\<not> ratio_above stake tot SWITCH_RATIO"
    and "stakes_of tower (used \<union> set is) < 2 ^ 64"
  shows "fst (tally tower tot is used stake)
    \<longleftrightarrow> ratio_above (word_of_nat (stakes_of tower (used \<union> set is))) tot SWITCH_RATIO"
  using assms
proof (induction "is" arbitrary: used stake)
  case Nil
  have "word_of_nat (stakes_of tower used) = stake" using Nil.prems(2)[symmetric] by simp
  thus ?case using Nil.prems(3) by simp
next
  case (Cons i "is")
  show ?case
  proof (cases "i \<in> used")
    case True
    hence "used \<union> set (i # is) = used \<union> set is" by auto
    thus ?thesis using Cons.IH[OF Cons.prems(1,2,3)] Cons.prems(4) True by simp
  next
    case False
    let ?stake = "stake + sv_stake (t_stk_pool tower i)"
    have u: "used \<union> set (i # is) = insert i used \<union> set is" by auto
    have le: "stakes_of tower (insert i used) \<le> stakes_of tower (used \<union> set (i # is))"
      using Cons.prems(1) by (intro stakes_of_mono) auto
    have s: "unat ?stake = stakes_of tower (insert i used)"
      using stakes_of_insert[OF Cons.prems(1) False, of tower] Cons.prems(2,4) le by (subst unat_add64) simp_all
    show ?thesis
    proof (cases "ratio_above ?stake tot SWITCH_RATIO")
      case True
      have "?stake \<le> word_of_nat (stakes_of tower (used \<union> set (i # is)))"
        using s le Cons.prems(4) by (intro word_le_of_nat) simp_all
      from SWITCH_RATIO_mono[OF True this] show ?thesis using True False by simp
    next
      case no: False
      show ?thesis using Cons.IH[OF _ s no] Cons.prems(1,4) False no unfolding u by simp
    qed
  qed
qed

section \<open>The intervals of a leaf\<close>

definition interval_voter :: "fd_tower \<Rightarrow> u64 \<Rightarrow> u64 \<Rightarrow> lockout_interval \<Rightarrow> nat option" where
  "interval_voter tower last_vote switch_slot interval =
     (if \<not> descends (t_blocks tower) (li_start interval) last_vote \<and> t_root tower < li_start interval
      then t_stk_map tower (li_addr interval, switch_slot) else None)"

lemma count_intervals_tally:
  assumes "blocks_ok (t_blocks tower)"
  shows "count_intervals tower tot last_vote switch_slot intervals used stake
    = Some (tally tower tot (List.map_filter (interval_voter tower last_vote switch_slot) intervals) used stake)"
  by (induction intervals arbitrary: used stake)
    (auto simp: slot_queries is_ancestor_ok[OF assms] interval_voter_def map_filter_simps Let_def split: option.split)

definition sentinel_voters :: "fd_tower \<Rightarrow> u64 \<Rightarrow> u64 \<Rightarrow> u64 \<Rightarrow> lockout_interval \<Rightarrow> nat list" where
  "sentinel_voters tower last_vote switch_slot slot sentinel =
     (if li_start sentinel < last_vote then []
      else List.map_filter (interval_voter tower last_vote switch_slot)
             (t_lck tower (lockout_interval_key slot (li_start sentinel))))"

lemma count_sentinels_tally:
  assumes "blocks_ok (t_blocks tower)"
  shows "count_sentinels tower tot last_vote switch_slot slot sentinels used stake
    = Some (tally tower tot (concat (map (sentinel_voters tower last_vote switch_slot slot) sentinels)) used stake)"
proof (induction sentinels arbitrary: used stake)
  case (Cons s ss)
  show ?case
    by (cases "tally tower tot (sentinel_voters tower last_vote switch_slot slot s) used stake")
      (auto simp: sentinel_voters_def Let_def count_intervals_tally[OF assms] tally_append resume_tally_def Cons.IH)
qed simp

text \<open>A leaf counts when its fork leaves the fork of the last vote at an ancestor of the switch slot.\<close>

definition leaf_counts :: "fd_tower \<Rightarrow> u64 \<Rightarrow> u64 \<Rightarrow> u64 \<Rightarrow> bool" where
  "leaf_counts tower last_vote switch_slot slot \<longleftrightarrow> slot \<noteq> last_vote
     \<and> (\<exists>l. lowest_common (t_blocks tower) slot last_vote l \<and> l \<noteq> ULONG_MAX \<and> descends (t_blocks tower) l switch_slot)"

definition leaf_voters :: "fd_tower \<Rightarrow> u64 \<Rightarrow> u64 \<Rightarrow> u64 \<Rightarrow> nat list" where
  "leaf_voters tower last_vote switch_slot slot =
     (if leaf_counts tower last_vote switch_slot slot
      then concat (map (sentinel_voters tower last_vote switch_slot slot) (t_lck tower (lockout_interval_key slot 0)))
      else [])"

lemma lowest_common_unique:
  assumes "blocks_ok blocks" "lowest_common blocks s t l" "lowest_common blocks s t l'"
  shows "l = l'"
proof (cases "common blocks s t = {}")
  case True
  thus ?thesis using assms(2,3) by (auto simp: lowest_common_def split: if_splits)
next
  case False
  hence l: "l \<noteq> ULONG_MAX" "l' \<noteq> ULONG_MAX" "l \<in> common blocks s t" "l' \<in> common blocks s t"
      "\<forall>c \<in> common blocks s t. beneath (slot_par blocks) c l" "\<forall>c \<in> common blocks s t. beneath (slot_par blocks) c l'"
    using assms(2,3) by (auto simp: lowest_common_def split: if_splits)
  have "l \<le> l'" "l' \<le> l" using beneath_older[OF assms(1)] l by blast+
  thus ?thesis by simp
qed

lemma count_leaf_tally:
  assumes ok: "blocks_ok (t_blocks tower)" and dom: "slot \<in> dom (t_blocks tower)" "last_vote \<in> dom (t_blocks tower)"
  shows "count_leaf tower tot last_vote switch_slot slot used stake
    = Some (tally tower tot (leaf_voters tower last_vote switch_slot slot) used stake)"
proof -
  obtain l where l: "fd_tower_blocks_lowest_common_ancestor tower slot last_vote = Some l"
      "lowest_common (t_blocks tower) slot last_vote l"
    using lowest_common_ancestor_ok[OF ok dom] by blast
  have "leaf_counts tower last_vote switch_slot slot
      \<longleftrightarrow> slot \<noteq> last_vote \<and> l \<noteq> ULONG_MAX \<and> descends (t_blocks tower) l switch_slot"
    using l(2) lowest_common_unique[OF ok l(2)] unfolding leaf_counts_def by metis
  thus ?thesis
    by (auto simp: count_leaf_def l(1) leaf_voters_def slot_queries is_ancestor_ok[OF ok] count_sentinels_tally[OF ok])
qed

section \<open>The walk\<close>

definition purged :: "fd_tower \<Rightarrow> fd_ghost \<Rightarrow> nat \<Rightarrow> bool" where
  "purged tower g i \<longleftrightarrow> (\<exists>b. t_blocks tower (blk_slot (g_pool g i)) = Some b \<and> tb_confirmed b
     \<and> tb_confirmed_block_id b \<noteq> blk_id (g_pool g i))"

text \<open>The tower knows the slot of every block of the fork choice.\<close>

definition tracked :: "fd_tower \<Rightarrow> fd_ghost \<Rightarrow> bool" where
  "tracked tower g \<longleftrightarrow> (\<forall>i \<in> live g. blk_slot (g_pool g i) \<in> dom (t_blocks tower))"

lemma is_purged_ok:
  assumes "tracked tower g" "i \<in> live g"
  shows "is_purged tower (g_pool g i) = Some (purged tower g i)"
proof -
  obtain b where "t_blocks tower (blk_slot (g_pool g i)) = Some b" using assms by (auto simp: tracked_def)
  thus ?thesis by (simp add: is_purged_def purged_def fd_tower_blocks_query_def)
qed

lemma switch_children_run:
  assumes "ids_ok g" "tracked tower g" "sib_chain (g_pool g) c ks" "distinct ks" "set ks \<subseteq> live g"
  shows "switch_children tower c q leaf (hide Q g)
    = Some (q @ filter (\<lambda>k. \<not> purged tower g k) ks, leaf \<and> filter (\<lambda>k. \<not> purged tower g k) ks = [],
            hide (Q \<union> set (filter (\<lambda>k. \<not> purged tower g k) ks)) g)"
  using assms(3-)
proof (induction ks arbitrary: c q leaf Q)
  case Nil
  thus ?case by (simp add: sib_chain_Nil switch_children.simps)
next
  case (Cons k ks)
  have c: "c = Some k" "sib_chain (g_pool g) (blk_sibling (g_pool g k)) ks" using Cons.prems(1) by (simp_all add: sib_chain_Cons)
  have k: "k \<in> live g" "distinct ks" "set ks \<subseteq> live g" using Cons.prems(2,3) by auto
  note IH = Cons.IH[OF c(2) k(2,3)]
  show ?case
  proof (cases "purged tower g k")
    case True
    thus ?thesis using c(1) IH is_purged_ok[OF assms(2) k(1)] by (subst switch_children.simps) simp
  next
    case False
    have "switch_children tower c q leaf (hide Q g)
        = switch_children tower (blk_sibling (g_pool g k)) (q @ [k]) False (hide (insert k Q) g)"
      using c(1) False is_purged_ok[OF assms(2) k(1)] unmap_hide[OF assms(1) k(1), of Q]
      by (subst switch_children.simps) simp
    thus ?thesis using IH[of "q @ [k]" False "insert k Q"] False by simp
  qed
qed

lemma remap_all_hide:
  assumes "ids_ok g" "distinct q" "set q \<subseteq> live g"
  shows "remap_all q (hide (set q) g) = Some g"
  using assms(2,3)
proof (induction q)
  case (Cons h q)
  hence "remap h (hide (set (h # q)) g) = Some (hide (set q) g)"
    using remap_hide[OF assms(1), of h "set (h # q)"] by simp
  thus ?case using Cons by simp
qed simp

text \<open>The voters met at a block: those of a leaf, none at an inner block.\<close>

definition block_voters :: "fd_tower \<Rightarrow> fd_ghost \<Rightarrow> (nat \<Rightarrow> nat list) \<Rightarrow> u64 \<Rightarrow> u64 \<Rightarrow> nat \<Rightarrow> nat list" where
  "block_voters tower g nexts last_vote switch_slot i =
     (if nexts i = [] then leaf_voters tower last_vote switch_slot (blk_slot (g_pool g i)) else [])"

lemma switch_walk_tally:
  assumes tree: "tree_ok g" and kl: "kid_lists g kl" and track: "tracked tower g"
    and ok: "blocks_ok (t_blocks tower)" and last: "last_vote \<in> dom (t_blocks tower)"
    and nexts: "\<And>i. nexts i = filter (\<lambda>k. \<not> purged tower g k) (kl i)"
    and "bfs nexts q vs" "antichain (live g) (par g) q"
  shows "switch_walk tower tot last_vote switch_slot q used stake (hide (set q) g)
    = Some (fst (tally tower tot (concat (map (block_voters tower g nexts last_vote switch_slot) vs)) used stake), g)"
  using assms(7,8)
proof (induction arbitrary: used stake rule: bfs.induct)
  case bfs_Nil
  thus ?case by (simp add: switch_walk.simps)
next
  case (bfs_Cons q h vs)
  let ?voters = "block_voters tower g nexts last_vote switch_slot"
  obtain r where r: "rooted (live g) (par g) r" using tree_root[OF tree] by blast
  have ids: "ids_ok g" using tree by (simp add: tree_ok_def)
  have h: "h \<in> live g" "h \<notin> set q" using bfs_Cons.prems by (auto simp: antichain_def)
  have ks: "sib_chain (g_pool g) (blk_child (g_pool g h)) (kl h)" "distinct (kl h)" "set (kl h) = kids (live g) (par g) h"
    using kl h(1) by (auto simp: kid_lists_def)
  have live: "set (kl h) \<subseteq> live g" using ks(3) by (auto simp: kids_def)
  have next': "antichain (live g) (par g) (q @ nexts h)"
    using antichain_step[OF r bfs_Cons.prems, of "nexts h"] ks nexts by auto
  have "h \<notin> set (kl h)" using ks(3) parent_not_beneath[OF r, of h h] by (auto simp: kids_def)
  hence minus: "set (h # q) \<union> set (nexts h) - {h} = set (q @ nexts h)" using h(2) nexts by auto
  have children: "switch_children tower (blk_child (g_pool g h)) q True (hide (set (h # q)) g)
      = Some (q @ nexts h, nexts h = [], hide (set (h # q) \<union> set (nexts h)) g)"
    using switch_children_run[OF ids track ks(1,2) live] nexts by simp
  have remap: "remap h (hide (set (h # q) \<union> set (nexts h)) g) = Some (hide (set (q @ nexts h)) g)"
    unfolding minus[symmetric] by (rule remap_hide[OF ids h(1)]) simp
  have leaf: "count_leaf tower tot last_vote switch_slot (blk_slot (g_pool g h)) used stake
      = Some (tally tower tot (leaf_voters tower last_vote switch_slot (blk_slot (g_pool g h))) used stake)"
    using track h(1) by (intro count_leaf_tally[OF ok _ last]) (simp add: tracked_def)
  have rest: "remap_all (q @ nexts h) (hide (set (q @ nexts h)) g) = Some g"
    using next' by (intro remap_all_hide[OF ids]) (auto simp: antichain_def)
  show ?case
  proof (cases "nexts h = []")
    case False
    have "switch_walk tower tot last_vote switch_slot (h # q) used stake (hide (set (h # q)) g)
        = switch_walk tower tot last_vote switch_slot (q @ nexts h) used stake (hide (set (q @ nexts h)) g)"
      using children remap False by (subst switch_walk.simps) simp
    thus ?thesis using bfs_Cons.IH[OF next'] False by (simp add: block_voters_def)
  next
    case True
    obtain pass u s where t: "tally tower tot (?voters h) used stake = (pass, u, s)"
      by (cases "tally tower tot (?voters h) used stake")
    have "switch_walk tower tot last_vote switch_slot (h # q) used stake (hide (set (h # q)) g)
        = (if pass then Some (True, g) else switch_walk tower tot last_vote switch_slot (q @ nexts h) u s (hide (set (q @ nexts h)) g))"
      using children remap leaf rest True t by (subst switch_walk.simps) (simp add: block_voters_def)
    thus ?thesis using bfs_Cons.IH[OF next'] t by (simp add: tally_append resume_tally_def)
  qed
qed

section \<open>The voters that count\<close>

text \<open>
  The blocks the walk reaches: no block on the path below the root is purged.  A leaf is one whose children
  are all purged.
\<close>

definition unpurged :: "fd_tower \<Rightarrow> fd_ghost \<Rightarrow> nat set" where
  "unpurged tower g = {i \<in> live g. \<forall>a. beneath (par g) a i \<and> par g a \<noteq> None \<longrightarrow> \<not> purged tower g a}"

definition switch_leaves :: "fd_tower \<Rightarrow> fd_ghost \<Rightarrow> nat set" where
  "switch_leaves tower g = {i \<in> unpurged tower g. \<forall>k \<in> kids (live g) (par g) i. purged tower g k}"

text \<open>
  A voter counts when the state of some leaf's bank shows a vote of theirs for another fork than the last
  vote's, newer than the root, whose lockout reaches the last vote.
\<close>

definition switch_voters :: "fd_tower \<Rightarrow> fd_ghost \<Rightarrow> u64 \<Rightarrow> u64 \<Rightarrow> nat set" where
  "switch_voters tower g last_vote switch_slot =
     {idx. \<exists>i \<in> switch_leaves tower g. leaf_counts tower last_vote switch_slot (blk_slot (g_pool g i))
        \<and> (\<exists>s \<in> set (t_lck tower (lockout_interval_key (blk_slot (g_pool g i)) 0)). last_vote \<le> li_start s
            \<and> (\<exists>v \<in> set (t_lck tower (lockout_interval_key (blk_slot (g_pool g i)) (li_start s))).
                 \<not> descends (t_blocks tower) (li_start v) last_vote \<and> t_root tower < li_start v
                 \<and> t_stk_map tower (li_addr v, switch_slot) = Some idx))}"

lemma leads_unpurged:
  assumes "rooted (live g) (par g) r" "kid_lists g kl" "\<And>i. nexts i = filter (\<lambda>k. \<not> purged tower g k) (kl i)"
  shows "(leads nexts)\<^sup>* `` {r} = unpurged tower g"
proof (intro set_eqI iffI)
  have root: "r \<in> live g" "par g r = None" using assms(1) by (simp_all add: rooted_def)
  fix j assume "j \<in> (leads nexts)\<^sup>* `` {r}"
  hence "(r, j) \<in> (leads nexts)\<^sup>*" by simp
  thus "j \<in> unpurged tower g"
  proof (induction rule: rtrancl_induct)
    case base
    have "par g a = None" if "beneath (par g) a r" for a using beneath_none[of "par g" r a] root that by simp
    hence "\<forall>a. beneath (par g) a r \<and> par g a \<noteq> None \<longrightarrow> \<not> purged tower g a" by metis
    thus ?case unfolding unpurged_def using root(1) by (intro CollectI conjI)
  next
    case (step j k)
    have j: "j \<in> live g" using step.IH by (simp add: unpurged_def)
    hence k: "k \<in> kids (live g) (par g) j" "\<not> purged tower g k" using step.hyps(2) assms(2,3) by (auto simp: leads_def kid_lists_def)
    have "\<not> purged tower g a" if "beneath (par g) a k" "par g a \<noteq> None" for a
      using kid_beneath[OF k(1) that(1)] k(2) step.IH that(2) by (auto simp: unpurged_def)
    thus ?case using k(1) by (auto simp: unpurged_def kids_def)
  qed
next
  fix j assume j: "j \<in> unpurged tower g"
  hence "j \<in> live g" by (simp add: unpurged_def)
  with assms(1) have "(r, j) \<in> (leads nexts)\<^sup>*" using j
  proof (induction rule: rooted_induct)
    case (node j p)
    have "\<not> purged tower g j" using node.prems node.hyps(4) by (auto simp: unpurged_def)
    hence "(p, j) \<in> leads nexts" using node.hyps assms(2,3) by (auto simp: leads_def kid_lists_def kids_def)
    moreover have "p \<in> unpurged tower g"
      using node.prems node.hyps(2,4) beneath_parent[of "par g" j p] by (auto simp: unpurged_def)
    ultimately show ?case using node.IH by (blast intro: rtrancl_into_rtrancl)
  qed simp
  thus "j \<in> (leads nexts)\<^sup>* `` {r}" by simp
qed

lemma set_map_filter: "set (List.map_filter f xs) = {y. \<exists>x \<in> set xs. f x = Some y}"
  by (auto simp: List.map_filter_def image_def)

lemma set_leaf_voters:
  "set (leaf_voters tower last_vote switch_slot slot) =
     {idx. leaf_counts tower last_vote switch_slot slot
        \<and> (\<exists>s \<in> set (t_lck tower (lockout_interval_key slot 0)). last_vote \<le> li_start s
            \<and> (\<exists>v \<in> set (t_lck tower (lockout_interval_key slot (li_start s))).
                 \<not> descends (t_blocks tower) (li_start v) last_vote \<and> t_root tower < li_start v
                 \<and> t_stk_map tower (li_addr v, switch_slot) = Some idx))}"
  by (auto simp: leaf_voters_def sentinel_voters_def set_map_filter interval_voter_def not_less split: if_splits)
    (fastforce simp: not_less)+

lemma set_block_voters:
  assumes "kid_lists g kl" "\<And>i. nexts i = filter (\<lambda>k. \<not> purged tower g k) (kl i)" "set vs = unpurged tower g"
  shows "set (concat (map (block_voters tower g nexts last_vote switch_slot) vs)) = switch_voters tower g last_vote switch_slot"
proof -
  have leaf: "nexts i = [] \<longleftrightarrow> (\<forall>k \<in> kids (live g) (par g) i. purged tower g k)" if "i \<in> live g" for i
    using assms(1,2) that by (auto simp: kid_lists_def filter_empty_conv)
  have "set (concat (map (block_voters tower g nexts last_vote switch_slot) vs))
      = (\<Union>i \<in> switch_leaves tower g. set (leaf_voters tower last_vote switch_slot (blk_slot (g_pool g i))))"
    using leaf unfolding block_voters_def assms(3)[symmetric] switch_leaves_def
    by (auto simp: assms(3) unpurged_def split: if_splits)
  thus ?thesis unfolding set_leaf_voters switch_voters_def by auto
qed

lemma zero_stake_fails: "\<not> ratio_above 0 tot SWITCH_RATIO"
proof -
  have "fl 0 = 0" by (simp add: fl_def)
  thus ?thesis using fl_nonneg[of "38 / 100"] by (simp add: SWITCH_RATIO_def ratio_above_iff rat_of_ulong_def not_less)
qed

lemma switch_check_exact:
  assumes tree: "tree_ok g" and ok: "blocks_ok (t_blocks tower)" and track: "tracked tower g" and used: "t_used_acc tower = {}"
    and last: "vote_slot (last (t_votes tower)) \<in> dom (t_blocks tower)"
    and sum: "stakes_of tower (switch_voters tower g (vote_slot (last (t_votes tower))) slot) < 2 ^ 64"
  shows "switch_check tower g tot slot
    = Some (ratio_above (word_of_nat (stakes_of tower (switch_voters tower g (vote_slot (last (t_votes tower))) slot))) tot SWITCH_RATIO,
            tower, g)"
proof -
  let ?last = "vote_slot (last (t_votes tower))"
  obtain r where r: "g_root g = Some r" "rooted (live g) (par g) r" using tree_root[OF tree] by blast
  obtain kl where kl: "kid_lists g kl" using kid_lists_ex[OF tree] by blast
  have ids: "ids_ok g" using tree by (simp add: tree_ok_def)
  have root: "r \<in> live g" using r(2) by (simp add: rooted_def)
  define nexts where "nexts = (\<lambda>i. filter (\<lambda>k. \<not> purged tower g k) (kl i))"
  have n: "\<And>i. nexts i = filter (\<lambda>k. \<not> purged tower g k) (kl i)" by (simp add: nexts_def)
  have "\<exists>vs. bfs nexts [r] vs"
  proof (rule bfs_total[of "live g" nexts "\<lambda>k. card (subtree (live g) (par g) k)"])
    fix h assume h: "h \<in> live g"
    hence "distinct (nexts h)" "set (nexts h) \<subseteq> kids (live g) (par g) h" using kl n by (auto simp: kid_lists_def)
    thus "set (nexts h) \<subseteq> live g \<and> sum_list (map (\<lambda>k. card (subtree (live g) (par g) k)) (nexts h)) < card (subtree (live g) (par g) h)"
      using subtree_sum_less[OF r(2) h, of "nexts h"] by (auto simp: kids_def)
  qed (simp add: root)
  then obtain vs where vs: "bfs nexts [r] vs" by blast
  have "set vs = unpurged tower g" using bfs_set[OF vs] leads_unpurged[OF r(2) kl n] by simp
  note voters = set_block_voters[OF kl n this, of ?last slot]
  have "antichain (live g) (par g) [r]" using root by (simp add: antichain_def)
  from switch_walk_tally[OF tree kl track ok last n vs this, of tot slot "{}" 0]
  have "switch_walk tower tot ?last slot [r] {} 0 (hide {r} g)
      = Some (fst (tally tower tot (concat (map (block_voters tower g nexts ?last slot) vs)) {} 0), g)" by simp
  moreover have "fst (tally tower tot (concat (map (block_voters tower g nexts ?last slot) vs)) {} 0)
      \<longleftrightarrow> ratio_above (word_of_nat (stakes_of tower (switch_voters tower g ?last slot))) tot SWITCH_RATIO"
    using tally_passes[of "{}" 0 tower tot "concat (map (block_voters tower g nexts ?last slot) vs)"] zero_stake_fails sum
    unfolding Un_empty_left voters by (simp add: stakes_of_def)
  moreover have "unmap r g = hide {r} g" using unmap_hide[OF ids root, of "{}"] by simp
  ultimately show ?thesis using r(1) live_map[OF ids, of r] root used by (simp add: switch_check_def)
qed

end
