(* ===== verification/Tower_Total.thy ===== *)
theory Tower_Total
  imports Tower_Switch
begin

text \<open>
  The decision always comes: with a consistent tower and fork choice no assertion of
  \<open>fd_tower_vote_and_reset\<close> fails, no null block is read and every loop ends, and there is always a block
  to build on.
\<close>

section \<open>Searches that end\<close>

lemma predicate_ancestor_ends:
  assumes "rooted (live g) (par g) r" "i \<in> live g"
  shows "\<exists>x. predicate_ancestor P (g_pool g) (Some i) = Some x"
  using assms
proof (induction rule: rooted_induct)
  case root
  have "blk_parent (g_pool g r) = None" using assms(1) by (simp add: rooted_def)
  thus ?case by (simp add: predicate_ancestor.simps)
next
  case (node i p)
  thus ?case by (subst predicate_ancestor.simps) simp
qed

lemma lockout_check_ends: "blocks_ok (t_blocks tower) \<Longrightarrow> \<exists>b. lockout_check tower slot = Some b"
  by (cases "simulate_vote (t_votes tower) slot = 0") (auto simp: lockout_check_def slot_queries is_ancestor_ok Let_def)

section \<open>A consistent tower\<close>

text \<open>
  What the caller keeps: the tower knows every block of the fork choice and every slot it voted for, the
  block of the last vote is in the fork choice, and the stakes counted by the switch check fit a word.
\<close>

definition in_step :: "fd_tower \<Rightarrow> fd_ghost \<Rightarrow> bool" where
  "in_step tower g \<longleftrightarrow> tower_ok tower \<and> tree_ok g \<and> tracked tower g \<and> t_used_acc tower = {}
     \<and> vote_slot ` set (t_votes tower) \<subseteq> dom (t_blocks tower)
     \<and> (\<forall>i \<in> live g. unat (blk_slot (g_pool g i)) < 2 ^ 63)
     \<and> (t_votes tower \<noteq> [] \<longrightarrow> (\<exists>b i. t_blocks tower (vote_slot (last (t_votes tower))) = Some b
          \<and> g_map g (tb_voted_block_id b) = Some i))
     \<and> (t_votes tower \<noteq> [] \<longrightarrow> (\<forall>slot. stakes_of tower (switch_voters tower g (vote_slot (last (t_votes tower))) slot) < 2 ^ 64))"

lemma mark_voted_ends: "slot \<in> dom (t_blocks tower) \<Longrightarrow> \<exists>b tower'. mark_voted slot block_id tower = Some (b, tower')"
  by (auto simp: mark_voted_def fd_tower_blocks_query_def Let_def)

lemma check_vote_ends:
  assumes "blocks_ok (t_blocks tower)" "blk_slot blk \<in> dom (t_blocks tower)"
  shows "\<exists>r. check_vote tower blk flags = Some r"
  using lockout_check_ends[OF assms(1), of "blk_slot blk"] assms(2)
  by (auto simp: check_vote_def propagated_check_def fd_tower_blocks_query_def)

lemma push_ends:
  assumes "tower_ok tower" "lockout_check tower slot = Some True"
  shows "\<exists>new_root votes. push_vote (t_votes tower) slot = Some (new_root, votes)
    \<and> (new_root \<noteq> ULONG_MAX \<longrightarrow> new_root \<in> vote_slot ` set (t_votes tower))"
proof -
  have ok: "votes_ok (t_votes tower)" using assms(1) by (simp add: tower_ok_def)
  have "t_votes tower \<noteq> []" if "simulate_vote (t_votes tower) slot = FD_TOWER_VOTE_MAX"
    using that simulate_vote_le[of "t_votes tower" slot] by (auto simp: FD_TOWER_VOTE_MAX_def)
  thus ?thesis using push_vote_result[OF ok lockout_check_sound(1)[OF assms]] by auto
qed

lemma cast_vote_ends:
  assumes "tower_ok tower" "lockout_check tower (blk_slot blk) = Some True" "blk_slot blk \<in> dom (t_blocks tower)"
    and "vote_slot ` set (t_votes tower) \<subseteq> dom (t_blocks tower)"
  shows "\<exists>r. cast_vote tower blk out = Some r"
proof -
  obtain new_root votes where p: "push_vote (t_votes tower) (blk_slot blk) = Some (new_root, votes)"
      "new_root \<noteq> ULONG_MAX \<longrightarrow> new_root \<in> vote_slot ` set (t_votes tower)"
    using push_ends[OF assms(1,2)] by blast
  let ?t = "tower\<lparr> t_votes := votes \<rparr>"
  obtain b t where m: "mark_voted (blk_slot blk) (blk_id blk) ?t = Some (b, t)"
    using mark_voted_ends[of "blk_slot blk" ?t "blk_id blk"] assms(3) by auto
  have dom: "dom (t_blocks t) = dom (t_blocks tower)"
    using m assms(3) by (auto simp: mark_voted_def fd_tower_blocks_query_def bind_eq_Some_conv Let_def dom_fun_upd split: if_splits)
  have "new_root \<noteq> ULONG_MAX \<Longrightarrow> \<exists>x. t_blocks t new_root = Some x" using p(2) assms(4) dom by blast
  thus ?thesis using p(1) m
    by (auto simp: cast_vote_def push_vote_on_def fd_tower_blocks_query_def)
qed

section \<open>The choice of forks\<close>

lemma switch_fork_ends:
  assumes "in_step tower g" "t_votes tower \<noteq> []" "best \<in> live g" "i \<in> live g"
  shows "\<exists>flags reset vote. switch_fork tower g best (Some i) invalid = Some (flags, reset, vote, tower, g)
    \<and> reset \<in> live g \<and> (vote \<noteq> None \<longrightarrow> vote = Some best)"
proof -
  have tree: "tree_ok g" and s: "\<exists>pass. switch_check tower g tot slot = Some (pass, tower, g)" for tot slot
    using assms(1,2) switch_check_exact[of g tower slot tot] by (auto simp: in_step_def tower_ok_def)
  obtain pass where pass: "switch_check tower g (blk_total_stake (g_pool g best)) (blk_slot (g_pool g best)) = Some (pass, tower, g)"
    using s by blast
  obtain d where d: "fd_ghost_deepest g i = Some (d, g)" "d \<in> live g"
    using deepest_ok[OF tree assms(4)] by (auto simp: subtree_def)
  obtain b where b: "fd_ghost_best g i = Some b" "b \<in> live g"
    using best_ok[OF tree assms(4)] by (auto simp: greedy_def subtree_def)
  show ?thesis using pass d b assms(3) by (cases pass; cases invalid) (simp_all add: switch_fork_def)
qed

lemma pick_forks_ends:
  assumes "in_step tower g" "t_votes tower \<noteq> []" "best \<in> live g"
  shows "\<exists>flags reset vote. pick_forks tower g best = Some (flags, reset, vote, tower, g)
    \<and> reset \<in> live g \<and> (vote \<noteq> None \<longrightarrow> vote = Some best)"
proof -
  have tree: "tree_ok g" using assms(1) by (simp add: in_step_def)
  obtain r where r: "rooted (live g) (par g) r" using tree_root[OF tree] by blast
  have ok: "blocks_ok (t_blocks tower)" using assms(1) by (simp add: in_step_def tower_ok_def)
  obtain b i where bi: "t_blocks tower (vote_slot (last (t_votes tower))) = Some b" "g_map g (tb_voted_block_id b) = Some i"
    using assms(1,2) by (auto simp: in_step_def)
  have i: "i \<in> live g" using bi(2) by (auto simp: live_def ran_def)
  obtain x where x: "fd_ghost_invalid_ancestor g (Some i) = Some x"
    using predicate_ancestor_ends[OF r i] by (auto simp: fd_ghost_invalid_ancestor_def)
  obtain y where y: "fd_ghost_ancestor g (Some i) (blk_id (g_pool g best)) = Some y"
    using predicate_ancestor_ends[OF r i] by (auto simp: fd_ghost_ancestor_def)
  obtain s where s: "fd_tower_blocks_is_slot_ancestor tower (blk_slot (g_pool g best)) (vote_slot (last (t_votes tower))) = Some s"
    by (simp add: slot_queries is_ancestor_ok[OF ok])
  have fork: "\<exists>flags reset vote. switch_fork tower g best (Some i) (x \<noteq> None) = Some (flags, reset, vote, tower, g)
      \<and> reset \<in> live g \<and> (vote \<noteq> None \<longrightarrow> vote = Some best)"
    by (rule switch_fork_ends[OF assms i])
  define rollback where "rollback \<longleftrightarrow> x \<noteq> None \<and> Some i \<noteq> Some best \<and> y \<noteq> None"
  define sibling where "sibling \<longleftrightarrow> x \<noteq> None \<and> tb_confirmed b \<and> tb_voted_block_id b \<noteq> tb_confirmed_block_id b"
  define same where "same \<longleftrightarrow> blk_slot (g_pool g best) = vote_slot (last (t_votes tower)) \<or> s"
  have "pick_forks tower g best =
      (if rollback then Some (fd_uchar_set_bit 0 FD_TOWER_FLAG_ANCESTOR_ROLLBACK, best, None, tower, g)
       else if sibling then Some (fd_uchar_set_bit 0 FD_TOWER_FLAG_SIBLING_CONFIRMED, best, Some best, tower, g)
       else if same then Some (fd_uchar_set_bit 0 FD_TOWER_FLAG_SAME_FORK, best, Some best, tower, g)
       else switch_fork tower g best (Some i) (x \<noteq> None))"
    unfolding pick_forks_def fd_tower_blocks_query_def fd_ghost_query_def Let_def rollback_def sibling_def same_def
    by (cases "x = None"; cases "y = None"; cases s) (simp_all add: bi x y s)
  thus ?thesis using fork assms(3) by (cases rollback; cases sibling; cases same) simp_all
qed

section \<open>The decision\<close>

lemma best_live:
  assumes "tree_ok g"
  obtains r best where "g_root g = Some r" "fd_ghost_best g r = Some best" "best \<in> live g"
proof -
  obtain r where r: "g_root g = Some r" "rooted (live g) (par g) r" using tree_root[OF assms] by blast
  have "r \<in> live g" using r(2) by (simp add: rooted_def)
  from best_ok[OF assms this] show ?thesis using that r(1) by (auto simp: greedy_def subtree_def)
qed

lemma first_vote_ends:
  assumes "tower_ok tower" "blk_slot best \<in> dom (t_blocks tower)"
  shows "\<exists>flags out' tower'. first_vote tower best out = Some (flags, out', tower')
    \<and> out_reset_slot out' = blk_slot best \<and> out_reset_block_id out' = blk_id best"
proof -
  obtain l where l: "lockout_check tower (blk_slot best) = Some l"
    using lockout_check_ends assms(1) by (auto simp: tower_ok_def)
  obtain b t where m: "mark_voted (blk_slot best) (blk_id best) tower = Some (b, t)"
    using mark_voted_ends[OF assms(2)] by blast
  show ?thesis
  proof (cases l)
    case True
    obtain n vs where "push_vote (t_votes tower) (blk_slot best) = Some (n, vs)"
      using push_ends[OF assms(1), of "blk_slot best"] l True by auto
    thus ?thesis using l m True mark_voted_frame(1)[OF m] by (simp add: first_vote_def push_vote_on_def)
  qed (use l in \<open>simp add: first_vote_def no_vote_def\<close>)
qed

lemma cast_vote_reset:
  "cast_vote tower blk out = Some (out', tower') \<Longrightarrow>
    out_reset_slot out' = out_reset_slot out \<and> out_reset_block_id out' = out_reset_block_id out"
  by (auto simp: cast_vote_def bind_eq_Some_conv)

lemma vote_and_reset_ends:
  assumes "in_step tower g"
  shows "\<exists>flags out' tower'. fd_tower_vote_and_reset tower g out = Some (flags, out', tower', g)
    \<and> (\<exists>i \<in> live g. out_reset_slot out' = blk_slot (g_pool g i) \<and> out_reset_block_id out' = blk_id (g_pool g i))"
proof -
  have ok: "tower_ok tower" "tree_ok g" "blocks_ok (t_blocks tower)" "vote_slot ` set (t_votes tower) \<subseteq> dom (t_blocks tower)"
    using assms by (auto simp: in_step_def tower_ok_def)
  obtain r best where best: "g_root g = Some r" "fd_ghost_best g r = Some best" "best \<in> live g"
    using best_live[OF ok(2)] by blast
  have dom: "blk_slot (g_pool g best) \<in> dom (t_blocks tower)" using assms best(3) by (auto simp: in_step_def tracked_def)
  show ?thesis
  proof (cases "t_votes tower = []")
    case True
    thus ?thesis using first_vote_ends[OF ok(1) dom, of out] best
      by (auto simp: fd_tower_vote_and_reset_def)
  next
    case False
    obtain f reset vote where pick: "pick_forks tower g best = Some (f, reset, vote, tower, g)" "reset \<in> live g"
        "vote \<noteq> None \<longrightarrow> vote = Some best"
      using pick_forks_ends[OF assms False best(3)] by blast
    let ?out = "(no_vote (g_pool g reset) out)\<lparr> out_vote_bank_hash := 0 \<rparr>"
    have reset: "out_reset_slot ?out = blk_slot (g_pool g reset)" "out_reset_block_id ?out = blk_id (g_pool g reset)"
      by (simp_all add: no_vote_def)
    obtain f' can where can: "(case vote of None \<Rightarrow> Some (f, False) | Some b \<Rightarrow> check_vote tower (g_pool g b) f) = Some (f', can)"
      using check_vote_ends[OF ok(3) dom, of f] pick(3) by (cases vote) auto
    show ?thesis
    proof (cases can)
      case True
      hence v: "vote = Some best" using can pick(3) by (auto split: option.splits)
      hence "lockout_check tower (blk_slot (g_pool g best)) = Some True" using can True check_vote_passes(1) by auto
      then obtain out' tower' where c: "cast_vote tower (g_pool g best) ?out = Some (out', tower')"
        using cast_vote_ends[OF ok(1) _ dom ok(4), of ?out] by auto
      have "fd_tower_vote_and_reset tower g out = Some (f', out', tower', g)"
        using best False pick(1) can True v c by (simp add: fd_tower_vote_and_reset_def Let_def)
      thus ?thesis using cast_vote_reset[OF c] reset pick(2) by auto
    next
      case cant: False
      have "fd_tower_vote_and_reset tower g out = Some (f', ?out, tower, g)"
        using best False pick(1) can cant by (simp add: fd_tower_vote_and_reset_def Let_def)
      thus ?thesis using reset pick(2) by auto
    qed
  qed
qed

end
