(* ===== verification/Tower_Reconcile.thy ===== *)
theory Tower_Reconcile
  imports Tower_Safe
begin

text \<open>
  Reconciliation with the tower in the vote account, and the removal of the blocks below a new root: the
  votes stay on one fork and the root never moves back.
\<close>

section \<open>Removing slots\<close>

lemma blocks_remove_blocks [simp]: "t_blocks (fd_tower_blocks_remove tower slot) = (t_blocks tower)(slot := None)"
  by (auto simp: fd_tower_blocks_remove_def split: option.split)

lemma blocks_remove_frame [simp]:
  "t_votes (fd_tower_blocks_remove tower slot) = t_votes tower" "t_root (fd_tower_blocks_remove tower slot) = t_root tower"
  by (simp_all add: fd_tower_blocks_remove_def split: option.split)

lemma lockos_remove_frame [simp]:
  "t_votes (fd_tower_lockos_remove tower slot) = t_votes tower" "t_root (fd_tower_lockos_remove tower slot) = t_root tower"
  "t_blocks (fd_tower_lockos_remove tower slot) = t_blocks tower"
proof (induction tower slot rule: fd_tower_lockos_remove.induct)
  case (1 tower slot)
  {
    case 1 thus ?case using "1.IH"(1) by (subst fd_tower_lockos_remove.simps) (simp add: lck_clear_def split: list.split)
  next
    case 2 thus ?case using "1.IH"(2) by (subst fd_tower_lockos_remove.simps) (simp add: lck_clear_def split: list.split)
  next
    case 3 thus ?case using "1.IH"(3) by (subst fd_tower_lockos_remove.simps) (simp add: lck_clear_def split: list.split)
  }
qed

definition core_view :: "fd_tower \<Rightarrow> fd_tower_vote list \<times> u64 \<times> tower_blocks" where
  "core_view tower = (t_votes tower, t_root tower, t_blocks tower)"

lemma stakes_unlink_view:
  assumes "stakes_unlink idx tower = Some tower'"
  shows "core_view tower' = core_view tower"
proof (rule stakes_unlink.raw_induct[of "\<lambda>idx tower tower'. core_view tower' = core_view tower", OF _ assms], goal_cases)
  case (1 unlink idx tower tower')
  note IH = 1(1)
  show ?case
  proof (cases idx)
    case None
    thus ?thesis using 1(2) by simp
  next
    case (Some i)
    show ?thesis using 1(2) Some
      by (auto simp: Let_def core_view_def split: if_splits dest!: IH)
  qed
qed

lemma stakes_remove_view: "fd_tower_stakes_remove tower slot = Some tower' \<Longrightarrow> core_view tower' = core_view tower"
  by (auto simp: fd_tower_stakes_remove_def core_view_def split: option.splits dest!: stakes_unlink_view)

lemma clear_slots_view:
  assumes "clear_slots slot new_root tower = Some tower'"
  shows "core_view tower' = (t_votes tower, t_root tower, \<lambda>s. if slot \<le> s \<and> s < new_root then None else t_blocks tower s)"
  using assms
proof (induction slot new_root tower arbitrary: tower' rule: clear_slots.induct)
  case (1 slot new_root tower)
  show ?case
  proof (cases "slot < new_root")
    case False
    hence "\<not> (slot \<le> s \<and> s < new_root)" for s by auto
    thus ?thesis using 1(2) False by (auto simp: clear_slots.simps core_view_def fun_eq_iff)
  next
    case True
    obtain t where t: "fd_tower_stakes_remove (fd_tower_lockos_remove (fd_tower_blocks_remove tower slot) slot) slot = Some t"
        "clear_slots (slot + 1) new_root t = Some tower'"
      using 1(2) True by (subst (asm) clear_slots.simps) (auto simp: bind_eq_Some_conv)
    have v: "t_votes t = t_votes tower" "t_root t = t_root tower" "t_blocks t = (t_blocks tower)(slot := None)"
      using stakes_remove_view[OF t(1)] by (simp_all add: core_view_def)
    have "unat (slot + 1) = unat slot + 1"
      using True unat_lt64[of new_root] by (subst unat_add64) (simp_all add: word_less_nat_alt)
    hence succ: "slot + 1 \<le> s \<longleftrightarrow> slot < s" for s by (simp only: word_less_nat_alt word_le_nat_alt) linarith
    have "(if slot + 1 \<le> s \<and> s < new_root then None else ((t_blocks tower)(slot := None)) s)
        = (if slot \<le> s \<and> s < new_root then None else t_blocks tower s)" for s
      unfolding succ using True by (cases "s = slot") (simp_all add: order.order_iff_strict)
    hence "(\<lambda>s. if slot + 1 \<le> s \<and> s < new_root then None else ((t_blocks tower)(slot := None)) s)
        = (\<lambda>s. if slot \<le> s \<and> s < new_root then None else t_blocks tower s)"
      by (rule ext)
    thus ?thesis using 1(1)[OF True t] v by (simp only:)
  qed
qed

text \<open>
  The removal ends: the stakes of a slot are a finite chain through the pool, and the map has an entry for
  each element of the chain.
\<close>

primrec stake_chain :: "fd_tower \<Rightarrow> u64 \<Rightarrow> nat option \<Rightarrow> nat list \<Rightarrow> bool" where
  "stake_chain tower slot head [] \<longleftrightarrow> head = None"
| "stake_chain tower slot head (i # rest) \<longleftrightarrow> head = Some i \<and> sv_slot (t_stk_pool tower i) = slot
     \<and> t_stk_map tower (sv_addr (t_stk_pool tower i), slot) = Some i
     \<and> stake_chain tower slot (sv_prev (t_stk_pool tower i)) rest"

definition stakes_linked :: "fd_tower \<Rightarrow> bool" where
  "stakes_linked tower \<longleftrightarrow> (\<forall>slot head. t_stk_slot tower slot = Some head
     \<longrightarrow> (\<exists>chain. distinct chain \<and> stake_chain tower slot (Some head) chain))"

lemma stake_chain_cong:
  assumes "stake_chain tower slot head chain" "t_stk_pool tower' = t_stk_pool tower"
    and "\<And>i. i \<in> set chain \<Longrightarrow> t_stk_map tower (sv_addr (t_stk_pool tower i), slot) = Some i
      \<Longrightarrow> t_stk_map tower' (sv_addr (t_stk_pool tower i), slot) = Some i"
  shows "stake_chain tower' slot head chain"
  using assms by (induction chain arbitrary: head) simp_all

lemma stakes_unlink_ends:
  assumes "stake_chain tower slot head chain" "distinct chain"
  shows "\<exists>tower'. stakes_unlink head tower = Some tower' \<and> t_stk_pool tower' = t_stk_pool tower
    \<and> t_stk_slot tower' = t_stk_slot tower \<and> (\<forall>addr s. s \<noteq> slot \<longrightarrow> t_stk_map tower' (addr, s) = t_stk_map tower (addr, s))"
  using assms
proof (induction chain arbitrary: head tower)
  case Nil
  thus ?case by (simp add: stakes_unlink.simps)
next
  case (Cons i rest)
  let ?key = "(sv_addr (t_stk_pool tower i), slot)"
  let ?t = "tower\<lparr> t_stk_map := (t_stk_map tower)(?key := None), t_stk_free := i # t_stk_free tower \<rparr>"
  have i: "head = Some i" "sv_slot (t_stk_pool tower i) = slot" "t_stk_map tower ?key = Some i"
      "stake_chain tower slot (sv_prev (t_stk_pool tower i)) rest"
    using Cons.prems by simp_all
  have "stake_chain ?t slot (sv_prev (t_stk_pool tower i)) rest"
  proof (rule stake_chain_cong[OF i(4)])
    show "t_stk_map ?t (sv_addr (t_stk_pool tower j), slot) = Some j"
      if "j \<in> set rest" "t_stk_map tower (sv_addr (t_stk_pool tower j), slot) = Some j" for j
    proof -
      have "j \<noteq> i" using that(1) Cons.prems(2) by auto
      hence "(sv_addr (t_stk_pool tower j), slot) \<noteq> ?key" using that(2) i(3) by (metis option.inject)
      thus ?thesis using that(2) by simp
    qed
  qed simp
  then obtain t where t: "stakes_unlink (sv_prev (t_stk_pool tower i)) ?t = Some t" "t_stk_pool t = t_stk_pool ?t"
      "t_stk_slot t = t_stk_slot ?t" "\<forall>addr s. s \<noteq> slot \<longrightarrow> t_stk_map t (addr, s) = t_stk_map ?t (addr, s)"
    using Cons.IH[of ?t "sv_prev (t_stk_pool tower i)"] Cons.prems(2) unfolding distinct.simps(2) by blast
  have "stakes_unlink head tower = Some t"
    using t(1) i by (subst stakes_unlink.simps) (simp add: Let_def)
  moreover have "\<forall>addr s. s \<noteq> slot \<longrightarrow> t_stk_map t (addr, s) = t_stk_map tower (addr, s)" using t(4) by simp
  ultimately show ?case using t(2,3) by simp
qed

lemma stakes_remove_ends:
  assumes "stakes_linked tower"
  shows "\<exists>tower'. fd_tower_stakes_remove tower slot = Some tower' \<and> stakes_linked tower'"
proof (cases "t_stk_slot tower slot")
  case None
  thus ?thesis using assms by (simp add: fd_tower_stakes_remove_def)
next
  case (Some head)
  obtain t where t: "stakes_unlink (Some head) tower = Some t" "t_stk_pool t = t_stk_pool tower"
      "t_stk_slot t = t_stk_slot tower" "\<forall>addr s. s \<noteq> slot \<longrightarrow> t_stk_map t (addr, s) = t_stk_map tower (addr, s)"
    using assms Some stakes_unlink_ends unfolding stakes_linked_def by metis
  let ?t = "t\<lparr> t_stk_slot := (t_stk_slot t)(slot := None) \<rparr>"
  have "\<exists>chain. distinct chain \<and> stake_chain ?t s (Some h) chain" if h: "t_stk_slot ?t s = Some h" for s h
  proof -
    have s: "s \<noteq> slot" "t_stk_slot tower s = Some h" using h t(3) by (auto split: if_splits)
    then obtain chain where chain: "distinct chain" "stake_chain tower s (Some h) chain"
      using assms unfolding stakes_linked_def by blast
    have "stake_chain ?t s (Some h) chain" by (rule stake_chain_cong[OF chain(2)]) (use t(2,4) s(1) in auto)
    thus ?thesis using chain(1) by blast
  qed
  thus ?thesis using t(1) Some by (simp add: fd_tower_stakes_remove_def stakes_linked_def)
qed

lemma stakes_linked_cong:
  assumes "t_stk_pool tower' = t_stk_pool tower" "t_stk_map tower' = t_stk_map tower" "t_stk_slot tower' = t_stk_slot tower"
  shows "stakes_linked tower' \<longleftrightarrow> stakes_linked tower"
proof -
  have "stake_chain tower' slot head chain \<longleftrightarrow> stake_chain tower slot head chain" for slot head chain
    using assms by (induction chain arbitrary: head) simp_all
  thus ?thesis using assms(3) by (simp add: stakes_linked_def)
qed

lemma lockos_remove_stakes [simp]:
  "t_stk_pool (fd_tower_lockos_remove tower slot) = t_stk_pool tower
   \<and> t_stk_map (fd_tower_lockos_remove tower slot) = t_stk_map tower
   \<and> t_stk_slot (fd_tower_lockos_remove tower slot) = t_stk_slot tower"
proof (induction tower slot rule: fd_tower_lockos_remove.induct)
  case (1 tower slot)
  thus ?case by (subst (1 2 3) fd_tower_lockos_remove.simps) (simp add: lck_clear_def split: list.split)
qed

lemma blocks_remove_stakes [simp]:
  "t_stk_pool (fd_tower_blocks_remove tower slot) = t_stk_pool tower
   \<and> t_stk_map (fd_tower_blocks_remove tower slot) = t_stk_map tower
   \<and> t_stk_slot (fd_tower_blocks_remove tower slot) = t_stk_slot tower"
  by (simp add: fd_tower_blocks_remove_def split: option.split)

lemma clear_slots_ends: "stakes_linked tower \<Longrightarrow> \<exists>tower'. clear_slots slot new_root tower = Some tower'"
proof (induction slot new_root tower rule: clear_slots.induct)
  case (1 slot new_root tower)
  let ?t = "fd_tower_lockos_remove (fd_tower_blocks_remove tower slot) slot"
  have "stakes_linked ?t" using 1(2) by (subst stakes_linked_cong[of _ tower]) simp_all
  then obtain t where t: "fd_tower_stakes_remove ?t slot = Some t" "stakes_linked t" using stakes_remove_ends by blast
  show ?case
  proof (cases "slot < new_root")
    case True
    show ?thesis using 1(1)[OF True t] True t(1) by (subst clear_slots.simps) simp
  qed (simp add: clear_slots.simps)
qed

text \<open>Removing slots below a block keeps its line of descendants.\<close>

lemma descends_removed:
  assumes "blocks_ok blocks" "descends blocks a s" "a \<noteq> ULONG_MAX" "\<And>s. a < s \<Longrightarrow> blocks' s = blocks s"
  shows "descends blocks' a s"
proof -
  have par: "slot_par blocks' x = slot_par blocks x" if "a < x" for x using assms(4)[OF that] by (simp add: slot_par_def)
  have "beneath (slot_par blocks') a p" if "beneath (slot_par blocks) a p" for p
    using assms(1) that
  proof (induction p rule: slot_induct)
    case (slot p)
    show ?case
    proof (cases "a = p")
      case False
      hence d: "descends blocks a p" using slot.prems beneath_descends by blast
      hence lt: "a < p" by (rule descends_older[OF assms(1) _ assms(3)])
      obtain b where b: "blocks p = Some b" "beneath (slot_par blocks) a (tb_parent_slot b)"
        using d by (auto simp: descends_def slot_par_def)
      have "tb_parent_slot b \<noteq> ULONG_MAX" using b(2) beneath_null[OF assms(1), of a] assms(3) by auto
      from slot.IH[OF b(1) this b(2)] have "beneath (slot_par blocks') a (tb_parent_slot b)" .
      moreover have "slot_par blocks' p = Some (tb_parent_slot b)" using par[OF lt] b(1) by (simp add: slot_par_def)
      ultimately show ?thesis by (rule beneath_parent[rotated])
    qed simp
  qed
  moreover have "slot_par blocks' s = slot_par blocks s" by (rule par[OF descends_older[OF assms(1-3)]])
  ultimately show ?thesis using assms(2) by (auto simp: descends_def)
qed

lemma blocks_ok_removed: "blocks_ok blocks \<Longrightarrow> blocks_ok (\<lambda>s. if P s then None else blocks s)"
  by (auto simp: blocks_ok_def split: if_splits)

lemma on_fork_removed:
  assumes "blocks_ok blocks" "on_fork blocks votes" "\<forall>v \<in> set votes. vote_slot v \<noteq> ULONG_MAX"
    and "\<And>s v. v \<in> set votes \<Longrightarrow> vote_slot v < s \<Longrightarrow> \<not> P s"
  shows "on_fork (\<lambda>s. if P s then None else blocks s) votes"
proof -
  have "descends (\<lambda>s. if P s then None else blocks s) (vote_slot v) (vote_slot w)"
    if "v \<in> set votes" "descends blocks (vote_slot v) (vote_slot w)" for v w
    using descends_removed[OF assms(1) that(2)] assms(3,4) that(1) by simp
  hence "sorted_wrt (\<lambda>v w. descends (\<lambda>s. if P s then None else blocks s) (vote_slot v) (vote_slot w)) votes"
    by (rule sorted_wrt_mono_rel[OF _ assms(2)[unfolded on_fork_def]])
  thus ?thesis by (simp only: on_fork_def)
qed

text \<open>Moving the root up to a slot no newer than the votes keeps the tower.\<close>

lemma votes_not_null: "votes_ok votes \<Longrightarrow> v \<in> set votes \<Longrightarrow> vote_slot v \<noteq> ULONG_MAX"
  by (auto simp: votes_ok_def vote_ok_def unsigned_minus_1_eq_mask mask_eq_exp_minus_1 dest!: bspec)

lemma clear_slots_ok:
  assumes "tower_ok tower" "clear_slots slot new_root tower = Some tower'" "\<forall>v \<in> set (t_votes tower). new_root \<le> vote_slot v"
  shows "tower_ok tower'"
proof -
  have v: "t_votes tower' = t_votes tower" "t_blocks tower' = (\<lambda>s. if slot \<le> s \<and> s < new_root then None else t_blocks tower s)"
    using clear_slots_view[OF assms(2)] by (simp_all add: core_view_def)
  have ok: "votes_ok (t_votes tower)" "blocks_ok (t_blocks tower)" "on_fork (t_blocks tower) (t_votes tower)"
    using assms(1) by (simp_all add: tower_ok_def)
  have "on_fork (\<lambda>s. if slot \<le> s \<and> s < new_root then None else t_blocks tower s) (t_votes tower)"
    using assms(3) votes_not_null[OF ok(1)] by (intro on_fork_removed[OF ok(2,3)]) (auto dest: bspec)
  thus ?thesis using ok(1) blocks_ok_removed[OF ok(2)] by (simp add: tower_ok_def v)
qed

section \<open>Adopting the account's votes\<close>

lemma unmark_voted_frame:
  assumes "unmark_voted votes blocks = Some blocks'"
  shows "slot_par blocks' = slot_par blocks" "blocks_ok blocks \<Longrightarrow> blocks_ok blocks'" "dom blocks' = dom blocks"
proof -
  have "slot_par blocks' = slot_par blocks \<and> (blocks_ok blocks \<longrightarrow> blocks_ok blocks') \<and> dom blocks' = dom blocks"
    using assms
  proof (induction votes arbitrary: blocks)
    case (Cons v votes)
    obtain b where b: "blocks (vote_slot v) = Some b"
        "unmark_voted votes (blocks(vote_slot v \<mapsto> b\<lparr> tb_voted := False \<rparr>)) = Some blocks'"
      using Cons.prems by (auto simp: bind_eq_Some_conv)
    have "slot_par (blocks(vote_slot v \<mapsto> b\<lparr> tb_voted := False \<rparr>)) = slot_par blocks"
      using b(1) by (auto simp: slot_par_def)
    moreover have "blocks_ok blocks \<Longrightarrow> blocks_ok (blocks(vote_slot v \<mapsto> b\<lparr> tb_voted := False \<rparr>))"
      using b(1) by (intro blocks_ok_update(1)[of blocks "vote_slot v" b]) simp_all
    moreover have "dom (blocks(vote_slot v \<mapsto> b\<lparr> tb_voted := False \<rparr>)) = dom blocks" using b(1) by auto
    ultimately show ?case using Cons.IH[OF b(2)] by metis
  qed simp
  thus "slot_par blocks' = slot_par blocks" "blocks_ok blocks \<Longrightarrow> blocks_ok blocks'" "dom blocks' = dom blocks" by auto
qed

lemma adopt_votes_result:
  assumes "adopt_votes votes tower = Some tower'"
  shows "t_votes tower' = t_votes tower @ votes" "t_root tower' = t_root tower"
    "slot_par (t_blocks tower') = slot_par (t_blocks tower)" "blocks_ok (t_blocks tower) \<Longrightarrow> blocks_ok (t_blocks tower')"
    "\<forall>v \<in> set votes. \<exists>b. t_blocks tower' (vote_slot v) = Some b \<and> tb_voted b"
proof -
  have "t_votes tower' = t_votes tower @ votes \<and> t_root tower' = t_root tower
      \<and> slot_par (t_blocks tower') = slot_par (t_blocks tower) \<and> (blocks_ok (t_blocks tower) \<longrightarrow> blocks_ok (t_blocks tower'))
      \<and> (\<forall>v \<in> set votes. \<exists>b. t_blocks tower' (vote_slot v) = Some b \<and> tb_voted b)
      \<and> (\<forall>s b. t_blocks tower s = Some b \<and> tb_voted b \<longrightarrow> (\<exists>b. t_blocks tower' s = Some b \<and> tb_voted b))"
    using assms
  proof (induction votes arbitrary: tower)
    case (Cons v votes)
    obtain b where b: "t_blocks tower (vote_slot v) = Some b" using Cons.prems by (auto simp: bind_eq_Some_conv)
    define c where "c = (if tb_voted b then b else b\<lparr> tb_voted := True, tb_voted_block_id := tb_replayed_block_id b \<rparr>)"
    have c: "tb_slot c = tb_slot b" "tb_parent_slot c = tb_parent_slot b" "tb_voted c" by (simp_all add: c_def)
    define t where "t = tower\<lparr> t_votes := t_votes tower @ [v], t_blocks := (t_blocks tower)(vote_slot v \<mapsto> c) \<rparr>"
    have "(t_blocks tower)(vote_slot v \<mapsto> b) = t_blocks tower" using b by auto
    hence run: "adopt_votes votes t = Some tower'" using Cons.prems b by (simp add: t_def c_def split: if_splits)
    have blocks: "t_blocks t = (t_blocks tower)(vote_slot v \<mapsto> c)" by (simp add: t_def)
    have par: "slot_par (t_blocks t) = slot_par (t_blocks tower)" using b c(2) by (auto simp: slot_par_def blocks)
    have ok: "blocks_ok (t_blocks t)" if "blocks_ok (t_blocks tower)"
      unfolding blocks by (rule blocks_ok_update(1)[of _ _ b, OF that b c(1,2)])
    have here: "t_blocks t (vote_slot v) = Some c" by (simp add: blocks)
    have keep: "\<exists>d. t_blocks t s = Some d \<and> tb_voted d" if "t_blocks tower s = Some d" "tb_voted d" for s d
      using that c(3) by (cases "s = vote_slot v") (simp_all add: blocks)
    have IH: "t_votes tower' = t_votes t @ votes" "t_root tower' = t_root t" "slot_par (t_blocks tower') = slot_par (t_blocks t)"
        "blocks_ok (t_blocks t) \<longrightarrow> blocks_ok (t_blocks tower')"
        "\<forall>v \<in> set votes. \<exists>b. t_blocks tower' (vote_slot v) = Some b \<and> tb_voted b"
        "\<forall>s b. t_blocks t s = Some b \<and> tb_voted b \<longrightarrow> (\<exists>b. t_blocks tower' s = Some b \<and> tb_voted b)"
      using Cons.IH[OF run] by blast+
    have v: "\<exists>b. t_blocks tower' (vote_slot v) = Some b \<and> tb_voted b" using IH(6) here c(3) by blast
    have "\<forall>s b. t_blocks tower s = Some b \<and> tb_voted b \<longrightarrow> (\<exists>b. t_blocks tower' s = Some b \<and> tb_voted b)"
      using IH(6) keep by metis
    moreover have "t_votes tower' = t_votes tower @ v # votes" "t_root tower' = t_root tower" using IH(1,2) by (simp_all add: t_def)
    ultimately show ?case using IH(3-5) par ok v by simp
  qed simp
  thus "t_votes tower' = t_votes tower @ votes" "t_root tower' = t_root tower"
    "slot_par (t_blocks tower') = slot_par (t_blocks tower)" "blocks_ok (t_blocks tower) \<Longrightarrow> blocks_ok (t_blocks tower')"
    "\<forall>v \<in> set votes. \<exists>b. t_blocks tower' (vote_slot v) = Some b \<and> tb_voted b" by auto
qed

text \<open>The local votes lose their mark; adopting votes touches no other block.\<close>

lemma unmark_voted_marks:
  assumes "unmark_voted votes blocks = Some blocks'"
  shows "(\<exists>v \<in> set votes. vote_slot v = s) \<or> (\<forall>b. blocks s = Some b \<longrightarrow> \<not> tb_voted b)
    \<Longrightarrow> blocks' s = Some b \<Longrightarrow> \<not> tb_voted b"
  using assms
proof (induction votes arbitrary: blocks)
  case (Cons v votes)
  obtain c where c: "blocks (vote_slot v) = Some c"
      "unmark_voted votes (blocks(vote_slot v \<mapsto> c\<lparr> tb_voted := False \<rparr>)) = Some blocks'"
    using Cons.prems(3) by (auto simp: bind_eq_Some_conv)
  show ?case by (rule Cons.IH[OF _ Cons.prems(2) c(2)]) (use Cons.prems(1) in auto)
qed simp

lemma adopt_votes_other:
  "adopt_votes votes tower = Some tower' \<Longrightarrow> s \<notin> vote_slot ` set votes \<Longrightarrow> t_blocks tower' s = t_blocks tower s"
proof (induction votes arbitrary: tower)
  case (Cons v votes)
  obtain c where c: "t_blocks tower (vote_slot v) = Some c" using Cons.prems(1) by (auto simp: bind_eq_Some_conv)
  show ?case using Cons.prems c by (auto dest!: Cons.IH split: if_splits)
qed simp

text \<open>Both loops pass when the blocks of the votes are known.\<close>

lemma unmark_voted_ends:
  "\<forall>v \<in> set votes. vote_slot v \<in> dom blocks \<Longrightarrow> \<exists>blocks'. unmark_voted votes blocks = Some blocks'"
  by (induction votes arbitrary: blocks) auto

lemma adopt_votes_ends:
  "\<forall>v \<in> set votes. vote_slot v \<in> dom (t_blocks tower) \<Longrightarrow> \<exists>tower'. adopt_votes votes tower = Some tower'"
proof (induction votes arbitrary: tower)
  case (Cons v votes)
  obtain b where "t_blocks tower (vote_slot v) = Some b" using Cons.prems by auto
  thus ?case using Cons.prems by (simp del: fun_upd_apply) (auto intro!: Cons.IH)
qed simp

section \<open>Reconciliation\<close>

text \<open>The account's tower is newer than the local one.\<close>

definition newer :: "fd_tower \<Rightarrow> fd_tower_vote list \<Rightarrow> bool" where
  "newer tower votes \<longleftrightarrow> latest_slot votes \<noteq> ULONG_MAX
     \<and> (latest_slot (t_votes tower) = ULONG_MAX \<or> latest_slot (t_votes tower) < latest_slot votes)"

text \<open>The newer root of the two, and the account's votes above it.\<close>

definition newest_root :: "fd_tower \<Rightarrow> u64 \<Rightarrow> u64" where
  "newest_root tower onchain_root = (if onchain_root = ULONG_MAX \<or> onchain_root < t_root tower then t_root tower else onchain_root)"

definition adopted :: "fd_tower \<Rightarrow> fd_tower_vote list \<Rightarrow> u64 \<Rightarrow> fd_tower_vote list" where
  "adopted tower votes onchain_root =
     (if onchain_root = ULONG_MAX \<or> onchain_root < t_root tower
      then dropWhile (\<lambda>v. vote_slot v \<le> t_root tower) votes else votes)"

lemma reconcile_same: "\<not> newer tower votes \<Longrightarrow> fd_tower_reconcile tower votes onchain_root = Some tower"
  by (auto simp: fd_tower_reconcile_def newer_def Let_def not_less)

lemma reconcile_steps:
  assumes "fd_tower_reconcile tower votes onchain_root = Some tower'" "newer tower votes"
  shows "\<exists>blocks t. t_root tower \<noteq> ULONG_MAX \<and> unmark_voted (t_votes tower) (t_blocks tower) = Some blocks
    \<and> clear_slots (t_root tower) (newest_root tower onchain_root) (tower\<lparr> t_blocks := blocks \<rparr>) = Some t
    \<and> adopt_votes (adopted tower votes onchain_root) (t\<lparr> t_root := newest_root tower onchain_root, t_votes := [] \<rparr>) = Some tower'"
proof -
  have n: "\<not> (latest_slot votes = ULONG_MAX \<or> latest_slot (t_votes tower) \<noteq> ULONG_MAX \<and> latest_slot votes \<le> latest_slot (t_votes tower))"
    using assms(2) by (auto simp: newer_def)
  show ?thesis
    using assms(1) unfolding fd_tower_reconcile_def Let_def if_not_P[OF n] not_less newest_root_def adopted_def
    by (auto simp: bind_eq_Some_conv split: if_splits)
qed

lemma on_fork_dropWhile: "on_fork blocks votes \<Longrightarrow> on_fork blocks (dropWhile P votes)"
  unfolding on_fork_def by (rule sorted_wrt_dropWhile)

lemma votes_ok_drop: "votes_ok votes \<Longrightarrow> votes_ok (dropWhile P votes)"
proof -
  assume "votes_ok votes"
  moreover have "votes_ok (drop n votes)" if "votes_ok votes" for n
  proof (induction n)
    case (Suc n)
    thus ?case using votes_ok_tl[of "drop n votes"] by (simp add: drop_Suc tl_drop)
  qed (simp add: that)
  ultimately show ?thesis by (metis dropWhile_eq_drop)
qed

text \<open>
  The outcome when the account is newer: its votes above the newer root replace the local ones, the root
  does not move back, and the votes stay on one fork.
\<close>

lemma reconcile_adopts:
  assumes "fd_tower_reconcile tower votes onchain_root = Some tower'" "newer tower votes"
  shows "t_votes tower' = adopted tower votes onchain_root" "t_root tower' = newest_root tower onchain_root"
    "t_root tower \<le> t_root tower'"
    "\<forall>v \<in> set (t_votes tower'). \<exists>b. t_blocks tower' (vote_slot v) = Some b \<and> tb_voted b"
proof -
  obtain blocks t where s: "unmark_voted (t_votes tower) (t_blocks tower) = Some blocks"
      "clear_slots (t_root tower) (newest_root tower onchain_root) (tower\<lparr> t_blocks := blocks \<rparr>) = Some t"
      "adopt_votes (adopted tower votes onchain_root) (t\<lparr> t_root := newest_root tower onchain_root, t_votes := [] \<rparr>) = Some tower'"
    using reconcile_steps[OF assms] by blast
  note a = adopt_votes_result[OF s(3)]
  show "t_votes tower' = adopted tower votes onchain_root" "t_root tower' = newest_root tower onchain_root" using a(1,2) by simp_all
  thus "\<forall>v \<in> set (t_votes tower'). \<exists>b. t_blocks tower' (vote_slot v) = Some b \<and> tb_voted b" using a(5) by simp
  show "t_root tower \<le> t_root tower'" using a(2) by (simp add: newest_root_def not_less)
qed

lemma reconcile_ok:
  assumes "fd_tower_reconcile tower votes onchain_root = Some tower'" "tower_ok tower"
    and "votes_ok votes" "on_fork (t_blocks tower) votes" "\<forall>v \<in> set (adopted tower votes onchain_root). newest_root tower onchain_root \<le> vote_slot v"
  shows "tower_ok tower'"
proof (cases "newer tower votes")
  case False
  thus ?thesis using assms(1,2) reconcile_same by simp
next
  case True
  obtain blocks t where s: "unmark_voted (t_votes tower) (t_blocks tower) = Some blocks"
      "clear_slots (t_root tower) (newest_root tower onchain_root) (tower\<lparr> t_blocks := blocks \<rparr>) = Some t"
      "adopt_votes (adopted tower votes onchain_root) (t\<lparr> t_root := newest_root tower onchain_root, t_votes := [] \<rparr>) = Some tower'"
    using reconcile_steps[OF assms(1) True] by blast
  note a = adopt_votes_result[OF s(3)] and u = unmark_voted_frame[OF s(1)]
  let ?keep = "\<lambda>s. if t_root tower \<le> s \<and> s < newest_root tower onchain_root then None else blocks s"
  have tb: "t_blocks t = ?keep" using clear_slots_view[OF s(2)] by (simp add: core_view_def cong: if_cong)
  have ok: "blocks_ok blocks" using u(2) assms(2) by (simp add: tower_ok_def)
  have votes: "votes_ok (adopted tower votes onchain_root)" "on_fork blocks (adopted tower votes onchain_root)"
    using assms(3,4) u(1) on_fork_cong[OF u(1)] by (simp_all add: adopted_def votes_ok_drop on_fork_dropWhile)
  have "on_fork ?keep (adopted tower votes onchain_root)"
  proof (rule on_fork_removed[OF ok votes(2)])
    show "\<forall>v \<in> set (adopted tower votes onchain_root). vote_slot v \<noteq> ULONG_MAX" using votes_not_null[OF votes(1)] by blast
    show "\<not> (t_root tower \<le> s \<and> s < newest_root tower onchain_root)"
      if "v \<in> set (adopted tower votes onchain_root)" "vote_slot v < s" for s v
      using assms(5) that by (meson leD less_le_trans order.strict_implies_order order_le_less_trans)
  qed
  moreover have "blocks_ok ?keep" by (rule blocks_ok_removed[OF ok])
  moreover have "t_blocks (t\<lparr> t_root := newest_root tower onchain_root, t_votes := [] \<rparr>) = ?keep" using tb by simp
  ultimately show ?thesis using a(1,3,4) votes(1) on_fork_cong[OF a(3)] by (simp add: tower_ok_def)
qed

text \<open>
  The account is consistent with the local blocks: its votes rise in slot and lie above its root, the
  blocks of its votes above the local root are known, and so are the blocks of the local votes.
\<close>

definition account_known :: "fd_tower \<Rightarrow> fd_tower_vote list \<Rightarrow> u64 \<Rightarrow> bool" where
  "account_known tower votes onchain_root \<longleftrightarrow> sorted_wrt (<) (map vote_slot votes)
     \<and> (onchain_root \<noteq> ULONG_MAX \<longrightarrow> (\<forall>v \<in> set votes. onchain_root < vote_slot v))
     \<and> (\<forall>v \<in> set votes. vote_slot v \<noteq> ULONG_MAX \<and> (t_root tower < vote_slot v \<longrightarrow> vote_slot v \<in> dom (t_blocks tower)))
     \<and> (\<forall>v \<in> set (t_votes tower). vote_slot v \<noteq> ULONG_MAX \<and> vote_slot v \<in> dom (t_blocks tower))"

lemma dropWhile_filter_sorted:
  "sorted_wrt (<) (map vote_slot votes) \<Longrightarrow> dropWhile (\<lambda>v. vote_slot v \<le> r) votes = filter (\<lambda>v. r < vote_slot v) votes"
proof (induction votes)
  case (Cons v votes)
  thus ?case by (cases "vote_slot v \<le> r") (auto simp: filter_id_conv not_le intro!: filter_True[symmetric])
qed simp

lemma adopted_above:
  assumes "account_known tower votes onchain_root"
  shows "adopted tower votes onchain_root = filter (\<lambda>v. newest_root tower onchain_root < vote_slot v) votes"
  using assms by (auto simp: adopted_def newest_root_def account_known_def dropWhile_filter_sorted intro!: filter_True[symmetric])

lemma newer_known:
  assumes "account_known tower votes onchain_root"
  shows "newer tower votes \<longleftrightarrow> votes \<noteq> [] \<and> (t_votes tower = [] \<or> vote_slot (last (t_votes tower)) < vote_slot (last votes))"
  using assms by (auto simp: newer_def latest_slot_def account_known_def)

text \<open>The run succeeds, and the slots between the two roots are forgotten.\<close>

lemma reconcile_ends:
  assumes "account_known tower votes onchain_root" "t_root tower \<noteq> ULONG_MAX" "stakes_linked tower" "newer tower votes"
  shows "\<exists>tower'. fd_tower_reconcile tower votes onchain_root = Some tower'
    \<and> dom (t_blocks tower') = dom (t_blocks tower) - {t_root tower ..< newest_root tower onchain_root}
    \<and> (\<forall>v \<in> set (t_votes tower). \<forall>b. vote_slot v \<notin> vote_slot ` set (t_votes tower')
         \<longrightarrow> t_blocks tower' (vote_slot v) = Some b \<longrightarrow> \<not> tb_voted b)"
proof -
  let ?root = "newest_root tower onchain_root" and ?votes = "adopted tower votes onchain_root"
  obtain blocks where blocks: "unmark_voted (t_votes tower) (t_blocks tower) = Some blocks"
    using unmark_voted_ends assms(1) unfolding account_known_def by metis
  have "stakes_linked (tower\<lparr> t_blocks := blocks \<rparr>)" using assms(3) by (subst stakes_linked_cong[of _ tower]) simp_all
  then obtain t where t: "clear_slots (t_root tower) ?root (tower\<lparr> t_blocks := blocks \<rparr>) = Some t"
    using clear_slots_ends by blast
  have tb: "t_blocks t = (\<lambda>s. if t_root tower \<le> s \<and> s < ?root then None else blocks s)"
    using clear_slots_view[OF t] by (simp add: core_view_def cong: if_cong)
  hence dom: "dom (t_blocks t) = dom (t_blocks tower) - {t_root tower ..< ?root}"
    using unmark_voted_frame(3)[OF blocks] by (auto simp: dom_def split: if_splits)
  have "t_root tower \<le> ?root" by (simp add: newest_root_def not_less)
  hence "\<forall>v \<in> set ?votes. vote_slot v \<in> dom (t_blocks (t\<lparr> t_root := ?root, t_votes := [] \<rparr>))"
    using assms(1) by (auto simp: adopted_above[OF assms(1)] dom account_known_def)
  then obtain tower' where a: "adopt_votes ?votes (t\<lparr> t_root := ?root, t_votes := [] \<rparr>) = Some tower'"
    using adopt_votes_ends by blast
  have "dom (slot_par (t_blocks tower')) = dom (slot_par (t_blocks t))" using adopt_votes_result(3)[OF a] by simp
  hence "dom (t_blocks tower') = dom (t_blocks t)" by (simp add: slot_par_def dom_def)
  moreover have "\<not> tb_voted b"
    if v: "v \<in> set (t_votes tower)" "vote_slot v \<notin> vote_slot ` set (t_votes tower')" "t_blocks tower' (vote_slot v) = Some b" for v b
  proof -
    have "t_votes tower' = ?votes" using adopt_votes_result(1)[OF a] by simp
    hence "t_blocks tower' (vote_slot v) = t_blocks t (vote_slot v)" using adopt_votes_other[OF a] v(2) by simp
    hence "blocks (vote_slot v) = Some b" using v(3) fun_cong[OF tb, of "vote_slot v"] by (metis option.distinct(1))
    thus ?thesis using unmark_voted_marks[OF blocks] v(1) by blast
  qed
  moreover have "fd_tower_reconcile tower votes onchain_root = Some tower'"
  proof -
    have n: "\<not> (latest_slot votes = ULONG_MAX \<or> latest_slot (t_votes tower) \<noteq> ULONG_MAX \<and> latest_slot votes \<le> latest_slot (t_votes tower))"
      using assms(4) by (auto simp: newer_def)
    show ?thesis unfolding fd_tower_reconcile_def Let_def if_not_P[OF n]
      using assms(2) blocks t a
      by (cases "onchain_root = ULONG_MAX \<or> onchain_root < t_root tower") (auto simp: newest_root_def adopted_def not_less)
  qed
  ultimately show ?thesis using dom by (intro exI[of _ tower']) simp
qed

end
