(* ===== verification/Tower_Lockos.thy ===== *)
theory Tower_Lockos
  imports Tower_Decision
begin

text \<open>
  The multimap of lockout intervals.  A slot's intervals are found through its sentinels; the invariant
  says that the sentinels list exactly the ends in use, so that removing a slot releases every element
  its insertions took and touches no other slot.
\<close>

section \<open>Keys\<close>

definition short :: "u64 \<Rightarrow> bool" where
  "short x \<longleftrightarrow> unat x < 2 ^ 32"

lemma take_bit_short: "short x \<Longrightarrow> take_bit 32 x = x"
  unfolding short_def word_unat_eq_iff by (simp add: unsigned_take_bit_eq take_bit_nat_eq_self)

lemma key_parts:
  assumes "short slot" "short e"
  shows "drop_bit 32 (lockout_interval_key slot e) = slot" "take_bit 32 (lockout_interval_key slot e) = e"
proof -
  have "drop_bit 32 e = drop_bit 32 (take_bit 32 e)" by (simp only: take_bit_short[OF assms(2)])
  hence e: "drop_bit 32 e = 0" by (simp add: drop_bit_take_bit)
  have "drop_bit 32 (push_bit 32 slot) = take_bit 32 slot"
    by (rule bit_eqI) (auto simp: bit_simps)
  thus "drop_bit 32 (lockout_interval_key slot e) = slot"
    using e by (simp add: lockout_interval_key_def drop_bit_or take_bit_short[OF assms(1)])
  have "take_bit 32 (push_bit 32 slot) = 0" by (rule bit_eqI) (auto simp: bit_simps)
  thus "take_bit 32 (lockout_interval_key slot e) = e"
    by (simp add: lockout_interval_key_def take_bit_or take_bit_short[OF assms(2)])
qed

lemma key_eq_iff:
  assumes "short slot" "short e" "short slot'" "short e'"
  shows "lockout_interval_key slot e = lockout_interval_key slot' e' \<longleftrightarrow> slot = slot' \<and> e = e'"
  using key_parts[OF assms(1,2)] key_parts[OF assms(3,4)] by metis

lemma short_zero [simp]: "short 0"
  by (simp add: short_def)

definition slot_keys :: "u64 \<Rightarrow> u64 set" where
  "slot_keys slot = {lockout_interval_key slot e | e. short e}"

section \<open>Sentinels\<close>

definition ends :: "fd_tower \<Rightarrow> u64 \<Rightarrow> u64 list" where
  "ends tower slot = map li_start (t_lck tower (lockout_interval_key slot 0))"

definition sentinels_ok :: "fd_tower \<Rightarrow> u64 \<Rightarrow> bool" where
  "sentinels_ok tower slot \<longleftrightarrow> distinct (ends tower slot) \<and> (\<forall>e \<in> set (ends tower slot). e \<noteq> 0 \<and> short e)
     \<and> (\<forall>e. short e \<and> e \<noteq> 0 \<longrightarrow> (t_lck tower (lockout_interval_key slot e) \<noteq> [] \<longleftrightarrow> e \<in> set (ends tower slot)))"

text \<open>The elements a slot takes from the pool.\<close>

definition taken :: "fd_tower \<Rightarrow> u64 \<Rightarrow> nat" where
  "taken tower slot = length (ends tower slot)
     + (\<Sum>e \<leftarrow> ends tower slot. length (t_lck tower (lockout_interval_key slot e)))"

text \<open>\<open>tower\<close> differs from \<open>base\<close> by the intervals of \<open>slot\<close> only.\<close>

definition grown :: "fd_tower \<Rightarrow> fd_tower \<Rightarrow> u64 \<Rightarrow> bool" where
  "grown base tower slot \<longleftrightarrow> tower = base\<lparr> t_lck := t_lck tower, t_lck_free := t_lck_free tower \<rparr>
     \<and> (\<forall>k. k \<notin> slot_keys slot \<longrightarrow> t_lck tower k = t_lck base k)
     \<and> t_lck_free base = t_lck_free tower + taken tower slot \<and> sentinels_ok tower slot"

definition unused :: "fd_tower \<Rightarrow> u64 \<Rightarrow> bool" where
  "unused tower slot \<longleftrightarrow> (\<forall>k \<in> slot_keys slot. t_lck tower k = [])"

lemma slot_keyI: "short e \<Longrightarrow> lockout_interval_key slot e \<in> slot_keys slot"
  by (auto simp: slot_keys_def)

lemma grown_refl: "unused tower slot \<Longrightarrow> grown tower tower slot"
  using slot_keyI[of _ slot] by (auto simp: unused_def grown_def taken_def ends_def sentinels_ok_def)

lemma grown_step:
  assumes "grown base tower slot" "tower' = tower\<lparr> t_lck := L, t_lck_free := F \<rparr>" "\<And>k. k \<notin> slot_keys slot \<Longrightarrow> L k = t_lck tower k"
    and "F + taken tower' slot = t_lck_free tower + taken tower slot" "sentinels_ok tower' slot"
  shows "grown base tower' slot"
proof -
  have "tower = base\<lparr> t_lck := t_lck tower, t_lck_free := t_lck_free tower \<rparr>" using assms(1) by (simp add: grown_def)
  from arg_cong[OF this, of "\<lambda>t. t\<lparr> t_lck := L, t_lck_free := F \<rparr>"]
  have "tower' = base\<lparr> t_lck := L, t_lck_free := F \<rparr>" by (simp add: assms(2))
  thus ?thesis using assms by (simp add: grown_def)
qed

section \<open>Removing a slot\<close>

lemma grown_none:
  assumes "grown base tower slot" "unused base slot" "t_lck tower (lockout_interval_key slot 0) = []"
  shows "tower = base"
proof -
  have "t_lck tower (lockout_interval_key slot e) = []" if "short e" for e
  proof (cases "e = 0")
    case False
    thus ?thesis using assms(1,3) that by (auto simp: grown_def sentinels_ok_def ends_def)
  qed (use assms(3) in simp)
  hence "t_lck tower k = t_lck base k" for k
    using assms(1,2) by (cases "k \<in> slot_keys slot") (auto simp: grown_def unused_def slot_keys_def)
  hence "t_lck tower = t_lck base" by blast
  moreover have "t_lck_free tower = t_lck_free base" using assms(1,3) by (simp add: grown_def taken_def ends_def)
  moreover have "tower = base\<lparr> t_lck := t_lck tower, t_lck_free := t_lck_free tower \<rparr>" using assms(1) by (simp add: grown_def)
  ultimately show ?thesis by simp
qed

lemma grown_pop:
  assumes "short slot" "grown base tower slot" "t_lck tower (lockout_interval_key slot 0) = s # rest"
  defines "tower' \<equiv> lck_clear (lockout_interval_key slot (li_start s))
      (tower\<lparr> t_lck := (t_lck tower)(lockout_interval_key slot 0 := rest), t_lck_free := t_lck_free tower + 1 \<rparr>)"
  shows "grown base tower' slot" "t_lck tower' (lockout_interval_key slot 0) = rest"
proof -
  let ?k = "lockout_interval_key slot"
  have ok: "sentinels_ok tower slot" using assms(2) by (simp add: grown_def)
  have e: "ends tower slot = li_start s # map li_start rest" by (simp add: ends_def assms(3))
  have s: "li_start s \<noteq> 0" "short (li_start s)" "li_start s \<notin> set (map li_start rest)" "distinct (map li_start rest)"
    using ok by (auto simp: sentinels_ok_def e)
  have lck: "t_lck tower' = (t_lck tower)(?k 0 := rest, ?k (li_start s) := [])"
    using key_eq_iff[OF assms(1) s(2) assms(1) short_zero] s(1) by (auto simp: tower'_def lck_clear_def)
  have neq: "?k x \<noteq> ?k (li_start s)" "?k x \<noteq> ?k 0" if "x \<in> set (map li_start rest)" for x
  proof -
    have x: "x \<noteq> li_start s" using s(3) that by metis
    moreover have "short x" "x \<noteq> 0" using ok that by (auto simp: sentinels_ok_def e)
    ultimately show "?k x \<noteq> ?k (li_start s)" "?k x \<noteq> ?k 0"
      using key_eq_iff[OF assms(1) _ assms(1), of x] s(2) by simp_all
  qed
  show rest: "t_lck tower' (?k 0) = rest"
    using key_eq_iff[OF assms(1) short_zero assms(1) s(2)] s(1) by (simp add: lck)
  hence e': "ends tower' slot = map li_start rest" by (simp add: ends_def)
  have same: "t_lck tower' (?k x) = (if x = li_start s then [] else t_lck tower (?k x))" if "short x" "x \<noteq> 0" for x
    using key_eq_iff[OF assms(1) that(1) assms(1)] that s(2) by (auto simp: lck)
  have "sentinels_ok tower' slot"
    using ok s same by (auto simp: sentinels_ok_def e e' split: if_splits)
  moreover have "taken tower slot = taken tower' slot + 1 + length (t_lck tower (?k (li_start s)))"
  proof -
    have "map (\<lambda>x. length (t_lck tower' (?k x))) (map li_start rest) = map (\<lambda>x. length (t_lck tower (?k x))) (map li_start rest)"
      using neq by (intro map_cong refl) (simp add: lck)
    thus ?thesis unfolding taken_def e e' by (simp only: list.map sum_list.Cons length_Cons length_map)
  qed
  moreover have "tower' = tower\<lparr> t_lck := t_lck tower', t_lck_free := t_lck_free tower + 1 + length (t_lck tower (?k (li_start s))) \<rparr>"
    using key_eq_iff[OF assms(1) s(2) assms(1) short_zero] s(1) by (simp add: tower'_def lck_clear_def)
  moreover have "t_lck tower' k = t_lck tower k" if "k \<notin> slot_keys slot" for k
    using slot_keyI[OF short_zero, of slot] slot_keyI[OF s(2), of slot] that by (auto simp: lck)
  ultimately show "grown base tower' slot"
    using grown_step[OF assms(2), where tower' = tower' and L = "t_lck tower'"
        and F = "t_lck_free tower + 1 + length (t_lck tower (?k (li_start s)))"]
    by simp
qed

lemma lockos_remove_grown:
  assumes "short slot" "grown base tower slot" "unused base slot"
  shows "fd_tower_lockos_remove tower slot = base"
  using assms(2)
proof (induction "t_lck tower (lockout_interval_key slot 0)" arbitrary: tower)
  case Nil
  thus ?case using grown_none[OF Nil.prems assms(3)] by (subst fd_tower_lockos_remove.simps) simp
next
  case (Cons s rest)
  note p = grown_pop[OF assms(1) Cons.prems Cons.hyps(2)[symmetric]]
  show ?case using Cons.hyps(1)[OF p(2)[symmetric] p(1)] Cons.hyps(2)[symmetric]
    by (subst fd_tower_lockos_remove.simps) simp
qed

section \<open>Inserting a tower\<close>

definition interval_end :: "fd_tower_vote \<Rightarrow> u64" where
  "interval_end vote = vote_slot vote + push_bit (unat (vote_conf vote)) 1"

lemma lck_insert_result:
  "lck_insert key ele tower = Some tower' \<longleftrightarrow> 0 < t_lck_free tower
     \<and> tower' = tower\<lparr> t_lck := (t_lck tower)(key := ele # t_lck tower key), t_lck_free := t_lck_free tower - 1 \<rparr>"
  by (auto simp: lck_insert_def)

lemma sum_list_update:
  assumes "distinct xs" "x \<in> set xs" "\<And>y. y \<in> set xs \<Longrightarrow> y \<noteq> x \<Longrightarrow> g y = f y" "g x = f x + (n :: nat)"
  shows "sum_list (map g xs) = sum_list (map f xs) + n"
  using assms
proof (induction xs)
  case (Cons y ys)
  show ?case
  proof (cases "y = x")
    case True
    hence "map g ys = map f ys" using Cons.prems(1,3) by (intro map_cong) auto
    thus ?thesis using True Cons.prems(4) by (simp only: list.map sum_list.Cons)
  next
    case False
    thus ?thesis using Cons by auto
  qed
qed simp

text \<open>An interval whose end has a sentinel already.\<close>

lemma grown_interval:
  assumes "short slot" "grown base tower slot" "short e" "e \<noteq> 0" "t_lck tower (lockout_interval_key slot e) \<noteq> []"
    and "lck_insert (lockout_interval_key slot e) ele tower = Some tower'"
  shows "grown base tower' slot"
proof -
  let ?k = "lockout_interval_key slot"
  have ok: "sentinels_ok tower slot" using assms(2) by (simp add: grown_def)
  have t: "0 < t_lck_free tower" "tower' = tower\<lparr> t_lck := (t_lck tower)(?k e := ele # t_lck tower (?k e)), t_lck_free := t_lck_free tower - 1 \<rparr>"
    using assms(6) by (simp_all add: lck_insert_result)
  have mem: "e \<in> set (ends tower slot)" using ok assms(3-5) by (simp add: sentinels_ok_def)
  have lck: "t_lck tower' (?k x) = (if x = e then ele # t_lck tower (?k e) else t_lck tower (?k x))" if "short x" for x
    using key_eq_iff[OF assms(1) that assms(1,3)] by (simp add: t)
  have ends: "ends tower' slot = ends tower slot" using lck[OF short_zero] assms(4) by (simp add: ends_def)
  have sh: "short x" if "x \<in> set (ends tower slot)" for x using ok that by (simp add: sentinels_ok_def)
  have "(\<Sum>x \<leftarrow> ends tower slot. length (t_lck tower' (?k x))) = (\<Sum>x \<leftarrow> ends tower slot. length (t_lck tower (?k x))) + 1"
    using ok mem sh lck by (intro sum_list_update[of _ e]) (auto simp: sentinels_ok_def)
  hence "taken tower' slot = taken tower slot + 1" by (simp add: taken_def ends)
  moreover have "sentinels_ok tower' slot" using ok lck mem by (auto simp: sentinels_ok_def ends)
  ultimately show ?thesis
    using t(1) slot_keyI[OF assms(3), of slot] by (intro grown_step[OF assms(2) t(2)]) (auto simp: t(2)[symmetric])
qed

text \<open>The first interval with its end brings the sentinel.\<close>

lemma grown_first:
  assumes "short slot" "grown base tower slot" "short e" "e \<noteq> 0" "t_lck tower (lockout_interval_key slot e) = []"
    and "lck_insert (lockout_interval_key slot 0) \<lparr> li_addr = a, li_start = e \<rparr> tower = Some t"
    and "lck_insert (lockout_interval_key slot e) ele t = Some tower'"
  shows "grown base tower' slot"
proof -
  let ?k = "lockout_interval_key slot"
  have ok: "sentinels_ok tower slot" using assms(2) by (simp add: grown_def)
  have ne: "?k e \<noteq> ?k 0" using key_eq_iff[OF assms(1,3,1) short_zero] assms(4) by simp
  have t: "Suc 0 < t_lck_free tower" "tower' = tower\<lparr> t_lck := (t_lck tower)(?k 0 := \<lparr> li_addr = a, li_start = e \<rparr> # t_lck tower (?k 0), ?k e := [ele]),
      t_lck_free := t_lck_free tower - 2 \<rparr>"
    using assms(5-7) ne by (auto simp: lck_insert_result)
  have new: "e \<notin> set (ends tower slot)" using ok assms(3-5) by (auto simp: sentinels_ok_def)
  have lck: "t_lck tower' (?k x) = (if x = e then [ele] else t_lck tower (?k x))" if "short x" "x \<noteq> 0" for x
    using key_eq_iff[OF assms(1) that(1) assms(1,3)] key_eq_iff[OF assms(1) that(1) assms(1) short_zero] that by (simp add: t)
  have ends: "ends tower' slot = e # ends tower slot" using ne by (simp add: ends_def t)
  have sh: "short x" "x \<noteq> 0" "x \<noteq> e" if "x \<in> set (ends tower slot)" for x using ok that new by (auto simp: sentinels_ok_def)
  have "map (\<lambda>x. length (t_lck tower' (?k x))) (ends tower slot) = map (\<lambda>x. length (t_lck tower (?k x))) (ends tower slot)"
    using sh lck by (intro map_cong refl) simp
  hence "taken tower' slot = taken tower slot + 2"
    unfolding taken_def ends using lck[OF assms(3,4)] by (simp only: list.map sum_list.Cons length_Cons) simp
  moreover have "sentinels_ok tower' slot" using ok lck assms(3,4) new by (auto simp: sentinels_ok_def ends)
  ultimately show ?thesis
    using t(1) slot_keyI[OF assms(3), of slot] slot_keyI[OF short_zero, of slot]
    by (intro grown_step[OF assms(2) t(2)]) (auto simp: t(2)[symmetric])
qed

lemma lockos_insert_grown:
  assumes "short slot" "grown base tower slot" "\<forall>v \<in> set votes. short (interval_end v) \<and> interval_end v \<noteq> 0"
    and "fd_tower_lockos_insert tower slot addr votes = Some tower'"
  shows "grown base tower' slot"
  using assms(2-)
proof (induction votes arbitrary: tower)
  case (Cons v votes)
  let ?e = "interval_end v" and ?k = "lockout_interval_key slot"
  have e: "short ?e" "?e \<noteq> 0" using Cons.prems(2) by auto
  obtain t t' where t: "(if t_lck tower (?k ?e) = [] then lck_insert (?k 0) \<lparr> li_addr = 0, li_start = ?e \<rparr> tower else Some tower) = Some t"
      "lck_insert (?k ?e) \<lparr> li_addr = addr, li_start = vote_slot v \<rparr> t = Some t'" "fd_tower_lockos_insert t' slot addr votes = Some tower'"
    using Cons.prems(3) unfolding fd_tower_lockos_insert.simps Let_def interval_end_def[symmetric] bind_eq_Some_conv by blast
  have "grown base t' slot"
  proof (cases "t_lck tower (?k ?e) = []")
    case True
    thus ?thesis using grown_first[OF assms(1) Cons.prems(1) e] t(1,2) by simp
  next
    case False
    thus ?thesis using grown_interval[OF assms(1) Cons.prems(1) e] t(1,2) by simp
  qed
  thus ?case using Cons.IH t(3) Cons.prems(2) by simp
qed simp

text \<open>The towers of all voters of a slot, as the tile counts them.\<close>

fun lockos_insert_all :: "fd_tower \<Rightarrow> u64 \<Rightarrow> (fd_hash \<times> fd_tower_vote list) list \<Rightarrow> fd_tower option" where
  "lockos_insert_all tower slot [] = Some tower"
| "lockos_insert_all tower slot ((addr, votes) # vtrs) = do {
     tower \<leftarrow> fd_tower_lockos_insert tower slot addr votes;
     lockos_insert_all tower slot vtrs
   }"

lemma lockos_insert_all_grown:
  assumes "short slot" "grown base tower slot" "lockos_insert_all tower slot vtrs = Some tower'"
    and "\<forall>(addr, votes) \<in> set vtrs. \<forall>v \<in> set votes. short (interval_end v) \<and> interval_end v \<noteq> 0"
  shows "grown base tower' slot"
  using assms(2-)
proof (induction vtrs arbitrary: tower)
  case (Cons av vtrs)
  obtain a votes where av: "av = (a, votes)" by fastforce
  obtain t where t: "fd_tower_lockos_insert tower slot a votes = Some t" "lockos_insert_all t slot vtrs = Some tower'"
    using Cons.prems(2) by (auto simp: av bind_eq_Some_conv)
  have "grown base t slot" using Cons.prems(3) by (intro lockos_insert_grown[OF assms(1) Cons.prems(1) _ t(1)]) (simp add: av)
  thus ?case using Cons.IH t(2) Cons.prems(3) by simp
qed simp

end
