(* ===== verification/Ghost_Theorems.thy ===== *)
theory Ghost_Theorems
  imports Ghost_Choice
begin

text \<open>
  The theorems on the fork choice.
\<close>

section \<open>Every reachable state\<close>

text \<open>
  The operations a caller makes, with what it owes: a new block names a parent in the tree, a vote is for
  a block in the tree, the new root is in the tree, and the stake counted at any time fits a word.
\<close>

inductive ghost_step :: "fd_ghost \<Rightarrow> fd_ghost \<Rightarrow> bool" where
  insert: "g_map g parent_id \<noteq> None \<Longrightarrow> fd_ghost_insert g bank_seq slot block_id parent_id = Some (i, g') \<Longrightarrow> ghost_step g g'"
| vote: "blk \<in> live g \<Longrightarrow> total_weight g + unat stake < 2 ^ 64 \<Longrightarrow>
    fd_ghost_count_vote g blk a stake slot = Some (rc, g') \<Longrightarrow> ghost_step g g'"
| publish: "newr \<in> live g \<Longrightarrow> fd_ghost_publish g newr = Some g' \<Longrightarrow> ghost_step g g'"
| eqvoc: "fd_ghost_eqvoc g block_id = Some g' \<Longrightarrow> ghost_step g g'"
| confirm: "fd_ghost_confirm g block_id = Some g' \<Longrightarrow> ghost_step g g'"

inductive ghost_reach :: "fd_ghost \<Rightarrow> bool" where
  init: "g_map g = Map.empty \<Longrightarrow> g_vtrs g = Map.empty \<Longrightarrow> g_dlists g = (\<lambda>i. []) \<Longrightarrow> distinct (g_free g) \<Longrightarrow>
    fd_ghost_init g bank_seq slot block_id = Some (i, g') \<Longrightarrow> ghost_reach g'"
| step: "ghost_reach g \<Longrightarrow> ghost_step g g' \<Longrightarrow> ghost_reach g'"

lemma insert_guards:
  "fd_ghost_insert g bank_seq slot block_id parent_id = Some (i, g') \<Longrightarrow> g_map g block_id = None \<and> g_free g \<noteq> []"
  by (auto simp: fd_ghost_insert_def ghost_insert_def split: option.splits if_splits list.splits)

lemma inserted_valid:
  assumes "fd_ghost_insert g bank_seq slot block_id parent_id = Some (i, g')"
  shows "g_map g' block_id = Some i \<and> blk_valid (g_pool g' i)"
proof -
  obtain g1 where g1: "ghost_insert g bank_seq slot block_id = Some (i, g1)"
      and run: "(case g_map g1 parent_id of None \<Rightarrow> None | Some parent \<Rightarrow>
        (let pool = (g_pool g1)(i := (g_pool g1 i)\<lparr> blk_parent := Some parent \<rparr>)
         in case blk_child (pool parent) of
              None \<Rightarrow> Some (i, g1\<lparr> g_pool := pool(parent := (pool parent)\<lparr> blk_child := Some i \<rparr>) \<rparr>)
            | Some c \<Rightarrow> (case last_sibling pool c of None \<Rightarrow> None | Some s \<Rightarrow>
                Some (i, g1\<lparr> g_pool := pool(s := (pool s)\<lparr> blk_sibling := Some i \<rparr>), g_width := g_width g1 + 1 \<rparr>)))) = Some (i, g')"
    using assms by (auto simp: fd_ghost_insert_def Let_def split: option.splits)
  have "g_map g1 block_id = Some i" "blk_valid (g_pool g1 i)"
    using g1 by (auto simp: ghost_insert_def split: if_splits list.splits)
  moreover have "g_map g' = g_map g1" "blk_valid (g_pool g' i) = blk_valid (g_pool g1 i)"
    using run by (auto simp: Let_def split: option.splits if_splits)
  ultimately show ?thesis by simp
qed

lemma vote_room:
  assumes "fd_ghost_count_vote g blk a stake slot = Some (FD_GHOST_SUCCESS, g')"
  shows "g_vtrs g a = None \<longrightarrow> 0 < g_vtr_free g"
  using assms by (auto simp: fd_ghost_count_vote_def unpark_vtr_def FD_GHOST_SUCCESS_def FD_GHOST_ERR_NOT_VOTED_def
      FD_GHOST_ERR_VOTE_TOO_OLD_def FD_GHOST_ERR_ALREADY_VOTED_def Let_def split: option.splits if_splits)

lemma count_vote_outcome:
  assumes "fd_ghost_count_vote g blk a stake slot = Some (rc, g')"
  shows "g' = g \<or> (rc = FD_GHOST_SUCCESS \<and> counts g a slot)"
  using assms by (auto simp: fd_ghost_count_vote_def counts_def not_less Let_def split: option.splits if_splits)

lemma step_ok:
  assumes "ghost_step g g'" "ghost_ok g"
  shows "ghost_ok g'"
  using assms
proof (cases rule: ghost_step.cases)
  case (insert parent_id bank_seq slot block_id i)
  then obtain p where p: "g_map g parent_id = Some p" by blast
  note g = insert_guards[OF insert(2)]
  show ?thesis using ghost_insert_ok[OF assms(2) conjunct1[OF g] p conjunct2[OF g], of bank_seq slot] insert(2)
    by (metis option.inject prod.inject)
next
  case (vote blk stake a slot rc)
  consider "g' = g" | "rc = FD_GHOST_SUCCESS" "counts g a slot" using count_vote_outcome[OF vote(3)] by blast
  thus ?thesis
  proof cases
    case 2
    have "g_vtrs g a = None \<longrightarrow> 0 < g_vtr_free g" using vote_room vote(3) 2(1) by blast
    from count_vote_counted[OF assms(2) vote(1) 2(2) this vote(2)] show ?thesis using vote(3) by auto
  qed (use assms(2) in simp)
next
  case (publish newr)
  thus ?thesis using publish_ok[OF assms(2) publish(1)] by auto
next
  case (eqvoc block_id)
  show ?thesis
  proof (cases "g_map g block_id")
    case (Some b)
    have "tree_ok g" using assms(2) by (simp add: ghost_ok_def)
    hence "g' = g\<lparr> g_pool := invalidate_all (subtree (live g) (par g) b) (g_pool g) \<rparr>"
      using eqvoc_result[OF _ Some] eqvoc by simp
    thus ?thesis using ghost_ok_marks[OF assms(2)] by (simp add: invalidate_all_def same_links_def)
  qed (use eqvoc assms(2) in \<open>simp add: fd_ghost_eqvoc_def\<close>)
next
  case (confirm block_id)
  show ?thesis
  proof (cases "g_map g block_id")
    case (Some b)
    then obtain pool where "mark_valid (Some b) (g_pool g) = Some pool" "g' = g\<lparr> g_pool := pool \<rparr>"
      using confirm by (auto simp: fd_ghost_confirm_def)
    thus ?thesis using ghost_ok_marks[OF assms(2)] mark_valid_links by metis
  qed (use confirm assms(2) in \<open>simp add: fd_ghost_confirm_def\<close>)
qed

lemma reach_ok: "ghost_reach g \<Longrightarrow> ghost_ok g"
proof (induction rule: ghost_reach.induct)
  case (init g bank_seq slot block_id i g')
  have "g_free g \<noteq> []" using init(5) by (auto simp: fd_ghost_init_def ghost_insert_def split: option.splits if_splits)
  thus ?case using init_ok[OF init(1-4), of bank_seq slot block_id] init(5) by (metis option.inject prod.inject)
next
  case (step g g')
  thus ?case using step_ok by blast
qed

section \<open>A small tree\<close>

definition ghost_empty :: fd_ghost where
  "ghost_empty = \<lparr> g_root = None, g_width = 0, g_pool = (\<lambda>i. \<lparr> blk_id = 0, blk_slot = 0, blk_parent = None, blk_child = None,
     blk_sibling = None, blk_stake = 0, blk_total_stake = 0, blk_valid = False, blk_bank_seq = 0 \<rparr>),
     g_free = [0, 1, 2, 3], g_map = Map.empty, g_vtrs = Map.empty, g_vtr_free = 4, g_dlists = (\<lambda>i. []) \<rparr>"

definition ghost_one :: fd_ghost where
  "ghost_one = snd (the (fd_ghost_init ghost_empty 1 10 101))"

lemma ghost_one_reach: "ghost_reach ghost_one"
proof (rule ghost_reach.init[of ghost_empty 1 10 101 0])
  show "fd_ghost_init ghost_empty 1 10 101 = Some (0, ghost_one)"
    by (simp add: ghost_one_def ghost_empty_def fd_ghost_init_def ghost_insert_def)
qed (simp_all add: ghost_empty_def)

definition ghost_two :: fd_ghost where
  "ghost_two = snd (the (fd_ghost_insert ghost_one 2 11 102 101))"

lemma ghost_one_map: "g_map ghost_one = [101 \<mapsto> 0]"
  by (simp add: ghost_one_def ghost_empty_def fd_ghost_init_def ghost_insert_def)

lemma ghost_two_run: "fd_ghost_insert ghost_one 2 11 102 101 = Some (1, ghost_two)"
  by (simp add: ghost_two_def fd_ghost_insert_def ghost_one_def ghost_empty_def fd_ghost_init_def ghost_insert_def)

lemma ghost_two_reach: "ghost_reach ghost_two"
  by (rule ghost_reach.step[OF ghost_one_reach ghost_step.insert[OF _ ghost_two_run]]) (simp add: ghost_one_map)

lemma ghost_two_map: "g_map ghost_two = [101 \<mapsto> 0, 102 \<mapsto> 1]"
  by (simp add: ghost_two_def fd_ghost_insert_def ghost_one_def ghost_empty_def fd_ghost_init_def ghost_insert_def)

lemma ghost_two_live: "live ghost_two = {0, 1}"
  by (simp add: live_def ghost_two_map insert_commute)

lemma ghost_two_fields: "g_root ghost_two = Some 0" "g_vtrs ghost_two = Map.empty" "g_vtr_free ghost_two = 4"
    "blk_slot (g_pool ghost_two 0) = 10" "blk_id (g_pool ghost_two 1) = 102"
  by (simp_all add: ghost_two_def fd_ghost_insert_def ghost_one_def ghost_empty_def fd_ghost_init_def ghost_insert_def)

section \<open>Properties\<close>

text \<open>
  C16: In every state the fork choice reaches, the blocks form one tree under the root, linked the same
  way by children, siblings and parents, every voter is parked on the block of the latest vote, and the
  stake of a block is the sum of the stakes whose latest vote is for it or a descendant.
\<close>

theorem ghost_invariant:
  assumes "ghost_reach g"
  shows "tree_ok g \<and> parked_ok g \<and> (\<forall>b \<in> live g. unat (blk_stake (g_pool g b)) = weight g b)"
  using reach_ok[OF assms] by (simp add: ghost_ok_def stakes_ok_def)

theorem ghost_invariant_witness:
  "live ghost_two = {0, 1}
   \<and> unat (blk_stake (g_pool ghost_two 0)) = weight ghost_two 0
   \<and> unat (blk_stake (g_pool ghost_two 1)) = weight ghost_two 1"
  using ghost_invariant[OF ghost_two_reach] ghost_two_live by blast

text \<open>
  C18: A vote newer than the voter's latest, not older than the root, is counted: no stake runs under or
  over, the voter's record becomes this vote, and the stakes again sum the latest votes.  Any other
  vote is refused with an error code and changes nothing.
\<close>

theorem ghost_vote_counted:
  assumes "ghost_reach g" "blk \<in> live g" "g_vtrs g a = None \<longrightarrow> 0 < g_vtr_free g"
    and "total_weight g + unat stake < 2 ^ 64"
  shows "\<exists>rc g'. fd_ghost_count_vote g blk a stake slot = Some (rc, g')
    \<and> (if counts g a slot
       then rc = FD_GHOST_SUCCESS \<and> (\<forall>b \<in> live g'. unat (blk_stake (g_pool g' b)) = weight g' b)
            \<and> g_vtrs g' = (g_vtrs g)(a \<mapsto> \<lparr> vtr_prev_stake = stake, vtr_prev_slot = slot, vtr_prev_block_id = blk_id (g_pool g blk) \<rparr>)
       else rc \<noteq> FD_GHOST_SUCCESS \<and> g' = g)"
proof (cases "counts g a slot")
  case True
  thus ?thesis using count_vote_counted[OF reach_ok[OF assms(1)] assms(2) True assms(3,4)]
    by (auto simp: ghost_ok_def stakes_ok_def)
next
  case False
  thus ?thesis using count_vote_ignored[OF reach_ok[OF assms(1)] False, of blk stake] by auto
qed

theorem ghost_vote_counted_witness:
  "\<exists>g'. fd_ghost_count_vote ghost_two 1 7 100 11 = Some (FD_GHOST_SUCCESS, g')
    \<and> g_vtrs g' = [7 \<mapsto> \<lparr> vtr_prev_stake = 100, vtr_prev_slot = 11, vtr_prev_block_id = 102 \<rparr>]"
proof -
  have "counts ghost_two 7 11" by (simp add: counts_def ghost_two_fields)
  moreover have "total_weight ghost_two = 0" by (simp add: total_weight_def ghost_two_fields)
  ultimately show ?thesis
    using ghost_vote_counted[OF ghost_two_reach, of 1 7 100 11]
    by (auto simp: ghost_two_live ghost_two_fields simp del: One_nat_def)
qed

text \<open>
  C22: Moving the root succeeds for any block of the tree, and keeps exactly the blocks of the subtree of
  the new root, with the weight they had.
\<close>

theorem ghost_publish_keeps_subtree:
  assumes "ghost_reach g" "newr \<in> live g"
  shows "\<exists>g'. fd_ghost_publish g newr = Some g' \<and> ghost_ok g' \<and> g_root g' = Some newr
    \<and> live g' = subtree (live g) (\<lambda>i. blk_parent (g_pool g i)) newr \<and> (\<forall>b \<in> live g'. weight g' b = weight g b)"
  by (rule publish_ok[OF reach_ok[OF assms(1)] assms(2)])

theorem ghost_publish_keeps_subtree_witness:
  "\<exists>g'. fd_ghost_publish ghost_two 1 = Some g' \<and> g_root g' = Some 1"
  using ghost_publish_keeps_subtree[OF ghost_two_reach, of 1] by (auto simp: ghost_two_live)

text \<open>
  C19: The fork choice ends in a block of the subtree it starts from, without valid children, and every
  block on the way is valid and has more stake than each valid sibling, or the same stake and a slot that
  is not higher.
\<close>

theorem ghost_best_greedy:
  assumes "ghost_reach g" "root \<in> live g"
  shows "\<exists>b. fd_ghost_best g root = Some b \<and> greedy g root b"
  using best_ok assms(2) reach_ok[OF assms(1)] by (simp add: ghost_ok_def)

theorem ghost_best_greedy_witness: "\<exists>b. fd_ghost_best ghost_two 0 = Some b \<and> greedy ghost_two 0 b"
  by (rule ghost_best_greedy[OF ghost_two_reach]) (simp add: ghost_two_live)

text \<open>
  C24: The constant space walk that marks a fork invalid ends, and clears the mark of exactly the blocks
  of the subtree.
\<close>

theorem ghost_eqvoc_marks_subtree:
  assumes "ghost_reach g" "g_map g block_id = Some b"
  shows "\<exists>g'. fd_ghost_eqvoc g block_id = Some g' \<and> live g' = live g
    \<and> (\<forall>j \<in> live g. blk_valid (g_pool g' j) \<longleftrightarrow>
         blk_valid (g_pool g j) \<and> j \<notin> subtree (live g) (\<lambda>i. blk_parent (g_pool g i)) b)"
proof -
  have "tree_ok g" using reach_ok[OF assms(1)] by (simp add: ghost_ok_def)
  from eqvoc_result[OF this assms(2)] show ?thesis by (auto simp: invalidate_all_def live_def)
qed

theorem ghost_eqvoc_marks_subtree_witness:
  "\<exists>g'. fd_ghost_eqvoc ghost_two 102 = Some g' \<and> \<not> blk_valid (g_pool g' 1)"
proof -
  have "1 \<in> subtree (live ghost_two) (\<lambda>i. blk_parent (g_pool ghost_two i)) 1"
    by (simp add: subtree_def ghost_two_live)
  thus ?thesis using ghost_eqvoc_marks_subtree[OF ghost_two_reach, of 102 1]
    by (auto simp: ghost_two_map ghost_two_live)
qed

text \<open>
  Confirming a block marks it and all its ancestors valid, and nothing else, provided that valid
  blocks have valid ancestors.
\<close>

theorem ghost_confirm_marks_ancestors:
  assumes "ghost_reach g" "valid_closed g" "g_map g block_id = Some b"
  shows "\<exists>g'. fd_ghost_confirm g block_id = Some g'
    \<and> (\<forall>j. blk_valid (g_pool g' j) \<longleftrightarrow> blk_valid (g_pool g j) \<or> beneath (\<lambda>i. blk_parent (g_pool g i)) j b)"
proof -
  have "tree_ok g" using reach_ok[OF assms(1)] by (simp add: ghost_ok_def)
  from confirm_result[OF this assms(2,3)] show ?thesis by (auto simp: validate_all_def)
qed

theorem ghost_confirm_marks_ancestors_witness:
  "\<exists>g'. fd_ghost_confirm ghost_two 102 = Some g' \<and> blk_valid (g_pool g' 1)"
proof -
  have "blk_valid (g_pool ghost_two 0)" "blk_parent (g_pool ghost_two 1) = Some 0" "blk_parent (g_pool ghost_two 0) = None"
    by (simp_all add: ghost_two_def fd_ghost_insert_def ghost_one_def ghost_empty_def fd_ghost_init_def ghost_insert_def)
  hence "valid_closed ghost_two" by (auto simp: valid_closed_def ghost_two_live)
  thus ?thesis using ghost_confirm_marks_ancestors[OF ghost_two_reach, of 102 1] by (auto simp: ghost_two_map)
qed

text \<open>
  C39: Confirming a block right after it was inserted changes nothing: an inserted block is valid whatever
  its parent is, and the walk stops at the first valid block, so an invalid ancestor stays invalid.
\<close>

theorem ghost_confirm_after_insert:
  assumes "fd_ghost_insert g bank_seq slot block_id parent_id = Some (i, g')"
  shows "fd_ghost_confirm g' block_id = Some g'"
proof -
  have "g_map g' block_id = Some i \<and> blk_valid (g_pool g' i)" by (rule inserted_valid[OF assms])
  thus ?thesis by (simp add: fd_ghost_confirm_def mark_valid.simps)
qed

theorem ghost_confirm_after_insert_witness: "fd_ghost_confirm ghost_two 102 = Some ghost_two"
  by (rule ghost_confirm_after_insert[OF ghost_two_run])

end
