(* ===== verification/Tower_Theorems.thy ===== *)
theory Tower_Theorems
  imports Tower_Total Tower_Reconcile Tower_Lockos Ghost_Theorems
begin

text \<open>
  The theorems on the voting rules.
\<close>

section \<open>The tower as a state machine\<close>

text \<open>
  What the tile does with its tower: it replays a block, lets the rules decide, removes the slots below a
  new root, reconciles with its vote account, and records what it learns about blocks and voters.
\<close>

inductive tower_step :: "fd_tower \<Rightarrow> fd_tower \<Rightarrow> bool" where
  replay: "fd_tower_blocks_insert t slot parent_slot = Some t' \<Longrightarrow> slot \<noteq> ULONG_MAX
    \<Longrightarrow> parent_slot < slot \<or> parent_slot = ULONG_MAX \<Longrightarrow> tower_step t t'"
| decide: "fd_tower_vote_and_reset t g out = Some (flags, out', t', g') \<Longrightarrow> tree_ok g
    \<Longrightarrow> \<forall>i \<in> live g. unat (blk_slot (g_pool g i)) < 2 ^ 63 \<Longrightarrow> tower_step t t'"
| publish: "clear_slots (t_root t) new_root t = Some t' \<Longrightarrow> \<forall>v \<in> set (t_votes t). new_root \<le> vote_slot v
    \<Longrightarrow> tower_step t (t'\<lparr> t_root := new_root \<rparr>)"
| reconcile: "fd_tower_reconcile t votes onchain_root = Some t' \<Longrightarrow> votes_ok votes \<Longrightarrow> on_fork (t_blocks t) votes
    \<Longrightarrow> \<forall>v \<in> set (adopted t votes onchain_root). newest_root t onchain_root \<le> vote_slot v \<Longrightarrow> tower_step t t'"
| observe: "t_votes t' = t_votes t \<Longrightarrow> slot_par (t_blocks t') = slot_par (t_blocks t) \<Longrightarrow> blocks_ok (t_blocks t')
    \<Longrightarrow> tower_step t t'"

inductive tower_reach :: "fd_tower \<Rightarrow> bool" where
  boot: "t_votes t = [] \<Longrightarrow> t_blocks t = Map.empty \<Longrightarrow> tower_reach t"
| step: "tower_reach t \<Longrightarrow> tower_step t t' \<Longrightarrow> tower_reach t'"

lemma descends_extend:
  assumes "descends blocks a s" "\<And>s b. blocks s = Some b \<Longrightarrow> blocks' s = Some b"
  shows "descends blocks' a s"
proof -
  have "slot_par blocks x = Some p \<Longrightarrow> slot_par blocks' x = Some p" for x p
    using assms(2) by (auto simp: slot_par_def)
  hence up: "up (slot_par blocks) \<subseteq> up (slot_par blocks')" by (auto simp: up_def)
  thus ?thesis using assms(1) rtrancl_mono[OF up] unfolding descends_def beneath_def by (auto simp: up_def)
qed

lemma blocks_insert_ok:
  assumes "fd_tower_blocks_insert t slot parent_slot = Some t'" "slot \<noteq> ULONG_MAX"
    and "parent_slot < slot \<or> parent_slot = ULONG_MAX" "tower_ok t"
  shows "tower_ok t'"
proof -
  have new: "t_blocks t slot = None" and votes: "t_votes t' = t_votes t"
      and blocks: "\<exists>b. t_blocks t' = (t_blocks t)(slot \<mapsto> b) \<and> tb_slot b = slot \<and> tb_parent_slot b = parent_slot"
    using assms(1) by (auto simp: fd_tower_blocks_insert_def split: if_splits)
  then obtain b where b: "t_blocks t' = (t_blocks t)(slot \<mapsto> b)" "tb_slot b = slot" "tb_parent_slot b = parent_slot" by blast
  have "descends (t_blocks t') a s" if "descends (t_blocks t) a s" for a s
    using that by (rule descends_extend) (use new b(1) in auto)
  hence "on_fork (t_blocks t') (t_votes t)"
    using assms(4) unfolding tower_ok_def on_fork_def by (auto elim: sorted_wrt_mono_rel[rotated])
  moreover have "blocks_ok (t_blocks t')" using assms(2-4) b by (auto simp: tower_ok_def blocks_ok_def)
  ultimately show ?thesis using assms(4) votes by (simp add: tower_ok_def)
qed

lemma decide_ok:
  assumes "fd_tower_vote_and_reset t g out = Some (flags, out', t', g')" "tree_ok g"
    and "\<forall>i \<in> live g. unat (blk_slot (g_pool g i)) < 2 ^ 63" "tower_ok t"
  shows "tower_ok t'"
    "abstains t out' t' \<or> (votes_for t (out_vote_slot out') out' t' \<and> unat (out_vote_slot out') < 2 ^ 63)"
proof -
  obtain r best where best: "g_root g = Some r" "fd_ghost_best g r = Some best" "best \<in> live g"
    using best_live[OF assms(2)] by blast
  have slot: "unat (blk_slot (g_pool g best)) < 2 ^ 63" using assms(3) best(3) by blast
  note cases = vote_and_reset_cases[OF assms(1) best(1,2)]
  show "tower_ok t'" using cases
  proof
    assume "abstains t out' t'"
    thus ?thesis using assms(4) by (simp add: tower_ok_def abstains_def)
  qed (rule votes_for_ok(1)[OF assms(4) _ slot])
  show "abstains t out' t' \<or> (votes_for t (out_vote_slot out') out' t' \<and> unat (out_vote_slot out') < 2 ^ 63)"
    using cases slot by (auto simp: votes_for_def)
qed

lemma tower_step_ok: "tower_step t t' \<Longrightarrow> tower_ok t \<Longrightarrow> tower_ok t'"
proof (induction rule: tower_step.induct)
  case (replay t slot parent_slot t')
  show ?case by (rule blocks_insert_ok[OF replay.hyps replay.prems])
next
  case (decide t g out flags out' t' g')
  show ?case by (rule decide_ok(1)[OF decide.hyps decide.prems])
next
  case (publish t new_root t')
  have "tower_ok t'" by (rule clear_slots_ok[OF publish.prems publish.hyps])
  thus ?case by (simp add: tower_ok_def)
next
  case (reconcile t votes onchain_root t')
  show ?case by (rule reconcile_ok[OF reconcile.hyps(1) reconcile.prems reconcile.hyps(2-)])
next
  case (observe t' t)
  thus ?case using on_fork_cong[OF observe.hyps(2)] by (simp add: tower_ok_def)
qed

lemma tower_reach_ok: "tower_reach t \<Longrightarrow> tower_ok t"
proof (induction rule: tower_reach.induct)
  case (boot t)
  thus ?case by (simp add: tower_ok_def votes_ok_def blocks_ok_def on_fork_def FD_TOWER_VOTE_MAX_def)
next
  case (step t t')
  show ?case by (rule tower_step_ok[OF step.hyps(2) step.IH])
qed

section \<open>The threshold\<close>

definition supports :: "u64 \<Rightarrow> u64 \<Rightarrow> fd_tower_vtr \<Rightarrow> bool" where
  "supports slot threshold_slot acct \<longleftrightarrow> simulate_vote (tv_votes acct) slot \<noteq> 0
     \<and> threshold_slot \<le> vote_slot (tv_votes acct ! (simulate_vote (tv_votes acct) slot - 1))"

lemma threshold_stake_sum:
  assumes "unat acc + (\<Sum>a \<leftarrow> accts. unat (tv_stake a)) < 2 ^ 64"
  shows "unat (threshold_stake accts slot th acc) = unat acc + (\<Sum>a \<leftarrow> filter (supports slot th) accts. unat (tv_stake a))"
  using assms
proof (induction accts arbitrary: acc)
  case (Cons a accts)
  have "unat (acc + tv_stake a) = unat acc + unat (tv_stake a)" using Cons.prems by (subst unat_add64) simp_all
  thus ?case using Cons.IH[of acc] Cons.IH[of "acc + tv_stake a"] Cons.prems by (simp add: supports_def Let_def)
qed simp

lemma THRESHOLD_RATIO_fl: "THRESHOLD_RATIO = Dbl (fl (2 / 3))"
  by (simp add: THRESHOLD_RATIO_def)

text \<open>The ratio test on words, in natural numbers.\<close>

lemma two_thirds_sound:
  assumes "ratio_above s t THRESHOLD_RATIO" "t \<noteq> 0"
  shows "2 * unat t * (2 ^ 53 - 1) < 3 * unat s * (2 ^ 53 + 1)"
proof -
  have "2 / 3 * rat_of_ulong t * (2 ^ 53 - 1) < rat_of_ulong s * (2 ^ 53 + 1)"
    using ratio_above_sound assms unfolding THRESHOLD_RATIO_fl rat_of_ulong_def by blast
  hence "rat_of_nat (2 * unat t * (2 ^ 53 - 1)) < rat_of_nat (3 * unat s * (2 ^ 53 + 1))"
    unfolding rat_of_ulong_def by (simp add: of_nat_diff field_simps del: of_nat_unat)
  thus ?thesis by (simp only: of_nat_less_iff)
qed

lemma two_thirds_complete:
  assumes "2 * unat t * (2 ^ 53 + 1) ^ 2 < 3 * unat s * (2 ^ 53 - 1) ^ 2" "t \<noteq> 0"
  shows "ratio_above s t THRESHOLD_RATIO"
proof -
  have "rat_of_nat (2 * unat t * (2 ^ 53 + 1) ^ 2) < rat_of_nat (3 * unat s * (2 ^ 53 - 1) ^ 2)"
    using assms(1) by (simp only: of_nat_less_iff)
  hence "2 / 3 * rat_of_ulong t * (2 ^ 53 + 1) ^ 2 < rat_of_ulong s * (2 ^ 53 - 1) ^ 2"
    unfolding rat_of_ulong_def by (simp add: of_nat_diff field_simps del: of_nat_unat)
  thus ?thesis unfolding THRESHOLD_RATIO_fl by (rule ratio_above_complete[OF _ assms(2)]) simp
qed

section \<open>A small tower\<close>

definition tower_boot :: fd_tower where
  "tower_boot = \<lparr> t_votes = [], t_root = 5, t_blocks = Map.empty, t_blk_free = 8, t_vtrs = [], t_lck = (\<lambda>k. []), t_lck_free = 64,
     t_stk_map = Map.empty, t_stk_pool = (\<lambda>i. \<lparr> sv_addr = 0, sv_slot = 0, sv_prev = None, sv_stake = 0 \<rparr>), t_stk_free = [0, 1, 2, 3],
     t_stk_slot = Map.empty, t_used_acc = {} \<rparr>"

definition out_null :: fd_tower_out where
  "out_null = \<lparr> out_reset_slot = 0, out_reset_block_id = 0, out_vote_slot = 0, out_vote_block_id = 0, out_vote_bank_hash = 0,
     out_root_slot = 0, out_root_block_id = 0 \<rparr>"

definition tower_10 :: fd_tower where
  "tower_10 = the (fd_tower_blocks_insert tower_boot 10 ULONG_MAX)"

definition tower_11 :: fd_tower where
  "tower_11 = the (fd_tower_blocks_insert tower_10 11 10)"

text \<open>The tower after a vote for slot 10, and the decision that follows when slot 11 is there.\<close>

definition decision_10 :: "u8 \<times> fd_tower_out \<times> fd_tower \<times> fd_ghost" where
  "decision_10 = the (fd_tower_vote_and_reset tower_11 ghost_one out_null)"

definition voted_10 :: fd_tower where
  "voted_10 = fst (snd (snd decision_10))"

lemma tower_10_run: "fd_tower_blocks_insert tower_boot 10 ULONG_MAX = Some tower_10"
  by (simp add: fd_tower_blocks_insert_def tower_boot_def tower_10_def)

lemma tower_11_run: "fd_tower_blocks_insert tower_10 11 10 = Some tower_11"
  by (simp add: fd_tower_blocks_insert_def tower_boot_def tower_10_def tower_11_def)

lemma tower_11_reach: "tower_reach tower_11"
proof -
  have "tower_reach tower_boot" by (rule tower_reach.boot) (simp_all add: tower_boot_def)
  hence "tower_reach tower_10" by (rule tower_reach.step[OF _ tower_step.replay[OF tower_10_run]]) simp_all
  thus ?thesis by (rule tower_reach.step[OF _ tower_step.replay[OF tower_11_run]]) simp_all
qed

lemma ghosts_ok: "tree_ok ghost_one" "tree_ok ghost_two"
  using reach_ok[OF ghost_one_reach] reach_ok[OF ghost_two_reach] by (simp_all add: ghost_ok_def)

lemma ghosts_slots:
  "\<forall>i \<in> live ghost_one. unat (blk_slot (g_pool ghost_one i)) < 2 ^ 63"
  "\<forall>i \<in> live ghost_two. unat (blk_slot (g_pool ghost_two i)) < 2 ^ 63"
  by (simp_all add: live_def ghost_one_map ghost_two_map ghost_two_def fd_ghost_insert_def ghost_one_def ghost_empty_def
      fd_ghost_init_def ghost_insert_def)

lemma decision_10_run: "\<exists>f out g. fd_tower_vote_and_reset tower_11 ghost_one out_null = Some (f, out, voted_10, g)"
proof -
  have "fd_tower_vote_and_reset tower_11 ghost_one out_null \<noteq> None" by code_simp
  thus ?thesis by (cases decision_10) (auto simp: voted_10_def decision_10_def)
qed

lemma voted_10_reach: "tower_reach voted_10"
  using decision_10_run tower_reach.step[OF tower_11_reach] tower_step.decide ghosts_ok(1) ghosts_slots(1) by blast

section \<open>Properties\<close>

text \<open>
  C7: In every state the tower reaches by replaying blocks, deciding, publishing roots and reconciling with
  its account, its votes lie on one fork: each is for a proper ancestor of the next, and the tower is well
  formed.
\<close>

theorem tower_votes_on_one_fork:
  assumes "tower_reach t"
  shows "votes_ok (t_votes t) \<and> sorted_wrt (\<lambda>v w. descends (t_blocks t) (vote_slot v) (vote_slot w)) (t_votes t)"
  using tower_reach_ok[OF assms] by (simp add: tower_ok_def on_fork_def)

theorem tower_votes_on_one_fork_witness: "votes_ok (t_votes voted_10) \<and> map vote_slot (t_votes voted_10) = [10]"
proof -
  have "map vote_slot (t_votes voted_10) = [10]" by code_simp
  thus ?thesis using tower_votes_on_one_fork[OF voted_10_reach] by blast
qed

text \<open>
  C6: A vote respects every lockout.  When the rules cast a vote, its slot is newer than every vote on the
  tower and descends from each that has not expired at that slot; and on a tower with votes the vote has
  passed the threshold and propagation checks.  Otherwise the votes do not change.
\<close>

theorem tower_vote_respects_lockouts:
  assumes "tower_reach t" "fd_tower_vote_and_reset t g out = Some (flags, out', t', g')" "tree_ok g"
    and "\<forall>i \<in> live g. unat (blk_slot (g_pool g i)) < 2 ^ 63"
  shows "(out_vote_slot out' = ULONG_MAX \<and> t_votes t' = t_votes t)
    \<or> ((\<forall>v \<in> set (t_votes t). vote_slot v < out_vote_slot out'
          \<and> (out_vote_slot out' \<le> expiration_slot v \<longrightarrow> descends (t_blocks t) (vote_slot v) (out_vote_slot out')))
       \<and> vote_slot (last (t_votes t')) = out_vote_slot out'
       \<and> (t_votes t \<noteq> [] \<longrightarrow> propagated_check t (out_vote_slot out') = Some True
          \<and> (\<exists>b \<in> live g. blk_slot (g_pool g b) = out_vote_slot out'
               \<and> threshold_check t (t_vtrs t) (blk_total_stake (g_pool g b)) (out_vote_slot out'))))"
proof -
  obtain r best where best: "g_root g = Some r" "fd_ghost_best g r = Some best" "best \<in> live g"
    using best_live[OF assms(3)] by blast
  note ok = tower_reach_ok[OF assms(1)]
  have slot: "unat (blk_slot (g_pool g best)) < 2 ^ 63" using assms(4) best(3) by blast
  show ?thesis
  proof (cases "abstains t out' t'")
    case True
    thus ?thesis by (simp add: abstains_def)
  next
    case False
    hence v: "votes_for t (blk_slot (g_pool g best)) out' t'" using vote_and_reset_cases[OF assms(2) best(1,2)] by blast
    hence s: "out_vote_slot out' = blk_slot (g_pool g best)" by (simp add: votes_for_def)
    have "t_votes t \<noteq> [] \<longrightarrow> propagated_check t (out_vote_slot out') = Some True
        \<and> threshold_check t (t_vtrs t) (blk_total_stake (g_pool g best)) (out_vote_slot out')"
      using vote_and_reset_checked[OF assms(2) best(1,2)] False s by simp
    thus ?thesis using votes_for_ok(2-4)[OF ok v slot] best(3) s by auto
  qed
qed

theorem tower_vote_respects_lockouts_witness:
  "\<exists>flags out' t' g'. fd_tower_vote_and_reset voted_10 ghost_two out_null = Some (flags, out', t', g')
    \<and> out_vote_slot out' = 11 \<and> descends (t_blocks voted_10) 10 11"
proof -
  have "map_option (\<lambda>(f, out, t, g). out_vote_slot out) (fd_tower_vote_and_reset voted_10 ghost_two out_null) = Some 11"
    by code_simp
  then obtain f out' t' g' where run: "fd_tower_vote_and_reset voted_10 ghost_two out_null = Some (f, out', t', g')"
      and slot: "out_vote_slot out' = 11" by auto
  have votes: "t_votes voted_10 = [\<lparr> vote_slot = 10, vote_conf = 1 \<rparr>]" by code_simp
  have "11 \<le> expiration_slot \<lparr> vote_slot = 10, vote_conf = 1 \<rparr>" by code_simp
  thus ?thesis using tower_vote_respects_lockouts[OF voted_10_reach run ghosts_ok(2) ghosts_slots(2)] run slot votes by auto
qed

text \<open>
  C8: The rules always decide.  With a tower and a fork choice in step, \<open>fd_tower_vote_and_reset\<close> returns:
  no assertion fails, no missing block is read and every loop ends.  It leaves the fork choice as it was
  and names a block of it to build on.
\<close>

theorem tower_decides:
  assumes "in_step t g"
  shows "\<exists>flags out' t'. fd_tower_vote_and_reset t g out = Some (flags, out', t', g)
    \<and> (\<exists>i \<in> live g. out_reset_slot out' = blk_slot (g_pool g i) \<and> out_reset_block_id out' = blk_id (g_pool g i))"
  by (rule vote_and_reset_ends[OF assms])

text \<open>The decision changes the blocks and the votes only.\<close>

lemma voted_10_frame: "\<exists>blocks votes. voted_10 = tower_11\<lparr> t_blocks := blocks, t_votes := votes \<rparr>"
proof -
  obtain f out g where run: "fd_tower_vote_and_reset tower_11 ghost_one out_null = Some (f, out, voted_10, g)"
    using decision_10_run by blast
  have none: "t_votes tower_11 = []" by code_simp
  have "v = tower_11 \<or> (\<exists>blocks votes. v = tower_11\<lparr> t_blocks := blocks, t_votes := votes \<rparr>)"
    if "fd_tower_vote_and_reset tower_11 ghost_one out_null = Some (f, out, v, g)" for v
    using that none
    by (auto simp: fd_tower_vote_and_reset_def first_vote_def mark_voted_def push_vote_on_def Let_def bind_eq_Some_conv
        split: if_splits)
  moreover have "tower_11 = tower_11\<lparr> t_blocks := t_blocks tower_11, t_votes := t_votes tower_11 \<rparr>" by simp
  ultimately show ?thesis using run by metis
qed

lemma voted_10_fields:
  "t_votes voted_10 = [\<lparr> vote_slot = 10, vote_conf = 1 \<rparr>]" "t_used_acc voted_10 = {}"
  "map_option tb_voted_block_id (t_blocks voted_10 10) = Some 101" "t_blocks voted_10 11 \<noteq> None"
  "t_lck voted_10 = (\<lambda>k. [])" "t_lck_free voted_10 = 64" "t_stk_map voted_10 = Map.empty" "t_stk_free voted_10 = [0, 1, 2, 3]"
  "t_blk_free voted_10 = 6" "t_blocks voted_10 12 = None"
proof -
  show "t_votes voted_10 = [\<lparr> vote_slot = 10, vote_conf = 1 \<rparr>]" by code_simp
  show "map_option tb_voted_block_id (t_blocks voted_10 10) = Some 101" by code_simp
  show "t_blocks voted_10 11 \<noteq> None" "t_blocks voted_10 12 = None" by code_simp+
  obtain blocks votes where "voted_10 = tower_11\<lparr> t_blocks := blocks, t_votes := votes \<rparr>" using voted_10_frame by blast
  note this [simp]
  show "t_used_acc voted_10 = {}" "t_lck voted_10 = (\<lambda>k. [])" "t_lck_free voted_10 = 64" "t_stk_map voted_10 = Map.empty"
      "t_stk_free voted_10 = [0, 1, 2, 3]" "t_blk_free voted_10 = 6"
    by (simp_all add: tower_11_def tower_10_def tower_boot_def fd_tower_blocks_insert_def)
qed

lemma voted_10_in_step: "in_step voted_10 ghost_two"
proof -
  have ok: "tower_ok voted_10" by (rule tower_reach_ok[OF voted_10_reach])
  obtain b where b: "t_blocks voted_10 10 = Some b" "tb_voted_block_id b = 101" using voted_10_fields(3) by auto
  have slots: "blk_slot (g_pool ghost_two 0) = 10" "blk_slot (g_pool ghost_two (Suc 0)) = 11" by code_simp+
  have "tracked voted_10 ghost_two" using b voted_10_fields(4) by (auto simp: tracked_def ghost_two_live slots)
  moreover have "switch_voters voted_10 ghost_two last_vote slot = {}" for last_vote slot
    by (simp add: switch_voters_def voted_10_fields(5))
  ultimately show ?thesis using ok ghosts_ok(2) ghosts_slots(2) b
    by (simp add: in_step_def voted_10_fields(1,2) ghost_two_map stakes_of_def dom_def)
qed

theorem tower_decides_witness:
  "\<exists>flags out' t'. fd_tower_vote_and_reset voted_10 ghost_two out_null = Some (flags, out', t', ghost_two)"
  using tower_decides[OF voted_10_in_step, of out_null] by blast

text \<open>
  C9: The switch check is exact.  It passes exactly when the voters whose votes lock them out on other
  forks hold more than the switch ratio of the stake: the order of the walk over the tree, the early
  return and the set of counted voters make no difference, and tower and fork choice are left as they
  were, although the walk takes blocks out of the map of the fork choice and puts them back.
\<close>

theorem tower_switch_exact:
  assumes "tree_ok g" "blocks_ok (t_blocks t)" "tracked t g" "t_used_acc t = {}" "vote_slot (last (t_votes t)) \<in> dom (t_blocks t)"
    and "stakes_of t (switch_voters t g (vote_slot (last (t_votes t))) slot) < 2 ^ 64"
  shows "switch_check t g tot slot
    = Some (ratio_above (word_of_nat (stakes_of t (switch_voters t g (vote_slot (last (t_votes t))) slot))) tot SWITCH_RATIO, t, g)"
  by (rule switch_check_exact[OF assms])

text \<open>Slots 11 and 12 fork at slot 10, the last vote is for slot 11, and a voter with half the stake voted for 12.\<close>

definition ghost_fork :: fd_ghost where
  "ghost_fork = snd (the (fd_ghost_insert ghost_two 3 12 103 101))"

definition tower_fork :: fd_tower where
  "tower_fork = (the (fd_tower_lockos_insert (snd (the (fd_tower_stakes_insert (the (fd_tower_blocks_insert voted_10 12 10)) 12 7 500 None)))
     12 7 [\<lparr> vote_slot = 12, vote_conf = 1 \<rparr>]))\<lparr> t_votes := [\<lparr> vote_slot = 10, vote_conf = 2 \<rparr>, \<lparr> vote_slot = 11, vote_conf = 1 \<rparr>] \<rparr>"

lemma ghost_fork_run: "fd_ghost_insert ghost_two 3 12 103 101 = Some (2, ghost_fork)"
proof -
  have "map_option fst (fd_ghost_insert ghost_two 3 12 103 101) = Some 2" by code_simp
  thus ?thesis by (auto simp: ghost_fork_def)
qed

lemma ghost_fork_ok: "tree_ok ghost_fork" "live ghost_fork = {0, 1, 2}"
proof -
  have "ghost_ok ghost_fork \<and> live ghost_fork = insert 2 (live ghost_two)"
    by (rule ghost_insert_ok[OF reach_ok[OF ghost_two_reach], of 103 101 0 3 12])
      (use insert_guards[OF ghost_fork_run] ghost_fork_run in \<open>auto simp: ghost_two_map\<close>)
  thus "tree_ok ghost_fork" "live ghost_fork = {0, 1, 2}" by (auto simp: ghost_ok_def ghost_two_live)
qed

lemma tower_fork_blocks:
  "t_blocks tower_fork = t_blocks (the (fd_tower_blocks_insert voted_10 12 10))"
  "t_used_acc tower_fork = {}" "t_stk_map tower_fork = [(7, 12) \<mapsto> 0]" "sv_stake (t_stk_pool tower_fork 0) = 500"
  by (simp_all add: tower_fork_def fd_tower_lockos_insert.simps lck_insert_def fd_tower_stakes_insert_def fd_tower_blocks_insert_def
      voted_10_fields Let_def)

lemma tower_fork_known: "blocks_ok (t_blocks tower_fork)" "tracked tower_fork ghost_fork"
proof -
  have "fd_tower_blocks_insert voted_10 12 10 \<noteq> None" by code_simp
  then obtain t where run: "fd_tower_blocks_insert voted_10 12 10 = Some t" by blast
  have "tower_ok t" by (rule blocks_insert_ok[OF run _ _ tower_reach_ok[OF voted_10_reach]]) simp_all
  thus "blocks_ok (t_blocks tower_fork)" using run by (simp add: tower_fork_blocks tower_ok_def)
  have "t_blocks tower_fork 10 \<noteq> None" "t_blocks tower_fork 11 \<noteq> None" "t_blocks tower_fork 12 \<noteq> None" by code_simp+
  moreover have "map (\<lambda>i. blk_slot (g_pool ghost_fork i)) [0, 1, 2] = [10, 11, 12]" by code_simp
  ultimately show "tracked tower_fork ghost_fork" by (auto simp: tracked_def ghost_fork_ok(2))
qed

theorem tower_switch_exact_witness: "switch_check tower_fork ghost_fork 1000 12 = Some (True, tower_fork, ghost_fork)"
proof -
  have pass: "map_option fst (switch_check tower_fork ghost_fork 1000 12) = Some True" by code_simp
  let ?last = "vote_slot (last (t_votes tower_fork))"
  have "switch_voters tower_fork ghost_fork ?last 12 \<subseteq> {0}" by (auto simp: switch_voters_def tower_fork_blocks split: if_splits)
  hence "stakes_of tower_fork (switch_voters tower_fork ghost_fork ?last 12) \<le> stakes_of tower_fork {0}" by (intro stakes_of_mono) simp
  hence sum: "stakes_of tower_fork (switch_voters tower_fork ghost_fork ?last 12) < 2 ^ 64" by (simp add: stakes_of_def tower_fork_blocks)
  have "t_blocks tower_fork ?last \<noteq> None" by code_simp
  hence "?last \<in> dom (t_blocks tower_fork)" by blast
  from tower_switch_exact[OF ghost_fork_ok(1) tower_fork_known tower_fork_blocks(2) this sum, of 1000] pass
  show ?thesis by simp
qed

text \<open>
  C26: The threshold check is a two thirds majority up to the rounding of the doubles it computes with.  When
  it passes on a tower with a vote at the threshold depth left, the voters that support that vote hold
  more than two thirds of the stake, up to two parts in \<open>2 ^ 53\<close>; when they hold more than two thirds by a
  margin of four parts in \<open>2 ^ 53\<close>, it passes.
\<close>

theorem tower_threshold_majority:
  fixes t accts tot slot
  defines "cnt \<equiv> simulate_vote (t_votes t) slot"
  defines "backing \<equiv> (\<Sum>a \<leftarrow> filter (supports slot (vote_slot (t_votes t ! (cnt - THRESHOLD_DEPTH)))) accts. unat (tv_stake a))"
  assumes "THRESHOLD_DEPTH \<le> cnt" "(\<Sum>a \<leftarrow> accts. unat (tv_stake a)) < 2 ^ 64" "tot \<noteq> 0"
  shows "(threshold_check t accts tot slot \<longrightarrow> 2 * unat tot * (2 ^ 53 - 1) < 3 * backing * (2 ^ 53 + 1))
    \<and> (2 * unat tot * (2 ^ 53 + 1) ^ 2 < 3 * backing * (2 ^ 53 - 1) ^ 2 \<longrightarrow> threshold_check t accts tot slot)"
proof -
  let ?s = "threshold_stake accts slot (vote_slot (t_votes t ! (cnt - THRESHOLD_DEPTH))) 0"
  have "unat ?s = backing" using assms(4) by (simp add: threshold_stake_sum backing_def)
  moreover have "threshold_check t accts tot slot \<longleftrightarrow> ratio_above ?s tot THRESHOLD_RATIO"
    using assms(3) by (simp add: threshold_check_def cnt_def Let_def)
  ultimately show ?thesis using two_thirds_sound[of ?s tot] two_thirds_complete[of tot ?s] assms(5) by metis
qed

definition tower_8 :: fd_tower where
  "tower_8 = tower_boot\<lparr> t_votes := map (\<lambda>i. \<lparr> vote_slot = word_of_nat (10 + i), vote_conf = word_of_nat (8 - i) \<rparr>) [0..<8] \<rparr>"

definition accts_8 :: "fd_tower_vtr list" where
  "accts_8 = [\<lparr> tv_vote_acc = 1, tv_stake = 70, tv_votes = t_votes tower_8, tv_root = 5 \<rparr>,
              \<lparr> tv_vote_acc = 2, tv_stake = 30, tv_votes = [], tv_root = 5 \<rparr>]"

theorem tower_threshold_majority_witness: "threshold_check tower_8 accts_8 100 18"
proof -
  have cnt: "simulate_vote (t_votes tower_8) 18 = 8" by code_simp
  have "supports 18 10 (accts_8 ! 0) \<and> \<not> supports 18 10 (accts_8 ! 1)" by code_simp
  hence "filter (supports 18 10) accts_8 = [accts_8 ! 0]" by (simp add: accts_8_def)
  moreover have "vote_slot (t_votes tower_8 ! 0) = 10" "tv_stake (accts_8 ! 0) = 70" by code_simp+
  moreover have "(\<Sum>a \<leftarrow> accts_8. unat (tv_stake a)) < 2 ^ 64" by (simp add: accts_8_def)
  ultimately show ?thesis using tower_threshold_majority[of tower_8 18 accts_8 100] by (simp add: cnt THRESHOLD_DEPTH_def)
qed

text \<open>
  The lowest common ancestor of two known slots is found: the walk ends, and its result is the common
  ancestor, the slots themselves included, that every other common ancestor is an ancestor of, or the null
  slot when there is none.
\<close>

theorem tower_lowest_common_ancestor:
  assumes "blocks_ok (t_blocks t)" "s \<in> dom (t_blocks t)" "s' \<in> dom (t_blocks t)"
  shows "\<exists>l. fd_tower_blocks_lowest_common_ancestor t s s' = Some l \<and> lowest_common (t_blocks t) s s' l"
  by (rule lowest_common_ancestor_ok[OF assms])

theorem tower_lowest_common_ancestor_witness: "lowest_common (t_blocks voted_10) 11 10 10"
proof -
  have "fd_tower_blocks_lowest_common_ancestor voted_10 11 10 = Some 10" by code_simp
  moreover have "blocks_ok (t_blocks voted_10)" using voted_10_in_step by (simp add: in_step_def tower_ok_def)
  moreover have "10 \<in> dom (t_blocks voted_10)" "11 \<in> dom (t_blocks voted_10)" using voted_10_fields(3,4) by auto
  ultimately show ?thesis using tower_lowest_common_ancestor[of voted_10 11 10] by auto
qed

text \<open>
  C28: Reconciliation with a vote account that is consistent with the local blocks succeeds.  When the
  account has no vote newer than the last local one the tower does not change.  Otherwise the tower takes
  the newer of the two roots and exactly the account's votes above it, each on a known block marked as voted
  for; a local vote that is not among them loses its mark, and the blocks from the old root up to the new one
  and no others are forgotten.  The account is consistent when its votes rise in slot, lie above its own
  root and, above the local root, are for known blocks.  The local root is set, the local votes are for known
  blocks, and the stakes of each slot are a chain with an entry in the map for each element.
\<close>

theorem tower_reconcile_adopts:
  assumes "account_known t votes onchain_root" "t_root t \<noteq> ULONG_MAX" "stakes_linked t"
  shows "\<exists>t'. fd_tower_reconcile t votes onchain_root = Some t'
    \<and> (if votes = [] \<or> t_votes t \<noteq> [] \<and> vote_slot (last votes) \<le> vote_slot (last (t_votes t)) then t' = t
       else t_root t' = (if onchain_root = ULONG_MAX then t_root t else max (t_root t) onchain_root)
         \<and> t_votes t' = filter (\<lambda>v. t_root t' < vote_slot v) votes
         \<and> dom (t_blocks t') = dom (t_blocks t) - {t_root t ..< t_root t'}
         \<and> (\<forall>v \<in> set (t_votes t'). \<exists>b. t_blocks t' (vote_slot v) = Some b \<and> tb_voted b)
         \<and> (\<forall>v \<in> set (t_votes t). \<forall>b. vote_slot v \<notin> vote_slot ` set (t_votes t')
              \<longrightarrow> t_blocks t' (vote_slot v) = Some b \<longrightarrow> \<not> tb_voted b))"
proof (cases "newer t votes")
  case False
  thus ?thesis using reconcile_same[OF False] newer_known[OF assms(1)] by (simp add: not_less)
next
  case True
  obtain t' where t': "fd_tower_reconcile t votes onchain_root = Some t'"
      "dom (t_blocks t') = dom (t_blocks t) - {t_root t ..< newest_root t onchain_root}"
      "\<forall>v \<in> set (t_votes t). \<forall>b. vote_slot v \<notin> vote_slot ` set (t_votes t') \<longrightarrow> t_blocks t' (vote_slot v) = Some b \<longrightarrow> \<not> tb_voted b"
    using reconcile_ends[OF assms True] by blast
  have n: "\<not> (votes = [] \<or> t_votes t \<noteq> [] \<and> vote_slot (last votes) \<le> vote_slot (last (t_votes t)))"
    using True newer_known[OF assms(1)] by (auto simp: not_less)
  have root: "t_root t' = newest_root t onchain_root" by (rule reconcile_adopts(2)[OF t'(1) True])
  moreover have "newest_root t onchain_root = (if onchain_root = ULONG_MAX then t_root t else max (t_root t) onchain_root)"
    by (auto simp: newest_root_def max_def)
  ultimately have "t_root t' = (if onchain_root = ULONG_MAX then t_root t else max (t_root t) onchain_root)" by simp
  moreover have "t_votes t' = filter (\<lambda>v. t_root t' < vote_slot v) votes"
    using reconcile_adopts(1)[OF t'(1) True] adopted_above[OF assms(1)] root by simp
  ultimately show ?thesis
    unfolding if_not_P[OF n] using t'[folded root] reconcile_adopts(4)[OF t'(1) True] by blast
qed

text \<open>Two voters have stake in slot 9, below the root of the account.\<close>

definition staked_10 :: fd_tower where
  "staked_10 = snd (the (fd_tower_stakes_insert (snd (the (fd_tower_stakes_insert voted_10 9 7 500 None))) 9 8 400 (Some 0)))"

lemma staked_10_fields:
  "t_votes staked_10 = t_votes voted_10" "t_root staked_10 = 5" "t_blocks staked_10 = t_blocks voted_10"
  "t_stk_slot staked_10 = [9 \<mapsto> 1]" "t_stk_map staked_10 = [(7, 9) \<mapsto> 0, (8, 9) \<mapsto> 1]"
  "t_stk_pool staked_10 0 = \<lparr> sv_addr = 7, sv_slot = 9, sv_prev = None, sv_stake = 500 \<rparr>"
  "t_stk_pool staked_10 1 = \<lparr> sv_addr = 8, sv_slot = 9, sv_prev = Some 0, sv_stake = 400 \<rparr>"
proof -
  obtain blocks votes where v: "voted_10 = tower_11\<lparr> t_blocks := blocks, t_votes := votes \<rparr>" using voted_10_frame by blast
  have "t_stk_slot voted_10 = Map.empty" "t_root voted_10 = 5"
    by (simp_all add: v tower_11_def tower_10_def fd_tower_blocks_insert_def tower_boot_def)
  thus "t_votes staked_10 = t_votes voted_10" "t_root staked_10 = 5" "t_blocks staked_10 = t_blocks voted_10"
    "t_stk_slot staked_10 = [9 \<mapsto> 1]" "t_stk_map staked_10 = [(7, 9) \<mapsto> 0, (8, 9) \<mapsto> 1]"
    "t_stk_pool staked_10 0 = \<lparr> sv_addr = 7, sv_slot = 9, sv_prev = None, sv_stake = 500 \<rparr>"
    "t_stk_pool staked_10 1 = \<lparr> sv_addr = 8, sv_slot = 9, sv_prev = Some 0, sv_stake = 400 \<rparr>"
    by (simp_all add: staked_10_def fd_tower_stakes_insert_def voted_10_fields)
qed

lemma staked_10_linked: "stakes_linked staked_10"
proof -
  have "stake_chain staked_10 9 (Some 1) [1, 0]" by (simp add: staked_10_fields del: One_nat_def)
  hence "\<exists>chain. distinct chain \<and> stake_chain staked_10 9 (Some 1) chain" by (intro exI[of _ "[1, 0]"]) simp
  thus ?thesis by (simp add: stakes_linked_def staked_10_fields(4))
qed

theorem tower_reconcile_adopts_witness:
  "\<exists>t'. fd_tower_reconcile staked_10 [\<lparr> vote_slot = 11, vote_conf = 1 \<rparr>] 10 = Some t' \<and> t_root t' = 10
    \<and> t_votes t' = [\<lparr> vote_slot = 11, vote_conf = 1 \<rparr>] \<and> (\<forall>b. t_blocks t' 10 = Some b \<longrightarrow> \<not> tb_voted b)"
proof -
  let ?votes = "[\<lparr> vote_slot = 11, vote_conf = 1 \<rparr>] :: fd_tower_vote list"
  have "account_known staked_10 ?votes 10"
    using voted_10_fields(3,4) by (auto simp: account_known_def staked_10_fields voted_10_fields(1))
  from tower_reconcile_adopts[OF this _ staked_10_linked] show ?thesis
    by (simp add: staked_10_fields voted_10_fields(1)) (auto simp: max_def)
qed

text \<open>
  C27: Removing the lockout intervals of a slot undoes the insertions for all its voters: the intervals, the
  sentinels and the elements of the pool are as before, for slots and interval ends that fit in 32 bits.
\<close>

theorem tower_lockos_roundtrip:
  assumes "short slot" "unused t slot" "lockos_insert_all t slot vtrs = Some t'"
    and "\<forall>(addr, votes) \<in> set vtrs. \<forall>v \<in> set votes. short (interval_end v) \<and> interval_end v \<noteq> 0"
  shows "fd_tower_lockos_remove t' slot = t"
  by (rule lockos_remove_grown[OF assms(1) lockos_insert_all_grown[OF assms(1) grown_refl[OF assms(2)] assms(3,4)] assms(2)])

definition towers_11 :: "(fd_hash \<times> fd_tower_vote list) list" where
  "towers_11 = [(7, [\<lparr> vote_slot = 9, vote_conf = 2 \<rparr>, \<lparr> vote_slot = 10, vote_conf = 1 \<rparr>]), (8, [\<lparr> vote_slot = 9, vote_conf = 2 \<rparr>])]"

theorem tower_lockos_roundtrip_witness:
  "\<exists>t'. lockos_insert_all voted_10 11 towers_11 = Some t' \<and> t_lck_free t' = t_lck_free voted_10 - 5
    \<and> fd_tower_lockos_remove t' 11 = voted_10"
proof -
  have "map_option t_lck_free (lockos_insert_all voted_10 11 towers_11) = Some (t_lck_free voted_10 - 5)" by code_simp
  then obtain t' where run: "lockos_insert_all voted_10 11 towers_11 = Some t'" "t_lck_free t' = t_lck_free voted_10 - 5" by blast
  have "unused voted_10 11" by (simp add: unused_def voted_10_fields(5))
  moreover have "short (11 :: u64)" by (simp add: short_def)
  moreover have "\<forall>(addr, votes) \<in> set towers_11. \<forall>v \<in> set votes. short (interval_end v) \<and> interval_end v \<noteq> 0"
    by (simp add: towers_11_def interval_end_def short_def)
  ultimately have "fd_tower_lockos_remove t' 11 = voted_10" using tower_lockos_roundtrip run(1) by blast
  thus ?thesis using run by blast
qed

text \<open>
  \<open>fd_ghost_deepest\<close> ends, leaves the fork choice as it was and returns a block of the subtree that no
  other block of it lies deeper than.
\<close>

theorem ghost_deepest:
  assumes "tree_ok g" "i \<in> live g"
  shows "\<exists>b. fd_ghost_deepest g i = Some (b, g) \<and> b \<in> subtree (live g) (par g) i
    \<and> (\<forall>j \<in> subtree (live g) (par g) i. depth g j \<le> depth g b)"
  by (rule deepest_ok[OF assms])

theorem ghost_deepest_witness: "\<exists>b. fd_ghost_deepest ghost_two 0 = Some (b, ghost_two) \<and> b \<in> subtree (live ghost_two) (par ghost_two) 0"
  using ghost_deepest[OF ghosts_ok(2), of 0] ghost_two_live by auto

end
