(* ===== verification/Txn.thy ===== *)
theory Txn
  imports Fd_Prelude
begin

text \<open>
  The wire format of transactions: \<^verbatim>\<open>ballet/txn/fd_compact_u16.h\<close>,
  \<^verbatim>\<open>fd_txn.h\<close> and \<^verbatim>\<open>fd_txn_parse.c\<close>.  A payload is its list of
  bytes, a position in it a natural number with the wrap-around of \<open>ulong\<close> written out.  A failed
  \<open>CHECK\<close> rejects with its line in the source; a read past the end of the payload is \<open>Undefined\<close>.
\<close>

section \<open>Checked reads\<close>

datatype txn_fault = Reject nat | Undefined

type_synonym 'a parse = "txn_fault + 'a"

definition andthen :: "'e + 'a \<Rightarrow> ('a \<Rightarrow> 'e + 'b) \<Rightarrow> 'e + 'b" where
  "andthen m f = (case m of Inl e \<Rightarrow> Inl e | Inr x \<Rightarrow> f x)"

definition check :: "nat \<Rightarrow> bool \<Rightarrow> 'a parse \<Rightarrow> 'a parse" where
  "check line cond k = (if cond then k else Inl (Reject line))"

definition byte_at :: "u8 list \<Rightarrow> nat \<Rightarrow> (u8 \<Rightarrow> 'a parse) \<Rightarrow> 'a parse" where
  "byte_at payload i k = (if i < length payload then k (payload ! i) else Inl Undefined)"

definition byte_if :: "bool \<Rightarrow> u8 list \<Rightarrow> nat \<Rightarrow> (u8 option \<Rightarrow> 'a parse) \<Rightarrow> 'a parse" where
  "byte_if cond payload i k = (if cond then byte_at payload i (\<lambda>b. k (Some b)) else k None)"

definition ulong_add :: "nat \<Rightarrow> nat \<Rightarrow> nat" where
  "ulong_add x y = (x + y) mod 2 ^ 64"

definition ulong_sub :: "nat \<Rightarrow> nat \<Rightarrow> nat" where
  "ulong_sub x y = (x + 2 ^ 64 - y) mod 2 ^ 64"

definition check_left :: "nat \<Rightarrow> u8 list \<Rightarrow> nat \<Rightarrow> nat \<Rightarrow> 'a parse \<Rightarrow> 'a parse" where
  "check_left line payload i n k = check line (n \<le> ulong_sub (length payload) i) k"

section \<open>Compact integers\<close>

definition fd_cu16_dec_sz :: "u8 list \<Rightarrow> nat \<Rightarrow> nat \<Rightarrow> nat parse" where
  "fd_cu16_dec_sz buf i bytes_avail =
     byte_if (1 \<le> bytes_avail) buf i (\<lambda>b0.
       if (case b0 of None \<Rightarrow> False | Some b \<Rightarrow> b AND 0x80 = 0) then Inr 1
       else byte_if (2 \<le> bytes_avail) buf (i + 1) (\<lambda>b1.
         if (case b1 of None \<Rightarrow> False | Some b \<Rightarrow> b AND 0x80 = 0) then (if b1 = Some 0 then Inr 0 else Inr 2)
         else byte_if (3 \<le> bytes_avail) buf (i + 2) (\<lambda>b2.
           if (case b2 of None \<Rightarrow> False | Some b \<Rightarrow> b AND 0xFC = 0) then (if b2 = Some 0 then Inr 0 else Inr 3)
           else Inr 0)))"

definition fd_cu16_dec_fixed :: "u8 list \<Rightarrow> nat \<Rightarrow> nat \<Rightarrow> u16 parse" where
  "fd_cu16_dec_fixed buf i sz =
     (if sz = 1 then byte_at buf i (\<lambda>b0. Inr (ucast b0))
      else if sz = 2 then
        byte_at buf i (\<lambda>b0. byte_at buf (i + 1) (\<lambda>b1.
          Inr (ucast (ucast (b0 AND 0x7F) + push_bit 7 (ucast b1) :: u64))))
      else
        byte_at buf i (\<lambda>b0. byte_at buf (i + 1) (\<lambda>b1. byte_at buf (i + 2) (\<lambda>b2.
          Inr (ucast (ucast (b0 AND 0x7F) + push_bit 7 (ucast b1 AND 0x7F) + push_bit 14 (ucast b2) :: u64))))))"

definition fd_cu16_dec :: "u8 list \<Rightarrow> nat \<Rightarrow> nat \<Rightarrow> (nat \<times> u16 option) parse" where
  "fd_cu16_dec buf i bytes_avail =
     andthen (fd_cu16_dec_sz buf i bytes_avail) (\<lambda>sz.
       if sz = 0 then Inr (0, None)
       else andthen (fd_cu16_dec_fixed buf i sz) (\<lambda>v. Inr (sz, Some v)))"

definition fd_cu16_enc :: "u16 \<Rightarrow> u8 list" where
  "fd_cu16_enc val =
     (let v = ucast val :: u64;
          byte0 = v AND 0x7F; byte1 = drop_bit 7 v AND 0x7F; byte2 = drop_bit 14 v;
          needs_byte1 = 0x7F < v; needs_byte2 = 0x3FFF < v
      in ucast (byte0 OR (if needs_byte1 then 0x80 else 0))
         # (if needs_byte1 then [ucast (byte1 OR (if needs_byte2 then 0x80 else 0))] else [])
         @ (if needs_byte2 then [ucast byte2] else []))"

section \<open>Transactions\<close>

definition FD_TXN_VLEGACY :: u8 where "FD_TXN_VLEGACY = 0xFF"
definition FD_TXN_V0 :: u8 where "FD_TXN_V0 = 0x00"
definition FD_TXN_SIGNATURE_SZ :: nat where "FD_TXN_SIGNATURE_SZ = 64"
definition FD_TXN_ACCT_ADDR_SZ :: nat where "FD_TXN_ACCT_ADDR_SZ = 32"
definition FD_TXN_BLOCKHASH_SZ :: nat where "FD_TXN_BLOCKHASH_SZ = 32"
definition FD_TXN_SIG_MAX :: nat where "FD_TXN_SIG_MAX = 127"
definition FD_TXN_ACCT_ADDR_MAX :: nat where "FD_TXN_ACCT_ADDR_MAX = 128"
definition FD_TXN_ADDR_TABLE_LOOKUP_MAX :: nat where "FD_TXN_ADDR_TABLE_LOOKUP_MAX = 127"
definition FD_TXN_INSTR_MAX :: nat where "FD_TXN_INSTR_MAX = 64"
definition FD_TXN_MAX_SZ :: nat where "FD_TXN_MAX_SZ = 852"
definition FD_TXN_MTU :: nat where "FD_TXN_MTU = 1232"
definition FD_TXN_MIN_SERIALIZED_SZ :: nat where "FD_TXN_MIN_SERIALIZED_SZ = 134"
definition MIN_INSTR_SZ :: nat where "MIN_INSTR_SZ = 3"
definition MIN_ADDR_LUT_SIZE :: nat where "MIN_ADDR_LUT_SIZE = 34"

lemmas txn_limits = FD_TXN_VLEGACY_def FD_TXN_V0_def FD_TXN_SIGNATURE_SZ_def FD_TXN_ACCT_ADDR_SZ_def FD_TXN_BLOCKHASH_SZ_def
  FD_TXN_SIG_MAX_def FD_TXN_ACCT_ADDR_MAX_def FD_TXN_ADDR_TABLE_LOOKUP_MAX_def FD_TXN_INSTR_MAX_def FD_TXN_MAX_SZ_def
  FD_TXN_MTU_def FD_TXN_MIN_SERIALIZED_SZ_def MIN_INSTR_SZ_def MIN_ADDR_LUT_SIZE_def

record fd_txn_instr =
  ti_program_id :: u8
  ti_acct_cnt :: u16
  ti_data_sz :: u16
  ti_acct_off :: u16
  ti_data_off :: u16

record fd_txn_acct_addr_lut =
  lut_addr_off :: u16
  lut_writable_cnt :: u8
  lut_readonly_cnt :: u8
  lut_writable_off :: u16
  lut_readonly_off :: u16

text \<open>The instructions and the address tables that follow them in memory are lists.\<close>

record fd_txn =
  txn_transaction_version :: u8
  txn_signature_cnt :: u8
  txn_signature_off :: u16
  txn_message_off :: u16
  txn_readonly_signed_cnt :: u8
  txn_readonly_unsigned_cnt :: u8
  txn_acct_addr_cnt :: u16
  txn_acct_addr_off :: u16
  txn_recent_blockhash_off :: u16
  txn_addr_table_lookup_cnt :: u8
  txn_addr_table_adtl_writable_cnt :: u8
  txn_addr_table_adtl_cnt :: u8
  txn_instr_cnt :: u16
  txn_instr :: "fd_txn_instr list"
  txn_address_tables :: "fd_txn_acct_addr_lut list"

definition fd_txn_footprint :: "nat \<Rightarrow> nat \<Rightarrow> nat" where
  "fd_txn_footprint instr_cnt addr_table_lookup_cnt = 20 + instr_cnt * 10 + addr_table_lookup_cnt * 8"

section \<open>Parsing\<close>

text \<open>\<open>READ_CHECKED_COMPACT_U16\<close>: the value and its size.\<close>

definition read_cu16 :: "nat \<Rightarrow> u8 list \<Rightarrow> nat \<Rightarrow> (u16 \<Rightarrow> nat \<Rightarrow> 'a parse) \<Rightarrow> 'a parse" where
  "read_cu16 line payload i k =
     andthen (fd_cu16_dec_sz payload i (ulong_sub (length payload) i)) (\<lambda>sz.
       check line (sz \<noteq> 0) (andthen (fd_cu16_dec_fixed payload i sz) (\<lambda>v. k v sz)))"

text \<open>The signatures and the version: the signature count, the offset of the message, the version and the position.\<close>

definition parse_signatures :: "u8 list \<Rightarrow> (u8 \<times> nat \<times> nat \<times> u8 \<times> nat) parse" where
  "parse_signatures payload =
     check 79 (length payload \<le> FD_TXN_MTU) (
     check_left 86 payload 0 1 (byte_at payload 0 (\<lambda>signature_cnt. let i = ulong_add 0 1 in
     check 88 (1 \<le> unat signature_cnt \<and> unat signature_cnt \<le> FD_TXN_SIG_MAX) (
     check_left 89 payload i (FD_TXN_SIGNATURE_SZ * unat signature_cnt) (
     let signature_off = i; i = ulong_add i (FD_TXN_SIGNATURE_SZ * unat signature_cnt); message_off = i in
     check_left 92 payload i 1 (byte_at payload i (\<lambda>header_b0. let i = ulong_add i 1 in
     if header_b0 AND 0x80 \<noteq> 0
     then check 98 (header_b0 AND 0x7F = FD_TXN_V0) (
          check_left 100 payload i 1 (byte_at payload i (\<lambda>b.
          check 100 (signature_cnt = b) (
          Inr (signature_cnt, signature_off, message_off, header_b0 AND 0x7F, ulong_add i 1)))))
     else check 103 (signature_cnt = header_b0) (
          Inr (signature_cnt, signature_off, message_off, FD_TXN_VLEGACY, i)))))))))"

text \<open>The counts, the account addresses and the blockhash; the fields set later are zero.\<close>

definition parse_accounts :: "u8 list \<Rightarrow> u8 \<times> nat \<times> nat \<times> u8 \<times> nat \<Rightarrow> (fd_txn \<times> nat) parse" where
  "parse_accounts payload = (\<lambda>(signature_cnt, signature_off, message_off, transaction_version, i).
     check_left 105 payload i 1 (byte_at payload i (\<lambda>ro_signed_cnt. let i = ulong_add i 1 in
     check 107 (ro_signed_cnt < signature_cnt) (
     check_left 109 payload i 1 (byte_at payload i (\<lambda>ro_unsigned_cnt. let i = ulong_add i 1 in
     read_cu16 112 payload i (\<lambda>acct_addr_cnt bytes_consumed. let i = ulong_add i bytes_consumed in
     check 113 (unat signature_cnt \<le> unat acct_addr_cnt \<and> unat acct_addr_cnt \<le> FD_TXN_ACCT_ADDR_MAX) (
     check 114 (unat signature_cnt + unat ro_unsigned_cnt \<le> unat acct_addr_cnt) (
     check_left 116 payload i (FD_TXN_ACCT_ADDR_SZ * unat acct_addr_cnt) (
     let acct_addr_off = i; i = ulong_add i (FD_TXN_ACCT_ADDR_SZ * unat acct_addr_cnt) in
     check_left 117 payload i FD_TXN_BLOCKHASH_SZ (
     let recent_blockhash_off = i; i = ulong_add i FD_TXN_BLOCKHASH_SZ in
     read_cu16 120 payload i (\<lambda>instr_cnt bytes_consumed. let i = ulong_add i bytes_consumed in
     check 122 (unat instr_cnt \<le> FD_TXN_INSTR_MAX) (
     check_left 124 payload i (MIN_INSTR_SZ * unat instr_cnt) (
     check 127 ((if instr_cnt = 0 then 0 else 1) < unat acct_addr_cnt) (
     Inr (\<lparr> txn_transaction_version = transaction_version, txn_signature_cnt = signature_cnt,
            txn_signature_off = word_of_nat signature_off, txn_message_off = word_of_nat message_off,
            txn_readonly_signed_cnt = ro_signed_cnt, txn_readonly_unsigned_cnt = ro_unsigned_cnt,
            txn_acct_addr_cnt = acct_addr_cnt, txn_acct_addr_off = word_of_nat acct_addr_off,
            txn_recent_blockhash_off = word_of_nat recent_blockhash_off, txn_addr_table_lookup_cnt = 0,
            txn_addr_table_adtl_writable_cnt = 0, txn_addr_table_adtl_cnt = 0, txn_instr_cnt = instr_cnt,
            txn_instr = [], txn_address_tables = [] \<rparr>, i))))))))))))))))"

definition parse_header :: "u8 list \<Rightarrow> (fd_txn \<times> nat) parse" where
  "parse_header payload = andthen (parse_signatures payload) (parse_accounts payload)"

text \<open>The largest account index so far, over the accounts of an instruction.\<close>

primrec max_acct_from :: "u8 list \<Rightarrow> nat \<Rightarrow> nat \<Rightarrow> u8 \<Rightarrow> u8 parse" where
  "max_acct_from payload 0 i max_acct = Inr max_acct"
| "max_acct_from payload (Suc n) i max_acct =
     byte_at payload i (\<lambda>b. max_acct_from payload n (i + 1) (max max_acct b))"

definition parse_instr :: "u8 list \<Rightarrow> u16 \<Rightarrow> nat \<Rightarrow> u8 \<Rightarrow> (fd_txn_instr \<times> nat \<times> u8) parse" where
  "parse_instr payload acct_addr_cnt i max_acct =
     check_left 153 payload i MIN_INSTR_SZ (byte_at payload i (\<lambda>program_id. let i = ulong_add i 1 in
     read_cu16 154 payload i (\<lambda>acct_cnt bytes_consumed. let i = ulong_add i bytes_consumed in
     check_left 155 payload i (unat acct_cnt) (let acct_off = i in
     andthen (max_acct_from payload (unat acct_cnt) i max_acct) (\<lambda>max_acct. let i = ulong_add i (unat acct_cnt) in
     read_cu16 157 payload i (\<lambda>data_sz bytes_consumed. let i = ulong_add i bytes_consumed in
     check_left 158 payload i (unat data_sz) (let data_off = i; i = ulong_add i (unat data_sz) in
     check 166 (0 < unat program_id \<and> unat program_id < unat acct_addr_cnt) (
     Inr (\<lparr> ti_program_id = program_id, ti_acct_cnt = acct_cnt, ti_data_sz = data_sz,
            ti_acct_off = word_of_nat acct_off, ti_data_off = word_of_nat data_off \<rparr>, i, max_acct)))))))))"

primrec parse_instrs :: "u8 list \<Rightarrow> u16 \<Rightarrow> nat \<Rightarrow> nat \<Rightarrow> u8 \<Rightarrow> (fd_txn_instr list \<times> nat \<times> u8) parse" where
  "parse_instrs payload acct_addr_cnt 0 i max_acct = Inr ([], i, max_acct)"
| "parse_instrs payload acct_addr_cnt (Suc n) i max_acct =
     andthen (parse_instr payload acct_addr_cnt i max_acct) (\<lambda>(instr, i, max_acct).
     andthen (parse_instrs payload acct_addr_cnt n i max_acct) (\<lambda>(instrs, i, max_acct).
       Inr (instr # instrs, i, max_acct)))"

definition parse_lut :: "u8 list \<Rightarrow> u16 \<Rightarrow> nat \<Rightarrow> (fd_txn_acct_addr_lut \<times> nat \<times> nat \<times> nat) parse" where
  "parse_lut payload acct_addr_cnt i =
     check_left 194 payload i FD_TXN_ACCT_ADDR_SZ (let addr_off = i; i = ulong_add i FD_TXN_ACCT_ADDR_SZ in
     read_cu16 198 payload i (\<lambda>writable_cnt bytes_consumed. let i = ulong_add i bytes_consumed in
     check_left 199 payload i (unat writable_cnt) (let writable_off = i; i = ulong_add i (unat writable_cnt) in
     read_cu16 200 payload i (\<lambda>readonly_cnt bytes_consumed. let i = ulong_add i bytes_consumed in
     check_left 201 payload i (unat readonly_cnt) (let readonly_off = i; i = ulong_add i (unat readonly_cnt) in
     check 203 (unat writable_cnt \<le> ulong_sub FD_TXN_ACCT_ADDR_MAX (unat acct_addr_cnt)) (
     check 204 (unat readonly_cnt \<le> ulong_sub FD_TXN_ACCT_ADDR_MAX (unat acct_addr_cnt)) (
     check 205 (1 \<le> unat writable_cnt + unat readonly_cnt) (
     Inr (\<lparr> lut_addr_off = word_of_nat addr_off, lut_writable_cnt = ucast writable_cnt, lut_readonly_cnt = ucast readonly_cnt,
            lut_writable_off = word_of_nat writable_off, lut_readonly_off = word_of_nat readonly_off \<rparr>,
          i, unat writable_cnt, unat readonly_cnt)))))))))"

primrec parse_luts :: "u8 list \<Rightarrow> u16 \<Rightarrow> nat \<Rightarrow> nat \<Rightarrow> nat \<Rightarrow> nat \<Rightarrow>
    (fd_txn_acct_addr_lut list \<times> nat \<times> nat \<times> nat) parse" where
  "parse_luts payload acct_addr_cnt 0 i adtl_writable_cnt adtl_cnt = Inr ([], i, adtl_writable_cnt, adtl_cnt)"
| "parse_luts payload acct_addr_cnt (Suc n) i adtl_writable_cnt adtl_cnt =
     andthen (parse_lut payload acct_addr_cnt i) (\<lambda>(lut, i, writable_cnt, readonly_cnt).
     andthen (parse_luts payload acct_addr_cnt n i (ulong_add adtl_writable_cnt writable_cnt)
                (ulong_add adtl_cnt (writable_cnt + readonly_cnt))) (\<lambda>(luts, i, adtl_writable_cnt, adtl_cnt).
       Inr (lut # luts, i, adtl_writable_cnt, adtl_cnt)))"

definition parse_tables :: "u8 list \<Rightarrow> fd_txn \<Rightarrow> nat \<Rightarrow> (fd_txn_acct_addr_lut list \<times> nat \<times> nat \<times> nat) parse" where
  "parse_tables payload txn i =
     (if txn_transaction_version txn = FD_TXN_V0
      then read_cu16 189 payload i (\<lambda>addr_table_cnt bytes_consumed. let i = ulong_add i bytes_consumed in
           check 190 (unat addr_table_cnt \<le> FD_TXN_ADDR_TABLE_LOOKUP_MAX) (
           check_left 191 payload i (MIN_ADDR_LUT_SIZE * unat addr_table_cnt) (
           parse_luts payload (txn_acct_addr_cnt txn) (unat addr_table_cnt) i 0 0)))
      else Inr ([], i, 0, 0))"

text \<open>
  The parsed transaction, the bytes it took and its footprint.  \<open>exact\<close> says that the caller did not ask
  for the number of bytes, so none may be left.
\<close>

definition fd_txn_parse_core :: "u8 list \<Rightarrow> bool \<Rightarrow> (fd_txn \<times> nat \<times> nat) parse" where
  "fd_txn_parse_core payload exact =
     andthen (parse_header payload) (\<lambda>(txn, i).
     andthen (parse_instrs payload (txn_acct_addr_cnt txn) (unat (txn_instr_cnt txn)) i 0) (\<lambda>(instrs, i, max_acct).
     andthen (parse_tables payload txn i) (\<lambda>(luts, i, adtl_writable_cnt, adtl_cnt).
     check 220 (\<not> exact \<or> i = length payload) (
     check 222 (ulong_add (unat (txn_acct_addr_cnt txn)) adtl_cnt \<le> FD_TXN_ACCT_ADDR_MAX) (
     check 225 (unat max_acct < ulong_add (unat (txn_acct_addr_cnt txn)) adtl_cnt) (
     Inr (txn\<lparr> txn_instr := instrs, txn_address_tables := luts, txn_addr_table_lookup_cnt := word_of_nat (length luts),
               txn_addr_table_adtl_writable_cnt := word_of_nat adtl_writable_cnt,
               txn_addr_table_adtl_cnt := word_of_nat adtl_cnt \<rparr>,
          i, fd_txn_footprint (unat (txn_instr_cnt txn)) (length luts))))))))"

definition fd_txn_parse :: "u8 list \<Rightarrow> (fd_txn \<times> nat \<times> nat) parse" where
  "fd_txn_parse payload = fd_txn_parse_core payload True"

section \<open>Counters\<close>

definition FD_TXN_PARSE_COUNTERS_RING_SZ :: nat where "FD_TXN_PARSE_COUNTERS_RING_SZ = 32"

record fd_txn_parse_counters =
  success_cnt :: u64
  failure_cnt :: u64
  failure_ring :: "u64 list"

text \<open>What a parse does to the counters.\<close>

definition count_parse :: "'a parse \<Rightarrow> fd_txn_parse_counters \<Rightarrow> fd_txn_parse_counters option" where
  "count_parse result counters =
     (case result of
        Inr x \<Rightarrow> Some (counters\<lparr> success_cnt := success_cnt counters + 1 \<rparr>)
      | Inl (Reject line) \<Rightarrow> Some (counters\<lparr>
          failure_ring := (failure_ring counters)[unat (failure_cnt counters) mod FD_TXN_PARSE_COUNTERS_RING_SZ := word_of_nat line],
          failure_cnt := failure_cnt counters + 1 \<rparr>)
      | Inl Undefined \<Rightarrow> None)"

end
