(* ===== verification/Tower_Serdes.thy ===== *)
theory Tower_Serdes
  imports Txn Tower_Votes "HOL-Library.Monad_Syntax"
begin

text \<open>
  \<^verbatim>\<open>choreo/tower/fd_tower_serdes.c\<close>: the compact tower sync instruction, the layout of vote
  accounts and the reading of vote transactions.  The rest of a buffer is the list of its bytes.
\<close>

section \<open>Integers of variable length\<close>

definition de_short_u16 :: "u8 list \<Rightarrow> (u16 \<times> u8 list) option" where
  "de_short_u16 s =
     (if length s < 1 then None
      else if s ! 0 AND 0x80 = 0 then Some (ucast (s ! 0), drop 1 s)
      else if length s < 2 then None
      else if s ! 1 AND 0x80 = 0
      then (if s ! 1 = 0 then None
            else Some (ucast (ucast (s ! 0 AND 0x7F) + push_bit 7 (ucast (s ! 1)) :: u64), drop 2 s))
      else if length s < 3 then None
      else if s ! 2 AND 0x80 \<noteq> 0 then None
      else if s ! 2 = 0 then None
      else (let val = ucast (s ! 0 AND 0x7F) + push_bit 7 (ucast (s ! 1 AND 0x7F)) + push_bit 14 (ucast (s ! 2)) :: u64
            in if 0xFFFF < val then None else Some (ucast val, drop 3 s)))"

fun de_var_int_from :: "u64 \<Rightarrow> nat \<Rightarrow> u8 list \<Rightarrow> (u64 \<times> u8 list) option" where
  "de_var_int_from dst shift [] = None"
| "de_var_int_from dst shift (byte # src) =
     (if shift < 64
      then (let dst = dst OR push_bit shift (ucast (byte AND 0x7F))
            in if byte AND 0x80 = 0
               then (if drop_bit shift dst \<noteq> ucast byte then None
                     else if byte = 0 \<and> (shift \<noteq> 0 \<or> dst \<noteq> 0) then None
                     else Some (dst, src))
               else de_var_int_from dst (shift + 7) src)
      else None)"

definition de_var_int :: "u8 list \<Rightarrow> (u64 \<times> u8 list) option" where
  "de_var_int src = de_var_int_from 0 0 src"

definition ser_short_u16 :: "u16 \<Rightarrow> u8 list" where
  "ser_short_u16 val =
     (if val < 0x80 then [ucast val]
      else if val < 0x4000 then [ucast ((val AND 0x7F) OR 0x80), ucast (drop_bit 7 val)]
      else [ucast ((val AND 0x7F) OR 0x80), ucast ((drop_bit 7 val AND 0x7F) OR 0x80), ucast (drop_bit 14 val)])"

function ser_var_int :: "u64 \<Rightarrow> u8 list" where
  "ser_var_int val =
     (if 0x80 \<le> val then ucast ((val AND 0x7F) OR 0x80) # ser_var_int (drop_bit 7 val) else [ucast val])"
  by pat_completeness auto
termination
proof (relation "measure unat")
  show "(drop_bit 7 val, val) \<in> measure unat" if "0x80 \<le> val" for val :: u64
    using that by (simp add: unat_drop_bit_eq drop_bit_eq_div[where 'a=nat] word_le_nat_alt)
qed simp

declare ser_var_int.simps [simp del]

section \<open>The compact tower sync\<close>

record fd_compact_lockout =
  cl_offset :: u64
  cl_confirmation_count :: u8

text \<open>The list holds the first entries of the array, one for each that is set.\<close>

record fd_compact_tower_sync_serde =
  cts_root :: u64
  cts_lockouts_cnt :: u16
  cts_lockouts :: "fd_compact_lockout list"
  cts_hash :: fd_hash
  cts_timestamp_option :: u8
  cts_timestamp :: u64
  cts_block_id :: fd_hash

text \<open>\<open>DE\<close>: a field of fixed size.\<close>

definition de_field :: "nat \<Rightarrow> u8 list \<Rightarrow> ('a::len word \<times> u8 list) option" where
  "de_field n buf = (if length buf < n then None else Some (le_load (take n buf), drop n buf))"

fun de_lockouts :: "nat \<Rightarrow> u8 list \<Rightarrow> (fd_compact_lockout list \<times> u8 list) option" where
  "de_lockouts 0 buf = Some ([], buf)"
| "de_lockouts (Suc n) buf = do {
     (offset, buf) \<leftarrow> de_var_int buf;
     (confirmation_count, buf) \<leftarrow> de_field 1 buf;
     (lockouts, buf) \<leftarrow> de_lockouts n buf;
     Some (\<lparr> cl_offset = offset, cl_confirmation_count = confirmation_count \<rparr> # lockouts, buf)
   }"

definition fd_compact_tower_sync_de :: "fd_compact_tower_sync_serde \<Rightarrow> u8 list \<Rightarrow> fd_compact_tower_sync_serde option" where
  "fd_compact_tower_sync_de serde buf = do {
     (root, buf) \<leftarrow> de_field 8 buf;
     (lockouts_cnt, buf) \<leftarrow> de_short_u16 buf;
     if FD_TOWER_VOTE_MAX < unat lockouts_cnt then None
     else do {
       (lockouts, buf) \<leftarrow> de_lockouts (unat lockouts_cnt) buf;
       (hash, buf) \<leftarrow> de_field 32 buf;
       (timestamp_option, buf) \<leftarrow> de_field 1 buf;
       if timestamp_option \<noteq> 1 \<and> timestamp_option \<noteq> 0 then None
       else do {
         (timestamp, buf) \<leftarrow> if timestamp_option \<noteq> 0 then de_field 8 buf else Some (cts_timestamp serde, buf);
         (block_id, buf) \<leftarrow> de_field 32 buf;
         Some \<lparr> cts_root = root, cts_lockouts_cnt = lockouts_cnt, cts_lockouts = lockouts, cts_hash = hash,
                cts_timestamp_option = timestamp_option, cts_timestamp = timestamp, cts_block_id = block_id \<rparr>
       }
     }
   }"

text \<open>
  The output so far is a list.  \<open>SER\<close> checks the room; \<open>ser_short_u16\<close> and \<open>ser_var_int\<close> write without a
  check, and \<open>Overrun\<close> is a write past \<open>buf_max\<close>.
\<close>

datatype ser_fault = Ser_error | Overrun

definition ser_field :: "nat \<Rightarrow> u8 list \<Rightarrow> u8 list \<Rightarrow> (u8 list \<Rightarrow> ser_fault + 'a) \<Rightarrow> ser_fault + 'a" where
  "ser_field buf_max bytes out k = (if buf_max < length out + length bytes then Inl Ser_error else k (out @ bytes))"

definition ser_raw :: "nat \<Rightarrow> u8 list \<Rightarrow> u8 list \<Rightarrow> (u8 list \<Rightarrow> ser_fault + 'a) \<Rightarrow> ser_fault + 'a" where
  "ser_raw buf_max bytes out k = (if buf_max < length out + length bytes then Inl Overrun else k (out @ bytes))"

fun ser_lockouts :: "nat \<Rightarrow> fd_compact_lockout list \<Rightarrow> u8 list \<Rightarrow> (u8 list \<Rightarrow> ser_fault + 'a) \<Rightarrow> ser_fault + 'a" where
  "ser_lockouts buf_max [] out k = k out"
| "ser_lockouts buf_max (l # ls) out k =
     ser_raw buf_max (ser_var_int (cl_offset l)) out (\<lambda>out.
     ser_field buf_max [cl_confirmation_count l] out (\<lambda>out. ser_lockouts buf_max ls out k))"

definition fd_compact_tower_sync_ser :: "fd_compact_tower_sync_serde \<Rightarrow> nat \<Rightarrow> ser_fault + u8 list" where
  "fd_compact_tower_sync_ser serde buf_max =
     ser_field buf_max (le_bytes 8 (cts_root serde)) [] (\<lambda>out.
     ser_raw buf_max (ser_short_u16 (cts_lockouts_cnt serde)) out (\<lambda>out.
     if FD_TOWER_VOTE_MAX < unat (cts_lockouts_cnt serde) then Inl Ser_error
     else ser_lockouts buf_max (take (unat (cts_lockouts_cnt serde)) (cts_lockouts serde)) out (\<lambda>out.
          ser_field buf_max (le_bytes 32 (cts_hash serde)) out (\<lambda>out.
          ser_field buf_max [cts_timestamp_option serde] out (\<lambda>out.
          (if cts_timestamp_option serde \<noteq> 0 then ser_field buf_max (le_bytes 8 (cts_timestamp serde)) out
           else (\<lambda>k. k out)) (\<lambda>out.
          ser_field buf_max (le_bytes 32 (cts_block_id serde)) out Inr))))))"

section \<open>Vote accounts\<close>

definition FD_VOTE_ACC_V2 :: u32 where "FD_VOTE_ACC_V2 = 1"
definition FD_VOTE_ACC_V3 :: u32 where "FD_VOTE_ACC_V3 = 2"
definition FD_VOTE_ACC_V4 :: u32 where "FD_VOTE_ACC_V4 = 3"

text \<open>A load of \<open>n\<close> bytes at an offset.\<close>

definition load_at :: "nat \<Rightarrow> u8 list \<Rightarrow> nat \<Rightarrow> ('a::len word \<Rightarrow> 'b parse) \<Rightarrow> 'b parse" where
  "load_at n data off k = (if off + n \<le> length data then k (le_load (take n (drop off data))) else Inl Undefined)"

record fd_vote_acc_desc =
  vad_kind :: u32
  vad_votes_off :: u16
  vad_vote_cnt :: u8
  vad_vote_stride :: u8
  vad_root_slot :: u64

text \<open>
  The offset of the vote count and the size of a vote.  In the packed structs the count of version 2 and 3
  follows the kind, two addresses and the commission; in version 4 the flag of the BLS key follows the
  kind, four addresses, two commissions and the pending rewards, then the key if there is one.
\<close>

definition vote_acc_layout :: "u8 list \<Rightarrow> u32 \<Rightarrow> (nat \<times> nat) parse" where
  "vote_acc_layout data kind =
     (if kind = FD_VOTE_ACC_V2 then Inr (4 + 32 + 32 + 1, 12)
      else if kind = FD_VOTE_ACC_V3 then Inr (4 + 32 + 32 + 1, 13)
      else if kind = FD_VOTE_ACC_V4
      then check 159 (4 + 32 * 4 + 2 + 2 + 8 < length data) (
           byte_at data (4 + 32 * 4 + 2 + 2 + 8) (\<lambda>has_bls_pubkey_compressed.
           Inr (4 + 32 * 4 + 2 + 2 + 8 + 1 + (if has_bls_pubkey_compressed \<noteq> 0 then 48 else 0), 13)))
      else Inl (Reject 164))"

definition fd_vote_acc_desc_of :: "u8 list \<Rightarrow> fd_vote_acc_desc parse" where
  "fd_vote_acc_desc_of data =
     check 144 (4 \<le> length data) (
     load_at 4 data 0 (\<lambda>kind.
     andthen (vote_acc_layout data kind) (\<lambda>(vote_cnt_p, vote_stride).
     check 166 (vote_cnt_p + 8 \<le> length data) (
     load_at 8 data vote_cnt_p (\<lambda>(cnt :: u64).
     let vote_cnt = min (unat cnt) FD_TOWER_VOTE_MAX; vote_hi_p = vote_cnt_p + 8 + vote_cnt * vote_stride in
     check 171 (vote_hi_p \<le> length data) (
     check 174 (vote_hi_p + 1 \<le> length data) (
     byte_at data vote_hi_p (\<lambda>root_opt.
     andthen
       (if root_opt = 1 then check 177 (vote_hi_p + 9 \<le> length data) (load_at 8 data (vote_hi_p + 1) Inr)
        else if root_opt \<noteq> 0 then Inl (Reject 180)
        else Inr ULONG_MAX)
     (\<lambda>root_slot.
     Inr \<lparr> vad_kind = kind, vad_votes_off = word_of_nat (vote_cnt_p + 8), vad_vote_cnt = word_of_nat vote_cnt,
           vad_vote_stride = word_of_nat vote_stride, vad_root_slot = root_slot \<rparr>)))))))))"

definition fd_vote_acc_desc_vote :: "fd_vote_acc_desc \<Rightarrow> nat \<Rightarrow> nat" where
  "fd_vote_acc_desc_vote desc idx = unat (vad_votes_off desc) + idx * unat (vad_vote_stride desc)"

text \<open>A vote: version 2 has no latency byte in front.\<close>

definition vote_acc_vote :: "u8 list \<Rightarrow> fd_vote_acc_desc \<Rightarrow> nat \<Rightarrow> fd_tower_vote parse" where
  "vote_acc_vote data desc i =
     (let off = fd_vote_acc_desc_vote desc i + (if vad_kind desc = FD_VOTE_ACC_V2 then 0 else 1)
      in load_at 8 data off (\<lambda>slot. load_at 4 data (off + 8) (\<lambda>(conf :: u32).
         Inr \<lparr> vote_slot = slot, vote_conf = ucast conf \<rparr>)))"

text \<open>The loop over the votes: one result for each index.\<close>

fun each_vote :: "(nat \<Rightarrow> 'a parse) \<Rightarrow> nat list \<Rightarrow> 'a list parse" where
  "each_vote read [] = Inr []"
| "each_vote read (i # is) = andthen (read i) (\<lambda>vote. andthen (each_vote read is) (\<lambda>votes. Inr (vote # votes)))"

text \<open>The votes pushed onto the empty deque and the root.\<close>

definition fd_tower_from_vote_acc :: "u8 list \<Rightarrow> (fd_tower_vote list \<times> u64) parse" where
  "fd_tower_from_vote_acc data =
     (case fd_vote_acc_desc_of data of
        Inl Undefined \<Rightarrow> Inl Undefined
      | Inl (Reject line) \<Rightarrow> Inr ([], ULONG_MAX)
      | Inr desc \<Rightarrow> andthen (each_vote (vote_acc_vote data desc) [0 ..< unat (vad_vote_cnt desc)]) (\<lambda>votes. Inr (votes, vad_root_slot desc)))"

text \<open>The same with the latencies; version 2 stores none.\<close>

record fd_vote_acc_vote =
  vav_latency :: u8
  vav_slot :: u64
  vav_conf :: u32

definition vote_acc_vote_with_lat :: "u8 list \<Rightarrow> fd_vote_acc_desc \<Rightarrow> nat \<Rightarrow> fd_vote_acc_vote parse" where
  "vote_acc_vote_with_lat data desc i =
     (let off = fd_vote_acc_desc_vote desc i
      in if vad_kind desc = FD_VOTE_ACC_V2
         then load_at 8 data off (\<lambda>slot. load_at 4 data (off + 8) (\<lambda>conf.
              Inr \<lparr> vav_latency = 0xFF, vav_slot = slot, vav_conf = conf \<rparr>))
         else byte_at data off (\<lambda>latency. load_at 8 data (off + 1) (\<lambda>slot. load_at 4 data (off + 9) (\<lambda>conf.
              Inr \<lparr> vav_latency = latency, vav_slot = slot, vav_conf = conf \<rparr>))))"

definition fd_tower_with_lat_from_vote_acc :: "u8 list \<Rightarrow> fd_vote_acc_vote list parse" where
  "fd_tower_with_lat_from_vote_acc data =
     (case fd_vote_acc_desc_of data of
        Inl Undefined \<Rightarrow> Inl Undefined
      | Inl (Reject line) \<Rightarrow> Inr []
      | Inr desc \<Rightarrow> each_vote (vote_acc_vote_with_lat data desc) [0 ..< unat (vad_vote_cnt desc)])"

section \<open>Vote transactions\<close>

definition FD_VOTE_IX_KIND_TOWER_SYNC :: u32 where "FD_VOTE_IX_KIND_TOWER_SYNC = 14"
definition FD_VOTE_IX_KIND_TOWER_SYNC_SWITCH :: u32 where "FD_VOTE_IX_KIND_TOWER_SYNC_SWITCH = 15"

definition vote_program_id :: "u8 list" where
  "vote_program_id =
     [0x07, 0x61, 0x48, 0x1d, 0x35, 0x74, 0x74, 0xbb, 0x7c, 0x4d, 0x76, 0x24, 0xeb, 0xd3, 0xbd, 0xb3,
      0xd8, 0x35, 0x5e, 0x73, 0xd1, 0x10, 0x43, 0xfc, 0x0d, 0xa3, 0x53, 0x80, 0x00, 0x00, 0x00, 0x00]"

text \<open>The bytes of a range of the payload, and the account at an index.\<close>

definition bytes_in :: "u8 list \<Rightarrow> nat \<Rightarrow> nat \<Rightarrow> (u8 list \<Rightarrow> 'a parse) \<Rightarrow> 'a parse" where
  "bytes_in payload off n k = (if off + n \<le> length payload then k (take n (drop off payload)) else Inl Undefined)"

definition acct_at :: "fd_txn \<Rightarrow> u8 list \<Rightarrow> nat \<Rightarrow> (u8 list \<Rightarrow> 'a parse) \<Rightarrow> 'a parse" where
  "acct_at txn payload idx k =
     bytes_in payload (unat (txn_acct_addr_off txn) + FD_TXN_ACCT_ADDR_SZ * idx) FD_TXN_ACCT_ADDR_SZ k"

definition fd_txn_is_simple_vote_transaction :: "fd_txn \<Rightarrow> u8 list \<Rightarrow> bool parse" where
  "fd_txn_is_simple_vote_transaction txn payload =
     (if txn_instr_cnt txn \<noteq> 1 then Inr False
      else if txn_transaction_version txn \<noteq> FD_TXN_VLEGACY then Inr False
      else if 2 < unat (txn_signature_cnt txn) then Inr False
      else (case txn_instr txn of
              [] \<Rightarrow> Inl Undefined
            | instr # instrs \<Rightarrow> acct_at txn payload (unat (ti_program_id instr)) (\<lambda>prog_id. Inr (prog_id = vote_program_id))))"

text \<open>The sum of the offsets, with the check of each addition.\<close>

fun sum_offsets :: "fd_compact_lockout list \<Rightarrow> u64 \<Rightarrow> u64 option" where
  "sum_offsets [] slot = Some slot"
| "sum_offsets (l # ls) slot = (if 2 ^ 64 \<le> unat slot + unat (cl_offset l) then None else sum_offsets ls (slot + cl_offset l))"

definition serde_null :: fd_compact_tower_sync_serde where
  "serde_null = \<lparr> cts_root = 0, cts_lockouts_cnt = 0, cts_lockouts = [], cts_hash = 0, cts_timestamp_option = 0,
     cts_timestamp = 0, cts_block_id = 0 \<rparr>"

text \<open>The identity, the vote account and the slot, or \<open>None\<close> when the transaction is not a vote of this kind.\<close>

definition fd_txn_parse_simple_vote :: "fd_txn \<Rightarrow> u8 list \<Rightarrow> (u8 list \<times> u8 list \<times> u64) option parse" where
  "fd_txn_parse_simple_vote txn payload =
     (let required_accts = (if txn_signature_cnt txn = 1 then 2 else 3)
      in andthen (fd_txn_is_simple_vote_transaction txn payload) (\<lambda>simple.
         if \<not> simple then Inr None
         else (case txn_instr txn of
           [] \<Rightarrow> Inl Undefined
         | instr # instrs \<Rightarrow>
             if unat (ti_data_sz instr) < 4 \<or> unat (txn_acct_addr_cnt txn) < required_accts then Inr None
             else bytes_in payload (unat (ti_data_off instr)) (unat (ti_data_sz instr)) (\<lambda>instr_data.
               let kind = le_load (take 4 instr_data)
               in if kind \<noteq> FD_VOTE_IX_KIND_TOWER_SYNC \<and> kind \<noteq> FD_VOTE_IX_KIND_TOWER_SYNC_SWITCH then Inr None
                  else (case fd_compact_tower_sync_de serde_null (drop 4 instr_data) of
                    None \<Rightarrow> Inr None
                  | Some serde \<Rightarrow>
                      (case sum_offsets (cts_lockouts serde) (if cts_root serde = ULONG_MAX then 0 else cts_root serde) of
                         None \<Rightarrow> Inr None
                       | Some slot \<Rightarrow>
                           acct_at txn payload (if txn_signature_cnt txn = 1 then 1 else 2) (\<lambda>vote_acct.
                           acct_at txn payload 0 (\<lambda>identity. Inr (Some (identity, vote_acct, slot))))))))))"

end
