(* ===== verification/Keyguard.thy ===== *)
theory Keyguard
  imports Tower_Serdes
begin

text \<open>
  The keyguard (\<^verbatim>\<open>disco/keyguard/fd_keyguard_match.c\<close> and
  \<^verbatim>\<open>fd_keyguard_authorize.c\<close>), which decides what the identity key signs.  A request is the list
  of its bytes; \<open>Inr True\<close> and \<open>Inr False\<close> are the results 1 and 0, \<open>Inl Undefined\<close> a read outside the request.
  Log messages are left out.
\<close>

section \<open>Roles, payload types and sign types\<close>

definition FD_KEYGUARD_SIGN_REQ_MTU :: nat where "FD_KEYGUARD_SIGN_REQ_MTU = 2048"

definition FD_KEYGUARD_ROLE_TXSEND :: int where "FD_KEYGUARD_ROLE_TXSEND = 0"
definition FD_KEYGUARD_ROLE_GOSSIP :: int where "FD_KEYGUARD_ROLE_GOSSIP = 1"
definition FD_KEYGUARD_ROLE_LEADER :: int where "FD_KEYGUARD_ROLE_LEADER = 2"
definition FD_KEYGUARD_ROLE_REPAIR :: int where "FD_KEYGUARD_ROLE_REPAIR = 4"
definition FD_KEYGUARD_ROLE_BUNDLE :: int where "FD_KEYGUARD_ROLE_BUNDLE = 5"
definition FD_KEYGUARD_ROLE_EVENT :: int where "FD_KEYGUARD_ROLE_EVENT = 6"
definition FD_KEYGUARD_ROLE_BUNDLE_CRANK :: int where "FD_KEYGUARD_ROLE_BUNDLE_CRANK = 7"
definition FD_KEYGUARD_ROLE_RSERVE :: int where "FD_KEYGUARD_ROLE_RSERVE = 8"

definition FD_KEYGUARD_PAYLOAD_TXN :: u64 where "FD_KEYGUARD_PAYLOAD_TXN = push_bit 0 1"
definition FD_KEYGUARD_PAYLOAD_GOSSIP :: u64 where "FD_KEYGUARD_PAYLOAD_GOSSIP = push_bit 1 1"
definition FD_KEYGUARD_PAYLOAD_PRUNE :: u64 where "FD_KEYGUARD_PAYLOAD_PRUNE = push_bit 2 1"
definition FD_KEYGUARD_PAYLOAD_SHRED :: u64 where "FD_KEYGUARD_PAYLOAD_SHRED = push_bit 3 1"
definition FD_KEYGUARD_PAYLOAD_TLS_CV :: u64 where "FD_KEYGUARD_PAYLOAD_TLS_CV = push_bit 4 1"
definition FD_KEYGUARD_PAYLOAD_REPAIR :: u64 where "FD_KEYGUARD_PAYLOAD_REPAIR = push_bit 6 1"
definition FD_KEYGUARD_PAYLOAD_PING :: u64 where "FD_KEYGUARD_PAYLOAD_PING = push_bit 7 1"
definition FD_KEYGUARD_PAYLOAD_BUNDLE :: u64 where "FD_KEYGUARD_PAYLOAD_BUNDLE = push_bit 8 1"
definition FD_KEYGUARD_PAYLOAD_EVENT :: u64 where "FD_KEYGUARD_PAYLOAD_EVENT = push_bit 9 1"
definition FD_KEYGUARD_PAYLOAD_PONG :: u64 where "FD_KEYGUARD_PAYLOAD_PONG = push_bit 10 1"

definition FD_KEYGUARD_SIGN_TYPE_ED25519 :: int where "FD_KEYGUARD_SIGN_TYPE_ED25519 = 0"
definition FD_KEYGUARD_SIGN_TYPE_SHA256_ED25519 :: int where "FD_KEYGUARD_SIGN_TYPE_SHA256_ED25519 = 1"
definition FD_KEYGUARD_SIGN_TYPE_PUBKEY_CONCAT_ED25519 :: int where "FD_KEYGUARD_SIGN_TYPE_PUBKEY_CONCAT_ED25519 = 2"

record fd_keyguard_authority =
  identity_pubkey :: "u8 list"

text \<open>Kinds of gossip values and of repair messages.\<close>

definition FD_GOSSIP_VALUE_VOTE :: u32 where "FD_GOSSIP_VALUE_VOTE = 1"
definition FD_GOSSIP_VALUE_DUPLICATE_SHRED :: u32 where "FD_GOSSIP_VALUE_DUPLICATE_SHRED = 9"
definition FD_GOSSIP_VALUE_CONTACT_INFO :: u32 where "FD_GOSSIP_VALUE_CONTACT_INFO = 11"
definition FD_GOSSIP_VALUE_CNT :: u32 where "FD_GOSSIP_VALUE_CNT = 14"
definition FD_REPAIR_KIND_SHRED :: u32 where "FD_REPAIR_KIND_SHRED = 8"
definition FD_REPAIR_KIND_HIGHEST_SHRED :: u32 where "FD_REPAIR_KIND_HIGHEST_SHRED = 9"
definition FD_REPAIR_KIND_ORPHAN :: u32 where "FD_REPAIR_KIND_ORPHAN = 10"
definition FD_FEATURE_SET_ID :: u32 where "FD_FEATURE_SET_ID = 2873139084"

text \<open>Character arrays: the characters of a literal, and with the terminator.\<close>

definition chars :: "string \<Rightarrow> u8 list" where
  "chars s = map (\<lambda>c. of_char c) s"

definition ping_pong :: "u8 list" where
  "ping_pong = chars ''SOLANA_PING_PONG''"

definition prune_prefix :: "u8 list" where
  "prune_prefix = 0xFF # chars ''SOLANA_PRUNE_DATA''"

definition client_prefix :: "u8 list" where
  "client_prefix = replicate 64 0x20 @ chars ''TLS 1.3, client CertificateVerify'' @ [0]"

definition server_prefix :: "u8 list" where
  "server_prefix = replicate 64 0x20 @ chars ''TLS 1.3, server CertificateVerify'' @ [0]"

definition sign_prefix :: "u8 list" where
  "sign_prefix = replicate 64 0x20 @ chars ''Firedancer event challenge-response'' @ [0]"

section \<open>Matching\<close>

text \<open>The comparison with \<open>memcmp\<close> of the bytes at an offset.\<close>

definition eq_at :: "u8 list \<Rightarrow> nat \<Rightarrow> u8 list \<Rightarrow> bool parse" where
  "eq_at data off bytes = bytes_in data off (length bytes) (\<lambda>b. Inr (b = bytes))"

definition txn_msg_min_sz :: nat where
  "txn_msg_min_sz = FD_TXN_MIN_SERIALIZED_SZ - 1 - 64"

text \<open>The signature count of a message and the position behind it.\<close>

definition msg_sig_cnt :: "u8 list \<Rightarrow> (u8 \<times> nat) option parse" where
  "msg_sig_cnt data =
     byte_at data 0 (\<lambda>header_b0.
       if header_b0 AND 0x80 \<noteq> 0
       then (if header_b0 AND 0x7F \<noteq> FD_TXN_V0 then Inr None else byte_at data 1 (\<lambda>sig_cnt. Inr (Some (sig_cnt, 2))))
       else Inr (Some (header_b0, 1)))"

definition fd_keyguard_payload_matches_txn_msg :: "u8 list \<Rightarrow> int \<Rightarrow> bool parse" where
  "fd_keyguard_payload_matches_txn_msg data sign_type =
     (if sign_type \<noteq> FD_KEYGUARD_SIGN_TYPE_ED25519 then Inr False
      else if length data < txn_msg_min_sz then Inr False
      else andthen (msg_sig_cnt data) (\<lambda>r. case r of
        None \<Rightarrow> Inr False
      | Some (sig_cnt, cursor) \<Rightarrow>
          if sig_cnt = 0 then Inr False
          else if 2 ^ 64 \<le> unat sig_cnt * 64 then Inr False
          else if FD_TXN_MTU - txn_msg_min_sz < unat sig_cnt * 64 then Inr False
          else let cursor = cursor + 2 in
            if length data < cursor + 3 then Inr False
            else andthen (fd_cu16_dec_sz data cursor 3) (\<lambda>addr_cnt_sz.
              if addr_cnt_sz = 0 then Inr False
              else andthen (fd_cu16_dec_fixed data cursor addr_cnt_sz) (\<lambda>addr_cnt.
                if unat addr_cnt < unat sig_cnt then Inr False else Inr True))))"

definition fd_keyguard_payload_matches_ping_msg :: "u8 list \<Rightarrow> int \<Rightarrow> bool parse" where
  "fd_keyguard_payload_matches_ping_msg data sign_type =
     (if sign_type = FD_KEYGUARD_SIGN_TYPE_ED25519 \<and> length data = 32 then eq_at data 0 ping_pong else Inr False)"

definition fd_keyguard_payload_matches_pong_msg :: "u8 list \<Rightarrow> int \<Rightarrow> bool parse" where
  "fd_keyguard_payload_matches_pong_msg data sign_type =
     (if sign_type = FD_KEYGUARD_SIGN_TYPE_SHA256_ED25519 \<and> length data = 48 then eq_at data 0 ping_pong else Inr False)"

definition fd_keyguard_payload_matches_prune_data :: "u8 list \<Rightarrow> int \<Rightarrow> bool parse" where
  "fd_keyguard_payload_matches_prune_data data sign_type =
     (if sign_type \<noteq> FD_KEYGUARD_SIGN_TYPE_ED25519 then Inr False
      else if length data < 106 then Inr False
      else load_at 8 data 0 (\<lambda>(n :: u64).
        if n \<noteq> 18 then Inr False
        else andthen (eq_at data 8 prune_prefix) (\<lambda>eq.
          if \<not> eq then Inr False
          else load_at 8 data 58 (\<lambda>(prune_cnt :: u64).
            if 2 ^ 64 \<le> unat prune_cnt * 32 then Inr False
            else if 2 ^ 64 \<le> unat prune_cnt * 32 + 106 then Inr False
            else if length data \<noteq> unat prune_cnt * 32 + 106 then Inr False
            else Inr True))))"

definition fd_keyguard_payload_matches_gossip :: "u8 list \<Rightarrow> int \<Rightarrow> bool parse" where
  "fd_keyguard_payload_matches_gossip data sign_type =
     (if sign_type \<noteq> FD_KEYGUARD_SIGN_TYPE_ED25519 then Inr False
      else if length data < 36 then Inr False
      else load_at 4 data 0 (\<lambda>tag. Inr (tag < FD_GOSSIP_VALUE_CNT)))"

definition fd_keyguard_payload_matches_repair :: "u8 list \<Rightarrow> int \<Rightarrow> bool parse" where
  "fd_keyguard_payload_matches_repair data sign_type =
     (if sign_type \<noteq> FD_KEYGUARD_SIGN_TYPE_ED25519 then Inr False
      else if length data < 36 then Inr False
      else load_at 4 data 0 (\<lambda>kind.
        Inr (kind = FD_REPAIR_KIND_SHRED \<or> kind = FD_REPAIR_KIND_HIGHEST_SHRED \<or> kind = FD_REPAIR_KIND_ORPHAN)))"

definition fd_keyguard_payload_matches_shred :: "u8 list \<Rightarrow> int \<Rightarrow> bool parse" where
  "fd_keyguard_payload_matches_shred data sign_type =
     (if sign_type \<noteq> FD_KEYGUARD_SIGN_TYPE_ED25519 then Inr False
      else if length data \<noteq> 32 then Inr False else Inr True)"

definition fd_keyguard_payload_matches_tls_cv :: "u8 list \<Rightarrow> int \<Rightarrow> bool parse" where
  "fd_keyguard_payload_matches_tls_cv data sign_type =
     (if sign_type \<noteq> FD_KEYGUARD_SIGN_TYPE_ED25519 then Inr False
      else if length data = 130 \<or> length data = 146 \<or> length data = 162
      then andthen (eq_at data 0 client_prefix) (\<lambda>is_client.
           andthen (eq_at data 0 server_prefix) (\<lambda>is_server. Inr (is_client \<or> is_server)))
      else Inr False)"

definition fd_keyguard_payload_matches_bundle :: "u8 list \<Rightarrow> int \<Rightarrow> bool parse" where
  "fd_keyguard_payload_matches_bundle data sign_type =
     (if sign_type \<noteq> FD_KEYGUARD_SIGN_TYPE_PUBKEY_CONCAT_ED25519 then Inr False
      else if length data \<noteq> 9 then Inr False else Inr True)"

definition fd_keyguard_payload_matches_event :: "u8 list \<Rightarrow> int \<Rightarrow> bool parse" where
  "fd_keyguard_payload_matches_event data sign_type =
     (if length data \<noteq> length sign_prefix + 217 then Inr False
      else if sign_type \<noteq> FD_KEYGUARD_SIGN_TYPE_ED25519 then Inr False
      else eq_at data 0 sign_prefix)"

definition match_bit :: "bool parse \<Rightarrow> u64 \<Rightarrow> (u64 \<Rightarrow> 'a parse) \<Rightarrow> u64 \<Rightarrow> 'a parse" where
  "match_bit matches flag k res = andthen matches (\<lambda>b. k (res OR (if b then flag else 0)))"

definition fd_keyguard_payload_match :: "u8 list \<Rightarrow> int \<Rightarrow> u64 parse" where
  "fd_keyguard_payload_match data sign_type =
     (match_bit (fd_keyguard_payload_matches_txn_msg data sign_type) FD_KEYGUARD_PAYLOAD_TXN
     (match_bit (fd_keyguard_payload_matches_gossip data sign_type) FD_KEYGUARD_PAYLOAD_GOSSIP
     (match_bit (fd_keyguard_payload_matches_repair data sign_type) FD_KEYGUARD_PAYLOAD_REPAIR
     (match_bit (fd_keyguard_payload_matches_prune_data data sign_type) FD_KEYGUARD_PAYLOAD_PRUNE
     (match_bit (fd_keyguard_payload_matches_shred data sign_type) FD_KEYGUARD_PAYLOAD_SHRED
     (match_bit (fd_keyguard_payload_matches_tls_cv data sign_type) FD_KEYGUARD_PAYLOAD_TLS_CV
     (match_bit (fd_keyguard_payload_matches_ping_msg data sign_type) FD_KEYGUARD_PAYLOAD_PING
     (match_bit (fd_keyguard_payload_matches_pong_msg data sign_type) FD_KEYGUARD_PAYLOAD_PONG
     (match_bit (fd_keyguard_payload_matches_bundle data sign_type) FD_KEYGUARD_PAYLOAD_BUNDLE
     (match_bit (fd_keyguard_payload_matches_event data sign_type) FD_KEYGUARD_PAYLOAD_EVENT
       Inr)))))))))) 0"

section \<open>Authorization\<close>

definition identity_at :: "fd_keyguard_authority \<Rightarrow> u8 list \<Rightarrow> nat \<Rightarrow> bool parse" where
  "identity_at authority data off = bytes_in data off 32 (\<lambda>b. Inr (b = identity_pubkey authority))"

text \<open>A test: return 0 unless it holds.\<close>

definition require :: "bool \<Rightarrow> bool parse \<Rightarrow> bool parse" where
  "require cond k = (if cond then k else Inr False)"

definition requires :: "bool parse \<Rightarrow> bool parse \<Rightarrow> bool parse" where
  "requires test k = andthen test (\<lambda>cond. require cond k)"

definition fd_keyguard_authorize_vote_txn :: "fd_keyguard_authority \<Rightarrow> u8 list \<Rightarrow> int \<Rightarrow> bool parse" where
  "fd_keyguard_authorize_vote_txn authority data sign_type =
     require (sign_type = FD_KEYGUARD_SIGN_TYPE_ED25519) (
     require (length data \<le> FD_TXN_MTU) (
     byte_at data 0 (\<lambda>signer_cnt.
     require (signer_cnt = 1 \<or> signer_cnt = 2) (
     require (\<not> (signer_cnt = 1 \<and> length data \<le> 140)) (
     require (\<not> (signer_cnt = 2 \<and> length data \<le> 172)) (
     byte_at data 1 (\<lambda>b. require (int (unat b) = int (unat signer_cnt) - 1) (
     byte_at data 2 (\<lambda>b. require (b = 1) (
     andthen (fd_cu16_dec_sz data 3 3) (\<lambda>bytes. require (bytes = 1) (
     let acc_cnt = 2 + unat signer_cnt in
     byte_at data 3 (\<lambda>b. require (unat b = acc_cnt) (
     requires (identity_at authority data 4) (
     let off = 4 + (acc_cnt + 1) * 32 in
     andthen (fd_cu16_dec_sz data off 3) (\<lambda>bytes.
     byte_at data off (\<lambda>instr_cnt. require (bytes = 1) (require (instr_cnt = 1) (
     let off = off + 1 in
     byte_at data off (\<lambda>program_id. require (unat program_id = acc_cnt - 1) (
     let program_acct_off = 4 + unat program_id * 32 in
     requires (eq_at data program_acct_off vote_program_id) (
     let off = off + 1 in
     andthen (fd_cu16_dec_sz data off 3) (\<lambda>bytes. require (bytes = 1) (
     byte_at data off (\<lambda>b. require (b = 2) (
     let off = off + 3 in
     andthen (fd_cu16_dec_sz data off 3) (\<lambda>bytes.
     let off = off + bytes in
     byte_at data off (\<lambda>b. require (b = 14) (Inr True)))))))))))))))))))))))))))))"

text \<open>The position behind an integer of variable length, of at most \<open>n\<close> bytes.\<close>

primrec skip_var_int :: "u8 list \<Rightarrow> nat \<Rightarrow> nat \<Rightarrow> (nat \<Rightarrow> 'a parse) \<Rightarrow> 'a parse" where
  "skip_var_int data 0 off k = k off"
| "skip_var_int data (Suc n) off k = byte_at data off (\<lambda>b. if b AND 0x80 = 0 then k (off + 1) else skip_var_int data n (off + 1) k)"

text \<open>The checks of each kind of gossip value: the offset of the origin if they pass.\<close>

definition gossip_vote_ok :: "fd_keyguard_authority \<Rightarrow> u8 list \<Rightarrow> bool parse" where
  "gossip_vote_ok authority data =
     require (\<not> length data < 4 + 1 + 32 + FD_TXN_MIN_SERIALIZED_SZ + 8) (
     byte_at data (4 + 1 + 32) (\<lambda>sig_cnt.
     require (\<not> (sig_cnt = 0 \<or> 2 < unat sig_cnt)) (
     let vote_off = 4 + 1 + 32 + 1 + 64 * unat sig_cnt in
     fd_keyguard_authorize_vote_txn authority (take (ulong_sub (length data) (vote_off + 8)) (drop vote_off data))
       FD_KEYGUARD_SIGN_TYPE_ED25519)))"

definition gossip_contact_info_ok :: "u8 list \<Rightarrow> bool parse" where
  "gossip_contact_info_ok data =
     require (\<not> length data < 62) (
     skip_var_int data 10 (4 + 32) (\<lambda>off. let off = off + (8 + 2) in
     require (\<not> length data < off + 15) (
     skip_var_int data 3 off (\<lambda>off. skip_var_int data 3 off (\<lambda>off. skip_var_int data 3 off (\<lambda>off.
     require (\<not> length data < off + 12) (
     load_at 4 data off (\<lambda>(commit :: u32). let off = off + 4 in
     load_at 4 data off (\<lambda>feature_set. let off = off + 4 in
     byte_at data off (\<lambda>client_id.
     require (feature_set = FD_FEATURE_SET_ID) (require (client_id = 5) (Inr True))))))))))))"

definition gossip_duplicate_shred_ok :: "u8 list \<Rightarrow> bool parse" where
  "gossip_duplicate_shred_ok data =
     require (\<not> length data < 4 + 65) (
     load_at 8 data (4 + 57) (\<lambda>(chunk_len :: u64).
     require (length data = ulong_add (4 + 65) (unat chunk_len)) (Inr True)))"

definition fd_keyguard_authorize_gossip :: "fd_keyguard_authority \<Rightarrow> u8 list \<Rightarrow> int \<Rightarrow> bool parse" where
  "fd_keyguard_authorize_gossip authority data sign_type =
     require (sign_type = FD_KEYGUARD_SIGN_TYPE_ED25519) (
     require (\<not> length data < 36) (
     require (\<not> 1188 - 64 < length data) (
     load_at 4 data 0 (\<lambda>tag.
     let origin = (\<lambda>origin_off. require (\<not> length data < 4 + origin_off + 32) (identity_at authority data (4 + origin_off))) in
     if tag = FD_GOSSIP_VALUE_VOTE then requires (gossip_vote_ok authority data) (origin 1)
     else if tag = FD_GOSSIP_VALUE_CONTACT_INFO then requires (gossip_contact_info_ok data) (origin 0)
     else if tag = FD_GOSSIP_VALUE_DUPLICATE_SHRED then requires (gossip_duplicate_shred_ok data) (origin 2)
     else Inr False))))"

definition FD_BUNDLE_CRANK_2_SZ :: nat where "FD_BUNDLE_CRANK_2_SZ = 780"
definition FD_BUNDLE_CRANK_3_SZ :: nat where "FD_BUNDLE_CRANK_3_SZ = 895"
definition FD_BUNDLE_CRANK_2_IX1_DISC_OFF :: nat where "FD_BUNDLE_CRANK_2_IX1_DISC_OFF = 734"
definition FD_BUNDLE_CRANK_2_IX2_DISC_OFF :: nat where "FD_BUNDLE_CRANK_2_IX2_DISC_OFF = 758"
definition FD_BUNDLE_CRANK_3_IX1_DISC_OFF :: nat where "FD_BUNDLE_CRANK_3_IX1_DISC_OFF = 790"
definition FD_BUNDLE_CRANK_3_IX2_DISC_OFF :: nat where "FD_BUNDLE_CRANK_3_IX2_DISC_OFF = 849"
definition FD_BUNDLE_CRANK_3_IX3_DISC_OFF :: nat where "FD_BUNDLE_CRANK_3_IX3_DISC_OFF = 873"
definition FD_BUNDLE_CRANK_DISC_INIT_TIP_DISTR :: "u8 list" where
  "FD_BUNDLE_CRANK_DISC_INIT_TIP_DISTR = [0x78, 0xbf, 0x19, 0xb6, 0x6f, 0x31, 0xb3, 0x37]"
definition FD_BUNDLE_CRANK_DISC_CHANGE_TIP_RCV :: "u8 list" where
  "FD_BUNDLE_CRANK_DISC_CHANGE_TIP_RCV = [0x45, 0x63, 0x16, 0x47, 0x0b, 0xe7, 0x56, 0x8f]"
definition FD_BUNDLE_CRANK_DISC_CHANGE_BLK_BLD :: "u8 list" where
  "FD_BUNDLE_CRANK_DISC_CHANGE_BLK_BLD = [0x86, 0x50, 0x26, 0x89, 0xa5, 0x15, 0x72, 0x7b]"

definition fd_keyguard_authorize_bundle_crank_txn :: "u8 list \<Rightarrow> int \<Rightarrow> bool parse" where
  "fd_keyguard_authorize_bundle_crank_txn data sign_type =
     require (sign_type = FD_KEYGUARD_SIGN_TYPE_ED25519) (
     if length data = FD_BUNDLE_CRANK_2_SZ - 65
     then requires (eq_at data (FD_BUNDLE_CRANK_2_IX1_DISC_OFF - 65) FD_BUNDLE_CRANK_DISC_CHANGE_TIP_RCV)
            (eq_at data (FD_BUNDLE_CRANK_2_IX2_DISC_OFF - 65) FD_BUNDLE_CRANK_DISC_CHANGE_BLK_BLD)
     else if length data = FD_BUNDLE_CRANK_3_SZ - 65
     then requires (eq_at data (FD_BUNDLE_CRANK_3_IX1_DISC_OFF - 65) FD_BUNDLE_CRANK_DISC_INIT_TIP_DISTR)
            (requires (eq_at data (FD_BUNDLE_CRANK_3_IX2_DISC_OFF - 65) FD_BUNDLE_CRANK_DISC_CHANGE_TIP_RCV)
              (eq_at data (FD_BUNDLE_CRANK_3_IX3_DISC_OFF - 65) FD_BUNDLE_CRANK_DISC_CHANGE_BLK_BLD))
     else Inr False)"

definition fd_keyguard_authorize_ping :: "u8 list \<Rightarrow> int \<Rightarrow> bool parse" where
  "fd_keyguard_authorize_ping data sign_type =
     require (sign_type = FD_KEYGUARD_SIGN_TYPE_ED25519) (
     require (length data = 32) (requires (eq_at data 0 ping_pong) (Inr True)))"

definition fd_keyguard_authorize_pong :: "u8 list \<Rightarrow> int \<Rightarrow> bool parse" where
  "fd_keyguard_authorize_pong data sign_type =
     require (sign_type = FD_KEYGUARD_SIGN_TYPE_SHA256_ED25519) (
     require (length data = 48) (requires (eq_at data 0 ping_pong) (Inr True)))"

definition fd_keyguard_authorize_gossip_prune :: "fd_keyguard_authority \<Rightarrow> u8 list \<Rightarrow> int \<Rightarrow> bool parse" where
  "fd_keyguard_authorize_gossip_prune authority data sign_type =
     require (sign_type = FD_KEYGUARD_SIGN_TYPE_ED25519) (
     require (\<not> length data < 66) (
     load_at 8 data 0 (\<lambda>(n :: u64). require (n = 18) (
     requires (eq_at data 8 prune_prefix) (
     requires (identity_at authority data 26) (Inr True))))))"

definition fd_keyguard_authorize_repair :: "fd_keyguard_authority \<Rightarrow> u8 list \<Rightarrow> int \<Rightarrow> bool parse" where
  "fd_keyguard_authorize_repair authority data sign_type =
     require (sign_type = FD_KEYGUARD_SIGN_TYPE_ED25519) (
     require (\<not> length data < 80) (
     load_at 4 data 0 (\<lambda>(discriminant :: u32).
     require (\<not> discriminant < 8) (require (\<not> 11 < discriminant) (
     requires (identity_at authority data 4) (Inr True))))))"

definition fd_keyguard_authorize_tls_cv :: "u8 list \<Rightarrow> int \<Rightarrow> bool parse" where
  "fd_keyguard_authorize_tls_cv data sign_type =
     require (sign_type = FD_KEYGUARD_SIGN_TYPE_ED25519) (
     require (length data = 130) (eq_at data 0 client_prefix))"

text \<open>One of the alternatives of a role: the payload has the type and the check passes.\<close>

definition alternative :: "u64 \<Rightarrow> u64 \<Rightarrow> bool parse \<Rightarrow> bool parse" where
  "alternative payload_mask flag k = require (payload_mask AND flag \<noteq> 0) k"

text \<open>Every alternative is evaluated, then one must have passed.\<close>

fun any_of :: "bool parse list \<Rightarrow> bool parse" where
  "any_of [] = Inr False"
| "any_of (m # ms) = andthen m (\<lambda>b. andthen (any_of ms) (\<lambda>c. Inr (b \<or> c)))"

definition fd_keyguard_payload_authorize :: "fd_keyguard_authority \<Rightarrow> u8 list \<Rightarrow> int \<Rightarrow> int \<Rightarrow> bool parse" where
  "fd_keyguard_payload_authorize authority data role sign_type =
     require (\<not> FD_KEYGUARD_SIGN_REQ_MTU < length data) (
     andthen (fd_keyguard_payload_match data sign_type) (\<lambda>payload_mask.
     if role = FD_KEYGUARD_ROLE_TXSEND then any_of
       [alternative payload_mask FD_KEYGUARD_PAYLOAD_TXN (fd_keyguard_authorize_vote_txn authority data sign_type),
        alternative payload_mask FD_KEYGUARD_PAYLOAD_TLS_CV (fd_keyguard_authorize_tls_cv data sign_type)]
     else if role = FD_KEYGUARD_ROLE_GOSSIP then any_of
       [alternative payload_mask FD_KEYGUARD_PAYLOAD_PING (fd_keyguard_authorize_ping data sign_type),
        alternative payload_mask FD_KEYGUARD_PAYLOAD_PONG (fd_keyguard_authorize_pong data sign_type),
        alternative payload_mask FD_KEYGUARD_PAYLOAD_PRUNE (fd_keyguard_authorize_gossip_prune authority data sign_type),
        alternative payload_mask FD_KEYGUARD_PAYLOAD_GOSSIP (fd_keyguard_authorize_gossip authority data sign_type)]
     else if role = FD_KEYGUARD_ROLE_REPAIR then any_of
       [alternative payload_mask FD_KEYGUARD_PAYLOAD_PING (fd_keyguard_authorize_ping data sign_type),
        alternative payload_mask FD_KEYGUARD_PAYLOAD_PONG (fd_keyguard_authorize_pong data sign_type),
        alternative payload_mask FD_KEYGUARD_PAYLOAD_REPAIR (fd_keyguard_authorize_repair authority data sign_type)]
     else if role = FD_KEYGUARD_ROLE_LEADER then Inr (payload_mask = FD_KEYGUARD_PAYLOAD_SHRED)
     else if role = FD_KEYGUARD_ROLE_BUNDLE then Inr (payload_mask = FD_KEYGUARD_PAYLOAD_BUNDLE)
     else if role = FD_KEYGUARD_ROLE_EVENT then Inr (payload_mask = FD_KEYGUARD_PAYLOAD_EVENT)
     else if role = FD_KEYGUARD_ROLE_BUNDLE_CRANK
     then require (payload_mask = FD_KEYGUARD_PAYLOAD_TXN) (fd_keyguard_authorize_bundle_crank_txn data sign_type)
     else if role = FD_KEYGUARD_ROLE_RSERVE then any_of
       [alternative payload_mask FD_KEYGUARD_PAYLOAD_PING (fd_keyguard_authorize_ping data sign_type)]
     else Inr False))"

end
