(* ===== verification/Txn_Generate.thy ===== *)
theory Txn_Generate
  imports Tower_Serdes Tower
begin

text \<open>
  Building transactions: \<^verbatim>\<open>flamenco/txn/fd_txn_generate.c\<close> and the vote transaction of
  \<^verbatim>\<open>choreo/tower/fd_tower.c\<close>.  The payload is the array of bytes written into; a failed
  \<open>FD_TEST\<close> ends the process, and a copy that leaves an array is \<open>Out_of_bounds\<close>.
\<close>

section \<open>Writing the payload\<close>

datatype gen_fault = Test_failed nat | Out_of_bounds

type_synonym 'a gen = "gen_fault + 'a"

definition test :: "nat \<Rightarrow> bool \<Rightarrow> 'a gen \<Rightarrow> 'a gen" where
  "test line cond k = (if cond then k else Inl (Test_failed line))"

definition put :: "nat \<Rightarrow> u8 list \<Rightarrow> u8 list \<Rightarrow> (u8 list \<Rightarrow> 'a gen) \<Rightarrow> 'a gen" where
  "put off bytes buf k =
     (if off + length bytes \<le> length buf then k (take off buf @ bytes @ drop (off + length bytes) buf) else Inl Out_of_bounds)"

text \<open>A copy of \<open>n\<close> bytes from the front of an array.\<close>

definition copy :: "nat \<Rightarrow> u8 list \<Rightarrow> u64 \<Rightarrow> u8 list \<Rightarrow> (u8 list \<Rightarrow> 'a gen) \<Rightarrow> 'a gen" where
  "copy off src n buf k = (if unat n \<le> length src then put off (take (unat n) src) buf k else Inl Out_of_bounds)"

text \<open>The accounts of a transaction: arrays of addresses.\<close>

record fd_txn_accounts =
  ta_signature_cnt :: u8
  ta_readonly_signed_cnt :: u8
  ta_readonly_unsigned_cnt :: u8
  ta_acct_cnt :: u16
  ta_signers_w :: "u8 list"
  ta_signers_r :: "u8 list"
  ta_non_signers_w :: "u8 list"
  ta_non_signers_r :: "u8 list"

text \<open>The description is filled in place: fields that are not set keep what the memory held.\<close>

definition base_meta :: "fd_txn \<Rightarrow> u64 \<Rightarrow> fd_txn_accounts \<Rightarrow> fd_txn" where
  "base_meta txn_meta num_signatures accounts =
     (let message_off = ucast (num_signatures * 64 + 1);
          acct_addr_off = ucast (ucast message_off + 3 + 1 :: u64);
          recent_blockhash_off = ucast (ucast acct_addr_off + ucast (ta_acct_cnt accounts) * 32 :: u64)
      in txn_meta\<lparr> txn_acct_addr_cnt := ta_acct_cnt accounts, txn_readonly_signed_cnt := ta_readonly_signed_cnt accounts,
           txn_readonly_unsigned_cnt := ta_readonly_unsigned_cnt accounts, txn_message_off := message_off,
           txn_signature_off := 1, txn_instr_cnt := 0, txn_acct_addr_off := acct_addr_off,
           txn_recent_blockhash_off := recent_blockhash_off \<rparr>)"

text \<open>The lists of accounts: the size of each is computed from the counts as an \<open>int\<close> and widened.\<close>

definition signers_write_sz :: "fd_txn_accounts \<Rightarrow> u64" where
  "signers_write_sz accounts =
     32 * word_of_int (int (unat (ta_signature_cnt accounts)) - int (unat (ta_readonly_signed_cnt accounts)))"

definition non_signers_write_sz :: "fd_txn_accounts \<Rightarrow> u64" where
  "non_signers_write_sz accounts =
     32 * word_of_int (int (unat (ta_acct_cnt accounts)) - int (unat (ta_readonly_unsigned_cnt accounts)) - int (unat (ta_signature_cnt accounts)))"

definition fd_txn_base_generate ::
    "fd_txn \<Rightarrow> u8 list \<Rightarrow> u64 \<Rightarrow> fd_txn_accounts \<Rightarrow> u8 list option \<Rightarrow> (fd_txn \<times> u8 list \<times> nat) gen" where
  "fd_txn_base_generate out_txn_meta out_txn_payload num_signatures accounts opt_recent_blockhash =
     test 36 (unat num_signatures \<le> FD_TXN_SIG_MAX) (
     put 0 [ucast num_signatures] out_txn_payload (\<lambda>payload.
     let txn_meta = base_meta out_txn_meta num_signatures accounts in
     test 50 (unat (txn_acct_addr_cnt txn_meta) < FD_TXN_ACCT_ADDR_MAX) (
     let write_ptr = unat (txn_message_off txn_meta) in
     put write_ptr [ta_signature_cnt accounts, ta_readonly_signed_cnt accounts, ta_readonly_unsigned_cnt accounts] payload (\<lambda>payload.
     let write_ptr = write_ptr + 3 in
     put write_ptr [ucast (txn_acct_addr_cnt txn_meta)] payload (\<lambda>payload.
     let write_ptr = write_ptr + 1 in
     copy write_ptr (ta_signers_w accounts) (signers_write_sz accounts) payload (\<lambda>payload.
     let write_ptr = write_ptr + unat (signers_write_sz accounts) in
     copy write_ptr (ta_signers_r accounts) (32 * ucast (ta_readonly_signed_cnt accounts)) payload (\<lambda>payload.
     let write_ptr = write_ptr + 32 * unat (ta_readonly_signed_cnt accounts) in
     copy write_ptr (ta_non_signers_w accounts) (non_signers_write_sz accounts) payload (\<lambda>payload.
     let write_ptr = write_ptr + unat (non_signers_write_sz accounts) in
     copy write_ptr (ta_non_signers_r accounts) (32 * ucast (ta_readonly_unsigned_cnt accounts)) payload (\<lambda>payload.
     let write_ptr = write_ptr + 32 * unat (ta_readonly_unsigned_cnt accounts) in
     test 80 (word_of_nat write_ptr = txn_recent_blockhash_off txn_meta) (
     copy write_ptr (case opt_recent_blockhash of Some blockhash \<Rightarrow> blockhash | None \<Rightarrow> replicate 32 0) 32 payload (\<lambda>payload.
     Inr (txn_meta, payload, write_ptr + FD_TXN_BLOCKHASH_SZ))))))))))))"

section \<open>Adding an instruction\<close>

definition fd_txn_instr_meta_generate :: "u8 \<Rightarrow> u16 \<Rightarrow> u16 \<Rightarrow> u16 \<Rightarrow> u16 \<Rightarrow> fd_txn_instr" where
  "fd_txn_instr_meta_generate program_id acct_cnt data_sz acct_off data_off =
     \<lparr> ti_program_id = program_id, ti_acct_cnt = acct_cnt, ti_data_sz = data_sz, ti_acct_off = acct_off, ti_data_off = data_off \<rparr>"

text \<open>
  Where the instruction starts: behind the count for the first, behind the data of the one before for the
  others.  The list of instructions holds the entries that are set; to read another is \<open>Out_of_bounds\<close>.
\<close>

definition instr_start :: "fd_txn \<Rightarrow> nat \<Rightarrow> nat gen" where
  "instr_start txn_meta first =
     (let n = unat (txn_instr_cnt txn_meta)
      in if 1 < n
         then (if n - 2 < length (txn_instr txn_meta)
               then Inr (unat (ti_data_off (txn_instr txn_meta ! (n - 2))) + unat (ti_data_sz (txn_instr txn_meta ! (n - 2))))
               else Inl Out_of_bounds)
         else Inr first)"

definition fd_txn_add_instr :: "fd_txn \<Rightarrow> u8 list \<Rightarrow> u8 \<Rightarrow> u8 list \<Rightarrow> u64 \<Rightarrow> u8 list \<Rightarrow> u64 \<Rightarrow> (fd_txn \<times> u8 list \<times> nat) gen" where
  "fd_txn_add_instr txn_meta out_txn_payload program_id accounts accounts_sz instr_buf instr_buf_sz =
     test 103 (unat (txn_instr_cnt txn_meta) < FD_TXN_INSTR_MAX) (
     test 104 (txn_recent_blockhash_off txn_meta \<noteq> 0) (
     let write_ptr = unat (txn_recent_blockhash_off txn_meta) + FD_TXN_BLOCKHASH_SZ;
         txn_meta = txn_meta\<lparr> txn_instr_cnt := txn_instr_cnt txn_meta + 1 \<rparr>;
         compact_instr_cnt = fd_cu16_enc (txn_instr_cnt txn_meta) in
     put write_ptr compact_instr_cnt out_txn_payload (\<lambda>payload.
     test 111 (length compact_instr_cnt = 1) (
     andthen (instr_start txn_meta (write_ptr + length compact_instr_cnt)) (\<lambda>write_ptr.
     put write_ptr [program_id] payload (\<lambda>payload.
     let write_ptr = write_ptr + 1; compact_accts_len = fd_cu16_enc (ucast accounts_sz) in
     put write_ptr compact_accts_len payload (\<lambda>payload.
     let write_ptr = write_ptr + length compact_accts_len; acct_off = word_of_nat write_ptr in
     copy write_ptr accounts accounts_sz payload (\<lambda>payload.
     let write_ptr = write_ptr + unat accounts_sz; data_sz = ucast instr_buf_sz; compact_data_len = fd_cu16_enc data_sz in
     put write_ptr compact_data_len payload (\<lambda>payload.
     let write_ptr = write_ptr + length compact_data_len; data_off = word_of_nat write_ptr in
     copy write_ptr instr_buf (ucast data_sz) payload (\<lambda>payload.
     let write_ptr = write_ptr + unat data_sz; k = unat (txn_instr_cnt txn_meta) - 1;
         instr = fd_txn_instr_meta_generate program_id (ucast accounts_sz) data_sz acct_off data_off in
     Inr (txn_meta\<lparr> txn_instr := take k (txn_instr txn_meta) @ instr # drop (k + 1) (txn_instr txn_meta) \<rparr>, payload, write_ptr)))))))))))"

section \<open>Counting the votes of an account\<close>

text \<open>The account is pushed onto the deque of voters with the tower it stores.\<close>

definition fd_tower_count_vote :: "fd_tower \<Rightarrow> fd_pubkey \<Rightarrow> u64 \<Rightarrow> u8 list \<Rightarrow> fd_tower parse" where
  "fd_tower_count_vote tower vote_acc stake data =
     andthen (fd_tower_from_vote_acc data) (\<lambda>(votes, root_slot).
       Inr (tower\<lparr> t_vtrs := t_vtrs tower @ [\<lparr> tv_vote_acc = vote_acc, tv_stake = stake, tv_votes = votes, tv_root = root_slot \<rparr>] \<rparr>))"

section \<open>The vote transaction\<close>

fun tower_offsets :: "u64 \<Rightarrow> fd_tower_vote list \<Rightarrow> fd_compact_lockout list" where
  "tower_offsets prev [] = []"
| "tower_offsets prev (vote # votes) =
     \<lparr> cl_offset = vote_slot vote - prev, cl_confirmation_count = ucast (vote_conf vote) \<rparr> # tower_offsets (vote_slot vote) votes"

definition tower_sync_of :: "fd_tower \<Rightarrow> fd_hash \<Rightarrow> fd_hash \<Rightarrow> u64 \<Rightarrow> fd_compact_tower_sync_serde" where
  "tower_sync_of tower bank_hash block_id timestamp =
     (let root = (if t_root tower = ULONG_MAX then 0 else t_root tower)
      in \<lparr> cts_root = root, cts_lockouts_cnt = word_of_nat (length (t_votes tower)), cts_lockouts = tower_offsets root (t_votes tower),
           cts_hash = bank_hash, cts_timestamp_option = 1, cts_timestamp = timestamp, cts_block_id = block_id \<rparr>)"

text \<open>The accounts: with a separate authority there is a second, read only signer.\<close>

definition vote_accounts :: "u8 list \<Rightarrow> u8 list \<Rightarrow> u8 list \<Rightarrow> fd_txn_accounts" where
  "vote_accounts validator_identity vote_authority vote_acc =
     (if validator_identity = vote_authority
      then \<lparr> ta_signature_cnt = 1, ta_readonly_signed_cnt = 0, ta_readonly_unsigned_cnt = 1, ta_acct_cnt = 3,
             ta_signers_w = validator_identity, ta_signers_r = [], ta_non_signers_w = vote_acc, ta_non_signers_r = vote_program_id \<rparr>
      else \<lparr> ta_signature_cnt = 2, ta_readonly_signed_cnt = 1, ta_readonly_unsigned_cnt = 1, ta_acct_cnt = 4,
             ta_signers_w = validator_identity, ta_signers_r = vote_authority, ta_non_signers_w = vote_acc,
             ta_non_signers_r = vote_program_id \<rparr>)"

text \<open>
  The transaction: its description, its payload and the size of the payload.  \<open>timestamp\<close> is the wall clock in
  seconds.  The serializer writes behind the kind into a buffer of \<open>FD_TXN_MTU\<close> bytes.
\<close>

definition fd_tower_to_vote_txn ::
    "fd_tower \<Rightarrow> fd_hash \<Rightarrow> fd_hash \<Rightarrow> u8 list \<Rightarrow> u8 list \<Rightarrow> u8 list \<Rightarrow> u8 list \<Rightarrow> u64 \<Rightarrow> fd_txn \<Rightarrow> u8 list \<Rightarrow> (fd_txn \<times> u8 list \<times> nat) gen" where
  "fd_tower_to_vote_txn tower bank_hash block_id recent_blockhash validator_identity vote_authority vote_acc timestamp txn_meta_out txn_out =
     test 1211 (length (t_votes tower) \<le> FD_TOWER_VOTE_MAX) (
     let serde = tower_sync_of tower bank_hash block_id timestamp;
         accounts = vote_accounts validator_identity vote_authority vote_acc;
         same_addr = (validator_identity = vote_authority) in
     andthen (fd_txn_base_generate txn_meta_out txn_out (ucast (ta_signature_cnt accounts)) accounts (Some recent_blockhash))
       (\<lambda>(txn_meta, payload, sz).
     test (if same_addr then 1253 else 1271) (sz \<noteq> 0) (
     case fd_compact_tower_sync_ser serde (FD_TXN_MTU - 4) of
       Inl Overrun \<Rightarrow> Inl Out_of_bounds
     | Inl Ser_error \<Rightarrow> Inl (Test_failed 1279)
     | Inr vote_ix \<Rightarrow>
         let vote_ix_buf = le_bytes 4 FD_VOTE_IX_KIND_TOWER_SYNC @ vote_ix;
             program_id = (if same_addr then 2 else 3);
             ix_accs = (if same_addr then [1, 0] else [2, 1]) in
         fd_txn_add_instr txn_meta payload program_id ix_accs 2 vote_ix_buf (word_of_nat (length vote_ix_buf)))))"

end
