(* ===== verification/Txn_Parse.thy ===== *)
theory Txn_Parse
  imports Txn
begin

text \<open>
  The parser against its contract: it reads no byte outside the payload, and what it accepts describes
  ranges of the payload and indices that exist.
\<close>

section \<open>Outcomes\<close>

text \<open>A parse that reads in bounds and whose result, if any, satisfies \<open>Q\<close>.\<close>

definition good :: "'a parse \<Rightarrow> ('a \<Rightarrow> bool) \<Rightarrow> bool" where
  "good m Q \<longleftrightarrow> m \<noteq> Inl Undefined \<and> (\<forall>x. m = Inr x \<longrightarrow> Q x)"

lemma good_Inr [simp]: "good (Inr x) Q \<longleftrightarrow> Q x"
  by (simp add: good_def)

lemma good_reject [simp]: "good (Inl (Reject l)) Q"
  by (simp add: good_def)

lemma good_mono: "good m P \<Longrightarrow> (\<And>x. P x \<Longrightarrow> Q x) \<Longrightarrow> good m Q"
  by (auto simp: good_def)

lemma good_andthen: "good m P \<Longrightarrow> (\<And>x. P x \<Longrightarrow> good (f x) Q) \<Longrightarrow> good (andthen m f) Q"
  by (cases m) (auto simp: good_def andthen_def)

lemma good_check: "(b \<Longrightarrow> good k Q) \<Longrightarrow> good (check l b k) Q"
  by (simp add: check_def)

lemma good_byte_at: "i + 1 \<le> length p \<Longrightarrow> (\<And>b. b = p ! i \<Longrightarrow> unat b < 256 \<Longrightarrow> good (k b) Q) \<Longrightarrow> good (byte_at p i k) Q"
  using unsigned_less[of "p ! i"] by (simp add: byte_at_def)

lemma good_let: "(\<And>j. j = e \<Longrightarrow> good (k j) Q) \<Longrightarrow> good (Let e k) Q"
  by simp

lemma good_byte: "i + 1 \<le> length p \<Longrightarrow> (\<And>b. unat b < 256 \<Longrightarrow> good (k b) Q) \<Longrightarrow> good (byte_at p i k) Q"
  by (rule good_byte_at)

lemma good_let_add: "ulong_add i n = i + n \<Longrightarrow> (\<And>j. j = i + n \<Longrightarrow> good (k j) Q) \<Longrightarrow> good (Let (ulong_add i n) k) Q"
  by simp

lemma good_if: "(b \<Longrightarrow> good m Q) \<Longrightarrow> (\<not> b \<Longrightarrow> good n Q) \<Longrightarrow> good (if b then m else n) Q"
  by simp

lemma good_prod: "(\<And>a b. x = (a, b) \<Longrightarrow> good (f a b) Q) \<Longrightarrow> good (case x of (a, b) \<Rightarrow> f a b) Q"
  by (cases x) simp

text \<open>Positions of a payload that fits the maximal size do not wrap.\<close>

lemma ulong_add_exact: "x + y < 2 ^ 64 \<Longrightarrow> ulong_add x y = x + y"
  by (simp add: ulong_add_def)

lemma ulong_sub_exact: "y \<le> x \<Longrightarrow> x < 2 ^ 64 \<Longrightarrow> ulong_sub x y = x - y"
proof -
  assume "y \<le> x" "x < 2 ^ 64"
  hence "ulong_sub x y = ((x - y) + 2 ^ 64) mod 2 ^ 64" unfolding ulong_sub_def by (simp only: add_diff_assoc2)
  also have "\<dots> = (x - y) mod 2 ^ 64" by (rule mod_add_self2)
  also have "\<dots> = x - y" using \<open>x < 2 ^ 64\<close> by (intro mod_less) simp
  finally show ?thesis .
qed

definition fits :: "u8 list \<Rightarrow> bool" where
  "fits p \<longleftrightarrow> length p \<le> 1232"

lemma good_check_left:
  "fits p \<Longrightarrow> i \<le> length p \<Longrightarrow> (i + n \<le> length p \<Longrightarrow> ulong_add i n = i + n \<Longrightarrow> good k Q) \<Longrightarrow> good (check_left l p i n k) Q"
  unfolding check_left_def fits_def by (rule good_check) (auto simp: ulong_sub_exact ulong_add_exact)

section \<open>Compact integers\<close>

text \<open>The encoding at a position, and the value it stands for.\<close>

definition cu16_at :: "u8 list \<Rightarrow> nat \<Rightarrow> u16 \<Rightarrow> nat \<Rightarrow> bool" where
  "cu16_at p i v sz \<longleftrightarrow> sz = length (fd_cu16_enc v) \<and> i + sz \<le> length p \<and> take sz (drop i p) = fd_cu16_enc v"

lemma and_7F: "(w :: 'a::len word) AND 0x7F = take_bit 7 w"
  by (simp add: take_bit_eq_mask mask_eq_exp_minus_1)

lemma bit7_iff: "(b :: u8) AND 0x80 = 0 \<longleftrightarrow> unat b < 128"
proof -
  have "b AND 0x80 = 0 \<longleftrightarrow> \<not> bit b 7" using and_exp_eq_0_iff_not_bit[of b 7] by simp
  also have "\<dots> \<longleftrightarrow> \<not> bit (unat b) 7" by (simp add: bit_unsigned_iff)
  also have "\<dots> \<longleftrightarrow> unat b < 128" 
  proof (cases "unat b < 128")
    case False
    hence "unat b div 2 ^ 7 = 1" using unsigned_less[of b] by (intro div_nat_eqI) simp_all
    thus ?thesis using False by (simp only: bit_iff_odd) simp
  qed (simp add: bit_iff_odd)
  finally show ?thesis .
qed

lemma high_bits_iff: "(b :: u8) AND 0xFC = 0 \<longleftrightarrow> unat b < 4"
proof -
  have "(0xFC :: u8) = NOT (mask 2)" by (simp add: mask_eq_exp_minus_1)
  hence "b AND 0xFC = 0 \<longleftrightarrow> take_bit 2 b = b"
    by (auto simp: take_bit_eq_mask bit_eq_iff bit_simps)
  also have "\<dots> \<longleftrightarrow> take_bit 2 (unat b) = unat b" by (metis unsigned_take_bit_eq unsigned_word_eqI)
  also have "\<dots> \<longleftrightarrow> unat b < 4" by (simp add: take_bit_nat_eq_self_iff)
  finally show ?thesis .
qed

lemma unat_u8: "unat (b :: u8) < 256"
  using unsigned_less[of b, where 'a=nat] by simp

lemma unat_u16: "unat (v :: u16) < 65536"
  using unsigned_less[of v, where 'a=nat] by simp

lemmas take_bit_nat_mod = take_bit_eq_mod[where 'a=nat]

lemma unat_7F [simp]: "unat (take_bit 7 (w :: 'a::len word)) = unat w mod 128"
  by (simp only: unsigned_take_bit_eq) (simp add: take_bit_eq_mod)

lemma unat_or_80: "unat (w :: u64) < 128 \<Longrightarrow> unat (w OR 0x80) = unat w + 128"
proof -
  assume small: "unat w < 128"
  have "unat w AND 128 = 0"
  proof (rule bit_eqI)
    fix n
    have "bit (128 :: nat) n \<longleftrightarrow> n = 7" using bit_exp_iff[of 7 n, where 'a=nat] by (simp add: possible_bit_def)
    moreover have "\<not> bit (unat w) 7" using small by (simp add: bit_iff_odd)
    ultimately show "bit (unat w AND 128) n = bit 0 n" by (auto simp: bit_simps)
  qed
  thus ?thesis by (simp add: unsigned_or_eq disjunctive_add_eq_or)
qed

lemma unat_low_byte: "unat (ucast (w :: u64) :: u8) = unat w mod 256"
  by (simp add: unsigned_ucast_eq take_bit_nat_mod)

lemma unat_enc:
  "map unat (fd_cu16_enc v) =
     (let n = unat v in if n < 128 then [n] else if n < 16384 then [n mod 128 + 128, n div 128]
      else [n mod 128 + 128, n div 128 mod 128 + 128, n div 16384])"
proof -
  define w where "w = (ucast v :: u64)"
  have n: "unat w = unat v" "unat v < 65536"
    using unat_u16[of v] by (simp_all add: w_def unsigned_ucast_eq take_bit_nat_mod)
  have lt: "0x7F < w \<longleftrightarrow> \<not> unat v < 128" "0x3FFF < w \<longleftrightarrow> \<not> unat v < 16384"
    by (auto simp: word_less_nat_alt n(1))
  have d: "unat (drop_bit k w) = unat v div 2 ^ k" for k by (simp add: unat_drop_bit_eq drop_bit_eq_div[where 'a=nat] n(1))
  have b0: "unat (ucast (w AND 0x7F OR 0x80) :: u8) = unat v mod 128 + 128" "unat (ucast (w AND 0x7F) :: u8) = unat v mod 128"
    by (simp_all add: and_7F unat_low_byte unat_or_80 n(1))
  have b1: "unat (ucast (drop_bit 7 w AND 0x7F OR 0x80) :: u8) = unat v div 128 mod 128 + 128"
      "unat (ucast (drop_bit 7 w AND 0x7F) :: u8) = unat v div 128 mod 128"
    by (simp_all add: and_7F unat_low_byte unat_or_80 d)
  have b2: "unat (ucast (drop_bit 14 w) :: u8) = unat v div 16384" using n(2) by (simp add: unat_low_byte d div_less_iff_less_mult)
  show ?thesis using n(2) b0 b1 b2 by (simp add: fd_cu16_enc_def Let_def w_def[symmetric] lt div_less_iff_less_mult)
qed

lemma unat_dec2:
  "unat (ucast (ucast ((a :: u8) AND 0x7F) + push_bit 7 (ucast (b :: u8)) :: u64) :: u16) = (unat a mod 128 + 128 * unat b) mod 65536"
proof -
  have "unat (ucast (a AND 0x7F) :: u64) = unat a mod 128" 
    using mod_less_divisor[of 128 "unat a"] by (simp add: and_7F unsigned_ucast_eq take_bit_nat_mod del: mod_less_divisor)
  moreover have "unat (push_bit 7 (ucast b) :: u64) = 128 * unat b" using unat_u8[of b]
    by (simp add: unsigned_push_bit_eq unsigned_ucast_eq take_bit_nat_mod push_bit_eq_mult[where 'a=nat])
  ultimately have "unat (ucast (a AND 0x7F) + push_bit 7 (ucast b) :: u64) = unat a mod 128 + 128 * unat b"
    using unat_u8[of b] by (subst unat_add64) (simp_all add: mod_less_divisor)
  thus ?thesis by (simp add: unsigned_ucast_eq take_bit_nat_mod)
qed

lemma unat_sum3:
  "unat (ucast ((a :: u8) AND 0x7F) + push_bit 7 (ucast (b :: u8) AND 0x7F) + push_bit 14 (ucast (c :: u8)) :: u64)
     = unat a mod 128 + 128 * (unat b mod 128) + 16384 * unat c"
proof -
  have a: "unat (ucast (a AND 0x7F) :: u64) = unat a mod 128"
    using mod_less_divisor[of 128 "unat a"] by (simp add: and_7F unsigned_ucast_eq take_bit_nat_mod del: mod_less_divisor)
  have b: "unat (push_bit 7 (ucast b AND 0x7F) :: u64) = 128 * (unat b mod 128)"
    using unat_u8[of b] by (simp add: and_7F unsigned_push_bit_eq unsigned_ucast_eq take_bit_nat_mod push_bit_eq_mult[where 'a=nat])
  have c: "unat (push_bit 14 (ucast c) :: u64) = 16384 * unat c" using unat_u8[of c]
    by (simp add: unsigned_push_bit_eq unsigned_ucast_eq take_bit_nat_mod push_bit_eq_mult[where 'a=nat])
  have small: "unat a mod 128 < 128" "unat b mod 128 < 128" "unat c < 256" using unat_u8[of c] by simp_all
  have ab: "unat (ucast (a AND 0x7F) + push_bit 7 (ucast b AND 0x7F) :: u64) = unat a mod 128 + 128 * (unat b mod 128)"
    using small a b by (subst unat_add64) simp_all
  thus ?thesis using small c by (subst unat_add64) simp_all
qed

lemma unat_dec3:
  "unat (ucast (ucast ((a :: u8) AND 0x7F) + push_bit 7 (ucast (b :: u8) AND 0x7F) + push_bit 14 (ucast (c :: u8)) :: u64) :: u16)
     = (unat a mod 128 + 128 * (unat b mod 128) + 16384 * unat c) mod 65536"
  by (simp only: unsigned_ucast_eq take_bit_nat_mod unat_sum3) simp

text \<open>Bytes at a position.\<close>

lemma take_drop_Suc: "i < length p \<Longrightarrow> take (Suc n) (drop i p) = p ! i # take n (drop (Suc i) p)"
  by (simp add: Cons_nth_drop_Suc [symmetric])

lemma bytes_at:
  "i + 1 \<le> length p \<Longrightarrow> take 1 (drop i p) = [p ! i]"
  "i + 2 \<le> length p \<Longrightarrow> take 2 (drop i p) = [p ! i, p ! (i + 1)]"
  "i + 3 \<le> length p \<Longrightarrow> take 3 (drop i p) = [p ! i, p ! (i + 1), p ! (i + 2)]"
  by (simp_all add: take_drop_Suc numeral_2_eq_2 numeral_3_eq_3)

lemma enc_eqI: "map unat bs = map unat (fd_cu16_enc v) \<Longrightarrow> bs = fd_cu16_enc v"
  by (rule map_injective) (auto intro: injI)

lemma length_enc: "length (fd_cu16_enc v) = (if unat v < 128 then 1 else if unat v < 16384 then 2 else 3)"
  using arg_cong[OF unat_enc[of v], of length] by (simp add: Let_def)

lemma digits_128: "(a :: nat) < 128 \<Longrightarrow> (a + 128 * x) mod 128 = a" "a < 128 \<Longrightarrow> (a + 128 * x) div 128 = x"
  by simp_all

lemma dec_sz_cases:
  assumes "i \<le> length p"
  shows "fd_cu16_dec_sz p i (length p - i) =
    (if i + 1 \<le> length p \<and> unat (p ! i) < 128 then Inr 1
     else if i + 2 \<le> length p \<and> unat (p ! (i + 1)) < 128 then (if p ! (i + 1) = 0 then Inr 0 else Inr 2)
     else if i + 3 \<le> length p \<and> unat (p ! (i + 2)) < 4 then (if p ! (i + 2) = 0 then Inr 0 else Inr 3)
     else Inr 0)"
  using assms by (auto simp: fd_cu16_dec_sz_def byte_if_def byte_at_def bit7_iff high_bits_iff)

lemma dec_cu16_at:
  assumes "i \<le> length p" "fd_cu16_dec_sz p i (length p - i) = Inr sz" "sz \<noteq> 0"
  shows "\<exists>v. fd_cu16_dec_fixed p i sz = Inr v \<and> cu16_at p i v sz"
proof -
  let ?a = "p ! i" and ?b = "p ! (i + 1)" and ?c = "p ! (i + 2)"
  consider (one) "sz = 1" "i + 1 \<le> length p" "unat ?a < 128"
    | (two) "sz = 2" "i + 2 \<le> length p" "\<not> unat ?a < 128" "unat ?b < 128" "?b \<noteq> 0"
    | (three) "sz = 3" "i + 3 \<le> length p" "\<not> unat ?a < 128" "\<not> unat ?b < 128" "unat ?c < 4" "?c \<noteq> 0"
    using assms unfolding dec_sz_cases[OF assms(1)] by (auto split: if_splits)
  thus ?thesis
  proof cases
    case one
    define v where "v = (ucast ?a :: u16)"
    have n: "unat v = unat ?a" using one(3) by (simp add: v_def unsigned_ucast_eq take_bit_nat_mod)
    have "[?a] = fd_cu16_enc v" by (rule enc_eqI) (use one(3) in \<open>simp add: unat_enc n\<close>)
    thus ?thesis using one n by (simp add: cu16_at_def length_enc fd_cu16_dec_fixed_def byte_at_def v_def[symmetric] bytes_at(1)[simplified])
  next
    case two
    define v where "v = (ucast (ucast (?a AND 0x7F) + push_bit 7 (ucast ?b) :: u64) :: u16)"
    have b: "0 < unat ?b" using two(5) by (simp add: unat_gt_0)
    have n: "unat v = unat ?a mod 128 + 128 * unat ?b"
      unfolding v_def unat_dec2 using two(4) mod_less_divisor[of 128 "unat ?a"] by (simp del: mod_less_divisor)
    have a: "unat ?a = unat ?a mod 128 + 128" using two(3) unat_u8[of ?a] by (simp add: le_mod_geq)
    have m: "unat v mod 128 = unat ?a mod 128" "unat v div 128 = unat ?b" by (simp_all add: n)
    have r: "\<not> unat v < 128" "unat v < 16384" using n b two(4) mod_less_divisor[of 128 "unat ?a"] by (simp_all del: mod_less_divisor)
    have "[?a, ?b] = fd_cu16_enc v" by (rule enc_eqI) (use a m r in \<open>simp add: unat_enc\<close>)
    moreover have "fd_cu16_dec_fixed p i sz = Inr v" using two(1,2) by (simp add: fd_cu16_dec_fixed_def byte_at_def v_def)
    ultimately show ?thesis using two(1,2) r bytes_at(2)[of i p] by (simp add: cu16_at_def length_enc)
  next
    case three
    define v where "v = (ucast (ucast (?a AND 0x7F) + push_bit 7 (ucast ?b AND 0x7F) + push_bit 14 (ucast ?c) :: u64) :: u16)"
    have c: "0 < unat ?c" using three(6) by (simp add: unat_gt_0)
    have small: "unat ?a mod 128 < 128" "unat ?b mod 128 < 128" by simp_all
    have n: "unat v = unat ?a mod 128 + 128 * (unat ?b mod 128 + 128 * unat ?c)"
      unfolding v_def unat_dec3 using three(5) small by (simp add: algebra_simps del: mod_less_divisor)
    have a: "unat ?a = unat ?a mod 128 + 128" "unat ?b = unat ?b mod 128 + 128"
      using three(3,4) unat_u8[of ?a] unat_u8[of ?b] by (simp_all add: le_mod_geq)
    have m: "unat v mod 128 = unat ?a mod 128" "unat v div 128 = unat ?b mod 128 + 128 * unat ?c"
      using digits_128[OF small(1)] n by metis+
    have "unat v div 16384 = unat v div 128 div 128" by (simp add: div_mult2_eq [symmetric])
    hence m': "unat v div 128 mod 128 = unat ?b mod 128" "unat v div 16384 = unat ?c"
      using digits_128[OF small(2)] m(2) by metis+
    have r: "\<not> unat v < 128" "\<not> unat v < 16384" using n c by simp_all
    have "[?a, ?b, ?c] = fd_cu16_enc v" by (rule enc_eqI) (use a m(1) m' r in \<open>simp add: unat_enc\<close>)
    moreover have "fd_cu16_dec_fixed p i sz = Inr v" using three(1,2) by (simp add: fd_cu16_dec_fixed_def byte_at_def v_def)
    ultimately show ?thesis using three(1,2) r bytes_at(3)[of i p] by (simp add: cu16_at_def length_enc)
  qed
qed


lemma div_mod_eqI: "(m :: nat) div k = n div k \<Longrightarrow> m mod k = n mod k \<Longrightarrow> m = n"
  by (metis div_mult_mod_eq)

lemma enc_inj: "fd_cu16_enc v = fd_cu16_enc w \<Longrightarrow> v = w"
proof -
  assume eq: "fd_cu16_enc v = fd_cu16_enc w"
  let ?m = "unat v" and ?n = "unat w"
  have e: "map unat (fd_cu16_enc v) = map unat (fd_cu16_enc w)" using eq by simp
  have d: "?m div 16384 = ?m div 128 div 128" "?n div 16384 = ?n div 128 div 128" by (simp_all add: div_mult2_eq [symmetric])
  have "?m = ?n"
  proof (cases "?m < 128")
    case True
    thus ?thesis using e by (simp add: unat_enc Let_def split: if_splits)
  next
    case False
    show ?thesis
    proof (cases "?m < 16384")
      case True
      thus ?thesis using e False div_mod_eqI[of ?m 128 ?n] by (simp add: unat_enc Let_def split: if_splits)
    next
      case big: False
      hence "?m mod 128 = ?n mod 128" "?m div 128 mod 128 = ?n div 128 mod 128" "?m div 128 div 128 = ?n div 128 div 128"
        using e False d by (simp_all add: unat_enc Let_def split: if_splits)
      thus ?thesis using div_mod_eqI[of "?m div 128" 128 "?n div 128"] div_mod_eqI[of ?m 128 ?n] by blast
    qed
  qed
  thus ?thesis by (rule unsigned_word_eqI)
qed

lemma cu16_at_dec:
  assumes "cu16_at p i v sz"
  shows "fd_cu16_dec_sz p i (length p - i) = Inr sz" "fd_cu16_dec_fixed p i sz = Inr v"
proof -
  let ?n = "unat v"
  have le: "i + sz \<le> length p" and sz: "sz = length (fd_cu16_enc v)" and bytes: "map unat (take sz (drop i p)) = map unat (fd_cu16_enc v)"
    using assms by (auto simp: cu16_at_def)
  have nz: "x = 0 \<longleftrightarrow> unat x = 0" for x :: u8 by (simp add: unat_eq_0)
  show dec: "fd_cu16_dec_sz p i (length p - i) = Inr sz"
  proof (cases "?n < 128")
    case True
    thus ?thesis using le bytes bytes_at(1)[of i p] by (simp add: sz length_enc dec_sz_cases unat_enc Let_def)
  next
    case False
    show ?thesis
    proof (cases "?n < 16384")
      case True
      hence b: "unat (p ! i) = ?n mod 128 + 128" "unat (p ! (i + 1)) = ?n div 128" "i + 2 \<le> length p" "sz = 2"
        using False le bytes bytes_at(2)[of i p] by (simp_all add: sz length_enc unat_enc Let_def)
      hence "unat (p ! (i + 1)) < 128" "p ! (i + 1) \<noteq> 0" using True False nz by (simp_all add: div_less_iff_less_mult div_eq_0_iff)
      thus ?thesis using b by (simp add: dec_sz_cases)
    next
      case big: False
      hence b: "unat (p ! i) = ?n mod 128 + 128" "unat (p ! (i + 1)) = ?n div 128 mod 128 + 128" "unat (p ! (i + 2)) = ?n div 16384"
          "i + 3 \<le> length p" "sz = 3"
        using False le bytes bytes_at(3)[of i p] by (simp_all add: sz length_enc unat_enc Let_def)
      hence "unat (p ! (i + 2)) < 4" "p ! (i + 2) \<noteq> 0" using big unat_u16[of v] nz by (simp_all add: div_less_iff_less_mult div_eq_0_iff)
      thus ?thesis using b by (simp add: dec_sz_cases)
    qed
  qed
  have "sz \<noteq> 0" by (simp add: sz length_enc)
  then obtain v' where "fd_cu16_dec_fixed p i sz = Inr v'" "cu16_at p i v' sz" using dec_cu16_at[OF _ dec] le by auto
  moreover from this(2) assms have "v' = v" by (intro enc_inj) (auto simp: cu16_at_def)
  ultimately show "fd_cu16_dec_fixed p i sz = Inr v" by simp
qed

section \<open>The fields of a transaction\<close>


lemma good_read_cu16:
  assumes "fits p" "i \<le> length p"
    and "\<And>v sz. cu16_at p i v sz \<Longrightarrow> 1 \<le> sz \<Longrightarrow> i + sz \<le> length p \<Longrightarrow> ulong_add i sz = i + sz \<Longrightarrow> unat v < 65536 \<Longrightarrow> good (k v sz) Q"
  shows "good (read_cu16 l p i k) Q"
proof -
  have avail: "ulong_sub (length p) i = length p - i" using assms(1,2) by (simp add: ulong_sub_exact fits_def)
  have "\<exists>sz. fd_cu16_dec_sz p i (length p - i) = Inr sz" by (simp add: dec_sz_cases[OF assms(2)])
  then obtain sz where sz: "fd_cu16_dec_sz p i (length p - i) = Inr sz" by blast
  show ?thesis
  proof (cases "sz = 0")
    case False
    then obtain v where v: "fd_cu16_dec_fixed p i sz = Inr v" "cu16_at p i v sz" using dec_cu16_at[OF assms(2) sz] by blast
    have "i + sz \<le> length p" using v(2) by (simp add: cu16_at_def)
    hence "good (k v sz) Q" using assms(1,3) v(2) False unat_u16[of v] by (simp add: ulong_add_exact fits_def)
    thus ?thesis using v(1) False by (simp add: read_cu16_def avail sz andthen_def check_def)
  qed (simp add: read_cu16_def avail sz andthen_def check_def)
qed


lemma unat_of_nat16: "n < 65536 \<Longrightarrow> unat (word_of_nat n :: u16) = n"
  by (simp add: unsigned_of_nat take_bit_nat_mod)

lemma unat_of_nat8: "n < 256 \<Longrightarrow> unat (word_of_nat n :: u8) = n"
  by (simp add: unsigned_of_nat take_bit_nat_mod)

text \<open>What the header promises, with the position after it.\<close>

definition header_ok :: "u8 list \<Rightarrow> fd_txn \<Rightarrow> nat \<Rightarrow> bool" where
  "header_ok p txn i \<longleftrightarrow>
     1 \<le> unat (txn_signature_cnt txn) \<and> unat (txn_signature_cnt txn) \<le> FD_TXN_SIG_MAX
     \<and> unat (txn_readonly_signed_cnt txn) < unat (txn_signature_cnt txn)
     \<and> unat (txn_signature_cnt txn) + unat (txn_readonly_unsigned_cnt txn) \<le> unat (txn_acct_addr_cnt txn)
     \<and> unat (txn_acct_addr_cnt txn) \<le> FD_TXN_ACCT_ADDR_MAX
     \<and> unat (txn_signature_off txn) + FD_TXN_SIGNATURE_SZ * unat (txn_signature_cnt txn) = unat (txn_message_off txn)
     \<and> unat (txn_message_off txn) + 4 \<le> unat (txn_acct_addr_off txn)
     \<and> unat (txn_acct_addr_off txn) + FD_TXN_ACCT_ADDR_SZ * unat (txn_acct_addr_cnt txn) = unat (txn_recent_blockhash_off txn)
     \<and> unat (txn_recent_blockhash_off txn) + FD_TXN_BLOCKHASH_SZ < i \<and> i \<le> length p
     \<and> unat (txn_signature_off txn) = 1
     \<and> unat (txn_instr_cnt txn) \<le> FD_TXN_INSTR_MAX \<and> (txn_instr_cnt txn \<noteq> 0 \<longrightarrow> 2 \<le> unat (txn_acct_addr_cnt txn))
     \<and> (txn_transaction_version txn = FD_TXN_VLEGACY
        \<or> txn_transaction_version txn = FD_TXN_V0 \<and> unat (txn_message_off txn) + 5 \<le> unat (txn_acct_addr_off txn))"

lemma parse_signatures_good:
  "good (parse_signatures p) (\<lambda>(s, f, m, ver, i). fits p \<and> 1 \<le> unat s \<and> unat s \<le> FD_TXN_SIG_MAX \<and> f = 1
     \<and> m = 1 + FD_TXN_SIGNATURE_SZ * unat s \<and> i \<le> length p
     \<and> (ver = FD_TXN_VLEGACY \<and> i = m + 1 \<or> ver = FD_TXN_V0 \<and> i = m + 2))"
proof (cases "fits p")
  case True
  show ?thesis unfolding parse_signatures_def
    apply (rule good_check)
    apply (rule good_check_left[OF True], simp)
    apply (rule good_byte, assumption)
    apply (rule good_let_add, assumption)
    apply (rule good_check)
    apply (rule good_check_left[OF True], simp)
    apply (rule good_let)
    apply (rule good_let_add, assumption)
    apply (rule good_let)
    apply (rule good_check_left[OF True], simp)
    apply (rule good_byte, assumption)
    apply (rule good_let_add, assumption)
    apply (rule good_if)
    apply (rule good_check)
    apply (rule good_check_left[OF True], simp)
    apply (rule good_byte, assumption)
    apply (rule good_check)
    apply (simp add: True)
    apply (rule good_check)
    apply (simp add: True)
    done
qed (simp add: parse_signatures_def check_def fits_def FD_TXN_MTU_def)

lemma good_header:
  assumes "fits p" "1 \<le> unat s \<and> unat s \<le> FD_TXN_SIG_MAX" "q < s" "unat s \<le> unat a \<and> unat a \<le> FD_TXN_ACCT_ADDR_MAX"
    "unat s + unat r \<le> unat a" "ver = FD_TXN_VLEGACY \<or> ver = FD_TXN_V0 \<and> m + 5 \<le> x" "m = f + FD_TXN_SIGNATURE_SZ * unat s"
    "m + 4 \<le> x" "h = x + FD_TXN_ACCT_ADDR_SZ * unat a" "h + FD_TXN_BLOCKHASH_SZ < i" "i \<le> length p" "unat n \<le> FD_TXN_INSTR_MAX"
    "(if n = 0 then 0 else 1) < unat a" "f = 1"
  shows "good (Inr (\<lparr> txn_transaction_version = ver, txn_signature_cnt = s, txn_signature_off = word_of_nat f,
    txn_message_off = word_of_nat m, txn_readonly_signed_cnt = q, txn_readonly_unsigned_cnt = r, txn_acct_addr_cnt = a,
    txn_acct_addr_off = word_of_nat x, txn_recent_blockhash_off = word_of_nat h, txn_addr_table_lookup_cnt = 0,
    txn_addr_table_adtl_writable_cnt = 0, txn_addr_table_adtl_cnt = 0, txn_instr_cnt = n, txn_instr = [], txn_address_tables = [] \<rparr>, i))
    (\<lambda>(txn, i). header_ok p txn i \<and> fits p)"
proof -
  have "i \<le> 1232" using assms(1,11) by (simp add: fits_def)
  hence "m < 65536" "x < 65536" "h < 65536" using assms(8-10) by linarith+
  hence w: "unat (word_of_nat m :: u16) = m" "unat (word_of_nat x :: u16) = x" "unat (word_of_nat h :: u16) = h"
    by (simp_all only: unat_of_nat16)
  have "2 \<le> unat a" if "n \<noteq> 0" using assms(13) that by simp
  moreover have "unat q < unat s" using assms(3) by (simp add: word_less_nat_alt)
  moreover have "unat (word_of_nat f :: u16) = 1" by (simp add: assms(14))
  ultimately show ?thesis
    unfolding header_ok_def good_Inr prod.case fd_txn.simps w using assms(1,2,4-12,14) by simp
qed

lemma parse_accounts_good:
  assumes fits: "fits p" and s: "1 \<le> unat s \<and> unat s \<le> FD_TXN_SIG_MAX" and f: "f = 1" and m: "m = f + FD_TXN_SIGNATURE_SZ * unat s"
    and i: "i \<le> length p" and ver: "ver = FD_TXN_VLEGACY \<and> i = m + 1 \<or> ver = FD_TXN_V0 \<and> i = m + 2"
  shows "good (parse_accounts p (s, f, m, ver, i)) (\<lambda>(txn, i). header_ok p txn i \<and> fits p)"
proof -
  have pos: "m + 1 \<le> i" "ver = FD_TXN_VLEGACY \<or> ver = FD_TXN_V0 \<and> m + 2 \<le> i" using ver by auto
  show ?thesis unfolding parse_accounts_def prod.case
    apply (rule good_check_left[OF fits i])
    apply (rule good_byte, assumption)
    apply (rule good_let_add, assumption)
    apply (rule good_check)
    apply (rule good_check_left[OF fits], simp)
    apply (rule good_byte, assumption)
    apply (rule good_let_add, assumption)
    apply (rule good_read_cu16[OF fits], simp)
    apply (rule good_let_add, assumption)
    apply (rule good_check)
    apply (rule good_check)
    apply (rule good_check_left[OF fits], simp)
    apply (rule good_let)
    apply (rule good_let_add, assumption)
    apply (rule good_check_left[OF fits], simp)
    apply (rule good_let)
    apply (rule good_let_add, assumption)
    apply (rule good_read_cu16[OF fits], simp)
    apply (rule good_let_add, assumption)
    apply (rule good_check)
    apply (rule good_check_left[OF fits], simp)
    apply (rule good_check)
    apply (rule good_header[OF fits s _ _ _ _ m _ _ _ _ _ _ f])
    apply (assumption | (use pos in linarith))+
    done
qed

lemma parse_header_good: "good (parse_header p) (\<lambda>(txn, i). header_ok p txn i \<and> fits p)"
  unfolding parse_header_def
proof (rule good_andthen[OF parse_signatures_good], goal_cases)
  case (1 x)
  obtain s f m ver i where x: "x = (s, f, m, ver, i)" by (cases x)
  show ?case unfolding x by (rule parse_accounts_good) (use 1 in \<open>auto simp: x\<close>)
qed

text \<open>An instruction: its ranges are in the payload, and the running maximum bounds its account indices.\<close>

definition instr_ok :: "u8 list \<Rightarrow> u16 \<Rightarrow> nat \<Rightarrow> fd_txn_instr \<Rightarrow> bool" where
  "instr_ok p acct_addr_cnt accts ins \<longleftrightarrow>
     0 < unat (ti_program_id ins) \<and> unat (ti_program_id ins) < unat acct_addr_cnt
     \<and> unat (ti_acct_off ins) + unat (ti_acct_cnt ins) \<le> length p \<and> unat (ti_data_off ins) + unat (ti_data_sz ins) \<le> length p
     \<and> (\<forall>k < unat (ti_acct_cnt ins). unat (p ! (unat (ti_acct_off ins) + k)) < accts)"

lemma max_acct_good:
  assumes "i + n \<le> length p"
  shows "good (max_acct_from p n i m) (\<lambda>m'. m \<le> m' \<and> (\<forall>k < n. p ! (i + k) \<le> m'))"
  using assms
proof (induction n arbitrary: i m)
  case (Suc n)
  have "good (max_acct_from p n (i + 1) (max m (p ! i))) (\<lambda>m'. max m (p ! i) \<le> m' \<and> (\<forall>k < n. p ! (i + 1 + k) \<le> m'))"
    using Suc.prems by (intro Suc.IH) simp
  hence "good (max_acct_from p n (i + 1) (max m (p ! i))) (\<lambda>m'. m \<le> m' \<and> (\<forall>k < Suc n. p ! (i + k) \<le> m'))"
    by (rule good_mono) (auto simp: less_Suc_eq_0_disj)
  thus ?case using Suc.prems by (simp add: byte_at_def)
qed simp

lemma parse_instr_good:
  assumes fits: "fits p" and i: "i \<le> length p"
  shows "good (parse_instr p a i m) (\<lambda>(ins, j, m'). i + 3 \<le> j \<and> j \<le> length p \<and> m \<le> m' \<and> instr_ok p a (unat m' + 1) ins)"
  unfolding parse_instr_def
  apply (rule good_check_left[OF fits i])
  apply (rule good_byte)
  subgoal by (simp add: MIN_INSTR_SZ_def)
  apply (rule good_let_add)
  subgoal using fits by (simp add: MIN_INSTR_SZ_def fits_def ulong_add_exact)
  apply (rule good_read_cu16[OF fits])
  subgoal by (simp add: MIN_INSTR_SZ_def)
  apply (rule good_let_add, assumption)
  apply (rule good_check_left[OF fits], simp)
  apply (rule good_let)
  apply (rule good_andthen[OF max_acct_good], assumption)
  apply (rule good_let_add, assumption)
  apply (rule good_read_cu16[OF fits], simp)
  apply (rule good_let_add, assumption)
  apply (rule good_check_left[OF fits], simp)
  apply (rule good_let)
  apply (rule good_let_add, assumption)
  apply (rule good_check)
  subgoal using fits by (auto simp: instr_ok_def unat_of_nat16 fits_def word_le_nat_alt less_Suc_eq_le simp del: of_nat_add of_nat_Suc)
  done

lemma instr_ok_mono: "instr_ok p a n ins \<Longrightarrow> n \<le> n' \<Longrightarrow> instr_ok p a n' ins"
  by (fastforce simp: instr_ok_def)

lemma parse_instrs_good:
  assumes "fits p" "i \<le> length p"
  shows "good (parse_instrs p a n i m) (\<lambda>(inss, j, m'). i + 3 * n \<le> j \<and> j \<le> length p \<and> m \<le> m' \<and> length inss = n
    \<and> (\<forall>ins \<in> set inss. instr_ok p a (unat m' + 1) ins))"
  using assms(2)
proof (induction n arbitrary: i m)
  case (Suc n)
  show ?case unfolding parse_instrs.simps
  proof (rule good_andthen[OF parse_instr_good[OF assms(1) Suc.prems]], clarify, goal_cases)
    case (1 ins j m1)
    show ?case
    proof (rule good_andthen[OF Suc.IH[OF 1(2)]], clarify, goal_cases)
      case (1 inss j' m')
      note head = \<open>instr_ok p a (unat m1 + 1) ins\<close> and ge = \<open>m1 \<le> m'\<close>
      have "unat m1 \<le> unat m'" using ge by (simp add: word_le_nat_alt)
      hence "instr_ok p a (unat m' + 1) ins" by (intro instr_ok_mono[OF head]) simp
      thus ?case using 1 \<open>i + 3 \<le> j\<close> \<open>m \<le> m1\<close> by simp
    qed
  qed
qed simp

lemma unat_count8: "unat (v :: u16) \<le> 128 \<Longrightarrow> unat (ucast v :: u8) = unat v"
  by (simp add: unsigned_ucast_eq take_bit_nat_mod)

definition lut_ok :: "u8 list \<Rightarrow> fd_txn_acct_addr_lut \<Rightarrow> bool" where
  "lut_ok p lut \<longleftrightarrow> unat (lut_addr_off lut) + FD_TXN_ACCT_ADDR_SZ \<le> length p
     \<and> unat (lut_writable_off lut) + unat (lut_writable_cnt lut) \<le> length p
     \<and> unat (lut_readonly_off lut) + unat (lut_readonly_cnt lut) \<le> length p
     \<and> 1 \<le> unat (lut_writable_cnt lut) + unat (lut_readonly_cnt lut)"

lemma good_lut:
  fixes v r :: u16
  assumes "fits p" "x + FD_TXN_ACCT_ADDR_SZ \<le> length p" "y + unat v \<le> length p" "z + unat r \<le> length p"
    "unat v \<le> 128" "unat r \<le> 128" "1 \<le> unat v + unat r" "i + 35 \<le> j" "j \<le> length p"
  shows "good (Inr (\<lparr> lut_addr_off = word_of_nat x, lut_writable_cnt = ucast v, lut_readonly_cnt = ucast r,
      lut_writable_off = word_of_nat y, lut_readonly_off = word_of_nat z \<rparr>, j, unat v, unat r))
    (\<lambda>(lut, j, w, r). i + 35 \<le> j \<and> j \<le> length p \<and> lut_ok p lut
      \<and> w = unat (lut_writable_cnt lut) \<and> r = unat (lut_readonly_cnt lut) \<and> w \<le> 128 \<and> r \<le> 128)"
proof -
  have "x < 65536" "y < 65536" "z < 65536" using assms(1-4) by (simp_all add: fits_def)
  thus ?thesis using assms(2-) by (simp add: lut_ok_def unat_of_nat16 unat_count8)
qed

lemma parse_lut_good:
  assumes fits: "fits p" and i: "i \<le> length p" and a: "unat a \<le> FD_TXN_ACCT_ADDR_MAX"
  shows "good (parse_lut p a i) (\<lambda>(lut, j, w, r). i + 35 \<le> j \<and> j \<le> length p \<and> lut_ok p lut
    \<and> w = unat (lut_writable_cnt lut) \<and> r = unat (lut_readonly_cnt lut) \<and> w \<le> 128 \<and> r \<le> 128)"
proof -
  have sub: "ulong_sub FD_TXN_ACCT_ADDR_MAX (unat a) \<le> 128" using a by (simp add: ulong_sub_exact FD_TXN_ACCT_ADDR_MAX_def)
  show ?thesis unfolding parse_lut_def
    apply (rule good_check_left[OF fits i])
    apply (rule good_let)
    apply (rule good_let_add, assumption)
    apply (rule good_read_cu16[OF fits], simp)
    apply (rule good_let_add, assumption)
    apply (rule good_check_left[OF fits], simp)
    apply (rule good_let)
    apply (rule good_let_add, assumption)
    apply (rule good_read_cu16[OF fits], simp)
    apply (rule good_let_add, assumption)
    apply (rule good_check_left[OF fits], simp)
    apply (rule good_let)
    apply (rule good_let_add, assumption)
    apply (rule good_check)
    apply (rule good_check)
    apply (rule good_check)
    apply (rule good_lut[OF fits])
    apply (assumption | (use sub in linarith) | (simp add: FD_TXN_ACCT_ADDR_SZ_def; fail))+
    done
qed

lemma parse_luts_good:
  assumes "fits p" "i \<le> length p" "unat a \<le> FD_TXN_ACCT_ADDR_MAX" "w + 256 * n < 2 ^ 64" "c + 256 * n < 2 ^ 64"
  shows "good (parse_luts p a n i w c) (\<lambda>(luts, j, w', c'). i + 35 * n \<le> j \<and> j \<le> length p \<and> length luts = n
    \<and> (\<forall>lut \<in> set luts. lut_ok p lut) \<and> w' = w + (\<Sum>lut \<leftarrow> luts. unat (lut_writable_cnt lut))
    \<and> c' = c + (\<Sum>lut \<leftarrow> luts. unat (lut_writable_cnt lut) + unat (lut_readonly_cnt lut)))"
  using assms(2,4,5)
proof (induction n arbitrary: i w c)
  case (Suc n)
  show ?case unfolding parse_luts.simps
  proof (rule good_andthen[OF parse_lut_good[OF assms(1) Suc.prems(1) assms(3)]], clarify, goal_cases)
    case (1 lut j)
    let ?w = "unat (lut_writable_cnt lut)" and ?r = "unat (lut_readonly_cnt lut)"
    have add: "ulong_add w ?w = w + ?w" "ulong_add c (?w + ?r) = c + (?w + ?r)"
      using Suc.prems(2,3) 1 by (simp_all add: ulong_add_exact)
    have IH: "good (parse_luts p a n j (w + ?w) (c + (?w + ?r))) (\<lambda>(luts, j', w', c'). j + 35 * n \<le> j' \<and> j' \<le> length p \<and> length luts = n
      \<and> (\<forall>lut \<in> set luts. lut_ok p lut) \<and> w' = w + ?w + (\<Sum>lut \<leftarrow> luts. unat (lut_writable_cnt lut))
      \<and> c' = c + (?w + ?r) + (\<Sum>lut \<leftarrow> luts. unat (lut_writable_cnt lut) + unat (lut_readonly_cnt lut)))"
      using Suc.prems(2,3) 1 by (intro Suc.IH) simp_all
    show ?case unfolding add
      by (rule good_andthen[OF IH]) (use 1 in auto)
  qed
qed simp

end
