(* ===== verification/Txn_Bounds.thy ===== *)
theory Txn_Bounds
  imports Txn_Parse
begin

text \<open>
  What an accepted transaction is worth: every range it names lies in the payload, every index exists,
  and its footprint fits the buffer callers reserve.
\<close>

definition txn_ok :: "u8 list \<Rightarrow> fd_txn \<Rightarrow> bool" where
  "txn_ok p txn \<longleftrightarrow> (\<exists>i. header_ok p txn i)
     \<and> length (txn_instr txn) = unat (txn_instr_cnt txn) \<and> length (txn_address_tables txn) = unat (txn_addr_table_lookup_cnt txn)
     \<and> unat (txn_addr_table_adtl_writable_cnt txn) = (\<Sum>lut \<leftarrow> txn_address_tables txn. unat (lut_writable_cnt lut))
     \<and> unat (txn_addr_table_adtl_cnt txn) = (\<Sum>lut \<leftarrow> txn_address_tables txn. unat (lut_writable_cnt lut) + unat (lut_readonly_cnt lut))
     \<and> unat (txn_acct_addr_cnt txn) + unat (txn_addr_table_adtl_cnt txn) \<le> FD_TXN_ACCT_ADDR_MAX
     \<and> (\<forall>ins \<in> set (txn_instr txn). instr_ok p (txn_acct_addr_cnt txn) (unat (txn_acct_addr_cnt txn) + unat (txn_addr_table_adtl_cnt txn)) ins)
     \<and> (\<forall>lut \<in> set (txn_address_tables txn). lut_ok p lut)
     \<and> (txn_transaction_version txn = FD_TXN_VLEGACY \<longrightarrow> txn_address_tables txn = [])"

lemma header_ok_lower:
  assumes "header_ok p txn i"
  shows "133 < i" "txn_transaction_version txn = FD_TXN_V0 \<Longrightarrow> 134 < i"
    "txn_instr_cnt txn \<noteq> 0 \<Longrightarrow> 165 < i" "txn_instr_cnt txn \<noteq> 0 \<Longrightarrow> txn_transaction_version txn = FD_TXN_V0 \<Longrightarrow> 166 < i"
  using assms by (auto simp: header_ok_def txn_limits)

lemma parse_tables_good:
  assumes "fits p" "i \<le> length p" "unat (txn_acct_addr_cnt txn) \<le> FD_TXN_ACCT_ADDR_MAX"
  shows "good (parse_tables p txn i) (\<lambda>(luts, j, w, c). i \<le> j \<and> j \<le> length p
    \<and> (txn_transaction_version txn = FD_TXN_V0 \<and> i + 1 + 35 * length luts \<le> j \<or> txn_transaction_version txn \<noteq> FD_TXN_V0 \<and> luts = [])
    \<and> length luts \<le> FD_TXN_ADDR_TABLE_LOOKUP_MAX
    \<and> (\<forall>lut \<in> set luts. lut_ok p lut) \<and> w = (\<Sum>lut \<leftarrow> luts. unat (lut_writable_cnt lut))
    \<and> c = (\<Sum>lut \<leftarrow> luts. unat (lut_writable_cnt lut) + unat (lut_readonly_cnt lut)))"
proof (cases "txn_transaction_version txn = FD_TXN_V0")
  case True
  show ?thesis unfolding parse_tables_def
    apply (rule good_if)
    apply (rule good_read_cu16[OF assms(1,2)])
    apply (rule good_let_add, assumption)
    apply (rule good_check)
    apply (rule good_check_left[OF assms(1)], simp)
    apply (rule good_mono[OF parse_luts_good[OF assms(1) _ assms(3)]])
    apply (auto simp: FD_TXN_ADDR_TABLE_LOOKUP_MAX_def True)
    done
qed (use assms in \<open>simp add: parse_tables_def\<close>)

lemma footprint_bound:
  assumes "ni \<le> 64" "nl = 0 \<or> (if ni = 0 then 135 else 167) + 3 * ni + 1 + 35 * nl \<le> 1232"
  shows "fd_txn_footprint ni nl \<le> FD_TXN_MAX_SZ"
proof (cases "nl \<le> 24")
  case True
  thus ?thesis using assms(1) by (simp add: fd_txn_footprint_def FD_TXN_MAX_SZ_def)
next
  case False
  thus ?thesis using assms by (auto simp: fd_txn_footprint_def FD_TXN_MAX_SZ_def split: if_splits)
qed

lemma lut_sums: "(\<Sum>lut \<leftarrow> luts. unat (lut_writable_cnt lut)) \<le> (\<Sum>lut \<leftarrow> luts. unat (lut_writable_cnt lut) + unat (lut_readonly_cnt lut))"
    "(\<Sum>lut \<leftarrow> luts. unat (lut_writable_cnt lut) + unat (lut_readonly_cnt lut)) \<le> 512 * length luts"
proof (induction luts)
  case (Cons lut luts)
  {
    case 1 show ?case using Cons(1) by simp
  next
    case 2 show ?case using Cons(2) unat_u8[of "lut_writable_cnt lut"] unat_u8[of "lut_readonly_cnt lut"] by simp
  }
qed simp_all

lemma V0_not_legacy: "FD_TXN_V0 \<noteq> FD_TXN_VLEGACY"
  by (simp add: FD_TXN_V0_def FD_TXN_VLEGACY_def)

text \<open>The fields of the final record.\<close>

lemma fd_txn_fields:
  fixes a b c d e txn
  defines "t \<equiv> txn\<lparr> txn_instr := a, txn_address_tables := b, txn_addr_table_lookup_cnt := c,
    txn_addr_table_adtl_writable_cnt := d, txn_addr_table_adtl_cnt := e \<rparr>"
  shows "txn_instr t = a" "txn_address_tables t = b" "txn_addr_table_lookup_cnt t = c" "txn_addr_table_adtl_writable_cnt t = d"
    "txn_addr_table_adtl_cnt t = e" "txn_instr_cnt t = txn_instr_cnt txn" "txn_acct_addr_cnt t = txn_acct_addr_cnt txn"
    "txn_transaction_version t = txn_transaction_version txn"
  by (simp_all add: t_def)

lemma header_ok_update: "header_ok p (txn\<lparr> txn_instr := a, txn_address_tables := b, txn_addr_table_lookup_cnt := c,
    txn_addr_table_adtl_writable_cnt := d, txn_addr_table_adtl_cnt := e \<rparr>) i \<longleftrightarrow> header_ok p txn i"
  by (simp add: header_ok_def)

text \<open>The last step of the parse: the counts that are cast to bytes fit.\<close>

lemma parsed_ok:
  assumes hdr: "header_ok p txn i" and ins: "length inss = unat (txn_instr_cnt txn)" "\<forall>ins \<in> set inss. instr_ok p (txn_acct_addr_cnt txn) (unat m + 1) ins"
    and luts: "\<forall>lut \<in> set luts. lut_ok p lut" "length luts \<le> FD_TXN_ADDR_TABLE_LOOKUP_MAX"
      "txn_transaction_version txn = FD_TXN_VLEGACY \<Longrightarrow> luts = []"
      "w = (\<Sum>lut \<leftarrow> luts. unat (lut_writable_cnt lut))" "c = (\<Sum>lut \<leftarrow> luts. unat (lut_writable_cnt lut) + unat (lut_readonly_cnt lut))"
    and cnt: "ulong_add (unat (txn_acct_addr_cnt txn)) c \<le> FD_TXN_ACCT_ADDR_MAX" "unat m < ulong_add (unat (txn_acct_addr_cnt txn)) c"
  shows "txn_ok p (txn\<lparr> txn_instr := inss, txn_address_tables := luts, txn_addr_table_lookup_cnt := word_of_nat (length luts),
    txn_addr_table_adtl_writable_cnt := word_of_nat w, txn_addr_table_adtl_cnt := word_of_nat c \<rparr>)"
proof -
  have "c \<le> 512 * 127" using lut_sums(2)[of luts] luts(2,5) by (simp add: FD_TXN_ADDR_TABLE_LOOKUP_MAX_def)
  hence add: "ulong_add (unat (txn_acct_addr_cnt txn)) c = unat (txn_acct_addr_cnt txn) + c"
    using unat_u16[of "txn_acct_addr_cnt txn"] by (simp add: ulong_add_exact)
  have "c \<le> 128" using cnt(1) by (simp add: add FD_TXN_ACCT_ADDR_MAX_def)
  moreover have "w \<le> c" unfolding luts(4,5) by (rule lut_sums(1))
  ultimately have u: "unat (word_of_nat c :: u8) = c" "unat (word_of_nat w :: u8) = w" "unat (word_of_nat (length luts) :: u8) = length luts"
    using luts(2) by (simp_all add: unat_of_nat8 FD_TXN_ADDR_TABLE_LOOKUP_MAX_def)
  have ok: "\<forall>ins \<in> set inss. instr_ok p (txn_acct_addr_cnt txn) (unat (txn_acct_addr_cnt txn) + c) ins"
  proof
    fix ins' assume "ins' \<in> set inss"
    hence "instr_ok p (txn_acct_addr_cnt txn) (unat m + 1) ins'" using ins(2) by blast
    moreover have "unat m + 1 \<le> unat (txn_acct_addr_cnt txn) + c" using cnt(2) unfolding add by simp
    ultimately show "instr_ok p (txn_acct_addr_cnt txn) (unat (txn_acct_addr_cnt txn) + c) ins'" by (rule instr_ok_mono)
  qed
  show ?thesis unfolding txn_ok_def header_ok_update
  proof (intro conjI)
    show "\<exists>i. header_ok p txn i" using hdr by blast
  qed (simp_all only: fd_txn_fields u, (use ins(1) luts(1,3-5) cnt(1)[unfolded add] ok in blast)+)
qed

lemma parse_core_good:
  "good (fd_txn_parse_core p exact) (\<lambda>(txn, n, fp). txn_ok p txn \<and> n \<le> length p \<and> (exact \<longrightarrow> n = length p)
    \<and> FD_TXN_MIN_SERIALIZED_SZ \<le> n \<and> fp = fd_txn_footprint (length (txn_instr txn)) (length (txn_address_tables txn))
    \<and> fp \<le> FD_TXN_MAX_SZ \<and> length p \<le> FD_TXN_MTU)"
  unfolding fd_txn_parse_core_def
proof (rule good_andthen[OF parse_header_good], clarify, goal_cases)
  case (1 txn i)
  note hdr = \<open>header_ok p txn i\<close> and fits = \<open>fits p\<close>
  have i: "i \<le> length p" and a: "unat (txn_acct_addr_cnt txn) \<le> FD_TXN_ACCT_ADDR_MAX" and ni: "unat (txn_instr_cnt txn) \<le> 64"
    using hdr by (simp_all add: header_ok_def FD_TXN_INSTR_MAX_def)
  show ?case
  proof (rule good_andthen[OF parse_instrs_good[OF fits i]], clarify, goal_cases)
    case (1 inss j m)
    note ins = this
    show ?case
    proof (rule good_andthen[OF parse_tables_good[OF fits ins(2) a]], clarify, intro good_check, goal_cases)
      case (1 luts n)
      note lut = this
      have ok: "txn_ok p (txn\<lparr> txn_instr := inss, txn_address_tables := luts, txn_addr_table_lookup_cnt := word_of_nat (length luts),
          txn_addr_table_adtl_writable_cnt := word_of_nat (\<Sum>lut \<leftarrow> luts. unat (lut_writable_cnt lut)),
          txn_addr_table_adtl_cnt := word_of_nat (\<Sum>lut \<leftarrow> luts. unat (lut_writable_cnt lut) + unat (lut_readonly_cnt lut)) \<rparr>)"
        by (rule parsed_ok[OF hdr, where m = m]) (use ins lut V0_not_legacy in auto)
      have "length p \<le> 1232" using fits by (simp add: fits_def)
      moreover have "fd_txn_footprint (unat (txn_instr_cnt txn)) (length luts) \<le> FD_TXN_MAX_SZ"
      proof (rule footprint_bound[OF ni])
        show "length luts = 0 \<or> (if unat (txn_instr_cnt txn) = 0 then 135 else 167) + 3 * unat (txn_instr_cnt txn) + 1 + 35 * length luts \<le> 1232"
          using lut(2,3) ins(1) header_ok_lower[OF hdr] \<open>length p \<le> 1232\<close> by (auto simp: unat_eq_0)
      qed
      ultimately show ?case using ok lut(1,2) ins(1,4) header_ok_lower(1)[OF hdr] lut
        by (simp add: txn_limits)
    qed
  qed
qed

end
