(* ===== verification/Txn_Layout.thy ===== *)
theory Txn_Layout
  imports Txn_Bounds
begin

text \<open>
  What an accepted transaction looks like: where each field lies in the payload.  The descriptions are
  equivalences, so they serve to read an accepted payload and to show that a payload is accepted.
\<close>

section \<open>Accepting steps\<close>

named_theorems accepts

lemma andthen_Inr [accepts]: "andthen m f = Inr x \<longleftrightarrow> (\<exists>y. m = Inr y \<and> f y = Inr x)"
  by (cases m) (auto simp: andthen_def)

lemma check_Inr [accepts]: "check l c k = Inr x \<longleftrightarrow> c \<and> k = Inr x"
  by (simp add: check_def)

lemma byte_at_Inr [accepts]: "byte_at p i k = Inr x \<longleftrightarrow> i < length p \<and> k (p ! i) = Inr x"
  by (simp add: byte_at_def)

lemma check_left_Inr: "fits p \<Longrightarrow> i \<le> length p \<Longrightarrow> check_left l p i n k = Inr x \<longleftrightarrow> i + n \<le> length p \<and> k = Inr x"
  by (auto simp: check_left_def check_Inr ulong_sub_exact fits_def)

lemma read_cu16_Inr:
  assumes "fits p" "i \<le> length p"
  shows "read_cu16 l p i k = Inr x \<longleftrightarrow> (\<exists>v sz. cu16_at p i v sz \<and> k v sz = Inr x)"
proof -
  have avail: "ulong_sub (length p) i = length p - i" using assms by (simp add: ulong_sub_exact fits_def)
  show ?thesis
  proof
    assume "read_cu16 l p i k = Inr x"
    then obtain sz v where "fd_cu16_dec_sz p i (length p - i) = Inr sz" "sz \<noteq> 0" "fd_cu16_dec_fixed p i sz = Inr v" "k v sz = Inr x"
      by (auto simp: read_cu16_def avail accepts)
    thus "\<exists>v sz. cu16_at p i v sz \<and> k v sz = Inr x" using dec_cu16_at[OF assms(2)] by fastforce
  next
    assume "\<exists>v sz. cu16_at p i v sz \<and> k v sz = Inr x"
    then obtain v sz where "cu16_at p i v sz" "k v sz = Inr x" by blast
    moreover have "sz \<noteq> 0" using \<open>cu16_at p i v sz\<close> by (auto simp: cu16_at_def length_enc)
    ultimately show "read_cu16 l p i k = Inr x"
      using cu16_at_dec[of p i v sz] by (auto simp: read_cu16_def avail accepts)
  qed
qed

section \<open>The header\<close>

definition sigs_layout :: "u8 list \<Rightarrow> u8 \<Rightarrow> nat \<Rightarrow> nat \<Rightarrow> u8 \<Rightarrow> nat \<Rightarrow> bool" where
  "sigs_layout p s so mo ver i \<longleftrightarrow>
     fits p \<and> p \<noteq> [] \<and> s = p ! 0 \<and> 1 \<le> unat s \<and> unat s \<le> FD_TXN_SIG_MAX \<and> so = 1 \<and> mo = 1 + FD_TXN_SIGNATURE_SZ * unat s
     \<and> i \<le> length p
     \<and> (ver = FD_TXN_VLEGACY \<and> i = mo + 1 \<and> p ! mo = s
        \<or> ver = FD_TXN_V0 \<and> i = mo + 2 \<and> p ! mo = 0x80 \<and> p ! (mo + 1) = s)"

lemma legacy_byte: "unat (b :: u8) \<le> 127 \<Longrightarrow> b AND 0x80 = 0"
  using bit7_iff[of b] by simp

lemma v0_byte: "(b :: u8) AND 0x80 \<noteq> 0 \<and> b AND 0x7F = 0 \<longleftrightarrow> b = 0x80"
proof
  assume "b AND 0x80 \<noteq> 0 \<and> b AND 0x7F = 0"
  hence "unat b \<ge> 128" "unat b mod 128 = 0"
    using bit7_iff[of b] by (auto simp: and_7F unsigned_take_bit_eq take_bit_nat_mod simp flip: unat_eq_0)
  hence "unat b = 128" using unat_u8[of b] by presburger
  thus "b = 0x80" by (simp add: word_unat_eq_iff)
qed simp

lemma parse_signatures_iff: "parse_signatures p = Inr (s, so, mo, ver, i) \<longleftrightarrow> sigs_layout p s so mo ver i"
proof (cases "fits p")
  case True
  show ?thesis
    using True unat_u8[of "p ! 0"] unfolding parse_signatures_def fits_def
    apply (simp add: accepts check_left_Inr[OF True] Let_def ulong_add_exact txn_limits sigs_layout_def cong: conj_cong)
    subgoal using v0_byte[of "p ! Suc (64 * unat (p ! 0))"] legacy_byte[of "p ! Suc (64 * unat (p ! 0))"] by (auto simp: fits_def)
    done
qed (auto simp: parse_signatures_def sigs_layout_def fits_def accepts txn_limits)


definition accts_layout :: "u8 list \<Rightarrow> u8 \<Rightarrow> nat \<Rightarrow> nat \<Rightarrow> u8 \<Rightarrow> nat \<Rightarrow> fd_txn \<Rightarrow> nat \<Rightarrow> bool" where
  "accts_layout p s so mo ver i txn j \<longleftrightarrow>
     (\<exists>a na c nc. i + 2 \<le> length p \<and> unat (p ! i) < unat s \<and> cu16_at p (i + 2) a na
        \<and> unat s + unat (p ! (i + 1)) \<le> unat a \<and> unat a \<le> FD_TXN_ACCT_ADDR_MAX
        \<and> i + 2 + na + 32 * unat a + 32 \<le> length p \<and> cu16_at p (i + 2 + na + 32 * unat a + 32) c nc
        \<and> unat c \<le> FD_TXN_INSTR_MAX \<and> j = i + 2 + na + 32 * unat a + 32 + nc \<and> j + 3 * unat c \<le> length p
        \<and> (if c = 0 then 0 else 1) < unat a
        \<and> txn = \<lparr> txn_transaction_version = ver, txn_signature_cnt = s, txn_signature_off = word_of_nat so,
            txn_message_off = word_of_nat mo, txn_readonly_signed_cnt = p ! i, txn_readonly_unsigned_cnt = p ! (i + 1),
            txn_acct_addr_cnt = a, txn_acct_addr_off = word_of_nat (i + 2 + na),
            txn_recent_blockhash_off = word_of_nat (i + 2 + na + 32 * unat a), txn_addr_table_lookup_cnt = 0,
            txn_addr_table_adtl_writable_cnt = 0, txn_addr_table_adtl_cnt = 0, txn_instr_cnt = c,
            txn_instr = [], txn_address_tables = [] \<rparr>)"

lemma cu16_at_le: "cu16_at p i v sz \<Longrightarrow> i + sz \<le> length p" "cu16_at p i v sz \<Longrightarrow> 1 \<le> sz"
  by (auto simp: cu16_at_def length_enc)

lemma check_left_eq: "fits p \<Longrightarrow> x + n \<le> length p \<Longrightarrow> check_left l p x n k = k"
proof -
  assume "fits p" "x + n \<le> length p"
  hence "ulong_sub (length p) x = length p - x" "n \<le> length p - x" by (auto simp: ulong_sub_exact fits_def)
  thus ?thesis by (simp add: check_left_def check_def)
qed

lemma read_cu16_eq: "fits p \<Longrightarrow> cu16_at p i v sz \<Longrightarrow> read_cu16 l p i k = k v sz"
proof -
  assume a: "fits p" "cu16_at p i v sz"
  have le: "i \<le> length p" "sz \<noteq> 0" using cu16_at_le[OF a(2)] by simp_all
  have "ulong_sub (length p) i = length p - i" using a(1) le(1) by (simp add: ulong_sub_exact fits_def)
  thus ?thesis using cu16_at_dec[OF a(2)] le(2) by (simp add: read_cu16_def andthen_def check_def)
qed

lemma accts_layout_accepted:
  assumes "fits p" "accts_layout p s so mo ver i txn j"
  shows "parse_accounts p (s, so, mo, ver, i) = Inr (txn, j)"
proof -
  obtain a na c nc where *: "i + 2 \<le> length p" "unat (p ! i) < unat s" "cu16_at p (i + 2) a na"
      "unat s + unat (p ! (i + 1)) \<le> unat a" "unat a \<le> 128" "i + 2 + na + 32 * unat a + 32 \<le> length p"
      "cu16_at p (i + 2 + na + 32 * unat a + 32) c nc" "unat c \<le> 64" "j = i + 2 + na + 32 * unat a + 32 + nc"
      "j + 3 * unat c \<le> length p" "(if c = 0 then 0 else 1) < unat a"
    and txn: "txn = \<lparr> txn_transaction_version = ver, txn_signature_cnt = s, txn_signature_off = word_of_nat so,
            txn_message_off = word_of_nat mo, txn_readonly_signed_cnt = p ! i, txn_readonly_unsigned_cnt = p ! (i + 1),
            txn_acct_addr_cnt = a, txn_acct_addr_off = word_of_nat (i + 2 + na),
            txn_recent_blockhash_off = word_of_nat (i + 2 + na + 32 * unat a), txn_addr_table_lookup_cnt = 0,
            txn_addr_table_adtl_writable_cnt = 0, txn_addr_table_adtl_cnt = 0, txn_instr_cnt = c,
            txn_instr = [], txn_address_tables = [] \<rparr>"
    using assms(2) unfolding accts_layout_def txn_limits by blast
  define j1 where "j1 = i + 2"
  define j2 where "j2 = j1 + na"
  define j3 where "j3 = j2 + 32 * unat a"
  define j4 where "j4 = j3 + 32"
  have le: "i + 1 \<le> length p" "j1 \<le> length p" "j2 \<le> length p" "j3 \<le> length p" "j4 \<le> length p" "j4 + nc \<le> length p" "length p < 2 ^ 64"
    "length p \<le> 1232"
    using * cu16_at_le[OF *(3)] assms(1) by (simp_all add: j1_def j2_def j3_def j4_def fits_def)
  have add: "ulong_add i (Suc 0) = Suc i" "ulong_add (Suc i) (Suc 0) = j1" "ulong_add j1 na = j2" "ulong_add j2 (32 * unat a) = j3"
    "ulong_add j3 32 = j4" "ulong_add j4 nc = j4 + nc"
    using le by (auto simp: ulong_add_exact j1_def j2_def j3_def j4_def)
  note cl = check_left_eq[OF assms(1)]
  have pos: "i < length p" "Suc i < length p" "p ! (i + 1) = p ! Suc i" "Suc i \<le> length p" "Suc (Suc i) \<le> length p" "j2 + 32 * unat a \<le> length p"
    "j3 + 32 \<le> length p" "j4 + nc + 3 * unat c \<le> length p" "j = j4 + nc" "i + 2 + na = j2" "j2 + 32 * unat a = j3" "j3 + 32 + nc = j4 + nc"
    using * by (auto simp: j1_def j2_def j3_def j4_def)
  have cu: "read_cu16 l p j1 k = k a na" "read_cu16 l p j4 k = k c nc" for l and k :: "u16 \<Rightarrow> nat \<Rightarrow> 'x parse"
    using read_cu16_eq[OF assms(1) *(3)] read_cu16_eq[OF assms(1) *(7)] by (simp_all add: j1_def j2_def j3_def j4_def)
  show ?thesis
    unfolding parse_accounts_def prod.case txn_limits txn pos(9-11)
    using *(4) by (simp add: Let_def add cl cu le check_def byte_at_def word_less_nat_alt *(1-3,5-8,11) pos)
qed

lemma parse_accounts_layout:
  assumes fits: "fits p" and i: "i \<le> length p"
  shows "good (parse_accounts p (s, so, mo, ver, i)) (\<lambda>(txn, j). accts_layout p s so mo ver i txn j)"
  unfolding parse_accounts_def prod.case
  apply (rule good_check_left[OF fits i])
  apply (rule good_byte_at, assumption)
  apply (rule good_let_add, assumption)
  apply (rule good_check)
  apply (rule good_check_left[OF fits], simp)
  apply (rule good_byte_at, assumption)
  apply (rule good_let_add, assumption)
  apply (rule good_read_cu16[OF fits], simp)
  apply (rule good_let_add, assumption)
  apply (rule good_check)
  apply (rule good_check)
  apply (rule good_check_left[OF fits], simp)
  apply (rule good_let)
  apply (rule good_let_add, assumption)
  apply (rule good_check_left[OF fits], simp)
  apply (rule good_let)
  apply (rule good_let_add, assumption)
  apply (rule good_read_cu16[OF fits], simp)
  apply (rule good_let_add, assumption)
  apply (rule good_check)
  apply (rule good_check_left[OF fits], simp)
  apply (rule good_check)
  subgoal premises prems for b0 j1 b1 j2 a na j3 j4 j5 j6 j7 c nc j8
  proof -
    have j: "j1 = i + 1" "j2 = i + 2" "j4 = i + 2 + na" "j6 = i + 2 + na + 32 * unat a" "j7 = i + 2 + na + 32 * unat a + 32"
        "j8 = i + 2 + na + 32 * unat a + 32 + nc" "j8 + 3 * unat c \<le> length p" "j7 \<le> length p" "i + 2 \<le> length p"
      using prems(5,7,11,17,22-24,26,27,33,35) by (simp_all add: txn_limits)
    have b: "b0 = p ! i" "b1 = p ! (i + 1)" "unat b0 < unat s" using prems j(1) by (simp_all only: word_less_nat_alt)
    show ?thesis
      unfolding accts_layout_def good_Inr prod.case
      by (rule exI[of _ a], rule exI[of _ na], rule exI[of _ c], rule exI[of _ nc])
        (use j b prems(12,18,19,28,34,37) in \<open>simp only: simp_thms\<close>)
  qed
  done

section \<open>Instructions\<close>

definition instr_layout :: "u8 list \<Rightarrow> u16 \<Rightarrow> nat \<Rightarrow> fd_txn_instr \<Rightarrow> nat \<Rightarrow> bool" where
  "instr_layout p a i ins j \<longleftrightarrow>
     (\<exists>n nn d nd. i + 3 \<le> length p \<and> cu16_at p (i + 1) n nn \<and> i + 1 + nn + unat n \<le> length p \<and> cu16_at p (i + 1 + nn + unat n) d nd
        \<and> j = i + 1 + nn + unat n + nd + unat d \<and> j \<le> length p \<and> 0 < unat (p ! i) \<and> unat (p ! i) < unat a
        \<and> ins = \<lparr> ti_program_id = p ! i, ti_acct_cnt = n, ti_data_sz = d, ti_acct_off = word_of_nat (i + 1 + nn),
                  ti_data_off = word_of_nat (i + 1 + nn + unat n + nd) \<rparr>)"

lemma parse_instr_layout:
  assumes fits: "fits p" and i: "i \<le> length p"
  shows "good (parse_instr p a i m) (\<lambda>(ins, j, m'). instr_layout p a i ins j)"
  unfolding parse_instr_def
  apply (rule good_check_left[OF fits i])
  apply (rule good_byte_at)
  subgoal by (simp add: MIN_INSTR_SZ_def)
  apply (rule good_let_add)
  subgoal using fits by (simp add: MIN_INSTR_SZ_def fits_def ulong_add_exact)
  apply (rule good_read_cu16[OF fits])
  subgoal by (simp add: MIN_INSTR_SZ_def)
  apply (rule good_let_add, assumption)
  apply (rule good_check_left[OF fits], simp)
  apply (rule good_let)
  apply (rule good_andthen[OF max_acct_good], assumption)
  apply (rule good_let_add, assumption)
  apply (rule good_read_cu16[OF fits], simp)
  apply (rule good_let_add, assumption)
  apply (rule good_check_left[OF fits], simp)
  apply (rule good_let)
  apply (rule good_let_add, assumption)
  apply (rule good_check)
  subgoal for b j1 n nn j2 j3 m' j4 d nd j5 j6 j7
    unfolding instr_layout_def good_Inr prod.case
    by (rule exI[of _ n], rule exI[of _ nn], rule exI[of _ d], rule exI[of _ nd])
      (simp add: txn_limits add.assoc del: of_nat_add of_nat_Suc)
  done

lemma instr_layout_accepted:
  assumes "fits p" "instr_layout p a i ins j"
  shows "\<exists>m'. parse_instr p a i m = Inr (ins, j, m')
    \<and> max_acct_from p (unat (ti_acct_cnt ins)) (unat (ti_acct_off ins)) m = Inr m'"
proof -
  obtain n nn d nd where *: "i + 3 \<le> length p" "cu16_at p (i + 1) n nn" "i + 1 + nn + unat n \<le> length p" "cu16_at p (i + 1 + nn + unat n) d nd"
      "j = i + 1 + nn + unat n + nd + unat d" "j \<le> length p" "0 < unat (p ! i)" "unat (p ! i) < unat a"
    and ins: "ins = \<lparr> ti_program_id = p ! i, ti_acct_cnt = n, ti_data_sz = d, ti_acct_off = word_of_nat (i + 1 + nn),
                  ti_data_off = word_of_nat (i + 1 + nn + unat n + nd) \<rparr>"
    using assms(2) unfolding instr_layout_def by blast
  define j1 where "j1 = i + 1 + nn"
  define j2 where "j2 = j1 + unat n"
  define j3 where "j3 = j2 + nd"
  have le: "i < length p" "Suc i + nn \<le> length p" "j1 \<le> length p" "j2 \<le> length p" "j1 + unat n \<le> length p" "j3 + unat d \<le> length p" "j3 \<le> length p"
      "length p \<le> 1232" "j = j3 + unat d" "i + 1 + nn = j1" "j1 + unat n = j2" "j2 + nd = j3"
    using * cu16_at_le[OF *(4)] assms(1) by (simp_all add: j1_def j2_def j3_def fits_def)
  have add: "ulong_add i (Suc 0) = Suc i" "ulong_add (Suc i) nn = j1" "ulong_add j1 (unat n) = j2" "ulong_add j2 nd = j3" "ulong_add j3 (unat d) = j"
    using le by (auto simp: ulong_add_exact j1_def)
  have cu: "read_cu16 l p (Suc i) k = k n nn" "read_cu16 l p j2 k = k d nd" for l and k :: "u16 \<Rightarrow> nat \<Rightarrow> 'x parse"
    using read_cu16_eq[OF assms(1) *(2)] read_cu16_eq[OF assms(1) *(4)] by (simp_all add: j1_def j2_def)
  have "good (max_acct_from p (unat n) j1 m) (\<lambda>m'. m \<le> m' \<and> (\<forall>k < unat n. p ! (j1 + k) \<le> m'))" by (rule max_acct_good) (rule le)
  moreover have "max_acct_from p k x y \<noteq> Inl (Reject l)" for k x y l by (induction k arbitrary: x y) (simp_all add: byte_at_def)
  ultimately obtain m' where m': "max_acct_from p (unat n) j1 m = Inr m'"
    unfolding good_def by (metis sum.exhaust txn_fault.exhaust)
  have "parse_instr p a i m = Inr (ins, j, m')"
    unfolding parse_instr_def ins le(10-12)
    using *(1,7,8) by (simp add: Let_def add cu le check_left_eq[OF assms(1)] check_def byte_at_def m' andthen_def MIN_INSTR_SZ_def)
  moreover have "unat (word_of_nat j1 :: u16) = j1" using le by (simp add: unat_of_nat16)
  ultimately show ?thesis using m' unfolding ins le(10) fd_txn_instr.simps by metis
qed

end
