(* ===== verification/Txn_Built.thy ===== *)
theory Txn_Built
  imports Txn_Layout
begin

text \<open>
  Transactions with one instruction, put together from their parts: the parser accepts them and returns the
  parts.
\<close>

text \<open>A legacy transaction: counts, signatures, addresses, blockhash, and the program, accounts and data of the instruction.\<close>

definition txn_head :: "u8 \<Rightarrow> u8 \<Rightarrow> u8 \<Rightarrow> u16 \<Rightarrow> u8 list \<Rightarrow> u8 list \<Rightarrow> u8 list \<Rightarrow> u8 list" where
  "txn_head s q r a sigs accts blockhash = s # sigs @ [s, q, r] @ fd_cu16_enc a @ accts @ blockhash"

definition txn_bytes :: "u8 \<Rightarrow> u8 \<Rightarrow> u8 \<Rightarrow> u16 \<Rightarrow> u8 list \<Rightarrow> u8 list \<Rightarrow> u8 list \<Rightarrow> u8 \<Rightarrow> u8 list \<Rightarrow> u8 list \<Rightarrow> u8 list" where
  "txn_bytes s q r a sigs accts blockhash program ix_accts ix_data =
     txn_head s q r a sigs accts blockhash @ fd_cu16_enc 1 @ program # fd_cu16_enc (word_of_nat (length ix_accts)) @ ix_accts
     @ fd_cu16_enc (word_of_nat (length ix_data)) @ ix_data"

definition parts_ok :: "u8 \<Rightarrow> u8 \<Rightarrow> u8 \<Rightarrow> u16 \<Rightarrow> u8 list \<Rightarrow> u8 list \<Rightarrow> u8 list \<Rightarrow> u8 \<Rightarrow> u8 list \<Rightarrow> u8 list \<Rightarrow> bool" where
  "parts_ok s q r a sigs accts blockhash program ix_accts ix_data \<longleftrightarrow>
     1 \<le> unat s \<and> unat s \<le> 127 \<and> unat q < unat s \<and> unat s + unat r \<le> unat a \<and> unat a < 128
     \<and> length sigs = 64 * unat s \<and> length accts = 32 * unat a \<and> length blockhash = 32
     \<and> length ix_accts < 128 \<and> 0 < unat program \<and> unat program < unat a \<and> (\<forall>x \<in> set ix_accts. unat x < unat a)
     \<and> length (txn_bytes s q r a sigs accts blockhash program ix_accts ix_data) \<le> 1232"

lemma cu16_at_append: "p = xs @ fd_cu16_enc v @ ys \<Longrightarrow> length xs = i \<Longrightarrow> cu16_at p i v (length (fd_cu16_enc v))"
  by (simp add: cu16_at_def)

lemma length_enc_small: "unat v < 128 \<Longrightarrow> length (fd_cu16_enc v) = 1"
  by (simp add: length_enc)

lemma max_acct_list:
  "drop i p = xs @ ys \<Longrightarrow> \<exists>m'. max_acct_from p (length xs) i m = Inr m' \<and> (m' = m \<or> m' \<in> set xs)"
proof (induction xs arbitrary: i m)
  case (Cons x xs)
  have "i < length p" using Cons.prems by (metis append_Cons drop_all list.discI not_le_imp_less)
  hence "p ! i = x" "drop (i + 1) p = xs @ ys" using Cons.prems by (auto simp: Cons_nth_drop_Suc[symmetric])
  thus ?case using Cons.IH[of "i + 1" "max m x"] \<open>i < length p\<close> by (auto simp: byte_at_def max_def)
qed simp

lemma parse_built:
  assumes ok: "parts_ok s q r a sigs accts bh program ix_accts ix_data"
  defines "p \<equiv> txn_bytes s q r a sigs accts bh program ix_accts ix_data"
  defines "m \<equiv> 1 + 64 * unat s"
  defines "j \<equiv> m + 4 + 32 * unat a + 32 + 1"
  defines "d \<equiv> j + 2 + length ix_accts + length (fd_cu16_enc (word_of_nat (length ix_data)))"
  shows "fd_txn_parse p = Inr
     (\<lparr> txn_transaction_version = FD_TXN_VLEGACY, txn_signature_cnt = s, txn_signature_off = 1, txn_message_off = word_of_nat m,
        txn_readonly_signed_cnt = q, txn_readonly_unsigned_cnt = r, txn_acct_addr_cnt = a, txn_acct_addr_off = word_of_nat (m + 4),
        txn_recent_blockhash_off = word_of_nat (m + 4 + 32 * unat a), txn_addr_table_lookup_cnt = 0,
        txn_addr_table_adtl_writable_cnt = 0, txn_addr_table_adtl_cnt = 0, txn_instr_cnt = 1,
        txn_instr = [\<lparr> ti_program_id = program, ti_acct_cnt = word_of_nat (length ix_accts), ti_data_sz = word_of_nat (length ix_data),
          ti_acct_off = word_of_nat (j + 2), ti_data_off = word_of_nat d \<rparr>],
        txn_address_tables = [] \<rparr>, length p, fd_txn_footprint 1 0)"
proof -
  from ok have parts: "1 \<le> unat s" "unat s \<le> 127" "unat q < unat s" "unat s + unat r \<le> unat a" "unat a < 128"
      "length sigs = 64 * unat s" "length accts = 32 * unat a" "length bh = 32" "length ix_accts < 128" "0 < unat program" "unat program < unat a"
      "\<forall>x \<in> set ix_accts. unat x < unat a" "length (txn_bytes s q r a sigs accts bh program ix_accts ix_data) \<le> 1232"
    by (auto simp: parts_ok_def)
  have fits: "fits p" using parts by (simp add: fits_def p_def)
  have ea: "length (fd_cu16_enc a) = 1" "length (fd_cu16_enc 1) = 1" "length (fd_cu16_enc (word_of_nat (length ix_accts))) = 1"
    using parts by (simp_all add: length_enc unat_of_nat16)
  define A where "A = s # sigs"
  define B where "B = fd_cu16_enc 1 @ program # fd_cu16_enc (word_of_nat (length ix_accts)) @ ix_accts
     @ fd_cu16_enc (word_of_nat (length ix_data)) @ ix_data"
  have A: "length A = m" using parts by (simp add: A_def m_def)
  have p: "p = A @ [s, q, r] @ fd_cu16_enc a @ accts @ bh @ B" by (simp add: p_def txn_bytes_def txn_head_def A_def B_def)
  have len: "length p = d + length ix_data" "j + 3 \<le> length p"
    using parts ea A by (simp_all add: p B_def d_def j_def length_enc)
  have n: "unat (word_of_nat (length ix_accts) :: u16) = length ix_accts" "unat (word_of_nat (length ix_data) :: u16) = length ix_data"
    using parts len(1) unfolding p_def[symmetric] by (simp_all add: unat_of_nat16)
  have at: "p ! (m + k) = ([s, q, r] @ fd_cu16_enc a @ accts @ bh @ B) ! k" for k unfolding p A[symmetric] by (rule nth_append_length_plus)
  have sigs: "sigs_layout p s 1 m FD_TXN_VLEGACY (m + 1)"
    using parts fits at[of 0] len by (simp add: sigs_layout_def txn_limits m_def j_def p A_def)
  define t0 where "t0 = \<lparr> txn_transaction_version = FD_TXN_VLEGACY, txn_signature_cnt = s, txn_signature_off = word_of_nat 1,
      txn_message_off = word_of_nat m, txn_readonly_signed_cnt = q, txn_readonly_unsigned_cnt = r, txn_acct_addr_cnt = a,
      txn_acct_addr_off = word_of_nat (m + 4), txn_recent_blockhash_off = word_of_nat (m + 4 + 32 * unat a),
      txn_addr_table_lookup_cnt = 0, txn_addr_table_adtl_writable_cnt = 0, txn_addr_table_adtl_cnt = 0, txn_instr_cnt = 1,
      txn_instr = [], txn_address_tables = [] \<rparr>"
  have pos: "m + 1 + 2 + 1 = m + 4" "m + 4 + 32 * unat a + 32 + 1 = j" "m + 1 + 1 = m + 2" "m + 1 + 2 = m + 3" by (simp_all add: j_def)
  have cu_a: "cu16_at p (m + 3) a 1"
    using cu16_at_append[of p "A @ [s, q, r]" a "accts @ bh @ B" "m + 3"] A by (simp add: p ea)
  have cu_c: "cu16_at p (m + 4 + 32 * unat a + 32) 1 1"
    using cu16_at_append[of p "A @ [s, q, r] @ fd_cu16_enc a @ accts @ bh" 1 _ "m + 4 + 32 * unat a + 32"] A parts
    by (simp add: p B_def ea)
  have hdr: "accts_layout p s 1 m FD_TXN_VLEGACY (m + 1) t0 j"
    unfolding accts_layout_def
    apply (rule exI[of _ a], rule exI[of _ 1], rule exI[of _ 1], rule exI[of _ 1])
    using parts cu_a cu_c at[of 1] at[of 2] len(2) unfolding pos t0_def by (simp add: txn_limits j_def)
  have header: "parse_header p = Inr (t0, j)"
    using sigs accts_layout_accepted[OF fits hdr] unfolding parse_header_def andthen_Inr parse_signatures_iff[symmetric] by blast
  define C where "C = A @ [s, q, r] @ fd_cu16_enc a @ accts @ bh @ fd_cu16_enc 1"
  have C: "length C = j" using A parts by (simp add: C_def ea j_def)
  have pC: "p = C @ program # fd_cu16_enc (word_of_nat (length ix_accts)) @ ix_accts @ fd_cu16_enc (word_of_nat (length ix_data)) @ ix_data"
    by (simp add: p C_def B_def)
  define ins where "ins = \<lparr> ti_program_id = program, ti_acct_cnt = word_of_nat (length ix_accts), ti_data_sz = word_of_nat (length ix_data),
          ti_acct_off = word_of_nat (j + 2), ti_data_off = word_of_nat d \<rparr>"
  have prog: "p ! j = program" unfolding pC C[symmetric] by (rule nth_append_length)
  have cu_n: "cu16_at p (j + 1) (word_of_nat (length ix_accts)) 1"
    using cu16_at_append[of p "C @ [program]" "word_of_nat (length ix_accts)" _ "j + 1"] C ea(3) pC by simp
  have cu_d: "cu16_at p (j + 2 + length ix_accts) (word_of_nat (length ix_data)) (length (fd_cu16_enc (word_of_nat (length ix_data))))"
    using cu16_at_append[of p "C @ program # fd_cu16_enc (word_of_nat (length ix_accts)) @ ix_accts" "word_of_nat (length ix_data)" _ "j + 2 + length ix_accts"]
      C ea(3) pC by simp
  have instr: "instr_layout p a j ins (length p)"
    unfolding instr_layout_def
    apply (rule exI[of _ "word_of_nat (length ix_accts)"], rule exI[of _ 1], rule exI[of _ "word_of_nat (length ix_data)"],
        rule exI[of _ "length (fd_cu16_enc (word_of_nat (length ix_data)))"])
    using parts cu_n cu_d len unfolding n by (simp add: prog ins_def d_def del: of_nat_add of_nat_Suc)
  obtain mx where mx: "parse_instr p a j 0 = Inr (ins, length p, mx)" "max_acct_from p (length ix_accts) (j + 2) 0 = Inr mx"
  proof -
    have "unat (word_of_nat (j + 2) :: u16) = j + 2" using fits len(2) by (intro unat_of_nat16) (simp add: fits_def)
    thus ?thesis using that instr_layout_accepted[OF fits instr, of 0] by (auto simp: ins_def n simp del: of_nat_add)
  qed
  have "drop (j + 2) p = ix_accts @ fd_cu16_enc (word_of_nat (length ix_data)) @ ix_data" using C ea(3) by (simp add: pC)
  hence "mx = 0 \<or> mx \<in> set ix_accts" using max_acct_list[of "j + 2" p ix_accts _ 0] mx(2) by auto
  hence small: "unat mx < unat a" using parts by auto
  have add: "ulong_add (unat a) 0 = unat a" using parts by (simp add: ulong_add_exact)
  have one: "word_of_nat (Suc 0) = (1 :: u16)" by simp
  show ?thesis
    using parts(5) small by (simp add: fd_txn_parse_def fd_txn_parse_core_def header andthen_def mx(1) parse_tables_def t0_def
        V0_not_legacy[symmetric] check_def add FD_TXN_ACCT_ADDR_MAX_def ins_def one del: of_nat_add of_nat_Suc)
qed

end
