(* ===== verification/Txn_Gen_Ok.thy ===== *)
theory Txn_Gen_Ok
  imports Txn_Generate Txn_Built
begin

text \<open>The transaction builder writes the bytes of its parts, inside the payload.\<close>

definition ends_in :: "'e + 'a \<Rightarrow> ('a \<Rightarrow> bool) \<Rightarrow> bool" where
  "ends_in m Q \<longleftrightarrow> (\<exists>x. m = Inr x \<and> Q x)"

lemma ends_in_Inr [simp]: "ends_in (Inr x) Q \<longleftrightarrow> Q x"
  by (simp add: ends_in_def)

lemma ends_in_andthen: "ends_in m P \<Longrightarrow> (\<And>x. P x \<Longrightarrow> ends_in (f x) Q) \<Longrightarrow> ends_in (andthen m f) Q"
  by (auto simp: ends_in_def andthen_def)

lemma ends_in_test: "c \<Longrightarrow> ends_in k Q \<Longrightarrow> ends_in (test l c k) Q"
  by (simp add: test_def)

text \<open>Writing behind what is already there.\<close>

definition wrote :: "nat \<Rightarrow> u8 list \<Rightarrow> u8 list \<Rightarrow> bool" where
  "wrote n pre buf \<longleftrightarrow> length buf = n \<and> take (length pre) buf = pre"

lemma put_step:
  assumes "wrote n pre buf" "off = length pre" "length pre + length bs \<le> n"
    "\<And>buf'. wrote n (pre @ bs) buf' \<Longrightarrow> ends_in (k buf') Q"
  shows "ends_in (put off bs buf k) Q"
  using assms by (simp add: put_def wrote_def)

lemma copy_step:
  assumes "wrote n pre buf" "off = length pre" "unat c = l" "l \<le> length src" "length pre + l \<le> n"
    "\<And>buf'. wrote n (pre @ take l src) buf' \<Longrightarrow> ends_in (k buf') Q"
  shows "ends_in (copy off src c buf k) Q"
  using assms by (simp add: copy_def put_def wrote_def)

text \<open>The first byte, with the bytes behind it left as they are.\<close>

lemma put_first:
  assumes "payload \<noteq> []" "l \<le> length payload - 1" "wrote (length payload) (b # take l (drop 1 payload)) (b # drop 1 payload) \<Longrightarrow>
    ends_in (k (b # drop 1 payload)) Q"
  shows "ends_in (put 0 [b] payload k) Q"
proof -
  have "Suc (length payload - 1) = length payload" using assms(1) by (cases payload) auto
  hence "wrote (length payload) (b # take l (drop 1 payload)) (b # drop 1 payload)" using assms(2) by (simp add: wrote_def)
  thus ?thesis using assms(1,3) by (simp add: put_def Suc_le_eq)
qed

lemma enc_small: "unat v < 128 \<Longrightarrow> fd_cu16_enc v = [ucast v]"
proof -
  assume "unat v < 128"
  hence "[ucast v] = fd_cu16_enc v" by (intro enc_eqI) (simp add: unat_enc Let_def unsigned_ucast_eq take_bit_nat_mod)
  thus ?thesis by simp
qed

section \<open>The head\<close>

definition accounts_bytes :: "fd_txn_accounts \<Rightarrow> u8 list" where
  "accounts_bytes acc =
     (let s = unat (ta_signature_cnt acc); q = unat (ta_readonly_signed_cnt acc); r = unat (ta_readonly_unsigned_cnt acc);
          a = unat (ta_acct_cnt acc)
      in take (32 * (s - q)) (ta_signers_w acc) @ take (32 * q) (ta_signers_r acc)
         @ take (32 * (a - r - s)) (ta_non_signers_w acc) @ take (32 * r) (ta_non_signers_r acc))"

definition accounts_ok :: "fd_txn_accounts \<Rightarrow> bool" where
  "accounts_ok acc \<longleftrightarrow>
     (let s = unat (ta_signature_cnt acc); q = unat (ta_readonly_signed_cnt acc); r = unat (ta_readonly_unsigned_cnt acc);
          a = unat (ta_acct_cnt acc)
      in s \<le> 127 \<and> q \<le> s \<and> s + r \<le> a \<and> a < 128 \<and> 32 * (s - q) \<le> length (ta_signers_w acc) \<and> 32 * q \<le> length (ta_signers_r acc)
         \<and> 32 * (a - r - s) \<le> length (ta_non_signers_w acc) \<and> 32 * r \<le> length (ta_non_signers_r acc))"

lemma unat_word_of_int_diff: "y \<le> x \<Longrightarrow> x < 65536 \<Longrightarrow> unat (32 * word_of_int (int x - int y) :: u64) = 32 * (x - y)"
proof -
  assume a: "y \<le> x" "x < 65536"
  hence "(32 * word_of_int (int x - int y) :: u64) = word_of_nat (32 * (x - y))" by (simp add: of_nat_diff)
  thus ?thesis using a by (simp add: unsigned_of_nat take_bit_nat_mod del: of_nat_mult of_nat_diff)
qed


lemma unat_ucast16: "unat (x :: u64) < 65536 \<Longrightarrow> unat (ucast x :: u16) = unat x"
  by (simp add: unsigned_ucast_eq take_bit_nat_mod)

lemma ucast64: "unat (ucast (b :: u8) :: u64) = unat b" "unat (ucast (h :: u16) :: u64) = unat h"
  using unat_u8[of b] unat_u16[of h] by (simp_all add: unsigned_ucast_eq take_bit_nat_mod)

lemma unat_mult_small: "unat (c :: u64) * unat (x :: u64) < 2 ^ 64 \<Longrightarrow> unat (c * x) = unat c * unat x"
  by (simp add: unat_word_ariths(2))

lemma base_meta_offs:
  fixes meta
  assumes "accounts_ok acc"
  defines "meta' \<equiv> base_meta meta (ucast (ta_signature_cnt acc)) acc"
  shows "unat (txn_message_off meta') = 1 + 64 * unat (ta_signature_cnt acc)"
    "unat (txn_recent_blockhash_off meta') = 1 + 64 * unat (ta_signature_cnt acc) + 4 + 32 * unat (ta_acct_cnt acc)"
    "txn_acct_addr_cnt meta' = ta_acct_cnt acc" "txn_instr_cnt meta' = 0"
proof -
  let ?s = "unat (ta_signature_cnt acc)" and ?a = "unat (ta_acct_cnt acc)"
  have le: "?s \<le> 127" "?a < 128" using assms(1) by (simp_all add: accounts_ok_def Let_def)
  have m: "unat (ucast (ta_signature_cnt acc) * 64 + 1 :: u64) = 1 + 64 * ?s"
    using le unat_mult_small[of "ucast (ta_signature_cnt acc)" 64] by (subst unat_add64) (simp_all add: ucast64)
  hence mo: "unat (ucast (ucast (ta_signature_cnt acc) * 64 + 1 :: u64) :: u16) = 1 + 64 * ?s" using le by (simp add: unat_ucast16)
  define w where "w = (ucast (ucast (ta_signature_cnt acc) * 64 + 1 :: u64) :: u16)"
  have w: "unat w = 1 + 64 * ?s" using mo by (simp add: w_def)
  have x: "unat (ucast w + 3 + 1 :: u64) = 1 + 64 * ?s + 4"
    using w le unat_add64[of "ucast w" 4] by (simp add: ucast64 add.assoc)
  define v where "v = (ucast (ucast w + 3 + 1 :: u64) :: u16)"
  have v: "unat v = 1 + 64 * ?s + 4" using x le unfolding v_def by (subst unat_ucast16) simp_all
  have "unat (ucast (ta_acct_cnt acc) * 32 :: u64) = 32 * ?a"
    using le unat_mult_small[of "ucast (ta_acct_cnt acc)" 32] by (simp add: ucast64)
  hence y: "unat (ucast v + ucast (ta_acct_cnt acc) * 32 :: u64) = 1 + 64 * ?s + 4 + 32 * ?a"
    using v le by (subst unat_add64) (simp_all add: ucast64)
  show "unat (txn_message_off meta') = 1 + 64 * ?s" using w by (simp add: meta'_def base_meta_def Let_def w_def)
  show "unat (txn_recent_blockhash_off meta') = 1 + 64 * ?s + 4 + 32 * ?a"
    using y le unfolding meta'_def base_meta_def Let_def w_def[symmetric] v_def[symmetric] by (simp add: unat_ucast16)
  show "txn_acct_addr_cnt meta' = ta_acct_cnt acc" "txn_instr_cnt meta' = 0" by (simp_all add: meta'_def base_meta_def Let_def)
qed

lemma write_szs:
  assumes "accounts_ok acc"
  shows "unat (signers_write_sz acc) = 32 * (unat (ta_signature_cnt acc) - unat (ta_readonly_signed_cnt acc))"
    "unat (non_signers_write_sz acc) = 32 * (unat (ta_acct_cnt acc) - unat (ta_readonly_unsigned_cnt acc) - unat (ta_signature_cnt acc))"
    "unat (32 * ucast (ta_readonly_signed_cnt acc) :: u64) = 32 * unat (ta_readonly_signed_cnt acc)"
    "unat (32 * ucast (ta_readonly_unsigned_cnt acc) :: u64) = 32 * unat (ta_readonly_unsigned_cnt acc)"
proof -
  let ?s = "unat (ta_signature_cnt acc)" and ?a = "unat (ta_acct_cnt acc)" and ?q = "unat (ta_readonly_signed_cnt acc)"
    and ?r = "unat (ta_readonly_unsigned_cnt acc)"
  have le: "?q \<le> ?s" "?s \<le> 127" "?s + ?r \<le> ?a" "?a < 128" using assms by (simp_all add: accounts_ok_def Let_def)
  show "unat (signers_write_sz acc) = 32 * (?s - ?q)"
    unfolding signers_write_sz_def using le by (intro unat_word_of_int_diff) simp_all
  have "int ?a - int ?r - int ?s = int ?a - int (?r + ?s)" by simp
  thus "unat (non_signers_write_sz acc) = 32 * (?a - ?r - ?s)"
    unfolding non_signers_write_sz_def using le unat_word_of_int_diff[of "?r + ?s" ?a] by (simp only: diff_diff_left)
  show "unat (32 * ucast (ta_readonly_signed_cnt acc) :: u64) = 32 * ?q"
    "unat (32 * ucast (ta_readonly_unsigned_cnt acc) :: u64) = 32 * ?r"
    using le unat_mult_small[of 32 "ucast (ta_readonly_signed_cnt acc)"] unat_mult_small[of 32 "ucast (ta_readonly_unsigned_cnt acc)"]
    by (simp_all add: ucast64)
qed


lemma base_generate_ok:
  fixes meta payload acc bh
  assumes ok: "accounts_ok acc" and bh: "length bh = 32"
    and room: "1 + 64 * unat (ta_signature_cnt acc) + 4 + 32 * unat (ta_acct_cnt acc) + 32 \<le> length payload"
  defines "s \<equiv> ta_signature_cnt acc"
  shows "ends_in (fd_txn_base_generate meta payload (ucast s) acc (Some bh)) (\<lambda>(meta', payload', n).
    meta' = base_meta meta (ucast s) acc \<and> length payload' = length payload \<and> n = 1 + 64 * unat s + 4 + 32 * unat (ta_acct_cnt acc) + 32
    \<and> take n payload' = txn_head s (ta_readonly_signed_cnt acc) (ta_readonly_unsigned_cnt acc) (ta_acct_cnt acc)
        (take (64 * unat s) (drop 1 payload)) (accounts_bytes acc) bh)"
proof -
  define sc qc rc ac where "sc = unat (ta_signature_cnt acc)" and "qc = unat (ta_readonly_signed_cnt acc)"
    and "rc = unat (ta_readonly_unsigned_cnt acc)" and "ac = unat (ta_acct_cnt acc)"
  note cs = sc_def[symmetric] qc_def[symmetric] rc_def[symmetric] ac_def[symmetric]
  have le: "sc \<le> 127" "qc \<le> sc" "sc + rc \<le> ac" "ac < 128" "32 * (sc - qc) \<le> length (ta_signers_w acc)" "32 * qc \<le> length (ta_signers_r acc)"
      "32 * (ac - rc - sc) \<le> length (ta_non_signers_w acc)" "32 * rc \<le> length (ta_non_signers_r acc)" "1 + 64 * sc + 4 + 32 * ac + 32 \<le> length payload"
    using ok room by (simp_all add: accounts_ok_def Let_def cs)
  note offs = base_meta_offs[OF ok, of meta, unfolded cs] and szs = write_szs[OF ok, unfolded cs]
  define w where "w = 1 + 64 * sc"
  have enc: "fd_cu16_enc (ta_acct_cnt acc) = [ucast (ta_acct_cnt acc)]" using le(4) by (simp add: enc_small ac_def)
  have ws: "w + 3 + 1 + 32 * (sc - qc) + 32 * qc + 32 * (ac - rc - sc) + 32 * rc = w + 4 + 32 * ac" using le by simp
  have off: "word_of_nat (w + 4 + 32 * ac) = txn_recent_blockhash_off (base_meta meta (ucast (ta_signature_cnt acc)) acc)"
  proof -
    have "unat (word_of_nat (w + 4 + 32 * ac) :: u16) = w + 4 + 32 * ac" using le by (intro unat_of_nat16) (simp add: w_def)
    thus ?thesis using offs(2) by (intro unsigned_word_eqI[where 'a = nat]) (simp only: w_def)
  qed
  let ?pre = "ta_signature_cnt acc # take (64 * sc) (drop 1 payload)"
  have sg: "ucast (ucast (ta_signature_cnt acc) :: u64) = ta_signature_cnt acc" by (rule bit_word_eqI) (simp add: bit_simps)
  show ?thesis
    unfolding fd_txn_base_generate_def Let_def s_def offs(1,3) szs cs
    apply (rule ends_in_test)
    subgoal using le by (simp add: ucast64 cs FD_TXN_SIG_MAX_def)
    apply (rule put_first[where l = "64 * sc"])
    subgoal using le by auto
    subgoal using le by simp
    apply (rule ends_in_test)
    subgoal using le by (simp add: FD_TXN_ACCT_ADDR_MAX_def ac_def)
    apply (rule put_step, assumption)
    subgoal using le by simp
    subgoal using le by simp
    apply (rule put_step, assumption)
    subgoal using le by simp
    subgoal using le by simp
    apply (rule copy_step[OF _ _ szs(1)], assumption)
    subgoal using le by simp
    subgoal using le by simp
    subgoal using le by simp
    apply (rule copy_step[OF _ _ szs(3)], assumption)
    subgoal using le by simp
    subgoal using le by simp
    subgoal using le by simp
    apply (rule copy_step[OF _ _ szs(2)], assumption)
    subgoal using le by simp
    subgoal using le by simp
    subgoal using le by simp
    apply (rule copy_step[OF _ _ szs(4)], assumption)
    subgoal using le by simp
    subgoal using le by simp
    subgoal using le by simp
    apply (rule ends_in_test)
    subgoal unfolding ws[unfolded w_def] using off[unfolded w_def] .
    apply (rule copy_step[where l = 32], assumption)
    subgoal using le by simp
    subgoal by simp
    subgoal using bh by simp
    subgoal using le bh by simp
    subgoal premises prems for b1 b2 b3 b4 b5 b6 b7
      using prems(8) le ws bh by (simp add: wrote_def txn_head_def accounts_bytes_def Let_def cs enc sg w_def FD_TXN_BLOCKHASH_SZ_def)
    done
qed

section \<open>The instruction\<close>

lemma add_instr_ok:
  fixes meta payload head program
  assumes meta: "txn_instr_cnt meta = 0" "length head = unat (txn_recent_blockhash_off meta) + 32" "txn_recent_blockhash_off meta \<noteq> 0"
    and buf: "wrote n head payload" and small: "length ix_accts < 128" "length ix_data < 65536"
  defines "bytes \<equiv> head @ fd_cu16_enc 1 @ program # fd_cu16_enc (word_of_nat (length ix_accts)) @ ix_accts
     @ fd_cu16_enc (word_of_nat (length ix_data)) @ ix_data"
  assumes room: "length bytes \<le> n"
  shows "ends_in (fd_txn_add_instr meta payload program ix_accts (word_of_nat (length ix_accts)) ix_data (word_of_nat (length ix_data)))
    (\<lambda>(meta', payload', sz). wrote n bytes payload' \<and> sz = length bytes)"
proof -
  have e1: "fd_cu16_enc 1 = [1]" by (simp add: enc_small)
  have u: "unat (word_of_nat (length ix_accts) :: u64) = length ix_accts" "unat (word_of_nat (length ix_data) :: u64) = length ix_data"
    "ucast (word_of_nat (length ix_accts) :: u64) = (word_of_nat (length ix_accts) :: u16)"
    "ucast (word_of_nat (length ix_data) :: u64) = (word_of_nat (length ix_data) :: u16)"
    "unat (word_of_nat (length ix_data) :: u16) = length ix_data"
    using small by (simp_all add: unsigned_of_nat take_bit_nat_mod unat_of_nat16 unsigned_ucast_eq word_unat_eq_iff)
  have u': "unat (ucast (word_of_nat (length ix_data) :: u16) :: u64) = length ix_data" by (simp add: ucast64 u)
  show ?thesis
    unfolding fd_txn_add_instr_def Let_def
    apply (rule ends_in_test)
    subgoal using meta by (simp add: FD_TXN_INSTR_MAX_def)
    apply (rule ends_in_test)
    subgoal using meta by simp
    apply (rule put_step[OF buf])
    subgoal using meta by (simp add: FD_TXN_BLOCKHASH_SZ_def)
    subgoal using meta room by (simp add: bytes_def e1)
    apply (rule ends_in_test)
    subgoal using meta by (simp add: e1)
    apply (rule ends_in_andthen[where P = "\<lambda>w. w = length head + 1"])
    subgoal using meta by (simp add: instr_start_def e1 FD_TXN_BLOCKHASH_SZ_def)
    apply (rule put_step, assumption)
    subgoal using meta by (simp add: e1)
    subgoal using meta room by (simp add: bytes_def e1)
    apply (rule put_step, assumption)
    subgoal using meta by (simp add: e1)
    subgoal using meta room by (simp add: bytes_def e1 u)
    apply (rule copy_step[OF _ _ u(1)], assumption)
    subgoal using meta by (simp add: e1 u)
    subgoal by simp
    subgoal using meta room by (simp add: bytes_def e1 u)
    apply (rule put_step, assumption)
    subgoal using meta by (simp add: e1 u)
    subgoal using meta room by (simp add: bytes_def e1 u)
    apply (rule copy_step[OF _ _ u'[folded u(4)]], assumption)
    subgoal using meta by (simp add: e1 u)
    subgoal by simp
    subgoal using meta room by (simp add: bytes_def e1 u)
    subgoal using meta by (simp add: bytes_def e1 u)
    done
qed

end
