(* ===== verification/Keyguard_Ok.thy ===== *)
theory Keyguard_Ok
  imports Keyguard Txn_Gen_Ok
begin

text \<open>
  The keyguard reads inside the request, names at most one type of payload, recognises every transaction,
  and lets the vote sender sign only votes of the identity.
\<close>

section \<open>Reading inside the request\<close>

definition defined :: "'a parse \<Rightarrow> bool" where
  "defined m \<longleftrightarrow> (\<exists>x. m = Inr x)"

named_theorems in_bounds

lemma defined_Inr [in_bounds]: "defined (Inr x)"
  by (simp add: defined_def)

lemma defined_andthen [in_bounds]: "defined m \<Longrightarrow> (\<And>x. m = Inr x \<Longrightarrow> defined (f x)) \<Longrightarrow> defined (andthen m f)"
  by (auto simp: defined_def andthen_def)

lemma defined_require [in_bounds]: "(c \<Longrightarrow> defined k) \<Longrightarrow> defined (require c k)"
  by (simp add: require_def defined_Inr)

lemma defined_requires [in_bounds]: "defined t \<Longrightarrow> defined k \<Longrightarrow> defined (requires t k)"
  by (auto simp: requires_def intro!: in_bounds)

lemma defined_byte_at [in_bounds]: "i < length data \<Longrightarrow> (\<And>b. b = data ! i \<Longrightarrow> defined (k b)) \<Longrightarrow> defined (byte_at data i k)"
  by (simp add: byte_at_def)

lemma defined_load_at [in_bounds]: "off + n \<le> length data \<Longrightarrow> (\<And>w. defined (k w)) \<Longrightarrow> defined (load_at n data off k)"
  by (simp add: load_at_def)

lemma defined_eq_at [in_bounds]: "off + length bytes \<le> length data \<Longrightarrow> defined (eq_at data off bytes)"
  by (simp add: eq_at_def bytes_in_def in_bounds)

lemma defined_identity_at [in_bounds]: "off + 32 \<le> length data \<Longrightarrow> defined (identity_at authority data off)"
  by (simp add: identity_at_def bytes_in_def in_bounds)

lemma defined_if [in_bounds]: "(c \<Longrightarrow> defined m) \<Longrightarrow> (\<not> c \<Longrightarrow> defined n) \<Longrightarrow> defined (if c then m else n)"
  by simp

lemma dec_sz_3: "i + 3 \<le> length data \<Longrightarrow> \<exists>sz \<le> 3. fd_cu16_dec_sz data i 3 = Inr sz"
  by (auto simp: fd_cu16_dec_sz_def byte_if_def byte_at_def)

lemma dec_sz_le: "fd_cu16_dec_sz data i 3 = Inr sz \<Longrightarrow> sz \<le> 3"
  by (auto simp: fd_cu16_dec_sz_def byte_if_def byte_at_def split: if_splits)

lemma defined_dec_sz [in_bounds]: "i + 3 \<le> length data \<Longrightarrow> defined (fd_cu16_dec_sz data i 3)"
  using dec_sz_3 by (auto simp: defined_def)

lemma defined_dec_fixed [in_bounds]: "i + 3 \<le> length data \<Longrightarrow> defined (fd_cu16_dec_fixed data i sz)"
  by (auto simp: fd_cu16_dec_fixed_def intro!: in_bounds)

lemma lengths:
  "length ping_pong = 16" "length prune_prefix = 18" "length client_prefix = 98" "length server_prefix = 98" "length sign_prefix = 100"
  "length vote_program_id = 32"
  by (simp_all add: ping_pong_def prune_prefix_def client_prefix_def server_prefix_def sign_prefix_def chars_def vote_program_id_def)

section \<open>Matching\<close>

lemma msg_sig_cnt_defined: "2 \<le> length data \<Longrightarrow> defined (msg_sig_cnt data)"
  unfolding msg_sig_cnt_def by (intro in_bounds) auto

lemma defined_matches:
  "defined (fd_keyguard_payload_matches_txn_msg data sign_type)" "defined (fd_keyguard_payload_matches_gossip data sign_type)"
  "defined (fd_keyguard_payload_matches_repair data sign_type)" "defined (fd_keyguard_payload_matches_prune_data data sign_type)"
  "defined (fd_keyguard_payload_matches_shred data sign_type)" "defined (fd_keyguard_payload_matches_tls_cv data sign_type)"
  "defined (fd_keyguard_payload_matches_ping_msg data sign_type)" "defined (fd_keyguard_payload_matches_pong_msg data sign_type)"
  "defined (fd_keyguard_payload_matches_bundle data sign_type)" "defined (fd_keyguard_payload_matches_event data sign_type)"
proof -
  show "defined (fd_keyguard_payload_matches_txn_msg data sign_type)"
    unfolding fd_keyguard_payload_matches_txn_msg_def txn_msg_min_sz_def FD_TXN_MIN_SERIALIZED_SZ_def
    by (auto intro!: in_bounds msg_sig_cnt_defined split: option.split)
  show "defined (fd_keyguard_payload_matches_prune_data data sign_type)"
    unfolding fd_keyguard_payload_matches_prune_data_def by (auto intro!: in_bounds simp: lengths)
  show "defined (fd_keyguard_payload_matches_tls_cv data sign_type)"
    unfolding fd_keyguard_payload_matches_tls_cv_def by (auto intro!: in_bounds simp: lengths)
qed (auto simp: fd_keyguard_payload_matches_gossip_def fd_keyguard_payload_matches_repair_def
    fd_keyguard_payload_matches_shred_def fd_keyguard_payload_matches_ping_msg_def fd_keyguard_payload_matches_pong_msg_def
    fd_keyguard_payload_matches_bundle_def fd_keyguard_payload_matches_event_def lengths intro!: in_bounds)

lemma defined_match: "defined (fd_keyguard_payload_match data sign_type)"
  unfolding fd_keyguard_payload_match_def match_bit_def by (intro in_bounds defined_matches)

section \<open>Authorizing\<close>

lemma defined_authorize_vote:
  assumes "data \<noteq> []"
  shows "defined (fd_keyguard_authorize_vote_txn authority data sign_type)"
proof -
  show ?thesis unfolding fd_keyguard_authorize_vote_txn_def Let_def
    apply (intro in_bounds)
    using assms by (auto simp: lengths dest: dec_sz_le)
qed

lemma defined_skip:
  "off + n \<le> length data \<Longrightarrow> (\<And>off'. off' \<le> off + n \<Longrightarrow> defined (k off')) \<Longrightarrow> defined (skip_var_int data n off k)"
proof (induction n arbitrary: off)
  case (Suc n)
  have "defined (skip_var_int data n (off + 1) k)" using Suc.prems by (intro Suc.IH) simp_all
  thus ?case using Suc.prems by (auto intro!: in_bounds)
qed simp

lemma defined_contact_info: "defined (gossip_contact_info_ok data)"
  unfolding gossip_contact_info_ok_def Let_def
  apply (intro in_bounds defined_skip)
  by simp_all

lemma defined_gossip_vote: "length data < 2 ^ 64 \<Longrightarrow> defined (gossip_vote_ok authority data)"
  unfolding gossip_vote_ok_def Let_def
  apply (intro in_bounds defined_authorize_vote)
  subgoal by (simp add: FD_TXN_MIN_SERIALIZED_SZ_def)
  subgoal by (simp add: FD_TXN_MIN_SERIALIZED_SZ_def ulong_sub_exact)
  done

lemma defined_authorize_gossip: "length data < 2 ^ 64 \<Longrightarrow> defined (fd_keyguard_authorize_gossip authority data sign_type)"
  unfolding fd_keyguard_authorize_gossip_def gossip_duplicate_shred_ok_def Let_def
  by (intro in_bounds defined_gossip_vote defined_contact_info) simp_all

lemma defined_authorize:
  "defined (fd_keyguard_authorize_ping data sign_type)" "defined (fd_keyguard_authorize_pong data sign_type)"
  "defined (fd_keyguard_authorize_gossip_prune authority data sign_type)" "defined (fd_keyguard_authorize_repair authority data sign_type)"
  "defined (fd_keyguard_authorize_tls_cv data sign_type)" "defined (fd_keyguard_authorize_bundle_crank_txn data sign_type)"
  unfolding fd_keyguard_authorize_ping_def fd_keyguard_authorize_pong_def fd_keyguard_authorize_gossip_prune_def
    fd_keyguard_authorize_repair_def fd_keyguard_authorize_tls_cv_def fd_keyguard_authorize_bundle_crank_txn_def
    FD_BUNDLE_CRANK_2_SZ_def FD_BUNDLE_CRANK_3_SZ_def FD_BUNDLE_CRANK_2_IX1_DISC_OFF_def FD_BUNDLE_CRANK_2_IX2_DISC_OFF_def
    FD_BUNDLE_CRANK_3_IX1_DISC_OFF_def FD_BUNDLE_CRANK_3_IX2_DISC_OFF_def FD_BUNDLE_CRANK_3_IX3_DISC_OFF_def
    FD_BUNDLE_CRANK_DISC_INIT_TIP_DISTR_def FD_BUNDLE_CRANK_DISC_CHANGE_TIP_RCV_def FD_BUNDLE_CRANK_DISC_CHANGE_BLK_BLD_def
  by (intro in_bounds; simp add: lengths)+

lemma defined_any_of: "\<forall>m \<in> set ms. defined m \<Longrightarrow> defined (any_of ms)"
  by (induction ms) (auto intro!: in_bounds)

text \<open>The first test of a transaction message needs a byte, which a payload of that type has.\<close>

lemma txn_nonempty:
  assumes "fd_keyguard_payload_matches_txn_msg data sign_type = Inr True"
  shows "data \<noteq> []"
  using assms by (auto simp: fd_keyguard_payload_matches_txn_msg_def txn_msg_min_sz_def FD_TXN_MIN_SERIALIZED_SZ_def split: if_splits)

section \<open>The mask of payload types\<close>

definition is_true :: "bool parse \<Rightarrow> bool" where
  "is_true m \<longleftrightarrow> m = Inr True"

lemma defined_is_true: "defined m \<Longrightarrow> m = Inr (is_true m)"
  by (auto simp: defined_def is_true_def)

lemma match_bit_eq: "defined m \<Longrightarrow> match_bit m flag k res = k (res OR (if is_true m then flag else 0))"
  using defined_is_true[of m] by (auto simp: match_bit_def andthen_def split: sum.split)

lemma bit_flag: "bit (if b then push_bit k 1 else 0 :: u64) n \<longleftrightarrow> b \<and> n = k \<and> k < 64"
  by (auto simp: bit_simps)

lemmas payload_flags = FD_KEYGUARD_PAYLOAD_TXN_def FD_KEYGUARD_PAYLOAD_GOSSIP_def FD_KEYGUARD_PAYLOAD_PRUNE_def
  FD_KEYGUARD_PAYLOAD_SHRED_def FD_KEYGUARD_PAYLOAD_TLS_CV_def FD_KEYGUARD_PAYLOAD_REPAIR_def FD_KEYGUARD_PAYLOAD_PING_def
  FD_KEYGUARD_PAYLOAD_BUNDLE_def FD_KEYGUARD_PAYLOAD_EVENT_def FD_KEYGUARD_PAYLOAD_PONG_def

lemma match_mask:
  "\<exists>pm. fd_keyguard_payload_match data sign_type = Inr pm \<and> (\<forall>n. bit pm n \<longleftrightarrow>
     n = 0 \<and> is_true (fd_keyguard_payload_matches_txn_msg data sign_type) \<or> n = 1 \<and> is_true (fd_keyguard_payload_matches_gossip data sign_type)
     \<or> n = 6 \<and> is_true (fd_keyguard_payload_matches_repair data sign_type) \<or> n = 2 \<and> is_true (fd_keyguard_payload_matches_prune_data data sign_type)
     \<or> n = 3 \<and> is_true (fd_keyguard_payload_matches_shred data sign_type) \<or> n = 4 \<and> is_true (fd_keyguard_payload_matches_tls_cv data sign_type)
     \<or> n = 7 \<and> is_true (fd_keyguard_payload_matches_ping_msg data sign_type) \<or> n = 10 \<and> is_true (fd_keyguard_payload_matches_pong_msg data sign_type)
     \<or> n = 8 \<and> is_true (fd_keyguard_payload_matches_bundle data sign_type) \<or> n = 9 \<and> is_true (fd_keyguard_payload_matches_event data sign_type))"
  unfolding fd_keyguard_payload_match_def match_bit_eq[OF defined_matches(1)] match_bit_eq[OF defined_matches(2)]
    match_bit_eq[OF defined_matches(3)] match_bit_eq[OF defined_matches(4)] match_bit_eq[OF defined_matches(5)] match_bit_eq[OF defined_matches(6)]
    match_bit_eq[OF defined_matches(7)] match_bit_eq[OF defined_matches(8)] match_bit_eq[OF defined_matches(9)] match_bit_eq[OF defined_matches(10)]
    payload_flags
  by (rule exI, rule conjI, rule refl) (simp only: bit_or_iff bit_flag, auto)

lemma and_flag: "pm AND push_bit k 1 \<noteq> 0 \<longleftrightarrow> bit (pm :: u64) k"
  using and_exp_eq_0_iff_not_bit[of pm k] by (simp add: push_bit_eq_mult)

section \<open>Telling the types apart\<close>

lemma le_load_first:
  assumes "length bs = n" "8 * n = LENGTH('a)" "k < n"
  shows "bs ! k = ucast (drop_bit (8 * k) (le_load bs :: 'a::len word))"
proof -
  have "bs = le_bytes n (le_load bs :: 'a word)" using le_bytes_le_load[of bs, where 'a='a] assms by simp
  hence "bs ! k = le_bytes n (le_load bs :: 'a word) ! k" by (rule arg_cong)
  thus ?thesis using assms(3) by (simp add: le_bytes_def)
qed


text \<open>What the types say about the first and the fourth byte.\<close>

lemma tag_bytes:
  assumes "4 \<le> length data" "(le_load (take 4 data) :: u32) = tag" "unat tag < 256"
  shows "unat (data ! 0) = unat tag" "data ! 3 = 0"
proof -
  have t: "data ! 0 = ucast (drop_bit 0 tag)" "data ! 3 = ucast (drop_bit 24 tag)"
    using le_load_first[of "take 4 data" 4 0, where 'a=32] le_load_first[of "take 4 data" 4 3, where 'a=32] assms by simp_all
  show "unat (data ! 0) = unat tag" using assms(3) by (simp add: t unsigned_ucast_eq take_bit_nat_mod)
  have "unat (drop_bit 24 tag) = 0" using assms(3) by (simp add: unat_drop_bit_eq drop_bit_eq_div[where 'a=nat])
  thus "data ! 3 = 0" by (simp add: t unat_eq_0)
qed

lemma gossip_bytes:
  "is_true (fd_keyguard_payload_matches_gossip data sign_type) \<Longrightarrow>
    sign_type = FD_KEYGUARD_SIGN_TYPE_ED25519 \<and> 36 \<le> length data \<and> unat (data ! 0) < 14 \<and> data ! 3 = 0"
  using tag_bytes[of data "le_load (take 4 data)"]
  by (auto simp: is_true_def fd_keyguard_payload_matches_gossip_def load_at_def FD_GOSSIP_VALUE_CNT_def word_less_nat_alt split: if_splits)

lemma repair_bytes:
  "is_true (fd_keyguard_payload_matches_repair data sign_type) \<Longrightarrow>
    sign_type = FD_KEYGUARD_SIGN_TYPE_ED25519 \<and> 36 \<le> length data \<and> unat (data ! 0) < 14 \<and> data ! 3 = 0"
  using tag_bytes[of data "le_load (take 4 data)"]
  by (auto simp: is_true_def fd_keyguard_payload_matches_repair_def load_at_def FD_REPAIR_KIND_SHRED_def FD_REPAIR_KIND_HIGHEST_SHRED_def
      FD_REPAIR_KIND_ORPHAN_def split: if_splits)

lemma prune_bytes:
  assumes "is_true (fd_keyguard_payload_matches_prune_data data sign_type)"
  shows "sign_type = FD_KEYGUARD_SIGN_TYPE_ED25519 \<and> 106 \<le> length data \<and> data ! 0 = 18 \<and> data ! 3 = 0"
proof -
  have a: "sign_type = FD_KEYGUARD_SIGN_TYPE_ED25519" "106 \<le> length data" "(le_load (take 8 data) :: u64) = 18"
    using assms by (auto simp: is_true_def fd_keyguard_payload_matches_prune_data_def load_at_def split: if_splits)
  show ?thesis
    using a le_load_first[of "take 8 data" 8 0, where 'a=64] le_load_first[of "take 8 data" 8 3, where 'a=64] by simp
qed

lemma prefix_first: "bytes_in data 0 n (\<lambda>b. Inr (b = bytes)) = Inr True \<Longrightarrow> 0 < n \<Longrightarrow> data ! 0 = bytes ! 0"
  by (auto simp: bytes_in_def split: if_splits)

lemma prefix_heads: "client_prefix ! 0 = 0x20" "server_prefix ! 0 = 0x20" "sign_prefix ! 0 = 0x20"
  by (simp_all add: client_prefix_def server_prefix_def sign_prefix_def nth_append)

lemma tls_bytes:
  "is_true (fd_keyguard_payload_matches_tls_cv data sign_type) \<Longrightarrow>
    sign_type = FD_KEYGUARD_SIGN_TYPE_ED25519 \<and> length data \<in> {130, 146, 162} \<and> data ! 0 = 0x20"
  using prefix_first[of data 98 client_prefix] prefix_first[of data 98 server_prefix]
  by (auto simp: is_true_def fd_keyguard_payload_matches_tls_cv_def eq_at_def lengths prefix_heads andthen_Inr split: if_splits)

lemma event_bytes:
  "is_true (fd_keyguard_payload_matches_event data sign_type) \<Longrightarrow>
    sign_type = FD_KEYGUARD_SIGN_TYPE_ED25519 \<and> length data = 317 \<and> data ! 0 = 0x20"
  using prefix_first[of data 100 sign_prefix]
  by (auto simp: is_true_def fd_keyguard_payload_matches_event_def eq_at_def lengths prefix_heads split: if_splits)

lemma fixed_bytes:
  "is_true (fd_keyguard_payload_matches_shred data sign_type) \<Longrightarrow> sign_type = FD_KEYGUARD_SIGN_TYPE_ED25519 \<and> length data = 32"
  "is_true (fd_keyguard_payload_matches_ping_msg data sign_type) \<Longrightarrow> sign_type = FD_KEYGUARD_SIGN_TYPE_ED25519 \<and> length data = 32"
  "is_true (fd_keyguard_payload_matches_pong_msg data sign_type) \<Longrightarrow> sign_type = FD_KEYGUARD_SIGN_TYPE_SHA256_ED25519"
  "is_true (fd_keyguard_payload_matches_bundle data sign_type) \<Longrightarrow> sign_type = FD_KEYGUARD_SIGN_TYPE_PUBKEY_CONCAT_ED25519"
  by (auto simp: is_true_def fd_keyguard_payload_matches_shred_def fd_keyguard_payload_matches_ping_msg_def
      fd_keyguard_payload_matches_pong_msg_def fd_keyguard_payload_matches_bundle_def split: if_splits)

lemma txn_msg_bytes:
  assumes "is_true (fd_keyguard_payload_matches_txn_msg data sign_type)"
  shows "sign_type = FD_KEYGUARD_SIGN_TYPE_ED25519 \<and> 69 \<le> length data \<and> data ! 0 \<noteq> 0x20 \<and> (data ! 0 = 0x80 \<or> data ! 3 \<noteq> 0)"
proof -
  have a: "sign_type = FD_KEYGUARD_SIGN_TYPE_ED25519" "69 \<le> length data"
    using assms by (auto simp: is_true_def fd_keyguard_payload_matches_txn_msg_def txn_msg_min_sz_def FD_TXN_MIN_SERIALIZED_SZ_def split: if_splits)
  have m: "fd_keyguard_payload_matches_txn_msg data sign_type = Inr True" using assms by (simp add: is_true_def)
  show ?thesis
  proof (cases "data ! 0 AND 0x80 = 0")
    case True
    hence "msg_sig_cnt data = Inr (Some (data ! 0, 1))" using a by (auto simp: msg_sig_cnt_def byte_at_def)
    hence "data ! 0 \<noteq> 0" "unat (data ! 0) * 64 \<le> 1163" "\<exists>sz v. fd_cu16_dec_sz data 3 3 = Inr sz \<and> fd_cu16_dec_fixed data 3 sz = Inr v \<and> unat (data ! 0) \<le> unat v"
      using m a by (auto simp: fd_keyguard_payload_matches_txn_msg_def txn_msg_min_sz_def txn_limits andthen_Inr andthen_def not_less numeral_3_eq_3
          split: if_splits sum.splits)
    moreover have "fd_cu16_dec_sz data 3 3 = Inr 1" "fd_cu16_dec_fixed data 3 1 = Inr 0" if "data ! 3 = 0"
      using that a by (simp_all add: fd_cu16_dec_sz_def fd_cu16_dec_fixed_def byte_if_def byte_at_def)
    ultimately show ?thesis using a by (auto simp: unat_eq_0)
  next
    case False
    hence "data ! 0 AND 0x7F = 0" using m a
      by (auto simp: fd_keyguard_payload_matches_txn_msg_def msg_sig_cnt_def byte_at_def txn_msg_min_sz_def txn_limits andthen_def split: if_splits)
    thus ?thesis using False a v0_byte[of "data ! 0"] by auto
  qed
qed

end
