(* ===== verification/Serdes_Codec.thy ===== *)
theory Serdes_Codec
  imports Tower_Serdes Txn_Parse
begin

text \<open>
  The codecs of the tower sync: encoders and decoders are inverse to each other, in both directions, so
  every accepted encoding is the one the encoder gives.
\<close>

section \<open>Short integers\<close>

lemma unat_or_80_short: "unat (w :: u16) < 128 \<Longrightarrow> unat (w OR 0x80) = unat w + 128"
proof -
  assume small: "unat w < 128"
  hence "unat (ucast w :: u64) < 128" by (simp add: unsigned_ucast_eq take_bit_nat_mod)
  moreover have "unat (w OR 0x80) = unat (ucast w OR 0x80 :: u64)"
    using small by (simp add: unsigned_or_eq unsigned_ucast_eq take_bit_nat_mod)
  ultimately show ?thesis using small unat_or_80[of "ucast w"] by (simp add: unsigned_ucast_eq take_bit_nat_mod)
qed

text \<open>The two encoders of the sources agree.\<close>

lemma ser_short_enc: "ser_short_u16 v = fd_cu16_enc v"
proof (rule enc_eqI)
  let ?n = "unat v"
  have low: "unat (ucast (w :: u16) :: u8) = unat w mod 256" for w by (simp add: unsigned_ucast_eq take_bit_nat_mod)
  have d: "unat (drop_bit k v) = ?n div 2 ^ k" for k by (simp add: unat_drop_bit_eq drop_bit_eq_div[where 'a=nat])
  have lt: "v < 0x80 \<longleftrightarrow> ?n < 128" "v < 0x4000 \<longleftrightarrow> ?n < 16384" by (simp_all add: word_less_nat_alt)
  have b0: "unat (ucast ((v AND 0x7F) OR 0x80) :: u8) = ?n mod 128 + 128" by (simp add: low and_7F unat_or_80_short)
  have b1: "unat (ucast ((drop_bit 7 v AND 0x7F) OR 0x80) :: u8) = ?n div 128 mod 128 + 128" by (simp add: low and_7F unat_or_80_short d)
  have b2: "unat (ucast (drop_bit 14 v) :: u8) = ?n div 16384" using unat_u16[of v] by (simp add: low d div_less_iff_less_mult)
  show "map unat (ser_short_u16 v) = map unat (fd_cu16_enc v)"
    unfolding unat_enc using b0 b1 b2 by (simp add: ser_short_u16_def lt low d div_less_iff_less_mult Let_def)
qed

text \<open>So do the decoders: a byte list decodes exactly when it starts with an encoding.\<close>

lemma cu16_at_front: "cu16_at s 0 v (length (fd_cu16_enc v)) \<longleftrightarrow> (\<exists>r. s = fd_cu16_enc v @ r)"
  by (auto simp: cu16_at_def) (metis append_take_drop_id)

lemma and_7F_ucast: "(ucast (b AND 0x7F) :: u64) = ucast (b :: u8) AND 0x7F"
  by (simp add: and_7F bit_eq_iff bit_simps)

lemma de_short_dec:
  "de_short_u16 s = (case fd_cu16_dec_sz s 0 (length s) of Inl e \<Rightarrow> None
     | Inr sz \<Rightarrow> if sz = 0 then None else (case fd_cu16_dec_fixed s 0 sz of Inl e \<Rightarrow> None | Inr v \<Rightarrow> Some (v, drop sz s)))"
proof -
  define val where "val = (ucast (s ! 0 AND 0x7F) + push_bit 7 (ucast (s ! 1) AND 0x7F) + push_bit 14 (ucast (s ! 2)) :: u64)"
  have n: "unat val = unat (s ! 0) mod 128 + 128 * (unat (s ! 1) mod 128) + 16384 * unat (s ! 2)" unfolding val_def by (rule unat_sum3)
  have big: "0xFFFF < val \<longleftrightarrow> \<not> unat (s ! 2) < 4"
    using mod_less_divisor[of 128 "unat (s ! 0)"] mod_less_divisor[of 128 "unat (s ! 1)"]
    by (simp add: word_less_nat_alt n del: mod_less_divisor) linarith
  have plus: "(0 :: nat) + 1 = 1" "(0 :: nat) + 2 = 2" by simp_all
  have fixed: "fd_cu16_dec_fixed s 0 (Suc (Suc (Suc 0))) = (if 2 < length s then Inr (ucast val) else Inl Undefined)"
    unfolding fd_cu16_dec_fixed_def val_def byte_at_def plus by (auto simp: numeral_2_eq_2)
  have fixed': "fd_cu16_dec_fixed s 0 (Suc 0) = (if s \<noteq> [] then Inr (ucast (s ! 0)) else Inl Undefined)"
    "fd_cu16_dec_fixed s 0 (Suc (Suc 0)) = (if 1 < length s then Inr (ucast (ucast (s ! 0 AND 0x7F) + push_bit 7 (ucast (s ! 1)) :: u64)) else Inl Undefined)"
    by (auto simp: fd_cu16_dec_fixed_def byte_at_def)
  have de: "de_short_u16 s =
     (if length s < 1 then None
      else if unat (s ! 0) < 128 then Some (ucast (s ! 0), drop 1 s)
      else if length s < 2 then None
      else if unat (s ! 1) < 128
      then (if s ! 1 = 0 then None
            else Some (ucast (ucast (s ! 0 AND 0x7F) + push_bit 7 (ucast (s ! 1)) :: u64), drop 2 s))
      else if length s < 3 then None
      else if \<not> unat (s ! 2) < 128 then None
      else if s ! 2 = 0 then None
      else if \<not> unat (s ! 2) < 4 then None else Some (ucast val, drop 3 s))"
    unfolding de_short_u16_def and_7F_ucast[of "s ! 1"] val_def[symmetric] bit7_iff Let_def big by simp
  show ?thesis unfolding de using dec_sz_cases[of 0 s] 
    by (auto simp: fixed fixed' numeral_2_eq_2 numeral_3_eq_3 Suc_le_eq not_less)
qed

lemma de_short_iff: "de_short_u16 s = Some (v, r) \<longleftrightarrow> s = fd_cu16_enc v @ r"
proof
  assume "de_short_u16 s = Some (v, r)"
  then obtain sz where sz: "fd_cu16_dec_sz s 0 (length s - 0) = Inr sz" "sz \<noteq> 0" "fd_cu16_dec_fixed s 0 sz = Inr v" "r = drop sz s"
    unfolding de_short_dec by (auto split: sum.splits if_splits)
  hence "cu16_at s 0 v sz" using dec_cu16_at[of 0 s sz] by auto
  thus "s = fd_cu16_enc v @ r" using sz(4) by (auto simp: cu16_at_def) (metis append_take_drop_id)
next
  assume s: "s = fd_cu16_enc v @ r"
  hence "cu16_at s 0 v (length (fd_cu16_enc v))" by (simp add: cu16_at_def)
  from cu16_at_dec[OF this] show "de_short_u16 s = Some (v, r)" unfolding de_short_dec by (simp add: s length_enc split: if_splits)
qed

section \<open>Long integers\<close>

text \<open>A word whose bits lie below \<open>n\<close>.\<close>

definition below_bit :: "nat \<Rightarrow> u64 \<Rightarrow> bool" where
  "below_bit n w \<longleftrightarrow> (\<forall>k. bit w k \<longrightarrow> k < n)"

lemma small_bits: "(v :: u64) < 0x80 \<longleftrightarrow> below_bit 7 v"
proof -
  have "v < 0x80 \<longleftrightarrow> take_bit 7 v = v"
    using take_bit_nat_eq_self_iff[of 7 "unat v"] by (simp add: word_less_nat_alt unsigned_take_bit_eq [symmetric] word_unat_eq_iff)
  also have "\<dots> \<longleftrightarrow> below_bit 7 v" 
    using bit_imp_le_length[of v] by (fastforce simp: below_bit_def bit_eq_iff bit_simps)
  finally show ?thesis .
qed

lemma byte_small: "below_bit 8 (ucast (b :: u8) :: u64)"
  by (auto simp: below_bit_def bit_simps dest: bit_imp_le_length)

lemma top_bit_byte: "(b :: u8) AND 0x80 = 0 \<longleftrightarrow> \<not> bit b 7"
  using and_exp_eq_0_iff_not_bit[of b 7] by simp

lemma bit_0x80: "bit (0x80 :: u8) n \<longleftrightarrow> n = 7" "bit (0x80 :: u64) n \<longleftrightarrow> n = 7"
  using bit_exp_iff[of 7 n, where 'a=u8] bit_exp_iff[of 7 n, where 'a=u64] by (auto simp: possible_bit_def)

text \<open>The byte the encoder emits with more to follow.\<close>

lemma bits_more:
  "bit ((v AND 0x7F) OR 0x80 :: u64) n \<longleftrightarrow> n = 7 \<or> n < 7 \<and> bit v n"
  unfolding and_7F bit_or_iff bit_0x80 bit_take_bit_iff by auto

lemma more_byte:
  "(ucast ((v AND 0x7F) OR 0x80 :: u64) :: u8) AND 0x80 \<noteq> 0"
  "ucast ((ucast ((v AND 0x7F) OR 0x80 :: u64) :: u8) AND 0x7F) = (take_bit 7 v :: u64)"
proof -
  define w where "w = (v AND 0x7F) OR 0x80"
  have w: "bit w n \<longleftrightarrow> n = 7 \<or> n < 7 \<and> bit v n" for n unfolding w_def by (rule bits_more)
  have "(ucast w :: u8) AND 0x80 \<noteq> 0" unfolding top_bit_byte by (simp add: bit_simps w)
  moreover have "ucast ((ucast w :: u8) AND 0x7F) = (take_bit 7 v :: u64)"
    unfolding and_7F by (rule bit_word_eqI) (auto simp: bit_simps w)
  ultimately show "(ucast ((v AND 0x7F) OR 0x80 :: u64) :: u8) AND 0x80 \<noteq> 0"
    "ucast ((ucast ((v AND 0x7F) OR 0x80 :: u64) :: u8) AND 0x7F) = (take_bit 7 v :: u64)"
    unfolding w_def by simp_all
qed

lemma split_at_7: "push_bit shift (take_bit 7 v) OR push_bit (shift + 7) (drop_bit 7 v) = push_bit shift (v :: u64)"
proof (rule bit_word_eqI)
  fix n assume "n < LENGTH(64)"
  show "bit (push_bit shift (take_bit 7 v) OR push_bit (shift + 7) (drop_bit 7 v)) n = bit (push_bit shift v) n"
  proof (cases "shift + 7 \<le> n")
    case True
    hence "7 + (n - (shift + 7)) = n - shift" by simp
    thus ?thesis using True by (auto simp: bit_simps)
  qed (auto simp: bit_simps)
qed

lemma de_var_int_ser:
  assumes "below_bit shift dst" "\<forall>k. bit v k \<longrightarrow> k + shift < 64" "v \<noteq> 0 \<or> shift = 0 \<and> dst = 0" "shift < 64"
  shows "de_var_int_from dst shift (ser_var_int v @ r) = Some (dst OR push_bit shift v, r)"
  using assms
proof (induction v arbitrary: dst shift rule: ser_var_int.induct)
  case (1 v)
  show ?case
  proof (cases "0x80 \<le> v")
    case True
    hence "\<not> below_bit 7 v" using small_bits[of v] leD by blast
    then obtain k where k: "bit v k" "7 \<le> k" by (auto simp: below_bit_def not_less)
    have "k + shift < 64" using 1(3) k by blast
    let ?d = "dst OR push_bit shift (take_bit 7 v)"
    have "de_var_int_from ?d (shift + 7) (ser_var_int (drop_bit 7 v) @ r) = Some (?d OR push_bit (shift + 7) (drop_bit 7 v), r)"
    proof (rule "1.IH"[OF True])
      show "below_bit (shift + 7) ?d" using 1(2) by (fastforce simp: below_bit_def bit_simps)
      show "\<forall>j. bit (drop_bit 7 v) j \<longrightarrow> j + (shift + 7) < 64" using 1(3) by (auto simp: bit_simps)
      have "bit (drop_bit 7 v) (k - 7)" using k by (simp add: bit_simps)
      thus "drop_bit 7 v \<noteq> 0 \<or> shift + 7 = 0 \<and> ?d = 0" by (metis bit_0_eq bot_apply bot_bool_def)
      show "shift + 7 < 64" using k \<open>k + shift < 64\<close> by simp
    qed
    moreover have "?d OR push_bit (shift + 7) (drop_bit 7 v) = dst OR push_bit shift v"
      by (simp add: or.assoc split_at_7)
    ultimately show ?thesis using True 1(5) more_byte[of v] by (subst ser_var_int.simps) (simp add: Let_def del: of_nat_add)
  next
    case False
    hence low: "below_bit 7 v" using small_bits[of v] by (simp add: not_le)
    have b: "\<not> bit (ucast v :: u8) 7" "ucast ((ucast v :: u8) AND 0x7F) = v" "ucast (ucast v :: u8) = v"
      using low unfolding and_7F by (auto simp: below_bit_def bit_simps bit_eq_iff dest: less_imp_le_nat)
    have "drop_bit shift (dst OR push_bit shift v) = v"
      using 1(2,3) by (fastforce simp: below_bit_def bit_eq_iff bit_simps)
    moreover have "(ucast v :: u8) = 0 \<longleftrightarrow> v = 0" using b(3) by (metis unsigned_0)
    ultimately show ?thesis using False 1(4,5) b by (subst ser_var_int.simps) (auto simp: top_bit_byte Let_def)
  qed
qed

text \<open>A byte with more to follow in front of an encoding is an encoding.\<close>

lemma ser_var_int_Cons:
  assumes "bit (b :: u8) 7" "w \<noteq> 0" "\<forall>k. bit w k \<longrightarrow> k + 7 < 64"
  defines "v \<equiv> take_bit 7 (ucast b) OR push_bit 7 w"
  shows "ser_var_int v = b # ser_var_int w" "take_bit 7 v = ucast (b AND 0x7F)" "drop_bit 7 v = w"
proof -
  show low: "take_bit 7 v = ucast (b AND 0x7F)" unfolding v_def and_7F by (rule bit_word_eqI) (auto simp: bit_simps)
  show high: "drop_bit 7 v = w" unfolding v_def
  proof (rule bit_word_eqI)
    show "bit (drop_bit 7 (take_bit 7 (ucast b) OR push_bit 7 w)) n = bit w n" for n
      using assms(3) by (auto simp: bit_simps)
  qed
  have "0x80 \<le> v"
  proof (rule ccontr)
    assume "\<not> 0x80 \<le> v"
    hence "below_bit 7 v" using small_bits[of v] by (simp add: not_le)
    hence "\<not> bit v (7 + n)" for n by (auto simp: below_bit_def)
    hence "drop_bit 7 v = 0" by (auto intro!: bit_word_eqI simp: bit_simps)
    thus False using high assms(2) by simp
  qed
  moreover have "ucast ((v AND 0x7F) OR 0x80) = b"
  proof (rule bit_word_eqI)
    fix n assume "n < LENGTH(8)"
    thus "bit (ucast ((v AND 0x7F) OR 0x80) :: u8) n = bit b n"
      using assms(1) unfolding bit_ucast_iff bits_more by (auto simp: v_def bit_simps less_Suc_eq)
  qed
  ultimately show "ser_var_int v = b # ser_var_int w" by (subst ser_var_int.simps) (simp add: high)
qed

lemma low_byte:
  assumes "\<not> bit (b :: u8) 7"
  shows "b AND 0x7F = b" "below_bit 7 (ucast b)"
proof -
  have b: "n < 7" if "bit b n" for n using bit_imp_le_length[OF that] that assms by (cases "n = 7") auto
  show "b AND 0x7F = b" unfolding and_7F by (rule bit_word_eqI) (auto simp: bit_simps b)
  show "below_bit 7 (ucast b)" by (auto simp: below_bit_def bit_simps b)
qed

lemma de_var_int_accepts:
  assumes "de_var_int_from dst shift bs = Some (x, r)" "below_bit shift dst"
  shows "\<exists>v. bs = ser_var_int v @ r \<and> x = dst OR push_bit shift v \<and> (\<forall>k. bit v k \<longrightarrow> k + shift < 64)
    \<and> (v \<noteq> 0 \<or> shift = 0 \<and> dst = 0)"
  using assms
proof (induction dst shift bs rule: de_var_int_from.induct)
  case (2 dst shift b bs)
  let ?d = "dst OR push_bit shift (ucast (b AND 0x7F))"
  have s: "shift < 64" using "2.prems" by (simp split: if_splits)
  show ?case
  proof (cases "b AND 0x80 = 0")
    case True
    hence r: "drop_bit shift ?d = ucast b" "b = 0 \<longrightarrow> shift = 0 \<and> ?d = 0" "x = ?d" "r = bs"
      using "2.prems"(1) s by (auto simp: Let_def split: if_splits)
    have b7: "b AND 0x7F = b" and "below_bit 7 (ucast b)" using True low_byte[of b] unfolding top_bit_byte by auto
    hence "\<not> 0x80 \<le> (ucast b :: u64)" using small_bits[of "ucast b"] leD by blast
    moreover have bb: "ucast (ucast b :: u64) = b" by (rule bit_word_eqI) (simp add: bit_simps)
    ultimately have "ser_var_int (ucast b) = [b]" by (subst ser_var_int.simps) simp
    moreover have "k + shift < 64" if "bit (ucast b :: u64) k" for k
      using that unfolding r(1)[symmetric] by (auto simp only: bit_drop_bit_eq o_apply dest!: bit_imp_le_length) simp
    moreover have "(ucast b :: u64) \<noteq> 0 \<or> shift = 0 \<and> dst = 0" 
    proof (cases "b = 0")
      case False
      thus ?thesis using bb by (metis unsigned_0)
    qed (use r(2) in \<open>simp add: or_eq_0_iff\<close>)
    ultimately show ?thesis using r b7 by (intro exI[of _ "ucast b"]) simp
  next
    case False
    hence b: "bit b 7" by (simp add: top_bit_byte)
    have "below_bit (shift + 7) ?d" using "2.prems"(2) unfolding and_7F by (fastforce simp: below_bit_def bit_simps)
    then obtain w where w: "bs = ser_var_int w @ r" "x = ?d OR push_bit (shift + 7) w" "\<forall>k. bit w k \<longrightarrow> k + (shift + 7) < 64" "w \<noteq> 0"
      using "2.IH"[OF s refl False] "2.prems"(1) s False by (auto simp: Let_def)
    have w7: "\<forall>k. bit w k \<longrightarrow> k + 7 < 64" using w(3) by fastforce
    note v = ser_var_int_Cons[OF b w(4) w7]
    let ?v = "take_bit 7 (ucast b) OR push_bit 7 w"
    have "x = dst OR push_bit shift ?v" using w(2) split_at_7[of shift ?v] unfolding v(2,3) by (simp add: or.assoc)
    moreover have "k + shift < 64" if "bit ?v k" for k
    proof (cases "k < 7")
      case True
      obtain j where "bit w j" using w(4) by (metis bit_word_eqI bit_0_eq bot_apply bot_bool_def)
      thus ?thesis using True w(3) by fastforce
    next
      case False
      hence "bit w (k - 7)" using that by (auto simp: bit_simps)
      thus ?thesis using w(3) False by fastforce
    qed
    moreover have "?v \<noteq> 0" using v(3) w(4) by (metis drop_bit_of_0)
    ultimately show ?thesis using w(1) v(1) by (intro exI[of _ ?v]) simp
  qed
qed simp

lemma de_var_int_iff: "de_var_int s = Some (v, r) \<longleftrightarrow> s = ser_var_int v @ r"
proof
  assume "de_var_int s = Some (v, r)"
  thus "s = ser_var_int v @ r" using de_var_int_accepts[of 0 0 s v r] by (auto simp: de_var_int_def below_bit_def)
next
  assume "s = ser_var_int v @ r"
  thus "de_var_int s = Some (v, r)"
    using de_var_int_ser[of 0 0 v r] bit_imp_le_length[of v] by (simp add: de_var_int_def below_bit_def)
qed


lemma length_ser_var_int:
  assumes "\<forall>k. bit v k \<longrightarrow> k < 7 * n" "0 < n"
  shows "length (ser_var_int v) \<le> n"
  using assms
proof (induction v arbitrary: n rule: ser_var_int.induct)
  case (1 v)
  show ?case
  proof (cases "0x80 \<le> v")
    case True
    hence "\<not> below_bit 7 v" using small_bits[of v] leD by blast
    then obtain k where "bit v k" "7 \<le> k" by (auto simp: below_bit_def not_less)
    hence "k < 7 * n" using 1(2) by blast
    hence "1 < n" using \<open>7 \<le> k\<close> by linarith
    moreover have "\<forall>k. bit (drop_bit 7 v) k \<longrightarrow> k < 7 * (n - 1)" using 1(2) by (fastforce simp: bit_simps)
    ultimately have "length (ser_var_int (drop_bit 7 v)) \<le> n - 1" using "1.IH"[OF True, of "n - 1"] by simp
    thus ?thesis using True \<open>1 < n\<close> by (subst ser_var_int.simps) simp
  qed (subst ser_var_int.simps, use 1(3) in simp)
qed

lemma length_ser_var_int_10: "length (ser_var_int v) \<le> 10"
  using length_ser_var_int[of v 10] bit_imp_le_length[of v] by fastforce

section \<open>Codecs\<close>

text \<open>
  The contract of an encoder and a decoder that reads a value from the front of a buffer: decoding
  succeeds exactly on the encodings, and returns the bytes behind.
\<close>

locale codec =
  fixes enc :: "'a \<Rightarrow> u8 list" and dec :: "u8 list \<Rightarrow> ('a \<times> u8 list) option"
  assumes dec_iff: "dec s = Some (v, r) \<longleftrightarrow> s = enc v @ r"
begin

lemma dec_enc: "dec (enc v @ r) = Some (v, r)"
  by (simp add: dec_iff)

lemma prefix_free:
  assumes "enc v @ r = enc w @ q"
  shows "v = w \<and> r = q"
  using dec_enc[of v r] dec_enc[of w q] unfolding assms by simp

end

text \<open>One value after another.\<close>

locale codec_pair = one: codec enc dec + two: codec enc' dec'
  for enc :: "'a \<Rightarrow> u8 list" and dec and enc' :: "'b \<Rightarrow> u8 list" and dec'

sublocale codec_pair \<subseteq> pair: codec "\<lambda>(v, w). enc v @ enc' w"
    "\<lambda>s. do { (v, s) \<leftarrow> dec s; (w, s) \<leftarrow> dec' s; Some ((v, w), s) }"
  by unfold_locales (auto simp: Option.bind_eq_Some_conv one.dec_iff two.dec_iff)

interpretation short: codec ser_short_u16 de_short_u16
  by unfold_locales (simp add: ser_short_enc de_short_iff)

interpretation var: codec ser_var_int de_var_int
  by unfold_locales (rule de_var_int_iff)

lemma field_codec: "8 * n = LENGTH('a) \<Longrightarrow> codec (le_bytes n) (de_field n :: u8 list \<Rightarrow> ('a::len word \<times> u8 list) option)"
proof (unfold_locales, rule iffI)
  fix s r and v :: "'a word"
  assume n: "8 * n = LENGTH('a)"
  show "s = le_bytes n v @ r" if "de_field n s = Some (v, r)"
    using that n le_bytes_le_load[of "take n s", where 'a='a] by (auto simp: de_field_def not_less split: if_splits)
  show "de_field n s = Some (v, r)" if "s = le_bytes n v @ r"
    using that n by (simp add: de_field_def le_load_le_bytes take_bit_word_eq_self)
qed

interpretation byte: codec "le_bytes 1 :: u8 \<Rightarrow> u8 list" "de_field 1"
  by (rule field_codec) simp

interpretation ulong: codec "le_bytes 8 :: u64 \<Rightarrow> u8 list" "de_field 8"
  by (rule field_codec) simp

interpretation hash: codec "le_bytes 32 :: fd_hash \<Rightarrow> u8 list" "de_field 32"
  by (rule field_codec) simp

lemma le_bytes_byte [simp]: "le_bytes (Suc 0) (b :: u8) = [b]"
  by (simp add: le_bytes_def)

interpretation lockout: codec_pair ser_var_int de_var_int "le_bytes 1 :: u8 \<Rightarrow> u8 list" "de_field 1"
  by unfold_locales

end
