(* ===== verification/Serdes_Sync.thy ===== *)
theory Serdes_Sync
  imports Serdes_Codec
begin

text \<open>
  The compact tower sync: what the decoder accepts is what the encoder writes, and the room the encoder
  needs.
\<close>

section \<open>The encoding as a list\<close>

definition lockouts_bytes :: "fd_compact_lockout list \<Rightarrow> u8 list" where
  "lockouts_bytes ls = concat (map (\<lambda>l. ser_var_int (cl_offset l) @ [cl_confirmation_count l]) ls)"

definition tower_sync_bytes :: "fd_compact_tower_sync_serde \<Rightarrow> u8 list" where
  "tower_sync_bytes serde =
     le_bytes 8 (cts_root serde) @ ser_short_u16 (cts_lockouts_cnt serde) @ lockouts_bytes (cts_lockouts serde)
     @ le_bytes 32 (cts_hash serde) @ [cts_timestamp_option serde]
     @ (if cts_timestamp_option serde \<noteq> 0 then le_bytes 8 (cts_timestamp serde) else [])
     @ le_bytes 32 (cts_block_id serde)"

text \<open>A tower sync with one entry for each of its at most 31 votes and a flag for the timestamp.\<close>

definition sync_ok :: "fd_compact_tower_sync_serde \<Rightarrow> bool" where
  "sync_ok serde \<longleftrightarrow>
     length (cts_lockouts serde) = unat (cts_lockouts_cnt serde) \<and> length (cts_lockouts serde) \<le> FD_TOWER_VOTE_MAX
     \<and> (cts_timestamp_option serde = 0 \<or> cts_timestamp_option serde = 1)"

lemma lockouts_bytes_simps [simp]:
  "lockouts_bytes [] = []"
  "lockouts_bytes (l # ls) = ser_var_int (cl_offset l) @ cl_confirmation_count l # lockouts_bytes ls"
  by (simp_all add: lockouts_bytes_def)

lemma length_lockouts_bytes: "length (lockouts_bytes ls) \<le> 11 * length ls"
proof (induction ls)
  case (Cons l ls)
  thus ?case using length_ser_var_int_10[of "cl_offset l"] by simp
qed simp

section \<open>Decoding\<close>

lemma byte_dec:
  "de_field (Suc 0) s = Some (b :: u8, r) \<longleftrightarrow> s = b # r" "de_field (Suc 0) (b # r) = Some (b :: u8, r)"
  using byte.dec_iff[of s b r] byte.dec_enc[of b r] unfolding One_nat_def le_bytes_byte by simp_all

lemmas codec_iffs = short.dec_iff var.dec_iff byte_dec(1) ulong.dec_iff hash.dec_iff

lemma de_lockouts_iff: "de_lockouts n s = Some (ls, r) \<longleftrightarrow> length ls = n \<and> s = lockouts_bytes ls @ r"
proof (induction n arbitrary: s ls)
  case (Suc n)
  show ?case
  proof
    assume "de_lockouts (Suc n) s = Some (ls, r)"
    thus "length ls = Suc n \<and> s = lockouts_bytes ls @ r"
      by (auto simp: Option.bind_eq_Some_conv codec_iffs Suc.IH)
  next
    assume a: "length ls = Suc n \<and> s = lockouts_bytes ls @ r"
    then obtain l ls' where ls: "ls = l # ls'" "length ls' = n" by (cases ls) auto
    have "de_lockouts n (lockouts_bytes ls' @ r) = Some (ls', r)" using Suc.IH ls by simp
    thus "de_lockouts (Suc n) s = Some (ls, r)" using a ls by (simp add: var.dec_enc byte_dec(2))
  qed
qed auto

lemma sync_de_bytes:
  assumes a: "sync_ok serde" "cts_timestamp_option serde = 0 \<longrightarrow> cts_timestamp serde = cts_timestamp old"
  shows "fd_compact_tower_sync_de old (tower_sync_bytes serde @ rest) = Some serde"
proof -
  have flag: "cts_timestamp_option serde = 0 \<or> cts_timestamp_option serde = 1"
    and small: "\<not> FD_TOWER_VOTE_MAX < unat (cts_lockouts_cnt serde)"
    and kept: "cts_timestamp_option serde = 0 \<Longrightarrow> cts_timestamp old = cts_timestamp serde" using a by (auto simp: sync_ok_def)
  have lock: "de_lockouts (unat (cts_lockouts_cnt serde)) (lockouts_bytes (cts_lockouts serde) @ r) = Some (cts_lockouts serde, r)" for r
    using a by (simp add: de_lockouts_iff sync_ok_def)
  show "fd_compact_tower_sync_de old (tower_sync_bytes serde @ rest) = Some serde"
    using flag unfolding fd_compact_tower_sync_de_def tower_sync_bytes_def append_assoc ulong.dec_enc short.dec_enc
    by (elim disjE) (simp_all add: lock small kept byte_dec(2) hash.dec_enc ulong.dec_enc short.dec_enc)
qed

text \<open>The steps of a successful decoding.\<close>

lemma de_stepE:
  assumes "Option.bind m (\<lambda>(x, s). f x s) = Some z"
  obtains x s where "m = Some (x, s)" "f x s = Some z"
  using assms by (auto simp: Option.bind_eq_Some_conv)

lemma de_testE:
  assumes "(if c then None else m) = Some z"
  obtains "\<not> c" "m = Some z"
  using assms by (auto split: if_splits)

lemma sync_de_accepts:
  assumes "fd_compact_tower_sync_de old buf = Some serde"
  shows "sync_ok serde \<and> (cts_timestamp_option serde = 0 \<longrightarrow> cts_timestamp serde = cts_timestamp old)
    \<and> (\<exists>rest. buf = tower_sync_bytes serde @ rest)"
proof -
  note de = assms[unfolded fd_compact_tower_sync_de_def]
  from de obtain root b1 where 1: "de_field 8 buf = Some (root, b1)" and de: "do {
      (cnt, b2) \<leftarrow> de_short_u16 b1;
      if FD_TOWER_VOTE_MAX < unat cnt then None
      else do {
        (ls, b3) \<leftarrow> de_lockouts (unat cnt) b2;
        (hash, b4) \<leftarrow> de_field 32 b3;
        (flag, b5) \<leftarrow> de_field 1 b4;
        if flag \<noteq> 1 \<and> flag \<noteq> 0 then None
        else do {
          (ts, b6) \<leftarrow> if flag \<noteq> 0 then de_field 8 b5 else Some (cts_timestamp old, b5);
          (block_id, b7) \<leftarrow> de_field 32 b6;
          Some \<lparr> cts_root = root, cts_lockouts_cnt = cnt, cts_lockouts = ls, cts_hash = hash,
                 cts_timestamp_option = flag, cts_timestamp = ts, cts_block_id = block_id \<rparr>
        }
      }
    } = Some serde" by (rule de_stepE)
  from de obtain cnt b2 ls b3 hash b4 flag b5 ts b6 block_id b7 where
    2: "de_short_u16 b1 = Some (cnt, b2)" "\<not> FD_TOWER_VOTE_MAX < unat cnt" "de_lockouts (unat cnt) b2 = Some (ls, b3)"
    and 3: "de_field 32 b3 = Some (hash, b4)" "de_field 1 b4 = Some (flag, b5)" "\<not> (flag \<noteq> 1 \<and> flag \<noteq> 0)"
    and 4: "(if flag \<noteq> 0 then de_field 8 b5 else Some (cts_timestamp old, b5)) = Some (ts, b6)" "de_field 32 b6 = Some (block_id, b7)"
    and serde: "serde = \<lparr> cts_root = root, cts_lockouts_cnt = cnt, cts_lockouts = ls, cts_hash = hash,
                 cts_timestamp_option = flag, cts_timestamp = ts, cts_block_id = block_id \<rparr>"
    by (elim de_stepE de_testE) auto
  have buf: "buf = le_bytes 8 root @ ser_short_u16 cnt @ lockouts_bytes ls @ le_bytes 32 hash @ flag # b5" "length ls = unat cnt"
    using 1 2(1,3) 3(1,2) by (simp_all add: codec_iffs de_lockouts_iff)
  have b5: "b5 = (if flag \<noteq> 0 then le_bytes 8 ts else []) @ le_bytes 32 block_id @ b7" "flag = 0 \<longrightarrow> ts = cts_timestamp old"
    using 4 by (auto simp: codec_iffs split: if_splits)
  show ?thesis using 2(2) 3(3) buf(2) b5(2) unfolding serde sync_ok_def tower_sync_bytes_def buf(1) b5(1) by auto
qed

section \<open>Encoding\<close>

text \<open>A successful step appends its bytes, and each step succeeds where there is room.\<close>

lemma ser_step_Inr [simp]:
  "ser_field m bs out k = Inr x \<longleftrightarrow> length out + length bs \<le> m \<and> k (out @ bs) = Inr x"
  "ser_raw m bs out k = Inr x \<longleftrightarrow> length out + length bs \<le> m \<and> k (out @ bs) = Inr x"
  by (auto simp: ser_field_def ser_raw_def)

lemma ser_lockouts_Inr:
  "length out \<le> m \<Longrightarrow>
   ser_lockouts m ls out k = Inr x \<longleftrightarrow> length out + length (lockouts_bytes ls) \<le> m \<and> k (out @ lockouts_bytes ls) = Inr x"
  by (induction ls arbitrary: out) auto

lemma sync_ser_Inr:
  assumes "sync_ok serde"
  shows "fd_compact_tower_sync_ser serde m = Inr out \<longleftrightarrow> out = tower_sync_bytes serde \<and> length out \<le> m"
  using assms
  by (auto simp: fd_compact_tower_sync_ser_def ser_lockouts_Inr tower_sync_bytes_def sync_ok_def)

lemma length_tower_sync_bytes: "sync_ok serde \<Longrightarrow> length (tower_sync_bytes serde) \<le> 423"
  using length_lockouts_bytes[of "cts_lockouts serde"] length_enc[of "cts_lockouts_cnt serde"]
  by (auto simp: tower_sync_bytes_def sync_ok_def FD_TOWER_VOTE_MAX_def ser_short_enc word_less_nat_alt split: if_splits)

end
