(* ===== verification/Vote_Txn.thy ===== *)
theory Vote_Txn
  imports Txn_Gen_Ok Serdes_Sync
begin

text \<open>The vote transaction of a tower: what is built, and what the other side reads from it.\<close>

section \<open>The bytes of the vote\<close>

lemma length_tower_offsets [simp]: "length (tower_offsets prev votes) = length votes"
  by (induction prev votes rule: tower_offsets.induct) simp_all

lemma sync_ok_tower: "length (t_votes tower) \<le> FD_TOWER_VOTE_MAX \<Longrightarrow> sync_ok (tower_sync_of tower bank_hash block_id timestamp)"
  by (simp add: sync_ok_def tower_sync_of_def Let_def FD_TOWER_VOTE_MAX_def unat_of_nat16)

text \<open>The offsets add up to the slots of votes that rise.\<close>

lemma sum_tower_offsets:
  "sorted (prev # map vote_slot votes) \<Longrightarrow> sum_offsets (tower_offsets prev votes) prev = Some (last (prev # map vote_slot votes))"
proof (induction prev votes rule: tower_offsets.induct)
  case (2 prev vote votes)
  hence le: "prev \<le> vote_slot vote" by simp
  hence "unat prev + unat (vote_slot vote - prev) = unat (vote_slot vote)" by (simp add: unat_sub word_le_nat_alt)
  hence "\<not> 2 ^ 64 \<le> unat prev + unat (vote_slot vote - prev)" using unat_lt64[of "vote_slot vote"] by linarith
  thus ?case using 2 by simp
qed simp

definition vote_data :: "fd_tower \<Rightarrow> fd_hash \<Rightarrow> fd_hash \<Rightarrow> u64 \<Rightarrow> u8 list" where
  "vote_data tower bank_hash block_id timestamp =
     le_bytes 4 FD_VOTE_IX_KIND_TOWER_SYNC @ tower_sync_bytes (tower_sync_of tower bank_hash block_id timestamp)"

lemma length_vote_data:
  "length (t_votes tower) \<le> FD_TOWER_VOTE_MAX \<Longrightarrow> length (vote_data tower bank_hash block_id timestamp) \<le> 427"
  using length_tower_sync_bytes[OF sync_ok_tower] by (simp add: vote_data_def)

section \<open>The transaction\<close>

text \<open>The counts and the account indices of the two shapes.\<close>

definition vote_sigs :: "u8 list \<Rightarrow> u8 list \<Rightarrow> u8" where
  "vote_sigs ident auth = (if ident = auth then 1 else 2)"

definition vote_accts :: "u8 list \<Rightarrow> u8 list \<Rightarrow> u8 list \<Rightarrow> u8 list" where
  "vote_accts ident auth acc = ident @ (if ident = auth then [] else auth) @ acc @ vote_program_id"

definition vote_bytes :: "u8 list \<Rightarrow> u8 list \<Rightarrow> u8 list \<Rightarrow> u8 list \<Rightarrow> u8 list \<Rightarrow> u8 list \<Rightarrow> u8 list" where
  "vote_bytes ident auth acc sigs bh data =
     txn_bytes (vote_sigs ident auth) (vote_sigs ident auth - 1) 1 (ucast (vote_sigs ident auth) + 2) sigs (vote_accts ident auth acc) bh
       (vote_sigs ident auth + 1) [vote_sigs ident auth, vote_sigs ident auth - 1] data"

lemma vote_parts_ok:
  assumes "length ident = 32" "length auth = 32" "length acc = 32" "length bh = 32" "length data \<le> 427"
    "length sigs = 64 * unat (vote_sigs ident auth)"
  shows "parts_ok (vote_sigs ident auth) (vote_sigs ident auth - 1) 1 (ucast (vote_sigs ident auth) + 2) sigs (vote_accts ident auth acc) bh
       (vote_sigs ident auth + 1) [vote_sigs ident auth, vote_sigs ident auth - 1] data"
  using assms by (simp add: parts_ok_def vote_sigs_def vote_accts_def txn_bytes_def txn_head_def length_enc vote_program_id_def)

lemma vote_txn_built:
  assumes len: "length ident = 32" "length auth = 32" "length acc = 32" "length bh = 32" and out: "length txn_out = FD_TXN_MTU"
    and votes: "length (t_votes tower) \<le> FD_TOWER_VOTE_MAX"
  shows "ends_in (fd_tower_to_vote_txn tower bank_hash block_id bh ident auth acc timestamp meta txn_out) (\<lambda>(meta', payload, sz).
    length payload = FD_TXN_MTU \<and> take sz payload = vote_bytes ident auth acc (take (64 * unat (vote_sigs ident auth)) (drop 1 txn_out)) bh
      (vote_data tower bank_hash block_id timestamp) \<and> sz \<le> FD_TXN_MTU)"
proof -
  let ?acc = "vote_accounts ident auth acc" and ?data = "vote_data tower bank_hash block_id timestamp"
  let ?sigs = "take (64 * unat (vote_sigs ident auth)) (drop 1 txn_out)"
  have ok: "accounts_ok ?acc" using len by (simp add: accounts_ok_def vote_accounts_def vote_program_id_def)
  have fields: "ta_signature_cnt ?acc = vote_sigs ident auth" "ta_readonly_signed_cnt ?acc = vote_sigs ident auth - 1"
    "ta_readonly_unsigned_cnt ?acc = 1" "ta_acct_cnt ?acc = ucast (vote_sigs ident auth) + 2" "accounts_bytes ?acc = vote_accts ident auth acc"
    using len by (simp_all add: vote_accounts_def vote_sigs_def accounts_bytes_def vote_accts_def vote_program_id_def)
  have sz: "unat (vote_sigs ident auth) \<le> 2" "unat (ucast (vote_sigs ident auth) + 2 :: u16) \<le> 4" by (simp_all add: vote_sigs_def)
  have ser: "fd_compact_tower_sync_ser (tower_sync_of tower bank_hash block_id timestamp) (FD_TXN_MTU - 4)
      = Inr (tower_sync_bytes (tower_sync_of tower bank_hash block_id timestamp))"
    using sync_ok_tower[OF votes, of bank_hash block_id timestamp] length_tower_sync_bytes[OF sync_ok_tower[OF votes, of bank_hash block_id timestamp]]
    by (simp add: sync_ser_Inr FD_TXN_MTU_def)
  have base: "ends_in (fd_txn_base_generate meta txn_out (ucast (ta_signature_cnt ?acc)) ?acc (Some bh)) (\<lambda>(meta', payload', n).
     meta' = base_meta meta (ucast (ta_signature_cnt ?acc)) ?acc \<and> length payload' = length txn_out \<and> n = 1 + 64 * unat (vote_sigs ident auth) + 4 + 32 * unat (ta_acct_cnt ?acc) + 32
     \<and> take n payload' = txn_head (vote_sigs ident auth) (vote_sigs ident auth - 1) 1 (ucast (vote_sigs ident auth) + 2) ?sigs (vote_accts ident auth acc) bh)"
    using base_generate_ok[OF ok len(4), of txn_out meta] sz out by (simp add: fields FD_TXN_MTU_def)
  let ?meta = "base_meta meta (ucast (ta_signature_cnt ?acc)) ?acc"
  let ?head = "txn_head (vote_sigs ident auth) (vote_sigs ident auth - 1) 1 (ucast (vote_sigs ident auth) + 2) ?sigs (vote_accts ident auth acc) bh"
  let ?n = "1 + 64 * unat (vote_sigs ident auth) + 4 + 32 * unat (ta_acct_cnt ?acc) + 32"
  obtain payload where base': "fd_txn_base_generate meta txn_out (ucast (ta_signature_cnt ?acc)) ?acc (Some bh) = Inr (?meta, payload, ?n)"
      "length payload = length txn_out" "take ?n payload = ?head"
    using base by (auto simp: ends_in_def)
  have offs: "unat (txn_recent_blockhash_off ?meta) = 1 + 64 * unat (vote_sigs ident auth) + 4 + 32 * unat (ta_acct_cnt ?acc)" "txn_instr_cnt ?meta = 0"
    using base_meta_offs(2,4)[OF ok, of meta] by (simp_all only: fields)
  have "?n \<le> length txn_out" using sz out by (simp add: FD_TXN_MTU_def fields)
  hence "length (take ?n payload) = ?n" using base'(2) by simp
  hence hlen: "length ?head = ?n" unfolding base'(3) .
  have buf: "wrote FD_TXN_MTU ?head payload" unfolding wrote_def hlen using base' out by simp
  have room: "length (vote_bytes ident auth acc ?sigs bh ?data) \<le> FD_TXN_MTU"
    using vote_parts_ok[OF len length_vote_data[OF votes], of ?sigs] out sz by (simp add: parts_ok_def vote_bytes_def FD_TXN_MTU_def)
  have "ends_in (fd_txn_add_instr ?meta payload (vote_sigs ident auth + 1) [vote_sigs ident auth, vote_sigs ident auth - 1] (word_of_nat 2)
      ?data (word_of_nat (length ?data))) (\<lambda>(meta', payload', sz). wrote FD_TXN_MTU (vote_bytes ident auth acc ?sigs bh ?data) payload'
        \<and> sz = length (vote_bytes ident auth acc ?sigs bh ?data))"
    using add_instr_ok[OF offs(2) _ _ buf, of "[vote_sigs ident auth, vote_sigs ident auth - 1]" ?data "vote_sigs ident auth + 1"]
      room length_vote_data[OF votes, of bank_hash block_id timestamp] hlen offs(1)
    by (simp add: vote_bytes_def txn_bytes_def unat_eq_0[symmetric] numeral_2_eq_2)
  moreover have "fd_tower_to_vote_txn tower bank_hash block_id bh ident auth acc timestamp meta txn_out
      = fd_txn_add_instr ?meta payload (vote_sigs ident auth + 1) [vote_sigs ident auth, vote_sigs ident auth - 1] (word_of_nat 2)
      ?data (word_of_nat (length ?data))"
    unfolding fd_tower_to_vote_txn_def Let_def base'(1) ser
    using votes by (simp add: test_def andthen_def vote_data_def vote_sigs_def)
  ultimately show ?thesis using room by (auto simp: ends_in_def wrote_def)
qed

section \<open>Reading the vote\<close>

lemma parse_vote:
  fixes ident auth acc sigs bh data
  assumes len: "length ident = 32" "length auth = 32" "length acc = 32" "length bh = 32" "length data \<le> 427"
    "length sigs = 64 * unat (vote_sigs ident auth)"
  defines "p \<equiv> vote_bytes ident auth acc sigs bh data"
  shows "\<exists>txn fp ins. fd_txn_parse p = Inr (txn, length p, fp) \<and> txn_instr_cnt txn = 1 \<and> txn_transaction_version txn = FD_TXN_VLEGACY
    \<and> txn_signature_cnt txn = vote_sigs ident auth \<and> txn_acct_addr_cnt txn = ucast (vote_sigs ident auth) + 2 \<and> txn_instr txn = [ins]
    \<and> unat (ti_program_id ins) = unat (vote_sigs ident auth) + 1 \<and> unat (ti_data_sz ins) = length data
    \<and> take (length data) (drop (unat (ti_data_off ins)) p) = data \<and> unat (ti_data_off ins) + length data = length p
    \<and> unat (txn_message_off txn) = 1 + 64 * unat (vote_sigs ident auth)
    \<and> (\<forall>i < unat (vote_sigs ident auth) + 2. unat (txn_acct_addr_off txn) + 32 * i + 32 \<le> length p
        \<and> take 32 (drop (unat (txn_acct_addr_off txn) + 32 * i) p) = take 32 (drop (32 * i) (vote_accts ident auth acc)))"
proof -
  let ?s = "vote_sigs ident auth" and ?m = "1 + 64 * unat (vote_sigs ident auth)"
  let ?a = "unat (ucast ?s + 2 :: u16)" and ?e = "length (fd_cu16_enc (word_of_nat (length data)))"
  have s: "?a = unat ?s + 2" "unat ?s \<le> 2" "unat (?s + 1) = unat ?s + 1" "fd_cu16_enc (ucast ?s + 2) = [ucast (ucast ?s + 2 :: u16)]"
    by (simp_all add: vote_sigs_def enc_small)
  have e: "fd_cu16_enc 1 = [1]" "fd_cu16_enc 2 = [2]" "word_of_nat (length [?s, ?s - 1]) = (2 :: u16)"
    by (simp add: enc_small, use enc_small[of 2] in simp_all)
  have alen: "length (vote_accts ident auth acc) = 32 * ?a" using len by (simp add: vote_accts_def vote_sigs_def vote_program_id_def)
  define P where "P = ?s # sigs @ [?s, ?s - 1, 1, ucast (ucast ?s + 2 :: u16)]"
  define Q where "Q = bh @ [1, ?s + 1, 2, ?s, ?s - 1] @ fd_cu16_enc (word_of_nat (length data)) @ data"
  have p: "p = P @ vote_accts ident auth acc @ Q" by (simp add: p_def vote_bytes_def txn_bytes_def txn_head_def P_def Q_def s(4) e)
  have P: "length P = ?m + 4" using len(6) by (simp add: P_def)
  have Q: "length Q = 37 + ?e + length data" using len(4) by (simp add: Q_def)
  have e3: "?e \<le> 3" by (simp add: length_enc)
  have off: "unat (word_of_nat (?m + 4) :: u16) = ?m + 4" "unat (word_of_nat ?m :: u16) = ?m" using s(2) by (intro unat_of_nat16; simp)+
  define d where "d = ?m + 4 + 32 * ?a + 32 + 1 + 2 + length [?s, ?s - 1] + ?e"
  have d: "unat (word_of_nat d :: u16) = d" "d + length data = length p"
  proof -
    show "d + length data = length p" by (simp add: d_def p P Q alen)
    have "d < 65536" using s(1,2) e3 by (simp add: d_def)
    thus "unat (word_of_nat d :: u16) = d" by (rule unat_of_nat16)
  qed
  have "drop d p = data"
  proof -
    have "p = (P @ vote_accts ident auth acc @ bh @ [1, ?s + 1, 2, ?s, ?s - 1] @ fd_cu16_enc (word_of_nat (length data))) @ data" by (simp add: p Q_def)
    moreover have "length (P @ vote_accts ident auth acc @ bh @ [1, ?s + 1, 2, ?s, ?s - 1] @ fd_cu16_enc (word_of_nat (length data))) = d"
      using len(4) by (simp add: P alen d_def)
    ultimately show ?thesis by (metis append_eq_conv_conj)
  qed
  note data = this
  have accts: "?m + 4 + 32 * i + 32 \<le> length p \<and> take 32 (drop (?m + 4 + 32 * i) p) = take 32 (drop (32 * i) (vote_accts ident auth acc))"
    if "i < unat ?s + 2" for i
  proof
    show "?m + 4 + 32 * i + 32 \<le> length p" using that s(1) by (simp add: p P Q alen)
    have "drop (length P + 32 * i) p = drop (32 * i) (vote_accts ident auth acc @ Q)" by (simp add: p)
    hence "drop (?m + 4 + 32 * i) p = drop (32 * i) (vote_accts ident auth acc @ Q)" unfolding P .
    moreover have "drop (32 * i) (vote_accts ident auth acc @ Q) = drop (32 * i) (vote_accts ident auth acc) @ Q" using that s(1) by (simp add: alen)
    ultimately show "take 32 (drop (?m + 4 + 32 * i) p) = take 32 (drop (32 * i) (vote_accts ident auth acc))" using that s(1) by (simp add: alen)
  qed
  have n: "unat (word_of_nat (length data) :: u16) = length data" using len(5) by (simp add: unat_of_nat16)
  note built = parse_built[OF vote_parts_ok[OF len], folded vote_bytes_def p_def]
  define mo ao where "mo = ?m" and "ao = ?m + 4"
  have fold: "unat (word_of_nat ao :: u16) = ao" "unat (word_of_nat mo :: u16) = mo"
    "\<And>i. i < unat ?s + 2 \<Longrightarrow> ao + 32 * i + 32 \<le> length p \<and> take 32 (drop (ao + 32 * i) p) = take 32 (drop (32 * i) (vote_accts ident auth acc))"
    using off accts unfolding mo_def ao_def by simp_all
  show ?thesis unfolding built unfolding d_def[symmetric] unfolding ao_def[symmetric] unfolding mo_def[symmetric]
    using fold data d s n by simp
qed


lemma vote_acct:
  assumes "length ident = 32" "length auth = 32" "length acc = 32"
  shows "take 32 (drop 0 (vote_accts ident auth acc)) = ident"
    "take 32 (drop (32 * unat (vote_sigs ident auth)) (vote_accts ident auth acc)) = acc"
    "take 32 (drop (32 * (unat (vote_sigs ident auth) + 1)) (vote_accts ident auth acc)) = vote_program_id"
  using assms by (simp_all add: vote_accts_def vote_sigs_def vote_program_id_def)

lemma vote_kind: "le_load (take 4 (vote_data tower bank_hash block_id timestamp)) = FD_VOTE_IX_KIND_TOWER_SYNC"
  by (simp add: vote_data_def le_load_le_bytes take_bit_word_eq_self)

text \<open>The reader gets back the identity, the vote account and the slot of the last vote.\<close>

lemma read_vote:
  fixes ident auth acc sigs bh tower bank_hash block_id timestamp
  assumes len: "length ident = 32" "length auth = 32" "length acc = 32" "length bh = 32"
    "length sigs = 64 * unat (vote_sigs ident auth)" and votes: "length (t_votes tower) \<le> FD_TOWER_VOTE_MAX"
  defines "root0 \<equiv> if t_root tower = ULONG_MAX then 0 else t_root tower"
  assumes rising: "sorted (root0 # map vote_slot (t_votes tower))"
  defines "p \<equiv> vote_bytes ident auth acc sigs bh (vote_data tower bank_hash block_id timestamp)"
  shows "\<exists>txn fp. fd_txn_parse p = Inr (txn, length p, fp) \<and> unat (txn_message_off txn) = 1 + 64 * unat (vote_sigs ident auth)
    \<and> fd_txn_parse_simple_vote txn p = Inr (Some (ident, acc, last (root0 # map vote_slot (t_votes tower))))"
proof -
  let ?data = "vote_data tower bank_hash block_id timestamp" and ?s = "vote_sigs ident auth"
  let ?serde = "tower_sync_of tower bank_hash block_id timestamp"
  obtain txn fp ins where t: "fd_txn_parse p = Inr (txn, length p, fp)" "txn_instr_cnt txn = 1" "txn_transaction_version txn = FD_TXN_VLEGACY"
      "txn_signature_cnt txn = ?s" "txn_acct_addr_cnt txn = ucast ?s + 2" "txn_instr txn = [ins]"
      "unat (ti_program_id ins) = unat ?s + 1" "unat (ti_data_sz ins) = length ?data" "take (length ?data) (drop (unat (ti_data_off ins)) p) = ?data"
      "unat (ti_data_off ins) + length ?data = length p" "unat (txn_message_off txn) = 1 + 64 * unat ?s"
      and accts: "\<And>i. i < unat ?s + 2 \<Longrightarrow> unat (txn_acct_addr_off txn) + 32 * i + 32 \<le> length p
        \<and> take 32 (drop (unat (txn_acct_addr_off txn) + 32 * i) p) = take 32 (drop (32 * i) (vote_accts ident auth acc))"
    using parse_vote[OF len(1-4) length_vote_data[OF votes] len(5), of bank_hash block_id timestamp] unfolding p_def by blast
  have at: "acct_at txn p i k = k (take 32 (drop (32 * i) (vote_accts ident auth acc)))" if "i < unat ?s + 2" for i and k :: "u8 list \<Rightarrow> 'x parse"
    using accts[OF that] by (simp add: acct_at_def bytes_in_def FD_TXN_ACCT_ADDR_SZ_def)
  have sg: "\<not> 2 < unat ?s" "(if ?s = 1 then 1 else 2) = unat ?s" "\<not> unat (ucast ?s + 2 :: u16) < (if ?s = 1 then 2 else 3)" "unat ?s < unat ?s + 2"
    by (simp_all add: vote_sigs_def)
  have simple: "fd_txn_is_simple_vote_transaction txn p = Inr True"
    using t(2-7) vote_acct(3)[OF len(1-3)] sg(1) by (simp add: fd_txn_is_simple_vote_transaction_def at)
  have de: "fd_compact_tower_sync_de serde_null (drop 4 ?data) = Some ?serde"
    using sync_de_bytes[OF sync_ok_tower[OF votes], of bank_hash block_id timestamp serde_null "[]"] by (simp add: vote_data_def tower_sync_of_def Let_def)
  have sum: "sum_offsets (cts_lockouts ?serde) (if cts_root ?serde = ULONG_MAX then 0 else cts_root ?serde) = Some (last (root0 # map vote_slot (t_votes tower)))"
  proof -
    have "cts_root ?serde = root0" "cts_lockouts ?serde = tower_offsets root0 (t_votes tower)" "root0 \<noteq> ULONG_MAX"
      by (simp_all add: tower_sync_of_def Let_def root0_def)
    thus ?thesis using sum_tower_offsets[OF rising] by (simp only: if_False)
  qed
  have four: "\<not> length ?data < 4" by (simp add: vote_data_def)
  have "fd_txn_parse_simple_vote txn p = Inr (Some (ident, acc, last (root0 # map vote_slot (t_votes tower))))"
    unfolding fd_txn_parse_simple_vote_def Let_def t(4,5,6) sg(2)
    using sg(3) t(8-10) four vote_acct[OF len(1-3)]
    by (simp add: andthen_def simple bytes_in_def vote_kind de sum at del: last.simps)
  thus ?thesis using t(1,11) by blast
qed

end
