(* ===== verification/Keyguard_Txn.thy ===== *)
theory Keyguard_Txn
  imports Keyguard_Ok Vote_Txn
begin

text \<open>The keyguard against the transaction parser and the vote transaction.\<close>

section \<open>Every request is answered\<close>

lemma match_flags:
  assumes "fd_keyguard_payload_match data sign_type = Inr pm"
  shows "pm AND FD_KEYGUARD_PAYLOAD_TXN \<noteq> 0 \<longleftrightarrow> is_true (fd_keyguard_payload_matches_txn_msg data sign_type)"
    "pm AND FD_KEYGUARD_PAYLOAD_GOSSIP \<noteq> 0 \<longleftrightarrow> is_true (fd_keyguard_payload_matches_gossip data sign_type)"
    "pm AND FD_KEYGUARD_PAYLOAD_REPAIR \<noteq> 0 \<longleftrightarrow> is_true (fd_keyguard_payload_matches_repair data sign_type)"
    "pm AND FD_KEYGUARD_PAYLOAD_PRUNE \<noteq> 0 \<longleftrightarrow> is_true (fd_keyguard_payload_matches_prune_data data sign_type)"
    "pm AND FD_KEYGUARD_PAYLOAD_TLS_CV \<noteq> 0 \<longleftrightarrow> is_true (fd_keyguard_payload_matches_tls_cv data sign_type)"
    "pm AND FD_KEYGUARD_PAYLOAD_PING \<noteq> 0 \<longleftrightarrow> is_true (fd_keyguard_payload_matches_ping_msg data sign_type)"
    "pm AND FD_KEYGUARD_PAYLOAD_PONG \<noteq> 0 \<longleftrightarrow> is_true (fd_keyguard_payload_matches_pong_msg data sign_type)"
  using match_mask[of data sign_type] assms unfolding payload_flags and_flag by auto

lemma authorize_defined: "defined (fd_keyguard_payload_authorize authority data role sign_type)"
proof -
  have vote: "defined (alternative pm FD_KEYGUARD_PAYLOAD_TXN (fd_keyguard_authorize_vote_txn authority data sign_type))"
    if "fd_keyguard_payload_match data sign_type = Inr pm" for pm
    unfolding alternative_def
    by (rule defined_require, rule defined_authorize_vote, rule txn_nonempty) (use match_flags(1)[OF that] in \<open>simp add: is_true_def\<close>)
  have gossip: "defined (fd_keyguard_authorize_gossip authority data sign_type)" if "\<not> FD_KEYGUARD_SIGN_REQ_MTU < length data"
    using that by (intro defined_authorize_gossip) (simp add: FD_KEYGUARD_SIGN_REQ_MTU_def)
  have alt: "defined (alternative pm flag k)" if "defined k" for pm flag k
    using that by (auto simp: alternative_def intro!: in_bounds)
  show ?thesis
    unfolding fd_keyguard_payload_authorize_def
    by (intro in_bounds defined_match defined_any_of) (auto intro!: alt vote gossip defined_authorize in_bounds)
qed

section \<open>One type of payload\<close>

text \<open>The type of a request, from its sign type, its length and two of its bytes: the bits of the mask agree with it.\<close>

definition type_of_request :: "u8 list \<Rightarrow> int \<Rightarrow> nat" where
  "type_of_request data sign_type =
     (if sign_type = FD_KEYGUARD_SIGN_TYPE_SHA256_ED25519 then 10
      else if sign_type = FD_KEYGUARD_SIGN_TYPE_PUBKEY_CONCAT_ED25519 then 8
      else if length data = 32 then 3
      else if data ! 0 = 0x20 then (if length data = 317 then 9 else 4)
      else if data ! 0 \<noteq> 0x80 \<and> data ! 3 = 0 then (if data ! 0 = 18 then 2 else 1)
      else 0)"

lemma type_of_bit:
  assumes "fd_keyguard_payload_match data sign_type = Inr pm" "bit pm n"
  shows "type_of_request data sign_type = (if n = 6 then 1 else if n = 7 then 3 else n)"
proof -
  have bits: "n = 0 \<and> is_true (fd_keyguard_payload_matches_txn_msg data sign_type) \<or> n = 1 \<and> is_true (fd_keyguard_payload_matches_gossip data sign_type)
     \<or> n = 6 \<and> is_true (fd_keyguard_payload_matches_repair data sign_type) \<or> n = 2 \<and> is_true (fd_keyguard_payload_matches_prune_data data sign_type)
     \<or> n = 3 \<and> is_true (fd_keyguard_payload_matches_shred data sign_type) \<or> n = 4 \<and> is_true (fd_keyguard_payload_matches_tls_cv data sign_type)
     \<or> n = 7 \<and> is_true (fd_keyguard_payload_matches_ping_msg data sign_type) \<or> n = 10 \<and> is_true (fd_keyguard_payload_matches_pong_msg data sign_type)
     \<or> n = 8 \<and> is_true (fd_keyguard_payload_matches_bundle data sign_type) \<or> n = 9 \<and> is_true (fd_keyguard_payload_matches_event data sign_type)"
    using match_mask[of data sign_type] assms by auto
  note defs = type_of_request_def FD_KEYGUARD_SIGN_TYPE_ED25519_def FD_KEYGUARD_SIGN_TYPE_SHA256_ED25519_def FD_KEYGUARD_SIGN_TYPE_PUBKEY_CONCAT_ED25519_def
  have small: "b \<noteq> 0x20 \<and> b \<noteq> 0x80 \<and> b \<noteq> 18" if "unat b < 14" for b :: u8 using that by auto
  from bits show ?thesis
  proof (elim disjE conjE)
    assume "n = 0" "is_true (fd_keyguard_payload_matches_txn_msg data sign_type)"
    thus ?thesis using txn_msg_bytes[of data sign_type] by (simp add: defs) fastforce
  next
    assume "n = 1" "is_true (fd_keyguard_payload_matches_gossip data sign_type)"
    thus ?thesis using gossip_bytes[of data sign_type] small[of "data ! 0"] by (simp add: defs)
  next
    assume "n = 6" "is_true (fd_keyguard_payload_matches_repair data sign_type)"
    thus ?thesis using repair_bytes[of data sign_type] small[of "data ! 0"] by (simp add: defs)
  next
    assume "n = 2" "is_true (fd_keyguard_payload_matches_prune_data data sign_type)"
    thus ?thesis using prune_bytes[of data sign_type] by (simp add: defs)
  next
    assume "n = 3" "is_true (fd_keyguard_payload_matches_shred data sign_type)"
    thus ?thesis using fixed_bytes(1)[of data sign_type] by (simp add: defs)
  next
    assume "n = 4" "is_true (fd_keyguard_payload_matches_tls_cv data sign_type)"
    thus ?thesis using tls_bytes[of data sign_type] by (simp add: defs) fastforce
  next
    assume "n = 7" "is_true (fd_keyguard_payload_matches_ping_msg data sign_type)"
    thus ?thesis using fixed_bytes(2)[of data sign_type] by (simp add: defs)
  next
    assume "n = 10" "is_true (fd_keyguard_payload_matches_pong_msg data sign_type)"
    thus ?thesis using fixed_bytes(3)[of data sign_type] by (simp add: defs)
  next
    assume "n = 8" "is_true (fd_keyguard_payload_matches_bundle data sign_type)"
    thus ?thesis using fixed_bytes(4)[of data sign_type] by (simp add: defs)
  next
    assume "n = 9" "is_true (fd_keyguard_payload_matches_event data sign_type)"
    thus ?thesis using event_bytes[of data sign_type] by (simp add: defs)
  qed
qed

lemma bit_push_1: "bit (push_bit k 1 :: u64) n \<longleftrightarrow> n = k \<and> k < 64"
  using bit_flag[of True k n] by simp

lemma one_bit:
  assumes "bit (pm :: u64) n" "\<forall>m. bit pm m \<longrightarrow> m = n"
  shows "pm = push_bit n 1"
proof (rule bit_word_eqI)
  have n: "n < 64" using bit_imp_le_length[OF assms(1)] by simp
  have "bit pm k \<longleftrightarrow> k = n" for k using assms by metis
  thus "bit pm k = bit (push_bit n 1 :: u64) k" for k using n unfolding bit_push_1 by simp
qed

lemma no_bits:
  assumes "\<And>m. bit (pm :: u64) m \<Longrightarrow> m = a \<or> m = b"
  shows "pm AND NOT (push_bit a 1 OR push_bit b 1) = 0"
proof (rule bit_word_eqI)
  fix k assume "k < LENGTH(64)"
  thus "bit (pm AND NOT (push_bit a 1 OR push_bit b 1)) k = bit (0 :: u64) k"
    using assms[of k] unfolding bit_and_iff bit_not_iff bit_or_iff bit_push_1 bit_0_eq bot_apply bot_bool_def by auto
qed

lemma cls:
  "(if m = 6 then 1 else if m = 7 then 3 else m) = (1 :: nat) \<Longrightarrow> m = 1 \<or> m = 6"
  "(if m = 6 then 1 else if m = 7 then 3 else m) = (3 :: nat) \<Longrightarrow> m = 3 \<or> m = 7"
  "(if m = 6 then 1 else if m = 7 then 3 else m) \<in> {1, 3 :: nat} \<or> (if m = 6 then 1 else if m = 7 then 3 else m) = m"
  by (auto split: if_splits)

lemma unambiguous:
  assumes "fd_keyguard_payload_match data sign_type = Inr pm"
  shows "pm AND NOT (FD_KEYGUARD_PAYLOAD_GOSSIP OR FD_KEYGUARD_PAYLOAD_REPAIR) = 0
    \<or> pm AND NOT (FD_KEYGUARD_PAYLOAD_SHRED OR FD_KEYGUARD_PAYLOAD_PING) = 0 \<or> (\<exists>k. pm = push_bit k 1)"
proof -
  let ?t = "type_of_request data sign_type"
  have t: "?t = (if n = 6 then 1 else if n = 7 then 3 else n)" if "bit pm n" for n using type_of_bit[OF assms that] .
  show ?thesis
  proof (cases "?t = 1 \<or> ?t = 3")
    case True
    have two: "?t = 1 \<Longrightarrow> bit pm m \<Longrightarrow> m = 1 \<or> m = 6" "?t = 3 \<Longrightarrow> bit pm m \<Longrightarrow> m = 3 \<or> m = 7" for m
      by (rule cls(1), erule trans[OF t[symmetric]], assumption) (rule cls(2), erule trans[OF t[symmetric]], assumption)
    from True show ?thesis
    proof
      assume "?t = 1"
      hence "pm AND NOT (FD_KEYGUARD_PAYLOAD_GOSSIP OR FD_KEYGUARD_PAYLOAD_REPAIR) = 0" unfolding payload_flags by (intro no_bits two(1))
      thus ?thesis by blast
    next
      assume "?t = 3"
      hence "pm AND NOT (FD_KEYGUARD_PAYLOAD_SHRED OR FD_KEYGUARD_PAYLOAD_PING) = 0" unfolding payload_flags by (intro no_bits two(2))
      thus ?thesis by blast
    qed
  next
    case False
    have single: "\<forall>m. bit pm m \<longrightarrow> m = ?t"
    proof (intro allI impI)
      fix m assume "bit pm m"
      from t[OF this] False show "m = ?t" using cls(3)[of m] by metis
    qed
    show ?thesis
    proof (cases "bit pm ?t")
      case True
      thus ?thesis using one_bit[OF True single] by blast
    next
      case no: False
      have none: "\<not> bit pm m" for m using single no by metis
      have "pm = 0" by (rule bit_word_eqI) (simp add: none)
      thus ?thesis by simp
    qed
  qed
qed

section \<open>Transactions are recognised\<close>

lemma parse_layout:
  assumes "fd_txn_parse p = Inr (txn, n, fp)"
  obtains s mo ver i t0 j instrs j' mx luts w c where "fits p" "sigs_layout p s 1 mo ver i" "accts_layout p s 1 mo ver i t0 j"
    "parse_instrs p (txn_acct_addr_cnt t0) (unat (txn_instr_cnt t0)) j 0 = Inr (instrs, j', mx)"
    "parse_tables p t0 j' = Inr (luts, length p, w, c)" 
    "txn_transaction_version txn = ver" "txn_signature_cnt txn = s" "txn_message_off txn = word_of_nat mo" "txn_acct_addr_cnt txn = txn_acct_addr_cnt t0"
    "txn_acct_addr_off txn = txn_acct_addr_off t0" "txn_instr_cnt txn = txn_instr_cnt t0" "txn_instr txn = instrs"
proof -
  obtain t0 j instrs j' mx luts k w c where h: "parse_header p = Inr (t0, j)"
      and i: "parse_instrs p (txn_acct_addr_cnt t0) (unat (txn_instr_cnt t0)) j 0 = Inr (instrs, j', mx)"
      and l: "parse_tables p t0 j' = Inr (luts, k, w, c)" "k = length p"
      and t: "txn = t0\<lparr> txn_instr := instrs, txn_address_tables := luts, txn_addr_table_lookup_cnt := word_of_nat (length luts),
               txn_addr_table_adtl_writable_cnt := word_of_nat w, txn_addr_table_adtl_cnt := word_of_nat c \<rparr>"
    using assms by (auto simp: fd_txn_parse_def fd_txn_parse_core_def andthen_Inr check_Inr)
  obtain s so mo ver i where s: "parse_signatures p = Inr (s, so, mo, ver, i)" "parse_accounts p (s, so, mo, ver, i) = Inr (t0, j)"
    using h by (auto simp: parse_header_def andthen_Inr)
  have sl: "sigs_layout p s so mo ver i" using s(1) by (simp add: parse_signatures_iff)
  hence so: "so = 1" "fits p" "i \<le> length p" by (simp_all add: sigs_layout_def)
  have al: "accts_layout p s so mo ver i t0 j" using parse_accounts_layout[OF so(2,3)] s(2) by (fastforce simp: good_def)
  show thesis
    by (rule that[OF so(2) sl[unfolded so(1)] al[unfolded so(1)] i l(1)[unfolded l(2)]]) (use al in \<open>auto simp: t accts_layout_def\<close>)
qed

lemma byte_at_drop: "m \<le> length p \<Longrightarrow> byte_at (drop m p) i k = byte_at p (m + i) k"
  by (auto simp: byte_at_def)

lemma dec_drop:
  assumes "m \<le> length p"
  shows "fd_cu16_dec_sz (drop m p) i n = fd_cu16_dec_sz p (m + i) n" "fd_cu16_dec_fixed (drop m p) i sz = fd_cu16_dec_fixed p (m + i) sz"
  unfolding fd_cu16_dec_sz_def fd_cu16_dec_fixed_def byte_if_def byte_at_drop[OF assms] add.assoc by (rule refl)+

lemma dec_sz_more: "3 \<le> n \<Longrightarrow> fd_cu16_dec_sz p i n = fd_cu16_dec_sz p i 3"
  by (simp add: fd_cu16_dec_sz_def byte_if_def cong: if_cong)

lemma cu16_at_dec3:
  assumes "cu16_at p i v sz" "i + 3 \<le> length p"
  shows "fd_cu16_dec_sz p i 3 = Inr sz" "fd_cu16_dec_fixed p i sz = Inr v" "sz \<noteq> 0"
  using cu16_at_dec[OF assms(1)] dec_sz_more[of "length p - i" p i] assms cu16_at_le[OF assms(1)] by simp_all

lemma txn_recognised:
  assumes "fd_txn_parse p = Inr (txn, n, fp)"
  shows "fd_keyguard_payload_matches_txn_msg (drop (unat (txn_message_off txn)) p) FD_KEYGUARD_SIGN_TYPE_ED25519 = Inr True"
proof (rule parse_layout[OF assms])
  fix s mo ver i t0 j instrs j' mx luts w c
  assume fits: "fits p" and sl: "sigs_layout p s 1 mo ver i" and al: "accts_layout p s 1 mo ver i t0 j" and moff: "txn_message_off txn = word_of_nat mo"
  obtain a na c nc where a: "i + 2 \<le> length p" "cu16_at p (i + 2) a na" "unat s \<le> unat a"
      "i + 2 + na + 32 * unat a + 32 \<le> length p" "cu16_at p (i + 2 + na + 32 * unat a + 32) c nc"
    using al unfolding accts_layout_def by fastforce
  have s: "1 \<le> unat s" "mo = 1 + 64 * unat s" "i = mo + 1 \<and> p ! mo = s \<or> i = mo + 2 \<and> p ! mo = 0x80 \<and> p ! (mo + 1) = s" "unat s \<le> 127"
    using sl by (auto simp: sigs_layout_def FD_TXN_SIGNATURE_SZ_def FD_TXN_SIG_MAX_def)
  have len: "length p \<le> 1232" using fits by (simp add: fits_def)
  have mo: "unat (txn_message_off txn) = mo" 
  proof -
    have "mo < 65536" using s(2,4) by simp
    thus ?thesis unfolding moff by (rule unat_of_nat16)
  qed
  have room: "i + 2 + na + 32 * unat a + 33 \<le> length p" "1 \<le> na" "i + 2 + 3 \<le> length p"
    using cu16_at_le[OF a(5)] cu16_at_le[OF a(2)] a(3) s(1) by simp_all
  define d where "d = drop mo p"
  have dl: "length d = length p - mo" "mo \<le> length p" using room s(3) by (auto simp: d_def)
  have sig: "msg_sig_cnt d = Inr (Some (s, i - mo))"
    using s dl room(1) legacy_byte[of s] by (auto simp: msg_sig_cnt_def byte_at_def d_def FD_TXN_V0_def)
  have dec: "fd_cu16_dec_sz d (i - mo + 2) 3 = Inr na" "fd_cu16_dec_fixed d (i - mo + 2) na = Inr a" "na \<noteq> 0"
    using cu16_at_dec3[OF a(2) room(3)] s(3) dec_drop[OF dl(2)] by (auto simp: d_def)
  have nz: "s \<noteq> 0" using s(1) by auto
  have sz: "\<not> length d < 69" "unat s * 64 \<le> 1163" "\<not> length d < i - mo + 2 + 3" using s room a(3) len dl by auto
  show ?thesis
    unfolding mo d_def[symmetric] fd_keyguard_payload_matches_txn_msg_def
    using sz nz a(3) by (simp add: sig andthen_def dec[unfolded add_2_eq_Suc'] txn_msg_min_sz_def txn_limits Let_def)
qed

section \<open>What the vote sender may sign\<close>

lemma require_True: "require c k = Inr True \<longleftrightarrow> c \<and> k = Inr True"
  by (simp add: require_def)

lemma requires_True: "requires m k = Inr True \<longleftrightarrow> m = Inr True \<and> k = Inr True"
  by (auto simp: requires_def andthen_Inr require_True)

lemma identity_at_True: "identity_at authority data off = Inr True \<longleftrightarrow> off + 32 \<le> length data \<and> take 32 (drop off data) = identity_pubkey authority"
  by (auto simp: identity_at_def bytes_in_def)

lemma eq_at_True: "eq_at data off bytes = Inr True \<longleftrightarrow> off + length bytes \<le> length data \<and> take (length bytes) (drop off data) = bytes"
  by (auto simp: eq_at_def bytes_in_def)

lemmas authorized = require_True requires_True identity_at_True eq_at_True andthen_Inr byte_at_Inr

text \<open>The shape of a vote: \<open>s\<close> signers, and the positions behind the addresses and the blockhash.\<close>

definition vote_shape :: "u8 list \<Rightarrow> u8 list \<Rightarrow> nat \<Rightarrow> nat \<Rightarrow> bool" where
  "vote_shape ident d s b \<longleftrightarrow> (s = 1 \<or> s = 2) \<and> unat (d ! 0) = s \<and> unat (d ! 1) = s - 1 \<and> d ! 2 = 1 \<and> unat (d ! 3) = s + 2
     \<and> take 32 (drop 4 d) = ident \<and> d ! (4 + 32 * (s + 3)) = 1 \<and> unat (d ! (5 + 32 * (s + 3))) = s + 1
     \<and> take 32 (drop (4 + 32 * (s + 1)) d) = vote_program_id \<and> d ! (6 + 32 * (s + 3)) = 2
     \<and> fd_cu16_dec_sz d (9 + 32 * (s + 3)) 3 = Inr b \<and> 9 + 32 * (s + 3) + b < length d \<and> d ! (9 + 32 * (s + 3) + b) = 14
     \<and> 108 + 32 * s < length d \<and> length d \<le> FD_TXN_MTU"

lemma dec_sz_1: "i + 3 \<le> length d \<Longrightarrow> unat (d ! i) < 128 \<Longrightarrow> fd_cu16_dec_sz d i 3 = Inr 1"
  using bit7_iff[of "d ! i"] by (simp add: fd_cu16_dec_sz_def byte_if_def byte_at_def)

lemma authorize_vote_iff:
  "fd_keyguard_authorize_vote_txn authority d sign_type = Inr True \<longleftrightarrow>
     sign_type = FD_KEYGUARD_SIGN_TYPE_ED25519 \<and> (\<exists>s b. vote_shape (identity_pubkey authority) d s b)"
  (is "?l \<longleftrightarrow> ?r")
proof
  assume ?l
  hence ed: "sign_type = FD_KEYGUARD_SIGN_TYPE_ED25519" and s: "d ! 0 = 1 \<or> d ! 0 = 2" by (auto simp: fd_keyguard_authorize_vote_txn_def authorized)
  from s have "\<exists>b. vote_shape (identity_pubkey authority) d (unat (d ! 0)) b"
  proof
    assume "d ! 0 = 1"
    thus ?thesis using \<open>?l\<close>
      by (auto simp: fd_keyguard_authorize_vote_txn_def authorized Let_def vote_shape_def lengths) (simp_all flip: nat_uint_eq)
  next
    assume "d ! 0 = 2"
    thus ?thesis using \<open>?l\<close>
      by (auto simp: fd_keyguard_authorize_vote_txn_def authorized Let_def vote_shape_def lengths) (simp_all flip: nat_uint_eq)
  qed
  thus ?r using ed by blast
next
  assume ?r
  then obtain s b where ed: "sign_type = FD_KEYGUARD_SIGN_TYPE_ED25519" and v: "vote_shape (identity_pubkey authority) d s b" by blast
  have s: "s = 1 \<or> s = 2" and l: "108 + 32 * s < length d" using v by (auto simp: vote_shape_def)
  have dec: "fd_cu16_dec_sz d 3 3 = Inr 1" "fd_cu16_dec_sz d (4 + 32 * (s + 3)) 3 = Inr 1" "fd_cu16_dec_sz d (6 + 32 * (s + 3)) 3 = Inr 1"
    by (rule dec_sz_1; use v l s in \<open>auto simp: vote_shape_def\<close>)+
  have b: "d ! 0 = word_of_nat s" "d ! 1 = word_of_nat (s - 1)" "d ! 3 = word_of_nat (s + 2)" "d ! (5 + 32 * (s + 3)) = word_of_nat (s + 1)"
    using v unfolding vote_shape_def by (metis of_nat_unat ucast_id)+
  from s show ?l
  proof
    assume "s = 1"
    thus ?l using v b dec ed l by (auto simp: fd_keyguard_authorize_vote_txn_def authorized Let_def vote_shape_def lengths)
  next
    assume "s = 2"
    thus ?l using v b dec ed l by (auto simp: fd_keyguard_authorize_vote_txn_def authorized Let_def vote_shape_def lengths)
  qed
qed

lemma alternative_True: "alternative pm flag k = Inr True \<longleftrightarrow> pm AND flag \<noteq> 0 \<and> k = Inr True"
  by (simp add: alternative_def require_True)

lemma any_of_True: "any_of ms = Inr True \<Longrightarrow> Inr True \<in> set ms"
  by (induction ms) (auto simp: andthen_Inr)

text \<open>A request that looks like a transaction is only looked at by the two roles that send transactions.\<close>

lemma mask_of_txn:
  assumes "fd_keyguard_payload_match data sign_type = Inr pm" "fd_keyguard_payload_matches_txn_msg data sign_type = Inr True"
  shows "pm = FD_KEYGUARD_PAYLOAD_TXN"
proof -
  have "bit pm 0" using match_flags(1)[OF assms(1)] assms(2) unfolding payload_flags and_flag by (simp add: is_true_def)
  moreover have "\<forall>m. bit pm m \<longrightarrow> m = 0"
    using type_of_bit[OF assms(1) calculation] type_of_bit[OF assms(1)] by (metis zero_neq_one zero_neq_numeral)
  ultimately show ?thesis unfolding payload_flags by (rule one_bit)
qed

lemma other_flags: "FD_KEYGUARD_PAYLOAD_TXN AND FD_KEYGUARD_PAYLOAD_TLS_CV = 0" "FD_KEYGUARD_PAYLOAD_TXN AND FD_KEYGUARD_PAYLOAD_PING = 0"
    "FD_KEYGUARD_PAYLOAD_TXN AND FD_KEYGUARD_PAYLOAD_PONG = 0" "FD_KEYGUARD_PAYLOAD_TXN AND FD_KEYGUARD_PAYLOAD_PRUNE = 0"
    "FD_KEYGUARD_PAYLOAD_TXN AND FD_KEYGUARD_PAYLOAD_GOSSIP = 0" "FD_KEYGUARD_PAYLOAD_TXN AND FD_KEYGUARD_PAYLOAD_REPAIR = 0"
    "FD_KEYGUARD_PAYLOAD_TXN \<noteq> FD_KEYGUARD_PAYLOAD_SHRED" "FD_KEYGUARD_PAYLOAD_TXN \<noteq> FD_KEYGUARD_PAYLOAD_BUNDLE"
    "FD_KEYGUARD_PAYLOAD_TXN \<noteq> FD_KEYGUARD_PAYLOAD_EVENT" "FD_KEYGUARD_PAYLOAD_TXN AND FD_KEYGUARD_PAYLOAD_TXN \<noteq> 0"
  by (simp_all add: payload_flags)

lemma authorize_txn:
  assumes "fd_keyguard_payload_matches_txn_msg data sign_type = Inr True"
  shows "fd_keyguard_payload_authorize authority data role sign_type = Inr True \<longleftrightarrow> length data \<le> FD_KEYGUARD_SIGN_REQ_MTU \<and>
    (role = FD_KEYGUARD_ROLE_TXSEND \<and> fd_keyguard_authorize_vote_txn authority data sign_type = Inr True
     \<or> role = FD_KEYGUARD_ROLE_BUNDLE_CRANK \<and> fd_keyguard_authorize_bundle_crank_txn data sign_type = Inr True)"
proof -
  obtain pm where pm: "fd_keyguard_payload_match data sign_type = Inr pm"
    using defined_match[of data sign_type] unfolding defined_def by blast
  note m = pm[unfolded mask_of_txn[OF pm assms]]
  have alt: "alternative FD_KEYGUARD_PAYLOAD_TXN flag k = Inr False" if "FD_KEYGUARD_PAYLOAD_TXN AND flag = 0" for flag k
    using that by (simp add: alternative_def require_def)
  have one: "any_of [alternative FD_KEYGUARD_PAYLOAD_TXN FD_KEYGUARD_PAYLOAD_TXN k, Inr False] = Inr True \<longleftrightarrow> k = Inr True" for k
    using other_flags(10) by (cases k) (simp_all add: alternative_def require_def andthen_def)
  have none: "any_of [Inr False, Inr False, Inr False, Inr False] = Inr False" "any_of [Inr False, Inr False, Inr False] = Inr False"
    "any_of [Inr False] = Inr False" by (simp_all add: andthen_def)
  note roles = FD_KEYGUARD_ROLE_TXSEND_def FD_KEYGUARD_ROLE_GOSSIP_def
      FD_KEYGUARD_ROLE_LEADER_def FD_KEYGUARD_ROLE_REPAIR_def FD_KEYGUARD_ROLE_BUNDLE_def FD_KEYGUARD_ROLE_EVENT_def
      FD_KEYGUARD_ROLE_BUNDLE_CRANK_def FD_KEYGUARD_ROLE_RSERVE_def
  show ?thesis
    unfolding fd_keyguard_payload_authorize_def m andthen_def sum.case
    unfolding alt[OF other_flags(1)] alt[OF other_flags(2)] alt[OF other_flags(3)] alt[OF other_flags(4)] alt[OF other_flags(5)] alt[OF other_flags(6)] none
    using one other_flags(7-9) by (simp add: require_True roles not_less del: any_of.simps)
qed

end
