(* ===== verification/Keyguard_Vote.thy ===== *)
theory Keyguard_Vote
  imports Keyguard_Txn
begin

text \<open>The vote sender signs votes, and the votes that the tower builds: the keyguard, the parser and the builder agree.\<close>

section \<open>What is authorized is a vote\<close>

lemma cu16_small:
  assumes "cu16_at p i v sz" "i + 3 \<le> length p" "unat (p ! i) < 128"
  shows "sz = 1" "unat v = unat (p ! i)"
proof -
  show sz: "sz = 1" using cu16_at_dec3(1)[OF assms(1,2)] dec_sz_1[OF assms(2,3)] by simp
  have "take 1 (drop i p) = [p ! i]" using assms(2) by (simp add: take_Suc hd_drop_conv_nth)
  hence "fd_cu16_enc v = [p ! i]" using assms(1) unfolding cu16_at_def sz by simp
  moreover have "length (fd_cu16_enc v) = 1" using calculation by simp
  hence "unat v < 128" by (auto simp: length_enc split: if_splits)
  ultimately have "p ! i = ucast v" by (simp add: enc_small)
  thus "unat v = unat (p ! i)" using \<open>unat v < 128\<close> by (simp add: unsigned_ucast_eq take_bit_nat_eq_self)
qed

lemma vote_of_shape:
  assumes parse: "fd_txn_parse p = Inr (txn, n, fp)" and shape: "vote_shape ident (drop (unat (txn_message_off txn)) p) s b"
  shows "fd_txn_is_simple_vote_transaction txn p = Inr True \<and> unat (txn_signature_cnt txn) = s
    \<and> acct_at txn p 0 Inr = Inr ident \<and> (\<exists>ins. txn_instr txn = [ins] \<and> 0 < unat (ti_data_sz ins)
      \<and> unat (ti_data_off ins) + unat (ti_data_sz ins) = length p \<and> p ! unat (ti_data_off ins) = 14)"
proof (rule parse_layout[OF parse])
  fix sc mo ver i t0 j instrs j' mx luts w c'
  assume fits: "fits p" and sl: "sigs_layout p sc 1 mo ver i" and al: "accts_layout p sc 1 mo ver i t0 j"
    and pi: "parse_instrs p (txn_acct_addr_cnt t0) (unat (txn_instr_cnt t0)) j 0 = Inr (instrs, j', mx)"
    and pt: "parse_tables p t0 j' = Inr (luts, length p, w, c')"
    and txn: "txn_transaction_version txn = ver" "txn_signature_cnt txn = sc" "txn_message_off txn = word_of_nat mo" "txn_acct_addr_cnt txn = txn_acct_addr_cnt t0"
      "txn_acct_addr_off txn = txn_acct_addr_off t0" "txn_instr_cnt txn = txn_instr_cnt t0" "txn_instr txn = instrs"
  obtain a na c nc where a: "cu16_at p (i + 2) a na" "cu16_at p (i + 2 + na + 32 * unat a + 32) c nc" "j = i + 2 + na + 32 * unat a + 32 + nc"
      and t0: "txn_acct_addr_cnt t0 = a" "txn_acct_addr_off t0 = word_of_nat (i + 2 + na)" "txn_instr_cnt t0 = c" "txn_transaction_version t0 = ver"
    using al unfolding accts_layout_def by fastforce
  have s0: "1 \<le> unat sc" "mo = 1 + 64 * unat sc" "ver = FD_TXN_VLEGACY \<and> i = mo + 1 \<and> p ! mo = sc \<or> ver = FD_TXN_V0 \<and> i = mo + 2 \<and> p ! mo = 0x80" "unat sc \<le> 127"
    using sl by (auto simp: sigs_layout_def FD_TXN_SIGNATURE_SZ_def FD_TXN_SIG_MAX_def)
  have mo: "unat (txn_message_off txn) = mo" using s0(2,4) unfolding txn(3) by (intro unat_of_nat16) simp
  have len: "length p \<le> 1232" using fits by (simp add: fits_def)
  have sh: "s = 1 \<or> s = 2" "unat (p ! mo) = s" "unat (p ! (mo + 3)) = s + 2" "take 32 (drop (mo + 4) p) = ident" "p ! (mo + 4 + 32 * (s + 3)) = 1"
      "unat (p ! (mo + 5 + 32 * (s + 3))) = s + 1" "take 32 (drop (mo + 4 + 32 * (s + 1)) p) = vote_program_id" "p ! (mo + 6 + 32 * (s + 3)) = 2"
      "fd_cu16_dec_sz p (mo + (9 + 32 * (s + 3))) 3 = Inr b" "mo + 9 + 32 * (s + 3) + b < length p" "p ! (mo + 9 + 32 * (s + 3) + b) = 14"
      "mo + 108 + 32 * s < length p"
    using shape dec_drop(1)[of mo p "9 + 32 * (s + 3)" 3] unfolding vote_shape_def mo by (auto simp: ac_simps)
  have "unat (p ! mo) \<noteq> 128" using sh(1,2) by auto
  hence legacy: "ver = FD_TXN_VLEGACY" "i = mo + 1" "unat sc = s" using s0(3) sh(2) by auto
  have "unat (p ! (i + 2)) < 128" "i + 2 + 3 \<le> length p" using sh(1,3,12) legacy(2) by (auto simp: numeral_3_eq_3)
  hence na: "na = 1" "unat a = s + 2" using cu16_small[OF a(1)] sh(3) legacy(2) by (auto simp: numeral_3_eq_3)
  have k: "i + 2 + na + 32 * unat a + 32 = mo + 4 + 32 * (s + 3)" using na legacy(2) by simp
  have nc: "nc = 1" "unat c = 1" using cu16_small[OF a(2)] sh(5,12) unfolding k by auto
  hence c: "c = 1" by (metis unat_1 word_unat_eq_iff)
  have j: "j = mo + 5 + 32 * (s + 3)" using a(3) nc(1) unfolding k by simp
  obtain ins m' where ins: "parse_instr p a j 0 = Inr (ins, j', m')" "instrs = [ins]"
    using pi unfolding t0 nc(2) by (auto simp: andthen_Inr)
  have "instr_layout p a j ins j'" using parse_instr_layout[OF fits, of j a 0] ins(1) j sh(12) by (auto simp: good_def)
  then obtain n' nn d nd where l: "cu16_at p (j + 1) n' nn" "cu16_at p (j + 1 + nn + unat n') d nd" "j' = j + 1 + nn + unat n' + nd + unat d"
      "ins = \<lparr> ti_program_id = p ! j, ti_acct_cnt = n', ti_data_sz = d, ti_acct_off = word_of_nat (j + 1 + nn),
                  ti_data_off = word_of_nat (j + 1 + nn + unat n' + nd) \<rparr>"
    unfolding instr_layout_def by blast
  have nn: "nn = 1" "unat n' = 2" using cu16_small[OF l(1)] sh(8,12) j by (auto simp: ac_simps)
  have q: "j + 1 + nn + unat n' = mo + (9 + 32 * (s + 3))" using j nn by simp
  have nd: "nd = b" using cu16_at_dec3(1)[OF l(2)] sh(9,12) unfolding q by simp
  have j': "j' = length p" using pt legacy(1) t0(4) by (simp add: parse_tables_def FD_TXN_V0_def FD_TXN_VLEGACY_def)
  have off: "unat (ti_data_off ins) = mo + 9 + 32 * (s + 3) + b"
  proof -
    have "mo + (9 + 32 * (s + 3)) + nd < 65536" using sh(10) len nd by simp
    hence "unat (ti_data_off ins) = mo + (9 + 32 * (s + 3)) + nd" unfolding l(4) q fd_txn_instr.simps by (rule unat_of_nat16)
    thus ?thesis using nd by simp
  qed
  have data: "unat (ti_data_off ins) + unat (ti_data_sz ins) = length p" using l(3) j' unfolding q off nd by (simp add: l(4))
  have addr: "unat (txn_acct_addr_off txn) = mo + 4"
  proof -
    have "i + 2 + na = mo + 4" using na legacy(2) by simp
    moreover have "mo + 4 < 65536" using sh(12) len by simp
    ultimately show ?thesis unfolding txn(5) t0(2) by (simp only: unat_of_nat16)
  qed
  have prog: "unat (ti_program_id ins) = s + 1" using sh(6) by (simp add: l(4) j)
  have "acct_at txn p (s + 1) (\<lambda>prog_id. Inr (prog_id = vote_program_id)) = Inr True" "acct_at txn p 0 Inr = Inr ident"
    using sh(4,7,12) by (simp_all add: acct_at_def bytes_in_def addr FD_TXN_ACCT_ADDR_SZ_def add.assoc)
  thus ?thesis
    using legacy sh(1,10,11) data off txn t0 c ins(2) prog by (auto simp: fd_txn_is_simple_vote_transaction_def)
qed

section \<open>The tower's vote is authorized\<close>

lemma vote_message_shape:
  fixes ident auth acc sigs bh data
  assumes len: "length ident = 32" "length auth = 32" "length acc = 32" "length bh = 32" "length data \<le> 427" "4 \<le> length data" "data ! 0 = 14"
    "length sigs = 64 * unat (vote_sigs ident auth)"
  defines "s \<equiv> unat (vote_sigs ident auth)"
  shows "\<exists>b. vote_shape ident (drop (1 + 64 * s) (vote_bytes ident auth acc sigs bh data)) s b"
proof -
  let ?s = "vote_sigs ident auth" and ?e = "fd_cu16_enc (word_of_nat (length data))"
  define A where "A = vote_accts ident auth acc"
  define d where "d = [?s, ?s - 1, 1, ?s + 2] @ A @ bh @ [1, ?s + 1, 2, ?s, ?s - 1] @ ?e @ data"
  have s: "s = 1 \<and> ?s = 1 \<or> s = 2 \<and> ?s = 2" by (simp add: s_def vote_sigs_def)
  have e: "fd_cu16_enc (ucast ?s + 2) = [?s + 2]" "fd_cu16_enc 1 = [1]" "fd_cu16_enc 2 = [2]"
    using enc_small[of 1] enc_small[of 2] by (simp_all add: vote_sigs_def enc_small)
  have A: "length A = 32 * (s + 2)" "take 32 A = ident" "take 32 (drop (32 * (s + 1)) A) = vote_program_id"
    using len vote_acct[OF len(1-3)] by (simp_all add: A_def s_def vote_accts_def vote_sigs_def vote_program_id_def)
  have msg: "drop (1 + 64 * s) (vote_bytes ident auth acc sigs bh data) = d"
    using len(8) by (simp add: vote_bytes_def txn_bytes_def txn_head_def e d_def A_def s_def)
  have e1: "1 \<le> length ?e" "length ?e \<le> 3" by (simp_all add: length_enc)
  have ld: "length d = 105 + 32 * s + length ?e + length data" using A(1) len(4) by (simp add: d_def)
  have pre: "d = ([?s, ?s - 1, 1, ?s + 2] @ A @ bh @ [1, ?s + 1, 2, ?s, ?s - 1]) @ ?e @ data" by (simp add: d_def)
  have pl: "length ([?s, ?s - 1, 1, ?s + 2] @ A @ bh @ [1, ?s + 1, 2, ?s, ?s - 1]) = 9 + 32 * (s + 3)" using A(1) len(4) by simp
  have "cu16_at d (9 + 32 * (s + 3)) (word_of_nat (length data)) (length ?e)" using cu16_at_append[OF pre pl] .
  hence dec: "fd_cu16_dec_sz d (9 + 32 * (s + 3)) 3 = Inr (length ?e)" by (rule cu16_at_dec3(1)) (use ld e1 len(6) in simp)
  have mid: "drop (4 + 32 * (s + 3)) d = [1, ?s + 1, 2, ?s, ?s - 1] @ ?e @ data"
  proof -
    have "d = ([?s, ?s - 1, 1, ?s + 2] @ A @ bh) @ [1, ?s + 1, 2, ?s, ?s - 1] @ ?e @ data" by (simp add: d_def)
    moreover have "length ([?s, ?s - 1, 1, ?s + 2] @ A @ bh) = 4 + 32 * (s + 3)" using A(1) len(4) by simp
    ultimately show ?thesis by (metis append_eq_conv_conj)
  qed
  have nth: "d ! (4 + 32 * (s + 3) + k) = ([1, ?s + 1, 2, ?s, ?s - 1] @ ?e @ data) ! k" for k
    using nth_drop[of "4 + 32 * (s + 3)" d k] ld unfolding mid by simp
  have bytes: "d ! (4 + 32 * (s + 3)) = 1" "d ! (5 + 32 * (s + 3)) = ?s + 1" "d ! (6 + 32 * (s + 3)) = 2" "d ! (9 + 32 * (s + 3) + length ?e) = 14"
    using nth[of 0] nth[of 1] nth[of 2] nth[of "5 + length ?e"] len(7) by (simp_all add: ac_simps nth_append)
  have head: "d ! 0 = ?s" "d ! 1 = ?s - 1" "d ! 2 = 1" "d ! 3 = ?s + 2" "take 32 (drop 4 d) = ident"
    using A by (simp_all add: d_def)
  have "drop (4 + 32 * (s + 1)) d = drop (32 * (s + 1)) (drop 4 d)" by (metis add.commute drop_drop)
  moreover have "drop 4 d = A @ bh @ [1, ?s + 1, 2, ?s, ?s - 1] @ ?e @ data" by (simp add: d_def)
  ultimately have prog: "take 32 (drop (4 + 32 * (s + 1)) d) = vote_program_id" using A(1,3) by (simp add: lengths)
  have "unat (?s - 1) = s - 1" "unat (?s + 1) = s + 1" "unat (?s + 2) = s + 2" "unat ?s = s" using s by auto
  thus ?thesis
    unfolding msg vote_shape_def bytes(1,3) head prog dec unfolding bytes using s ld e1 len(5,6) bytes
    by (intro exI[of _ "length ?e"]) (auto simp: FD_TXN_MTU_def)
qed

end
