(* ===== verification/Txn_Accounts.thy ===== *)
theory Txn_Accounts
  imports Txn "HOL-Library.Monad_Syntax"
begin

text \<open>
  The accounts of a transaction (\<^verbatim>\<open>ballet/txn/fd_txn.h\<close>): the categories, the count of the accounts
  of a category, the iterator that packs up to three ranges of indices into one \<open>ulong\<close>, and the tests of
  one account.  \<open>None\<close> is an access outside the array of three ranges.
\<close>

section \<open>Categories\<close>

definition FD_TXN_ACCT_CAT_WRITABLE_SIGNER :: u32 where "FD_TXN_ACCT_CAT_WRITABLE_SIGNER = 0x01"
definition FD_TXN_ACCT_CAT_READONLY_SIGNER :: u32 where "FD_TXN_ACCT_CAT_READONLY_SIGNER = 0x02"
definition FD_TXN_ACCT_CAT_WRITABLE_NONSIGNER_IMM :: u32 where "FD_TXN_ACCT_CAT_WRITABLE_NONSIGNER_IMM = 0x04"
definition FD_TXN_ACCT_CAT_READONLY_NONSIGNER_IMM :: u32 where "FD_TXN_ACCT_CAT_READONLY_NONSIGNER_IMM = 0x08"
definition FD_TXN_ACCT_CAT_WRITABLE_ALT :: u32 where "FD_TXN_ACCT_CAT_WRITABLE_ALT = 0x10"
definition FD_TXN_ACCT_CAT_READONLY_ALT :: u32 where "FD_TXN_ACCT_CAT_READONLY_ALT = 0x20"
definition FD_TXN_ACCT_CAT_WRITABLE :: u32 where "FD_TXN_ACCT_CAT_WRITABLE = 0x15"
definition FD_TXN_ACCT_CAT_SIGNER :: u32 where "FD_TXN_ACCT_CAT_SIGNER = 0x03"

lemmas acct_cat_defs = FD_TXN_ACCT_CAT_WRITABLE_SIGNER_def FD_TXN_ACCT_CAT_READONLY_SIGNER_def
  FD_TXN_ACCT_CAT_WRITABLE_NONSIGNER_IMM_def FD_TXN_ACCT_CAT_READONLY_NONSIGNER_IMM_def
  FD_TXN_ACCT_CAT_WRITABLE_ALT_def FD_TXN_ACCT_CAT_READONLY_ALT_def

definition fd_txn_account_cnt :: "fd_txn \<Rightarrow> u32 \<Rightarrow> u64" where
  "fd_txn_account_cnt txn include_cat =
     (if include_cat AND FD_TXN_ACCT_CAT_WRITABLE_SIGNER \<noteq> 0
      then ucast (txn_signature_cnt txn) - ucast (txn_readonly_signed_cnt txn) else 0)
     + (if include_cat AND FD_TXN_ACCT_CAT_READONLY_SIGNER \<noteq> 0 then ucast (txn_readonly_signed_cnt txn) else 0)
     + (if include_cat AND FD_TXN_ACCT_CAT_READONLY_NONSIGNER_IMM \<noteq> 0 then ucast (txn_readonly_unsigned_cnt txn) else 0)
     + (if include_cat AND FD_TXN_ACCT_CAT_WRITABLE_ALT \<noteq> 0 then ucast (txn_addr_table_adtl_writable_cnt txn) else 0)
     + (if include_cat AND FD_TXN_ACCT_CAT_WRITABLE_NONSIGNER_IMM \<noteq> 0
        then ucast (txn_acct_addr_cnt txn) - ucast (txn_signature_cnt txn) - ucast (txn_readonly_unsigned_cnt txn) else 0)
     + (if include_cat AND FD_TXN_ACCT_CAT_READONLY_ALT \<noteq> 0
        then ucast (txn_addr_table_adtl_cnt txn) - ucast (txn_addr_table_adtl_writable_cnt txn) else 0)"

section \<open>The iterator\<close>

text \<open>\<open>INCLUDE_RANGE\<close>: a new range unless the category before is included too, then the count is added.\<close>

definition add_count :: "u64 \<Rightarrow> u64 \<times> u64 list \<Rightarrow> (u64 \<times> u64 list) option" where
  "add_count cnt = (\<lambda>(i, control).
     if unat i < length control then Some (i, control[unat i := control ! unat i + push_bit 8 cnt]) else None)"

definition include_range :: "u32 \<Rightarrow> u32 \<Rightarrow> u64 \<Rightarrow> u64 \<Rightarrow> u64 \<times> u64 list \<Rightarrow> (u64 \<times> u64 list) option" where
  "include_range include_cat f start cnt = (\<lambda>(i, control).
     if include_cat AND f \<noteq> 0
     then if include_cat AND drop_bit 1 f = 0
          then (if unat (i + 1) < length control then add_count cnt (i + 1, control[unat (i + 1) := start]) else None)
          else add_count cnt (i, control)
     else Some (i, control))"

definition drop_empty_ranges :: "u64 \<Rightarrow> u64 \<Rightarrow> u64 \<Rightarrow> u64" where
  "drop_empty_ranges control0 control1 control2 =
     (let control2_empty = (control2 AND 0xFF00 = 0);
          control2 = (if control2_empty then 0 else control2);
          control1_empty = (control1 AND 0xFF00 = 0);
          control1 = (if control1_empty then control2 else control1);
          control2 = (if control1_empty then 0 else control2);
          control0_empty = (control0 AND 0xFF00 = 0);
          control0 = (if control0_empty then control1 else control0);
          control1 = (if control0_empty then control2 else control1);
          control2 = (if control0_empty then 0 else control2)
      in control0 OR push_bit 16 control1 OR push_bit 32 control2)"

definition fd_txn_acct_iter_init :: "fd_txn \<Rightarrow> u32 \<Rightarrow> u64 option" where
  "fd_txn_acct_iter_init txn include_cat =
     (let s = ucast (txn_signature_cnt txn); q = ucast (txn_readonly_signed_cnt txn); r = ucast (txn_readonly_unsigned_cnt txn);
          a = ucast (txn_acct_addr_cnt txn); t = ucast (txn_addr_table_adtl_cnt txn); u = ucast (txn_addr_table_adtl_writable_cnt txn)
      in do {
        st \<leftarrow> include_range include_cat FD_TXN_ACCT_CAT_WRITABLE_SIGNER 0 (s - q) (- 1, [0, 0, 0]);
        st \<leftarrow> include_range include_cat FD_TXN_ACCT_CAT_READONLY_SIGNER (s - q) q st;
        st \<leftarrow> include_range include_cat FD_TXN_ACCT_CAT_WRITABLE_NONSIGNER_IMM s (a - r - s) st;
        st \<leftarrow> include_range include_cat FD_TXN_ACCT_CAT_READONLY_NONSIGNER_IMM (a - r) r st;
        st \<leftarrow> include_range include_cat FD_TXN_ACCT_CAT_WRITABLE_ALT a u st;
        (i, control) \<leftarrow> include_range include_cat FD_TXN_ACCT_CAT_READONLY_ALT (a + u) (t - u) st;
        Some (drop_empty_ranges (control ! 0) (control ! 1) (control ! 2))
      })"

definition fd_txn_acct_iter_next :: "u64 \<Rightarrow> u64" where
  "fd_txn_acct_iter_next cur =
     (let cur = cur + 0x0001 - 0x0100 in if cur AND 0xFF00 \<noteq> 0 then cur else drop_bit 16 cur)"

definition fd_txn_acct_iter_end :: u64 where
  "fd_txn_acct_iter_end = 0"

definition fd_txn_acct_iter_idx :: "u64 \<Rightarrow> u64" where
  "fd_txn_acct_iter_idx cur = cur AND 0xFF"

text \<open>The loop over the accounts: the indices in the order they come up.\<close>

partial_function (option) acct_iter_loop :: "u64 \<Rightarrow> nat list option" where
  "acct_iter_loop i =
     (if i = fd_txn_acct_iter_end then Some []
      else do { rest \<leftarrow> acct_iter_loop (fd_txn_acct_iter_next i); Some (unat (fd_txn_acct_iter_idx i) # rest) })"

section \<open>One account\<close>

definition fd_txn_is_writable :: "fd_txn \<Rightarrow> u16 \<Rightarrow> bool" where
  "fd_txn_is_writable txn idx =
     (if txn_transaction_version txn = FD_TXN_V0 \<and> txn_acct_addr_cnt txn \<le> idx
      then unat idx < unat (txn_acct_addr_cnt txn) + unat (txn_addr_table_adtl_writable_cnt txn)
      else int (unat idx) < int (unat (txn_signature_cnt txn)) - int (unat (txn_readonly_signed_cnt txn))
           \<or> unat (txn_signature_cnt txn) \<le> unat idx
             \<and> int (unat idx) < int (unat (txn_acct_addr_cnt txn)) - int (unat (txn_readonly_unsigned_cnt txn)))"

definition fd_txn_is_signer :: "fd_txn \<Rightarrow> int \<Rightarrow> bool" where
  "fd_txn_is_signer txn idx \<longleftrightarrow> idx < int (unat (txn_signature_cnt txn))"

end
