(* ===== verification/Txn_Iter.thy ===== *)
theory Txn_Iter
  imports Txn_Accounts Txn_Bounds
begin

text \<open>
  The packed iterator over the accounts of a transaction visits the accounts of the categories asked for, in
  order, and the counts and tests agree with it.
\<close>

section \<open>Ranges packed into a word\<close>

fun ranges_word :: "(nat \<times> nat) list \<Rightarrow> nat" where
  "ranges_word [] = 0"
| "ranges_word ((start, cnt) # rs) = start + 256 * cnt + 65536 * ranges_word rs"

definition range_indices :: "(nat \<times> nat) list \<Rightarrow> nat list" where
  "range_indices rs = concat (map (\<lambda>(start, cnt). [start ..< start + cnt]) rs)"

definition ranges_ok :: "(nat \<times> nat) list \<Rightarrow> bool" where
  "ranges_ok rs \<longleftrightarrow> (\<forall>(start, cnt) \<in> set rs. 0 < cnt \<and> start + cnt \<le> 128)"

lemma and_FF: "(w :: u64) AND 0xFF = take_bit 8 w"
  by (simp add: take_bit_eq_mask mask_eq_exp_minus_1)

lemma and_FF00: "(w :: u64) AND 0xFF00 = 0 \<longleftrightarrow> unat w div 256 mod 256 = 0"
proof -
  have "drop_bit 8 (w AND 0xFF00) = take_bit 8 (drop_bit 8 w)"
    using drop_bit_and[of 8 w "0xFF00"] and_FF[of "drop_bit 8 w"] by simp
  moreover have "take_bit 8 (w AND 0xFF00) = 0"
    using take_bit_and[of 8 w "0xFF00"] by simp
  ultimately have "w AND 0xFF00 = push_bit 8 (take_bit 8 (drop_bit 8 w))"
    using bits_ident[of 8 "w AND 0xFF00"] by simp
  moreover have "push_bit 8 (take_bit 8 (drop_bit 8 w)) = 0 \<longleftrightarrow> take_bit 8 (drop_bit 8 w) = 0"
  proof
    assume "push_bit 8 (take_bit 8 (drop_bit 8 w)) = 0"
    hence "drop_bit 8 (push_bit 8 (take_bit 8 (drop_bit 8 w))) = 0" by simp
    moreover have "drop_bit 8 (push_bit 8 (take_bit 8 (drop_bit 8 w))) = take_bit 8 (drop_bit 8 w)"
      by (rule bit_word_eqI) (auto simp: bit_simps)
    ultimately show "take_bit 8 (drop_bit 8 w) = 0" by simp
  qed simp
  moreover have "unat (take_bit 8 (drop_bit 8 w)) = unat w div 256 mod 256"
    by (simp add: unsigned_take_bit_eq unat_drop_bit_eq drop_bit_eq_div[where 'a=nat] take_bit_nat_mod)
  ultimately show ?thesis by (metis unat_eq_0)
qed

lemma iter_next_step:
  assumes w: "unat w = start + 256 * cnt + 65536 * r" and c: "0 < cnt" "start + cnt \<le> 128"
  shows "unat (fd_txn_acct_iter_idx w) = start" "w \<noteq> fd_txn_acct_iter_end"
    "unat (fd_txn_acct_iter_next w) = (if cnt = 1 then r else start + 1 + 256 * (cnt - 1) + 65536 * r)"
proof -
  have "unat (take_bit 8 w) = (start + 256 * (cnt + 256 * r)) mod 256"
    by (simp add: unsigned_take_bit_eq w take_bit_nat_mod algebra_simps)
  moreover have "(start + 256 * (cnt + 256 * r)) mod 256 = start" using c by (simp only: mod_mult_self2) simp
  ultimately show "unat (fd_txn_acct_iter_idx w) = start" unfolding fd_txn_acct_iter_idx_def and_FF by (simp only:)
  show "w \<noteq> fd_txn_acct_iter_end" using w c by (auto simp: fd_txn_acct_iter_end_def)
  define v where "v = w + 0x0001 - 0x0100"
  have "v = w - 0xFF" by (simp add: v_def)
  moreover have "0xFF \<le> w" using w c by (simp add: word_le_nat_alt)
  ultimately have v: "unat v = start + 1 + 256 * (cnt - 1) + 65536 * r" using w c by (simp add: unat_sub)
  have "unat v div 256 = cnt - 1 + 256 * r" using c unfolding v by simp
  hence "unat v div 256 mod 256 = cnt - 1" using c by (simp only: mod_mult_self2) simp
  hence more: "v AND 0xFF00 = 0 \<longleftrightarrow> cnt = 1" using c unfolding and_FF00 by auto
  have "cnt = 1 \<Longrightarrow> unat (drop_bit 16 v) = r" using c v by (simp add: unat_drop_bit_eq drop_bit_eq_div[where 'a=nat])
  thus "unat (fd_txn_acct_iter_next w) = (if cnt = 1 then r else start + 1 + 256 * (cnt - 1) + 65536 * r)"
    using more v by (simp add: fd_txn_acct_iter_next_def v_def[symmetric])
qed

lemma iter_loop_ranges:
  "unat w = ranges_word rs \<Longrightarrow> ranges_ok rs \<Longrightarrow> acct_iter_loop w = Some (range_indices rs)"
proof (induction "sum_list (map snd rs)" arbitrary: w rs)
  case 0
  hence "rs = []" by (cases rs) (auto simp: ranges_ok_def)
  thus ?case using 0 by (subst acct_iter_loop.simps) (simp add: range_indices_def fd_txn_acct_iter_end_def unat_eq_0)
next
  case (Suc n)
  then obtain start cnt rs' where rs: "rs = (start, cnt) # rs'" by (cases rs) auto
  have c: "0 < cnt" "start + cnt \<le> 128" using Suc.prems(2) rs by (auto simp: ranges_ok_def)
  note step = iter_next_step[OF _ c, of w "ranges_word rs'"]
  let ?rs = "if cnt = 1 then rs' else (start + 1, cnt - 1) # rs'"
  have "acct_iter_loop (fd_txn_acct_iter_next w) = Some (range_indices ?rs)"
  proof (rule Suc.hyps)
    show "n = sum_list (map snd ?rs)" using Suc.hyps(2) rs c by auto
    show "unat (fd_txn_acct_iter_next w) = ranges_word ?rs" using step(3) Suc.prems(1) rs by simp
    show "ranges_ok ?rs" using Suc.prems(2) rs c by (auto simp: ranges_ok_def)
  qed
  moreover have "start # range_indices ?rs = range_indices rs"
  proof -
    obtain k where k: "cnt = Suc k" using c(1) by (cases cnt) auto
    have "[start ..< start + cnt] = start # [Suc start ..< Suc start + k]" unfolding k by (simp add: upt_conv_Cons)
    thus ?thesis by (cases k) (simp_all add: range_indices_def rs k)
  qed
  ultimately show ?case using step(1,2) Suc.prems(1) rs by (subst acct_iter_loop.simps) simp
qed

section \<open>Choosing the ranges\<close>

text \<open>
  The control words after the categories below an index \<open>bnd\<close>: the ranges so far, which make up the
  included indices below \<open>bnd\<close>, with the last one open when the category before is included.
\<close>

definition ctl_ok :: "(nat \<Rightarrow> bool) \<Rightarrow> nat \<Rightarrow> bool \<Rightarrow> (nat \<times> nat) list \<Rightarrow> u64 \<times> u64 list \<Rightarrow> bool" where
  "ctl_ok inc bnd open rs = (\<lambda>(i, control).
     range_indices rs = filter inc [0 ..< bnd] \<and> (\<forall>(start, cnt) \<in> set rs. start + cnt \<le> bnd)
     \<and> (open \<longrightarrow> rs \<noteq> [] \<and> fst (last rs) + snd (last rs) = bnd)
     \<and> i + 1 = word_of_nat (length rs) \<and> length control = 3 \<and> length rs \<le> 3
     \<and> (\<forall>k < 3. unat (control ! k) = (if k < length rs then fst (rs ! k) + 256 * snd (rs ! k) else 0)))"

lemma range_indices_append [simp]: "range_indices (rs @ qs) = range_indices rs @ range_indices qs"
  by (simp add: range_indices_def)

lemma range_indices_single [simp]: "range_indices [(start, cnt)] = [start ..< start + cnt]"
  by (simp add: range_indices_def)

lemma filter_block:
  assumes "bnd \<le> bnd'" "\<And>i. bnd \<le> i \<Longrightarrow> i < bnd' \<Longrightarrow> inc i = b"
  shows "filter inc [0 ..< bnd'] = filter inc [0 ..< bnd] @ (if b then [bnd ..< bnd'] else [])"
proof -
  have "[0 ..< bnd'] = [0 ..< bnd] @ [bnd ..< bnd']" using assms(1) upt_add_eq_append[of 0 bnd "bnd' - bnd"] by simp
  moreover have "filter inc [bnd ..< bnd'] = (if b then [bnd ..< bnd'] else [])"
    using assms(2) by (auto simp: filter_id_conv filter_empty_conv)
  ultimately show ?thesis by simp
qed

text \<open>One category.\<close>

lemma unat_of_nat64: "n < 2 ^ 64 \<Longrightarrow> unat (word_of_nat n :: u64) = n"
  by (simp add: unsigned_of_nat take_bit_nat_mod)

lemma unat_count: "start + cnt \<le> 128 \<Longrightarrow> unat (w :: u64) = start + 256 * n \<Longrightarrow> start + n \<le> 128 \<Longrightarrow> unat (c :: u64) = cnt \<Longrightarrow>
    unat (w + push_bit 8 c) = start + 256 * (n + cnt)"
proof -
  assume a: "start + cnt \<le> 128" "unat w = start + 256 * n" "start + n \<le> 128" "unat c = cnt"
  have "unat (push_bit 8 c) = 256 * cnt"
    using a(1,4) by (simp add: unsigned_push_bit_eq take_bit_nat_mod push_bit_eq_mult[where 'a=nat])
  thus ?thesis using a by (subst unat_add64) simp_all
qed

lemma include_range_new:
  assumes "ctl_ok inc bnd False rs st" "length rs < 3"
    "unat start = bnd" "unat cnt = bnd' - bnd" "bnd \<le> bnd'" "bnd' \<le> 128" "\<And>i. bnd \<le> i \<Longrightarrow> i < bnd' \<Longrightarrow> inc i"
    "cat AND f \<noteq> 0" "cat AND drop_bit 1 f = 0"
  shows "\<exists>st'. include_range cat f start cnt st = Some st' \<and> ctl_ok inc bnd' True (rs @ [(bnd, bnd' - bnd)]) st'"
proof -
  obtain i control where st: "st = (i, control)" by (cases st)
  have i: "i + 1 = word_of_nat (length rs)" "length control = 3" using assms(1) by (simp_all add: ctl_ok_def st)
  have n: "unat (i + 1) = length rs" using assms(2) by (simp add: i unat_of_nat64)
  have v: "unat (start + push_bit 8 cnt) = bnd + 256 * (bnd' - bnd)"
    using unat_count[of bnd "bnd' - bnd" start 0 cnt] assms by simp
  let ?c = "control[length rs := start + push_bit 8 cnt]"
  have "include_range cat f start cnt st = Some (i + 1, ?c)"
    using assms(2,8,9) n i(2) by (simp add: include_range_def add_count_def st)
  moreover have "i + 1 + 1 = word_of_nat (length (rs @ [(bnd, bnd' - bnd)]))" using i(1) by simp
  moreover have "range_indices (rs @ [(bnd, bnd' - bnd)]) = filter inc [0 ..< bnd']"
    using assms(1,5,7) filter_block[of bnd bnd' inc True] by (simp add: ctl_ok_def st)
  ultimately show ?thesis using assms(1,2,5) v i(2)
    by (fastforce simp: ctl_ok_def st nth_append nth_list_update less_Suc_eq)
qed

lemma include_range_more:
  assumes "ctl_ok inc bnd True rs st" "unat cnt = bnd' - bnd" "bnd \<le> bnd'" "bnd' \<le> 128"
    "\<And>i. bnd \<le> i \<Longrightarrow> i < bnd' \<Longrightarrow> inc i" "cat AND f \<noteq> 0" "cat AND drop_bit 1 f \<noteq> 0"
  shows "\<exists>st' rs'. include_range cat f start cnt st = Some st' \<and> length rs' = length rs \<and> ctl_ok inc bnd' True rs' st'"
proof -
  obtain i control where st: "st = (i, control)" by (cases st)
  have "rs \<noteq> []" using assms(1) by (simp add: ctl_ok_def st)
  then obtain qs s c where rs: "rs = qs @ [(s, c)]" by (metis surj_pair rev_exhaust)
  have i: "i + 1 = word_of_nat (length rs)" "length control = 3" "length rs \<le> 3" "s + c = bnd"
    using assms(1) by (simp_all add: ctl_ok_def st rs)
  have "i = word_of_nat (length qs)" using i(1) by (simp add: rs)
  hence n: "unat i = length qs" using i(3) by (simp add: unat_of_nat64 rs)
  let ?k = "length qs" and ?c = "c + (bnd' - bnd)"
  have "unat (control ! ?k) = s + 256 * c" using assms(1) i(3) by (simp add: ctl_ok_def st rs)
  hence v: "unat (control ! ?k + push_bit 8 cnt) = s + 256 * ?c"
    using unat_count[of s "bnd' - bnd" "control ! ?k" c cnt] assms i(4) by simp
  have "include_range cat f start cnt st = Some (i, control[?k := control ! ?k + push_bit 8 cnt])"
    using assms(6,7) n i(2,3) by (simp add: include_range_def add_count_def st rs)
  moreover have "range_indices (qs @ [(s, ?c)]) = filter inc [0 ..< bnd']"
  proof -
    have "s + ?c = bnd'" using i(4) assms(3) by simp
    hence "[s ..< s + ?c] = [s ..< bnd] @ [bnd ..< bnd']" using i(4) assms(3) upt_add_eq_append[of s bnd "bnd' - bnd"] by (simp only:) simp
    moreover have "range_indices rs = filter inc [0 ..< bnd]" using assms(1) by (simp add: ctl_ok_def st)
    ultimately show ?thesis using filter_block[of bnd bnd' inc True] assms(3,5) i(4) by (simp add: rs)
  qed
  moreover have "ctl_ok inc bnd' True (qs @ [(s, ?c)]) (i, control[?k := control ! ?k + push_bit 8 cnt])"
    using assms(1,3) v i calculation(2) by (fastforce simp: ctl_ok_def st rs nth_append nth_list_update less_Suc_eq)
  ultimately show ?thesis by (intro exI[of _ "(i, control[?k := control ! ?k + push_bit 8 cnt])"] exI[of _ "qs @ [(s, ?c)]"]) (simp add: rs)
qed

lemma include_range_skip:
  assumes "ctl_ok inc bnd b rs st" "bnd \<le> bnd'" "\<And>i. bnd \<le> i \<Longrightarrow> i < bnd' \<Longrightarrow> \<not> inc i" "cat AND f = 0"
  shows "include_range cat f start cnt st = Some st \<and> ctl_ok inc bnd' False rs st"
  using assms filter_block[of bnd bnd' inc False]
  by (cases st) (fastforce simp: include_range_def ctl_ok_def)

text \<open>At most half of the categories, rounded up, open a range.\<close>

definition ctl_inv :: "(nat \<Rightarrow> bool) \<Rightarrow> nat \<Rightarrow> bool \<Rightarrow> nat \<Rightarrow> u64 \<times> u64 list \<Rightarrow> bool" where
  "ctl_inv inc bnd b m st \<longleftrightarrow> (\<exists>rs. ctl_ok inc bnd b rs st \<and> 2 * length rs \<le> m + of_bool b)"

lemma include_range_step:
  assumes "ctl_inv inc bnd (cat AND g \<noteq> 0) m st" "m \<le> 5" "unat start = bnd" "unat cnt = bnd' - bnd" "bnd \<le> bnd'" "bnd' \<le> 128"
    "\<And>i. bnd \<le> i \<Longrightarrow> i < bnd' \<Longrightarrow> inc i = (cat AND f \<noteq> 0)" and "drop_bit 1 f = g" "m' = Suc m"
  shows "\<exists>st'. include_range cat f start cnt st = Some st' \<and> ctl_inv inc bnd' (cat AND f \<noteq> 0) m' st'"
proof -
  obtain rs where rs: "ctl_ok inc bnd (cat AND drop_bit 1 f \<noteq> 0) rs st" "2 * length rs \<le> m + of_bool (cat AND drop_bit 1 f \<noteq> 0)"
    using assms(1,8) by (auto simp: ctl_inv_def)
  consider "cat AND f = 0" | "cat AND f \<noteq> 0" "cat AND drop_bit 1 f = 0" | "cat AND f \<noteq> 0" "cat AND drop_bit 1 f \<noteq> 0" by blast
  thus ?thesis
  proof cases
    case 1
    hence "include_range cat f start cnt st = Some st \<and> ctl_ok inc bnd' False rs st"
      using include_range_skip[OF rs(1) assms(5) _ 1, of start cnt] assms(7) by blast
    moreover have "2 * length rs \<le> Suc m" using rs(2) by (auto simp: of_bool_def split: if_splits)
    ultimately show ?thesis using 1 assms(9) by (auto simp: ctl_inv_def)
  next
    case 2
    have ok: "ctl_ok inc bnd False rs st" using rs(1) 2 by simp
    have len: "2 * length rs \<le> m" using rs(2) 2 by simp
    hence "length rs < 3" using assms(2) by simp
    hence "\<exists>st'. include_range cat f start cnt st = Some st' \<and> ctl_ok inc bnd' True (rs @ [(bnd, bnd' - bnd)]) st'"
      using include_range_new[OF ok _ assms(3-6) _ 2] assms(7) 2(1) by blast
    moreover have "2 * length (rs @ [(bnd, bnd' - bnd)]) \<le> Suc m + 1" using len by simp
    ultimately show ?thesis using 2(1) assms(9) by (auto simp: ctl_inv_def intro!: exI[of _ "rs @ [(bnd, bnd' - bnd)]"])
  next
    case 3
    have ok: "ctl_ok inc bnd True rs st" using rs(1) 3 by simp
    obtain st' rs' where st': "include_range cat f start cnt st = Some st'" "length rs' = length rs" "ctl_ok inc bnd' True rs' st'"
      using include_range_more[OF ok assms(4-6) _ 3, of start] assms(7) 3(1) by blast
    moreover have "2 * length rs' \<le> Suc m + 1" using rs(2) 3 st'(2) by simp
    ultimately show ?thesis using 3(1) assms(9) by (auto simp: ctl_inv_def)
  qed
qed

section \<open>Packing the ranges\<close>

lemma small_bits16: "unat (x :: u64) < 2 ^ m \<Longrightarrow> bit x n \<Longrightarrow> n < m"
proof (rule ccontr)
  assume a: "unat x < 2 ^ m" "bit x n" "\<not> n < m"
  hence "bit (take_bit m (unat x)) n" by (simp add: take_bit_nat_eq_self bit_unsigned_iff)
  thus False using a(3) by (simp add: bit_take_bit_iff)
qed

lemma unat_or_push:
  assumes "unat (x :: u64) < 2 ^ m" "unat (y :: u64) * 2 ^ m + 2 ^ m \<le> 2 ^ 64"
  shows "unat (x OR push_bit m y) = unat x + 2 ^ m * unat y"
proof -
  have "x OR push_bit m y = x + push_bit m y"
    using small_bits16[OF assms(1)] by (intro disjunctive_add[symmetric]) (auto simp: bit_simps dest: leD)
  moreover have "unat y * 2 ^ m < 2 ^ 64" using assms(2) zero_less_power[of "2 :: nat" m] by linarith
  hence "unat (push_bit m y) = 2 ^ m * unat y"
    by (simp add: unsigned_push_bit_eq take_bit_nat_mod push_bit_eq_mult[where 'a=nat] mult.commute)
  ultimately show ?thesis using assms by (simp add: unat_add64 algebra_simps)
qed

lemma unat_pack:
  assumes "unat (x :: u64) < 65536" "unat (y :: u64) < 65536" "unat (z :: u64) < 65536"
  shows "unat (x OR push_bit 16 y OR push_bit 32 z) = unat x + 65536 * (unat y + 65536 * unat z)"
proof -
  have xy: "unat (x OR push_bit 16 y) = unat x + 65536 * unat y" using unat_or_push[of x 16 y] assms by simp
  have "unat (x OR push_bit 16 y) < 2 ^ 32" unfolding xy using assms by simp
  hence "unat ((x OR push_bit 16 y) OR push_bit 32 z) = unat (x OR push_bit 16 y) + 2 ^ 32 * unat z"
    using assms(3) by (intro unat_or_push) simp_all
  thus ?thesis using xy by (simp add: or.assoc algebra_simps)
qed

lemma unat_drop_empty:
  assumes c: "unat c0 = s0 + 256 * n0" "unat c1 = s1 + 256 * n1" "unat c2 = s2 + 256 * n2"
    and n: "s0 + n0 \<le> 128" "s1 + n1 \<le> 128" "s2 + n2 \<le> 128"
  shows "unat (drop_empty_ranges c0 c1 c2) = ranges_word (filter (\<lambda>(s, n). 0 < n) [(s0, n0), (s1, n1), (s2, n2)])"
proof -
  have "c AND 0xFF00 = 0 \<longleftrightarrow> cnt = 0" if "unat c = s + 256 * cnt" "s + cnt \<le> 128" for c :: u64 and s cnt
    using that unfolding and_FF00 by simp
  hence e: "c0 AND 0xFF00 = 0 \<longleftrightarrow> n0 = 0" "c1 AND 0xFF00 = 0 \<longleftrightarrow> n1 = 0" "c2 AND 0xFF00 = 0 \<longleftrightarrow> n2 = 0" using c n by blast+
  have b: "unat c0 < 65536" "unat c1 < 65536" "unat c2 < 65536" using c n by simp_all
  have two: "unat (x OR push_bit 16 y) = unat x + 65536 * unat y" if "unat x < 65536" "unat y < 65536" for x y :: u64
    using unat_pack[of x y 0] that by simp
  note packed = two[OF b(1,2)] two[OF b(1,3)] two[OF b(2,3)] unat_pack[OF b]
  show ?thesis unfolding drop_empty_ranges_def e Let_def
    by (cases "n0 = 0"; cases "n1 = 0"; cases "n2 = 0") (simp_all add: packed c)
qed

lemma ranges_nonempty: "range_indices (filter (\<lambda>(s, n). 0 < n) rs) = range_indices rs"
  by (induction rs) (auto simp: range_indices_def)

lemma ctl_packed:
  assumes "ctl_inv inc bnd b m (i, control)" "bnd \<le> 128"
  shows "acct_iter_loop (drop_empty_ranges (control ! 0) (control ! 1) (control ! 2)) = Some (filter inc [0 ..< bnd])"
proof -
  obtain rs where rs: "ctl_ok inc bnd b rs (i, control)" using assms(1) by (auto simp: ctl_inv_def)
  define qs where "qs = rs @ replicate (3 - length rs) (0, 0)"
  have len: "length qs = 3" using rs by (simp add: qs_def ctl_ok_def)
  have q: "unat (control ! k) = fst (qs ! k) + 256 * snd (qs ! k)" "fst (qs ! k) + snd (qs ! k) \<le> 128" if "k < 3" for k
  proof -
    show "unat (control ! k) = fst (qs ! k) + 256 * snd (qs ! k)" using rs that by (auto simp: ctl_ok_def qs_def nth_append)
    have "fst p + snd p \<le> 128" if "p \<in> set qs" for p using rs assms(2) that by (fastforce simp: ctl_ok_def qs_def)
    thus "fst (qs ! k) + snd (qs ! k) \<le> 128" using that len by simp
  qed
  obtain p0 p1 p2 where p: "qs = [p0, p1, p2]" using len by (auto simp: length_Suc_conv numeral_3_eq_3)
  let ?rs = "filter (\<lambda>(s, n). 0 < n) qs"
  have "unat (drop_empty_ranges (control ! 0) (control ! 1) (control ! 2)) = ranges_word ?rs"
    using unat_drop_empty[OF q(1)[of 0] q(1)[of 1] q(1)[of 2] q(2)[of 0] q(2)[of 1] q(2)[of 2]] by (simp add: p)
  moreover have "ranges_ok ?rs" using q(2)[of 0] q(2)[of 1] q(2)[of 2] by (auto simp: ranges_ok_def p)
  moreover have "range_indices ?rs = filter inc [0 ..< bnd]"
    using rs unfolding ranges_nonempty qs_def by (simp add: ctl_ok_def) (simp add: range_indices_def)
  ultimately show ?thesis using iter_loop_ranges by metis
qed

section \<open>The accounts of a category\<close>

text \<open>The category of each account, from the order of the accounts in the wire format, as a reference.\<close>

definition acct_cat :: "fd_txn \<Rightarrow> nat \<Rightarrow> u32" where
  "acct_cat txn i =
     (let s = unat (txn_signature_cnt txn); q = unat (txn_readonly_signed_cnt txn); r = unat (txn_readonly_unsigned_cnt txn);
          a = unat (txn_acct_addr_cnt txn); u = unat (txn_addr_table_adtl_writable_cnt txn)
      in if i < s - q then FD_TXN_ACCT_CAT_WRITABLE_SIGNER
         else if i < s then FD_TXN_ACCT_CAT_READONLY_SIGNER
         else if i < a - r then FD_TXN_ACCT_CAT_WRITABLE_NONSIGNER_IMM
         else if i < a then FD_TXN_ACCT_CAT_READONLY_NONSIGNER_IMM
         else if i < a + u then FD_TXN_ACCT_CAT_WRITABLE_ALT
         else FD_TXN_ACCT_CAT_READONLY_ALT)"

definition accts_in :: "fd_txn \<Rightarrow> u32 \<Rightarrow> nat list" where
  "accts_in txn cat =
     filter (\<lambda>i. cat AND acct_cat txn i \<noteq> 0) [0 ..< unat (txn_acct_addr_cnt txn) + unat (txn_addr_table_adtl_cnt txn)]"

definition counts_ok :: "fd_txn \<Rightarrow> bool" where
  "counts_ok txn \<longleftrightarrow>
     unat (txn_readonly_signed_cnt txn) \<le> unat (txn_signature_cnt txn)
     \<and> unat (txn_signature_cnt txn) + unat (txn_readonly_unsigned_cnt txn) \<le> unat (txn_acct_addr_cnt txn)
     \<and> unat (txn_addr_table_adtl_writable_cnt txn) \<le> unat (txn_addr_table_adtl_cnt txn)
     \<and> unat (txn_acct_addr_cnt txn) + unat (txn_addr_table_adtl_cnt txn) \<le> FD_TXN_ACCT_ADDR_MAX"

lemma txn_ok_counts: "txn_ok p txn \<Longrightarrow> counts_ok txn"
  using lut_sums(1)[of "txn_address_tables txn"] by (auto simp: txn_ok_def counts_ok_def header_ok_def word_less_nat_alt)

text \<open>The categories in the order of the accounts.\<close>

abbreviation "n_sig txn \<equiv> unat (txn_signature_cnt txn)"
abbreviation "n_ros txn \<equiv> unat (txn_readonly_signed_cnt txn)"
abbreviation "n_rou txn \<equiv> unat (txn_readonly_unsigned_cnt txn)"
abbreviation "n_imm txn \<equiv> unat (txn_acct_addr_cnt txn)"
abbreviation "n_alt txn \<equiv> unat (txn_addr_table_adtl_cnt txn)"
abbreviation "n_altw txn \<equiv> unat (txn_addr_table_adtl_writable_cnt txn)"

lemma acct_inc:
  assumes "counts_ok txn"
  shows "i < n_sig txn - n_ros txn \<Longrightarrow> (cat AND acct_cat txn i \<noteq> 0) = (cat AND 1 \<noteq> 0)"
    "n_sig txn - n_ros txn \<le> i \<Longrightarrow> i < n_sig txn \<Longrightarrow> (cat AND acct_cat txn i \<noteq> 0) = (cat AND 2 \<noteq> 0)"
    "n_sig txn \<le> i \<Longrightarrow> i < n_imm txn - n_rou txn \<Longrightarrow> (cat AND acct_cat txn i \<noteq> 0) = (cat AND 4 \<noteq> 0)"
    "n_imm txn - n_rou txn \<le> i \<Longrightarrow> i < n_imm txn \<Longrightarrow> (cat AND acct_cat txn i \<noteq> 0) = (cat AND 8 \<noteq> 0)"
    "n_imm txn \<le> i \<Longrightarrow> i < n_imm txn + n_altw txn \<Longrightarrow> (cat AND acct_cat txn i \<noteq> 0) = (cat AND 0x10 \<noteq> 0)"
    "n_imm txn + n_altw txn \<le> i \<Longrightarrow> i < n_imm txn + n_alt txn \<Longrightarrow> (cat AND acct_cat txn i \<noteq> 0) = (cat AND 0x20 \<noteq> 0)"
  using assms by (auto simp: acct_cat_def acct_cat_defs counts_ok_def Let_def)

lemma accts_in_blocks:
  assumes ok: "counts_ok txn"
  shows "accts_in txn cat = (if cat AND 1 \<noteq> 0 then [0 ..< n_sig txn - n_ros txn] else [])
    @ (if cat AND 2 \<noteq> 0 then [n_sig txn - n_ros txn ..< n_sig txn] else [])
    @ (if cat AND 4 \<noteq> 0 then [n_sig txn ..< n_imm txn - n_rou txn] else [])
    @ (if cat AND 8 \<noteq> 0 then [n_imm txn - n_rou txn ..< n_imm txn] else [])
    @ (if cat AND 0x10 \<noteq> 0 then [n_imm txn ..< n_imm txn + n_altw txn] else [])
    @ (if cat AND 0x20 \<noteq> 0 then [n_imm txn + n_altw txn ..< n_imm txn + n_alt txn] else [])"
proof -
  define inc where "inc i = (cat AND acct_cat txn i \<noteq> 0)" for i
  note cats = acct_inc[OF ok, of _ cat, folded inc_def]
  have le: "n_sig txn \<le> n_imm txn - n_rou txn" "n_altw txn \<le> n_alt txn" using ok by (auto simp: counts_ok_def)
  have b1: "filter inc [0 ..< n_sig txn - n_ros txn] = filter inc [0 ..< 0] @ (if cat AND 1 \<noteq> 0 then [0 ..< n_sig txn - n_ros txn] else [])"
    by (rule filter_block) (use le cats(1) in auto)
  have b2: "filter inc [0 ..< n_sig txn] = filter inc [0 ..< n_sig txn - n_ros txn] @ (if cat AND 2 \<noteq> 0 then [n_sig txn - n_ros txn ..< n_sig txn] else [])"
    by (rule filter_block) (use le cats(2) in auto)
  have b3: "filter inc [0 ..< n_imm txn - n_rou txn] = filter inc [0 ..< n_sig txn] @ (if cat AND 4 \<noteq> 0 then [n_sig txn ..< n_imm txn - n_rou txn] else [])"
    by (rule filter_block) (use le cats(3) in auto)
  have b4: "filter inc [0 ..< n_imm txn] = filter inc [0 ..< n_imm txn - n_rou txn] @ (if cat AND 8 \<noteq> 0 then [n_imm txn - n_rou txn ..< n_imm txn] else [])"
    by (rule filter_block) (use le cats(4) in auto)
  have b5: "filter inc [0 ..< n_imm txn + n_altw txn] = filter inc [0 ..< n_imm txn] @ (if cat AND 0x10 \<noteq> 0 then [n_imm txn ..< n_imm txn + n_altw txn] else [])"
    by (rule filter_block) (use le cats(5) in auto)
  have b6: "filter inc [0 ..< n_imm txn + n_alt txn] = filter inc [0 ..< n_imm txn + n_altw txn] @ (if cat AND 0x20 \<noteq> 0 then [n_imm txn + n_altw txn ..< n_imm txn + n_alt txn] else [])"
    by (rule filter_block) (use le cats(6) in auto)
  show ?thesis unfolding accts_in_def inc_def[symmetric] b6 b5 b4 b3 b2 b1 by simp
qed

lemma ucast_up: "unat (ucast (b :: u8) :: u64) = unat b" "unat (ucast (h :: u16) :: u64) = unat h"
  using unat_u8[of b] unat_u16[of h] by (simp_all add: unsigned_ucast_eq take_bit_nat_mod)

lemma account_cnt_exact:
  assumes ok: "counts_ok txn"
  shows "unat (fd_txn_account_cnt txn cat) = length (accts_in txn cat)"
proof -
  have le: "n_ros txn \<le> n_sig txn" "n_sig txn + n_rou txn \<le> n_imm txn" "n_altw txn \<le> n_alt txn" "n_imm txn + n_alt txn \<le> 128"
    using ok by (auto simp: counts_ok_def FD_TXN_ACCT_ADDR_MAX_def)
  have sub: "ucast (txn_signature_cnt txn) - ucast (txn_readonly_signed_cnt txn) = (word_of_nat (n_sig txn - n_ros txn) :: u64)"
    "ucast (txn_acct_addr_cnt txn) - ucast (txn_signature_cnt txn) - ucast (txn_readonly_unsigned_cnt txn)
      = (word_of_nat (n_imm txn - n_sig txn - n_rou txn) :: u64)"
    "ucast (txn_addr_table_adtl_cnt txn) - ucast (txn_addr_table_adtl_writable_cnt txn) = (word_of_nat (n_alt txn - n_altw txn) :: u64)"
    using le by (simp_all add: ucast_up of_nat_diff)
  have "fd_txn_account_cnt txn cat = word_of_nat (length (accts_in txn cat))"
    unfolding fd_txn_account_cnt_def acct_cat_defs sub accts_in_blocks[OF ok] using le
    by (simp add: of_nat_diff algebra_simps)
  moreover have "length (accts_in txn cat) \<le> n_imm txn + n_alt txn"
    using length_filter_le[of _ "[0 ..< n_imm txn + n_alt txn]"] by (simp add: accts_in_def)
  ultimately show ?thesis using le(4) by (simp add: unat_of_nat64)
qed

lemma writable_exact:
  assumes "counts_ok txn" "txn_transaction_version txn = FD_TXN_V0 \<or> n_alt txn = 0" "unat idx < n_imm txn + n_alt txn"
  shows "fd_txn_is_writable txn idx \<longleftrightarrow> unat idx \<in> set (accts_in txn FD_TXN_ACCT_CAT_WRITABLE)"
  using assms unfolding accts_in_blocks[OF assms(1)]
  by (auto simp: fd_txn_is_writable_def FD_TXN_ACCT_CAT_WRITABLE_def counts_ok_def word_le_nat_alt simp del: of_nat_unat)

lemma signer_exact:
  assumes "counts_ok txn" "i < n_imm txn + n_alt txn"
  shows "fd_txn_is_signer txn (int i) \<longleftrightarrow> i \<in> set (accts_in txn FD_TXN_ACCT_CAT_SIGNER)"
  using assms unfolding accts_in_blocks[OF assms(1)]
  by (auto simp: fd_txn_is_signer_def FD_TXN_ACCT_CAT_SIGNER_def counts_ok_def simp del: of_nat_unat)

text \<open>A bind that is known to succeed.\<close>

lemma bind_SomeI: "\<exists>x. m = Some x \<and> P x \<Longrightarrow> (\<And>x. P x \<Longrightarrow> \<exists>y. f x = Some y \<and> Q y) \<Longrightarrow> \<exists>y. Option.bind m f = Some y \<and> Q y"
  by auto

lemma iter_init_exact:
  assumes ok: "counts_ok txn"
  shows "\<exists>cur. fd_txn_acct_iter_init txn cat = Some cur \<and> acct_iter_loop cur = Some (accts_in txn cat)"
proof -
  define s where "s = unat (txn_signature_cnt txn)"
  define q where "q = unat (txn_readonly_signed_cnt txn)"
  define r where "r = unat (txn_readonly_unsigned_cnt txn)"
  define a where "a = unat (txn_acct_addr_cnt txn)"
  define t where "t = unat (txn_addr_table_adtl_cnt txn)"
  define u where "u = unat (txn_addr_table_adtl_writable_cnt txn)"
  note cnts = s_def[symmetric] q_def[symmetric] r_def[symmetric] a_def[symmetric] t_def[symmetric] u_def[symmetric]
  define S Q R A T U :: u64 where "S = ucast (txn_signature_cnt txn)" and "Q = ucast (txn_readonly_signed_cnt txn)"
    and "R = ucast (txn_readonly_unsigned_cnt txn)" and "A = ucast (txn_acct_addr_cnt txn)"
    and "T = ucast (txn_addr_table_adtl_cnt txn)" and "U = ucast (txn_addr_table_adtl_writable_cnt txn)"
  note words = S_def[symmetric] Q_def[symmetric] R_def[symmetric] A_def[symmetric] T_def[symmetric] U_def[symmetric]
  have n: "unat S = s" "unat Q = q" "unat R = r" "unat A = a" "unat T = t" "unat U = u"
    unfolding S_def Q_def R_def A_def T_def U_def s_def q_def r_def a_def t_def u_def by (simp_all add: ucast_up)
  have le: "q \<le> s" "s + r \<le> a" "u \<le> t" "a + t \<le> 128" using ok by (simp_all add: counts_ok_def cnts FD_TXN_ACCT_ADDR_MAX_def)
  define inc where "inc i = (cat AND acct_cat txn i \<noteq> 0)" for i
  note inc = acct_inc[OF ok, of _ cat, unfolded cnts, folded inc_def]
  have sub: "unat (S - Q) = s - q" "unat (A - R) = a - r" "unat (A - R - S) = a - r - s" "unat (T - U) = t - u" "unat (A + U) = a + u"
    using le n by (simp_all add: unat_sub word_le_nat_alt unat_add64)
  have init: "ctl_inv inc 0 (cat AND 0 \<noteq> 0) 0 (- 1, [0, 0, 0])"
    by (auto simp: ctl_inv_def ctl_ok_def range_indices_def less_Suc_eq numeral_3_eq_3 intro!: exI[of _ "[]"])
  have step1: "\<exists>st'. include_range cat 1 (0) (S - Q) st = Some st' \<and> ctl_inv inc (s - q) (cat AND 1 \<noteq> 0) 1 st'"
    if "ctl_inv inc (0) (cat AND 0 \<noteq> 0) 0 st" for st
    by (rule include_range_step[OF that]) (use inc(1) le sub n in auto)
  have step2: "\<exists>st'. include_range cat 2 (S - Q) (Q) st = Some st' \<and> ctl_inv inc (s) (cat AND 2 \<noteq> 0) 2 st'"
    if "ctl_inv inc (s - q) (cat AND 1 \<noteq> 0) 1 st" for st
    by (rule include_range_step[OF that]) (use inc(2) le sub n in auto)
  have step3: "\<exists>st'. include_range cat 4 (S) (A - R - S) st = Some st' \<and> ctl_inv inc (a - r) (cat AND 4 \<noteq> 0) 3 st'"
    if "ctl_inv inc (s) (cat AND 2 \<noteq> 0) 2 st" for st
    by (rule include_range_step[OF that]) (use inc(3) le sub n in auto)
  have step4: "\<exists>st'. include_range cat 8 (A - R) (R) st = Some st' \<and> ctl_inv inc (a) (cat AND 8 \<noteq> 0) 4 st'"
    if "ctl_inv inc (a - r) (cat AND 4 \<noteq> 0) 3 st" for st
    by (rule include_range_step[OF that]) (use inc(4) le sub n in auto)
  have step5: "\<exists>st'. include_range cat 0x10 (A) (U) st = Some st' \<and> ctl_inv inc (a + u) (cat AND 0x10 \<noteq> 0) 5 st'"
    if "ctl_inv inc (a) (cat AND 8 \<noteq> 0) 4 st" for st
    by (rule include_range_step[OF that]) (use inc(5) le sub n in auto)
  have step6: "\<exists>st'. include_range cat 0x20 (A + U) (T - U) st = Some st' \<and> ctl_inv inc (a + t) (cat AND 0x20 \<noteq> 0) 6 st'"
    if "ctl_inv inc (a + u) (cat AND 0x10 \<noteq> 0) 5 st" for st
    by (rule include_range_step[OF that]) (use inc(6) le sub n in auto)
  have "\<exists>cur. fd_txn_acct_iter_init txn cat = Some cur \<and> acct_iter_loop cur = Some (filter inc [0 ..< a + t])"
    unfolding fd_txn_acct_iter_init_def acct_cat_defs Let_def words
    apply (rule bind_SomeI[OF step1[OF init]])
    apply (rule bind_SomeI[OF step2], assumption)
    apply (rule bind_SomeI[OF step3], assumption)
    apply (rule bind_SomeI[OF step4], assumption)
    apply (rule bind_SomeI[OF step5], assumption)
    apply (rule bind_SomeI[OF step6], assumption)
    using ctl_packed le by auto
  thus ?thesis by (simp add: accts_in_def cnts inc_def[symmetric])
qed

end
