(* ===== verification/Vote_Account.thy ===== *)
theory Vote_Account
  imports Serdes_Sync
begin

text \<open>
  Vote accounts: reading the tower out of an account never leaves its data, and it returns the votes and the
  root of an account laid out as the vote program stores it.
\<close>

section \<open>Inside the data\<close>

definition desc_ok :: "u8 list \<Rightarrow> fd_vote_acc_desc \<Rightarrow> bool" where
  "desc_ok data desc \<longleftrightarrow>
     fd_vote_acc_desc_vote desc (unat (vad_vote_cnt desc)) \<le> length data \<and> unat (vad_vote_cnt desc) \<le> FD_TOWER_VOTE_MAX
     \<and> (if vad_kind desc = FD_VOTE_ACC_V2 then 12 else 13) \<le> unat (vad_vote_stride desc)"

lemma good_load_at: "off + n \<le> length data \<Longrightarrow> (\<And>w. good (k w) Q) \<Longrightarrow> good (load_at n data off k) Q"
  by (simp add: load_at_def)

lemma layout_good:
  "good (vote_acc_layout data kind) (\<lambda>(p, stride). p \<le> 193 \<and> stride \<le> 13 \<and> (if kind = FD_VOTE_ACC_V2 then 12 else 13) \<le> stride)"
  unfolding vote_acc_layout_def by (intro good_if good_check good_byte) auto

lemma desc_good: "good (fd_vote_acc_desc_of data) (desc_ok data)"
  unfolding fd_vote_acc_desc_of_def
  apply (rule good_check, rule good_load_at, simp)
  apply (rule good_andthen[OF layout_good], rule good_prod)
  apply (rule good_check, rule good_load_at, simp)
  apply (rule good_let, rule good_let)
  apply (rule good_check, rule good_check, rule good_byte, simp)
  subgoal premises prems for kind x p stride cnt vote_cnt hi root_opt
  proof -
    have small: "p + 8 < 65536" "vote_cnt < 256" "stride < 256" "vote_cnt \<le> FD_TOWER_VOTE_MAX"
      using prems by (auto simp: FD_TOWER_VOTE_MAX_def)
    have "desc_ok data \<lparr> vad_kind = kind, vad_votes_off = word_of_nat (p + 8), vad_vote_cnt = word_of_nat vote_cnt,
        vad_vote_stride = word_of_nat stride, vad_root_slot = root_slot \<rparr>" for root_slot
      using small prems by (simp add: desc_ok_def fd_vote_acc_desc_vote_def unat_of_nat16 unat_of_nat8 del: of_nat_add)
    thus ?thesis
      by (intro good_andthen[where P = "\<lambda>_. True"] good_if good_check good_load_at) (use prems in auto)
  qed
  done

lemma vote_acc_vote_reads:
  assumes "desc_ok data desc" "i < unat (vad_vote_cnt desc)"
  shows "\<exists>vote. vote_acc_vote data desc i = Inr vote" "\<exists>vote. vote_acc_vote_with_lat data desc i = Inr vote"
proof -
  have "Suc i * unat (vad_vote_stride desc) \<le> unat (vad_vote_cnt desc) * unat (vad_vote_stride desc)"
    using assms(2) by (intro mult_le_mono1) simp
  hence "fd_vote_acc_desc_vote desc i + (if vad_kind desc = FD_VOTE_ACC_V2 then 0 else 1) + 12 \<le> length data"
    using assms(1) by (auto simp: desc_ok_def fd_vote_acc_desc_vote_def split: if_splits)
  thus "\<exists>vote. vote_acc_vote data desc i = Inr vote" "\<exists>vote. vote_acc_vote_with_lat data desc i = Inr vote"
    by (auto simp: vote_acc_vote_def vote_acc_vote_with_lat_def Let_def load_at_def byte_at_def split: if_splits)
qed

lemma each_vote_map: "(\<And>i. i \<in> set is \<Longrightarrow> read i = Inr (f i)) \<Longrightarrow> each_vote read is = Inr (map f is)"
  by (induction "is") (simp_all add: andthen_def)

lemma each_vote_total: "(\<And>i. i \<in> set is \<Longrightarrow> \<exists>v. read i = Inr v) \<Longrightarrow> \<exists>vs. each_vote read is = Inr vs \<and> length vs = length is"
  by (induction "is") (simp, force simp: andthen_def)

lemma from_vote_acc_total:
  "\<exists>votes root. fd_tower_from_vote_acc data = Inr (votes, root) \<and> length votes \<le> FD_TOWER_VOTE_MAX"
  "\<exists>votes. fd_tower_with_lat_from_vote_acc data = Inr votes \<and> length votes \<le> FD_TOWER_VOTE_MAX"
proof -
  consider line where "fd_vote_acc_desc_of data = Inl (Reject line)" | desc where "fd_vote_acc_desc_of data = Inr desc" "desc_ok data desc"
    using desc_good[of data] unfolding good_def by (metis sum.exhaust txn_fault.exhaust)
  hence "(\<exists>votes root. fd_tower_from_vote_acc data = Inr (votes, root) \<and> length votes \<le> FD_TOWER_VOTE_MAX)
    \<and> (\<exists>votes. fd_tower_with_lat_from_vote_acc data = Inr votes \<and> length votes \<le> FD_TOWER_VOTE_MAX)"
  proof cases
    case 2
    let ?is = "[0 ..< unat (vad_vote_cnt desc)]"
    obtain vs ws where "each_vote (vote_acc_vote data desc) ?is = Inr vs" "each_vote (vote_acc_vote_with_lat data desc) ?is = Inr ws"
        "length vs = length ?is" "length ws = length ?is"
      using each_vote_total[of ?is "vote_acc_vote data desc"] each_vote_total[of ?is "vote_acc_vote_with_lat data desc"] vote_acc_vote_reads[OF 2(2)]
      by (metis atLeastLessThan_iff set_upt)
    thus ?thesis using 2 by (simp add: fd_tower_from_vote_acc_def fd_tower_with_lat_from_vote_acc_def andthen_def desc_ok_def)
  qed (simp add: fd_tower_from_vote_acc_def fd_tower_with_lat_from_vote_acc_def)
  thus "\<exists>votes root. fd_tower_from_vote_acc data = Inr (votes, root) \<and> length votes \<le> FD_TOWER_VOTE_MAX"
    "\<exists>votes. fd_tower_with_lat_from_vote_acc data = Inr votes \<and> length votes \<le> FD_TOWER_VOTE_MAX" by blast+
qed

section \<open>Reading back an account\<close>

text \<open>
  The data of an account: the kind, the fields in front of the votes, the number of votes, each vote (with its
  latency from version 3 on), the root if there is one, and the fields behind.
\<close>

definition vote_entry :: "u32 \<Rightarrow> u8 \<times> fd_tower_vote \<Rightarrow> u8 list" where
  "vote_entry kind = (\<lambda>(latency, vote).
     (if kind = FD_VOTE_ACC_V2 then [] else [latency]) @ le_bytes 8 (vote_slot vote) @ le_bytes 4 (ucast (vote_conf vote) :: u32))"

text \<open>What the reader with latencies makes of an entry.\<close>

definition acc_vote :: "u32 \<Rightarrow> u8 \<times> fd_tower_vote \<Rightarrow> fd_vote_acc_vote" where
  "acc_vote kind = (\<lambda>(latency, vote).
     \<lparr> vav_latency = (if kind = FD_VOTE_ACC_V2 then 0xFF else latency), vav_slot = vote_slot vote, vav_conf = ucast (vote_conf vote) \<rparr>)"

definition acc_front :: "u32 \<Rightarrow> u8 list \<Rightarrow> bool" where
  "acc_front kind pre \<longleftrightarrow>
     (kind = FD_VOTE_ACC_V2 \<or> kind = FD_VOTE_ACC_V3) \<and> length pre = 65
     \<or> kind = FD_VOTE_ACC_V4 \<and> 140 < length pre \<and> length pre = (if pre ! 140 \<noteq> 0 then 189 else 141)"

definition vote_acc_bytes :: "u32 \<Rightarrow> u8 list \<Rightarrow> (u8 \<times> fd_tower_vote) list \<Rightarrow> u64 \<Rightarrow> u8 list \<Rightarrow> u8 list" where
  "vote_acc_bytes kind pre entries root_slot post =
     le_bytes 4 kind @ pre @ le_bytes 8 (word_of_nat (length entries) :: u64) @ concat (map (vote_entry kind) entries)
     @ (if root_slot = ULONG_MAX then [0] else 1 # le_bytes 8 root_slot) @ post"

lemma load_at_append:
  "data = xs @ le_bytes n (w :: 'a::len word) @ ys \<Longrightarrow> length xs = off \<Longrightarrow> LENGTH('a) = 8 * n \<Longrightarrow> load_at n data off k = k w"
  by (auto simp: load_at_def le_load_le_bytes take_bit_word_eq_self)

lemma load_at_drop:
  "drop off data = le_bytes n (w :: 'a::len word) @ ys \<Longrightarrow> off \<le> length data \<Longrightarrow> LENGTH('a) = 8 * n \<Longrightarrow> load_at n data off k = k w"
  by (rule load_at_append[of data "take off data" n w ys]) (metis append_take_drop_id, simp_all)

lemma byte_at_drop_hd: "drop off data = b # ys \<Longrightarrow> byte_at data off k = k b"
  by (metis byte_at_def drop_all list.discI list.sel(1) hd_drop_conv_nth not_le_imp_less)

lemma drop_entries:
  assumes "\<And>e. length (f e) = stride" "i < length es"
  shows "\<exists>rest. drop (i * stride) (concat (map f es) @ ys) = f (es ! i) @ rest"
  using assms(2)
proof (induction es arbitrary: i)
  case (Cons e es)
  show ?case
  proof (cases i)
    case (Suc j)
    have "drop (i * stride) (concat (map f (e # es)) @ ys) = drop (j * stride) (concat (map f es) @ ys)"
      using assms(1)[of e] by (simp add: Suc)
    thus ?thesis using Cons Suc by simp
  qed simp
qed simp

lemma length_vote_entry: "length (vote_entry kind e) = (if kind = FD_VOTE_ACC_V2 then 12 else 13)"
  by (simp add: vote_entry_def split: prod.split)

lemma length_entries: "length (concat (map (vote_entry kind) es)) = length es * (if kind = FD_VOTE_ACC_V2 then 12 else 13)"
  by (induction es) (simp_all add: length_vote_entry)

lemma acc_layout_front:
  assumes "acc_front kind pre"
  shows "vote_acc_layout (le_bytes 4 kind @ pre @ r) kind = Inr (4 + length pre, if kind = FD_VOTE_ACC_V2 then 12 else 13)"
  using assms by (auto simp: acc_front_def vote_acc_layout_def check_def byte_at_def nth_append FD_VOTE_ACC_V2_def FD_VOTE_ACC_V3_def FD_VOTE_ACC_V4_def)

lemma vote_acc_vote_entry:
  assumes "drop (fd_vote_acc_desc_vote desc i) data = vote_entry (vad_kind desc) e @ rest" "unat (vote_conf (snd e)) < 2 ^ 32"
  shows "vote_acc_vote data desc i = Inr (snd e)" "vote_acc_vote_with_lat data desc i = Inr (acc_vote (vad_kind desc) e)"
proof -
  obtain latency vote where e: "e = (latency, vote)" by (cases e)
  define at where "at = fd_vote_acc_desc_vote desc i + (if vad_kind desc = FD_VOTE_ACC_V2 then 0 else 1)"
  have "drop at data = drop (if vad_kind desc = FD_VOTE_ACC_V2 then 0 else 1) (vote_entry (vad_kind desc) e @ rest)"
    unfolding at_def assms(1)[symmetric] by (simp add: add.commute)
  hence slot: "drop at data = le_bytes 8 (vote_slot vote) @ le_bytes 4 (ucast (vote_conf vote) :: u32) @ rest" by (simp add: vote_entry_def e)
  have "drop (at + 8) data = drop 8 (drop at data)" by (simp add: add.commute)
  hence conf: "drop (at + 8) data = le_bytes 4 (ucast (vote_conf vote) :: u32) @ rest" unfolding slot by simp
  have "length (drop (at + 8) data) \<noteq> 0" unfolding conf by simp
  hence le: "at \<le> length data" "at + 8 \<le> length data" by simp_all
  have "ucast (ucast (vote_conf vote) :: u32) = vote_conf vote"
    using assms(2) by (simp add: e word_unat_eq_iff unsigned_ucast_eq unsigned_take_bit_eq take_bit_nat_eq_self)
  thus "vote_acc_vote data desc i = Inr (snd e)"
    unfolding vote_acc_vote_def Let_def at_def[symmetric]
    by (subst load_at_drop[OF slot le(1)], simp, subst load_at_drop[OF conf le(2)], simp_all add: e)
  have latency: "byte_at data (fd_vote_acc_desc_vote desc i) k = k latency" if "vad_kind desc \<noteq> FD_VOTE_ACC_V2" for k :: "u8 \<Rightarrow> 'x parse"
    using assms(1) that by (intro byte_at_drop_hd) (simp add: vote_entry_def e)
  have loads: "load_at 8 data at k = k (vote_slot vote)" "load_at 4 data (at + 8) k' = k' (ucast (vote_conf vote))"
    for k :: "u64 \<Rightarrow> fd_vote_acc_vote parse" and k' :: "u32 \<Rightarrow> fd_vote_acc_vote parse"
    using load_at_drop[OF slot le(1)] load_at_drop[OF conf le(2)] by simp_all
  show "vote_acc_vote_with_lat data desc i = Inr (acc_vote (vad_kind desc) e)"
  proof (cases "vad_kind desc = FD_VOTE_ACC_V2")
    case True
    thus ?thesis using loads
      by (simp add: vote_acc_vote_with_lat_def Let_def at_def acc_vote_def e)
  next
    case False
    thus ?thesis using loads
      by (simp add: vote_acc_vote_with_lat_def Let_def latency at_def acc_vote_def e add.commute)
  qed
qed

lemma read_vote_acc:
  assumes front: "acc_front kind pre" and cnt: "length entries \<le> FD_TOWER_VOTE_MAX"
    and conf: "\<forall>e \<in> set entries. unat (vote_conf (snd e)) < 2 ^ 32"
  shows "fd_tower_from_vote_acc (vote_acc_bytes kind pre entries root_slot post) = Inr (map snd entries, root_slot)"
    "fd_tower_with_lat_from_vote_acc (vote_acc_bytes kind pre entries root_slot post) = Inr (map (acc_vote kind) entries)"
proof -
  let ?stride = "if kind = FD_VOTE_ACC_V2 then 12 else 13 :: nat" and ?n = "length entries"
  let ?root = "if root_slot = ULONG_MAX then [0] else 1 # le_bytes 8 root_slot" and ?es = "concat (map (vote_entry kind) entries)"
  define data where "data = vote_acc_bytes kind pre entries root_slot post"
  define off hi where "off = 4 + length pre + 8" and "hi = off + ?n * ?stride"
  have d: "data = le_bytes 4 kind @ pre @ le_bytes 8 (word_of_nat ?n :: u64) @ ?es @ ?root @ post" by (simp add: data_def vote_acc_bytes_def)
  have n: "unat (word_of_nat ?n :: u64) = ?n" "?n \<le> 31" "min ?n FD_TOWER_VOTE_MAX = ?n" using cnt by (simp_all add: FD_TOWER_VOTE_MAX_def unsigned_of_nat take_bit_nat_eq_self)
  have pre: "length pre \<le> 189" using front by (auto simp: acc_front_def split: if_splits)
  have at_hi: "drop hi data = ?root @ post" "hi \<le> length data"
    by (simp_all add: d hi_def off_def length_entries add.assoc)
  have room: "off \<le> hi" "hi + 1 \<le> length data" "root_slot \<noteq> ULONG_MAX \<Longrightarrow> hi + 9 \<le> length data"
    by (simp_all add: d hi_def off_def length_entries)
  have loads: "load_at 4 data 0 k4 = k4 kind" "load_at 8 data (4 + length pre) k8 = k8 (word_of_nat ?n :: u64)"
    for k4 :: "u32 \<Rightarrow> 'a parse" and k8 :: "u64 \<Rightarrow> 'b parse"
  proof -
    show "load_at 4 data 0 k4 = k4 kind"
      by (rule load_at_append[of data "[]" 4 kind "pre @ le_bytes 8 (word_of_nat ?n :: u64) @ ?es @ ?root @ post"]) (simp_all add: d)
    show "load_at 8 data (4 + length pre) k8 = k8 (word_of_nat ?n)"
      by (rule load_at_append[of data "le_bytes 4 kind @ pre" 8 _ "?es @ ?root @ post"]) (simp_all add: d)
  qed
  have lay: "vote_acc_layout data kind = Inr (4 + length pre, ?stride)" unfolding d by (rule acc_layout_front[OF front])
  let ?desc = "\<lparr> vad_kind = kind, vad_votes_off = word_of_nat off, vad_vote_cnt = word_of_nat ?n, vad_vote_stride = word_of_nat ?stride,
    vad_root_slot = root_slot \<rparr>"
  have root: "byte_at data hi (\<lambda>root_opt. andthen
       (if root_opt = 1 then check 177 (hi + 9 \<le> length data) (load_at 8 data (hi + 1) Inr)
        else if root_opt \<noteq> 0 then Inl (Reject 180) else Inr ULONG_MAX) k) = k root_slot" for k :: "u64 \<Rightarrow> 'a parse"
  proof (cases "root_slot = ULONG_MAX")
    case True
    thus ?thesis using at_hi by (subst byte_at_drop_hd[of hi data 0 post]) (simp_all add: andthen_def)
  next
    case False
    hence hd: "drop hi data = 1 # le_bytes 8 root_slot @ post" using at_hi(1) by simp
    hence "drop (hi + 1) data = le_bytes 8 root_slot @ post" by (metis drop_drop add.commute drop0 drop_Suc_Cons One_nat_def)
    hence "load_at 8 data (hi + 1) Inr = (Inr root_slot :: u64 parse)" using room(2) by (rule load_at_drop) simp
    thus ?thesis unfolding byte_at_drop_hd[OF hd] using room(3)[OF False] by (simp add: andthen_def check_def)
  qed
  have fold: "4 + length pre + 8 = off" "off + ?n * ?stride = hi" by (simp_all add: off_def hi_def)
  have four: "4 \<le> length data" "off \<le> length data" using room by (simp_all add: off_def)
  have desc: "fd_vote_acc_desc_of data = Inr ?desc"
    unfolding fd_vote_acc_desc_of_def loads lay andthen_def sum.case prod.case Let_def
    unfolding andthen_def[symmetric] n fold root using four room(2) at_hi(2) by (simp add: check_def)
  have small: "unat (word_of_nat off :: u16) = off" "unat (word_of_nat ?n :: u8) = ?n" "unat (word_of_nat ?stride :: u8) = ?stride"
    using pre n by (simp_all add: off_def unat_of_nat16 unat_of_nat8 del: of_nat_add)
  have entry: "vote_acc_vote data ?desc i = Inr (map snd entries ! i)" "vote_acc_vote_with_lat data ?desc i = Inr (map (acc_vote kind) entries ! i)"
    if i: "i < ?n" for i
  proof -
    have "drop off data = ?es @ ?root @ post" by (simp add: d off_def)
    hence at: "drop (i * ?stride + off) data = drop (i * ?stride) (?es @ ?root @ post)" by (metis drop_drop)
    obtain rest where "drop (i * ?stride) (?es @ ?root @ post) = vote_entry kind (entries ! i) @ rest"
      using drop_entries[of "vote_entry kind", OF length_vote_entry i] by blast
    moreover have "fd_vote_acc_desc_vote ?desc i = i * ?stride + off"
      unfolding fd_vote_acc_desc_vote_def fd_vote_acc_desc.simps small by (simp add: add.commute)
    ultimately have "drop (fd_vote_acc_desc_vote ?desc i) data = vote_entry (vad_kind ?desc) (entries ! i) @ rest"
      using at by simp
    thus "vote_acc_vote data ?desc i = Inr (map snd entries ! i)" "vote_acc_vote_with_lat data ?desc i = Inr (map (acc_vote kind) entries ! i)"
      using vote_acc_vote_entry[of ?desc i data "entries ! i" rest] conf i by simp_all
  qed
  have "each_vote (vote_acc_vote data ?desc) [0 ..< ?n] = Inr (map (\<lambda>i. map snd entries ! i) [0 ..< length (map snd entries)])"
    "each_vote (vote_acc_vote_with_lat data ?desc) [0 ..< ?n] = Inr (map (\<lambda>i. map (acc_vote kind) entries ! i) [0 ..< length (map (acc_vote kind) entries)])"
    using each_vote_map[of "[0 ..< ?n]" "vote_acc_vote data ?desc" "\<lambda>i. map snd entries ! i"]
      each_vote_map[of "[0 ..< ?n]" "vote_acc_vote_with_lat data ?desc" "\<lambda>i. map (acc_vote kind) entries ! i"] entry by simp_all
  hence each: "each_vote (vote_acc_vote data ?desc) [0 ..< ?n] = Inr (map snd entries)"
    "each_vote (vote_acc_vote_with_lat data ?desc) [0 ..< ?n] = Inr (map (acc_vote kind) entries)" unfolding map_nth by simp_all
  show "fd_tower_from_vote_acc (vote_acc_bytes kind pre entries root_slot post) = Inr (map snd entries, root_slot)"
    "fd_tower_with_lat_from_vote_acc (vote_acc_bytes kind pre entries root_slot post) = Inr (map (acc_vote kind) entries)"
    unfolding data_def[symmetric] using each
    by (simp_all add: fd_tower_from_vote_acc_def fd_tower_with_lat_from_vote_acc_def desc small andthen_def)
qed

end
