(* ===== verification/Txn_Theorems.thy ===== *)
theory Txn_Theorems
  imports Txn_Iter Vote_Account Vote_Txn
begin

text \<open>
  The theorems on transactions: parsing, the accounts of a parsed transaction, the tower sync instruction,
  and the vote transaction from the tower to the reader.
\<close>

section \<open>Parsing\<close>

text \<open>A transaction with two signers and one instruction.\<close>

definition example_txn :: "u8 list" where
  "example_txn = txn_bytes 2 1 1 4 (replicate 128 7) (replicate 128 9) (replicate 32 5) 3 [1, 2] [42]"

lemma example_parse:
  "\<exists>txn. fd_txn_parse example_txn = Inr (txn, length example_txn, fd_txn_footprint 1 0)
     \<and> txn_signature_cnt txn = 2 \<and> txn_readonly_signed_cnt txn = 1 \<and> txn_readonly_unsigned_cnt txn = 1 \<and> txn_acct_addr_cnt txn = 4
     \<and> txn_addr_table_adtl_cnt txn = 0 \<and> txn_addr_table_adtl_writable_cnt txn = 0"
proof -
  have "parts_ok 2 1 1 4 (replicate 128 7) (replicate 128 9) (replicate 32 5) 3 [1, 2] [42]"
    by (simp add: parts_ok_def txn_bytes_def txn_head_def length_enc)
  thus ?thesis unfolding example_txn_def by (simp add: parse_built)
qed

text \<open>
  C25: The parser reads no byte outside the payload, whatever it is.  When it accepts, the result is well formed:
  the signatures, the addresses, the blockhash, every instruction and every lookup table lie inside the
  payload, the counts are those of the lists and within their limits, every account index is below the number
  of accounts, and the result fits the buffer the caller reserved.
\<close>

theorem txn_parse_well_formed:
  "fd_txn_parse_core p exact \<noteq> Inl Undefined
   \<and> (\<forall>txn n fp. fd_txn_parse_core p exact = Inr (txn, n, fp) \<longrightarrow>
        txn_ok p txn \<and> n \<le> length p \<and> (exact \<longrightarrow> n = length p) \<and> FD_TXN_MIN_SERIALIZED_SZ \<le> n \<and> length p \<le> FD_TXN_MTU
        \<and> fp = fd_txn_footprint (length (txn_instr txn)) (length (txn_address_tables txn)) \<and> fp \<le> FD_TXN_MAX_SZ)"
  using parse_core_good[of p exact] by (fastforce simp: good_def)

theorem txn_parse_well_formed_witness:
  "\<exists>txn fp. fd_txn_parse_core example_txn True = Inr (txn, length example_txn, fp) \<and> txn_ok example_txn txn \<and> fp \<le> FD_TXN_MAX_SZ"
  using example_parse txn_parse_well_formed[of example_txn True] unfolding fd_txn_parse_def by blast

text \<open>
  C31: On a parsed transaction the iterator over a set of categories never leaves its array of three ranges, ends,
  and yields the indices of the accounts of these categories, each once and in order; the count agrees with
  it; and an index is writable, or a signer, exactly when the iterator over the categories of that name yields
  it.
\<close>

theorem acct_iter_exact:
  assumes "fd_txn_parse_core p exact = Inr (txn, n, fp)"
  shows "(\<exists>cur. fd_txn_acct_iter_init txn cat = Some cur \<and> acct_iter_loop cur = Some (accts_in txn cat))
    \<and> unat (fd_txn_account_cnt txn cat) = length (accts_in txn cat)
    \<and> (unat idx < unat (txn_acct_addr_cnt txn) + unat (txn_addr_table_adtl_cnt txn) \<longrightarrow>
        (fd_txn_is_writable txn idx \<longleftrightarrow> unat idx \<in> set (accts_in txn FD_TXN_ACCT_CAT_WRITABLE))
        \<and> (fd_txn_is_signer txn (int (unat idx)) \<longleftrightarrow> unat idx \<in> set (accts_in txn FD_TXN_ACCT_CAT_SIGNER)))"
proof -
  have ok: "txn_ok p txn" using parse_core_good[of p exact] assms by (auto simp: good_def)
  have v: "txn_transaction_version txn = FD_TXN_V0 \<or> unat (txn_addr_table_adtl_cnt txn) = 0"
    using ok by (auto simp: txn_ok_def header_ok_def)
  note c = txn_ok_counts[OF ok]
  show ?thesis using iter_init_exact[OF c] account_cnt_exact[OF c] writable_exact[OF c v] signer_exact[OF c] by blast
qed

theorem acct_iter_exact_witness:
  "\<exists>txn cur. fd_txn_parse example_txn = Inr (txn, length example_txn, fd_txn_footprint 1 0)
     \<and> fd_txn_acct_iter_init txn FD_TXN_ACCT_CAT_WRITABLE = Some cur \<and> acct_iter_loop cur = Some [0, 2]"
proof -
  obtain txn where t: "fd_txn_parse example_txn = Inr (txn, length example_txn, fd_txn_footprint 1 0)"
      "txn_signature_cnt txn = 2" "txn_readonly_signed_cnt txn = 1" "txn_readonly_unsigned_cnt txn = 1" "txn_acct_addr_cnt txn = 4"
      "txn_addr_table_adtl_cnt txn = 0" "txn_addr_table_adtl_writable_cnt txn = 0"
    using example_parse by blast
  have "accts_in txn FD_TXN_ACCT_CAT_WRITABLE = [0, 2]"
    by (simp add: accts_in_def acct_cat_def t(2-7) acct_cat_defs FD_TXN_ACCT_CAT_WRITABLE_def Let_def upt_rec)
  thus ?thesis using acct_iter_exact[OF t(1)[unfolded fd_txn_parse_def], of FD_TXN_ACCT_CAT_WRITABLE 0] t(1) by metis
qed

section \<open>The tower sync instruction\<close>

text \<open>
  C29: A tower sync with at most 31 lockouts is serialized into at most 423 bytes whenever the buffer has that
  room, and reading these bytes, with anything behind, gives it back, the timestamp of the caller's record
  kept when none is sent.  The encoding is canonical: whatever buffer is read, the bytes consumed are the
  serialization of the result.
\<close>

theorem tower_sync_roundtrip:
  assumes "sync_ok serde" "423 \<le> buf_max"
  shows "(\<exists>out. fd_compact_tower_sync_ser serde buf_max = Inr out \<and> length out \<le> 423
      \<and> fd_compact_tower_sync_de old (out @ rest)
          = Some (if cts_timestamp_option serde = 0 then serde\<lparr> cts_timestamp := cts_timestamp old \<rparr> else serde))
    \<and> (\<forall>buf serde'. fd_compact_tower_sync_de old buf = Some serde' \<longrightarrow>
        (\<exists>out behind. fd_compact_tower_sync_ser serde' buf_max = Inr out \<and> buf = out @ behind))"
proof
  let ?read = "if cts_timestamp_option serde = 0 then serde\<lparr> cts_timestamp := cts_timestamp old \<rparr> else serde"
  have ok: "sync_ok ?read" "tower_sync_bytes ?read = tower_sync_bytes serde" using assms(1) by (auto simp: sync_ok_def tower_sync_bytes_def)
  have ser: "fd_compact_tower_sync_ser s buf_max = Inr (tower_sync_bytes s)" if "sync_ok s" for s
    using sync_ser_Inr[OF that] length_tower_sync_bytes[OF that] assms(2) by simp
  have "fd_compact_tower_sync_de old (tower_sync_bytes ?read @ rest) = Some ?read" by (rule sync_de_bytes[OF ok(1)]) simp
  thus "\<exists>out. fd_compact_tower_sync_ser serde buf_max = Inr out \<and> length out \<le> 423 \<and> fd_compact_tower_sync_de old (out @ rest) = Some ?read"
    using ser[OF assms(1)] length_tower_sync_bytes[OF assms(1)] unfolding ok(2) by blast
  show "\<forall>buf serde'. fd_compact_tower_sync_de old buf = Some serde' \<longrightarrow>
      (\<exists>out behind. fd_compact_tower_sync_ser serde' buf_max = Inr out \<and> buf = out @ behind)"
    using sync_de_accepts ser by blast
qed

definition example_sync :: fd_compact_tower_sync_serde where
  "example_sync = serde_null\<lparr> cts_root := 300, cts_lockouts_cnt := 2,
     cts_lockouts := [\<lparr> cl_offset = 200, cl_confirmation_count = 2 \<rparr>, \<lparr> cl_offset = 1, cl_confirmation_count = 1 \<rparr>],
     cts_timestamp_option := 1, cts_timestamp := 77 \<rparr>"

theorem tower_sync_roundtrip_witness:
  "\<exists>out. fd_compact_tower_sync_ser example_sync 500 = Inr out \<and> fd_compact_tower_sync_de serde_null (out @ [9]) = Some example_sync"
proof -
  have "sync_ok example_sync" by (simp add: sync_ok_def example_sync_def FD_TOWER_VOTE_MAX_def)
  from tower_sync_roundtrip[OF this, of 500 serde_null "[9]"] show ?thesis by (auto simp: example_sync_def)
qed

text \<open>
  C40: Serialization into a buffer that ends right behind the root writes past it: the length of the lockouts, and
  each of their offsets, is written without a check of the room left.  Shorter buffers give the error that the
  header promises.
\<close>

theorem tower_sync_ser_overruns:
  assumes "buf_max \<le> 8"
  shows "fd_compact_tower_sync_ser serde buf_max = Inl (if buf_max < 8 then Ser_error else Overrun)"
  using assms by (simp add: fd_compact_tower_sync_ser_def ser_field_def ser_raw_def ser_short_enc length_enc)

theorem tower_sync_ser_overruns_witness: "fd_compact_tower_sync_ser example_sync 8 = Inl Overrun"
  using tower_sync_ser_overruns[of 8 example_sync] by simp

section \<open>Vote accounts\<close>

text \<open>
  C30: Reading the tower of a vote account, with or without the latencies, never leaves the account's data,
  whatever it holds, and gives at most 31 votes.  From an account of version 2, 3 or 4 with at most 31 votes it
  gives exactly the votes and the root that the account stores, and counting the account adds a voter with them.
\<close>

theorem vote_account_read:
  assumes "acc_front kind pre" "length entries \<le> FD_TOWER_VOTE_MAX" "\<forall>e \<in> set entries. unat (vote_conf (snd e)) < 2 ^ 32"
  shows "fd_tower_from_vote_acc (vote_acc_bytes kind pre entries root_slot post) = Inr (map snd entries, root_slot)
    \<and> fd_tower_with_lat_from_vote_acc (vote_acc_bytes kind pre entries root_slot post) = Inr (map (acc_vote kind) entries)
    \<and> fd_tower_count_vote tower acc stake (vote_acc_bytes kind pre entries root_slot post)
        = Inr (tower\<lparr> t_vtrs := t_vtrs tower @ [\<lparr> tv_vote_acc = acc, tv_stake = stake, tv_votes = map snd entries, tv_root = root_slot \<rparr>] \<rparr>)
    \<and> (\<exists>votes root. fd_tower_from_vote_acc data = Inr (votes, root) \<and> length votes \<le> FD_TOWER_VOTE_MAX)
    \<and> (\<exists>votes. fd_tower_with_lat_from_vote_acc data = Inr votes \<and> length votes \<le> FD_TOWER_VOTE_MAX)"
  using read_vote_acc[OF assms] from_vote_acc_total by (simp add: fd_tower_count_vote_def andthen_def)

theorem vote_account_read_witness:
  "fd_tower_from_vote_acc (vote_acc_bytes FD_VOTE_ACC_V3 (replicate 65 0) [(1, \<lparr> vote_slot = 5, vote_conf = 2 \<rparr>), (1, \<lparr> vote_slot = 6, vote_conf = 1 \<rparr>)] 4 [])
     = Inr ([\<lparr> vote_slot = 5, vote_conf = 2 \<rparr>, \<lparr> vote_slot = 6, vote_conf = 1 \<rparr>], 4)"
  using vote_account_read[of FD_VOTE_ACC_V3 "replicate 65 0" "[(1, \<lparr> vote_slot = 5, vote_conf = 2 \<rparr>), (1, \<lparr> vote_slot = 6, vote_conf = 1 \<rparr>)]" 4 "[]"]
  by (simp add: acc_front_def FD_TOWER_VOTE_MAX_def)

section \<open>The vote transaction\<close>

lemma vote_txn_reads:
  assumes "length ident = 32" "length auth = 32" "length acc = 32" "length blockhash = 32" "length txn_out = FD_TXN_MTU"
    "length (t_votes tower) \<le> FD_TOWER_VOTE_MAX"
    "sorted ((if t_root tower = ULONG_MAX then 0 else t_root tower) # map vote_slot (t_votes tower))"
  shows "\<exists>meta' payload sz txn fp.
    fd_tower_to_vote_txn tower bank_hash block_id blockhash ident auth acc timestamp meta txn_out = Inr (meta', payload, sz)
    \<and> sz \<le> FD_TXN_MTU \<and> length payload = FD_TXN_MTU \<and> fd_txn_parse (take sz payload) = Inr (txn, sz, fp)
    \<and> fd_txn_parse_simple_vote txn (take sz payload)
        = Inr (Some (ident, acc, last ((if t_root tower = ULONG_MAX then 0 else t_root tower) # map vote_slot (t_votes tower))))"
proof -
  let ?sigs = "take (64 * unat (vote_sigs ident auth)) (drop 1 txn_out)"
  obtain meta' payload sz where b: "fd_tower_to_vote_txn tower bank_hash block_id blockhash ident auth acc timestamp meta txn_out = Inr (meta', payload, sz)"
      "length payload = FD_TXN_MTU" "take sz payload = vote_bytes ident auth acc ?sigs blockhash (vote_data tower bank_hash block_id timestamp)"
      "sz \<le> FD_TXN_MTU"
    using vote_txn_built[OF assms(1-6), of bank_hash block_id timestamp meta] unfolding ends_in_def by blast
  have "length ?sigs = 64 * unat (vote_sigs ident auth)" using assms(5) by (simp add: vote_sigs_def FD_TXN_MTU_def)
  from read_vote[OF assms(1-4) this assms(6,7), of bank_hash block_id timestamp]
  have "\<exists>txn fp. fd_txn_parse (take sz payload) = Inr (txn, length (take sz payload), fp) \<and> fd_txn_parse_simple_vote txn (take sz payload)
        = Inr (Some (ident, acc, last ((if t_root tower = ULONG_MAX then 0 else t_root tower) # map vote_slot (t_votes tower))))"
    unfolding b(3) by blast
  moreover have "length (take sz payload) = sz" using b(2,4) by simp
  ultimately show ?thesis using b(1,2,4) by metis
qed

text \<open>
  C23: The transaction built from a tower whose votes rise is complete: the builder writes only inside the buffer,
  the parser accepts the bytes, and the reader finds the identity, the vote account and the slot of the last
  vote, one signer or two.
\<close>

theorem vote_txn_roundtrip:
  assumes "length ident = 32" "length auth = 32" "length acc = 32" "length blockhash = 32" "length txn_out = FD_TXN_MTU"
    "length (t_votes tower) \<le> FD_TOWER_VOTE_MAX"
    "sorted ((if t_root tower = ULONG_MAX then 0 else t_root tower) # map vote_slot (t_votes tower))"
  shows "\<exists>meta' payload sz txn fp.
    fd_tower_to_vote_txn tower bank_hash block_id blockhash ident auth acc timestamp meta txn_out = Inr (meta', payload, sz)
    \<and> sz \<le> FD_TXN_MTU \<and> length payload = FD_TXN_MTU \<and> fd_txn_parse (take sz payload) = Inr (txn, sz, fp)
    \<and> fd_txn_parse_simple_vote txn (take sz payload)
        = Inr (Some (ident, acc, last ((if t_root tower = ULONG_MAX then 0 else t_root tower) # map vote_slot (t_votes tower))))"
  by (rule vote_txn_reads[OF assms])

definition example_tower :: fd_tower where
  "example_tower = \<lparr> t_votes = [\<lparr> vote_slot = 5, vote_conf = 2 \<rparr>, \<lparr> vote_slot = 6, vote_conf = 1 \<rparr>], t_root = 4, t_blocks = (\<lambda>_. None), t_blk_free = 0,
     t_vtrs = [], t_lck = (\<lambda>_. []), t_lck_free = 0, t_stk_map = (\<lambda>_. None), t_stk_pool = (\<lambda>_. \<lparr> sv_addr = 0, sv_slot = 0, sv_prev = None, sv_stake = 0 \<rparr>), t_stk_free = [],
     t_stk_slot = (\<lambda>_. None), t_used_acc = {} \<rparr>"

definition meta_null :: fd_txn where
  "meta_null = \<lparr> txn_transaction_version = 0, txn_signature_cnt = 0, txn_signature_off = 0, txn_message_off = 0, txn_readonly_signed_cnt = 0,
     txn_readonly_unsigned_cnt = 0, txn_acct_addr_cnt = 0, txn_acct_addr_off = 0, txn_recent_blockhash_off = 0, txn_addr_table_lookup_cnt = 0,
     txn_addr_table_adtl_writable_cnt = 0, txn_addr_table_adtl_cnt = 0, txn_instr_cnt = 0, txn_instr = [], txn_address_tables = [] \<rparr>"

theorem vote_txn_roundtrip_witness:
  "\<exists>meta' payload sz txn fp.
    fd_tower_to_vote_txn example_tower 1 2 (replicate 32 3) (replicate 32 4) (replicate 32 5) (replicate 32 6) 7 meta_null (replicate FD_TXN_MTU 0)
      = Inr (meta', payload, sz)
    \<and> fd_txn_parse (take sz payload) = Inr (txn, sz, fp)
    \<and> fd_txn_parse_simple_vote txn (take sz payload) = Inr (Some (replicate 32 4, replicate 32 6, 6))"
proof -
  have "sorted ((if t_root example_tower = ULONG_MAX then 0 else t_root example_tower) # map vote_slot (t_votes example_tower))"
    "last ((if t_root example_tower = ULONG_MAX then 0 else t_root example_tower) # map vote_slot (t_votes example_tower)) = 6"
    "length (t_votes example_tower) \<le> FD_TOWER_VOTE_MAX"
    by (simp_all add: example_tower_def FD_TOWER_VOTE_MAX_def)
  thus ?thesis
    using vote_txn_roundtrip[of "replicate 32 4" "replicate 32 5" "replicate 32 6" "replicate 32 3" "replicate FD_TXN_MTU 0" example_tower 1 2 7 meta_null]
    by (simp only: length_replicate simp_thms) blast
qed

end
