(* ===== verification/Keyguard_Theorems.thy ===== *)
theory Keyguard_Theorems
  imports Keyguard_Vote Txn_Theorems
begin

text \<open>
  The theorems on the keyguard: it answers every request from the request's own bytes, names one type of payload,
  and stands between the tower, which asks for votes to be signed, and every other transaction.
\<close>

text \<open>
  C32: Whatever the request, its role and its sign type, the decision is 0 or 1: no matcher and no authorizer reads
  outside the request.
\<close>

theorem keyguard_decides: "\<exists>b. fd_keyguard_payload_authorize authority data role sign_type = Inr b"
  using authorize_defined[of authority data role sign_type] by (simp add: defined_def)

text \<open>
  C33: A payload matches at most one type, but for the two pairs that the code tells apart by role: gossip values
  and repair messages, and shreds and pings.  So a request cannot pass as something else than what it is.
\<close>

theorem keyguard_one_type:
  "\<exists>pm. fd_keyguard_payload_match data sign_type = Inr pm
     \<and> (pm AND NOT (FD_KEYGUARD_PAYLOAD_GOSSIP OR FD_KEYGUARD_PAYLOAD_REPAIR) = 0
        \<or> pm AND NOT (FD_KEYGUARD_PAYLOAD_SHRED OR FD_KEYGUARD_PAYLOAD_PING) = 0 \<or> (\<exists>k. pm = push_bit k 1))"
  using defined_match[of data sign_type] unambiguous[of data sign_type] unfolding defined_def by blast

text \<open>
  C21: No transaction slips past: the message of every transaction that the parser accepts, legacy or versioned, is
  recognised as a transaction and as nothing else, so no role but the two that send transactions gets it signed.
\<close>

theorem keyguard_detects_txns:
  assumes "fd_txn_parse p = Inr (txn, n, fp)"
  shows "fd_keyguard_payload_match (drop (unat (txn_message_off txn)) p) FD_KEYGUARD_SIGN_TYPE_ED25519 = Inr FD_KEYGUARD_PAYLOAD_TXN"
  using defined_match[of "drop (unat (txn_message_off txn)) p" FD_KEYGUARD_SIGN_TYPE_ED25519] mask_of_txn[OF _ txn_recognised[OF assms]]
  unfolding defined_def by blast

theorem keyguard_detects_txns_witness:
  "\<exists>txn. fd_txn_parse example_txn = Inr (txn, length example_txn, fd_txn_footprint 1 0)
    \<and> fd_keyguard_payload_match (drop (unat (txn_message_off txn)) example_txn) FD_KEYGUARD_SIGN_TYPE_ED25519 = Inr FD_KEYGUARD_PAYLOAD_TXN"
  using example_parse keyguard_detects_txns[of example_txn] by blast

lemma vote_authorized:
  assumes "length ident = 32" "length auth = 32" "length acc = 32" "length blockhash = 32" "length txn_out = FD_TXN_MTU"
    "length (t_votes tower) \<le> FD_TOWER_VOTE_MAX"
  shows "\<exists>meta' payload sz txn fp.
    fd_tower_to_vote_txn tower bank_hash block_id blockhash ident auth acc timestamp meta txn_out = Inr (meta', payload, sz)
    \<and> fd_txn_parse (take sz payload) = Inr (txn, sz, fp)
    \<and> fd_keyguard_payload_authorize \<lparr> identity_pubkey = ident \<rparr> (drop (unat (txn_message_off txn)) (take sz payload))
        FD_KEYGUARD_ROLE_TXSEND FD_KEYGUARD_SIGN_TYPE_ED25519 = Inr True"
proof -
  let ?sigs = "take (64 * unat (vote_sigs ident auth)) (drop 1 txn_out)" and ?data = "vote_data tower bank_hash block_id timestamp"
  obtain meta' payload sz where b: "fd_tower_to_vote_txn tower bank_hash block_id blockhash ident auth acc timestamp meta txn_out = Inr (meta', payload, sz)"
      "length payload = FD_TXN_MTU" "take sz payload = vote_bytes ident auth acc ?sigs blockhash ?data" "sz \<le> FD_TXN_MTU"
    using vote_txn_built[OF assms, of bank_hash block_id timestamp meta] unfolding ends_in_def by blast
  have sigs: "length ?sigs = 64 * unat (vote_sigs ident auth)" using assms(5) by (simp add: vote_sigs_def FD_TXN_MTU_def)
  have data: "length ?data \<le> 427" "4 \<le> length ?data" "?data ! 0 = 14"
    using length_vote_data[OF assms(6)] by (simp_all add: vote_data_def FD_VOTE_IX_KIND_TOWER_SYNC_def nth_append le_bytes_def)
  have len: "length (take sz payload) = sz" using b(2,4) by simp
  obtain txn fp where t: "fd_txn_parse (take sz payload) = Inr (txn, sz, fp)" "unat (txn_message_off txn) = 1 + 64 * unat (vote_sigs ident auth)"
    using parse_vote[OF assms(1-4) data(1) sigs] unfolding b(3)[symmetric] len by blast
  let ?d = "drop (unat (txn_message_off txn)) (take sz payload)"
  obtain s where "vote_shape ident ?d (unat (vote_sigs ident auth)) s"
    using vote_message_shape[OF assms(1-4) data sigs] unfolding t(2) b(3) by blast
  hence "fd_keyguard_authorize_vote_txn \<lparr> identity_pubkey = ident \<rparr> ?d FD_KEYGUARD_SIGN_TYPE_ED25519 = Inr True"
    unfolding authorize_vote_iff by auto
  moreover have "length ?d \<le> FD_KEYGUARD_SIGN_REQ_MTU" using b(4) by (simp add: FD_TXN_MTU_def FD_KEYGUARD_SIGN_REQ_MTU_def)
  ultimately show ?thesis using authorize_txn[OF txn_recognised[OF t(1)]] b(1) t(1) by blast
qed

text \<open>
  C17: What the identity key signs for the vote sender, if it is the message of a transaction at all, is a vote: a
  legacy transaction that the rest of the validator takes for a simple vote, paid by the identity, whose only
  instruction calls the vote program with the tower sync discriminant.  The crank of the bundle tile is the
  only other role for which a transaction is signed.
\<close>

theorem keyguard_signs_only_votes:
  assumes "fd_txn_parse p = Inr (txn, n, fp)"
    "fd_keyguard_payload_authorize authority (drop (unat (txn_message_off txn)) p) role FD_KEYGUARD_SIGN_TYPE_ED25519 = Inr True"
  shows "role = FD_KEYGUARD_ROLE_BUNDLE_CRANK
    \<or> role = FD_KEYGUARD_ROLE_TXSEND \<and> fd_txn_is_simple_vote_transaction txn p = Inr True
      \<and> acct_at txn p 0 Inr = Inr (identity_pubkey authority)
      \<and> (\<exists>ins. txn_instr txn = [ins] \<and> 0 < unat (ti_data_sz ins)
          \<and> unat (ti_data_off ins) + unat (ti_data_sz ins) = length p \<and> p ! unat (ti_data_off ins) = 14)"
proof -
  let ?d = "drop (unat (txn_message_off txn)) p"
  consider "role = FD_KEYGUARD_ROLE_BUNDLE_CRANK"
    | "role = FD_KEYGUARD_ROLE_TXSEND" "fd_keyguard_authorize_vote_txn authority ?d FD_KEYGUARD_SIGN_TYPE_ED25519 = Inr True"
    using assms(2) unfolding authorize_txn[OF txn_recognised[OF assms(1)]] by blast
  thus ?thesis
  proof cases
    case 2
    then obtain s b where "vote_shape (identity_pubkey authority) ?d s b" unfolding authorize_vote_iff by blast
    from vote_of_shape[OF assms(1) this] 2(1) show ?thesis by blast
  qed blast
qed

theorem keyguard_signs_only_votes_witness:
  "\<exists>meta' payload sz txn fp.
    fd_tower_to_vote_txn example_tower 1 2 (replicate 32 3) (replicate 32 4) (replicate 32 5) (replicate 32 6) 7 meta_null (replicate FD_TXN_MTU 0)
      = Inr (meta', payload, sz)
    \<and> fd_txn_parse (take sz payload) = Inr (txn, sz, fp)
    \<and> fd_keyguard_payload_authorize \<lparr> identity_pubkey = replicate 32 4 \<rparr> (drop (unat (txn_message_off txn)) (take sz payload))
        FD_KEYGUARD_ROLE_TXSEND FD_KEYGUARD_SIGN_TYPE_ED25519 = Inr True
    \<and> fd_txn_is_simple_vote_transaction txn (take sz payload) = Inr True"
proof -
  have len: "length (replicate 32 (x :: u8)) = 32" "length (replicate FD_TXN_MTU (0 :: u8)) = FD_TXN_MTU"
    "length (t_votes example_tower) \<le> FD_TOWER_VOTE_MAX" for x
    by (simp_all add: example_tower_def FD_TOWER_VOTE_MAX_def)
  have role: "FD_KEYGUARD_ROLE_TXSEND \<noteq> FD_KEYGUARD_ROLE_BUNDLE_CRANK" by (simp add: FD_KEYGUARD_ROLE_TXSEND_def FD_KEYGUARD_ROLE_BUNDLE_CRANK_def)
  show ?thesis
    using vote_authorized[OF len(1,1,1,1,2,3), of 1 2 3 4 5 6 7 meta_null] keyguard_signs_only_votes role by blast
qed

text \<open>
  The validator can vote: the message of the transaction that the tower builds is authorized for the vote
  sender when the key is the identity that the transaction names, with the vote authority the same or another.
\<close>

theorem vote_txn_authorized:
  assumes "length ident = 32" "length auth = 32" "length acc = 32" "length blockhash = 32" "length txn_out = FD_TXN_MTU"
    "length (t_votes tower) \<le> FD_TOWER_VOTE_MAX"
  shows "\<exists>meta' payload sz txn fp.
    fd_tower_to_vote_txn tower bank_hash block_id blockhash ident auth acc timestamp meta txn_out = Inr (meta', payload, sz)
    \<and> fd_txn_parse (take sz payload) = Inr (txn, sz, fp)
    \<and> fd_keyguard_payload_authorize \<lparr> identity_pubkey = ident \<rparr> (drop (unat (txn_message_off txn)) (take sz payload))
        FD_KEYGUARD_ROLE_TXSEND FD_KEYGUARD_SIGN_TYPE_ED25519 = Inr True"
  by (rule vote_authorized[OF assms])

theorem vote_txn_authorized_witness:
  "\<exists>meta' payload sz txn fp.
    fd_tower_to_vote_txn example_tower 1 2 (replicate 32 3) (replicate 32 4) (replicate 32 5) (replicate 32 6) 7 meta_null (replicate FD_TXN_MTU 0)
      = Inr (meta', payload, sz)
    \<and> fd_txn_parse (take sz payload) = Inr (txn, sz, fp)
    \<and> fd_keyguard_payload_authorize \<lparr> identity_pubkey = replicate 32 4 \<rparr> (drop (unat (txn_message_off txn)) (take sz payload))
        FD_KEYGUARD_ROLE_TXSEND FD_KEYGUARD_SIGN_TYPE_ED25519 = Inr True"
  by (rule vote_txn_authorized) (simp_all add: example_tower_def FD_TOWER_VOTE_MAX_def)

end
