(* ===== verification/Vote_Path.thy ===== *)
theory Vote_Path
  imports Keyguard_Theorems Vote_Theorems Tower_Decision
begin

text \<open>A vote on its way: from the push onto the tower to the signed transaction.\<close>

text \<open>The root in the transaction, and the condition that it lies below the votes.\<close>

definition txn_root :: "fd_tower \<Rightarrow> u64" where
  "txn_root tower = (if t_root tower = ULONG_MAX then 0 else t_root tower)"

definition tower_rooted :: "fd_tower \<Rightarrow> bool" where
  "tower_rooted tower \<longleftrightarrow> votes_ok (t_votes tower) \<and> (\<forall>v \<in> set (t_votes tower). txn_root tower \<le> vote_slot v)"

text \<open>
  A vote is pushed and the root it completes, if there is one, replaces the root of the tower: what is left
  of the update in \<^verbatim>\<open>replay_slot_completed\<close> (\<^verbatim>\<open>discof/tower/fd_tower_tile.c\<close>) for the votes and
  the root.
\<close>

definition vote_and_root :: "u64 \<Rightarrow> fd_tower \<Rightarrow> fd_tower option" where
  "vote_and_root slot tower =
     map_option (\<lambda>(root, tower'). if root = ULONG_MAX then tower' else tower'\<lparr> t_root := root \<rparr>) (push_vote_on slot tower)"

lemma sorted_slots: "votes_ok votes \<Longrightarrow> sorted (map vote_slot votes)"
  by (auto simp: votes_ok_def below_def sorted_map sorted_wrt_map elim!: sorted_wrt_mono_rel[rotated])

lemma vote_and_root_rooted:
  assumes ok: "tower_rooted tower" and n: "newer_vote (t_votes tower) slot" "txn_root tower \<le> slot"
  shows "\<exists>tower'. vote_and_root slot tower = Some tower' \<and> tower_rooted tower' \<and> t_votes tower' \<noteq> [] \<and> vote_slot (last (t_votes tower')) = slot"
proof -
  let ?votes = "t_votes tower" and ?kept = "kept_votes (t_votes tower) slot"
  have v: "votes_ok ?votes" "\<forall>v \<in> set ?votes. txn_root tower \<le> vote_slot v" using ok by (auto simp: tower_rooted_def)
  have new: "?votes = [] \<or> vote_slot (last ?votes) < slot" "unat slot < 2 ^ 63" using n(1) by (simp_all add: newer_vote_def)
  let ?full = "simulate_vote ?votes slot = FD_TOWER_VOTE_MAX"
  let ?root = "if ?full then vote_slot (hd ?votes) else ULONG_MAX" and ?new = "relock ?kept @ [\<lparr> vote_slot = slot, vote_conf = 1 \<rparr>]"
  have p: "push_vote ?votes slot = Some (?root, ?new)" by (rule push_vote_result[OF v(1) new(1)])
  have nok: "votes_ok ?new" by (rule votes_ok_push[OF v(1) new p])
  have slots: "vote_slot ` set ?new = insert slot (vote_slot ` set ?kept)"
    by (metis (no_types, lifting) Un_insert_right empty_set fd_tower_vote.select_convs(1) image_Un image_insert image_empty list.simps(15)
      list.set_map map_slot_relock set_append sup_bot_right)
  have old: "x \<le> vote_slot v" if "v \<in> set ?new" "\<forall>w \<in> set ?kept. x \<le> vote_slot w" "x \<le> slot" for v x
    using slots that by (metis (no_types, lifting) imageE imageI insertE)
  define tower' where "tower' = (if ?root = ULONG_MAX then tower\<lparr> t_votes := ?new \<rparr> else tower\<lparr> t_votes := ?new, t_root := ?root \<rparr>)"
  have run: "vote_and_root slot tower = Some tower'" by (simp add: vote_and_root_def push_vote_on_def p tower'_def)
  have "\<forall>v \<in> set ?new. txn_root tower' \<le> vote_slot v"
  proof (cases "?root = ULONG_MAX")
    case True
    hence "txn_root tower' = txn_root tower" by (simp add: tower'_def txn_root_def)
    thus ?thesis using old v(2) kept_subset n(2) by (metis subsetD)
  next
    case False
    hence full: "?full" by (simp split: if_splits)
    hence len: "length ?votes = FD_TOWER_VOTE_MAX" using v(1) simulate_vote_le[of ?votes slot] by (simp add: votes_ok_def)
    hence ne: "?votes \<noteq> []" by (auto simp: FD_TOWER_VOTE_MAX_def)
    have kept: "?kept = tl ?votes" using full len by (simp add: kept_votes_def Let_def)
    have s: "txn_root tower' = vote_slot (hd ?votes)" using False full by (simp add: tower'_def txn_root_def)
    have "sorted_wrt below (hd ?votes # tl ?votes)" using v(1) ne by (simp add: votes_ok_def)
    hence "\<forall>w \<in> set ?kept. vote_slot (hd ?votes) \<le> vote_slot w" unfolding kept by (auto simp: below_def)
    moreover have "vote_slot (hd ?votes) \<le> vote_slot (last ?votes)"
      using sorted_slots[OF v(1)] ne by (cases ?votes) auto
    hence "vote_slot (hd ?votes) \<le> slot" using ne new(1) by auto
    ultimately show ?thesis using old unfolding s by blast
  qed
  moreover have "t_votes tower' = ?new" by (simp add: tower'_def)
  ultimately show ?thesis using run nok by (auto simp: tower_rooted_def)
qed

text \<open>The built transaction is read and authorized as one.\<close>

lemma vote_delivered:
  assumes len: "length ident = 32" "length auth = 32" "length acc = 32" "length blockhash = 32" "length txn_out = FD_TXN_MTU"
    and votes: "length (t_votes tower) \<le> FD_TOWER_VOTE_MAX" "sorted (txn_root tower # map vote_slot (t_votes tower))"
  shows "\<exists>meta' payload sz txn fp.
    fd_tower_to_vote_txn tower bank_hash block_id blockhash ident auth acc timestamp meta txn_out = Inr (meta', payload, sz)
    \<and> fd_txn_parse (take sz payload) = Inr (txn, sz, fp)
    \<and> fd_txn_parse_simple_vote txn (take sz payload) = Inr (Some (ident, acc, last (txn_root tower # map vote_slot (t_votes tower))))
    \<and> fd_keyguard_payload_authorize \<lparr> identity_pubkey = ident \<rparr> (drop (unat (txn_message_off txn)) (take sz payload))
        FD_KEYGUARD_ROLE_TXSEND FD_KEYGUARD_SIGN_TYPE_ED25519 = Inr True"
  using vote_txn_reads[OF len votes(1) votes(2)[unfolded txn_root_def], of bank_hash block_id timestamp meta, folded txn_root_def]
    vote_authorized[OF len votes(1), of bank_hash block_id timestamp meta] by force

end
