(* ===== verification/Spec2Isabelle.thy ===== *)
theory Spec2Isabelle
  imports Vm_Theorems Fd_Murmur3 Fd_Sat Vote_Theorems Tower_Theorems Keyguard_Theorems Vote_Path
begin

text \<open>
  Firedancer, a validator for the Solana network: a verification library for the parts that decide what the
  validator executes, what it votes for and what it signs.

  \<^bold>\<open>The program and its parts.\<close>  Programs on the chain are sBPF bytecode; the virtual machine of
  \<^verbatim>\<open>src/flamenco/vm\<close> validates and interprets them.  Replayed blocks form a tree;
  \<^verbatim>\<open>src/choreo/ghost\<close> weighs its forks by the stake of their voters, and
  \<^verbatim>\<open>src/choreo/tower\<close> holds the validator's own votes, decides by the rules of Tower BFT
  whether to vote for the best fork, and builds the vote transaction.  The keyguard of
  \<^verbatim>\<open>src/disco/keyguard\<close> decides whether the identity key signs it.  Other validators parse
  the transaction (\<^verbatim>\<open>src/ballet/txn\<close>), read the vote for their fork choice
  (\<^verbatim>\<open>src/choreo/tower/fd_tower_serdes.c\<close>), and execute the vote program
  (\<^verbatim>\<open>src/flamenco/runtime/program\<close>), which replaces the tower in the vote account; the
  tower is reconciled with that account.

  \<^bold>\<open>Shared theories.\<close>  \<open>Fd_Prelude\<close>: the C integer types as words, byte order, the saturating
  helpers, lists and words, and machines run with fuel (locale \<open>fueled_machine\<close>).  \<open>Fd_Sat\<close>: the helpers of
  \<^verbatim>\<open>util/bits/fd_sat.h\<close> are clamps.  \<open>Fd_Double\<close>: doubles as rounded rationals.
  \<open>Fork_Tree\<close>, \<open>Level_Order\<close>: trees of parent pointers and breadth first walks over them.

  \<^bold>\<open>The virtual machine.\<close>  \<open>Fd_Murmur3\<close> (\<^verbatim>\<open>ballet/murmur3\<close>): the hash by which calls name
  functions, its inverse on program counters.  \<open>Vm_Instr\<close>, \<open>Vm_State\<close>, \<open>Vm_Mem\<close>, \<open>Vm_Init\<close>
  (\<^verbatim>\<open>fd_vm_private.h\<close>, \<^verbatim>\<open>fd_vm.h\<close>, \<^verbatim>\<open>fd_vm.c\<close>):
  instruction words, the machine as a record, host memory as a map of bytes, the software TLB and
  \<open>fd_vm_init\<close>.  \<open>Vm_Validate\<close> (\<open>fd_vm_validate\<close>), \<open>Vm_Jump_Table\<close>, \<open>Vm_Ops\<close>, \<open>Vm_Interp\<close>
  (\<^verbatim>\<open>fd_vm_interp_core.c\<close>): tables, handlers and loop; system calls are a parameter.
  Shown: the two tables agree (\<open>Vm_Agree\<close>); validated text never makes the host misbehave (\<open>Vm_Safe\<close>): every
  access to the text, the register file, the shadow stack, the call destinations and the tables is checked in
  the model, and the check never fails; it halts (\<open>Vm_Halts\<close>, an interpretation of \<open>fueled_machine\<close>); the
  batched compute meter equals a reference that charges before each instruction (\<open>Vm_Meter\<close>); a translated
  range lies in one region within its current size, and the search finds the region (\<open>Vm_Mem_Safe\<close>, locale
  \<open>address_translation\<close>), so a program writes only to its writable regions and, when a region grows, to the
  buffer of its account, which need not be the region (\<open>Vm_Confined\<close>); arithmetic and calls (\<open>Vm_Arith\<close>, \<open>Vm_Props\<close>).  The theorems are in \<open>Vm_Theorems\<close>.

  \<^bold>\<open>The vote program.\<close>  \<open>Vote_State\<close> (\<^verbatim>\<open>fd_vote_program.c\<close>,
  \<^verbatim>\<open>fd_vote_utils.c\<close>, \<^verbatim>\<open>fd_vote_state_versioned.c\<close>): landed votes,
  credits, the check of a proposed tower and its replacement.  \<open>Tower_Votes\<close>: the validator's deque of votes
  (\<open>simulate_vote\<close>, \<open>push_vote\<close>).  Both are interpretations of the locale \<open>tower_machine\<close>, a machine on which
  casting a vote pushes it.  Shown in \<open>Tower_Sync\<close>, \<open>Vote_Safe\<close>, \<open>Vote_Theorems\<close>: the invariant of the tower,
  that the two stay equal under the same votes, that a pushed tower is accepted, and what any accepted tower
  respects, whoever sent it.

  \<^bold>\<open>The fork choice.\<close>  \<open>Ghost\<close> (\<^verbatim>\<open>fd_ghost.c\<close>): blocks in a pool with left child and
  right sibling links, voters, and the operations.  \<open>Ghost_Votes\<close>, \<open>Ghost_Tree\<close>, \<open>Ghost_Choice\<close>,
  \<open>Ghost_Publish\<close>, \<open>Ghost_Theorems\<close>: in every reachable state of the step relation \<open>ghost_step\<close> there is one
  tree, and the weight of a block is the stake of the voters whose latest vote lies in its subtree; the choice
  is the greedy walk; marking and moving the root touch exactly a subtree.

  \<^bold>\<open>The voting rules.\<close>  \<open>Tower\<close>, \<open>Tower_Decision\<close> (\<^verbatim>\<open>fd_tower.c\<close>,
  \<^verbatim>\<open>fd_tower_stakes.c\<close>): blocks, lockout intervals and stakes, the four checks,
  \<open>fd_tower_vote_and_reset\<close> and \<open>fd_tower_reconcile\<close>.  \<open>Tower_Blocks\<close>, \<open>Tower_Safe\<close>, \<open>Tower_Switch\<close>,
  \<open>Tower_Total\<close>, \<open>Tower_Reconcile\<close>, \<open>Tower_Lockos\<close>, \<open>Tower_Theorems\<close>: a vote never breaks a live lockout, the
  votes of a reachable tower lie on one fork, the switch check counts what its definition says, the decision
  always comes, reconciliation adopts exactly the account's votes above the newer root, and the intervals of a slot are removed as they
  were inserted.

  \<^bold>\<open>Transactions.\<close>  \<open>Txn\<close> (\<^verbatim>\<open>fd_compact_u16.h\<close>, \<^verbatim>\<open>fd_txn.h\<close>,
  \<^verbatim>\<open>fd_txn_parse.c\<close>), \<open>Txn_Accounts\<close> (the account iterator of
  \<^verbatim>\<open>fd_txn.h\<close>), \<open>Txn_Generate\<close> (\<^verbatim>\<open>flamenco/txn/fd_txn_generate.c\<close>,
  \<open>fd_tower_to_vote_txn\<close>, \<open>fd_tower_count_vote\<close>), \<open>Tower_Serdes\<close>
  (\<^verbatim>\<open>fd_tower_serdes.c\<close>, \<open>fd_tower_from_vote_acc\<close>).  \<open>Txn_Parse\<close>, \<open>Txn_Bounds\<close>: the parser
  reads in bounds and its results are well formed.  \<open>Txn_Layout\<close>, \<open>Txn_Built\<close>: where each field lies, as
  equivalences.  \<open>Txn_Iter\<close>: the iterator is exact.  \<open>Serdes_Codec\<close>, \<open>Serdes_Sync\<close>: the locales \<open>codec\<close> and
  \<open>codec_pair\<close>, whose law is that decoding accepts exactly the encodings, interpreted for every field of the
  tower sync.  \<open>Vote_Account\<close>: reading vote accounts.  \<open>Txn_Gen_Ok\<close>, \<open>Vote_Txn\<close>: the builder, and what the
  reader gets back.  The theorems are in \<open>Txn_Theorems\<close>.

  \<^bold>\<open>The keyguard.\<close>  \<open>Keyguard\<close> (\<^verbatim>\<open>fd_keyguard_match.c\<close>,
  \<^verbatim>\<open>fd_keyguard_authorize.c\<close>): every matcher and every role.  \<open>Keyguard_Ok\<close>, \<open>Keyguard_Txn\<close>,
  \<open>Keyguard_Vote\<close>, \<open>Keyguard_Theorems\<close>: requests are read in bounds and have one type; every transaction that
  parses is recognised; what is signed for the vote sender is a vote of the identity.  \<open>Vote_Path\<close> and this
  theory put the parts together: a vote pushed onto the tower becomes a transaction that parses, reads back
  and is authorized.

  \<^bold>\<open>How code becomes definitions.\<close>  Structs are records, pools and shared arrays are maps from indices, maps
  of the source are functions to options, deques are lists.  A failed assertion, a null pointer or an access
  outside an array is a value (\<open>None\<close>, \<open>Undefined\<close>, \<open>Out_of_bounds\<close>, \<open>Crit\<close>, \<open>Overrun\<close>, a stuck interpreter), so that
  safety is a statement.  Error returns are the left side of a sum; rejections by the parser carry the line of
  the check.  Integers keep their width.  Positions in a payload are natural numbers with the wrap-around of
  \<open>ulong\<close> written out.  Log messages and metrics are left out.

  \<^bold>\<open>Loops and fuel.\<close>  Loops over lists are structural recursion.  Walks over links are
  \<open>partial_function (option)\<close>, where not returning is \<open>None\<close>; that they return is part of the theorems.  The
  interpreter runs with fuel: one pass over the text for each compute unit, and one more, is enough, because
  every backward jump costs at least one unit.

  \<^bold>\<open>Assumptions.\<close>  Slots are below \<open>2 ^ 63\<close>, which keeps expiry from wrapping.  The stake counted at any time
  fits 64 bits.  System calls keep what the interpreter relies on; a named hypothesis, with a witness that
  instantiates it.  A caller of the fork choice names blocks that are in it.  Each such hypothesis stands in the
  theorem that uses it.

  \<^bold>\<open>What was found.\<close>  \<open>fd_tower_verify\<close> refuses every tower of two votes or more.  Confirming a block right after
  its insertion marks nothing.  The switch and threshold checks compare by more than where the comments say at
  least.  \<open>fd_compact_tower_sync_ser\<close> can write past its buffer.  \<^verbatim>\<open>fd_vm.h\<close> says that a faulting
  instruction is not charged and that speculation can hide an exceeded budget behind another fault; the
  interpreter charges it and reports the budget.  Four more comments differ from the code
  (\<open>FD_VM_INTERP_FAULT\<close>, \<open>fd_txn_add_instr\<close>, two in the keyguard).

  \<^bold>\<open>Not modelled.\<close>  System calls, the ELF loader, the other native programs, banks and the account database;
  gossip, repair, replay and the tiles around the components above; networking, cryptography and erasure
  codes; the lock free queues, whose correctness is about the memory model; block packing, leader
  schedule, storage and configuration; \<^verbatim>\<open>fd_txn_build.c\<close>; shared memory constructors and
  printers of the modelled components; and the authorization, withdrawal and conversion code of the vote
  program.
\<close>

section \<open>A vote on its way\<close>

text \<open>
  C20: A vote that the tower takes gets out.  Pushing a newer slot onto a well formed tower succeeds and leaves a
  well formed tower with the slot on top; the transaction built from it fits the packet, parses, reads back
  as a vote of the identity for that slot on the vote account; and the keyguard authorizes its message for the
  vote sender.
\<close>

theorem cast_vote_delivered:
  assumes "tower_rooted tower" "newer_vote (t_votes tower) slot" "txn_root tower \<le> slot"
    and "length ident = 32" "length auth = 32" "length acc = 32" "length blockhash = 32" "length txn_out = FD_TXN_MTU"
  shows "\<exists>tower' meta' payload sz txn fp.
    vote_and_root slot tower = Some tower' \<and> tower_rooted tower'
    \<and> fd_tower_to_vote_txn tower' bank_hash block_id blockhash ident auth acc timestamp meta txn_out = Inr (meta', payload, sz)
    \<and> fd_txn_parse (take sz payload) = Inr (txn, sz, fp)
    \<and> fd_txn_parse_simple_vote txn (take sz payload) = Inr (Some (ident, acc, slot))
    \<and> fd_keyguard_payload_authorize \<lparr> identity_pubkey = ident \<rparr> (drop (unat (txn_message_off txn)) (take sz payload))
        FD_KEYGUARD_ROLE_TXSEND FD_KEYGUARD_SIGN_TYPE_ED25519 = Inr True"
proof -
  obtain tower' where t: "vote_and_root slot tower = Some tower'" "tower_rooted tower'" "t_votes tower' \<noteq> []" "vote_slot (last (t_votes tower')) = slot"
    using vote_and_root_rooted[OF assms(1-3)] by blast
  have v: "length (t_votes tower') \<le> FD_TOWER_VOTE_MAX" "sorted (txn_root tower' # map vote_slot (t_votes tower'))"
    using t(2) sorted_slots[of "t_votes tower'"] by (auto simp: tower_rooted_def votes_ok_def)
  have "last (txn_root tower' # map vote_slot (t_votes tower')) = slot" using t(3,4) by (simp add: last_map)
  thus ?thesis using vote_delivered[OF assms(4-8) v, of bank_hash block_id timestamp meta] t(1,2) by metis
qed

theorem cast_vote_delivered_witness:
  "\<exists>tower' meta' payload sz txn fp.
    vote_and_root 9 example_tower = Some tower' \<and> tower_rooted tower'
    \<and> fd_tower_to_vote_txn tower' 1 2 (replicate 32 3) (replicate 32 4) (replicate 32 4) (replicate 32 6) 7 meta_null (replicate FD_TXN_MTU 0)
        = Inr (meta', payload, sz)
    \<and> fd_txn_parse (take sz payload) = Inr (txn, sz, fp)
    \<and> fd_txn_parse_simple_vote txn (take sz payload) = Inr (Some (replicate 32 4, replicate 32 6, 9))
    \<and> fd_keyguard_payload_authorize \<lparr> identity_pubkey = replicate 32 4 \<rparr> (drop (unat (txn_message_off txn)) (take sz payload))
        FD_KEYGUARD_ROLE_TXSEND FD_KEYGUARD_SIGN_TYPE_ED25519 = Inr True"
  by (rule cast_vote_delivered)
    (simp_all add: example_tower_def tower_rooted_def txn_root_def votes_ok_def vote_ok_def below_def newer_vote_def FD_TOWER_VOTE_MAX_def)

end
